(* ===== verification/Prelude.thy ===== *)
theory Prelude
  imports Main "HOL-Library.Word" "HOL-Library.AList"
    "HOL-Library.List_Lexorder" "HOL-Library.Char_ord"
begin

text \<open>
  Shared vocabulary of the development: results and errors of the program, machine
  integers with the saturating operations the code uses, time stamps, the two
  dictionaries of the standard library (hash map and ordered map) behind one interface,
  and the list operations that several components share.  Strings are UTF-8 byte strings (\<open>char list\<close>), so \<open>length\<close> is
  Rust's \<open>len\<close>.
\<close>

named_theorems invariant_intros
  \<open>preservation of the components' invariants\<close>

named_theorems frame_simps
  \<open>what an operation leaves unchanged\<close>


section \<open>Results\<close>

text \<open>
  An \<open>anyhow::Error\<close> is a root cause under a stack of contexts.  \<open>Panic\<close> is not a
  value of the program: it marks the executions that unwind.
\<close>

datatype cause =
    Message string
  | AcknowledgementUnknown string
  | DesktopIpcRemoteError string string

datatype error =
    Root cause
  | Context string error
  | Panic string

type_synonym 'a result = "error + 'a"

abbreviation bail :: "string \<Rightarrow> 'a result" where
  "bail m \<equiv> Inl (Root (Message m))"

abbreviation panic :: "string \<Rightarrow> 'a result" where
  "panic m \<equiv> Inl (Panic m)"

fun with_context :: "string \<Rightarrow> 'a result \<Rightarrow> 'a result" where
  "with_context m (Inl (Panic p)) = Inl (Panic p)"
| "with_context m (Inl e) = Inl (Context m e)"
| "with_context m (Inr a) = Inr a"

definition ok_or :: "error \<Rightarrow> 'a option \<Rightarrow> 'a result" where
  "ok_or e x = (case x of None \<Rightarrow> Inl e | Some a \<Rightarrow> Inr a)"

definition bindR :: "'a result \<Rightarrow> ('a \<Rightarrow> 'b result) \<Rightarrow> 'b result" where
  "bindR r f = (case r of Inl e \<Rightarrow> Inl e | Inr a \<Rightarrow> f a)"

lemma bindR_simps [simp]:
  "bindR (Inl e) f = Inl e"
  "bindR (Inr a) f = f a"
  by (simp_all add: bindR_def)

lemma bindR_Inr_iff: "bindR r f = Inr b \<longleftrightarrow> (\<exists>a. r = Inr a \<and> f a = Inr b)"
  by (cases r) auto

lemma ok_or_simps [simp]:
  "ok_or e None = Inl e"
  "ok_or e (Some a) = Inr a"
  by (simp_all add: ok_or_def)

lemma ok_or_Inr_iff [simp]: "ok_or e x = Inr a \<longleftrightarrow> x = Some a"
  by (cases x) auto

definition unwrap_or :: "'a option \<Rightarrow> 'a \<Rightarrow> 'a" where
  "unwrap_or x d = (case x of Some a \<Rightarrow> a | None \<Rightarrow> d)"

lemma unwrap_or_simps [simp]:
  "unwrap_or None d = d"
  "unwrap_or (Some a) d = a"
  by (simp_all add: unwrap_or_def)

text \<open>\<open>for x in xs { f(x)?; }\<close>: the first error stops the loop.\<close>

fun check_all :: "('a \<Rightarrow> unit result) \<Rightarrow> 'a list \<Rightarrow> unit result" where
  "check_all f [] = Inr ()"
| "check_all f (x # xs) = bindR (f x) (\<lambda>_. check_all f xs)"

lemma check_all_Inr_iff [simp]: "check_all f xs = Inr u \<longleftrightarrow> (\<forall>x \<in> set xs. f x = Inr ())"
  by (induction xs) (auto simp: bindR_Inr_iff)

text \<open>\<open>iter().find_map(f)\<close>.\<close>

fun find_map :: "('a \<Rightarrow> 'b option) \<Rightarrow> 'a list \<Rightarrow> 'b option" where
  "find_map f [] = None"
| "find_map f (x # xs) = (case f x of Some y \<Rightarrow> Some y | None \<Rightarrow> find_map f xs)"

lemma find_map_Some: "find_map f xs = Some y \<Longrightarrow> \<exists>x \<in> set xs. f x = Some y"
  by (induction xs) (auto split: option.splits)

lemma find_map_None: "find_map f xs = None \<longleftrightarrow> (\<forall>x \<in> set xs. f x = None)"
  by (induction xs) (auto split: option.splits)

fun is_panic :: "error \<Rightarrow> bool" where
  "is_panic (Panic m) = True"
| "is_panic (Root c) = False"
| "is_panic (Context m e) = is_panic e"

text \<open>\<open>Display\<close> of an error shows its outermost message, the alternate form the whole chain.\<close>

fun cause_text :: "cause \<Rightarrow> string" where
  "cause_text (Message m) = m"
| "cause_text (AcknowledgementUnknown m) = ''provider acknowledgement is unknown: '' @ m"
| "cause_text (DesktopIpcRemoteError meth m) =
     ''Codex Desktop IPC '' @ meth @ '' failed: '' @ m"

fun error_text :: "error \<Rightarrow> string" where
  "error_text (Root c) = cause_text c"
| "error_text (Context m e) = m"
| "error_text (Panic m) = m"

fun error_chain_text :: "error \<Rightarrow> string" where
  "error_chain_text (Root c) = cause_text c"
| "error_chain_text (Context m e) = m @ '': '' @ error_chain_text e"
| "error_chain_text (Panic m) = m"


section \<open>Machine integers\<close>

type_synonym u64 = "64 word"
type_synonym u32 = "32 word"

definition u64_max :: nat where
  "u64_max = 2 ^ 64 - 1"

definition u64_of_nat_sat :: "nat \<Rightarrow> u64" where
  "u64_of_nat_sat n = word_of_nat (min n u64_max)"

text \<open>Rust's \<open>saturating_mul\<close>, \<open>saturating_add\<close> and \<open>saturating_pow\<close> on \<open>u64\<close>.\<close>

definition sat_mul :: "u64 \<Rightarrow> u64 \<Rightarrow> u64" where
  "sat_mul a b = u64_of_nat_sat (unat a * unat b)"

definition sat_add :: "u64 \<Rightarrow> u64 \<Rightarrow> u64" where
  "sat_add a b = u64_of_nat_sat (unat a + unat b)"

definition sat_pow :: "u64 \<Rightarrow> nat \<Rightarrow> u64" where
  "sat_pow a n = u64_of_nat_sat (unat a ^ n)"

text \<open>\<open>saturating_mul\<close> on \<open>usize\<close>, whose values are natural numbers up to \<open>u64_max\<close>.\<close>

definition usize_sat_mul :: "nat \<Rightarrow> nat \<Rightarrow> nat" where
  "usize_sat_mul a b = min (a * b) u64_max"

definition usize_sat_add :: "nat \<Rightarrow> nat \<Rightarrow> nat" where
  "usize_sat_add a b = min (a + b) u64_max"

definition u32_sat_add :: "u32 \<Rightarrow> u32 \<Rightarrow> u32" where
  "u32_sat_add a b = word_of_nat (min (unat a + unat b) (2 ^ 32 - 1))"

lemma unat_u64_bound: "unat (a :: u64) \<le> u64_max"
proof -
  have "unat a < 2 ^ LENGTH(64)" by (rule unsigned_less)
  then show ?thesis by (simp add: u64_max_def)
qed

lemma unat_u64_of_nat_sat [simp]: "unat (u64_of_nat_sat n) = min n u64_max"
proof -
  have "min n u64_max < 2 ^ LENGTH(64)"
    by (simp add: u64_max_def)
  then show ?thesis
    by (simp add: u64_of_nat_sat_def unat_of_nat)
qed

lemma unat_sat_ops:
  "unat (sat_mul a b) = min (unat a * unat b) u64_max"
  "unat (sat_add a b) = min (unat a + unat b) u64_max"
  "unat (sat_pow a n) = min (unat a ^ n) u64_max"
  by (simp_all add: sat_mul_def sat_add_def sat_pow_def)

lemma unat_word_max: "unat (max a b) = max (unat a) (unat b)"
  by (simp add: max_def word_le_nat_alt)

lemma unat_word_min: "unat (min a b) = min (unat a) (unat b)"
  by (simp add: min_def word_le_nat_alt)

lemma unat_u32_sat_add: "unat (u32_sat_add a b) = min (unat a + unat b) (2 ^ 32 - 1)"
proof -
  have "min (unat a + unat b) (2 ^ 32 - 1) < 2 ^ LENGTH(32)"
    by simp
  then show ?thesis
    by (simp add: u32_sat_add_def unat_of_nat)
qed


section \<open>Time\<close>

text \<open>
  A \<open>DateTime<Utc>\<close> is the number of nanoseconds since the epoch and a \<open>Duration\<close> a
  number of nanoseconds, compared as integers.  Building a duration from seconds and
  moving a time stamp by a duration belong to the chrono crate and are arguments of the
  definitions that use them; \<open>None\<close> is the panic chrono documents for results out of its
  range; \<open>ch_show\<close> is the text of a time stamp.  \<open>chrono_exact\<close> is what the code relies on: a result that is returned is the
  exact one.
\<close>

type_synonym timestamp = int
type_synonym duration = int

record chrono =
  ch_seconds :: "int \<Rightarrow> duration option"
  ch_plus :: "timestamp \<Rightarrow> duration \<Rightarrow> timestamp option"
  ch_minus :: "timestamp \<Rightarrow> duration \<Rightarrow> timestamp option"
  ch_show :: "timestamp \<Rightarrow> string"

definition nanos :: int where
  "nanos = 1000000000"

definition days :: "int \<Rightarrow> duration" where
  "days n = n * 86400 * nanos"

definition chrono_exact :: "chrono \<Rightarrow> bool" where
  "chrono_exact ch \<longleftrightarrow>
     (\<forall>s d. ch_seconds ch s = Some d \<longrightarrow> d = s * nanos) \<and>
     (\<forall>t d r. ch_plus ch t d = Some r \<longrightarrow> r = t + d) \<and>
     (\<forall>t d r. ch_minus ch t d = Some r \<longrightarrow> r = t - d)"

text \<open>
  The documented ranges: a duration holds at most \<open>i64::MAX\<close> milliseconds, and building
  one outside of it panics, as does leaving the calendar's range.  This instance is what
  the witnesses run on.
\<close>

definition chrono_reference :: chrono where
  "chrono_reference =
     \<lparr>ch_seconds = (\<lambda>s. if \<bar>s\<bar> \<le> (2 ^ 63 - 1) div 1000 then Some (s * nanos) else None),
      ch_plus = (\<lambda>t d. if \<bar>t + d\<bar> \<le> 8210266876799 * nanos then Some (t + d) else None),
      ch_minus = (\<lambda>t d. if \<bar>t - d\<bar> \<le> 8210266876799 * nanos then Some (t - d) else None),
      ch_show = (\<lambda>t. ''time'')\<rparr>"

lemma chrono_reference_exact [simp]: "chrono_exact chrono_reference"
  by (simp add: chrono_exact_def chrono_reference_def)

lemma chrono_exactD:
  assumes "chrono_exact ch"
  shows "ch_seconds ch s = Some d \<Longrightarrow> d = s * nanos"
    and "ch_plus ch t d = Some r \<Longrightarrow> r = t + d"
    and "ch_minus ch t d = Some r \<Longrightarrow> r = t - d"
  using assms by (auto simp: chrono_exact_def)

text \<open>\<open>now - Duration::seconds(n)\<close>, with the panics of both operations.\<close>

definition minus_seconds :: "chrono \<Rightarrow> timestamp \<Rightarrow> int \<Rightarrow> timestamp result" where
  "minus_seconds ch now n =
     bindR (ok_or (Panic ''TimeDelta::seconds out of bounds'') (ch_seconds ch n))
       (\<lambda>d. ok_or (Panic ''DateTime - TimeDelta overflowed'') (ch_minus ch now d))"

text \<open>\<open>start + Duration::seconds(n)\<close>.\<close>

definition plus_seconds :: "chrono \<Rightarrow> timestamp \<Rightarrow> int \<Rightarrow> timestamp result" where
  "plus_seconds ch start n =
     bindR (ok_or (Panic ''TimeDelta::seconds out of bounds'') (ch_seconds ch n))
       (\<lambda>d. ok_or (Panic ''DateTime + TimeDelta overflowed'') (ch_plus ch start d))"

lemma plus_seconds_exact:
  "chrono_exact ch \<Longrightarrow> plus_seconds ch start n = Inr c \<Longrightarrow> c = start + n * nanos"
  by (auto simp: plus_seconds_def bindR_Inr_iff dest: chrono_exactD)

lemma plus_seconds_reference:
  assumes "\<bar>n\<bar> \<le> (2 ^ 63 - 1) div 1000" and "\<bar>start + n * nanos\<bar> \<le> 8210266876799 * nanos"
  shows "plus_seconds chrono_reference start n = Inr (start + n * nanos)"
  using assms by (simp add: plus_seconds_def chrono_reference_def)

lemma minus_seconds_exact:
  "chrono_exact ch \<Longrightarrow> minus_seconds ch now n = Inr c \<Longrightarrow> c = now - n * nanos"
  by (auto simp: minus_seconds_def bindR_Inr_iff dest: chrono_exactD)

lemma minus_seconds_Inl: "minus_seconds ch now n = Inl e \<Longrightarrow> is_panic e"
  by (auto simp: minus_seconds_def bindR_def ok_or_def split: option.splits)

lemma minus_seconds_reference:
  assumes "\<bar>n\<bar> \<le> (2 ^ 63 - 1) div 1000" and "\<bar>now - n * nanos\<bar> \<le> 8210266876799 * nanos"
  shows "minus_seconds chrono_reference now n = Inr (now - n * nanos)"
  using assms by (simp add: minus_seconds_def chrono_reference_def)

text \<open>The maximum of two optional values: \<open>None\<close> is below every \<open>Some\<close>.\<close>

fun opt_max :: "timestamp option \<Rightarrow> timestamp option \<Rightarrow> timestamp option" where
  "opt_max None y = y"
| "opt_max (Some a) None = Some a"
| "opt_max (Some a) (Some b) = Some (max a b)"

lemma opt_max_None_right [simp]: "opt_max x None = x"
  by (cases x) auto

lemma opt_max_idem [simp]: "opt_max x x = x"
  by (cases x) auto

lemma opt_max_assoc: "opt_max (opt_max x y) z = opt_max x (opt_max y z)"
  by (cases x; cases y; cases z) (auto simp: max.assoc)

lemma opt_max_absorb [simp]: "opt_max (opt_max x y) y = opt_max x y"
  by (simp add: opt_max_assoc)


section \<open>Dictionaries\<close>

text \<open>
  A \<open>HashMap\<close> is an association list with distinct keys whose order stands for the
  (unspecified) iteration order; a \<open>BTreeMap\<close> one that is sorted by key.
\<close>

type_synonym ('k, 'v) dict = "('k \<times> 'v) list"

definition hm_get :: "('k, 'v) dict \<Rightarrow> 'k \<Rightarrow> 'v option" where
  "hm_get m k = map_of m k"

definition hm_insert :: "'k \<Rightarrow> 'v \<Rightarrow> ('k, 'v) dict \<Rightarrow> ('k, 'v) dict" where
  "hm_insert k v m = AList.update k v m"

definition hm_remove :: "'k \<Rightarrow> ('k, 'v) dict \<Rightarrow> ('k, 'v) dict" where
  "hm_remove k m = filter (\<lambda>(k', v). k' \<noteq> k) m"

definition hm_retain :: "('k \<Rightarrow> 'v \<Rightarrow> bool) \<Rightarrow> ('k, 'v) dict \<Rightarrow> ('k, 'v) dict" where
  "hm_retain P m = filter (\<lambda>(k, v). P k v) m"

definition hm_keys :: "('k, 'v) dict \<Rightarrow> 'k list" where
  "hm_keys m = map fst m"

definition hm_values :: "('k, 'v) dict \<Rightarrow> 'v list" where
  "hm_values m = map snd m"

definition hm_wf :: "('k, 'v) dict \<Rightarrow> bool" where
  "hm_wf m \<longleftrightarrow> distinct (map fst m)"

fun bt_insert :: "'k::linorder \<Rightarrow> 'v \<Rightarrow> ('k, 'v) dict \<Rightarrow> ('k, 'v) dict" where
  "bt_insert k v [] = [(k, v)]"
| "bt_insert k v ((k', v') # m) =
     (if k < k' then (k, v) # (k', v') # m
      else if k = k' then (k, v) # m
      else (k', v') # bt_insert k v m)"

definition bt_wf :: "('k::linorder, 'v) dict \<Rightarrow> bool" where
  "bt_wf m \<longleftrightarrow> sorted_wrt (<) (map fst m)"

text \<open>What the clients of either map rely on.\<close>

locale dictionary =
  fixes insert :: "'k \<Rightarrow> 'v \<Rightarrow> ('k, 'v) dict \<Rightarrow> ('k, 'v) dict"
    and wf :: "('k, 'v) dict \<Rightarrow> bool"
  assumes get_insert: "hm_get (insert k v m) k' = (if k' = k then Some v else hm_get m k')"
    and wf_empty: "wf []"
    and wf_insert: "wf m \<Longrightarrow> wf (insert k v m)"
    and wf_filter: "wf m \<Longrightarrow> wf (filter P m)"
    and wf_distinct: "wf m \<Longrightarrow> distinct (map fst m)"
begin

lemma get_insert_same [simp]: "hm_get (insert k v m) k = Some v"
  by (simp add: get_insert)

lemma get_insert_other [simp]: "k' \<noteq> k \<Longrightarrow> hm_get (insert k v m) k' = hm_get m k'"
  by (simp add: get_insert)

lemma get_remove: "hm_get (hm_remove k m) k' = (if k' = k then None else hm_get m k')"
  unfolding hm_get_def hm_remove_def by (induction m) auto

lemma wf_remove: "wf m \<Longrightarrow> wf (hm_remove k m)"
  by (simp add: hm_remove_def wf_filter)

lemma wf_retain: "wf m \<Longrightarrow> wf (hm_retain P m)"
  by (simp add: hm_retain_def wf_filter)

lemma get_mem: "wf m \<Longrightarrow> (k, v) \<in> set m \<longleftrightarrow> hm_get m k = Some v"
  by (auto simp: hm_get_def dest: wf_distinct map_of_SomeD intro: map_of_is_SomeI)

lemma get_retain:
  assumes "wf m"
  shows "hm_get (hm_retain P m) k =
    (case hm_get m k of None \<Rightarrow> None | Some v \<Rightarrow> if P k v then Some v else None)"
proof (cases "hm_get m k")
  case None
  then have "k \<notin> fst ` set m"
    by (simp add: hm_get_def map_of_eq_None_iff)
  then have "hm_get (hm_retain P m) k = None"
    by (force simp: hm_get_def hm_retain_def map_of_eq_None_iff)
  with None show ?thesis by simp
next
  case (Some v)
  show ?thesis
  proof (cases "P k v")
    case True
    then have "(k, v) \<in> set (hm_retain P m)"
      using Some assms by (simp add: hm_retain_def get_mem)
    then show ?thesis
      using True Some get_mem [OF wf_retain [OF assms]] by simp
  next
    case False
    have "hm_get (hm_retain P m) k = None"
    proof (rule ccontr)
      assume "hm_get (hm_retain P m) k \<noteq> None"
      then obtain w where "(k, w) \<in> set (hm_retain P m)"
        using get_mem [OF wf_retain [OF assms]] by auto
      then have "(k, w) \<in> set m" and "P k w"
        by (auto simp: hm_retain_def)
      with assms Some False show False by (simp add: get_mem)
    qed
    with Some False show ?thesis by simp
  qed
qed

lemma values_iff: "wf m \<Longrightarrow> v \<in> set (hm_values m) \<longleftrightarrow> (\<exists>k. hm_get m k = Some v)"
  by (force simp: hm_values_def get_mem [symmetric])

lemma keys_iff: "k \<in> set (hm_keys m) \<longleftrightarrow> hm_get m k \<noteq> None"
  by (simp add: hm_keys_def hm_get_def map_of_eq_None_iff)

end

lemma fst_set_bt_insert: "fst ` set (bt_insert k v m) = insert k (fst ` set m)"
  by (induction k v m rule: bt_insert.induct) (simp_all add: insert_commute)

lemma bt_wf_insert: "bt_wf m \<Longrightarrow> bt_wf (bt_insert k v m)"
proof (induction m)
  case Nil
  then show ?case by (simp add: bt_wf_def)
next
  case (Cons a m)
  obtain k' v' where a: "a = (k', v')" by (cases a)
  have m: "bt_wf m" and below: "\<forall>x \<in> fst ` set m. k' < x"
    using Cons.prems by (auto simp: a bt_wf_def)
  have "\<forall>x \<in> fst ` set (bt_insert k v m). k' < x" if "k' < k"
    unfolding fst_set_bt_insert using below that by simp
  then show ?case
    using Cons.IH [OF m] below m
    by (auto simp: a bt_wf_def intro: order.strict_trans)
qed

interpretation hash: dictionary hm_insert hm_wf
  by unfold_locales
    (simp_all add: hm_get_def hm_insert_def hm_wf_def update_conv' distinct_update
      distinct_map_filter)

interpretation btree: dictionary bt_insert bt_wf
proof unfold_locales
  fix k k' :: "'k::linorder" and v :: 'v and m :: "('k, 'v) dict"
  show "hm_get (bt_insert k v m) k' = (if k' = k then Some v else hm_get m k')"
    by (induction k v m rule: bt_insert.induct) (auto simp: hm_get_def)
  show "bt_wf ([] :: ('k, 'v) dict)" by (simp add: bt_wf_def)
  show "bt_wf m \<Longrightarrow> bt_wf (bt_insert k v m)" by (rule bt_wf_insert)
  show "bt_wf m \<Longrightarrow> distinct (map fst m)"
    by (simp add: bt_wf_def strict_sorted_iff)
  show "bt_wf m \<Longrightarrow> bt_wf (filter P m)" for P
    by (auto simp: bt_wf_def sorted_wrt_map intro: sorted_wrt_filter)
qed

lemmas hm_simps = hm_get_def hm_insert_def hm_remove_def hm_retain_def hm_keys_def hm_values_def

text \<open>A \<open>HashSet\<close> or \<open>BTreeSet\<close> of strings is a set.\<close>


section \<open>Lists\<close>

text \<open>\<open>keep_last n xs\<close> is what \<open>drain(..len - n)\<close> leaves when \<open>n < len\<close>.\<close>

definition keep_last :: "nat \<Rightarrow> 'a list \<Rightarrow> 'a list" where
  "keep_last n xs = drop (length xs - n) xs"

lemma length_keep_last [simp]: "length (keep_last n xs) = min n (length xs)"
  by (simp add: keep_last_def)

lemma keep_last_all [simp]: "length xs \<le> n \<Longrightarrow> keep_last n xs = xs"
  by (simp add: keep_last_def)

lemma keep_last_Nil [simp]: "keep_last n [] = []"
  by (simp add: keep_last_def)

lemma keep_last_suffix: "\<exists>ys. xs = ys @ keep_last n xs"
  unfolding keep_last_def by (metis append_take_drop_id)

lemma set_keep_last: "set (keep_last n xs) \<subseteq> set xs"
  by (simp add: keep_last_def set_drop_subset)

lemma keep_last_snoc: "keep_last n (keep_last n xs @ [x]) = keep_last n (xs @ [x])"
proof (cases "n \<le> length xs")
  case True
  then have "Suc (length xs) - n = Suc (length xs - n)"
    by (rule Suc_diff_le)
  with True show ?thesis
    by (cases n) (auto simp: keep_last_def Suc_diff_Suc)
qed (simp add: keep_last_def)

lemma rev_take_rev: "rev (take n (rev xs)) = keep_last n xs"
  by (simp add: keep_last_def take_rev)

text \<open>
  A loop that appends each accepted element and drops the oldest one when the buffer
  exceeds \<open>n\<close> (\<open>logs.push(x); if logs.len() > n { logs.remove(0) }\<close>).
\<close>

fun push_bounded :: "nat \<Rightarrow> 'a list \<Rightarrow> 'a list \<Rightarrow> 'a list" where
  "push_bounded n buf [] = buf"
| "push_bounded n buf (x # xs) =
     (let buf' = buf @ [x]
      in push_bounded n (if length buf' > n then tl buf' else buf') xs)"

lemma push_bounded_keep_last:
  "length buf \<le> n \<Longrightarrow> push_bounded n buf xs = keep_last n (buf @ xs)"
proof (induction xs arbitrary: buf)
  case Nil
  then show ?case by simp
next
  case (Cons x xs)
  show ?case
  proof (cases "length buf < n")
    case True
    then show ?thesis using Cons.IH [of "buf @ [x]"] by simp
  next
    case False
    with Cons.prems have len: "length buf = n" by simp
    have "length (tl (buf @ [x])) \<le> n" using len by simp
    then have "push_bounded n (tl (buf @ [x])) xs = keep_last n (tl (buf @ [x]) @ xs)"
      by (rule Cons.IH)
    also have "\<dots> = keep_last n (buf @ x # xs)"
      using len by (cases buf) (simp_all add: keep_last_def Suc_diff_le)
    finally show ?thesis using len by (simp add: Let_def)
  qed
qed

text \<open>
  A log that is cut to its newest \<open>n\<close> entries when it has more than twice as many, and what
  such cuts leave of everything that was written.
\<close>

definition compacted :: "nat \<Rightarrow> 'a list \<Rightarrow> 'a list" where
  "compacted retention es =
     (if length es > usize_sat_mul retention 2 then keep_last retention es else es)"

definition recent_part :: "nat \<Rightarrow> 'a list \<Rightarrow> 'a list \<Rightarrow> bool" where
  "recent_part retention history es \<longleftrightarrow>
     (\<exists>dropped. history = dropped @ es) \<and> min retention (length history) \<le> length es"

lemma recent_part_append: "recent_part n history es \<Longrightarrow> recent_part n (history @ xs) (es @ xs)"
  by (auto simp: recent_part_def)

lemma recent_part_compacted:
  assumes "recent_part n history es"
  shows "recent_part n history (compacted n es)"
proof -
  obtain dropped where "history = dropped @ es"
    using assms by (auto simp: recent_part_def)
  moreover obtain ys where "es = ys @ keep_last n es"
    using keep_last_suffix by blast
  ultimately have "history = (dropped @ ys) @ keep_last n es" by simp
  with assms show ?thesis
    by (auto simp: compacted_def recent_part_def)
qed

text \<open>\<open>iter_mut().find(P)\<close> followed by an update in place.\<close>

fun update_first :: "('a \<Rightarrow> bool) \<Rightarrow> ('a \<Rightarrow> 'a) \<Rightarrow> 'a list \<Rightarrow> 'a list" where
  "update_first P f [] = []"
| "update_first P f (x # xs) = (if P x then f x # xs else x # update_first P f xs)"

lemma map_update_first [simp]:
  "(\<And>x. P x \<Longrightarrow> g (f x) = g x) \<Longrightarrow> map g (update_first P f xs) = map g xs"
  by (induction xs) auto

lemma length_update_first [simp]: "length (update_first P f xs) = length xs"
  by (induction xs) auto

lemma set_update_first: "x \<in> set (update_first P f xs) \<Longrightarrow> x \<in> set xs \<or> (\<exists>y \<in> set xs. P y \<and> x = f y)"
  by (induction xs) (auto split: if_splits)

lemma update_first_other: "x \<in> set xs \<Longrightarrow> \<not> P x \<Longrightarrow> x \<in> set (update_first P f xs)"
  by (induction xs) auto

lemma map_list_update_same: "i < length xs \<Longrightarrow> g y = g (xs ! i) \<Longrightarrow> map g (xs[i := y]) = map g xs"
  by (metis length_map list_update_id map_update nth_map)

lemma find_Some_mem: "find P xs = Some x \<Longrightarrow> x \<in> set xs \<and> P x"
  by (auto simp: find_Some_iff)

end
