(* ===== verification/Steps.thy ===== *)
theory Steps
  imports Prelude
begin

text \<open>
  Awaited calls with an effect, as the adapters of the providers chain them with \<open>?\<close>: an
  operation takes a state and gives a result and the state it leaves, which is kept when
  it fails.
\<close>

type_synonym ('a, 's) step = "'s \<Rightarrow> 'a result \<times> 's"

definition returnS :: "'a \<Rightarrow> ('a, 's) step" where
  "returnS a s = (Inr a, s)"

definition failS :: "error \<Rightarrow> ('a, 's) step" where
  "failS e s = (Inl e, s)"

definition liftS :: "'a result \<Rightarrow> ('a, 's) step" where
  "liftS r s = (r, s)"

definition bindS :: "('a, 's) step \<Rightarrow> ('a \<Rightarrow> ('b, 's) step) \<Rightarrow> ('b, 's) step" where
  "bindS f g s = (case f s of (Inl e, s') \<Rightarrow> (Inl e, s') | (Inr a, s') \<Rightarrow> g a s')"

lemma bindS_cases:
  assumes "bindS f g s = (r, s')"
  obtains (error) e where "f s = (Inl e, s')" and "r = Inl e"
    | (passed) a s1 where "f s = (Inr a, s1)" and "g a s1 = (r, s')"
  using assms by (cases "f s"; cases "fst (f s)") (auto simp: bindS_def)

definition with_contextS :: "string \<Rightarrow> ('a, 's) step \<Rightarrow> ('a, 's) step" where
  "with_contextS m f s = (case f s of (r, s') \<Rightarrow> (with_context m r, s'))"

lemma bindS_simps [simp]:
  "bindS (returnS a) g = g a"
  "bindS (failS e) g = failS e"
  "bindS (liftS (Inr a)) g = g a"
  by (auto simp: bindS_def returnS_def failS_def liftS_def)

end
