(* ===== verification/Text.thy ===== *)
theory Text
  imports Prelude
begin

text \<open>
  The string operations of the standard library that the program uses, on UTF-8 byte
  strings: prefix and substring tests, splitting, replacement, trimming, decimal numbers
  and the character classes.
\<close>


section \<open>Searching and splitting\<close>

definition starts_with :: "string \<Rightarrow> string \<Rightarrow> bool" where
  "starts_with p s \<longleftrightarrow> take (length p) s = p"

definition strip_prefix :: "string \<Rightarrow> string \<Rightarrow> string option" where
  "strip_prefix p s = (if starts_with p s then Some (drop (length p) s) else None)"

definition ends_with :: "string \<Rightarrow> string \<Rightarrow> bool" where
  "ends_with p s \<longleftrightarrow> starts_with (rev p) (rev s)"

fun contains_text :: "string \<Rightarrow> string \<Rightarrow> bool" where
  "contains_text p [] = (p = [])"
| "contains_text p (c # s) = (starts_with p (c # s) \<or> contains_text p s)"

definition contains_any :: "string list \<Rightarrow> string \<Rightarrow> bool" where
  "contains_any ps s = list_ex (\<lambda>p. contains_text p s) ps"

fun split_once :: "char \<Rightarrow> string \<Rightarrow> (string \<times> string) option" where
  "split_once d [] = None"
| "split_once d (c # s) =
     (if c = d then Some ([], s)
      else case split_once d s of None \<Rightarrow> None | Some (a, b) \<Rightarrow> Some (c # a, b))"

text \<open>\<open>split(d).next()\<close>: the part before the first separator.\<close>

definition split_first :: "char \<Rightarrow> string \<Rightarrow> string" where
  "split_first d s = takeWhile (\<lambda>c. c \<noteq> d) s"

lemma starts_with_append [simp]: "starts_with p (p @ s)"
  by (simp add: starts_with_def)

lemma starts_with_Nil [simp]: "starts_with [] s"
  by (simp add: starts_with_def)

lemma starts_with_iff: "starts_with p s \<longleftrightarrow> (\<exists>t. s = p @ t)"
proof
  assume "starts_with p s"
  then have "s = p @ drop (length p) s"
    by (metis append_take_drop_id starts_with_def)
  then show "\<exists>t. s = p @ t" ..
qed auto

lemma strip_prefix_append [simp]: "strip_prefix p (p @ s) = Some s"
  by (simp add: strip_prefix_def)

lemma strip_prefix_Some_iff: "strip_prefix p s = Some t \<longleftrightarrow> s = p @ t"
  by (auto simp: strip_prefix_def starts_with_iff)

lemma contains_text_iff: "contains_text p s \<longleftrightarrow> (\<exists>a b. s = a @ p @ b)"
proof (induction s)
  case Nil
  then show ?case by auto
next
  case (Cons c s)
  have "contains_text p (c # s) \<longleftrightarrow> (\<exists>b. c # s = p @ b) \<or> (\<exists>a b. s = a @ p @ b)"
    using Cons.IH by (simp add: starts_with_iff)
  also have "\<dots> \<longleftrightarrow> (\<exists>a b. c # s = a @ p @ b)"
    by (metis append_Cons append_Nil neq_Nil_conv list.inject)
  finally show ?case .
qed

lemma split_once_None: "split_once d s = None \<longleftrightarrow> d \<notin> set s"
  by (induction s) (auto split: option.splits)

lemma split_once_Some: "split_once d s = Some (a, b) \<longleftrightarrow> s = a @ d # b \<and> d \<notin> set a"
proof (induction s arbitrary: a)
  case (Cons c s)
  have "split_once d (c # s) = Some (a, b) \<longleftrightarrow>
      (c = d \<and> a = [] \<and> b = s) \<or> (c \<noteq> d \<and> (\<exists>a'. a = c # a' \<and> split_once d s = Some (a', b)))"
    by (auto split: option.splits)
  then show ?case
    by (cases a) (auto simp: Cons.IH)
qed simp

lemma split_once_append [simp]: "d \<notin> set a \<Longrightarrow> split_once d (a @ d # b) = Some (a, b)"
  by (simp add: split_once_Some)

lemma split_first_append [simp]: "d \<notin> set a \<Longrightarrow> split_first d (a @ d # b) = a"
  by (induction a) (auto simp: split_first_def)


section \<open>Replacement\<close>

text \<open>\<open>str::replace\<close> for a non-empty pattern: occurrences from left to right, without overlap.\<close>

function replace_text :: "string \<Rightarrow> string \<Rightarrow> string \<Rightarrow> string" where
  "replace_text p r s =
     (if p = [] \<or> s = [] then s
      else if starts_with p s then r @ replace_text p r (drop (length p) s)
      else hd s # replace_text p r (tl s))"
  by pat_completeness auto
termination
  by (relation "measure (\<lambda>(p, r, s). length s)") (auto simp: neq_Nil_conv)

declare replace_text.simps [simp del]

lemma replace_text_Nil [simp]: "replace_text p r [] = []"
  by (simp add: replace_text.simps)

lemma replace_text_match [simp]:
  "p \<noteq> [] \<Longrightarrow> replace_text p r (p @ s) = r @ replace_text p r s"
  by (subst replace_text.simps) simp

lemma replace_text_no_match: "\<not> contains_text p s \<Longrightarrow> replace_text p r s = s"
proof (induction s)
  case (Cons c s)
  then show ?case by (subst replace_text.simps) auto
qed simp

lemma replace_text_skip:
  "hd p \<notin> set a \<Longrightarrow> p \<noteq> [] \<Longrightarrow> replace_text p r (a @ s) = a @ replace_text p r s"
proof (induction a)
  case (Cons c a)
  have "\<not> starts_with p (c # a @ s)"
    using Cons.prems by (cases p) (auto simp: starts_with_def)
  with Cons show ?case
    by (subst replace_text.simps) auto
qed simp


section \<open>Characters\<close>

definition byte :: "char \<Rightarrow> nat" where
  "byte c = of_char c"

definition ascii_digit :: "char \<Rightarrow> bool" where
  "ascii_digit c \<longleftrightarrow> 48 \<le> byte c \<and> byte c \<le> 57"

definition ascii_upper :: "char \<Rightarrow> bool" where
  "ascii_upper c \<longleftrightarrow> 65 \<le> byte c \<and> byte c \<le> 90"

definition ascii_lower :: "char \<Rightarrow> bool" where
  "ascii_lower c \<longleftrightarrow> 97 \<le> byte c \<and> byte c \<le> 122"

definition ascii_alphanumeric :: "char \<Rightarrow> bool" where
  "ascii_alphanumeric c \<longleftrightarrow> ascii_digit c \<or> ascii_upper c \<or> ascii_lower c"

definition to_ascii_lowercase :: "string \<Rightarrow> string" where
  "to_ascii_lowercase s = map (\<lambda>c. if ascii_upper c then char_of (byte c + 32) else c) s"

definition eq_ignore_ascii_case :: "string \<Rightarrow> string \<Rightarrow> bool" where
  "eq_ignore_ascii_case a b \<longleftrightarrow> to_ascii_lowercase a = to_ascii_lowercase b"

text \<open>Some \<open>char::is_control\<close> occurs: 00 to 1F, 7F, or C2 followed by 80 to 9F.\<close>

fun has_control :: "string \<Rightarrow> bool" where
  "has_control [] = False"
| "has_control [c] = (byte c < 32 \<or> byte c = 127)"
| "has_control (c # d # s) =
     (byte c < 32 \<or> byte c = 127 \<or>
      (byte c = 194 \<and> 128 \<le> byte d \<and> byte d < 160) \<or> has_control (d # s))"

text \<open>The UTF-8 encodings of the characters with the property \<open>White_Space\<close>.\<close>

definition whitespace :: "string list" where
  "whitespace =
     [[CHR 0x09], [CHR 0x0A], [CHR 0x0B], [CHR 0x0C], [CHR 0x0D], [CHR 0x20],
      [CHR 0xC2, CHR 0x85], [CHR 0xC2, CHR 0xA0], [CHR 0xE1, CHR 0x9A, CHR 0x80]] @
     map (\<lambda>c. [CHR 0xE2, CHR 0x80, c])
       [CHR 0x80, CHR 0x81, CHR 0x82, CHR 0x83, CHR 0x84, CHR 0x85, CHR 0x86, CHR 0x87,
        CHR 0x88, CHR 0x89, CHR 0x8A, CHR 0xA8, CHR 0xA9, CHR 0xAF] @
     [[CHR 0xE2, CHR 0x81, CHR 0x9F], [CHR 0xE3, CHR 0x80, CHR 0x80]]"

fun strip_one :: "string list \<Rightarrow> string \<Rightarrow> string option" where
  "strip_one [] s = None"
| "strip_one (w # ws) s = (case strip_prefix w s of Some t \<Rightarrow> Some t | None \<Rightarrow> strip_one ws s)"

lemma strip_one_shorter:
  "strip_one ws s = Some t \<Longrightarrow> \<forall>w \<in> set ws. w \<noteq> [] \<Longrightarrow> length t < length s"
proof (induction ws)
  case (Cons w ws)
  then show ?case
    by (cases "strip_prefix w s") (auto simp: strip_prefix_Some_iff)
qed simp

lemma whitespace_nonempty: "\<forall>w \<in> set whitespace. w \<noteq> []"
  by (simp add: whitespace_def)

lemma rev_whitespace_nonempty: "\<forall>w \<in> set (map rev whitespace). w \<noteq> []"
  by (simp add: whitespace_def)

function trim_start :: "string \<Rightarrow> string" where
  "trim_start s = (case strip_one whitespace s of None \<Rightarrow> s | Some t \<Rightarrow> trim_start t)"
  by pat_completeness auto
termination
  by (relation "measure length") (auto dest: strip_one_shorter [OF _ whitespace_nonempty])

function trim_end_rev :: "string \<Rightarrow> string" where
  "trim_end_rev s =
     (case strip_one (map rev whitespace) s of None \<Rightarrow> s | Some t \<Rightarrow> trim_end_rev t)"
  by pat_completeness auto
termination
  by (relation "measure length") (auto dest: strip_one_shorter [OF _ rev_whitespace_nonempty])

declare trim_start.simps [simp del] trim_end_rev.simps [simp del]

definition trim :: "string \<Rightarrow> string" where
  "trim s = rev (trim_end_rev (rev (trim_start s)))"

text \<open>\<open>s.trim().is_empty()\<close>.\<close>

definition blank :: "string \<Rightarrow> bool" where
  "blank s \<longleftrightarrow> trim s = []"

lemma trim_start_fixed: "strip_one whitespace (trim_start s) = None"
proof (induction s rule: trim_start.induct)
  case (1 s)
  then show ?case
    by (cases "strip_one whitespace s")
      (simp_all add: trim_start.simps [of s])
qed

lemma trim_end_rev_fixed: "strip_one (map rev whitespace) (trim_end_rev s) = None"
proof (induction s rule: trim_end_rev.induct)
  case (1 s)
  then show ?case
    by (cases "strip_one (map rev whitespace) s")
      (simp_all add: trim_end_rev.simps [of s])
qed

lemma trim_start_id: "strip_one whitespace s = None \<Longrightarrow> trim_start s = s"
  by (simp add: trim_start.simps)

lemma trim_start_step: "strip_one whitespace s = Some t \<Longrightarrow> trim_start s = trim_start t"
  by (subst trim_start.simps) simp

lemma trim_end_rev_id: "strip_one (map rev whitespace) s = None \<Longrightarrow> trim_end_rev s = s"
  by (simp add: trim_end_rev.simps)

lemma trim_end_rev_step:
  "strip_one (map rev whitespace) s = Some t \<Longrightarrow> trim_end_rev s = trim_end_rev t"
  by (subst trim_end_rev.simps) simp

lemma strip_one_None_iff: "strip_one ws s = None \<longleftrightarrow> (\<forall>w \<in> set ws. \<not> starts_with w s)"
  by (induction ws) (auto simp: strip_prefix_def)

lemma trim_Nil [simp]: "trim [] = []"
proof -
  have "strip_one whitespace [] = None" and "strip_one (map rev whitespace) [] = None"
    using whitespace_nonempty rev_whitespace_nonempty
    by (auto simp: strip_one_None_iff starts_with_def)
  then show ?thesis by (simp add: trim_def trim_start_id trim_end_rev_id)
qed

text \<open>
  White space starts with one of nine bytes and ends with a byte that is white space in
  ASCII or not ASCII at all, so text framed by other ASCII characters is left as it is.
\<close>

definition visible_ascii :: "char \<Rightarrow> bool" where
  "visible_ascii c \<longleftrightarrow> 33 \<le> byte c \<and> byte c < 127"

lemma whitespace_bytes: "w \<in> set whitespace \<Longrightarrow> \<not> visible_ascii (hd w) \<and> \<not> visible_ascii (last w)"
  by (auto simp: whitespace_def visible_ascii_def byte_def)

lemma starts_with_hd: "starts_with w s \<Longrightarrow> w \<noteq> [] \<Longrightarrow> s \<noteq> [] \<and> hd s = hd w"
  by (cases w) (auto simp: starts_with_iff)

lemma trim_visible:
  assumes "s \<noteq> []" and "visible_ascii (hd s)" and "visible_ascii (last s)"
  shows "trim s = s"
proof -
  have "\<not> starts_with w s" if w: "w \<in> set whitespace" for w
  proof
    assume "starts_with w s"
    then have "hd s = hd w"
      using w whitespace_nonempty starts_with_hd by fastforce
    with whitespace_bytes [OF w] assms(2) show False by simp
  qed
  then have front: "strip_one whitespace s = None"
    by (auto simp: strip_one_None_iff)
  have "\<not> starts_with (rev w) (rev s)" if w: "w \<in> set whitespace" for w
  proof
    assume "starts_with (rev w) (rev s)"
    then have "hd (rev s) = hd (rev w)"
      using w whitespace_nonempty starts_with_hd by fastforce
    then have "last s = last w"
      using assms(1) w whitespace_nonempty by (simp add: hd_rev)
    with whitespace_bytes [OF w] assms(3) show False by simp
  qed
  then have "strip_one (map rev whitespace) (rev s) = None"
    by (auto simp: strip_one_None_iff)
  with front show ?thesis
    by (simp add: trim_def trim_start_id trim_end_rev_id)
qed

lemma visible_not_blank:
  "s \<noteq> [] \<Longrightarrow> visible_ascii (hd s) \<Longrightarrow> visible_ascii (last s) \<Longrightarrow> \<not> blank s"
  by (simp add: blank_def trim_visible)



lemma blank_Nil [simp]: "blank []"
  by (simp add: blank_def)

text \<open>\<open>str::split_once\<close> for a string pattern, and \<open>trim_end_matches\<close>.\<close>

fun split_text :: "string \<Rightarrow> string \<Rightarrow> (string \<times> string) option" where
  "split_text p [] = (if p = [] then Some ([], []) else None)"
| "split_text p (c # s) =
     (if starts_with p (c # s) then Some ([], drop (length p) (c # s))
      else map_option (\<lambda>(a, b). (c # a, b)) (split_text p s))"

lemma split_text_Some: "split_text p s = Some (a, b) \<Longrightarrow> s = a @ p @ b"
proof (induction s arbitrary: a)
  case Nil
  then show ?case by (simp split: if_splits)
next
  case (Cons c s)
  show ?case
  proof (cases "starts_with p (c # s)")
    case True
    with Cons.prems have a: "a = []" and b: "b = drop (length p) (c # s)" by auto
    from True obtain t where "c # s = p @ t" by (auto simp: starts_with_iff)
    with a b show ?thesis by simp
  next
    case False
    with Cons.prems obtain a' where "a = c # a'" and "split_text p s = Some (a', b)" by auto
    with Cons.IH show ?thesis by simp
  qed
qed

function strip_all_prefix :: "string \<Rightarrow> string \<Rightarrow> string" where
  "strip_all_prefix p s =
     (if p \<noteq> [] \<and> s \<noteq> [] \<and> starts_with p s then strip_all_prefix p (drop (length p) s) else s)"
  by pat_completeness auto
termination
  by (relation "measure (\<lambda>(p, s). length s)") auto

declare strip_all_prefix.simps [simp del]

definition trim_end_matches :: "string \<Rightarrow> string \<Rightarrow> string" where
  "trim_end_matches p s = rev (strip_all_prefix (rev p) (rev s))"

lemma strip_all_prefix_decomp: "\<exists>n. s = concat (replicate n p) @ strip_all_prefix p s"
proof (induction p s rule: strip_all_prefix.induct)
  case (1 p s)
  show ?case
  proof (cases "p \<noteq> [] \<and> s \<noteq> [] \<and> starts_with p s")
    case True
    then obtain t where s: "s = p @ t" by (auto simp: starts_with_iff)
    from 1 [OF True] obtain n where "t = concat (replicate n p) @ strip_all_prefix p t"
      unfolding s by auto
    moreover have "strip_all_prefix p s = strip_all_prefix p t"
      using True s by (subst strip_all_prefix.simps) simp
    ultimately have "s = concat (replicate (Suc n) p) @ strip_all_prefix p s"
      using s by simp
    then show ?thesis ..
  next
    case False
    then show ?thesis
      by (intro exI [of _ 0]) (auto simp: strip_all_prefix.simps [of p s])
  qed
qed

lemma concat_replicate_rev: "rev (concat (replicate n (p :: string))) = concat (replicate n (rev p))"
proof (induction n)
  case (Suc n)
  have "concat (replicate n q) @ q = q @ concat (replicate n q)" for q :: string
    by (induction n) simp_all
  then have "concat (replicate n (rev p)) @ rev p = rev p @ concat (replicate n (rev p))" .
  with Suc show ?case by simp
qed simp

lemma trim_end_matches_decomp: "\<exists>n. s = trim_end_matches p s @ concat (replicate n p)"
proof -
  obtain n where "rev s = concat (replicate n (rev p)) @ strip_all_prefix (rev p) (rev s)"
    using strip_all_prefix_decomp by blast
  then have "s = trim_end_matches p s @ rev (concat (replicate n (rev p)))"
    unfolding trim_end_matches_def by (metis rev_append rev_rev_ident)
  then show ?thesis by (auto simp: concat_replicate_rev)
qed

text \<open>
  \<open>str::lines\<close> and \<open>BufRead::lines\<close>: lines end at a line feed, of which a carriage return
  before it is part, and a last line without line feed counts when it is not empty.
\<close>

definition newline :: char where
  "newline = CHR 0x0A"

definition strip_cr :: "string \<Rightarrow> string" where
  "strip_cr s = (if s \<noteq> [] \<and> last s = CHR 0x0D then butlast s else s)"

fun lines_from :: "string \<Rightarrow> string \<Rightarrow> string list" where
  "lines_from acc [] = (if acc = [] then [] else [rev acc])"
| "lines_from acc (c # s) =
     (if c = newline then strip_cr (rev acc) # lines_from [] s else lines_from (c # acc) s)"

definition lines_of :: "string \<Rightarrow> string list" where
  "lines_of s = lines_from [] s"

definition plain_line :: "string \<Rightarrow> bool" where
  "plain_line s \<longleftrightarrow> newline \<notin> set s \<and> (s = [] \<or> last s \<noteq> CHR 0x0D)"

lemma lines_from_append:
  "newline \<notin> set s \<Longrightarrow> lines_from acc (s @ newline # t) = strip_cr (rev acc @ s) # lines_from [] t"
  by (induction s arbitrary: acc) auto

lemma lines_of_Nil [simp]: "lines_of [] = []"
  by (simp add: lines_of_def)

lemma lines_of_line [simp]: "plain_line s \<Longrightarrow> lines_of (s @ newline # t) = s # lines_of t"
  by (auto simp: lines_of_def lines_from_append plain_line_def strip_cr_def)

definition unlines :: "string list \<Rightarrow> string" where
  "unlines ls = concat (map (\<lambda>l. l @ [newline]) ls)"

lemma unlines_simps [simp]:
  "unlines [] = []"
  "unlines (l # ls) = l @ newline # unlines ls"
  by (simp_all add: unlines_def)

lemma lines_of_unlines: "list_all plain_line ls \<Longrightarrow> lines_of (unlines ls) = ls"
  by (induction ls) simp_all

lemma lines_of_unlines_append: "list_all plain_line ls \<Longrightarrow> lines_of (unlines ls @ t) = ls @ lines_of t"
  by (induction ls) simp_all

text \<open>\<open>join\<close> on string slices.\<close>

fun join_text :: "string \<Rightarrow> string list \<Rightarrow> string" where
  "join_text sep [] = []"
| "join_text sep [s] = s"
| "join_text sep (s # t # ss) = s @ sep @ join_text sep (t # ss)"


section \<open>Decimal numbers\<close>

definition digit_char :: "nat \<Rightarrow> char" where
  "digit_char n = char_of (48 + n)"

fun show_nat :: "nat \<Rightarrow> string" where
  "show_nat n = (if n < 10 then [digit_char n] else show_nat (n div 10) @ [digit_char (n mod 10)])"

declare show_nat.simps [simp del]

definition show_int :: "int \<Rightarrow> string" where
  "show_int i = (if i < 0 then CHR 0x2D # show_nat (nat (- i)) else show_nat (nat i))"

definition digits_value :: "string \<Rightarrow> nat" where
  "digits_value s = foldl (\<lambda>n c. 10 * n + (byte c - 48)) 0 s"

text \<open>\<open>str::parse::<usize>\<close>: an optional plus sign, at least one digit, no overflow.\<close>

definition parse_usize :: "string \<Rightarrow> nat option" where
  "parse_usize s =
     (let ds = (case s of [] \<Rightarrow> [] | c # t \<Rightarrow> if c = CHR 0x2B then t else s)
      in if ds \<noteq> [] \<and> list_all ascii_digit ds \<and> digits_value ds \<le> u64_max
         then Some (digits_value ds) else None)"

lemma byte_digit_char: "n < 10 \<Longrightarrow> byte (digit_char n) = 48 + n"
  by (simp add: byte_def digit_char_def)

lemma ascii_digit_digit_char [simp]: "n < 10 \<Longrightarrow> ascii_digit (digit_char n)"
  by (simp add: ascii_digit_def byte_digit_char)

lemma digits_value_snoc: "digits_value (s @ [c]) = 10 * digits_value s + (byte c - 48)"
  by (simp add: digits_value_def)

lemma show_nat_props:
  "show_nat n \<noteq> [] \<and> list_all ascii_digit (show_nat n) \<and> digits_value (show_nat n) = n"
proof (induction n rule: show_nat.induct)
  case (1 n)
  show ?case
  proof (cases "n < 10")
    case True
    then show ?thesis
      by (simp add: show_nat.simps [of n] digits_value_def byte_digit_char)
  next
    case False
    with 1 show ?thesis
      by (simp add: show_nat.simps [of n] digits_value_snoc byte_digit_char)
  qed
qed

lemma show_nat_nonempty [simp]: "show_nat n \<noteq> []"
  and show_nat_digits: "list_all ascii_digit (show_nat n)"
  and digits_value_show_nat [simp]: "digits_value (show_nat n) = n"
  using show_nat_props by blast+

lemma show_nat_inject [simp]: "show_nat m = show_nat n \<longleftrightarrow> m = n"
  by (metis digits_value_show_nat)

lemma parse_usize_show_nat [simp]: "n \<le> u64_max \<Longrightarrow> parse_usize (show_nat n) = Some n"
proof -
  assume n: "n \<le> u64_max"
  obtain c s where s: "show_nat n = c # s"
    by (meson neq_Nil_conv show_nat_nonempty)
  have "ascii_digit c"
    using show_nat_digits [of n] by (simp add: s)
  then have "c \<noteq> CHR 0x2B"
    by (auto simp: ascii_digit_def byte_def)
  with n show ?thesis
    using show_nat_digits [of n] digits_value_show_nat [of n]
    by (simp add: parse_usize_def s)
qed

lemma parse_usize_bound: "parse_usize s = Some n \<Longrightarrow> n \<le> u64_max"
  by (auto simp: parse_usize_def Let_def split: if_splits list.splits)

end
