(* ===== verification/Json.thy ===== *)
theory Json
  imports Text
begin

text \<open>
  The values of serde_json and the accessors the program uses.  Objects are sorted by key
  (\<open>serde_json::Map\<close> without the preserve-order feature); a floating-point number is
  opaque, since the program never computes with one.
\<close>

datatype jnumber =
    PosInt u64
  | NegInt int
  | Float string

datatype json =
    JNull
  | JBool bool
  | JNumber jnumber
  | JString string
  | JArray "json list"
  | JObject "(string \<times> json) list"

fun json_get :: "string \<Rightarrow> json \<Rightarrow> json option" where
  "json_get k (JObject m) = hm_get m k"
| "json_get k _ = None"

text \<open>The indexing \<open>value["k"]\<close>, which is null when the key is absent.\<close>

definition json_index :: "json \<Rightarrow> string \<Rightarrow> json" where
  "json_index v k = (case json_get k v of None \<Rightarrow> JNull | Some w \<Rightarrow> w)"

fun as_str :: "json \<Rightarrow> string option" where
  "as_str (JString s) = Some s"
| "as_str _ = None"

fun as_bool :: "json \<Rightarrow> bool option" where
  "as_bool (JBool b) = Some b"
| "as_bool _ = None"

fun as_array :: "json \<Rightarrow> json list option" where
  "as_array (JArray xs) = Some xs"
| "as_array _ = None"

fun as_object :: "json \<Rightarrow> (string \<times> json) list option" where
  "as_object (JObject m) = Some m"
| "as_object _ = None"

fun as_u64 :: "json \<Rightarrow> u64 option" where
  "as_u64 (JNumber (PosInt n)) = Some n"
| "as_u64 _ = None"

fun as_i64 :: "json \<Rightarrow> int option" where
  "as_i64 (JNumber (PosInt n)) = (if unat n < 2 ^ 63 then Some (int (unat n)) else None)"
| "as_i64 (JNumber (NegInt i)) = Some i"
| "as_i64 _ = None"

fun is_jstring :: "json \<Rightarrow> bool" where
  "is_jstring (JString s) = True"
| "is_jstring _ = False"

text \<open>\<open>value.get(k).and_then(Value::as_str)\<close> and its variants.\<close>

definition get_str :: "string \<Rightarrow> json \<Rightarrow> string option" where
  "get_str k v = Option.bind (json_get k v) as_str"

definition get_array :: "string \<Rightarrow> json \<Rightarrow> json list option" where
  "get_array k v = Option.bind (json_get k v) as_array"

text \<open>
  \<open>Value::pointer\<close>, on the tokens of the path.  A token selects an array element when
  it is a decimal index without sign or leading zero.
\<close>

definition pointer_index :: "string \<Rightarrow> nat option" where
  "pointer_index t =
     (if starts_with [CHR 0x2B] t \<or> (starts_with ''0'' t \<and> length t \<noteq> 1) then None
      else parse_usize t)"

fun json_pointer :: "string list \<Rightarrow> json \<Rightarrow> json option" where
  "json_pointer [] v = Some v"
| "json_pointer (t # ts) (JObject m) =
     (case hm_get m t of None \<Rightarrow> None | Some w \<Rightarrow> json_pointer ts w)"
| "json_pointer (t # ts) (JArray xs) =
     (case pointer_index t of
        None \<Rightarrow> None
      | Some i \<Rightarrow> if i < length xs then json_pointer ts (xs ! i) else None)"
| "json_pointer (t # ts) _ = None"

definition pointer_str :: "string list \<Rightarrow> json \<Rightarrow> string option" where
  "pointer_str p v = Option.bind (json_pointer p v) as_str"

text \<open>The \<open>json!\<close> macro's objects, optional values and numbers.\<close>

definition json_object :: "(string \<times> json) list \<Rightarrow> json" where
  "json_object kvs = JObject (foldl (\<lambda>m (k, v). bt_insert k v m) [] kvs)"

definition json_opt :: "('a \<Rightarrow> json) \<Rightarrow> 'a option \<Rightarrow> json" where
  "json_opt f x = (case x of None \<Rightarrow> JNull | Some a \<Rightarrow> f a)"

definition json_nat :: "nat \<Rightarrow> json" where
  "json_nat n = JNumber (PosInt (u64_of_nat_sat n))"

lemma hm_get_json_object:
  "hm_get (foldl (\<lambda>m (k, v). bt_insert k v m) m0 kvs) k =
     (case hm_get (rev kvs) k of None \<Rightarrow> hm_get m0 k | Some v \<Rightarrow> Some v)"
proof (induction kvs arbitrary: m0)
  case Nil
  then show ?case by (simp add: hm_get_def)
next
  case (Cons a kvs)
  then show ?case
    by (cases a) (auto simp: btree.get_insert [unfolded hm_get_def] hm_get_def map_add_def
        split: option.splits)
qed

lemma json_get_object: "json_get k (json_object kvs) = hm_get (rev kvs) k"
  using hm_get_json_object [of "[]" kvs k]
  by (simp add: json_object_def hm_get_def split: option.splits)

lemma bt_wf_json_object: "bt_wf m0 \<Longrightarrow> bt_wf (foldl (\<lambda>m (k, v). bt_insert k v m) m0 kvs)"
  by (induction kvs arbitrary: m0) (auto simp: btree.wf_insert split: prod.splits)

text \<open>The objects inside a value have distinct, sorted keys.\<close>

function json_wf :: "json \<Rightarrow> bool" where
  "json_wf (JObject m) \<longleftrightarrow> bt_wf m \<and> list_all (\<lambda>(k, v). json_wf v) m"
| "json_wf (JArray xs) \<longleftrightarrow> list_all json_wf xs"
| "json_wf JNull \<longleftrightarrow> True"
| "json_wf (JBool b) \<longleftrightarrow> True"
| "json_wf (JNumber n) \<longleftrightarrow> True"
| "json_wf (JString s) \<longleftrightarrow> True"
  by pat_completeness auto
termination
proof (relation "measure size", simp, goal_cases)
  case (1 m x k v)
  then have "size v < size_list (size_prod (\<lambda>_. 0) size) m"
    by (induction m) (auto simp: less_Suc_eq_le)
  then show ?case by simp
next
  case (2 xs x)
  then show ?case by (induction xs) auto
qed

lemma json_wf_get: "json_wf v \<Longrightarrow> json_get k v = Some w \<Longrightarrow> json_wf w"
  by (cases v) (force simp: hm_get_def list_all_iff dest: map_of_SomeD)+

end
