(* ===== verification/Models.thy ===== *)
theory Models
  imports Json
begin

text \<open>
  The data model of \<open>models.rs\<close>: sessions, failures, receipts, watch targets and events,
  with the keys under which the stores file them.  Record fields carry a prefix, since
  the source reuses the names.
\<close>

datatype policy_action = Retry | Skip

datatype backoff_kind = Fixed | Exponential

datatype session_state = SessionUnknown | SessionIdle | SessionActive | SessionFailed

datatype turn_outcome = InProgress | Completed | TurnFailed | TurnUnknown

record session =
  se_provider :: string
  se_id :: string
  se_title :: string
  se_state :: session_state
  se_updated_at :: "timestamp option"
  se_metadata :: json

definition session_key :: "session \<Rightarrow> string" where
  "session_key s = se_provider s @ '':'' @ se_id s"

record failure =
  fl_provider :: string
  fl_session_id :: string
  fl_turn_id :: string
  fl_condition :: string
  fl_provider_code :: string
  fl_message :: string
  fl_occurred_at :: "timestamp option"
  fl_retry_after_seconds :: "u64 option"
  fl_model :: "string option"
  fl_scope :: "string option"
  fl_metadata :: json

definition failure_key :: "failure \<Rightarrow> string" where
  "failure_key f = fl_provider f @ '':'' @ fl_session_id f @ '':'' @ fl_turn_id f"

datatype message_delivery = Started | Steered

datatype message_transport = AppServer | DesktopIpc

record resume_receipt =
  rr_provider :: string
  rr_session_id :: string
  rr_turn_id :: string
  rr_transport :: message_transport

record message_receipt =
  mr_provider :: string
  mr_session_id :: string
  mr_turn_id :: string
  mr_delivery :: message_delivery
  mr_transport :: message_transport

record interrupt_receipt =
  ir_provider :: string
  ir_session_id :: string
  ir_turn_id :: string
  ir_transport :: message_transport

datatype tracking_source = Automatic | Manual

record watch_target =
  wt_source :: tracking_source
  wt_provider :: string
  wt_session_id :: string
  wt_label :: "string option"
  wt_title :: "string option"
  wt_added_at :: timestamp
  wt_last_activity_at :: "timestamp option"

definition inactivity_since :: "watch_target \<Rightarrow> timestamp option \<Rightarrow> timestamp" where
  "inactivity_since t observed =
     (let activity = (case opt_max observed (wt_last_activity_at t) of
                        Some a \<Rightarrow> a
                      | None \<Rightarrow> wt_added_at t)
      in case wt_source t of
           Automatic \<Rightarrow> activity
         | Manual \<Rightarrow> max activity (wt_added_at t))"

definition target_key :: "watch_target \<Rightarrow> string" where
  "target_key t = wt_provider t @ '':'' @ wt_session_id t"

record engine_event =
  ev_timestamp :: timestamp
  ev_kind :: string
  ev_target :: string
  ev_message :: string
  ev_condition :: "string option"
  ev_attempt :: "nat option"
  ev_max_attempts :: "nat option"
  ev_prompt :: "string option"
  ev_failure :: "failure option"
  ev_receipt :: "resume_receipt option"

record session_log =
  sl_timestamp :: "timestamp option"
  sl_provider :: string
  sl_session_id :: string
  sl_source :: string
  sl_kind :: string
  sl_role :: "string option"
  sl_turn_id :: "string option"
  sl_condition :: "string option"
  sl_message :: string
  sl_metadata :: json

fun transport_name :: "message_transport \<Rightarrow> string" where
  "transport_name AppServer = ''app_server''"
| "transport_name DesktopIpc = ''desktop_ipc''"

definition receipt_json :: "resume_receipt \<Rightarrow> json" where
  "receipt_json r = json_object
     [(''provider'', JString (rr_provider r)),
      (''session_id'', JString (rr_session_id r)),
      (''turn_id'', JString (rr_turn_id r)),
      (''transport'', JString (transport_name (rr_transport r)))]"

definition as_session_log :: "engine_event \<Rightarrow> session_log option" where
  "as_session_log e =
     (case split_once (CHR '':'') (ev_target e) of
        None \<Rightarrow> None
      | Some (provider, session_id) \<Rightarrow>
          let metadata = json_object
                [(''attempt'', json_opt json_nat (ev_attempt e)),
                 (''max_attempts'', json_opt json_nat (ev_max_attempts e)),
                 (''prompt'', json_opt JString (ev_prompt e)),
                 (''receipt'', json_opt receipt_json (ev_receipt e)),
                 (''provider_code'',
                    json_opt JString (map_option fl_provider_code (ev_failure e)))]
          in Some \<lparr>sl_timestamp = Some (ev_timestamp e),
                   sl_provider = provider,
                   sl_session_id = session_id,
                   sl_source = ''watchcat'',
                   sl_kind = ev_kind e,
                   sl_role = None,
                   sl_turn_id = (case map_option fl_turn_id (ev_failure e) of
                                   Some t \<Rightarrow> Some t
                                 | None \<Rightarrow> map_option rr_turn_id (ev_receipt e)),
                   sl_condition = ev_condition e,
                   sl_message = ev_message e,
                   sl_metadata = metadata\<rparr>)"

text \<open>
  Provider names carry no colon, so the key of a target splits back into its parts and
  determines them.
\<close>

definition plain_name :: "string \<Rightarrow> bool" where
  "plain_name s \<longleftrightarrow> CHR '':'' \<notin> set s"

lemma key_parts_inject:
  assumes "plain_name p" and "plain_name q" and "p @ '':'' @ i = q @ '':'' @ j"
  shows "p = q \<and> i = j"
proof -
  have "Some (p, i) = split_once (CHR '':'') (p @ '':'' @ i)"
    using assms(1) by (simp add: plain_name_def)
  also have "\<dots> = split_once (CHR '':'') (q @ '':'' @ j)"
    by (simp only: assms(3))
  also have "\<dots> = Some (q, j)"
    using assms(2) by (simp add: plain_name_def)
  finally show ?thesis by simp
qed

lemma target_key_inject:
  assumes "plain_name (wt_provider s)" and "plain_name (wt_provider t)"
  shows "target_key s = target_key t \<longleftrightarrow>
    wt_provider s = wt_provider t \<and> wt_session_id s = wt_session_id t"
  using key_parts_inject [OF assms] by (auto simp: target_key_def)

lemma failure_key_turn:
  "fl_provider f = fl_provider g \<Longrightarrow> fl_session_id f = fl_session_id g \<Longrightarrow>
   failure_key f = failure_key g \<longleftrightarrow> fl_turn_id f = fl_turn_id g"
  by (simp add: failure_key_def)

lemma as_session_log_key:
  assumes "as_session_log e = Some l"
  shows "ev_target e = sl_provider l @ '':'' @ sl_session_id l \<and> plain_name (sl_provider l)"
  using assms
  by (auto simp: as_session_log_def Let_def plain_name_def split_once_Some split: option.splits)

lemma as_session_log_target:
  assumes "plain_name p" and "ev_target e = p @ '':'' @ s"
  shows "\<exists>l. as_session_log e = Some l \<and> sl_provider l = p \<and> sl_session_id l = s"
proof -
  have "split_once (CHR '':'') (ev_target e) = Some (p, s)"
    using assms by (simp add: plain_name_def)
  then show ?thesis by (simp add: as_session_log_def Let_def)
qed

lemma inactivity_since_recorded:
  "inactivity_since t observed =
     inactivity_since (t\<lparr>wt_last_activity_at := opt_max observed (wt_last_activity_at t)\<rparr>) None"
  by (cases "wt_source t"; cases "opt_max observed (wt_last_activity_at t)")
    (simp_all add: inactivity_since_def)

lemma inactivity_since_Manual:
  "wt_source t = Manual \<Longrightarrow> wt_added_at t \<le> inactivity_since t observed"
  by (simp add: inactivity_since_def)

end
