(* ===== verification/Conditions.thy ===== *)
theory Conditions
  imports Models
begin

text \<open>
  The table of failure conditions of \<open>conditions.rs\<close>: for every condition that a provider
  adapter may report, whether it is retried and with which default delays.
\<close>

definition default_prompt :: string where
  "default_prompt =
     ''Continue the previous unfinished task. Inspect the latest '' @
     ''checkpoint and persisted changes first. Do not repeat '' @
     ''completed work.''"

record condition_definition =
  cd_name :: string
  cd_description :: string
  cd_action :: policy_action
  cd_backoff :: "backoff_kind option"
  cd_initial_delay_seconds :: u64
  cd_max_delay_seconds :: u64
  cd_max_attempts :: nat

definition retry_condition :: "string \<Rightarrow> string \<Rightarrow> u64 \<Rightarrow> u64 \<Rightarrow> condition_definition" where
  "retry_condition name description initial_delay max_delay =
     \<lparr>cd_name = name, cd_description = description, cd_action = Retry,
      cd_backoff = Some Exponential, cd_initial_delay_seconds = initial_delay,
      cd_max_delay_seconds = max_delay, cd_max_attempts = 5\<rparr>"

definition skip_condition :: "string \<Rightarrow> string \<Rightarrow> condition_definition" where
  "skip_condition name description =
     \<lparr>cd_name = name, cd_description = description, cd_action = Skip,
      cd_backoff = None, cd_initial_delay_seconds = 0,
      cd_max_delay_seconds = 0, cd_max_attempts = 0\<rparr>"

definition conditions :: "condition_definition list" where
  "conditions =
    [retry_condition ''network.connection_failed''
      ''Could not establish or maintain a provider connection'' 5 120,
     retry_condition ''network.stream_failed''
      ''The provider response stream failed or disconnected'' 5 120,
     retry_condition ''network.timeout''
      ''A provider request timed out'' 10 180,
     retry_condition ''capacity.model_overloaded''
      ''The selected model is temporarily overloaded'' 15 300,
     retry_condition ''capacity.service_overloaded''
      ''The provider service is temporarily overloaded'' 15 300,
     retry_condition ''capacity.rate_limited''
      ''The provider temporarily limited request throughput'' 30 600,
     retry_condition ''capacity.server_throttled''
      ''The provider temporarily throttled requests'' 15 300,
     retry_condition ''service.server_error''
      ''The provider returned a transient server error'' 10 300,
     retry_condition ''service.conflict''
      ''The provider rejected a transient conflicting request'' 5 120,
     retry_condition ''retry.provider_exhausted''
      ''The provider exhausted its internal retry attempts'' 15 300,
     skip_condition ''auth.invalid''
      ''Authentication is missing, invalid, or expired'',
     skip_condition ''billing.required''
      ''Billing or credits require user action'',
     skip_condition ''capability.model_unavailable''
      ''The requested model is unavailable to this account'',
     skip_condition ''capability.access_denied''
      ''The account or organization cannot use this capability'',
     skip_condition ''capability.feature_unsupported''
      ''The selected model does not support a requested feature'',
     skip_condition ''capability.entitlement_required''
      ''The requested capability requires another entitlement'',
     skip_condition ''capability.verification_required''
      ''The provider requires additional account verification'',
     skip_condition ''context.window_exceeded''
      ''The request exceeded the model context window'',
     skip_condition ''context.output_limit''
      ''The response reached the model output-token limit'',
     skip_condition ''quota.usage_exhausted''
      ''The account usage allowance is exhausted'',
     skip_condition ''request.invalid''
      ''The provider rejected the request as invalid'',
     skip_condition ''request.too_large''
      ''The request exceeded the provider size limit'',
     skip_condition ''sandbox.failed''
      ''The local execution sandbox failed'',
     skip_condition ''failure.unknown''
      ''The provider failure could not be classified safely'']"

definition condition_named :: "string \<Rightarrow> condition_definition option" where
  "condition_named name = find (\<lambda>c. cd_name c = name) conditions"

definition is_known :: "string \<Rightarrow> bool" where
  "is_known name \<longleftrightarrow> condition_named name \<noteq> None"

definition condition_valid :: "condition_definition \<Rightarrow> bool" where
  "condition_valid c \<longleftrightarrow>
     CHR ''.'' \<in> set (cd_name c) \<and>
     (case cd_action c of
        Retry \<Rightarrow> cd_backoff c \<noteq> None \<and> 0 < cd_initial_delay_seconds c \<and>
          cd_initial_delay_seconds c \<le> cd_max_delay_seconds c \<and> 0 < cd_max_attempts c
      | Skip \<Rightarrow> cd_backoff c = None \<and> cd_initial_delay_seconds c = 0 \<and>
          cd_max_delay_seconds c = 0 \<and> cd_max_attempts c = 0)"

lemmas condition_simps = retry_condition_def skip_condition_def

lemma map_name_conditions [simp]:
  "map cd_name conditions =
    [''network.connection_failed'',
     ''network.stream_failed'',
     ''network.timeout'',
     ''capacity.model_overloaded'',
     ''capacity.service_overloaded'',
     ''capacity.rate_limited'',
     ''capacity.server_throttled'',
     ''service.server_error'',
     ''service.conflict'',
     ''retry.provider_exhausted'',
     ''auth.invalid'',
     ''billing.required'',
     ''capability.model_unavailable'',
     ''capability.access_denied'',
     ''capability.feature_unsupported'',
     ''capability.entitlement_required'',
     ''capability.verification_required'',
     ''context.window_exceeded'',
     ''context.output_limit'',
     ''quota.usage_exhausted'',
     ''request.invalid'',
     ''request.too_large'',
     ''sandbox.failed'',
     ''failure.unknown'']"
  by (simp add: conditions_def condition_simps)

lemma conditions_distinct: "distinct (map cd_name conditions)"
  by simp

lemma conditions_valid: "list_all condition_valid conditions"
  by (simp add: conditions_def condition_simps condition_valid_def)

lemma condition_named_Some:
  "condition_named name = Some c \<longleftrightarrow> c \<in> set conditions \<and> cd_name c = name"
proof -
  have inj: "inj_on cd_name (set conditions)"
    using conditions_distinct by (simp only: distinct_map)
  show ?thesis
  proof
    assume "condition_named name = Some c"
    then show "c \<in> set conditions \<and> cd_name c = name"
      unfolding condition_named_def by (rule find_Some_mem)
  next
    assume c: "c \<in> set conditions \<and> cd_name c = name"
    then have "condition_named name \<noteq> None"
      by (auto simp: condition_named_def find_None_iff)
    then obtain d where d: "condition_named name = Some d" by blast
    then have "d \<in> set conditions \<and> cd_name d = name"
      unfolding condition_named_def by (rule find_Some_mem)
    with c inj have "d = c" by (auto dest: inj_onD)
    with d show "condition_named name = Some c" by simp
  qed
qed

lemma is_known_iff: "is_known name \<longleftrightarrow> name \<in> cd_name ` set conditions"
  by (auto simp: is_known_def condition_named_Some)

lemma is_known_names: "is_known name \<longleftrightarrow> name \<in> set (map cd_name conditions)"
  by (simp only: is_known_iff set_map)

lemma condition_named_valid: "condition_named name = Some c \<Longrightarrow> condition_valid c"
  using conditions_valid by (simp add: condition_named_Some list_all_iff)

lemma condition_failure_unknown:
  "condition_named ''failure.unknown'' =
     Some (skip_condition ''failure.unknown'' ''The provider failure could not be classified safely'')"
  by (simp add: condition_named_Some conditions_def condition_simps)

lemma condition_connection_failed:
  "condition_named ''network.connection_failed'' =
     Some (retry_condition ''network.connection_failed''
       ''Could not establish or maintain a provider connection'' 5 120)"
  by (simp add: condition_named_Some conditions_def condition_simps)

end
