(* ===== verification/Dialog_Rules.thy ===== *)
theory Dialog_Rules
  imports Conditions
begin

text \<open>
  The consent dialogs Watchcat may answer: the recognisers of \<open>os_permissions.rs\<close>
  (\<open>is_file_access_request\<close>, \<open>is_allow_button\<close>) and the user's rules of
  \<open>os_permissions/rules.rs\<close> with their validation and matching.  Unicode case mapping
  (\<open>str::to_lowercase\<close>) is the parameter \<open>lower\<close>.
\<close>


section \<open>Built-in consent headings\<close>

definition quote_pairs :: "(string \<times> string) list" where
  "quote_pairs =
     [([CHR 0xE2, CHR 0x80, CHR 0x9C], [CHR 0xE2, CHR 0x80, CHR 0x9D]),
      (''\"'', ''\"''),
      ([CHR 0xE3, CHR 0x80, CHR 0x8C], [CHR 0xE3, CHR 0x80, CHR 0x8D])]"

definition english_phrases :: "string list" where
  "english_phrases = [''would like to access '', ''wants to access '']"

definition english_resources :: "string list" where
  "english_resources =
    [''files on a removable volume'',
     ''files on a network volume'',
     ''a removable volume'',
     ''a network volume'',
     ''files in your desktop folder'',
     ''files in your documents folder'',
     ''files in your downloads folder'']"

definition chinese_phrases :: "string list" where
  "chinese_phrases =
    [[CHR 0xE6, CHR 0x83, CHR 0xB3, CHR 0xE8, CHR 0xA6, CHR 0x81, CHR 0xE8, CHR 0xAE, CHR 0xBF,
     CHR 0xE9, CHR 0x97, CHR 0xAE],
     [CHR 0xE6, CHR 0x83, CHR 0xB3, CHR 0xE8, CHR 0xAE, CHR 0xBF, CHR 0xE9, CHR 0x97, CHR 0xAE],
     [CHR 0xE5, CHR 0xB8, CHR 0x8C, CHR 0xE6, CHR 0x9C, CHR 0x9B, CHR 0xE8, CHR 0xAE, CHR 0xBF,
     CHR 0xE9, CHR 0x97, CHR 0xAE],
     [CHR 0xE6, CHR 0x83, CHR 0xB3, CHR 0xE8, CHR 0xA6, CHR 0x81, CHR 0xE5, CHR 0xAD, CHR 0x98,
     CHR 0xE5, CHR 0x8F, CHR 0x96],
     [CHR 0xE6, CHR 0x83, CHR 0xB3, CHR 0xE5, CHR 0xAD, CHR 0x98, CHR 0xE5, CHR 0x8F, CHR 0x96]]"

definition chinese_resources :: "string list" where
  "chinese_resources =
    [[CHR 0xE5, CHR 0x8F, CHR 0xAF, CHR 0xE7, CHR 0xA7, CHR 0xBB, CHR 0xE9, CHR 0x99, CHR 0xA4,
     CHR 0xE5, CHR 0xAE, CHR 0x97, CHR 0xE5, CHR 0x8D, CHR 0xB7, CHR 0xE4, CHR 0xB8, CHR 0x8A,
     CHR 0xE7, CHR 0x9A, CHR 0x84, CHR 0xE6, CHR 0x96, CHR 0x87, CHR 0xE4, CHR 0xBB, CHR 0xB6],
     [CHR 0xE5, CHR 0x8F, CHR 0xAF, CHR 0xE7, CHR 0xA7, CHR 0xBB, CHR 0xE5, CHR 0x8A, CHR 0xA8,
     CHR 0xE5, CHR 0xAE, CHR 0x97, CHR 0xE5, CHR 0x8D, CHR 0xB7, CHR 0xE4, CHR 0xB8, CHR 0x8A,
     CHR 0xE7, CHR 0x9A, CHR 0x84, CHR 0xE6, CHR 0x96, CHR 0x87, CHR 0xE4, CHR 0xBB, CHR 0xB6],
     [CHR 0xE7, CHR 0xBD, CHR 0x91, CHR 0xE7, CHR 0xBB, CHR 0x9C, CHR 0xE5, CHR 0xAE, CHR 0x97,
     CHR 0xE5, CHR 0x8D, CHR 0xB7, CHR 0xE4, CHR 0xB8, CHR 0x8A, CHR 0xE7, CHR 0x9A, CHR 0x84,
     CHR 0xE6, CHR 0x96, CHR 0x87, CHR 0xE4, CHR 0xBB, CHR 0xB6],
     [CHR 0xE5, CHR 0x8F, CHR 0xAF, CHR 0xE5, CHR 0x8D, CHR 0xB8, CHR 0xE9, CHR 0x99, CHR 0xA4,
     CHR 0xE5, CHR 0x8D, CHR 0xB7, CHR 0xE5, CHR 0xAE, CHR 0x97, CHR 0xE4, CHR 0xB8, CHR 0x8A,
     CHR 0xE7, CHR 0x9A, CHR 0x84, CHR 0xE6, CHR 0xAA, CHR 0x94, CHR 0xE6, CHR 0xA1, CHR 0x88],
     [CHR 0xE7, CHR 0xB6, CHR 0xB2, CHR 0xE8, CHR 0xB7, CHR 0xAF, CHR 0xE5, CHR 0x8D, CHR 0xB7,
     CHR 0xE5, CHR 0xAE, CHR 0x97, CHR 0xE4, CHR 0xB8, CHR 0x8A, CHR 0xE7, CHR 0x9A, CHR 0x84,
     CHR 0xE6, CHR 0xAA, CHR 0x94, CHR 0xE6, CHR 0xA1, CHR 0x88],
     [CHR 0xE5, CHR 0x8F, CHR 0xAF, CHR 0xE7, CHR 0xA7, CHR 0xBB, CHR 0xE9, CHR 0x99, CHR 0xA4,
     CHR 0xE5, CHR 0xAE, CHR 0x97, CHR 0xE5, CHR 0x8D, CHR 0xB7, CHR 0xE4, CHR 0xB8, CHR 0x8A,
     CHR 0xE7, CHR 0x9A, CHR 0x84, CHR 0xE6, CHR 0xAA, CHR 0x94, CHR 0xE6, CHR 0xA1, CHR 0x88],
     [CHR 0xE2, CHR 0x80, CHR 0x9C, CHR 0xE6, CHR 0xA1, CHR 0x8C, CHR 0xE9, CHR 0x9D, CHR 0xA2,
     CHR 0xE2, CHR 0x80, CHR 0x9D, CHR 0xE6, CHR 0x96, CHR 0x87, CHR 0xE4, CHR 0xBB, CHR 0xB6,
     CHR 0xE5, CHR 0xA4, CHR 0xB9, CHR 0xE4, CHR 0xB8, CHR 0xAD, CHR 0xE7, CHR 0x9A, CHR 0x84,
     CHR 0xE6, CHR 0x96, CHR 0x87, CHR 0xE4, CHR 0xBB, CHR 0xB6],
     [CHR 0xE2, CHR 0x80, CHR 0x9C, CHR 0xE6, CHR 0x96, CHR 0x87, CHR 0xE7, CHR 0xA8, CHR 0xBF,
     CHR 0xE2, CHR 0x80, CHR 0x9D, CHR 0xE6, CHR 0x96, CHR 0x87, CHR 0xE4, CHR 0xBB, CHR 0xB6,
     CHR 0xE5, CHR 0xA4, CHR 0xB9, CHR 0xE4, CHR 0xB8, CHR 0xAD, CHR 0xE7, CHR 0x9A, CHR 0x84,
     CHR 0xE6, CHR 0x96, CHR 0x87, CHR 0xE4, CHR 0xBB, CHR 0xB6],
     [CHR 0xE2, CHR 0x80, CHR 0x9C, CHR 0xE4, CHR 0xB8, CHR 0x8B, CHR 0xE8, CHR 0xBD, CHR 0xBD,
     CHR 0xE2, CHR 0x80, CHR 0x9D, CHR 0xE6, CHR 0x96, CHR 0x87, CHR 0xE4, CHR 0xBB, CHR 0xB6,
     CHR 0xE5, CHR 0xA4, CHR 0xB9, CHR 0xE4, CHR 0xB8, CHR 0xAD, CHR 0xE7, CHR 0x9A, CHR 0x84,
     CHR 0xE6, CHR 0x96, CHR 0x87, CHR 0xE4, CHR 0xBB, CHR 0xB6],
     [CHR 0xE3, CHR 0x80, CHR 0x8C, CHR 0xE6, CHR 0xA1, CHR 0x8C, CHR 0xE9, CHR 0x9D, CHR 0xA2,
     CHR 0xE3, CHR 0x80, CHR 0x8D, CHR 0xE6, CHR 0xAA, CHR 0x94, CHR 0xE6, CHR 0xA1, CHR 0x88,
     CHR 0xE5, CHR 0xA4, CHR 0xBE, CHR 0xE4, CHR 0xB8, CHR 0xAD, CHR 0xE7, CHR 0x9A, CHR 0x84,
     CHR 0xE6, CHR 0xAA, CHR 0x94, CHR 0xE6, CHR 0xA1, CHR 0x88],
     [CHR 0xE3, CHR 0x80, CHR 0x8C, CHR 0xE6, CHR 0x96, CHR 0x87, CHR 0xE4, CHR 0xBB, CHR 0xB6,
     CHR 0xE3, CHR 0x80, CHR 0x8D, CHR 0xE6, CHR 0xAA, CHR 0x94, CHR 0xE6, CHR 0xA1, CHR 0x88,
     CHR 0xE5, CHR 0xA4, CHR 0xBE, CHR 0xE4, CHR 0xB8, CHR 0xAD, CHR 0xE7, CHR 0x9A, CHR 0x84,
     CHR 0xE6, CHR 0xAA, CHR 0x94, CHR 0xE6, CHR 0xA1, CHR 0x88],
     [CHR 0xE3, CHR 0x80, CHR 0x8C, CHR 0xE4, CHR 0xB8, CHR 0x8B, CHR 0xE8, CHR 0xBC, CHR 0x89,
     CHR 0xE9, CHR 0xA0, CHR 0x85, CHR 0xE7, CHR 0x9B, CHR 0xAE, CHR 0xE3, CHR 0x80, CHR 0x8D,
     CHR 0xE6, CHR 0xAA, CHR 0x94, CHR 0xE6, CHR 0xA1, CHR 0x88, CHR 0xE5, CHR 0xA4, CHR 0xBE,
     CHR 0xE4, CHR 0xB8, CHR 0xAD, CHR 0xE7, CHR 0x9A, CHR 0x84, CHR 0xE6, CHR 0xAA, CHR 0x94,
     CHR 0xE6, CHR 0xA1, CHR 0x88]]"

definition ideographic_stop :: string where
  "ideographic_stop = [CHR 0xE3, CHR 0x80, CHR 0x82]"

definition quoted_rest :: "string \<Rightarrow> string option" where
  "quoted_rest text =
     find_map (\<lambda>(open_quote, close_quote).
       case strip_prefix open_quote text of
         None \<Rightarrow> None
       | Some inner \<Rightarrow> map_option (\<lambda>(_, rest). trim rest) (split_text close_quote inner))
     quote_pairs"

definition strip_phrase :: "string list \<Rightarrow> string \<Rightarrow> string option" where
  "strip_phrase phrases s = find_map (\<lambda>p. strip_prefix p s) phrases"

definition is_file_access_request :: "(string \<Rightarrow> string) \<Rightarrow> string \<Rightarrow> bool" where
  "is_file_access_request lower raw =
     (let text = lower (trim raw)
      in if length (lines_of text) \<noteq> 1 then False
         else case quoted_rest text of
           None \<Rightarrow> False
         | Some rest \<Rightarrow>
             (case strip_phrase english_phrases rest of
                Some resource \<Rightarrow> trim_end_matches ''.'' resource \<in> set english_resources
              | None \<Rightarrow>
                  (case strip_phrase chinese_phrases rest of
                     Some resource \<Rightarrow>
                       trim_end_matches ideographic_stop resource \<in> set chinese_resources
                   | None \<Rightarrow> False)))"

definition allow_labels :: "string list" where
  "allow_labels = [''allow'',
                    ''ok'',
                    [CHR 0xE5, CHR 0x85, CHR 0x81, CHR 0xE8, CHR 0xAE, CHR 0xB8],
                    [CHR 0xE5, CHR 0x85, CHR 0x81, CHR 0xE8, CHR 0xA8, CHR 0xB1],
                    [CHR 0xE5, CHR 0xA5, CHR 0xBD],
                    [CHR 0xE5, CHR 0xA5, CHR 0xBD, CHR 0xE7, CHR 0x9A, CHR 0x84]]"

definition is_allow_button :: "(string \<Rightarrow> string) \<Rightarrow> string \<Rightarrow> bool" where
  "is_allow_button lower title \<longleftrightarrow> lower (trim title) \<in> set allow_labels"

text \<open>
  What the recogniser accepts: a quoted application name, then one of the listed
  sentences and nothing else but full stops.
\<close>

definition consent_sentence :: "string \<Rightarrow> bool" where
  "consent_sentence s \<longleftrightarrow>
     (\<exists>p \<in> set english_phrases. \<exists>r \<in> set english_resources. \<exists>n.
        s = p @ r @ concat (replicate n ''.'')) \<or>
     (\<exists>p \<in> set chinese_phrases. \<exists>r \<in> set chinese_resources. \<exists>n.
        s = p @ r @ concat (replicate n ideographic_stop))"

lemma strip_phrase_Some: "strip_phrase ps s = Some t \<Longrightarrow> \<exists>p \<in> set ps. s = p @ t"
  unfolding strip_phrase_def by (drule find_map_Some) (auto simp: strip_prefix_Some_iff)

lemma quoted_rest_Some:
  assumes "quoted_rest text = Some rest"
  shows "\<exists>(q, q') \<in> set quote_pairs. \<exists>app tail. text = q @ app @ q' @ tail \<and> rest = trim tail"
proof -
  obtain q q' inner app tail where "(q, q') \<in> set quote_pairs" and "text = q @ inner"
    and "split_text q' inner = Some (app, tail)" and "rest = trim tail"
    using find_map_Some [OF assms [unfolded quoted_rest_def]]
    by (auto simp: strip_prefix_Some_iff split: option.splits)
  then show ?thesis by (force dest: split_text_Some)
qed

lemma file_access_sentence:
  assumes "is_file_access_request lower raw"
  obtains rest where "quoted_rest (lower (trim raw)) = Some rest" and "consent_sentence rest"
proof -
  from assms obtain rest where rest: "quoted_rest (lower (trim raw)) = Some rest"
    by (auto simp: is_file_access_request_def Let_def split: if_splits option.splits)
  have "consent_sentence rest"
  proof (cases "strip_phrase english_phrases rest")
    case (Some r)
    then have "trim_end_matches ''.'' r \<in> set english_resources"
      using assms rest
      by (auto simp: is_file_access_request_def Let_def split: if_splits)
    moreover obtain n where "r = trim_end_matches ''.'' r @ concat (replicate n ''.'')"
      using trim_end_matches_decomp by blast
    moreover obtain p where "p \<in> set english_phrases" and "rest = p @ r"
      using strip_phrase_Some [OF Some] by blast
    ultimately show ?thesis unfolding consent_sentence_def by metis
  next
    case None
    then obtain r where r: "strip_phrase chinese_phrases rest = Some r"
      and "trim_end_matches ideographic_stop r \<in> set chinese_resources"
      using assms rest
      by (auto simp: is_file_access_request_def Let_def split: if_splits option.splits)
    moreover obtain n where
      "r = trim_end_matches ideographic_stop r @ concat (replicate n ideographic_stop)"
      using trim_end_matches_decomp by blast
    moreover obtain p where "p \<in> set chinese_phrases" and "rest = p @ r"
      using strip_phrase_Some [OF r] by blast
    ultimately show ?thesis unfolding consent_sentence_def by metis
  qed
  with rest show thesis by (rule that)
qed


section \<open>Rules\<close>

definition directory_rule :: string where
  "directory_rule = ''directory-access''"

record dialog_rule =
  dr_enabled :: bool
  dr_app :: "string option"
  dr_title :: "string option"
  dr_text :: "string option"
  dr_button :: "string option"

definition default_dialog_rule :: dialog_rule where
  "default_dialog_rule =
     \<lparr>dr_enabled = True, dr_app = None, dr_title = None, dr_text = None, dr_button = None\<rparr>"

record dialog_settings =
  ds_rules :: "(string, dialog_rule) dict"

definition default_dialog_settings :: dialog_settings where
  "default_dialog_settings = \<lparr>ds_rules = [(directory_rule, default_dialog_rule)]\<rparr>"

definition valid_rule_name :: "string \<Rightarrow> bool" where
  "valid_rule_name name \<longleftrightarrow>
     name \<noteq> [] \<and> length name \<le> 80 \<and>
     list_all (\<lambda>c. ascii_alphanumeric c \<or> c \<in> set ''-_.'') name"

definition valid_match_text :: "string \<Rightarrow> bool" where
  "valid_match_text v \<longleftrightarrow> \<not> blank v \<and> length v \<le> 512 \<and> \<not> has_control v"

definition rule_texts :: "dialog_rule \<Rightarrow> string list" where
  "rule_texts r =
     List.map_filter (\<lambda>v. v) [dr_app r, dr_title r, dr_text r, dr_button r]"

definition exact_app :: "string \<Rightarrow> bool" where
  "exact_app app \<longleftrightarrow>
     starts_with ''/'' app \<or>
     (CHR ''.'' \<in> set app \<and> \<not> (\<exists>c \<in> set app. c = CHR ''*'' \<or> c = CHR ''?'' \<or> c = CHR '' ''))"

definition validate_rule :: "string \<times> dialog_rule \<Rightarrow> unit result" where
  "validate_rule = (\<lambda>(name, rule).
     if \<not> valid_rule_name name then bail (''invalid dialog rule name: '' @ name)
     else if \<not> list_all valid_match_text (rule_texts rule)
     then bail (''dialog rule '' @ name @
       '' requires nonempty, single-line match values (up to 512 bytes)'')
     else if name = directory_rule \<and>
       (dr_app rule \<noteq> None \<or> dr_title rule \<noteq> None \<or> dr_text rule \<noteq> None \<or> dr_button rule \<noteq> None)
     then bail ''directory-access is built in; only enabled can be changed''
     else if name \<noteq> directory_rule \<and>
       (dr_app rule = None \<or> dr_button rule = None \<or> (dr_title rule = None \<and> dr_text rule = None))
     then bail (''dialog rule '' @ name @ '' requires app, button, and title or text'')
     else case dr_app rule of
         Some app \<Rightarrow>
           if \<not> exact_app app
           then bail (''dialog rule '' @ name @
             '': app must be an exact bundle ID or absolute executable path'')
           else Inr ()
       | None \<Rightarrow> Inr ())"

definition validate_dialogs :: "dialog_settings \<Rightarrow> unit result" where
  "validate_dialogs ds =
     (if length (ds_rules ds) > 100 then bail ''at most 100 dialog rules are supported''
      else check_all validate_rule (ds_rules ds))"

definition system_owner :: "string \<Rightarrow> bool" where
  "system_owner executable \<longleftrightarrow> starts_with ''/System/Library/'' executable"

definition owned_by :: "dialog_rule \<Rightarrow> string \<Rightarrow> string \<Rightarrow> bool" where
  "owned_by rule executable bundle \<longleftrightarrow>
     (case dr_app rule of None \<Rightarrow> False | Some app \<Rightarrow> app = executable \<or> app = bundle)"

definition observes :: "dialog_settings \<Rightarrow> string \<Rightarrow> string \<Rightarrow> bool" where
  "observes ds executable bundle \<longleftrightarrow>
     list_ex (\<lambda>(name, rule). dr_enabled rule \<and>
       (if name = directory_rule then system_owner executable
        else owned_by rule executable bundle)) (ds_rules ds)"

definition matching ::
    "(string \<Rightarrow> string) \<Rightarrow> dialog_settings \<Rightarrow> string \<Rightarrow> string \<Rightarrow> string \<Rightarrow> string \<Rightarrow>
     (string \<times> dialog_rule) list" where
  "matching lower ds executable bundle title heading =
     filter (\<lambda>(name, rule).
       if \<not> dr_enabled rule then False
       else if name = directory_rule
       then system_owner executable \<and> is_file_access_request lower heading
       else owned_by rule executable bundle \<and>
         (case dr_title rule of None \<Rightarrow> True | Some expected \<Rightarrow> title = expected) \<and>
         (case dr_text rule of None \<Rightarrow> True | Some expected \<Rightarrow> contains_text expected heading))
     (ds_rules ds)"

lemma validate_rule_Inr:
  "validate_rule (name, rule) = Inr () \<longleftrightarrow>
     valid_rule_name name \<and> list_all valid_match_text (rule_texts rule) \<and>
     (if name = directory_rule
      then dr_app rule = None \<and> dr_title rule = None \<and> dr_text rule = None \<and> dr_button rule = None
      else dr_app rule \<noteq> None \<and> dr_button rule \<noteq> None \<and>
        (dr_title rule \<noteq> None \<or> dr_text rule \<noteq> None)) \<and>
     (\<forall>app. dr_app rule = Some app \<longrightarrow> exact_app app)"
  by (auto simp: validate_rule_def split: option.splits)

lemma validate_dialogs_Inr:
  "validate_dialogs ds = Inr () \<longleftrightarrow>
     length (ds_rules ds) \<le> 100 \<and> (\<forall>(name, rule) \<in> set (ds_rules ds). validate_rule (name, rule) = Inr ())"
  by (auto simp: validate_dialogs_def)

lemma rule_texts_mem:
  "v \<in> set (rule_texts r) \<longleftrightarrow>
     dr_app r = Some v \<or> dr_title r = Some v \<or> dr_text r = Some v \<or> dr_button r = Some v"
  by (auto simp: rule_texts_def map_filter_def split: if_splits)

lemma default_dialogs_valid: "validate_dialogs default_dialog_settings = Inr ()"
proof -
  have "valid_rule_name directory_rule"
    by (simp add: valid_rule_name_def directory_rule_def ascii_alphanumeric_def ascii_digit_def
        ascii_upper_def ascii_lower_def byte_def)
  then show ?thesis
    by (simp add: validate_dialogs_Inr validate_rule_Inr default_dialog_settings_def
        default_dialog_rule_def rule_texts_def map_filter_def)
qed

lemma matching_iff:
  "(name, rule) \<in> set (matching lower ds executable bundle title heading) \<longleftrightarrow>
     (name, rule) \<in> set (ds_rules ds) \<and> dr_enabled rule \<and>
     (if name = directory_rule
      then system_owner executable \<and> is_file_access_request lower heading
      else owned_by rule executable bundle \<and>
        (\<forall>t. dr_title rule = Some t \<longrightarrow> title = t) \<and>
        (\<forall>t. dr_text rule = Some t \<longrightarrow> contains_text t heading))"
  by (auto simp: matching_def split: option.splits if_splits)

lemma matching_observed:
  "matching lower ds executable bundle title heading \<noteq> [] \<Longrightarrow> observes ds executable bundle"
  by (auto simp: matching_def observes_def list_ex_iff filter_empty_conv split: if_splits)


section \<open>Properties\<close>

text \<open>The built-in directory rule fires only on consent sentences: a heading is accepted
  only when, trimmed and in lower case, it is one line that quotes an application name and
  continues with exactly one of the listed sentences (followed by full stops at most).\<close>
lemma file_access_request_sound:
  assumes "is_file_access_request lower raw"
  shows "\<exists>(q, q') \<in> set quote_pairs. \<exists>app tail.
    lower (trim raw) = q @ app @ q' @ tail \<and> consent_sentence (trim tail) \<and>
    length (lines_of (lower (trim raw))) = 1"
proof -
  from assms obtain rest where rest: "quoted_rest (lower (trim raw)) = Some rest"
    and sentence: "consent_sentence rest"
    by (rule file_access_sentence)
  moreover have "length (lines_of (lower (trim raw))) = 1"
    using assms by (auto simp: is_file_access_request_def Let_def split: if_splits)
  ultimately show ?thesis using quoted_rest_Some [OF rest] by fastforce
qed

definition consent_example :: string where
  "consent_example = ''\"node\" would like to access files on a removable volume.''"

lemma consent_example_trim: "trim consent_example = consent_example"
  by (rule trim_visible) (simp_all add: consent_example_def visible_ascii_def byte_def)

lemma consent_example_rest:
  "quoted_rest consent_example = Some ''would like to access files on a removable volume.''"
proof -
  have "trim '' would like to access files on a removable volume.'' =
      trim ''would like to access files on a removable volume.''"
    by (simp add: trim_def trim_start_step [of "CHR '' '' # s" for s] strip_prefix_def
        starts_with_def whitespace_def)
  also have "\<dots> = ''would like to access files on a removable volume.''"
    by (rule trim_visible) (simp_all add: visible_ascii_def byte_def)
  finally show ?thesis
    by (simp add: quoted_rest_def consent_example_def quote_pairs_def strip_prefix_def
        starts_with_def)
qed

lemma consent_example_accepted: "is_file_access_request (\<lambda>s. s) consent_example"
proof -
  have "length (lines_of consent_example) = 1"
    by (simp add: lines_of_def consent_example_def newline_def)
  then show ?thesis
    by (simp add: is_file_access_request_def consent_example_trim consent_example_rest
        strip_phrase_def english_phrases_def strip_prefix_def starts_with_def
        trim_end_matches_def strip_all_prefix.simps english_resources_def)
qed

text \<open>Under settings that pass validation a rule that authorises a click is scoped: it is
  enabled, and either it is the built-in rule, on a window of a system process with a
  consent heading, or its exact application owns the window, it names a visible button
  label, and at least one of its title and text conditions is present and holds.\<close>
lemma validated_match_scoped:
  assumes "validate_dialogs ds = Inr ()"
    and "(name, rule) \<in> set (matching lower ds executable bundle title heading)"
  shows "dr_enabled rule \<and>
    (if name = directory_rule
     then system_owner executable \<and> is_file_access_request lower heading \<and> rule_texts rule = []
     else \<exists>app button. dr_app rule = Some app \<and> exact_app app \<and>
       (app = executable \<or> app = bundle) \<and>
       dr_button rule = Some button \<and> \<not> blank button \<and> \<not> has_control button \<and>
       (dr_title rule = Some title \<or> (\<exists>t. dr_text rule = Some t \<and> \<not> blank t \<and> contains_text t heading)) \<and>
       dr_title rule \<in> {None, Some title})"
proof -
  have mem: "(name, rule) \<in> set (ds_rules ds)"
    using assms(2) by (simp add: matching_iff)
  then have valid: "validate_rule (name, rule) = Inr ()"
    using assms(1) by (auto simp: validate_dialogs_Inr)
  then have texts: "list_all valid_match_text (rule_texts rule)"
    by (simp add: validate_rule_Inr)
  show ?thesis
  proof (cases "name = directory_rule")
    case True
    with valid assms(2) show ?thesis
      by (simp add: validate_rule_Inr matching_iff rule_texts_def map_filter_def)
  next
    case False
    with valid obtain app button where app: "dr_app rule = Some app" and button: "dr_button rule = Some button"
      and "dr_title rule \<noteq> None \<or> dr_text rule \<noteq> None" and "exact_app app"
      by (auto simp: validate_rule_Inr)
    moreover have "valid_match_text v" if "v \<in> set (rule_texts rule)" for v
      using texts that by (simp add: list_all_iff)
    ultimately show ?thesis
      using False assms(2)
      by (cases "dr_title rule")
        (auto simp: matching_iff owned_by_def rule_texts_mem valid_match_text_def)
  qed
qed

definition example_rule :: dialog_rule where
  "example_rule =
     \<lparr>dr_enabled = True, dr_app = Some ''com.apple.Safari'', dr_title = Some ''Download'',
      dr_text = None, dr_button = Some ''Allow''\<rparr>"

definition example_dialogs :: dialog_settings where
  "example_dialogs =
     \<lparr>ds_rules = [(directory_rule, default_dialog_rule), (''safari'', example_rule)]\<rparr>"

lemma example_dialogs_valid: "validate_dialogs example_dialogs = Inr ()"
proof -
  have "valid_match_text ''com.apple.Safari''" "valid_match_text ''Download''"
    "valid_match_text ''Allow''"
    by (simp_all add: valid_match_text_def visible_not_blank visible_ascii_def byte_def)
  moreover have "valid_rule_name ''safari''"
    by (simp add: valid_rule_name_def ascii_alphanumeric_def ascii_lower_def byte_def)
  moreover have "exact_app ''com.apple.Safari''"
    by (simp add: exact_app_def)
  ultimately have "validate_rule (''safari'', example_rule) = Inr ()"
    by (simp add: validate_rule_Inr example_rule_def directory_rule_def rule_texts_def
        map_filter_def)
  then show ?thesis
    using default_dialogs_valid
    by (simp add: validate_dialogs_Inr example_dialogs_def default_dialog_settings_def)
qed

end
