(* ===== verification/Storage.thy ===== *)
theory Storage
  imports Text
begin

text \<open>
  How documents reach the disk: \<open>atomic_write\<close> of \<open>config.rs\<close> with every I/O step and its
  failure, and \<open>load_json_or_default\<close>/\<open>save_json\<close> of \<open>state.rs\<close> on top of it.  The contents
  of a file have an arbitrary type \<open>'b\<close>; serde and the file formats are a codec, an
  argument of the definitions.
\<close>


section \<open>Codecs\<close>

record ('b, 'd) codec =
  enc :: "'d \<Rightarrow> string + 'b"
  dec :: "'b \<Rightarrow> string + 'd"

text \<open>What the stores rely on: what serialises is read back as it was.\<close>

definition codec_ok :: "('b, 'd) codec \<Rightarrow> bool" where
  "codec_ok c \<longleftrightarrow> (\<forall>d b. enc c d = Inr b \<longrightarrow> dec c b = Inr d)"

definition id_codec :: "('d, 'd) codec" where
  "id_codec = \<lparr>enc = Inr, dec = Inr\<rparr>"

lemma id_codec_simps [simp]:
  "codec_ok id_codec"
  "enc id_codec d = Inr d"
  "dec id_codec d = Inr d"
  by (simp_all add: codec_ok_def id_codec_def)

lemma codec_okD: "codec_ok c \<Longrightarrow> enc c d = Inr b \<Longrightarrow> dec c b = Inr d"
  by (simp add: codec_ok_def)


section \<open>Atomic replacement\<close>

text \<open>
  A location is a path and its parent directory, if it has one.  A fault says at which
  step a write fails, with the system's message; a failing \<open>write_all\<close> may leave any
  content in the temporary file.
\<close>

record location =
  loc_path :: string
  loc_parent :: "string option"

datatype 'b fault =
    NoFault
  | CreateDirFails string
  | TempFileFails string
  | WriteFails string 'b
  | SyncFails string
  | PersistFails string

text \<open>
  The directory as \<open>atomic_write\<close> sees it: the file and the temporary file next to it,
  which is deleted when its handle is dropped.
\<close>

record 'b volume =
  vol_target :: "'b option"
  vol_temp :: "'b option"

definition io_error :: "string \<Rightarrow> string \<Rightarrow> error" where
  "io_error context os = Context context (Root (Message os))"

text \<open>
  The result together with every state the directory goes through, last state last:
  what a crash at any point can leave behind.
\<close>

definition atomic_write_trace ::
    "location \<Rightarrow> 'b fault \<Rightarrow> 'b \<Rightarrow> 'b \<Rightarrow> 'b option \<Rightarrow> unit result \<times> 'b volume list" where
  "atomic_write_trace loc fault fresh content old =
     (let closed = \<lparr>vol_target = old, vol_temp = None\<rparr>;
          opened = \<lparr>vol_target = old, vol_temp = Some fresh\<rparr>;
          written = \<lparr>vol_target = old, vol_temp = Some content\<rparr>
      in case loc_parent loc of
        None \<Rightarrow> (bail (''path has no parent: '' @ loc_path loc), [closed])
      | Some parent \<Rightarrow>
          (case fault of
             CreateDirFails os \<Rightarrow>
               (Inl (io_error (''cannot create directory '' @ parent) os), [closed])
           | TempFileFails os \<Rightarrow>
               (Inl (io_error (''cannot create temporary file in '' @ parent) os), [closed])
           | WriteFails os partial \<Rightarrow>
               (bail os,
                [closed, opened, \<lparr>vol_target = old, vol_temp = Some partial\<rparr>, closed])
           | SyncFails os \<Rightarrow> (bail os, [closed, opened, written, closed])
           | PersistFails os \<Rightarrow>
               (Inl (io_error (''cannot replace '' @ loc_path loc) os),
                [closed, opened, written, closed])
           | NoFault \<Rightarrow>
               (Inr (),
                [closed, opened, written, \<lparr>vol_target = Some content, vol_temp = None\<rparr>])))"

text \<open>The effect of the call: its result and the file it leaves.\<close>

definition atomic_write ::
    "location \<Rightarrow> 'b fault \<Rightarrow> 'b \<Rightarrow> 'b option \<Rightarrow> unit result \<times> 'b option" where
  "atomic_write loc fault content old =
     (case atomic_write_trace loc fault content content old of
        (r, vs) \<Rightarrow> (r, vol_target (last vs)))"

lemma atomic_write_trace_targets:
  assumes "atomic_write_trace loc fault fresh content old = (r, vs)"
  shows "vs \<noteq> [] \<and> vol_temp (last vs) = None \<and>
    (\<forall>v \<in> set vs. vol_target v = old \<or> (v = last vs \<and> r = Inr () \<and> vol_target v = Some content))"
  using assms
  by (auto simp: atomic_write_trace_def Let_def split: option.splits fault.splits)

lemma atomic_write_trace_result:
  assumes "atomic_write_trace loc fault fresh content old = (r, vs)"
  shows "vol_target (last vs) = (if r = Inr () then Some content else old)"
  using assms
  by (auto simp: atomic_write_trace_def Let_def split: option.splits fault.splits)

lemma atomic_write_cases:
  "atomic_write loc fault content old = (r, new) \<Longrightarrow>
     new = (if r = Inr () then Some content else old)"
  by (auto simp: atomic_write_def split: prod.splits dest: atomic_write_trace_result)

lemma atomic_write_NoFault:
  "loc_parent loc \<noteq> None \<Longrightarrow> atomic_write loc NoFault content old = (Inr (), Some content)"
  by (auto simp: atomic_write_def atomic_write_trace_def Let_def)

lemma atomic_write_Inl: "atomic_write loc fault content old = (Inl e, new) \<Longrightarrow> \<not> is_panic e"
  by (auto simp: atomic_write_def atomic_write_trace_def Let_def io_error_def
      split: option.splits fault.splits)

text \<open>
  The contract the stores build on: a write replaces the file or leaves it alone, and its
  result says which.
\<close>

locale replacing_write =
  fixes replace :: "'f \<Rightarrow> 'b \<Rightarrow> 'b option \<Rightarrow> unit result \<times> 'b option"
  assumes replace_ok: "replace f content old = (Inr (), new) \<Longrightarrow> new = Some content"
    and replace_err: "replace f content old = (Inl e, new) \<Longrightarrow> new = old"
begin

lemma replace_outcome:
  "replace f content old = (Inr (), Some content) \<or> (\<exists>e. replace f content old = (Inl e, old))"
  by (cases "replace f content old"; cases "fst (replace f content old)")
    (auto dest: replace_ok replace_err)

lemma replace_readable:
  assumes "codec_ok c" and "enc c d = Inr b" and "replace f b old = (r, new)"
    and "old = Some ob" and "dec c ob = Inr od"
  shows "\<exists>nb. new = Some nb \<and> dec c nb = Inr (if r = Inr () then d else od)"
  using assms replace_outcome [of f b old] by (auto dest: codec_okD)

end

interpretation disk: replacing_write "atomic_write loc" for loc
  by unfold_locales (auto dest: atomic_write_cases)


section \<open>Documents\<close>

definition save_document ::
    "('b, 'd) codec \<Rightarrow> location \<Rightarrow> 'b fault \<Rightarrow> 'd \<Rightarrow> 'b option \<Rightarrow> unit result \<times> 'b option" where
  "save_document c loc fault d file =
     (case enc c d of
        Inl m \<Rightarrow> (bail m, file)
      | Inr bytes \<Rightarrow> atomic_write loc fault bytes file)"

text \<open>
  Reading: an absent file is the default document, and reading (\<open>rf\<close> is the system's
  message when it fails) and parsing errors get the given contexts.
\<close>

definition load_document ::
    "('b, 'd) codec \<Rightarrow> string \<Rightarrow> string \<Rightarrow> string option \<Rightarrow> 'd \<Rightarrow> 'b option \<Rightarrow> 'd result" where
  "load_document c reading invalid rf dflt file =
     (case file of
        None \<Rightarrow> Inr dflt
      | Some bytes \<Rightarrow>
          (case rf of
             Some os \<Rightarrow> Inl (io_error reading os)
           | None \<Rightarrow>
               (case dec c bytes of
                  Inl m \<Rightarrow> Inl (io_error invalid m)
                | Inr d \<Rightarrow> Inr d)))"

definition load_json_or_default ::
    "('b, 'd) codec \<Rightarrow> location \<Rightarrow> string option \<Rightarrow> 'd \<Rightarrow> 'b option \<Rightarrow> 'd result" where
  "load_json_or_default c loc rf dflt file =
     load_document c (''cannot read '' @ loc_path loc) (''invalid JSON in '' @ loc_path loc)
       rf dflt file"

lemma save_document_Inr:
  "codec_ok c \<Longrightarrow> save_document c loc fault d file = (Inr (), file') \<Longrightarrow>
     \<exists>b. file' = Some b \<and> dec c b = Inr d"
  by (auto simp: save_document_def dest: disk.replace_ok codec_okD split: sum.splits)

lemma save_document_Inl: "save_document c loc fault d file = (Inl e, file') \<Longrightarrow> file' = file"
  by (auto simp: save_document_def dest: disk.replace_err split: sum.splits)

lemma save_document_no_panic: "save_document c loc fault d file = (Inl e, file') \<Longrightarrow> \<not> is_panic e"
  by (auto simp: save_document_def dest: atomic_write_Inl split: sum.splits)

lemma save_document_id:
  "loc_parent loc \<noteq> None \<Longrightarrow> save_document id_codec loc NoFault d file = (Inr (), Some d)"
  by (simp add: save_document_def atomic_write_NoFault)

lemma load_after_save:
  "codec_ok c \<Longrightarrow> save_document c loc fault d file = (Inr (), file') \<Longrightarrow>
     load_document c reading invalid None dflt file' = Inr d"
  by (auto simp: load_document_def dest!: save_document_Inr)

lemma load_document_None [simp]: "load_document c reading invalid rf dflt None = Inr dflt"
  by (simp add: load_document_def)

lemma load_document_no_panic: "load_document c reading invalid rf dflt file = Inl e \<Longrightarrow> \<not> is_panic e"
  by (auto simp: load_document_def io_error_def split: option.splits sum.splits)


section \<open>Operations that fail without effect\<close>

text \<open>
  Several stores undo their change in memory when the write fails, so that a failed call
  has no effect at all.  A sequence of such calls is then determined by those that
  succeed, and an invariant needs to be checked for these only.
\<close>

locale transactional =
  fixes step :: "'x \<Rightarrow> 's \<Rightarrow> 'r result \<times> 's"
  assumes rollback: "step x s = (Inl e, s') \<Longrightarrow> s' = s"
begin

lemma step_effect: "snd (step x s) \<noteq> s \<Longrightarrow> \<exists>r. step x s = (Inr r, snd (step x s))"
  by (cases "step x s"; cases "fst (step x s)") (auto dest: rollback)

lemma steps_invariant:
  assumes "\<And>x s r s'. x \<in> set xs \<Longrightarrow> P s \<Longrightarrow> step x s = (Inr r, s') \<Longrightarrow> P s'" and "P s"
  shows "P (foldl (\<lambda>s x. snd (step x s)) s xs)"
  using assms
proof (induction xs arbitrary: s)
  case (Cons x xs)
  have now: "P (snd (step x s))"
  proof (cases "snd (step x s) = s")
    case False
    then obtain r where "step x s = (Inr r, snd (step x s))" using step_effect by blast
    with Cons.prems show ?thesis by (meson list.set_intros(1))
  qed (simp add: Cons.prems)
  have "P (foldl (\<lambda>s x. snd (step x s)) (snd (step x s)) xs)"
    by (rule Cons.IH [OF _ now]) (use Cons.prems(1) in auto)
  then show ?case by simp
qed simp

end

end
