(* ===== verification/Config.thy ===== *)
theory Config
  imports Dialog_Rules Storage
begin

text \<open>
  \<open>config.rs\<close>: the settings, their validation, the resolution of the policy of a failure
  condition from the built-in table and the user's overrides, and the configuration file.
\<close>


section \<open>Settings\<close>

record engine_settings =
  poll_interval_seconds :: u64
  attempt_window_seconds :: int
  log_retention :: nat

record lifecycle_settings =
  stale_after_seconds :: int

record codex_settings =
  codex_enabled :: bool
  codex_command :: "string list"

record claude_settings =
  claude_enabled :: bool

record provider_settings =
  ps_codex :: codex_settings
  ps_claude :: claude_settings

record policy_override =
  po_action :: "policy_action option"
  po_backoff :: "backoff_kind option"
  po_initial_delay_seconds :: "u64 option"
  po_max_delay_seconds :: "u64 option"
  po_max_attempts :: "nat option"
  po_prompt :: "string option"

record settings =
  st_version :: u32
  st_engine :: engine_settings
  st_lifecycle :: lifecycle_settings
  st_providers :: provider_settings
  st_policies :: "(string, policy_override) dict"
  st_dialogs :: dialog_settings

record resolved_policy =
  rp_condition :: string
  rp_description :: string
  rp_action :: policy_action
  rp_backoff :: "backoff_kind option"
  rp_initial_delay_seconds :: u64
  rp_max_delay_seconds :: u64
  rp_max_attempts :: nat
  rp_prompt :: string
  rp_customized :: bool

definition default_engine_settings :: engine_settings where
  "default_engine_settings =
     \<lparr>poll_interval_seconds = 10, attempt_window_seconds = 3600, log_retention = 10000\<rparr>"

definition default_lifecycle_settings :: lifecycle_settings where
  "default_lifecycle_settings = \<lparr>stale_after_seconds = 3 * 24 * 60 * 60\<rparr>"

definition default_codex_settings :: codex_settings where
  "default_codex_settings =
     \<lparr>codex_enabled = True,
      codex_command = [''codex'', ''app-server'', ''--listen'', ''stdio://'']\<rparr>"

definition default_provider_settings :: provider_settings where
  "default_provider_settings =
     \<lparr>ps_codex = default_codex_settings, ps_claude = \<lparr>claude_enabled = True\<rparr>\<rparr>"

definition default_override :: policy_override where
  "default_override =
     \<lparr>po_action = None, po_backoff = None, po_initial_delay_seconds = None,
      po_max_delay_seconds = None, po_max_attempts = None, po_prompt = None\<rparr>"

definition default_settings :: settings where
  "default_settings =
     \<lparr>st_version = 4, st_engine = default_engine_settings,
      st_lifecycle = default_lifecycle_settings, st_providers = default_provider_settings,
      st_policies = [], st_dialogs = default_dialog_settings\<rparr>"


section \<open>Policy resolution\<close>

text \<open>The two lookups the code expects to succeed do: see \<open>condition_failure_unknown\<close>.\<close>

definition fallback_condition :: "string \<Rightarrow> condition_definition" where
  "fallback_condition condition =
     (case condition_named condition of
        Some c \<Rightarrow> c
      | None \<Rightarrow> the (condition_named ''failure.unknown''))"

definition retry_defaults :: condition_definition where
  "retry_defaults = the (condition_named ''network.connection_failed'')"

definition policy :: "settings \<Rightarrow> string \<Rightarrow> resolved_policy" where
  "policy s condition =
     (let fallback = fallback_condition condition;
          custom = hm_get (st_policies s) condition;
          action = unwrap_or (Option.bind custom po_action) (cd_action fallback);
          backoff = (case action of
              Retry \<Rightarrow>
                (case Option.bind custom po_backoff of
                   Some b \<Rightarrow> Some b
                 | None \<Rightarrow> (case cd_backoff fallback of Some b \<Rightarrow> Some b | None \<Rightarrow> Some Exponential))
            | Skip \<Rightarrow> None);
          retry_initial = (if cd_initial_delay_seconds fallback > 0
            then cd_initial_delay_seconds fallback
            else cd_initial_delay_seconds retry_defaults);
          retry_maximum = (if cd_max_delay_seconds fallback > 0
            then cd_max_delay_seconds fallback
            else cd_max_delay_seconds retry_defaults);
          retry_attempts = (if cd_max_attempts fallback > 0
            then cd_max_attempts fallback
            else cd_max_attempts retry_defaults)
      in \<lparr>rp_condition = condition,
          rp_description = cd_description fallback,
          rp_action = action,
          rp_backoff = backoff,
          rp_initial_delay_seconds =
            unwrap_or (Option.bind custom po_initial_delay_seconds)
              (if action = Retry then retry_initial else 0),
          rp_max_delay_seconds =
            unwrap_or (Option.bind custom po_max_delay_seconds)
              (if action = Retry then retry_maximum else 0),
          rp_max_attempts =
            unwrap_or (Option.bind custom po_max_attempts)
              (if action = Retry then retry_attempts else 0),
          rp_prompt =
            (if action = Retry then unwrap_or (Option.bind custom po_prompt) default_prompt
             else []),
          rp_customized = (custom \<noteq> None)\<rparr>)"

definition policies :: "settings \<Rightarrow> resolved_policy list" where
  "policies s = map (\<lambda>c. policy s (cd_name c)) conditions"


section \<open>Validation\<close>

definition validate_command :: "string \<Rightarrow> bool \<Rightarrow> string list \<Rightarrow> unit result" where
  "validate_command name enabled command =
     (if enabled \<and> (command = [] \<or> list_ex (\<lambda>part. part = []) command)
      then bail (name @ '' must be a non-empty array of strings'')
      else Inr ())"

definition validate_override :: "string \<times> policy_override \<Rightarrow> unit result" where
  "validate_override = (\<lambda>(condition, p).
     if (case po_prompt p of None \<Rightarrow> False | Some t \<Rightarrow> blank t)
     then bail (''policy '' @ condition @ '' prompt cannot be empty'')
     else if po_initial_delay_seconds p = Some 0 \<or> po_max_delay_seconds p = Some 0 \<or>
       po_max_attempts p = Some 0
     then bail (''policy '' @ condition @ '' retry settings must be positive'')
     else if (case (po_initial_delay_seconds p, po_max_delay_seconds p) of
         (Some initial, Some maximum) \<Rightarrow> maximum < initial
       | _ \<Rightarrow> False)
     then bail (''policy '' @ condition @
       '' max_delay_seconds cannot be less than initial_delay_seconds'')
     else if po_action p = Some Skip \<and>
       (po_backoff p \<noteq> None \<or> po_initial_delay_seconds p \<noteq> None \<or>
        po_max_delay_seconds p \<noteq> None \<or> po_max_attempts p \<noteq> None)
     then bail (''policy '' @ condition @ '' cannot set retry fields when action is skip'')
     else Inr ())"

definition validate_policy_entry :: "string \<times> policy_override \<Rightarrow> unit result" where
  "validate_policy_entry = (\<lambda>(condition, p).
     if \<not> is_known condition then bail (''unknown policy condition: '' @ condition)
     else validate_override (condition, p))"

definition validate_resolved :: "settings \<Rightarrow> condition_definition \<Rightarrow> unit result" where
  "validate_resolved s c =
     (let p = policy s (cd_name c)
      in if rp_action p = Retry \<and>
           (rp_initial_delay_seconds p = 0 \<or>
            rp_max_delay_seconds p < rp_initial_delay_seconds p \<or>
            rp_max_attempts p = 0)
         then bail (''policy '' @ cd_name c @ '' has invalid resolved retry settings'')
         else Inr ())"

definition validate :: "settings \<Rightarrow> unit result" where
  "validate s =
     (if st_version s \<noteq> 4
      then bail (''unsupported config version '' @ show_nat (unat (st_version s)) @
        ''; this release supports version 4'')
      else if poll_interval_seconds (st_engine s) = 0 \<or>
        attempt_window_seconds (st_engine s) \<le> 0 \<or> log_retention (st_engine s) = 0
      then bail ''engine settings must be positive''
      else if stale_after_seconds (st_lifecycle s) \<le> 0
      then bail ''lifecycle settings must be positive''
      else
        bindR (validate_command ''providers.codex.command''
            (codex_enabled (ps_codex (st_providers s))) (codex_command (ps_codex (st_providers s))))
          (\<lambda>_. bindR (validate_dialogs (st_dialogs s))
          (\<lambda>_. bindR (check_all validate_policy_entry (st_policies s))
          (\<lambda>_. check_all (validate_resolved s) conditions))))"


section \<open>The configuration file\<close>

definition load_settings ::
    "('b, settings) codec \<Rightarrow> location \<Rightarrow> string option \<Rightarrow> 'b option \<Rightarrow> settings result" where
  "load_settings c loc rf file =
     (case file of
        None \<Rightarrow> Inr default_settings
      | Some bytes \<Rightarrow>
          bindR (load_document c (''cannot read configuration '' @ loc_path loc)
              (''invalid configuration '' @ loc_path loc) rf default_settings file)
            (\<lambda>s. bindR (validate s) (\<lambda>_. Inr s)))"

definition save_settings ::
    "('b, settings) codec \<Rightarrow> location \<Rightarrow> 'b fault \<Rightarrow> settings \<Rightarrow> 'b option \<Rightarrow>
     unit result \<times> 'b option" where
  "save_settings c loc fault s file =
     (case validate s of
        Inl e \<Rightarrow> (Inl e, file)
      | Inr _ \<Rightarrow> save_document c loc fault s file)"

text \<open>\<open>default_text\<close> is the constant \<open>DEFAULT_CONFIG\<close> as file content.\<close>

definition initialize_config ::
    "'b \<Rightarrow> location \<Rightarrow> 'b fault \<Rightarrow> bool \<Rightarrow> 'b option \<Rightarrow> unit result \<times> 'b option" where
  "initialize_config default_text loc fault force file =
     (if file \<noteq> None \<and> \<not> force
      then (bail (''configuration already exists: '' @ loc_path loc), file)
      else atomic_write loc fault default_text file)"


section \<open>Lemmas\<close>

lemma fallback_valid: "condition_valid (fallback_condition name)"
proof (cases "condition_named name")
  case None
  have "condition_valid (the (condition_named ''failure.unknown''))"
    using condition_named_valid [OF condition_failure_unknown]
    by (simp only: condition_failure_unknown option.sel)
  with None show ?thesis by (simp add: fallback_condition_def)
next
  case (Some c)
  then show ?thesis by (auto simp: fallback_condition_def dest: condition_named_valid)
qed

lemma retry_defaults_values [simp]:
  "cd_initial_delay_seconds retry_defaults = 5"
  "cd_max_delay_seconds retry_defaults = 120"
  "cd_max_attempts retry_defaults = 5"
  by (simp_all add: retry_defaults_def condition_connection_failed condition_simps)

lemma fallback_unknown:
  "\<not> is_known name \<Longrightarrow> cd_action (fallback_condition name) = Skip"
  by (simp add: is_known_def fallback_condition_def condition_failure_unknown condition_simps)

lemma policy_condition [simp]: "rp_condition (policy s c) = c"
  by (simp add: policy_def Let_def)

lemma policy_customized [simp]: "rp_customized (policy s c) \<longleftrightarrow> c \<in> fst ` set (st_policies s)"
  using map_of_eq_None_iff [of "st_policies s" c] by (auto simp: policy_def Let_def hm_get_def)

lemma policy_action:
  "rp_action (policy s c) =
     unwrap_or (Option.bind (hm_get (st_policies s) c) po_action) (cd_action (fallback_condition c))"
  by (simp add: policy_def Let_def)

lemma policy_backoff_Retry: "rp_action (policy s c) = Retry \<longleftrightarrow> rp_backoff (policy s c) \<noteq> None"
  by (cases "rp_action (policy s c)") (auto simp: policy_def Let_def split: option.splits)

lemma policy_default:
  "c \<notin> fst ` set (st_policies s) \<Longrightarrow> policy s c = policy (s\<lparr>st_policies := []\<rparr>) c"
  by (simp add: policy_def hm_get_def Let_def map_of_eq_None_iff [symmetric])

lemma policy_other:
  "c \<noteq> c' \<Longrightarrow>
     policy (s\<lparr>st_policies := bt_insert c p (st_policies s)\<rparr>) c' = policy s c'"
  by (simp add: policy_def)

lemma validate_Inr:
  "validate s = Inr () \<longleftrightarrow>
     st_version s = 4 \<and>
     poll_interval_seconds (st_engine s) \<noteq> 0 \<and> 0 < attempt_window_seconds (st_engine s) \<and>
     0 < log_retention (st_engine s) \<and> 0 < stale_after_seconds (st_lifecycle s) \<and>
     validate_command ''providers.codex.command''
       (codex_enabled (ps_codex (st_providers s))) (codex_command (ps_codex (st_providers s))) = Inr () \<and>
     validate_dialogs (st_dialogs s) = Inr () \<and>
     (\<forall>e \<in> set (st_policies s). validate_policy_entry e = Inr ()) \<and>
     (\<forall>c \<in> set conditions. validate_resolved s c = Inr ())"
  by (auto simp: validate_def bindR_Inr_iff)

lemma validate_resolved_Inr:
  "validate_resolved s c = Inr () \<longleftrightarrow>
     (rp_action (policy s (cd_name c)) = Retry \<longrightarrow>
        0 < rp_initial_delay_seconds (policy s (cd_name c)) \<and>
        rp_initial_delay_seconds (policy s (cd_name c)) \<le> rp_max_delay_seconds (policy s (cd_name c)) \<and>
        0 < rp_max_attempts (policy s (cd_name c)))"
  by (auto simp: validate_resolved_def Let_def word_gt_0 not_less)

lemma validate_policy_entry_Inr:
  "validate_policy_entry (c, p) = Inr () \<longleftrightarrow> is_known c \<and> validate_override (c, p) = Inr ()"
  by (simp add: validate_policy_entry_def)

lemma validated_unknown_not_overridden:
  "validate s = Inr () \<Longrightarrow> \<not> is_known c \<Longrightarrow> hm_get (st_policies s) c = None"
  by (force simp: validate_Inr hm_get_def validate_policy_entry_Inr map_of_eq_None_iff)

lemma default_prompt_not_blank: "\<not> blank default_prompt"
  by (rule visible_not_blank) (simp_all add: default_prompt_def visible_ascii_def byte_def)

lemma validated_policy_prompt:
  assumes "validate s = Inr ()" and "rp_action (policy s c) = Retry"
  shows "\<not> blank (rp_prompt (policy s c))"
proof (cases "Option.bind (hm_get (st_policies s) c) po_prompt")
  case None
  with assms(2) show ?thesis by (simp add: policy_def Let_def default_prompt_not_blank)
next
  case (Some t)
  then obtain p where p: "hm_get (st_policies s) c = Some p" "po_prompt p = Some t"
    by (auto simp: bind_eq_Some_conv)
  then have "(c, p) \<in> set (st_policies s)"
    by (auto simp: hm_get_def dest: map_of_SomeD)
  then have "validate_override (c, p) = Inr ()"
    using assms(1) by (auto simp: validate_Inr validate_policy_entry_Inr)
  then have "\<not> blank t"
    using p by (auto simp: validate_override_def split: if_splits)
  with assms(2) p show ?thesis by (simp add: policy_def Let_def)
qed

lemma load_settings_valid: "load_settings c loc rf file = Inr s \<Longrightarrow> s = default_settings \<or> validate s = Inr ()"
  by (auto simp: load_settings_def bindR_Inr_iff split: option.splits)

lemma save_settings_Inr:
  "save_settings c loc fault s file = (Inr (), file') \<Longrightarrow>
     validate s = Inr () \<and> save_document c loc fault s file = (Inr (), file')"
  by (auto simp: save_settings_def split: sum.splits)

lemma save_settings_Inl: "save_settings c loc fault s file = (Inl e, file') \<Longrightarrow> file' = file"
  by (auto simp: save_settings_def dest: save_document_Inl split: sum.splits)

lemma default_policy_valid: "c \<in> set conditions \<Longrightarrow> validate_resolved default_settings c = Inr ()"
proof -
  assume c: "c \<in> set conditions"
  then have named: "condition_named (cd_name c) = Some c"
    by (simp add: condition_named_Some)
  then have "condition_valid c" by (rule condition_named_valid)
  moreover from this have "0 < cd_max_delay_seconds c" if "cd_action c = Retry"
    using that by (auto simp: condition_valid_def intro: less_le_trans)
  ultimately show ?thesis
    by (auto simp: validate_resolved_Inr policy_def Let_def default_settings_def hm_get_def
        fallback_condition_def named condition_valid_def split: policy_action.splits)
qed

lemma default_settings_valid: "validate default_settings = Inr ()"
proof -
  have "validate_command ''providers.codex.command'' True
      [''codex'', ''app-server'', ''--listen'', ''stdio://''] = Inr ()"
    by (simp add: validate_command_def)
  then show ?thesis
    by (simp add: validate_Inr default_policy_valid default_dialogs_valid)
      (simp add: default_settings_def default_engine_settings_def default_lifecycle_settings_def
        default_provider_settings_def default_codex_settings_def default_dialogs_valid)
qed


section \<open>Properties\<close>

text \<open>Settings that pass validation resolve to sane policies: whatever condition a
  provider reports, the policy retries only if the condition is one of the table, and then
  with a back-off kind, a positive initial delay not above the maximum, a positive attempt
  limit and a prompt with visible text; any other condition is skipped.\<close>
lemma validated_policy_sane:
  assumes "validate s = Inr ()"
  shows "rp_action (policy s c) = Skip \<and> rp_backoff (policy s c) = None \<and> rp_prompt (policy s c) = [] \<or>
    is_known c \<and> rp_backoff (policy s c) \<noteq> None \<and>
    0 < rp_initial_delay_seconds (policy s c) \<and>
    rp_initial_delay_seconds (policy s c) \<le> rp_max_delay_seconds (policy s c) \<and>
    0 < rp_max_attempts (policy s c) \<and> \<not> blank (rp_prompt (policy s c))"
proof (cases "rp_action (policy s c)")
  case Skip
  then show ?thesis
    using policy_backoff_Retry [of s c] by (simp add: policy_def Let_def)
next
  case Retry
  then have known: "is_known c"
    using fallback_unknown [of c] validated_unknown_not_overridden [OF assms, of c]
    by (cases "is_known c") (simp_all add: policy_action)
  then obtain d where "d \<in> set conditions" and "cd_name d = c"
    by (auto simp: is_known_iff)
  then have "validate_resolved s d = Inr ()"
    using assms by (simp add: validate_Inr)
  with Retry \<open>cd_name d = c\<close> known show ?thesis
    using validated_policy_prompt [OF assms Retry] policy_backoff_Retry [of s c]
    by (simp add: validate_resolved_Inr)
qed

text \<open>C11: The configuration file round-trips and stays valid: after a successful save the
  settings on disk are valid and load as they were saved, and a save that fails, for
  whatever reason, leaves the file as it was.\<close>
theorem settings_roundtrip:
  assumes "codec_ok c" and "save_settings c loc fault s file = (r, file')"
  shows "(r = Inr () \<and> validate s = Inr () \<and> load_settings c loc None file' = Inr s) \<or>
    ((\<exists>e. r = Inl e) \<and> file' = file)"
proof (cases r)
  case (Inl e)
  with assms(2) show ?thesis by (auto dest: save_settings_Inl)
next
  case (Inr u)
  with assms(2) have saved: "save_settings c loc fault s file = (Inr (), file')" by simp
  then have valid: "validate s = Inr ()" and doc: "save_document c loc fault s file = (Inr (), file')"
    by (auto dest: save_settings_Inr)
  from load_after_save [OF assms(1) doc] obtain b where "file' = Some b"
    using save_document_Inr [OF assms(1) doc] by blast
  with valid Inr load_after_save [OF assms(1) doc] show ?thesis
    by (simp add: load_settings_def)
qed

definition example_location :: location where
  "example_location = \<lparr>loc_path = ''/w/f'', loc_parent = Some ''/w''\<rparr>"

lemma example_location_parent [simp]: "loc_parent example_location = Some ''/w''"
  by (simp add: example_location_def)

theorem settings_roundtrip_witness:
  "load_settings id_codec example_location None
     (snd (save_settings id_codec example_location NoFault default_settings None)) =
   Inr default_settings"
proof -
  have "save_settings id_codec example_location NoFault default_settings None =
      (Inr (), Some default_settings)"
    by (simp add: save_settings_def default_settings_valid save_document_id)
  from settings_roundtrip [OF _ this] show ?thesis
    by (simp add: \<open>save_settings _ _ _ _ _ = _\<close>)
qed

end
