(* ===== verification/Runtime_State.thy ===== *)
theory Runtime_State
  imports Config
begin

text \<open>
  The engine's memory (\<open>RuntimeState\<close> of \<open>state.rs\<close>): which failures were handled, when
  they were first seen, the attempts of every session, the recoveries whose outcome is
  still open and the outcomes that the metrics count.
\<close>


section \<open>State\<close>

record handled_failure =
  hf_action :: string
  hf_at :: timestamp

record pending_recovery =
  pr_failure_key :: string
  pr_provider :: string
  pr_session_id :: string
  pr_failed_turn_id :: string
  pr_recovery_turn_id :: string
  pr_started_at :: timestamp
  pr_automatic :: bool
  pr_observation_failures :: u32
  pr_last_observation_at :: "timestamp option"

record recovery_outcome =
  ro_completed_at :: timestamp
  ro_automatic :: bool
  ro_success :: bool

record recovery_metrics =
  rm_automatic_recoveries :: nat
  rm_manual_recoveries :: nat
  rm_failed_recoveries :: nat
  rm_hands_free_percent :: "8 word"

record runtime_state =
  rs_version :: u32
  rs_handled :: "(string, handled_failure) dict"
  rs_observed :: "(string, timestamp) dict"
  rs_attempts :: "(string, timestamp list) dict"
  rs_pending :: "(string, pending_recovery) dict"
  rs_outcomes :: "recovery_outcome list"

definition initial_runtime_state :: runtime_state where
  "initial_runtime_state =
     \<lparr>rs_version = 3, rs_handled = [], rs_observed = [], rs_attempts = [], rs_pending = [],
      rs_outcomes = []\<rparr>"

definition runtime_load ::
    "('b, runtime_state) codec \<Rightarrow> location \<Rightarrow> string option \<Rightarrow> 'b option \<Rightarrow> runtime_state result" where
  "runtime_load c loc rf file =
     bindR (load_document c (''cannot read runtime state '' @ loc_path loc)
         (''invalid runtime state '' @ loc_path loc) rf initial_runtime_state file)
       (\<lambda>st. if rs_version st \<noteq> 3
          then bail (''unsupported runtime state version '' @ show_nat (unat (rs_version st)) @
            ''; this release requires version 3'')
          else Inr st)"

definition runtime_save ::
    "('b, runtime_state) codec \<Rightarrow> location \<Rightarrow> 'b fault \<Rightarrow> runtime_state \<Rightarrow> 'b option \<Rightarrow>
     unit result \<times> 'b option" where
  "runtime_save c loc fault st file = save_document c loc fault st file"


section \<open>Failures and attempts\<close>

definition handled_action :: "runtime_state \<Rightarrow> failure \<Rightarrow> string option" where
  "handled_action st f = map_option hf_action (hm_get (rs_handled st) (failure_key f))"

definition mark_handled :: "failure \<Rightarrow> string \<Rightarrow> timestamp \<Rightarrow> runtime_state \<Rightarrow> runtime_state" where
  "mark_handled f action now st =
     st\<lparr>rs_handled :=
         hm_insert (failure_key f) \<lparr>hf_action = action, hf_at = now\<rparr> (rs_handled st)\<rparr>"

definition first_seen :: "failure \<Rightarrow> timestamp \<Rightarrow> runtime_state \<Rightarrow> timestamp \<times> runtime_state" where
  "first_seen f now st =
     (case hm_get (rs_observed st) (failure_key f) of
        Some t \<Rightarrow> (t, st)
      | None \<Rightarrow> (now, st\<lparr>rs_observed := hm_insert (failure_key f) now (rs_observed st)\<rparr>))"

definition attempts_of :: "runtime_state \<Rightarrow> string \<Rightarrow> timestamp list" where
  "attempts_of st k = unwrap_or (hm_get (rs_attempts st) k) []"

definition recent_attempts ::
    "chrono \<Rightarrow> watch_target \<Rightarrow> timestamp \<Rightarrow> int \<Rightarrow> runtime_state \<Rightarrow> (nat \<times> runtime_state) result" where
  "recent_attempts ch target now window st =
     bindR (minus_seconds ch now window)
       (\<lambda>cutoff.
          let kept = filter (\<lambda>attempt. attempt \<ge> cutoff) (attempts_of st (target_key target))
          in Inr (length kept,
               st\<lparr>rs_attempts := hm_insert (target_key target) kept (rs_attempts st)\<rparr>))"

definition record_attempt :: "watch_target \<Rightarrow> timestamp \<Rightarrow> runtime_state \<Rightarrow> runtime_state" where
  "record_attempt target now st =
     st\<lparr>rs_attempts :=
         hm_insert (target_key target) (attempts_of st (target_key target) @ [now]) (rs_attempts st)\<rparr>"

definition latest_attempt :: "runtime_state \<Rightarrow> watch_target \<Rightarrow> timestamp option" where
  "latest_attempt st target =
     (case hm_get (rs_attempts st) (target_key target) of
        None \<Rightarrow> None
      | Some attempts \<Rightarrow> if attempts = [] then None else Some (last attempts))"

definition clear_attempts :: "watch_target \<Rightarrow> runtime_state \<Rightarrow> runtime_state" where
  "clear_attempts target st =
     st\<lparr>rs_attempts := hm_remove (target_key target) (rs_attempts st)\<rparr>"


section \<open>Recoveries\<close>

definition new_recovery :: "failure \<Rightarrow> string \<Rightarrow> timestamp \<Rightarrow> bool \<Rightarrow> pending_recovery" where
  "new_recovery f recovery_turn now automatic =
     \<lparr>pr_failure_key = failure_key f, pr_provider = fl_provider f,
      pr_session_id = fl_session_id f, pr_failed_turn_id = fl_turn_id f,
      pr_recovery_turn_id = recovery_turn, pr_started_at = now, pr_automatic = automatic,
      pr_observation_failures = 0, pr_last_observation_at = None\<rparr>"

definition begin_recovery ::
    "failure \<Rightarrow> string \<Rightarrow> timestamp \<Rightarrow> bool \<Rightarrow> runtime_state \<Rightarrow> runtime_state" where
  "begin_recovery f recovery_turn now automatic st =
     st\<lparr>rs_pending :=
         hm_insert (failure_key f) (new_recovery f recovery_turn now automatic) (rs_pending st)\<rparr>"

definition pending_recoveries :: "runtime_state \<Rightarrow> pending_recovery list" where
  "pending_recoveries st = hm_values (rs_pending st)"

definition pending_target :: "pending_recovery \<Rightarrow> string" where
  "pending_target p = pr_provider p @ '':'' @ pr_session_id p"

definition pending_target_keys :: "runtime_state \<Rightarrow> string set" where
  "pending_target_keys st = set (map pending_target (hm_values (rs_pending st)))"

definition has_pending_for :: "runtime_state \<Rightarrow> watch_target \<Rightarrow> bool" where
  "has_pending_for st target \<longleftrightarrow>
     list_ex (\<lambda>p. pr_provider p = wt_provider target \<and> pr_session_id p = wt_session_id target)
       (hm_values (rs_pending st))"

definition finish_recovery ::
    "string \<Rightarrow> bool \<Rightarrow> timestamp \<Rightarrow> runtime_state \<Rightarrow> pending_recovery option \<times> runtime_state" where
  "finish_recovery key success now st =
     (case hm_get (rs_pending st) key of
        None \<Rightarrow> (None, st)
      | Some p \<Rightarrow>
          (Some p,
           st\<lparr>rs_pending := hm_remove key (rs_pending st),
              rs_outcomes := rs_outcomes st @
                [\<lparr>ro_completed_at = now, ro_automatic = pr_automatic p, ro_success = success\<rparr>]\<rparr>))"

definition note_observation_failure :: "timestamp \<Rightarrow> pending_recovery \<Rightarrow> pending_recovery" where
  "note_observation_failure now p =
     p\<lparr>pr_observation_failures := u32_sat_add (pr_observation_failures p) 1,
       pr_last_observation_at := Some now\<rparr>"

definition record_observation_failure ::
    "string \<Rightarrow> timestamp \<Rightarrow> runtime_state \<Rightarrow> u32 option \<times> runtime_state" where
  "record_observation_failure key now st =
     (case hm_get (rs_pending st) key of
        None \<Rightarrow> (None, st)
      | Some p \<Rightarrow>
          (let p' = note_observation_failure now p
           in (Some (pr_observation_failures p'),
               st\<lparr>rs_pending := hm_insert key p' (rs_pending st)\<rparr>)))"

definition abandon_recovery ::
    "string \<Rightarrow> runtime_state \<Rightarrow> pending_recovery option \<times> runtime_state" where
  "abandon_recovery key st =
     (hm_get (rs_pending st) key, st\<lparr>rs_pending := hm_remove key (rs_pending st)\<rparr>)"


section \<open>Metrics and pruning\<close>

definition count_outcome :: "recovery_outcome \<Rightarrow> recovery_metrics \<Rightarrow> recovery_metrics" where
  "count_outcome o' m =
     (case (ro_success o', ro_automatic o') of
        (True, True) \<Rightarrow> m\<lparr>rm_automatic_recoveries := rm_automatic_recoveries m + 1\<rparr>
      | (True, False) \<Rightarrow> m\<lparr>rm_manual_recoveries := rm_manual_recoveries m + 1\<rparr>
      | (False, _) \<Rightarrow> m\<lparr>rm_failed_recoveries := rm_failed_recoveries m + 1\<rparr>)"

definition hands_free :: "nat \<Rightarrow> nat \<Rightarrow> 8 word" where
  "hands_free automatic resolved =
     (if resolved = 0 then 100
      else let percent = usize_sat_mul automatic 100 div resolved
           in if percent < 2 ^ 8 then word_of_nat percent else 100)"

definition metrics_since :: "timestamp \<Rightarrow> runtime_state \<Rightarrow> recovery_metrics" where
  "metrics_since since st =
     (let m = foldl (\<lambda>m o'. count_outcome o' m)
            \<lparr>rm_automatic_recoveries = 0, rm_manual_recoveries = 0, rm_failed_recoveries = 0,
             rm_hands_free_percent = 0\<rparr>
            (filter (\<lambda>o'. ro_completed_at o' \<ge> since) (rs_outcomes st))
      in m\<lparr>rm_hands_free_percent :=
          hands_free (rm_automatic_recoveries m)
            (rm_automatic_recoveries m + rm_manual_recoveries m)\<rparr>)"

definition prune_attempts :: "timestamp \<Rightarrow> (string, timestamp list) dict \<Rightarrow> (string, timestamp list) dict" where
  "prune_attempts cutoff m =
     filter (\<lambda>(k, attempts). attempts \<noteq> [])
       (map (\<lambda>(k, attempts). (k, filter (\<lambda>a. a \<ge> cutoff) attempts)) m)"

definition prune :: "chrono \<Rightarrow> timestamp \<Rightarrow> runtime_state \<Rightarrow> runtime_state result" where
  "prune ch now st =
     bindR (ok_or (Panic ''DateTime - TimeDelta overflowed'') (ch_minus ch now (days 30)))
       (\<lambda>cutoff. Inr (st
          \<lparr>rs_handled := hm_retain (\<lambda>_ h. hf_at h \<ge> cutoff) (rs_handled st),
           rs_observed := hm_retain (\<lambda>_ t. t \<ge> cutoff) (rs_observed st),
           rs_attempts := prune_attempts cutoff (rs_attempts st),
           rs_outcomes := keep_last 10000
             (filter (\<lambda>o'. ro_completed_at o' \<ge> cutoff) (rs_outcomes st))\<rparr>))"


section \<open>Invariant\<close>

definition runtime_inv :: "runtime_state \<Rightarrow> bool" where
  "runtime_inv st \<longleftrightarrow>
     hm_wf (rs_handled st) \<and> hm_wf (rs_observed st) \<and> hm_wf (rs_attempts st) \<and>
     hm_wf (rs_pending st) \<and>
     (\<forall>(k, p) \<in> set (rs_pending st). pr_failure_key p = k)"

lemma hm_insert_mem: "(k', v') \<in> set (hm_insert k v m) \<Longrightarrow> (k', v') = (k, v) \<or> (k', v') \<in> set m"
  unfolding hm_insert_def by (induction m) (auto split: if_splits)

lemma hm_remove_mem: "(k', v') \<in> set (hm_remove k m) \<longleftrightarrow> k' \<noteq> k \<and> (k', v') \<in> set m"
  by (auto simp: hm_remove_def)

lemma initial_runtime_inv [invariant_intros]: "runtime_inv initial_runtime_state"
  by (simp add: runtime_inv_def initial_runtime_state_def hm_wf_def)

lemma mark_handled_inv [invariant_intros]: "runtime_inv st \<Longrightarrow> runtime_inv (mark_handled f a now st)"
  by (simp add: runtime_inv_def mark_handled_def hash.wf_insert)

lemma first_seen_inv [invariant_intros]: "runtime_inv st \<Longrightarrow> runtime_inv (snd (first_seen f now st))"
  by (simp add: runtime_inv_def first_seen_def hash.wf_insert split: option.splits)

lemma record_attempt_inv [invariant_intros]: "runtime_inv st \<Longrightarrow> runtime_inv (record_attempt t now st)"
  by (simp add: runtime_inv_def record_attempt_def hash.wf_insert)

lemma clear_attempts_inv [invariant_intros]: "runtime_inv st \<Longrightarrow> runtime_inv (clear_attempts t st)"
  by (simp add: runtime_inv_def clear_attempts_def hash.wf_remove)

lemma recent_attempts_inv [invariant_intros]:
  "runtime_inv st \<Longrightarrow> recent_attempts ch t now w st = Inr (n, st') \<Longrightarrow> runtime_inv st'"
  by (auto simp: runtime_inv_def recent_attempts_def hash.wf_insert bindR_Inr_iff Let_def)

lemma begin_recovery_inv [invariant_intros]: "runtime_inv st \<Longrightarrow> runtime_inv (begin_recovery f r now a st)"
  by (auto simp: runtime_inv_def begin_recovery_def hash.wf_insert new_recovery_def
      dest!: hm_insert_mem)

lemma finish_recovery_inv [invariant_intros]: "runtime_inv st \<Longrightarrow> runtime_inv (snd (finish_recovery k s now st))"
  by (auto simp: runtime_inv_def finish_recovery_def hash.wf_remove hm_remove_mem split: option.splits)

lemma record_observation_failure_inv [invariant_intros]:
  "runtime_inv st \<Longrightarrow> runtime_inv (snd (record_observation_failure k now st))"
  by (auto simp: runtime_inv_def record_observation_failure_def hash.wf_insert Let_def
      note_observation_failure_def hash.get_mem [symmetric]
      split: option.splits dest!: hm_insert_mem)

lemma abandon_recovery_inv [invariant_intros]: "runtime_inv st \<Longrightarrow> runtime_inv (snd (abandon_recovery k st))"
  by (auto simp: runtime_inv_def abandon_recovery_def hash.wf_remove hm_remove_mem)

lemma prune_attempts_wf: "hm_wf m \<Longrightarrow> hm_wf (prune_attempts cutoff m)"
  by (auto simp: prune_attempts_def hm_wf_def comp_def case_prod_beta intro: distinct_map_filter)

lemma prune_inv [invariant_intros]: "runtime_inv st \<Longrightarrow> prune ch now st = Inr st' \<Longrightarrow> runtime_inv st'"
  by (auto simp: runtime_inv_def prune_def hash.wf_retain prune_attempts_wf bindR_Inr_iff)

lemma pending_by_key: "runtime_inv st \<Longrightarrow> hm_get (rs_pending st) k = Some p \<Longrightarrow> pr_failure_key p = k"
  by (auto simp: runtime_inv_def hash.get_mem [symmetric])


section \<open>What the operations leave alone\<close>

lemma handled_frames [frame_simps]:
  "rs_handled (record_attempt t now st) = rs_handled st"
  "rs_handled (clear_attempts t st) = rs_handled st"
  "rs_handled (begin_recovery f r now a st) = rs_handled st"
  "rs_handled (snd (first_seen f now st)) = rs_handled st"
  "rs_handled (snd (finish_recovery k s now st)) = rs_handled st"
  "rs_handled (snd (record_observation_failure k now st)) = rs_handled st"
  "rs_handled (snd (abandon_recovery k st)) = rs_handled st"
  by (simp_all add: record_attempt_def clear_attempts_def begin_recovery_def first_seen_def
      finish_recovery_def record_observation_failure_def abandon_recovery_def Let_def
      split: option.splits)

lemma attempts_frames [frame_simps]:
  "rs_attempts (mark_handled f x now st) = rs_attempts st"
  "rs_attempts (begin_recovery f r now a st) = rs_attempts st"
  "rs_attempts (snd (first_seen f now st)) = rs_attempts st"
  "rs_attempts (snd (finish_recovery k s now st)) = rs_attempts st"
  "rs_attempts (snd (record_observation_failure k now st)) = rs_attempts st"
  "rs_attempts (snd (abandon_recovery k st)) = rs_attempts st"
  by (simp_all add: mark_handled_def begin_recovery_def first_seen_def
      finish_recovery_def record_observation_failure_def abandon_recovery_def Let_def
      split: option.splits)

lemma outcome_frames [frame_simps]:
  "rs_outcomes (mark_handled f x now st) = rs_outcomes st"
  "rs_outcomes (record_attempt t now st) = rs_outcomes st"
  "rs_outcomes (clear_attempts t st) = rs_outcomes st"
  "rs_outcomes (begin_recovery f r now a st) = rs_outcomes st"
  "rs_outcomes (snd (first_seen f now st)) = rs_outcomes st"
  "rs_outcomes (snd (record_observation_failure k now st)) = rs_outcomes st"
  "rs_outcomes (snd (abandon_recovery k st)) = rs_outcomes st"
  by (simp_all add: mark_handled_def record_attempt_def clear_attempts_def begin_recovery_def
      first_seen_def record_observation_failure_def abandon_recovery_def Let_def
      split: option.splits)

lemma handled_action_mark [simp]: "handled_action (mark_handled f a now st) f = Some a"
  by (simp add: handled_action_def mark_handled_def hash.get_insert)

lemma attempts_of_record [simp]:
  "attempts_of (record_attempt t now st) (target_key t) = attempts_of st (target_key t) @ [now]"
  by (simp add: attempts_of_def record_attempt_def hash.get_insert)

lemma recent_attempts_Inr:
  assumes "recent_attempts ch t now w st = Inr (n, st')"
  shows "\<exists>cutoff. minus_seconds ch now w = Inr cutoff \<and>
    n = length (filter (\<lambda>a. a \<ge> cutoff) (attempts_of st (target_key t))) \<and>
    attempts_of st' (target_key t) = filter (\<lambda>a. a \<ge> cutoff) (attempts_of st (target_key t)) \<and>
    st' = st\<lparr>rs_attempts := rs_attempts st'\<rparr>"
  using assms
  by (auto simp: recent_attempts_def bindR_Inr_iff Let_def attempts_of_def hash.get_insert)

lemma latest_attempt_last:
  "latest_attempt st t = (if attempts_of st (target_key t) = [] then None
     else Some (last (attempts_of st (target_key t))))"
  by (auto simp: latest_attempt_def attempts_of_def split: option.splits)


section \<open>Metrics\<close>

lemma count_outcomes:
  "let m' = foldl (\<lambda>m o'. count_outcome o' m) m os in
     rm_automatic_recoveries m' = rm_automatic_recoveries m +
       length (filter (\<lambda>o'. ro_success o' \<and> ro_automatic o') os) \<and>
     rm_manual_recoveries m' = rm_manual_recoveries m +
       length (filter (\<lambda>o'. ro_success o' \<and> \<not> ro_automatic o') os) \<and>
     rm_failed_recoveries m' = rm_failed_recoveries m +
       length (filter (\<lambda>o'. \<not> ro_success o') os)"
  by (induction os arbitrary: m) (auto simp: count_outcome_def Let_def split: bool.splits)

lemma hands_free_percent:
  assumes "a \<le> r"
  shows "unat (hands_free a r) \<le> 100" and
    "a * 100 \<le> u64_max \<Longrightarrow> unat (hands_free a r) = (if r = 0 then 100 else a * 100 div r)"
proof -
  have "usize_sat_mul a 100 div r \<le> 100" if "r > 0"
  proof -
    have "usize_sat_mul a 100 \<le> 100 * r"
      using assms by (simp add: usize_sat_mul_def min_def)
    then have "usize_sat_mul a 100 div r \<le> 100 * r div r" by (rule div_le_mono)
    with that show ?thesis by simp
  qed
  then have "r > 0 \<Longrightarrow> unat (hands_free a r) = usize_sat_mul a 100 div r"
    by (auto simp: hands_free_def unat_of_nat)
  moreover have "r = 0 \<Longrightarrow> unat (hands_free a r) = 100"
    by (simp add: hands_free_def)
  ultimately show "unat (hands_free a r) \<le> 100"
    and "a * 100 \<le> u64_max \<Longrightarrow> unat (hands_free a r) = (if r = 0 then 100 else a * 100 div r)"
    using \<open>r > 0 \<Longrightarrow> usize_sat_mul a 100 div r \<le> 100\<close>
    by (cases "r = 0"; simp add: usize_sat_mul_def)+
qed


section \<open>Properties\<close>

definition outcomes_since :: "timestamp \<Rightarrow> runtime_state \<Rightarrow> (recovery_outcome \<Rightarrow> bool) \<Rightarrow> nat" where
  "outcomes_since since st P =
     length (filter P (filter (\<lambda>o'. ro_completed_at o' \<ge> since) (rs_outcomes st)))"

text \<open>The metrics of a pruned state are exact: the three counters partition the outcomes
  since the given time, and the hands-free percentage is the integer share of automatic
  among the successful recoveries (100 when there was none); no saturation or conversion
  of the code shows.\<close>
lemma metrics_exact:
  assumes "prune ch now st0 = Inr st"
  shows "rm_automatic_recoveries (metrics_since since st) =
      outcomes_since since st (\<lambda>o'. ro_success o' \<and> ro_automatic o') \<and>
    rm_manual_recoveries (metrics_since since st) =
      outcomes_since since st (\<lambda>o'. ro_success o' \<and> \<not> ro_automatic o') \<and>
    rm_failed_recoveries (metrics_since since st) = outcomes_since since st (\<lambda>o'. \<not> ro_success o') \<and>
    unat (rm_hands_free_percent (metrics_since since st)) =
      (if outcomes_since since st ro_success = 0 then 100
       else outcomes_since since st (\<lambda>o'. ro_success o' \<and> ro_automatic o') * 100
         div outcomes_since since st ro_success)"
proof -
  define os where "os = filter (\<lambda>o'. ro_completed_at o' \<ge> since) (rs_outcomes st)"
  have since: "outcomes_since since st P = length (filter P os)" for P
    by (simp add: outcomes_since_def os_def)
  define m where "m = metrics_since since st"
  let ?a = "length (filter (\<lambda>o'. ro_success o' \<and> ro_automatic o') os)"
    and ?m = "length (filter (\<lambda>o'. ro_success o' \<and> \<not> ro_automatic o') os)"
  note count = count_outcomes [of "\<lparr>rm_automatic_recoveries = 0, rm_manual_recoveries = 0,
    rm_failed_recoveries = 0, rm_hands_free_percent = 0\<rparr>" os]
  have counters: "rm_automatic_recoveries m = ?a" "rm_manual_recoveries m = ?m"
    "rm_failed_recoveries m = length (filter (\<lambda>o'. \<not> ro_success o') os)"
    using count by (simp_all add: m_def metrics_since_def os_def Let_def)
  have "length (rs_outcomes st) \<le> 10000"
    using assms by (auto simp: prune_def bindR_Inr_iff)
  then have "length os \<le> 10000"
    unfolding os_def by (meson length_filter_le order_trans)
  moreover have "?a \<le> length os" by simp
  ultimately have "?a * 100 \<le> 1000000" by linarith
  then have small: "?a * 100 \<le> u64_max" by (simp add: u64_max_def)
  have total: "?a + ?m = length (filter ro_success os)"
    by (induction os) auto
  have "unat (hands_free ?a (?a + ?m)) = (if ?a + ?m = 0 then 100 else ?a * 100 div (?a + ?m))"
    using small by (intro hands_free_percent(2)) simp_all
  moreover have "rm_hands_free_percent m = hands_free ?a (?a + ?m)"
    using count by (simp add: m_def metrics_since_def os_def Let_def)
  ultimately have "unat (rm_hands_free_percent m) =
      (if length (filter ro_success os) = 0 then 100
       else ?a * 100 div length (filter ro_success os))"
    by (simp only: total)
  with counters show ?thesis unfolding since m_def by blast
qed

text \<open>
  A mark is forgotten when it is thirty days old: the failure then counts as never
  handled, although its turn may still be the session's latest.
\<close>

lemma prune_forgets_marks:
  assumes "chrono_exact ch" and "prune ch now st = Inr st'" and "hm_wf (rs_handled st)"
    and "hm_get (rs_handled st) (failure_key f) = Some h" and "hf_at h < now - days 30"
  shows "handled_action st' f = None"
  using assms
  by (auto simp: prune_def bindR_Inr_iff handled_action_def hash.get_retain dest: chrono_exactD)

end
