(* ===== verification/Engine.thy ===== *)
theory Engine
  imports Runtime_State
begin

text \<open>
  The recovery engine (\<open>WatchEngine\<close> of \<open>engine.rs\<close>): one pass over the watched sessions,
  which observes open recoveries, looks at every session's latest failure and resumes it
  when its policy, its budget, its delay and the recovery permit allow it.

  Everything the engine awaits is a script: the answers of the provider, the permit as it
  stands at each of the points where it is read (other tasks change it concurrently), and
  the outcomes of the writes.  The theorems hold for every script.  The calls with an
  effect outside - saving the state, resuming a session, appending to the log - are
  recorded in order.
\<close>


section \<open>The recovery permit\<close>

record permit =
  pm_running :: bool
  pm_target_keys :: "string set"
  pm_generation :: u64

definition permit_update :: "bool \<Rightarrow> watch_target list \<Rightarrow> u64 \<Rightarrow> permit \<Rightarrow> permit" where
  "permit_update running targets generation p =
     p\<lparr>pm_running := running, pm_target_keys := target_key ` set targets,
       pm_generation := generation\<rparr>"

definition default_permit :: permit where
  "default_permit = \<lparr>pm_running = False, pm_target_keys = {}, pm_generation = 0\<rparr>"

definition permit_new :: "bool \<Rightarrow> watch_target list \<Rightarrow> u64 \<Rightarrow> permit" where
  "permit_new running targets generation = permit_update running targets generation default_permit"

definition allows :: "permit \<Rightarrow> watch_target \<Rightarrow> u64 \<Rightarrow> bool" where
  "allows p target generation \<longleftrightarrow>
     pm_running p \<and> pm_generation p = generation \<and> target_key target \<in> pm_target_keys p"


section \<open>Delays, prompts and events\<close>

definition retry_delay_seconds :: "resolved_policy \<Rightarrow> nat \<Rightarrow> u64 option \<Rightarrow> u64" where
  "retry_delay_seconds p attempts retry_after =
     (let configured =
        (case unwrap_or (rp_backoff p) Exponential of
           Fixed \<Rightarrow> rp_initial_delay_seconds p
         | Exponential \<Rightarrow>
             min (sat_mul (rp_initial_delay_seconds p) (sat_pow 2 (min attempts (2 ^ 32 - 1))))
               (rp_max_delay_seconds p))
      in max configured (unwrap_or retry_after 0))"

text \<open>\<open>i64::try_from(delay).unwrap_or(i64::MAX)\<close>.\<close>

definition delay_i64 :: "u64 \<Rightarrow> int" where
  "delay_i64 delay = min (int (unat delay)) (2 ^ 63 - 1)"

definition render_prompt :: "string \<Rightarrow> failure \<Rightarrow> nat \<Rightarrow> nat \<Rightarrow> string" where
  "render_prompt template f attempt max_attempts =
     replace_text ''{max_attempts}'' (show_nat max_attempts)
      (replace_text ''{attempt}'' (show_nat attempt)
       (replace_text ''{provider_code}'' (fl_provider_code f)
        (replace_text ''{condition}'' (fl_condition f)
         (replace_text ''{model}'' (unwrap_or (fl_model f) ''unknown'')
          (replace_text ''{provider}'' (fl_provider f) template)))))"

definition mk_event ::
    "timestamp \<Rightarrow> string \<Rightarrow> watch_target \<Rightarrow> string \<Rightarrow> failure option \<Rightarrow> engine_event" where
  "mk_event now kind target message f =
     \<lparr>ev_timestamp = now, ev_kind = kind, ev_target = target_key target, ev_message = message,
      ev_condition = map_option fl_condition f, ev_attempt = None, ev_max_attempts = None,
      ev_prompt = None, ev_failure = f, ev_receipt = None\<rparr>"

definition attempt_event ::
    "timestamp \<Rightarrow> string \<Rightarrow> watch_target \<Rightarrow> string \<Rightarrow> failure \<Rightarrow> resolved_policy \<Rightarrow> nat \<Rightarrow>
     string option \<Rightarrow> engine_event" where
  "attempt_event now kind target message f p attempt prompt =
     (mk_event now kind target message (Some f))
       \<lparr>ev_condition := Some (rp_condition p), ev_attempt := Some attempt,
        ev_max_attempts := Some (rp_max_attempts p), ev_prompt := prompt\<rparr>"

definition cancelled_event :: "timestamp \<Rightarrow> watch_target \<Rightarrow> string \<Rightarrow> failure \<Rightarrow> engine_event" where
  "cancelled_event now target message f =
     mk_event now ''retry.cancelled'' target message (Some f)"

definition authorization_changed :: string where
  "authorization_changed = ''session authorization changed before resume; no message sent''"

fun acknowledgement_is_unknown :: "error \<Rightarrow> bool" where
  "acknowledgement_is_unknown (Root (AcknowledgementUnknown m)) = True"
| "acknowledgement_is_unknown (Context m e) = acknowledgement_is_unknown e"
| "acknowledgement_is_unknown _ = False"


section \<open>Engine state\<close>

record engine =
  en_settings :: settings
  en_providers :: "string set"
  en_targets :: "watch_target list"
  en_state :: runtime_state
  en_unresolved :: "string set"
  en_dry_run :: bool

datatype effect =
    SaveState runtime_state "unit result"
  | Resume string string string
  | AppendLog "engine_event list" "unit result"

record pass =
  pa_engine :: engine
  pa_events :: "engine_event list"
  pa_persisted :: nat
  pa_effects :: "effect list"

record target_script =
  ts_permit_first :: permit
  ts_failure :: "failure option result"
  ts_permit_before :: permit
  ts_latest :: "failure option result"
  ts_permit_after :: permit
  ts_permit_send :: permit
  ts_save_attempt :: "unit result"
  ts_resume :: "resume_receipt result"
  ts_save_outcome :: "unit result"
  ts_append :: "unit result"

definition set_state :: "runtime_state \<Rightarrow> pass \<Rightarrow> pass" where
  "set_state st pa = pa\<lparr>pa_engine := (pa_engine pa)\<lparr>en_state := st\<rparr>\<rparr>"

definition set_unresolved :: "string set \<Rightarrow> pass \<Rightarrow> pass" where
  "set_unresolved ks pa = pa\<lparr>pa_engine := (pa_engine pa)\<lparr>en_unresolved := ks\<rparr>\<rparr>"

definition push_event :: "engine_event \<Rightarrow> pass \<Rightarrow> pass" where
  "push_event e pa = pa\<lparr>pa_events := pa_events pa @ [e]\<rparr>"

definition perform :: "effect \<Rightarrow> pass \<Rightarrow> pass" where
  "perform x pa = pa\<lparr>pa_effects := pa_effects pa @ [x]\<rparr>"

abbreviation pa_state :: "pass \<Rightarrow> runtime_state" where
  "pa_state pa \<equiv> en_state (pa_engine pa)"


section \<open>Observing open recoveries\<close>

definition pending_recovery_max_age :: duration where
  "pending_recovery_max_age = days 7"

definition orphan_pending_recovery_max_age :: duration where
  "orphan_pending_recovery_max_age = days 1"

definition pending_recovery_max_observation_failures :: u32 where
  "pending_recovery_max_observation_failures = 20"

definition pending_recovery_expired ::
    "watch_target list \<Rightarrow> pending_recovery \<Rightarrow> u32 \<Rightarrow> timestamp \<Rightarrow> bool" where
  "pending_recovery_expired targets p failures now =
     (let age = now - pr_started_at p
      in age \<ge> pending_recovery_max_age \<or>
         (age \<ge> orphan_pending_recovery_max_age \<and>
          failures \<ge> pending_recovery_max_observation_failures \<and>
          \<not> list_ex (\<lambda>t. wt_provider t = pr_provider p \<and> wt_session_id t = pr_session_id p) targets))"

definition pending_event :: "timestamp \<Rightarrow> string \<Rightarrow> pending_recovery \<Rightarrow> string \<Rightarrow> engine_event" where
  "pending_event now kind p message =
     \<lparr>ev_timestamp = now, ev_kind = kind, ev_target = pending_target p, ev_message = message,
      ev_condition = None, ev_attempt = None, ev_max_attempts = None, ev_prompt = None,
      ev_failure = None, ev_receipt = None\<rparr>"

definition abandon_pending_recovery ::
    "pending_recovery \<Rightarrow> timestamp \<Rightarrow> runtime_state \<times> engine_event list \<Rightarrow>
     runtime_state \<times> engine_event list" where
  "abandon_pending_recovery p now = (\<lambda>(st, events).
     case abandon_recovery (pr_failure_key p) st of
       (None, st') \<Rightarrow> (st', events)
     | (Some _, st') \<Rightarrow>
         (st', events @ [pending_event now ''recovery.unconfirmed'' p
            (''stopped observing recovery turn '' @ pr_recovery_turn_id p @
             '' after its outcome remained unavailable'')]))"

definition observation_missing ::
    "watch_target list \<Rightarrow> pending_recovery \<Rightarrow> timestamp \<Rightarrow> runtime_state \<times> engine_event list \<Rightarrow>
     runtime_state \<times> engine_event list" where
  "observation_missing targets p now = (\<lambda>(st, events).
     case record_observation_failure (pr_failure_key p) now st of
       (failures, st') \<Rightarrow>
         if pending_recovery_expired targets p (unwrap_or failures 0) now
         then abandon_pending_recovery p now (st', events)
         else (st', events))"

definition conclude_recovery ::
    "bool \<Rightarrow> pending_recovery \<Rightarrow> timestamp \<Rightarrow> runtime_state \<times> engine_event list \<Rightarrow>
     runtime_state \<times> engine_event list" where
  "conclude_recovery success p now = (\<lambda>(st, events).
     case finish_recovery (pr_failure_key p) success now st of
       (None, st') \<Rightarrow> (st', events)
     | (Some _, st') \<Rightarrow>
         (st', events @ [pending_event now
            (if success then ''recovery.completed'' else ''recovery.failed'') p
            (''recovery turn '' @ pr_recovery_turn_id p @
             (if success then '' completed'' else '' failed''))]))"

definition reconcile_one ::
    "string set \<Rightarrow> watch_target list \<Rightarrow> timestamp \<Rightarrow> (pending_recovery \<Rightarrow> turn_outcome result) \<Rightarrow>
     runtime_state \<times> engine_event list \<Rightarrow> pending_recovery \<Rightarrow> runtime_state \<times> engine_event list" where
  "reconcile_one providers targets now outcome_of acc p =
     (if pr_provider p \<notin> providers then acc
      else case outcome_of p of
        Inl _ \<Rightarrow> observation_missing targets p now acc
      | Inr Completed \<Rightarrow> conclude_recovery True p now acc
      | Inr TurnFailed \<Rightarrow> conclude_recovery False p now acc
      | Inr InProgress \<Rightarrow>
          if now - pr_started_at p \<ge> pending_recovery_max_age
          then abandon_pending_recovery p now acc else acc
      | Inr TurnUnknown \<Rightarrow> observation_missing targets p now acc)"

definition reconcile_pending_recoveries ::
    "string set \<Rightarrow> watch_target list \<Rightarrow> timestamp \<Rightarrow> (pending_recovery \<Rightarrow> turn_outcome result) \<Rightarrow>
     runtime_state \<times> engine_event list \<Rightarrow> runtime_state \<times> engine_event list" where
  "reconcile_pending_recoveries providers targets now outcome_of acc =
     foldl (reconcile_one providers targets now outcome_of) acc (pending_recoveries (fst acc))"


section \<open>One target\<close>

text \<open>What the pass decides to do about a failure, before it talks to the provider again.\<close>

datatype decision =
    AlreadyHandled
  | SkipFailure
  | Exhausted nat
  | Waiting nat timestamp
  | DryRun nat string
  | Send nat string

definition decide ::
    "chrono \<Rightarrow> settings \<Rightarrow> bool \<Rightarrow> timestamp \<Rightarrow> watch_target \<Rightarrow> failure \<Rightarrow> runtime_state \<Rightarrow>
     decision result \<times> runtime_state" where
  "decide ch s dry_run now target f st =
     (let p = policy s (fl_condition f);
          action = handled_action st f
      in if action = Some ''resumed'' \<or> action = Some ''unconfirmed'' \<or>
            (rp_action p = Skip \<and> action = Some ''skipped'')
         then (Inr AlreadyHandled, st)
         else if rp_action p = Skip
         then (Inr SkipFailure, mark_handled f ''skipped'' now st)
         else
           (let (seen, st1) = first_seen f now st
            in case recent_attempts ch target now (attempt_window_seconds (st_engine s)) st1 of
                 Inl e \<Rightarrow> (Inl e, st1)
               | Inr (attempts, st2) \<Rightarrow>
                   if attempts \<ge> rp_max_attempts p then (Inr (Exhausted attempts), st2)
                   else
                     (let delay = retry_delay_seconds p attempts (fl_retry_after_seconds f);
                          delay_from = unwrap_or (latest_attempt st2 target) seen
                      in case plus_seconds ch delay_from (delay_i64 delay) of
                           Inl e \<Rightarrow> (Inl e, st2)
                         | Inr ready_at \<Rightarrow>
                             if now < ready_at then (Inr (Waiting attempts ready_at), st2)
                             else
                               (let prompt = render_prompt (rp_prompt p) f (attempts + 1)
                                      (rp_max_attempts p)
                                in if dry_run then (Inr (DryRun attempts prompt), st2)
                                   else (Inr (Send attempts prompt), st2)))))"

text \<open>
  The send itself: the permit is read again, the failure is fetched again, the permit is
  read twice more - the last time inside the send boundary - and the attempt is recorded
  and saved before the provider is asked to resume.  \<open>Inl\<close> aborts the whole pass.
\<close>

definition after_resume ::
    "timestamp \<Rightarrow> watch_target \<Rightarrow> failure \<Rightarrow> resolved_policy \<Rightarrow> nat \<Rightarrow> string \<Rightarrow> target_script \<Rightarrow>
     pass \<Rightarrow> pass" where
  "after_resume now target f p attempts prompt scr pa =
     (case ts_resume scr of
        Inr receipt \<Rightarrow>
          (let st = mark_handled f ''resumed'' now
                 (begin_recovery f (rr_turn_id receipt) now True (pa_state pa))
           in push_event
             ((attempt_event now ''retry.sent'' target
                 (''started turn '' @ rr_turn_id receipt @ '' after '' @ fl_condition f)
                 f p (attempts + 1) (Some prompt))\<lparr>ev_receipt := Some receipt\<rparr>)
             (perform (SaveState st (ts_save_outcome scr)) (set_state st pa)))
      | Inl e \<Rightarrow>
          if acknowledgement_is_unknown e
          then
            (let st = mark_handled f ''unconfirmed'' now (pa_state pa)
             in push_event
               (attempt_event now ''retry.unconfirmed'' target
                 ''recovery may have started, but the provider acknowledgement was lost''
                 f p (attempts + 1) (Some prompt))
               (perform (SaveState st (ts_save_outcome scr)) (set_state st pa)))
          else
            push_event
              (attempt_event now ''retry.failed'' target (error_text e) f p (attempts + 1)
                (Some prompt)) pa)"

definition append_new_events :: "unit result \<Rightarrow> pass \<Rightarrow> pass" where
  "append_new_events r pa =
     (perform (AppendLog (drop (pa_persisted pa) (pa_events pa)) r) pa)
       \<lparr>pa_persisted := length (pa_events pa)\<rparr>"

definition send_step ::
    "u64 \<Rightarrow> timestamp \<Rightarrow> watch_target \<Rightarrow> failure \<Rightarrow> resolved_policy \<Rightarrow> nat \<Rightarrow> string \<Rightarrow>
     target_script \<Rightarrow> pass \<Rightarrow> error option \<times> pass" where
  "send_step generation now target f p attempts prompt scr pa =
     (if \<not> allows (ts_permit_before scr) target generation
      then (None, push_event (cancelled_event now target authorization_changed f) pa)
      else case ts_latest scr of
        Inl e \<Rightarrow> (Some e, pa)
      | Inr latest \<Rightarrow>
          if \<not> allows (ts_permit_after scr) target generation
          then (None, push_event (cancelled_event now target authorization_changed f) pa)
          else if map_option fl_turn_id latest \<noteq> Some (fl_turn_id f)
          then (None, push_event (cancelled_event now target
                  ''session changed before resume; no message sent'' f) pa)
          else if \<not> allows (ts_permit_send scr) target generation
          then (None, push_event (cancelled_event now target authorization_changed f) pa)
          else
            (let st = record_attempt target now (pa_state pa);
                 pa1 = perform (SaveState st (ts_save_attempt scr)) (set_state st pa)
             in case ts_save_attempt scr of
                  Inl e \<Rightarrow> (Some e, pa1)
                | Inr _ \<Rightarrow>
                    (None, append_new_events (ts_append scr)
                      (after_resume now target f p attempts prompt scr
                        (perform (Resume (wt_session_id target) prompt (failure_key f)) pa1)))))"

definition failure_step ::
    "chrono \<Rightarrow> u64 \<Rightarrow> timestamp \<Rightarrow> watch_target \<Rightarrow> failure \<Rightarrow> target_script \<Rightarrow> pass \<Rightarrow>
     error option \<times> pass" where
  "failure_step ch generation now target f scr pa =
     (let s = en_settings (pa_engine pa);
          p = policy s (fl_condition f)
      in case decide ch s (en_dry_run (pa_engine pa)) now target f (pa_state pa) of
           (Inl e, st) \<Rightarrow> (Some e, set_state st pa)
         | (Inr decision, st) \<Rightarrow>
             (let pa' = set_state st pa
              in case decision of
                   AlreadyHandled \<Rightarrow> (None, pa')
                 | SkipFailure \<Rightarrow>
                     (None, push_event
                       ((mk_event now ''failure.skipped'' target
                           (fl_condition f @ '' matched skip policy'') (Some f))
                          \<lparr>ev_condition := Some (rp_condition p)\<rparr>) pa')
                 | Exhausted attempts \<Rightarrow>
                     (None, push_event
                       (attempt_event now ''retry.exhausted'' target
                         (''retry limit reached ('' @ show_nat attempts @ ''/'' @
                          show_nat (rp_max_attempts p) @ '')'') f p attempts None) pa')
                 | Waiting attempts ready_at \<Rightarrow>
                     (None, push_event
                       (attempt_event now ''retry.waiting'' target
                         (fl_condition f @ '' matched retry policy; next attempt after '' @
                          ch_show ch ready_at) f p (attempts + 1) None) pa')
                 | DryRun attempts prompt \<Rightarrow>
                     (None, push_event
                       (attempt_event now ''retry.dry_run'' target
                         (''would resume after '' @ fl_condition f) f p (attempts + 1)
                         (Some prompt)) pa')
                 | Send attempts prompt \<Rightarrow>
                     send_step generation now target f p attempts prompt scr pa'))"

definition target_step ::
    "chrono \<Rightarrow> u64 \<Rightarrow> timestamp \<Rightarrow> watch_target \<Rightarrow> target_script \<Rightarrow> pass \<Rightarrow> error option \<times> pass" where
  "target_step ch generation now target scr pa =
     (if \<not> allows (ts_permit_first scr) target generation then (None, pa)
      else
        (let answer =
           (if wt_provider target \<in> en_providers (pa_engine pa) then ts_failure scr
            else bail (''provider is unavailable: '' @ wt_provider target));
             unresolved = en_unresolved (pa_engine pa)
         in case answer of
              Inl e \<Rightarrow>
                (None, push_event (mk_event now ''provider.error'' target (error_text e) None) pa)
            | Inr None \<Rightarrow>
                (let pa' = set_unresolved (unresolved - {target_key target}) pa
                 in (None,
                     if has_pending_for (pa_state pa') target then pa'
                     else set_state (clear_attempts target (pa_state pa')) pa'))
            | Inr (Some f) \<Rightarrow>
                failure_step ch generation now target f scr
                  (set_unresolved (insert (target_key target) unresolved) pa)))"


section \<open>A pass\<close>

fun run_targets ::
    "chrono \<Rightarrow> u64 \<Rightarrow> timestamp \<Rightarrow> (watch_target \<times> target_script) list \<Rightarrow> pass \<Rightarrow>
     error option \<times> pass" where
  "run_targets ch generation now [] pa = (None, pa)"
| "run_targets ch generation now ((target, scr) # rest) pa =
     (case target_step ch generation now target scr pa of
        (Some e, pa') \<Rightarrow> (Some e, pa')
      | (None, pa') \<Rightarrow> run_targets ch generation now rest pa')"

record pass_script =
  ps_outcome_of :: "pending_recovery \<Rightarrow> turn_outcome result"
  ps_targets :: "nat \<Rightarrow> target_script"
  ps_final_save :: "unit result"
  ps_final_append :: "unit result"

definition run_once_authorized ::
    "chrono \<Rightarrow> timestamp \<Rightarrow> u64 \<Rightarrow> pass_script \<Rightarrow> engine \<Rightarrow>
     engine_event list result \<times> engine \<times> effect list" where
  "run_once_authorized ch now generation scr en =
     (case prune ch now (en_state en) of
        Inl e \<Rightarrow> (Inl e, en, [])
      | Inr st \<Rightarrow>
          (let (st', events) = reconcile_pending_recoveries (en_providers en) (en_targets en) now
                 (ps_outcome_of scr) (st, []);
               pa = \<lparr>pa_engine = en\<lparr>en_state := st'\<rparr>, pa_events = events, pa_persisted = 0,
                     pa_effects = []\<rparr>;
               scripted = zip (en_targets en) (map (ps_targets scr) [0..<length (en_targets en)])
           in case run_targets ch generation now scripted pa of
                (Some e, pa') \<Rightarrow> (Inl e, pa_engine pa', pa_effects pa')
              | (None, pa') \<Rightarrow>
                  (Inr (pa_events pa'), pa_engine pa',
                   pa_effects pa' @
                     [SaveState (pa_state pa') (ps_final_save scr),
                      AppendLog (drop (pa_persisted pa') (pa_events pa')) (ps_final_append scr)])))"

definition run_once ::
    "chrono \<Rightarrow> timestamp \<Rightarrow> permit \<Rightarrow> pass_script \<Rightarrow> engine \<Rightarrow>
     engine_event list result \<times> engine \<times> effect list" where
  "run_once ch now p scr en = run_once_authorized ch now (pm_generation p) scr en"

definition reconcile_pending_only ::
    "chrono \<Rightarrow> timestamp \<Rightarrow> pass_script \<Rightarrow> engine \<Rightarrow>
     engine_event list result \<times> engine \<times> effect list" where
  "reconcile_pending_only ch now scr en =
     (case prune ch now (en_state en) of
        Inl e \<Rightarrow> (Inl e, en, [])
      | Inr st \<Rightarrow>
          (let (st', events) = reconcile_pending_recoveries (en_providers en) (en_targets en) now
                 (ps_outcome_of scr) (st, [])
           in (Inr events, en\<lparr>en_state := st'\<rparr>,
               [SaveState st' (ps_final_save scr), AppendLog events (ps_final_append scr)])))"


section \<open>Delays\<close>

lemma unat_retry_delay:
  "unat (retry_delay_seconds p attempts retry_after) =
     max (case unwrap_or (rp_backoff p) Exponential of
            Fixed \<Rightarrow> unat (rp_initial_delay_seconds p)
          | Exponential \<Rightarrow>
              min (unat (rp_initial_delay_seconds p) * 2 ^ min attempts (2 ^ 32 - 1))
                (unat (rp_max_delay_seconds p)))
       (unat (unwrap_or retry_after 0))"
proof -
  have sat: "min (a * min b M) M = min (a * b) M" for a b M :: nat
  proof (cases "a = 0 \<or> b \<le> M")
    case False
    then have a: "1 \<le> a" and "M < b" by simp_all
    have "M \<le> a * M" and "b \<le> a * b"
      using a by simp_all
    with \<open>M < b\<close> have "min (a * M) M = M" and "min (a * b) M = M" by linarith+
    with \<open>M < b\<close> show ?thesis by simp
  qed auto
  then have "unat (sat_mul (rp_initial_delay_seconds p) (sat_pow 2 n)) =
      min (unat (rp_initial_delay_seconds p) * 2 ^ n) u64_max" for n
    using sat by (simp add: unat_sat_ops)
  moreover have "min (min x u64_max) (unat (rp_max_delay_seconds p)) =
      min x (unat (rp_max_delay_seconds p))" for x
    using unat_u64_bound [of "rp_max_delay_seconds p"] by linarith
  ultimately show ?thesis
    by (cases "unwrap_or (rp_backoff p) Exponential")
      (simp_all add: retry_delay_seconds_def unat_word_max unat_word_min)
qed


section \<open>Decisions\<close>

definition settled :: "string option \<Rightarrow> bool" where
  "settled action \<longleftrightarrow> action = Some ''resumed'' \<or> action = Some ''unconfirmed''"

lemma handled_action_cong: "rs_handled st = rs_handled st' \<Longrightarrow> handled_action st f = handled_action st' f"
  by (simp add: handled_action_def)

lemma first_seen_handled: "first_seen f now st = (seen, st1) \<Longrightarrow> rs_handled st1 = rs_handled st"
  by (auto simp: first_seen_def split: option.splits)

lemma recent_attempts_handled: "recent_attempts ch t now w st = Inr (n, st') \<Longrightarrow> rs_handled st' = rs_handled st"
  by (auto simp: recent_attempts_def bindR_Inr_iff Let_def)

lemma decide_handled:
  assumes "decide ch s dry_run now target f st = (r, st')"
  shows "rs_handled st' = rs_handled st \<or>
    (\<not> settled (handled_action st f) \<and> st' = mark_handled f ''skipped'' now st)"
  using assms
  by (auto simp: decide_def Let_def settled_def split: prod.splits if_splits sum.splits
      dest!: first_seen_handled recent_attempts_handled)

lemma decide_settled:
  "settled (handled_action st f) \<Longrightarrow>
     decide ch s dry_run now target f st = (Inr AlreadyHandled, st)"
  by (auto simp: decide_def Let_def settled_def)

lemma decide_Send:
  assumes "decide ch s dry_run now target f st = (Inr (Send attempts prompt), st')"
  defines "p \<equiv> policy s (fl_condition f)"
  shows "rp_action p = Retry" and "\<not> settled (handled_action st f)" and "\<not> dry_run"
    and "rs_handled st' = rs_handled st"
    and "attempts < rp_max_attempts p"
    and "attempts = length (attempts_of st' (target_key target))"
    and "prompt = render_prompt (rp_prompt p) f (attempts + 1) (rp_max_attempts p)"
    and "chrono_exact ch \<Longrightarrow>
      \<forall>a \<in> set (attempts_of st' (target_key target)).
        a \<ge> now - attempt_window_seconds (st_engine s) * nanos"
    and "chrono_exact ch \<Longrightarrow> latest_attempt st' target = Some a \<Longrightarrow>
      now \<ge> a + delay_i64 (retry_delay_seconds p attempts (fl_retry_after_seconds f)) * nanos"
proof -
  obtain seen st1 where seen: "first_seen f now st = (seen, st1)" by (cases "first_seen f now st")
  have act: "rp_action p = Retry" and ns: "\<not> settled (handled_action st f)"
    using assms by (auto simp: decide_def Let_def settled_def split: if_splits) (cases "rp_action p"; auto)
  then obtain ready where
    recent: "recent_attempts ch target now (attempt_window_seconds (st_engine s)) st1 = Inr (attempts, st')"
    and budget: "attempts < rp_max_attempts p"
    and ready: "plus_seconds ch (unwrap_or (latest_attempt st' target) seen)
        (delay_i64 (retry_delay_seconds p attempts (fl_retry_after_seconds f))) = Inr ready"
    and "\<not> now < ready" and "\<not> dry_run"
    and "prompt = render_prompt (rp_prompt p) f (attempts + 1) (rp_max_attempts p)"
    using assms seen
    by (auto simp: decide_def Let_def settled_def p_def split: if_splits sum.splits prod.splits)
  then show "rp_action p = Retry" "\<not> settled (handled_action st f)" "\<not> dry_run"
    "attempts < rp_max_attempts p"
    "prompt = render_prompt (rp_prompt p) f (attempts + 1) (rp_max_attempts p)"
    using act ns by simp_all
  show "rs_handled st' = rs_handled st"
    using first_seen_handled [OF seen] recent_attempts_handled [OF recent] by simp
  from recent_attempts_Inr [OF recent] obtain cutoff
    where cut: "minus_seconds ch now (attempt_window_seconds (st_engine s)) = Inr cutoff"
      and kept: "attempts_of st' (target_key target) =
        filter (\<lambda>a. a \<ge> cutoff) (attempts_of st1 (target_key target))"
      and n: "attempts = length (attempts_of st' (target_key target))" by auto
  show "attempts = length (attempts_of st' (target_key target))" by (rule n)
  show "\<forall>a \<in> set (attempts_of st' (target_key target)).
      a \<ge> now - attempt_window_seconds (st_engine s) * nanos" if "chrono_exact ch"
    using minus_seconds_exact [OF that cut] by (auto simp: kept)
  show "now \<ge> a + delay_i64 (retry_delay_seconds p attempts (fl_retry_after_seconds f)) * nanos"
    if "chrono_exact ch" "latest_attempt st' target = Some a"
    using plus_seconds_exact [OF that(1) ready] that(2) \<open>\<not> now < ready\<close> by simp
qed


section \<open>Effects\<close>

text \<open>Every resume directly follows an effect that justifies it.\<close>

fun is_resume :: "effect \<Rightarrow> bool" where
  "is_resume (Resume s p k) = True"
| "is_resume _ = False"

definition guarded :: "(effect \<Rightarrow> effect \<Rightarrow> bool) \<Rightarrow> effect list \<Rightarrow> bool" where
  "guarded J es \<longleftrightarrow>
     (\<forall>i < length es. is_resume (es ! i) \<longrightarrow> 0 < i \<and> J (es ! (i - 1)) (es ! i))"

lemma guarded_Nil [simp]: "guarded J []"
  by (simp add: guarded_def)

lemma guarded_append:
  assumes "guarded J xs" and "guarded J ys"
  shows "guarded J (xs @ ys)"
  unfolding guarded_def
proof (intro allI impI)
  fix i
  assume i: "i < length (xs @ ys)" and r: "is_resume ((xs @ ys) ! i)"
  show "0 < i \<and> J ((xs @ ys) ! (i - 1)) ((xs @ ys) ! i)"
  proof (cases "i < length xs")
    case True
    then have "i - 1 < length xs" by simp
    with True r assms(1) show ?thesis by (simp add: guarded_def nth_append)
  next
    case False
    then have "i - length xs < length ys" and "is_resume (ys ! (i - length xs))"
      using i r by (simp_all add: nth_append)
    then have "0 < i - length xs" and "J (ys ! (i - length xs - 1)) (ys ! (i - length xs))"
      using assms(2) unfolding guarded_def by blast+
    moreover have "\<not> i - 1 < length xs" and "i - 1 - length xs = i - length xs - 1"
      using \<open>0 < i - length xs\<close> by arith+
    ultimately show ?thesis using False by (simp add: nth_append)
  qed
qed

lemma guarded_no_resume: "list_all (\<lambda>x. \<not> is_resume x) es \<Longrightarrow> guarded J es"
  by (auto simp: guarded_def list_all_length)

lemma guarded_send:
  "J x y \<Longrightarrow> \<not> is_resume x \<Longrightarrow> list_all (\<lambda>x. \<not> is_resume x) es \<Longrightarrow> guarded J (x # y # es)"
  by (auto simp: guarded_def nth_Cons list_all_length split: nat.splits)

lemma pass_simps [simp]:
  "pa_effects (set_state st pa) = pa_effects pa"
  "pa_effects (set_unresolved ks pa) = pa_effects pa"
  "pa_effects (push_event e pa) = pa_effects pa"
  "pa_effects (perform x pa) = pa_effects pa @ [x]"
  "pa_engine (push_event e pa) = pa_engine pa"
  "pa_engine (perform x pa) = pa_engine pa"
  "pa_engine (set_state st pa) = (pa_engine pa)\<lparr>en_state := st\<rparr>"
  "pa_engine (set_unresolved ks pa) = (pa_engine pa)\<lparr>en_unresolved := ks\<rparr>"
  "pa_engine (append_new_events r pa) = pa_engine pa"
  "pa_effects (append_new_events r pa) =
     pa_effects pa @ [AppendLog (drop (pa_persisted pa) (pa_events pa)) r]"
  by (simp_all add: set_state_def set_unresolved_def push_event_def perform_def
      append_new_events_def)

text \<open>What must hold when a session is resumed.\<close>

definition justified ::
    "u64 \<Rightarrow> timestamp \<Rightarrow> settings \<Rightarrow> bool \<Rightarrow> (watch_target \<times> target_script) set \<Rightarrow>
     effect \<Rightarrow> effect \<Rightarrow> bool" where
  "justified generation now s dry_run scripted before after \<longleftrightarrow>
     (\<exists>target scr f st prompt. (target, scr) \<in> scripted \<and>
        before = SaveState st (Inr ()) \<and>
        after = Resume (wt_session_id target) prompt (failure_key f) \<and>
        \<not> dry_run \<and>
        allows (ts_permit_first scr) target generation \<and>
        allows (ts_permit_send scr) target generation \<and>
        ts_failure scr = Inr (Some f) \<and>
        (\<exists>g. ts_latest scr = Inr (Some g) \<and> fl_turn_id g = fl_turn_id f) \<and>
        rp_action (policy s (fl_condition f)) = Retry \<and>
        \<not> settled (handled_action st f) \<and>
        attempts_of st (target_key target) \<noteq> [] \<and> last (attempts_of st (target_key target)) = now \<and>
        length (attempts_of st (target_key target)) \<le> rp_max_attempts (policy s (fl_condition f)) \<and>
        prompt = render_prompt (rp_prompt (policy s (fl_condition f))) f
          (length (attempts_of st (target_key target))) (rp_max_attempts (policy s (fl_condition f))))"

text \<open>What a step leaves alone.\<close>

definition same_setup :: "engine \<Rightarrow> engine \<Rightarrow> bool" where
  "same_setup en en' \<longleftrightarrow>
     en_settings en' = en_settings en \<and> en_dry_run en' = en_dry_run en \<and>
     en_targets en' = en_targets en \<and> en_providers en' = en_providers en"

lemma same_setup_simps [simp]:
  "same_setup en en"
  "same_setup en (en'\<lparr>en_state := st\<rparr>) = same_setup en en'"
  "same_setup en (en'\<lparr>en_unresolved := ks\<rparr>) = same_setup en en'"
  "same_setup (en\<lparr>en_state := st\<rparr>) en' = same_setup en en'"
  "same_setup (en\<lparr>en_unresolved := ks\<rparr>) en' = same_setup en en'"
  by (simp_all add: same_setup_def)

lemma same_setup_trans: "same_setup a b \<Longrightarrow> same_setup b c \<Longrightarrow> same_setup a c"
  by (simp add: same_setup_def)

lemma after_resume_effects:
  "\<exists>new. pa_effects (after_resume now target f p attempts prompt scr pa) = pa_effects pa @ new \<and>
     list_all (\<lambda>x. \<not> is_resume x) new \<and>
     same_setup (pa_engine pa) (pa_engine (after_resume now target f p attempts prompt scr pa))"
  by (auto simp: after_resume_def Let_def split: sum.splits)

lemma send_step_cases:
  assumes "send_step generation now target f p attempts prompt scr pa = (r, pa')"
  defines "st \<equiv> record_attempt target now (pa_state pa)"
  obtains (quiet) "pa_effects pa' = pa_effects pa" and "pa_state pa' = pa_state pa"
      and "same_setup (pa_engine pa) (pa_engine pa')"
    | (unsaved) "pa_effects pa' = pa_effects pa @ [SaveState st (ts_save_attempt scr)]"
      and "pa_state pa' = st" and "same_setup (pa_engine pa) (pa_engine pa')"
    | (sent) g where "ts_latest scr = Inr (Some g)" and "fl_turn_id g = fl_turn_id f"
      and "allows (ts_permit_send scr) target generation" and "ts_save_attempt scr = Inr ()"
      and "pa' = append_new_events (ts_append scr) (after_resume now target f p attempts prompt scr
         (perform (Resume (wt_session_id target) prompt (failure_key f))
           (perform (SaveState st (ts_save_attempt scr)) (set_state st pa))))"
proof (cases "allows (ts_permit_before scr) target generation")
  case False
  with assms(1) show thesis by (intro quiet) (auto simp: send_step_def)
next
  case before: True
  show thesis
  proof (cases "ts_latest scr")
    case (Inl e)
    with before assms(1) show thesis by (intro quiet) (auto simp: send_step_def)
  next
    case latest: (Inr l)
    show thesis
    proof (cases "allows (ts_permit_after scr) target generation \<and>
        map_option fl_turn_id l = Some (fl_turn_id f) \<and> allows (ts_permit_send scr) target generation")
      case False
      with before latest assms(1) show thesis
        by (intro quiet) (auto simp: send_step_def split: if_splits)
    next
      case True
      then obtain g where g: "l = Some g" "fl_turn_id g = fl_turn_id f" by auto
      show thesis
      proof (cases "ts_save_attempt scr")
        case (Inl e)
        with True before latest assms(1) show thesis
          by (intro unsaved) (auto simp: send_step_def st_def Let_def)
      next
        case (Inr u)
        with True g before latest assms(1) show thesis
          by (intro sent [of g]) (auto simp: send_step_def st_def Let_def)
      qed
    qed
  qed
qed

lemma send_step_effects:
  assumes "send_step generation now target f p attempts prompt scr pa = (r, pa')"
    and "J (SaveState (record_attempt target now (pa_state pa)) (Inr ()))
      (Resume (wt_session_id target) prompt (failure_key f)) \<or>
      \<not> allows (ts_permit_send scr) target generation \<or>
      (\<forall>g. ts_latest scr = Inr (Some g) \<longrightarrow> fl_turn_id g \<noteq> fl_turn_id f)"
  shows "\<exists>new. pa_effects pa' = pa_effects pa @ new \<and> guarded J new \<and>
    length (filter is_resume new) \<le> 1 \<and> same_setup (pa_engine pa) (pa_engine pa')"
proof -
  let ?st = "record_attempt target now (pa_state pa)"
  let ?save = "SaveState ?st (ts_save_attempt scr)"
  let ?resume = "Resume (wt_session_id target) prompt (failure_key f)"
  let ?pa1 = "perform ?save (set_state ?st pa)"
  from assms(1) show ?thesis
  proof (cases rule: send_step_cases)
    case quiet
    then show ?thesis by simp
  next
    case unsaved
    then show ?thesis by (auto intro: guarded_no_resume)
  next
    case sent
    with assms(2) have J: "J (SaveState ?st (Inr ())) ?resume" by auto
    from after_resume_effects [of now target f p attempts prompt scr "perform ?resume ?pa1"]
    obtain new where new: "pa_effects pa' = pa_effects pa @ (?save # ?resume # new)"
      and none: "list_all (\<lambda>x. \<not> is_resume x) new" and frame: "same_setup (pa_engine pa) (pa_engine pa')"
      by (auto simp: sent(5))
    have "filter is_resume new = []"
      using none by (simp add: list_all_iff filter_empty_conv)
    moreover have "guarded J (?save # ?resume # new)"
      using J none sent(4) by (intro guarded_send) simp_all
    ultimately show ?thesis using new frame by auto
  qed
qed


lemma failure_step_effects:
  fixes pa
  defines "en \<equiv> pa_engine pa"
  assumes "failure_step ch generation now target f scr pa = (r, pa')"
    and "allows (ts_permit_first scr) target generation"
    and "ts_failure scr = Inr (Some f)" and "(target, scr) \<in> scripted"
  shows "\<exists>new. pa_effects pa' = pa_effects pa @ new \<and>
    guarded (justified generation now (en_settings en) (en_dry_run en) scripted) new \<and>
    length (filter is_resume new) \<le> 1 \<and> same_setup en (pa_engine pa')"
proof -
  let ?s = "en_settings en" and ?J = "justified generation now (en_settings en) (en_dry_run en) scripted"
  let ?p = "policy ?s (fl_condition f)"
  obtain d st where dec: "decide ch ?s (en_dry_run en) now target f (pa_state pa) = (d, st)"
    by (metis surj_pair)
  consider (quiet) "pa_effects pa' = pa_effects pa" and "same_setup en (pa_engine pa')"
    | (send) attempts prompt where "d = Inr (Send attempts prompt)"
      and "send_step generation now target f ?p attempts prompt scr (set_state st pa) = (r, pa')"
    using assms(2) dec
    by (auto simp: failure_step_def en_def Let_def split: sum.splits decision.splits)
  then show ?thesis
  proof cases
    case quiet
    then show ?thesis by (auto simp: en_def)
  next
    case send
    note D = decide_Send [OF dec [unfolded send(1)]]
    have "?J (SaveState (record_attempt target now st) (Inr ()))
        (Resume (wt_session_id target) prompt (failure_key f)) \<or>
        \<not> allows (ts_permit_send scr) target generation \<or>
        (\<forall>g. ts_latest scr = Inr (Some g) \<longrightarrow> fl_turn_id g \<noteq> fl_turn_id f)"
    proof (rule disjCI)
      assume "\<not> (\<not> allows (ts_permit_send scr) target generation \<or>
        (\<forall>g. ts_latest scr = Inr (Some g) \<longrightarrow> fl_turn_id g \<noteq> fl_turn_id f))"
      moreover have "handled_action (record_attempt target now st) f = handled_action (pa_state pa) f"
        using D(4) by (intro handled_action_cong) (simp add: frame_simps)
      ultimately show "?J (SaveState (record_attempt target now st) (Inr ()))
          (Resume (wt_session_id target) prompt (failure_key f))"
        unfolding justified_def using assms(3-5) D(1-3,5-7)
        by (intro exI [of _ target] exI [of _ scr] exI [of _ f]
            exI [of _ "record_attempt target now st"] exI [of _ prompt]) auto
    qed
    then show ?thesis
      using send_step_effects [OF send(2), of ?J] by (simp add: en_def)
  qed
qed

lemma target_step_effects:
  fixes pa
  defines "en \<equiv> pa_engine pa"
  assumes "target_step ch generation now target scr pa = (r, pa')" and "(target, scr) \<in> scripted"
  shows "\<exists>new. pa_effects pa' = pa_effects pa @ new \<and>
    guarded (justified generation now (en_settings en) (en_dry_run en) scripted) new \<and>
    length (filter is_resume new) \<le> 1 \<and> same_setup en (pa_engine pa')"
proof -
  let ?pa = "\<lambda>ks. set_unresolved ks pa"
  consider (quiet) "pa_effects pa' = pa_effects pa" and "same_setup en (pa_engine pa')"
    | (failed) f ks where "failure_step ch generation now target f scr (?pa ks) = (r, pa')"
      and "allows (ts_permit_first scr) target generation" and "ts_failure scr = Inr (Some f)"
    using assms(2)
    by (auto simp: target_step_def en_def Let_def split: if_splits sum.splits option.splits)
  then show ?thesis
  proof cases
    case quiet
    then show ?thesis by (auto simp: en_def)
  next
    case failed
    from failure_step_effects [OF failed assms(3)] show ?thesis by (simp add: en_def)
  qed
qed

lemma run_targets_effects:
  fixes pa
  defines "en \<equiv> pa_engine pa"
  assumes "run_targets ch generation now ts pa = (r, pa')" and "set ts \<subseteq> scripted"
  shows "\<exists>new. pa_effects pa' = pa_effects pa @ new \<and>
    guarded (justified generation now (en_settings en) (en_dry_run en) scripted) new \<and>
    length (filter is_resume new) \<le> length ts \<and> same_setup en (pa_engine pa')"
  using assms(2,3) unfolding en_def
proof (induction ts arbitrary: pa)
  case Nil
  then show ?case by auto
next
  case (Cons a ts)
  obtain target scr where a: "a = (target, scr)" by (cases a)
  then have mem: "(target, scr) \<in> scripted" and sub: "set ts \<subseteq> scripted"
    using Cons.prems(2) by auto
  obtain q pa1 where step: "target_step ch generation now target scr pa = (q, pa1)"
    by (metis surj_pair)
  from target_step_effects [OF step mem] obtain new1
    where new1: "pa_effects pa1 = pa_effects pa @ new1"
      and g1: "guarded (justified generation now (en_settings (pa_engine pa))
        (en_dry_run (pa_engine pa)) scripted) new1"
      and n1: "length (filter is_resume new1) \<le> 1" and s1: "same_setup (pa_engine pa) (pa_engine pa1)"
    by blast
  show ?case
  proof (cases q)
    case (Some e)
    with Cons.prems(1) step a have "pa' = pa1" by simp
    with new1 g1 n1 s1 show ?thesis by auto
  next
    case None
    with Cons.prems(1) step a have "run_targets ch generation now ts pa1 = (r, pa')" by simp
    from Cons.IH [OF this sub] obtain new2
      where new2: "pa_effects pa' = pa_effects pa1 @ new2"
        and g2: "guarded (justified generation now (en_settings (pa_engine pa))
          (en_dry_run (pa_engine pa)) scripted) new2"
        and n2: "length (filter is_resume new2) \<le> length ts"
        and s2: "same_setup (pa_engine pa1) (pa_engine pa')"
      using s1 by (auto simp: same_setup_def)
    from guarded_append [OF g1 g2] n1 n2 new1 new2 same_setup_trans [OF s1 s2] show ?thesis
      by (intro exI [of _ "new1 @ new2"]) simp
  qed
qed


section \<open>Settled failures stay settled\<close>

definition settled_at :: "string \<Rightarrow> handled_failure \<Rightarrow> runtime_state \<Rightarrow> bool" where
  "settled_at k h st \<longleftrightarrow> hm_get (rs_handled st) k = Some h \<and> settled (Some (hf_action h))"

definition no_resume_of :: "string \<Rightarrow> effect list \<Rightarrow> bool" where
  "no_resume_of k es \<longleftrightarrow> (\<forall>s p. Resume s p k \<notin> set es)"

lemma settled_at_action: "settled_at (failure_key f) h st \<Longrightarrow> settled (handled_action st f)"
  by (auto simp: settled_at_def handled_action_def)

lemma settled_at_mark_other:
  "settled_at k h st \<Longrightarrow> failure_key f \<noteq> k \<Longrightarrow> settled_at k h (mark_handled f a now st)"
  by (auto simp: settled_at_def mark_handled_def hash.get_insert)

lemma settled_at_transfer:
  "settled_at k h st \<Longrightarrow> rs_handled st' = rs_handled st \<Longrightarrow> settled_at k h st'"
  by (simp add: settled_at_def)

lemma after_resume_settled:
  assumes "settled_at k h (pa_state pa)" and "failure_key f \<noteq> k"
  shows "settled_at k h (pa_state (after_resume now target f p attempts prompt scr pa))"
  using assms
  by (auto simp: after_resume_def Let_def intro!: settled_at_mark_other split: sum.splits)
    (simp add: settled_at_def frame_simps)

lemma send_step_settled:
  assumes "settled_at k h (pa_state pa)" and "failure_key f \<noteq> k"
    and "send_step generation now target f p attempts prompt scr pa = (r, pa')"
  shows "settled_at k h (pa_state pa') \<and>
    (\<exists>new. pa_effects pa' = pa_effects pa @ new \<and> no_resume_of k new)"
proof -
  let ?st = "record_attempt target now (pa_state pa)"
  have rec: "settled_at k h ?st"
    by (rule settled_at_transfer [OF assms(1)]) (simp add: frame_simps)
  from assms(3) show ?thesis
  proof (cases rule: send_step_cases)
    case quiet
    with assms(1) show ?thesis by (auto simp: no_resume_of_def)
  next
    case unsaved
    with rec show ?thesis by (auto simp: no_resume_of_def)
  next
    case sent
    let ?pb = "perform (Resume (wt_session_id target) prompt (failure_key f))
      (perform (SaveState ?st (ts_save_attempt scr)) (set_state ?st pa))"
    from after_resume_effects [of now target f p attempts prompt scr ?pb] obtain new
      where "pa_effects (after_resume now target f p attempts prompt scr ?pb) = pa_effects ?pb @ new"
        and none: "list_all (\<lambda>x. \<not> is_resume x) new" by blast
    moreover have "no_resume_of k new"
      using none by (auto simp: no_resume_of_def list_all_iff)
    moreover have "settled_at k h (pa_state (after_resume now target f p attempts prompt scr ?pb))"
      using rec assms(2) by (intro after_resume_settled) simp_all
    ultimately show ?thesis
      using assms(2) by (auto simp: sent(5) no_resume_of_def)
  qed
qed

lemma failure_step_settled:
  assumes "settled_at k h (pa_state pa)"
    and "failure_step ch generation now target f scr pa = (r, pa')"
  shows "settled_at k h (pa_state pa') \<and>
    (\<exists>new. pa_effects pa' = pa_effects pa @ new \<and> no_resume_of k new)"
proof (cases "failure_key f = k")
  case True
  with assms(1) have "settled (handled_action (pa_state pa) f)"
    using settled_at_action by blast
  then have "decide ch (en_settings (pa_engine pa)) (en_dry_run (pa_engine pa)) now target f (pa_state pa) =
      (Inr AlreadyHandled, pa_state pa)" by (rule decide_settled)
  with assms show ?thesis
    by (auto simp: failure_step_def Let_def no_resume_of_def)
next
  case False
  obtain d st where dec: "decide ch (en_settings (pa_engine pa)) (en_dry_run (pa_engine pa)) now
      target f (pa_state pa) = (d, st)" by (metis surj_pair)
  have st: "settled_at k h st"
    using decide_handled [OF dec] settled_at_transfer [OF assms(1), of st]
      settled_at_mark_other [OF assms(1) False] by auto
  consider (quiet) "pa_effects pa' = pa_effects pa" and "pa_state pa' = st"
    | (send) attempts prompt where "send_step generation now target f
        (policy (en_settings (pa_engine pa)) (fl_condition f)) attempts prompt scr (set_state st pa) = (r, pa')"
    using assms(2) dec
    by (auto simp: failure_step_def Let_def split: sum.splits decision.splits)
  then show ?thesis
  proof cases
    case quiet
    with st show ?thesis by (auto simp: no_resume_of_def)
  next
    case send
    from send_step_settled [OF _ False this] st show ?thesis by simp
  qed
qed

lemma target_step_settled:
  assumes "settled_at k h (pa_state pa)" and "target_step ch generation now target scr pa = (r, pa')"
  shows "settled_at k h (pa_state pa') \<and>
    (\<exists>new. pa_effects pa' = pa_effects pa @ new \<and> no_resume_of k new)"
proof -
  consider (quiet) "pa_effects pa' = pa_effects pa" and "rs_handled (pa_state pa') = rs_handled (pa_state pa)"
    | (failed) f ks where
      "failure_step ch generation now target f scr (set_unresolved ks pa) = (r, pa')"
    using assms(2)
    by (auto simp: target_step_def Let_def frame_simps split: if_splits sum.splits option.splits)
  then show ?thesis
  proof cases
    case quiet
    with settled_at_transfer [OF assms(1)] show ?thesis by (auto simp: no_resume_of_def)
  next
    case failed
    with failure_step_settled [OF _ failed, of k h] assms(1) show ?thesis by simp
  qed
qed

lemma run_targets_settled:
  assumes "settled_at k h (pa_state pa)" and "run_targets ch generation now ts pa = (r, pa')"
  shows "settled_at k h (pa_state pa') \<and>
    (\<exists>new. pa_effects pa' = pa_effects pa @ new \<and> no_resume_of k new)"
  using assms
proof (induction ts arbitrary: pa)
  case Nil
  then show ?case by (auto simp: no_resume_of_def)
next
  case (Cons a ts)
  obtain target scr where a: "a = (target, scr)" by (cases a)
  obtain q pa1 where step: "target_step ch generation now target scr pa = (q, pa1)"
    by (metis surj_pair)
  from target_step_settled [OF Cons.prems(1) step] obtain new1
    where s1: "settled_at k h (pa_state pa1)" and new1: "pa_effects pa1 = pa_effects pa @ new1"
      and n1: "no_resume_of k new1" by blast
  show ?case
  proof (cases q)
    case (Some e)
    with Cons.prems(2) step a have "pa' = pa1" by simp
    with s1 new1 n1 show ?thesis by auto
  next
    case None
    with Cons.prems(2) step a have "run_targets ch generation now ts pa1 = (r, pa')" by simp
    from Cons.IH [OF s1 this] new1 n1 show ?thesis
      by (auto simp: no_resume_of_def)
  qed
qed

lemma abandon_pending_handled:
  "rs_handled (fst (abandon_pending_recovery p now acc)) = rs_handled (fst acc)"
  by (cases acc) (simp add: abandon_pending_recovery_def abandon_recovery_def split: option.splits)

lemma conclude_handled:
  "rs_handled (fst (conclude_recovery b p now acc)) = rs_handled (fst acc)"
  by (cases acc) (simp add: conclude_recovery_def finish_recovery_def split: option.splits)

lemma observation_missing_handled:
  "rs_handled (fst (observation_missing targets p now acc)) = rs_handled (fst acc)"
  by (cases acc)
    (simp add: observation_missing_def record_observation_failure_def Let_def
      abandon_pending_handled split: option.splits)

lemma reconcile_one_handled:
  "rs_handled (fst (reconcile_one providers targets now outcome_of acc p)) = rs_handled (fst acc)"
  by (simp add: reconcile_one_def abandon_pending_handled conclude_handled
      observation_missing_handled split: sum.splits turn_outcome.splits)

lemma reconcile_pending_handled:
  "rs_handled (fst (reconcile_pending_recoveries providers targets now outcome_of acc)) =
     rs_handled (fst acc)"
proof -
  have "rs_handled (fst (foldl (reconcile_one providers targets now outcome_of) acc ps)) =
      rs_handled (fst acc)" for ps
    by (induction ps arbitrary: acc) (simp_all add: reconcile_one_handled)
  then show ?thesis by (simp add: reconcile_pending_recoveries_def)
qed


section \<open>What observing the open recoveries does\<close>

definition concluded :: "string set \<Rightarrow> (pending_recovery \<Rightarrow> turn_outcome result) \<Rightarrow> pending_recovery \<Rightarrow> bool" where
  "concluded providers outcome_of p \<longleftrightarrow>
     pr_provider p \<in> providers \<and> (outcome_of p = Inr Completed \<or> outcome_of p = Inr TurnFailed)"

definition outcome_record ::
    "timestamp \<Rightarrow> (pending_recovery \<Rightarrow> turn_outcome result) \<Rightarrow> pending_recovery \<Rightarrow> recovery_outcome" where
  "outcome_record now outcome_of p =
     \<lparr>ro_completed_at = now, ro_automatic = pr_automatic p,
      ro_success = (outcome_of p = Inr Completed)\<rparr>"

text \<open>The entry of a recovery after it was observed: gone, noted as unavailable, or unchanged.\<close>

definition observed_recovery ::
    "string set \<Rightarrow> watch_target list \<Rightarrow> timestamp \<Rightarrow> (pending_recovery \<Rightarrow> turn_outcome result) \<Rightarrow>
     pending_recovery \<Rightarrow> pending_recovery option" where
  "observed_recovery providers targets now outcome_of p =
     (let noted = note_observation_failure now p in
      if pr_provider p \<notin> providers then Some p
      else case outcome_of p of
        Inr Completed \<Rightarrow> None
      | Inr TurnFailed \<Rightarrow> None
      | Inr InProgress \<Rightarrow> if now - pr_started_at p \<ge> days 7 then None else Some p
      | _ \<Rightarrow> if pending_recovery_expired targets p (pr_observation_failures noted) now
             then None else Some noted)"

lemma reconcile_one_step:
  assumes "hm_get (rs_pending st) (pr_failure_key p) = Some p"
    and "reconcile_one providers targets now outcome_of (st, ev) p = (st', ev')"
  shows "hm_get (rs_pending st') k =
      (if k = pr_failure_key p then observed_recovery providers targets now outcome_of p
       else hm_get (rs_pending st) k)"
    and "rs_outcomes st' = rs_outcomes st @
      (if concluded providers outcome_of p then [outcome_record now outcome_of p] else [])"
proof -
  note defs = reconcile_one_def observation_missing_def abandon_pending_recovery_def
    conclude_recovery_def observed_recovery_def concluded_def abandon_recovery_def
    finish_recovery_def record_observation_failure_def Let_def outcome_record_def
    pending_recovery_max_age_def
  have "hm_get (rs_pending st') k =
      (if k = pr_failure_key p then observed_recovery providers targets now outcome_of p
       else hm_get (rs_pending st) k) \<and>
      rs_outcomes st' = rs_outcomes st @
      (if concluded providers outcome_of p then [outcome_record now outcome_of p] else [])"
  proof (cases "outcome_of p")
    case (Inl e)
    with assms show ?thesis
      by (auto simp: defs hash.get_insert hash.get_remove split: if_splits)
  next
    case (Inr r)
    with assms show ?thesis
      by (cases r) (auto simp: defs hash.get_insert hash.get_remove split: if_splits)
  qed
  then show "hm_get (rs_pending st') k =
      (if k = pr_failure_key p then observed_recovery providers targets now outcome_of p
       else hm_get (rs_pending st) k)"
    and "rs_outcomes st' = rs_outcomes st @
      (if concluded providers outcome_of p then [outcome_record now outcome_of p] else [])"
    by blast+
qed

lemma reconcile_many:
  assumes "\<forall>p \<in> set ps. hm_get (rs_pending st) (pr_failure_key p) = Some p"
    and "distinct (map pr_failure_key ps)"
    and "\<forall>k q. hm_get (rs_pending st) k = Some q \<longrightarrow> pr_failure_key q = k"
    and "foldl (reconcile_one providers targets now outcome_of) (st, ev) ps = (st', ev')"
  shows "(\<forall>k. hm_get (rs_pending st') k =
      (case hm_get (rs_pending st) k of
         Some p \<Rightarrow> if p \<in> set ps then observed_recovery providers targets now outcome_of p else Some p
       | None \<Rightarrow> None)) \<and>
    rs_outcomes st' = rs_outcomes st @
      map (outcome_record now outcome_of) (filter (concluded providers outcome_of) ps)"
  using assms
proof (induction ps arbitrary: st ev)
  case Nil
  then show ?case by (auto split: option.splits)
next
  case (Cons p ps)
  obtain st1 ev1 where step: "reconcile_one providers targets now outcome_of (st, ev) p = (st1, ev1)"
    by (metis surj_pair)
  have mem: "hm_get (rs_pending st) (pr_failure_key p) = Some p" using Cons.prems(1) by simp
  note one = reconcile_one_step [OF mem step]
  have rest: "\<forall>q \<in> set ps. hm_get (rs_pending st1) (pr_failure_key q) = Some q"
  proof
    fix q
    assume q: "q \<in> set ps"
    then have "pr_failure_key q \<noteq> pr_failure_key p"
      using Cons.prems(2) by (force simp: image_iff)
    with q Cons.prems(1) show "hm_get (rs_pending st1) (pr_failure_key q) = Some q"
      by (simp add: one(1))
  qed
  have observed_key: "pr_failure_key q = pr_failure_key p"
    if "observed_recovery providers targets now outcome_of p = Some q" for q
    using that by (auto simp: observed_recovery_def note_observation_failure_def Let_def
        split: if_splits sum.splits turn_outcome.splits)
  have keyed: "\<forall>k q. hm_get (rs_pending st1) k = Some q \<longrightarrow> pr_failure_key q = k"
  proof (intro allI impI)
    fix k q
    assume "hm_get (rs_pending st1) k = Some q"
    then show "pr_failure_key q = k"
      using Cons.prems(3) observed_key [of q] by (cases "k = pr_failure_key p") (simp_all add: one(1))
  qed
  have tail: "(\<forall>k. hm_get (rs_pending st') k =
      (case hm_get (rs_pending st1) k of
         Some q \<Rightarrow> if q \<in> set ps then observed_recovery providers targets now outcome_of q else Some q
       | None \<Rightarrow> None)) \<and>
    rs_outcomes st' = rs_outcomes st1 @
      map (outcome_record now outcome_of) (filter (concluded providers outcome_of) ps)"
    using Cons.prems(2,4) step by (intro Cons.IH [OF rest _ keyed]) simp_all
  have "hm_get (rs_pending st') k =
      (case hm_get (rs_pending st) k of
         Some q \<Rightarrow> if q \<in> set (p # ps) then observed_recovery providers targets now outcome_of q else Some q
       | None \<Rightarrow> None)" for k
  proof (cases "k = pr_failure_key p")
    case True
    have key: "q \<notin> set ps" if "observed_recovery providers targets now outcome_of p = Some q" for q
    proof
      assume "q \<in> set ps"
      moreover have "pr_failure_key q = pr_failure_key p"
        using that by (rule observed_key)
      ultimately show False using Cons.prems(2) by (force simp: image_iff)
    qed
    have "hm_get (rs_pending st1) k = observed_recovery providers targets now outcome_of p"
      using True by (simp add: one(1))
    with True tail mem key show ?thesis
      by (cases "observed_recovery providers targets now outcome_of p") simp_all
  next
    case False
    then have same: "hm_get (rs_pending st1) k = hm_get (rs_pending st) k"
      by (simp add: one(1))
    show ?thesis
    proof (cases "hm_get (rs_pending st) k")
      case None
      with same tail show ?thesis by simp
    next
      case (Some q)
      with False Cons.prems(3) have "q \<noteq> p" by auto
      with Some same tail show ?thesis by simp
    qed
  qed
  with tail show ?case by (simp add: one(2))
qed

lemma pending_recoveries_keys:
  assumes "runtime_inv st"
  shows "\<forall>p \<in> set (pending_recoveries st). hm_get (rs_pending st) (pr_failure_key p) = Some p"
    and "distinct (map pr_failure_key (pending_recoveries st))"
proof -
  have keyed: "\<forall>(k, p) \<in> set (rs_pending st). pr_failure_key p = k" and wf: "hm_wf (rs_pending st)"
    using assms by (simp_all add: runtime_inv_def)
  show "\<forall>p \<in> set (pending_recoveries st). hm_get (rs_pending st) (pr_failure_key p) = Some p"
  proof
    fix p
    assume "p \<in> set (pending_recoveries st)"
    then obtain k where k: "(k, p) \<in> set (rs_pending st)"
      by (auto simp: pending_recoveries_def hm_values_def)
    with keyed have "pr_failure_key p = k" by auto
    with k show "hm_get (rs_pending st) (pr_failure_key p) = Some p"
      by (simp add: hash.get_mem [OF wf])
  qed
  have "map pr_failure_key (pending_recoveries st) = map fst (rs_pending st)"
    using keyed by (auto simp: pending_recoveries_def hm_values_def)
  with wf show "distinct (map pr_failure_key (pending_recoveries st))"
    by (simp add: hm_wf_def)
qed


lemma run_once_guarded:
  "guarded
     (justified generation now (en_settings en) (en_dry_run en)
       (set (zip (en_targets en) (map (ps_targets scr) [0..<length (en_targets en)]))))
     (snd (snd (run_once_authorized ch now generation scr en)))"
proof (cases "prune ch now (en_state en)")
  case (Inl e)
  then show ?thesis by (simp add: run_once_authorized_def)
next
  case (Inr st)
  let ?ts = "zip (en_targets en) (map (ps_targets scr) [0..<length (en_targets en)])"
  let ?J = "justified generation now (en_settings en) (en_dry_run en) (set ?ts)"
  obtain st' events where rec: "reconcile_pending_recoveries (en_providers en) (en_targets en) now
      (ps_outcome_of scr) (st, []) = (st', events)" by (metis surj_pair)
  let ?pa = "\<lparr>pa_engine = en\<lparr>en_state := st'\<rparr>, pa_events = events, pa_persisted = 0, pa_effects = []\<rparr>"
  obtain r pa' where run: "run_targets ch generation now ?ts ?pa = (r, pa')" by (metis surj_pair)
  from run_targets_effects [OF run, of "set ?ts"]
  have "guarded ?J (pa_effects pa')" by auto
  then have "guarded ?J (pa_effects pa' @ [SaveState s x, AppendLog es y])" for s x es y
    by (rule guarded_append) (simp add: guarded_no_resume)
  with \<open>guarded ?J (pa_effects pa')\<close> Inr rec run show ?thesis
    by (simp add: run_once_authorized_def split: option.splits)
qed

text \<open>Only sessions of the engine's target list are resumed, under a permit that covers them.\<close>

lemma run_once_resume_target:
  assumes "Resume sid prompt k \<in> set (snd (snd (run_once_authorized ch now generation scr en)))"
  shows "\<exists>target \<in> set (en_targets en). wt_session_id target = sid \<and>
    (\<exists>p. allows p target generation)"
proof -
  from assms obtain i where i: "i < length (snd (snd (run_once_authorized ch now generation scr en)))"
    "snd (snd (run_once_authorized ch now generation scr en)) ! i = Resume sid prompt k"
    by (auto simp: in_set_conv_nth)
  with run_once_guarded [of generation now en scr ch]
  obtain before where "justified generation now (en_settings en) (en_dry_run en)
      (set (zip (en_targets en) (map (ps_targets scr) [0..<length (en_targets en)])))
      before (Resume sid prompt k)"
    unfolding guarded_def by (metis is_resume.simps(1))
  then show ?thesis by (auto simp: justified_def dest: set_zip_leftD)
qed

section \<open>Properties\<close>

text \<open>C1: A pass resumes a session only when everything allows it.  In every execution each
  request to a provider directly follows a successful save of a state that records this
  very attempt, within the attempt limit of the policy; the permit read inside the send
  boundary is running, of the pass's generation and covers the session; the failure is
  still the session's latest turn; its policy says retry; it was not settled before; the
  engine is not in dry-run mode; and the message is the policy's prompt for this attempt.\<close>
theorem run_once_sends_only_justified:
  "guarded
     (justified generation now (en_settings en) (en_dry_run en)
       (set (zip (en_targets en) (map (ps_targets scr) [0..<length (en_targets en)]))))
     (snd (snd (run_once_authorized ch now generation scr en)))"
  by (rule run_once_guarded)

text \<open>C2: A failure that was resumed, or whose acknowledgement was lost, is never resumed again
  by a pass, whatever providers and other tasks do meanwhile, and stays marked, as long as
  its mark is not older than the 30 days after which \<open>prune\<close> forgets it.\<close>
theorem settled_failure_never_resent:
  assumes "chrono_exact ch" and "settled_at k h (en_state en)" and "now - days 30 \<le> hf_at h"
  shows "settled_at k h (en_state (fst (snd (run_once_authorized ch now generation scr en)))) \<and>
    no_resume_of k (snd (snd (run_once_authorized ch now generation scr en)))"
proof (cases "prune ch now (en_state en)")
  case (Inl e)
  with assms(2) show ?thesis by (simp add: run_once_authorized_def no_resume_of_def)
next
  case (Inr st)
  then obtain cutoff where "ch_minus ch now (days 30) = Some cutoff"
    and st: "rs_handled st = hm_retain (\<lambda>_ h. hf_at h \<ge> cutoff) (rs_handled (en_state en))"
    by (auto simp: prune_def bindR_Inr_iff)
  then have cutoff: "cutoff = now - days 30" using assms(1) by (auto dest: chrono_exactD)
  have kept: "settled_at k h st"
  proof -
    have "(k, h) \<in> set (rs_handled (en_state en))"
      using assms(2) by (auto simp: settled_at_def hm_get_def dest: map_of_SomeD)
    have "hm_get (hm_retain P m) k = Some h" if "hm_get m k = Some h" "P k h" for P and m :: "(string, handled_failure) dict"
      using that by (induction m) (auto simp: hm_get_def hm_retain_def split: if_splits)
    with assms(2,3) show ?thesis by (simp add: settled_at_def st cutoff)
  qed
  obtain st' events where rec: "reconcile_pending_recoveries (en_providers en) (en_targets en) now
      (ps_outcome_of scr) (st, []) = (st', events)" by (metis surj_pair)
  have st': "settled_at k h st'"
    using reconcile_pending_handled [of "en_providers en" "en_targets en" now "ps_outcome_of scr" "(st, [])"]
    by (intro settled_at_transfer [OF kept]) (simp add: rec)
  let ?ts = "zip (en_targets en) (map (ps_targets scr) [0..<length (en_targets en)])"
  let ?pa = "\<lparr>pa_engine = en\<lparr>en_state := st'\<rparr>, pa_events = events, pa_persisted = 0, pa_effects = []\<rparr>"
  obtain r pa' where run: "run_targets ch generation now ?ts ?pa = (r, pa')" by (metis surj_pair)
  have "settled_at k h (pa_state ?pa)" using st' by simp
  from run_targets_settled [OF this run] have "settled_at k h (pa_state pa') \<and> no_resume_of k (pa_effects pa')"
    by auto
  with Inr rec run show ?thesis
    by (cases r) (auto simp: run_once_authorized_def no_resume_of_def)
qed

definition example_target :: watch_target where
  "example_target =
     \<lparr>wt_source = Manual, wt_provider = ''codex'', wt_session_id = ''a'', wt_label = None,
      wt_title = None, wt_added_at = 0, wt_last_activity_at = None\<rparr>"

definition example_failure :: failure where
  "example_failure =
     \<lparr>fl_provider = ''codex'', fl_session_id = ''a'', fl_turn_id = ''t1'',
      fl_condition = ''network.timeout'', fl_provider_code = [], fl_message = [],
      fl_occurred_at = None, fl_retry_after_seconds = None, fl_model = None, fl_scope = None,
      fl_metadata = JNull\<rparr>"

definition example_receipt :: resume_receipt where
  "example_receipt =
     \<lparr>rr_provider = ''codex'', rr_session_id = ''a'', rr_turn_id = ''t2'', rr_transport = AppServer\<rparr>"

definition example_script :: target_script where
  "example_script =
     (let p = permit_new True [example_target] 7
      in \<lparr>ts_permit_first = p, ts_failure = Inr (Some example_failure), ts_permit_before = p,
          ts_latest = Inr (Some example_failure), ts_permit_after = p, ts_permit_send = p,
          ts_save_attempt = Inr (), ts_resume = Inr example_receipt, ts_save_outcome = Inr (),
          ts_append = Inr ()\<rparr>)"

definition example_pass_script :: pass_script where
  "example_pass_script =
     \<lparr>ps_outcome_of = (\<lambda>p. Inr InProgress), ps_targets = (\<lambda>i. example_script),
      ps_final_save = Inr (), ps_final_append = Inr ()\<rparr>"

definition example_engine :: "runtime_state \<Rightarrow> engine" where
  "example_engine st =
     \<lparr>en_settings = default_settings, en_providers = {''codex''}, en_targets = [example_target],
      en_state = st, en_unresolved = {}, en_dry_run = False\<rparr>"

theorem settled_failure_never_resent_witness:
  "no_resume_of (failure_key example_failure)
     (snd (snd (run_once_authorized chrono_reference nanos 7 example_pass_script
       (example_engine (mark_handled example_failure ''unconfirmed'' 0 initial_runtime_state)))))"
proof -
  let ?st = "mark_handled example_failure ''unconfirmed'' 0 initial_runtime_state"
  have "settled_at (failure_key example_failure) \<lparr>hf_action = ''unconfirmed'', hf_at = 0\<rparr>
      (en_state (example_engine ?st))"
    by (simp add: settled_at_def settled_def example_engine_def mark_handled_def hash.get_insert)
  from settled_failure_never_resent [OF chrono_reference_exact this, of nanos] show ?thesis
    by (simp add: days_def nanos_def)
qed


text \<open>What a resume leaves behind.  Whenever a step has asked the provider to resume a
  session, the attempt is recorded; if the provider acknowledged the recovery, the failure
  is marked resumed and the new turn is an open recovery of this failure; if the
  acknowledgement was lost, the failure is marked unconfirmed; if the provider refused, the
  mark is as it was, so that only the attempt limit bounds the retries.\<close>
lemma resume_leaves_mark:
  assumes "target_step ch generation now target scr pa = (r, pa')"
    and "Resume s prompt k \<in> set (drop (length (pa_effects pa)) (pa_effects pa'))"
  shows "\<exists>f. ts_failure scr = Inr (Some f) \<and> k = failure_key f \<and> s = wt_session_id target \<and> r = None \<and>
    now \<in> set (attempts_of (pa_state pa') (target_key target)) \<and>
    (case ts_resume scr of
       Inr receipt \<Rightarrow>
         handled_action (pa_state pa') f = Some ''resumed'' \<and>
         hm_get (rs_pending (pa_state pa')) k = Some (new_recovery f (rr_turn_id receipt) now True)
     | Inl e \<Rightarrow>
         handled_action (pa_state pa') f =
           (if acknowledgement_is_unknown e then Some ''unconfirmed''
            else handled_action (pa_state pa) f))"
proof -
  obtain f ks where step: "failure_step ch generation now target f scr (set_unresolved ks pa) = (r, pa')"
    and f: "ts_failure scr = Inr (Some f)"
    using assms
    by (auto simp: target_step_def Let_def split: if_splits sum.splits option.splits)
  obtain d st where dec: "decide ch (en_settings (pa_engine pa)) (en_dry_run (pa_engine pa)) now
      target f (pa_state pa) = (d, st)" by (metis surj_pair)
  obtain attempts p' where d: "d = Inr (Send attempts p')"
    and send: "send_step generation now target f (policy (en_settings (pa_engine pa)) (fl_condition f))
      attempts p' scr (set_state st (set_unresolved ks pa)) = (r, pa')"
    using step dec assms(2)
    by (auto simp: failure_step_def Let_def split: sum.splits decision.splits)
  have st: "handled_action st f = handled_action (pa_state pa) f"
    using decide_Send(4) [OF dec [unfolded d]] by (rule handled_action_cong)
  let ?st = "record_attempt target now st"
  have frame: "now \<in> set (attempts_of ?st (target_key target))" "handled_action ?st f = handled_action (pa_state pa) f"
    using handled_action_cong [of ?st st f] by (simp_all add: st frame_simps)
  have attempts: "attempts_of (mark_handled f x now st) j = attempts_of st j"
    "attempts_of (begin_recovery f y now b st) j = attempts_of st j" for x y b j st
    by (simp_all add: attempts_of_def frame_simps)
  have pending: "hm_get (rs_pending (mark_handled f x now (begin_recovery f y now b st))) (failure_key f) =
      Some (new_recovery f y now b)" for x y b st
    by (simp add: mark_handled_def begin_recovery_def hash.get_insert)
  from send show ?thesis
  proof (cases rule: send_step_cases)
    case (sent g)
    have "r = None"
      using send sent(1-4) by (auto simp: send_step_def Let_def split: if_splits)
    let ?pb = "perform (Resume (wt_session_id target) p' (failure_key f))
      (perform (SaveState ?st (ts_save_attempt scr)) (set_state ?st (set_state st (set_unresolved ks pa))))"
    from after_resume_effects [of now target f "policy (en_settings (pa_engine pa)) (fl_condition f)"
        attempts p' scr ?pb]
    obtain new where new: "pa_effects pa' = pa_effects pa @
        SaveState ?st (ts_save_attempt scr) # Resume (wt_session_id target) p' (failure_key f) # new"
      and "list_all (\<lambda>x. \<not> is_resume x) new"
      by (auto simp: sent(5))
    then have "Resume s prompt k \<notin> set new" by (force simp: list_all_iff)
    with assms(2) new have "k = failure_key f \<and> s = wt_session_id target" by simp
    moreover note \<open>r = None\<close>
    ultimately show ?thesis
      using f frame attempts pending
      by (cases "ts_resume scr") (simp_all add: sent(5) after_resume_def Let_def)
  qed (use assms(2) in auto)
qed


definition example_state :: runtime_state where
  "example_state = initial_runtime_state\<lparr>rs_observed := [(failure_key example_failure, 0)]\<rparr>"

definition example_pass :: pass where
  "example_pass =
     \<lparr>pa_engine = example_engine example_state, pa_events = [], pa_persisted = 0, pa_effects = []\<rparr>"

lemma example_policy:
  "rp_action (policy default_settings ''network.timeout'') = Retry"
  "rp_max_attempts (policy default_settings ''network.timeout'') = 5"
  "rp_backoff (policy default_settings ''network.timeout'') = Some Exponential"
  "rp_initial_delay_seconds (policy default_settings ''network.timeout'') = 10"
  "rp_max_delay_seconds (policy default_settings ''network.timeout'') = 180"
  by (simp_all add: policy_def Let_def default_settings_def hm_get_def fallback_condition_def
      condition_named_def conditions_def condition_simps)

definition example_prompt :: string where
  "example_prompt =
     render_prompt (rp_prompt (policy default_settings ''network.timeout'')) example_failure 1 5"

lemma example_delay:
  "delay_i64 (retry_delay_seconds (policy default_settings ''network.timeout'') 0 None) = 10"
proof -
  have "unat (retry_delay_seconds (policy default_settings ''network.timeout'') 0 None) = 10"
    by (simp add: unat_retry_delay example_policy)
  then show ?thesis by (simp add: delay_i64_def)
qed

lemma example_decide:
  "\<exists>st. decide chrono_reference default_settings False (100 * nanos) example_target example_failure
     example_state = (Inr (Send 0 example_prompt), st)"
proof -
  have cond: "fl_condition example_failure = ''network.timeout''" "fl_retry_after_seconds example_failure = None"
    by (simp_all add: example_failure_def)
  have window: "attempt_window_seconds (st_engine default_settings) = 3600"
    by (simp add: default_settings_def default_engine_settings_def)
  have "minus_seconds chrono_reference (100 * nanos) 3600 = Inr (100 * nanos - 3600 * nanos)"
    by (rule minus_seconds_reference) (simp_all add: nanos_def)
  then have recent: "recent_attempts chrono_reference example_target (100 * nanos) 3600 example_state =
      Inr (0, example_state\<lparr>rs_attempts := [(target_key example_target, [])]\<rparr>)"
    by (simp add: recent_attempts_def attempts_of_def example_state_def initial_runtime_state_def
        hm_get_def hm_insert_def)
  have seen: "first_seen example_failure (100 * nanos) example_state = (0, example_state)"
    by (simp add: first_seen_def example_state_def hm_get_def)
  have ready: "plus_seconds chrono_reference 0 10 = Inr (10 * nanos)"
    using plus_seconds_reference [of 10 0] by (simp add: nanos_def)
  have early: "\<not> 100 * nanos < 10 * nanos"
    by (simp add: nanos_def)
  have "handled_action example_state example_failure = None"
    by (simp add: handled_action_def example_state_def initial_runtime_state_def hm_get_def)
  moreover have "latest_attempt (example_state\<lparr>rs_attempts := [(target_key example_target, [])]\<rparr>)
      example_target = None"
    by (simp add: latest_attempt_def hm_get_def)
  ultimately show ?thesis
    using ready early by (simp add: decide_def Let_def cond window seen recent example_policy
        example_delay settled_def example_prompt_def)
qed

lemma example_permits:
  "allows (ts_permit_first example_script) example_target 7"
  "allows (ts_permit_before example_script) example_target 7"
  "allows (ts_permit_after example_script) example_target 7"
  "allows (ts_permit_send example_script) example_target 7"
  by (simp_all add: example_script_def Let_def permit_new_def permit_update_def default_permit_def
      allows_def)

lemma example_answers:
  "ts_failure example_script = Inr (Some example_failure)"
  "ts_latest example_script = Inr (Some example_failure)"
  "ts_save_attempt example_script = Inr ()"
  "ts_resume example_script = Inr example_receipt"
  by (simp_all add: example_script_def Let_def)

text \<open>
  When a failure is due, read off the state alone: it is to be retried and neither resumed
  nor unconfirmed, the attempts of the window leave room for one more, and the delay since
  the last of them - or since the failure was first seen - has passed.
\<close>

definition window_attempts ::
    "chrono \<Rightarrow> settings \<Rightarrow> timestamp \<Rightarrow> watch_target \<Rightarrow> runtime_state \<Rightarrow> timestamp list result" where
  "window_attempts ch s now target st =
     bindR (minus_seconds ch now (attempt_window_seconds (st_engine s)))
       (\<lambda>cutoff. Inr (filter (\<lambda>a. a \<ge> cutoff) (attempts_of st (target_key target))))"

definition failure_due ::
    "chrono \<Rightarrow> settings \<Rightarrow> timestamp \<Rightarrow> watch_target \<Rightarrow> failure \<Rightarrow> timestamp list \<Rightarrow> runtime_state \<Rightarrow> bool" where
  "failure_due ch s now target f recent st \<longleftrightarrow>
     (let p = policy s (fl_condition f);
          start = (if recent = [] then unwrap_or (hm_get (rs_observed st) (failure_key f)) now
                   else last recent)
      in rp_action p = Retry \<and> \<not> settled (handled_action st f) \<and>
         length recent < rp_max_attempts p \<and>
         (case plus_seconds ch start
             (delay_i64 (retry_delay_seconds p (length recent) (fl_retry_after_seconds f))) of
            Inl e \<Rightarrow> False
          | Inr ready_at \<Rightarrow> ready_at \<le> now))"

lemma failure_due_decide:
  assumes "window_attempts ch s now target st = Inr recent" and "failure_due ch s now target f recent st"
  defines "p \<equiv> policy s (fl_condition f)"
  shows "\<exists>st'. decide ch s False now target f st =
      (Inr (Send (length recent) (render_prompt (rp_prompt p) f (length recent + 1) (rp_max_attempts p))), st') \<and>
    attempts_of st' (target_key target) = recent \<and> rs_handled st' = rs_handled st"
proof -
  obtain seen st1 where seen: "first_seen f now st = (seen, st1)" by (cases "first_seen f now st")
  then have first: "seen = unwrap_or (hm_get (rs_observed st) (failure_key f)) now"
    and same: "attempts_of st1 k = attempts_of st k" "rs_handled st1 = rs_handled st" for k
    by (auto simp: first_seen_def attempts_of_def split: option.splits)
  from assms(1) obtain cutoff where cut: "minus_seconds ch now (attempt_window_seconds (st_engine s)) = Inr cutoff"
    and kept: "recent = filter (\<lambda>a. a \<ge> cutoff) (attempts_of st (target_key target))"
    by (auto simp: window_attempts_def bindR_Inr_iff)
  define st' where "st' = st1\<lparr>rs_attempts := hm_insert (target_key target) recent (rs_attempts st1)\<rparr>"
  have recent: "recent_attempts ch target now (attempt_window_seconds (st_engine s)) st1 =
      Inr (length recent, st')"
    by (simp add: recent_attempts_def cut same(1) st'_def flip: kept)
  have attempts: "attempts_of st' (target_key target) = recent"
    by (simp add: st'_def attempts_of_def hash.get_insert)
  have handled: "rs_handled st' = rs_handled st" by (simp add: st'_def same(2))
  have due: "rp_action p = Retry" "\<not> settled (handled_action st f)" "length recent < rp_max_attempts p"
    using assms(2) by (simp_all add: failure_due_def Let_def p_def)
  have start: "unwrap_or (latest_attempt st' target) seen =
      (if recent = [] then unwrap_or (hm_get (rs_observed st) (failure_key f)) now else last recent)"
    by (simp add: latest_attempt_last attempts first)
  obtain ready where ready: "plus_seconds ch (unwrap_or (latest_attempt st' target) seen)
      (delay_i64 (retry_delay_seconds p (length recent) (fl_retry_after_seconds f))) = Inr ready" "\<not> now < ready"
    using assms(2) unfolding failure_due_def Let_def start p_def by (auto split: sum.splits)
  have "decide ch s False now target f st =
      (Inr (Send (length recent) (render_prompt (rp_prompt p) f (length recent + 1) (rp_max_attempts p))), st')"
    using due seen recent ready by (simp add: decide_def Let_def settled_def p_def not_le)
  with attempts handled show ?thesis by blast
qed

lemma due_send_effects:
  assumes "ts_save_attempt scr = Inr ()"
    and "allows (ts_permit_before scr) target generation" and "ts_latest scr = Inr (Some g)"
    and "fl_turn_id g = fl_turn_id f" and "allows (ts_permit_after scr) target generation"
    and "allows (ts_permit_send scr) target generation"
  shows "\<exists>rest. pa_effects (snd (send_step generation now target f p attempts prompt scr pa)) =
    pa_effects pa @ SaveState (record_attempt target now (pa_state pa)) (Inr ()) #
      Resume (wt_session_id target) prompt (failure_key f) # rest \<and> list_all (\<lambda>x. \<not> is_resume x) rest"
proof -
  let ?pb = "perform (Resume (wt_session_id target) prompt (failure_key f))
    (perform (SaveState (record_attempt target now (pa_state pa)) (ts_save_attempt scr))
      (set_state (record_attempt target now (pa_state pa)) pa))"
  have "snd (send_step generation now target f p attempts prompt scr pa) =
      append_new_events (ts_append scr) (after_resume now target f p attempts prompt scr ?pb)"
    using assms by (simp add: send_step_def Let_def)
  moreover obtain new where
    "pa_effects (after_resume now target f p attempts prompt scr ?pb) = pa_effects ?pb @ new"
    "list_all (\<lambda>x. \<not> is_resume x) new"
    using after_resume_effects by blast
  ultimately show ?thesis using assms(1) by simp
qed

text \<open>A whole pass over the example resumes its session.\<close>

lemma example_step_sends:
  "Resume ''a'' example_prompt ''codex:a:t1'' \<in>
     set (pa_effects (snd (target_step chrono_reference 7 (100 * nanos) example_target example_script
       example_pass)))"
proof -
  let ?pa = "\<lambda>st. set_state st (set_unresolved (insert (target_key example_target)
    (en_unresolved (pa_engine example_pass))) example_pass)"
  obtain st where dec: "decide chrono_reference default_settings False (100 * nanos) example_target
      example_failure example_state = (Inr (Send 0 example_prompt), st)"
    using example_decide by blast
  have "en_settings (pa_engine example_pass) = default_settings"
    "\<not> en_dry_run (pa_engine example_pass)" "pa_state example_pass = example_state"
    "wt_provider example_target \<in> en_providers (pa_engine example_pass)"
    by (simp_all add: example_pass_def example_engine_def example_target_def)
  with dec have "target_step chrono_reference 7 (100 * nanos) example_target example_script example_pass =
      send_step 7 (100 * nanos) example_target example_failure
        (policy default_settings (fl_condition example_failure)) 0 example_prompt example_script (?pa st)"
    by (simp add: target_step_def failure_step_def example_permits example_answers)
  moreover have "wt_session_id example_target = ''a''" "failure_key example_failure = ''codex:a:t1''"
    by (simp_all add: example_target_def example_failure_def failure_key_def)
  ultimately show ?thesis
    using due_send_effects [OF example_answers(3) example_permits(2) example_answers(2) refl
        example_permits(3,4), of "100 * nanos" "policy default_settings (fl_condition example_failure)"
        0 example_prompt "?pa st"]
    by auto
qed

lemma example_prune: "prune chrono_reference (100 * nanos) example_state = Inr example_state"
  by (simp add: prune_def chrono_reference_def days_def nanos_def example_state_def
      initial_runtime_state_def hm_retain_def prune_attempts_def)

lemma example_run_sends:
  "Resume ''a'' example_prompt ''codex:a:t1'' \<in>
     set (snd (snd (run_once_authorized chrono_reference (100 * nanos) 7 example_pass_script
       (example_engine example_state))))"
proof -
  have pending: "pending_recoveries example_state = []"
    by (simp add: pending_recoveries_def example_state_def initial_runtime_state_def hm_values_def)
  have fields: "en_state (example_engine example_state) = example_state"
    "en_targets (example_engine example_state) = [example_target]"
    "(example_engine example_state)\<lparr>en_state := example_state\<rparr> = example_engine example_state"
    by (simp_all add: example_engine_def)
  obtain r pa where step: "target_step chrono_reference 7 (100 * nanos) example_target example_script
      example_pass = (r, pa)" by (metis surj_pair)
  have "ps_targets example_pass_script 0 = example_script"
    by (simp add: example_pass_script_def)
  then show ?thesis
    using example_step_sends step
    by (cases r)
      (simp_all add: run_once_authorized_def fields example_prune reconcile_pending_recoveries_def
        pending flip: example_pass_def)
qed

lemma example_due:
  "window_attempts chrono_reference default_settings (100 * nanos) example_target example_state = Inr []"
  "failure_due chrono_reference default_settings (100 * nanos) example_target example_failure []
     example_state"
proof -
  have "minus_seconds chrono_reference (100 * nanos) 3600 = Inr (100 * nanos - 3600 * nanos)"
    by (rule minus_seconds_reference) (simp_all add: nanos_def)
  then show "window_attempts chrono_reference default_settings (100 * nanos) example_target example_state = Inr []"
    by (simp add: window_attempts_def attempts_of_def example_state_def initial_runtime_state_def
        hm_get_def default_settings_def default_engine_settings_def)
  have "plus_seconds chrono_reference 0 10 = Inr (10 * nanos)"
    using plus_seconds_reference [of 10 0] by (simp add: nanos_def)
  moreover have "hm_get (rs_observed example_state) (failure_key example_failure) = Some 0"
    "handled_action example_state example_failure = None"
    by (simp_all add: example_state_def hm_get_def handled_action_def initial_runtime_state_def)
  moreover have "fl_condition example_failure = ''network.timeout''" "fl_retry_after_seconds example_failure = None"
    by (simp_all add: example_failure_def)
  ultimately show "failure_due chrono_reference default_settings (100 * nanos) example_target
      example_failure [] example_state"
    by (simp add: failure_due_def Let_def example_policy example_delay settled_def nanos_def)
qed

text \<open>C3: A due failure is resumed once: when the provider is available and reports a failure
  that is due - its policy is to retry it, it is neither resumed nor unconfirmed, the attempts
  of its window leave room for one more and the delay since the last of them, or since it
  was first seen, has passed - the pass is no dry run, the permit covers the session at all
  four reads, the same failed turn is still the latest and the attempt can be saved, then the
  step saves the state with the attempts of the window and the new one, asks the provider to
  resume with the policy's prompt for this attempt, and asks for nothing more after it.\<close>
theorem due_failure_is_resumed:
  assumes "window_attempts ch (en_settings (pa_engine pa)) now target (pa_state pa) = Inr recent"
    and "failure_due ch (en_settings (pa_engine pa)) now target f recent (pa_state pa)"
    and "\<not> en_dry_run (pa_engine pa)"
    and "wt_provider target \<in> en_providers (pa_engine pa)"
    and "ts_failure scr = Inr (Some f)" and "ts_latest scr = Inr (Some g)"
    and "fl_turn_id g = fl_turn_id f" and "ts_save_attempt scr = Inr ()"
    and "allows (ts_permit_first scr) target generation"
    and "allows (ts_permit_before scr) target generation"
    and "allows (ts_permit_after scr) target generation"
    and "allows (ts_permit_send scr) target generation"
  defines "p \<equiv> policy (en_settings (pa_engine pa)) (fl_condition f)"
  shows "\<exists>saved rest. pa_effects (snd (target_step ch generation now target scr pa)) = pa_effects pa @
      SaveState saved (Inr ()) #
      Resume (wt_session_id target)
        (render_prompt (rp_prompt p) f (length recent + 1) (rp_max_attempts p)) (failure_key f) # rest \<and>
    (\<forall>x \<in> set rest. \<not> is_resume x) \<and>
    attempts_of saved (target_key target) = recent @ [now]"
proof -
  let ?pa = "set_unresolved (insert (target_key target) (en_unresolved (pa_engine pa))) pa"
  let ?prompt = "render_prompt (rp_prompt p) f (length recent + 1) (rp_max_attempts p)"
  obtain st where decided: "decide ch (en_settings (pa_engine pa)) (en_dry_run (pa_engine pa)) now target f
      (pa_state pa) = (Inr (Send (length recent) ?prompt), st)"
    and attempts: "attempts_of st (target_key target) = recent"
    using failure_due_decide [OF assms(1,2)] assms(3) by (auto simp: p_def)
  have "target_step ch generation now target scr pa =
      send_step generation now target f p (length recent) ?prompt scr (set_state st ?pa)"
    using decided assms(4,5,9) by (simp add: target_step_def failure_step_def Let_def p_def)
  moreover obtain rest where "pa_effects (snd (send_step generation now target f p (length recent)
        ?prompt scr (set_state st ?pa))) = pa_effects pa @ SaveState (record_attempt target now st) (Inr ()) #
      Resume (wt_session_id target) ?prompt (failure_key f) # rest"
    and "list_all (\<lambda>x. \<not> is_resume x) rest"
    using due_send_effects [OF assms(8,10,6,7,11,12), of now p "length recent" ?prompt "set_state st ?pa"]
    by auto
  moreover have "attempts_of (record_attempt target now st) (target_key target) = recent @ [now]"
    by (simp add: record_attempt_def attempts_of_def hash.get_insert flip: attempts)
  ultimately show ?thesis by (auto simp: list_all_iff)
qed

theorem due_failure_is_resumed_witness:
  "\<exists>saved rest. pa_effects (snd (target_step chrono_reference 7 (100 * nanos) example_target
      example_script example_pass)) =
    [SaveState saved (Inr ()), Resume ''a'' example_prompt ''codex:a:t1''] @ rest \<and>
    (\<forall>x \<in> set rest. \<not> is_resume x) \<and>
    attempts_of saved (target_key example_target) = [100 * nanos]"
proof -
  have fields: "en_settings (pa_engine example_pass) = default_settings"
    "\<not> en_dry_run (pa_engine example_pass)" "pa_state example_pass = example_state"
    "wt_provider example_target \<in> en_providers (pa_engine example_pass)" "pa_effects example_pass = []"
    by (simp_all add: example_pass_def example_engine_def example_target_def)
  moreover have "wt_session_id example_target = ''a''" "failure_key example_failure = ''codex:a:t1''"
    "fl_condition example_failure = ''network.timeout''"
    by (simp_all add: example_target_def example_failure_def failure_key_def)
  ultimately show ?thesis
    using due_failure_is_resumed [of chrono_reference example_pass "100 * nanos" example_target "[]"
        example_failure example_script example_failure 7, unfolded fields, OF example_due _ _
        example_answers(1,2) refl example_answers(3) example_permits]
    by (simp add: example_prompt_def example_policy)
qed

text \<open>C4: Observing the open recoveries counts an outcome for exactly those whose provider
  reports their turn as completed (a success) or failed (a failure); everything else
  changes no metric.  A recovery leaves the open ones when it was so concluded, or when its
  outcome stays unavailable: after seven days, or after one day when it could not be
  observed twenty times and its session is no longer watched.\<close>
theorem recovery_outcomes_observed:
  assumes "runtime_inv st"
    and "reconcile_pending_recoveries providers targets now outcome_of (st, ev) = (st', ev')"
  shows "rs_outcomes st' = rs_outcomes st @
      map (outcome_record now outcome_of)
        (filter (concluded providers outcome_of) (pending_recoveries st)) \<and>
    (\<forall>k. hm_get (rs_pending st') k =
      Option.bind (hm_get (rs_pending st) k) (observed_recovery providers targets now outcome_of))"
proof -
  note keys = pending_recoveries_keys [OF assms(1)]
  have keyed: "\<forall>k q. hm_get (rs_pending st) k = Some q \<longrightarrow> pr_failure_key q = k"
    using pending_by_key [OF assms(1)] by blast
  have run: "foldl (reconcile_one providers targets now outcome_of) (st, ev) (pending_recoveries st) =
      (st', ev')"
    using assms(2) by (simp add: reconcile_pending_recoveries_def)
  have wf: "hm_wf (rs_pending st)" using assms(1) by (simp add: runtime_inv_def)
  have mem: "p \<in> set (pending_recoveries st)" if "hm_get (rs_pending st) k = Some p" for k p
    unfolding pending_recoveries_def hash.values_iff [OF wf] using that by blast
  note many = reconcile_many [OF keys keyed run]
  have "hm_get (rs_pending st') k =
      Option.bind (hm_get (rs_pending st) k) (observed_recovery providers targets now outcome_of)" for k
    using many mem by (cases "hm_get (rs_pending st) k") simp_all
  with many show ?thesis by blast
qed

theorem recovery_outcomes_observed_witness:
  "rs_outcomes (fst (reconcile_pending_recoveries {''codex''} [] 0 (\<lambda>p. Inr Completed)
     (begin_recovery example_failure ''t2'' 0 True initial_runtime_state, []))) =
   [\<lparr>ro_completed_at = 0, ro_automatic = True, ro_success = True\<rparr>]"
proof -
  let ?st = "begin_recovery example_failure ''t2'' 0 True initial_runtime_state"
  have inv: "runtime_inv ?st" by (rule begin_recovery_inv [OF initial_runtime_inv])
  have "pending_recoveries ?st = [new_recovery example_failure ''t2'' 0 True]"
    by (simp add: pending_recoveries_def begin_recovery_def initial_runtime_state_def hm_values_def
        hm_insert_def)
  moreover have "rs_outcomes ?st = []"
    by (simp add: begin_recovery_def initial_runtime_state_def)
  moreover obtain st' ev' where run: "reconcile_pending_recoveries {''codex''} [] 0
      (\<lambda>p. Inr Completed) (?st, []) = (st', ev')" by (metis surj_pair)
  ultimately show ?thesis
    using recovery_outcomes_observed [OF inv run, THEN conjunct1]
    by (simp add: concluded_def outcome_record_def new_recovery_def example_failure_def)
qed

text \<open>C10: The delay before attempt \<open>n + 1\<close> is exact: the initial delay (fixed back-off) or the
  initial delay doubled n times and cut at the maximum (exponential), but never shorter
  than the provider's retry-after; the saturating arithmetic on 64 bits is invisible.  For
  a policy whose initial delay is not above its maximum it is never shorter than the
  initial delay and never shrinks with further attempts.\<close>
theorem retry_delay_exact:
  assumes "attempts + 1 < 2 ^ 32"
  shows "unat (retry_delay_seconds p attempts retry_after) =
      max (if rp_backoff p = Some Fixed then unat (rp_initial_delay_seconds p)
           else min (unat (rp_initial_delay_seconds p) * 2 ^ attempts) (unat (rp_max_delay_seconds p)))
        (case retry_after of None \<Rightarrow> 0 | Some s \<Rightarrow> unat s) \<and>
    retry_delay_seconds p attempts retry_after \<le> retry_delay_seconds p (attempts + 1) retry_after \<and>
    (rp_initial_delay_seconds p \<le> rp_max_delay_seconds p \<longrightarrow>
       rp_initial_delay_seconds p \<le> retry_delay_seconds p attempts retry_after)"
proof -
  have n: "min attempts (2 ^ 32 - 1) = attempts" "min (attempts + 1) (2 ^ 32 - 1) = attempts + 1"
    using assms by simp_all
  have formula: "unat (retry_delay_seconds p n retry_after) =
      max (if rp_backoff p = Some Fixed then unat (rp_initial_delay_seconds p)
           else min (unat (rp_initial_delay_seconds p) * 2 ^ n) (unat (rp_max_delay_seconds p)))
        (case retry_after of None \<Rightarrow> 0 | Some s \<Rightarrow> unat s)" if "min n (2 ^ 32 - 1) = n" for n
    using that
    by (cases "rp_backoff p"; cases "the (rp_backoff p)"; cases retry_after)
      (simp_all add: unat_retry_delay)
  let ?i = "unat (rp_initial_delay_seconds p)" and ?m = "unat (rp_max_delay_seconds p)"
    and ?fixed = "rp_backoff p = Some Fixed"
    and ?r = "case retry_after of None \<Rightarrow> 0 | Some s \<Rightarrow> unat s"
  have "min (?i * 2 ^ attempts) ?m \<le> min (?i * 2 ^ (attempts + 1)) ?m"
    by (intro min.mono) simp_all
  then have "max (if ?fixed then ?i else min (?i * 2 ^ attempts) ?m) ?r \<le>
      max (if ?fixed then ?i else min (?i * 2 ^ (attempts + 1)) ?m) ?r"
    by (intro max.mono) simp_all
  moreover have "?i \<le> max (if ?fixed then ?i else min (?i * 2 ^ attempts) ?m) ?r" if "?i \<le> ?m"
    using that by (intro max.coboundedI1) simp
  ultimately show ?thesis
    unfolding word_le_nat_alt formula [OF n(1)] formula [OF n(2)] by blast
qed

theorem retry_delay_exact_witness:
  "unat (retry_delay_seconds (policy default_settings ''network.timeout'') 3 (Some 17)) = 80 \<and>
   unat (retry_delay_seconds (policy default_settings ''network.timeout'') 70 None) = 180"
  using retry_delay_exact [of 3 "policy default_settings ''network.timeout''" "Some 17"]
    retry_delay_exact [of 70 "policy default_settings ''network.timeout''" None]
  by (simp add: example_policy)


text \<open>
  A provider controls the retry-after value.  One that a duration cannot hold ends the
  pass with a panic instead of a long wait: the fallback to \<open>i64::MAX\<close> is itself out of
  the documented range of \<open>Duration::seconds\<close>.
\<close>

lemma huge_retry_after_panics:
  assumes "rp_action (policy s (fl_condition f)) = Retry" and "\<not> settled (handled_action st f)"
    and "first_seen f now st = (seen, st1)"
    and "recent_attempts chrono_reference target now (attempt_window_seconds (st_engine s)) st1 = Inr (n, st2)"
    and "n < rp_max_attempts (policy s (fl_condition f))"
    and "fl_retry_after_seconds f = Some r" and "unat r > (2 ^ 63 - 1) div 1000"
  shows "\<exists>e. fst (decide chrono_reference s dry_run now target f st) = Inl e \<and> is_panic e"
proof -
  let ?d = "retry_delay_seconds (policy s (fl_condition f)) n (Some r)"
  have "unat r \<le> unat ?d"
    by (simp add: unat_retry_delay)
  moreover have "9223372036854775 < unat r"
    using assms(7) by simp
  ultimately have "9223372036854775 < int (unat ?d)"
    by linarith
  then have "delay_i64 ?d > (2 ^ 63 - 1) div 1000"
    by (simp add: delay_i64_def)
  then have "ch_seconds chrono_reference (delay_i64 ?d) = None"
    by (simp add: chrono_reference_def)
  then have "plus_seconds chrono_reference t (delay_i64 ?d) =
      Inl (Panic ''TimeDelta::seconds out of bounds'')" for t
    by (simp add: plus_seconds_def)
  with assms show ?thesis
    by (simp add: decide_def Let_def settled_def)
qed

end
