(* ===== verification/Protocol.thy ===== *)
theory Protocol
  imports Config
begin

text \<open>
  \<open>protocol.rs\<close> and the client's treatment of a response (\<open>client.rs\<close>): the requests,
  responses and query parameters of the local RPC, how they read and appear as JSON
  under their serde attributes, and the checks a client makes before it uses a response.
  The wording of a serde error is an argument (\<open>msg\<close>).
\<close>


section \<open>Reading structures\<close>

text \<open>
  A derived structure reads an object by name, ignoring unknown fields, or an array by
  position; one with a flattened part reads objects only.
\<close>

fun struct_fields :: "string list \<Rightarrow> json \<Rightarrow> (string \<Rightarrow> json option) option" where
  "struct_fields names (JObject m) = Some (hm_get m)"
| "struct_fields names (JArray xs) =
     (if length xs \<le> length names then Some (map_of (zip names xs)) else None)"
| "struct_fields names _ = None"

fun flat_fields :: "json \<Rightarrow> (string \<Rightarrow> json option) option" where
  "flat_fields (JObject m) = Some (hm_get m)"
| "flat_fields _ = None"

text \<open>A field that must be there, one with a default, and an optional one.\<close>

definition required :: "(json \<Rightarrow> 'a option) \<Rightarrow> json option \<Rightarrow> 'a option" where
  "required f x = Option.bind x f"

definition defaulted :: "'a \<Rightarrow> (json \<Rightarrow> 'a option) \<Rightarrow> json option \<Rightarrow> 'a option" where
  "defaulted d f x = (case x of None \<Rightarrow> Some d | Some v \<Rightarrow> f v)"

fun nullable :: "(json \<Rightarrow> 'a option) \<Rightarrow> json \<Rightarrow> 'a option option" where
  "nullable f JNull = Some None"
| "nullable f v = map_option Some (f v)"

definition as_usize :: "json \<Rightarrow> nat option" where
  "as_usize v = map_option unat (as_u64 v)"

definition as_u32 :: "json \<Rightarrow> u32 option" where
  "as_u32 v = Option.bind (as_u64 v)
     (\<lambda>n. if unat n < 2 ^ 32 then Some (word_of_nat (unat n)) else None)"

definition json_u64 :: "u64 \<Rightarrow> json" where
  "json_u64 n = JNumber (PosInt n)"

definition json_u32 :: "u32 \<Rightarrow> json" where
  "json_u32 n = JNumber (PosInt (word_of_nat (unat n)))"

text \<open>\<open>decode::<T>(value)\<close> of \<open>daemon.rs\<close>.\<close>

type_synonym serde_error = "string \<Rightarrow> json \<Rightarrow> string"

definition decode :: "serde_error \<Rightarrow> string \<Rightarrow> (json \<Rightarrow> 'a option) \<Rightarrow> json \<Rightarrow> 'a result" where
  "decode msg name f v = ok_or (Root (Message (msg name v))) (f v)"


section \<open>Requests and responses\<close>

definition protocol_version :: u32 where
  "protocol_version = 2"

definition max_frame_bytes :: nat where
  "max_frame_bytes = 8 * 1024 * 1024"

definition max_activity_items :: nat where
  "max_activity_items = 500"

record rpc_request =
  rq_version :: u32
  rq_id :: string
  rq_method :: string
  rq_params :: json
  rq_expected_revision :: "u64 option"

record rpc_error =
  re_code :: string
  re_message :: string

record rpc_response =
  rsp_version :: u32
  rsp_id :: string
  rsp_revision :: u64
  rsp_result :: "json option"
  rsp_error :: "rpc_error option"

record rpc_notification =
  rn_version :: u32
  rn_event :: string
  rn_revision :: u64
  rn_data :: json

definition request_of :: "json \<Rightarrow> rpc_request option" where
  "request_of v =
     Option.bind (struct_fields [''version'', ''id'', ''method'', ''params'', ''expected_revision''] v)
       (\<lambda>f. Option.bind (required as_u32 (f ''version''))
       (\<lambda>version. Option.bind (required as_str (f ''id''))
       (\<lambda>i. Option.bind (required as_str (f ''method''))
       (\<lambda>meth. Option.bind (defaulted JNull Some (f ''params''))
       (\<lambda>params. Option.bind (defaulted None (nullable as_u64) (f ''expected_revision''))
       (\<lambda>expected. Some
          \<lparr>rq_version = version, rq_id = i, rq_method = meth, rq_params = params,
           rq_expected_revision = expected\<rparr>))))))"

definition request_json :: "rpc_request \<Rightarrow> json" where
  "request_json r = json_object
     ([(''version'', json_u32 (rq_version r)), (''id'', JString (rq_id r)),
       (''method'', JString (rq_method r)), (''params'', rq_params r)] @
      (case rq_expected_revision r of None \<Rightarrow> [] | Some n \<Rightarrow> [(''expected_revision'', json_u64 n)]))"

definition rpc_error_of :: "json \<Rightarrow> rpc_error option" where
  "rpc_error_of v =
     Option.bind (struct_fields [''code'', ''message''] v)
       (\<lambda>f. Option.bind (required as_str (f ''code''))
       (\<lambda>code. Option.bind (required as_str (f ''message''))
       (\<lambda>m. Some \<lparr>re_code = code, re_message = m\<rparr>)))"

definition rpc_error_json :: "rpc_error \<Rightarrow> json" where
  "rpc_error_json e =
     json_object [(''code'', JString (re_code e)), (''message'', JString (re_message e))]"

definition response_of :: "json \<Rightarrow> rpc_response option" where
  "response_of v =
     Option.bind (struct_fields [''version'', ''id'', ''revision'', ''result'', ''error''] v)
       (\<lambda>f. Option.bind (required as_u32 (f ''version''))
       (\<lambda>version. Option.bind (required as_str (f ''id''))
       (\<lambda>i. Option.bind (required as_u64 (f ''revision''))
       (\<lambda>revision. Option.bind (defaulted None (nullable Some) (f ''result''))
       (\<lambda>res. Option.bind (defaulted None (nullable rpc_error_of) (f ''error''))
       (\<lambda>err. Some
          \<lparr>rsp_version = version, rsp_id = i, rsp_revision = revision, rsp_result = res,
           rsp_error = err\<rparr>))))))"

definition response_json :: "rpc_response \<Rightarrow> json" where
  "response_json r = json_object
     ([(''version'', json_u32 (rsp_version r)), (''id'', JString (rsp_id r)),
       (''revision'', json_u64 (rsp_revision r))] @
      (case rsp_result r of None \<Rightarrow> [] | Some v \<Rightarrow> [(''result'', v)]) @
      (case rsp_error r of None \<Rightarrow> [] | Some e \<Rightarrow> [(''error'', rpc_error_json e)]))"


section \<open>Parameters\<close>

record session_ref =
  sr_provider :: string
  sr_session_id :: string

record session_query =
  sq_provider :: string
  sq_limit :: nat
  sq_query :: string
  sq_cursor :: "string option"

record managed_session_query =
  mq_provider :: "string option"
  mq_limit :: nat

record retry_request =
  rt_session :: session_ref
  rt_request_key :: string

record session_message =
  sm_session :: session_ref
  sm_message :: string

record session_add =
  sa_session :: session_ref
  sa_label :: "string option"
  sa_validate :: bool

record activity_query =
  aq_session :: session_ref
  aq_limit :: nat
  aq_category :: "string option"
  aq_reliability_only :: bool

definition default_provider :: string where
  "default_provider = ''codex''"

definition default_session_limit :: nat where
  "default_session_limit = 100"

definition default_activity_limit :: nat where
  "default_activity_limit = 50"

definition session_ref_fields :: "(string \<Rightarrow> json option) \<Rightarrow> session_ref option" where
  "session_ref_fields f =
     Option.bind (defaulted default_provider as_str (f ''provider''))
       (\<lambda>p. Option.bind (required as_str (f ''session_id''))
       (\<lambda>s. Some \<lparr>sr_provider = p, sr_session_id = s\<rparr>))"

definition session_ref_of :: "json \<Rightarrow> session_ref option" where
  "session_ref_of v = Option.bind (struct_fields [''provider'', ''session_id''] v) session_ref_fields"

definition session_query_of :: "json \<Rightarrow> session_query option" where
  "session_query_of v =
     Option.bind (struct_fields [''provider'', ''limit'', ''query'', ''cursor''] v)
       (\<lambda>f. Option.bind (defaulted default_provider as_str (f ''provider''))
       (\<lambda>p. Option.bind (defaulted default_session_limit as_usize (f ''limit''))
       (\<lambda>limit. Option.bind (defaulted [] as_str (f ''query''))
       (\<lambda>query. Option.bind (defaulted None (nullable as_str) (f ''cursor''))
       (\<lambda>cursor. Some
          \<lparr>sq_provider = p, sq_limit = limit, sq_query = query, sq_cursor = cursor\<rparr>)))))"

definition managed_session_query_of :: "json \<Rightarrow> managed_session_query option" where
  "managed_session_query_of v =
     Option.bind (struct_fields [''provider'', ''limit''] v)
       (\<lambda>f. Option.bind (defaulted None (nullable as_str) (f ''provider''))
       (\<lambda>p. Option.bind (defaulted default_session_limit as_usize (f ''limit''))
       (\<lambda>limit. Some \<lparr>mq_provider = p, mq_limit = limit\<rparr>)))"

definition retry_request_of :: "json \<Rightarrow> retry_request option" where
  "retry_request_of v =
     Option.bind (flat_fields v)
       (\<lambda>f. Option.bind (session_ref_fields f)
       (\<lambda>s. Option.bind (required as_str (f ''request_key''))
       (\<lambda>k. Some \<lparr>rt_session = s, rt_request_key = k\<rparr>)))"

definition session_message_of :: "json \<Rightarrow> session_message option" where
  "session_message_of v =
     Option.bind (flat_fields v)
       (\<lambda>f. Option.bind (session_ref_fields f)
       (\<lambda>s. Option.bind (required as_str (f ''message''))
       (\<lambda>m. Some \<lparr>sm_session = s, sm_message = m\<rparr>)))"

definition session_add_of :: "json \<Rightarrow> session_add option" where
  "session_add_of v =
     Option.bind (flat_fields v)
       (\<lambda>f. Option.bind (session_ref_fields f)
       (\<lambda>s. Option.bind (defaulted None (nullable as_str) (f ''label''))
       (\<lambda>label. Option.bind (defaulted True as_bool (f ''validate''))
       (\<lambda>val. Some \<lparr>sa_session = s, sa_label = label, sa_validate = val\<rparr>))))"

definition activity_query_of :: "json \<Rightarrow> activity_query option" where
  "activity_query_of v =
     Option.bind (flat_fields v)
       (\<lambda>f. Option.bind (session_ref_fields f)
       (\<lambda>s. Option.bind (defaulted default_activity_limit as_usize (f ''limit''))
       (\<lambda>limit. Option.bind (defaulted None (nullable as_str) (f ''category''))
       (\<lambda>category. Option.bind (defaulted False as_bool (f ''reliability_only''))
       (\<lambda>only. Some
          \<lparr>aq_session = s, aq_limit = limit, aq_category = category,
           aq_reliability_only = only\<rparr>)))))"

text \<open>
  A unit variant reads from its name, or from an object with that name as its only key
  and null under it.
\<close>

fun variant_of :: "(string \<times> 'a) list \<Rightarrow> json \<Rightarrow> 'a option" where
  "variant_of names (JString s) = map_of names s"
| "variant_of names (JObject [(s, JNull)]) = map_of names s"
| "variant_of names _ = None"

definition policy_action_of :: "json \<Rightarrow> policy_action option" where
  "policy_action_of = variant_of [(''retry'', Retry), (''skip'', Skip)]"

definition backoff_kind_of :: "json \<Rightarrow> backoff_kind option" where
  "backoff_kind_of = variant_of [(''fixed'', Fixed), (''exponential'', Exponential)]"

text \<open>The settings' structures also refuse fields they do not know.\<close>

fun known_fields :: "string list \<Rightarrow> json \<Rightarrow> (string \<Rightarrow> json option) option" where
  "known_fields names (JObject m) =
     (if list_all (\<lambda>k. k \<in> set names) (map fst m) then Some (hm_get m) else None)"
| "known_fields names v = struct_fields names v"

definition policy_override_of :: "json \<Rightarrow> policy_override option" where
  "policy_override_of v =
     Option.bind (known_fields [''action'', ''backoff'', ''initial_delay_seconds'',
         ''max_delay_seconds'', ''max_attempts'', ''prompt''] v)
       (\<lambda>f. Option.bind (defaulted None (nullable policy_action_of) (f ''action''))
       (\<lambda>action. Option.bind (defaulted None (nullable backoff_kind_of) (f ''backoff''))
       (\<lambda>backoff. Option.bind (defaulted None (nullable as_u64) (f ''initial_delay_seconds''))
       (\<lambda>initial. Option.bind (defaulted None (nullable as_u64) (f ''max_delay_seconds''))
       (\<lambda>maximum. Option.bind (defaulted None (nullable as_usize) (f ''max_attempts''))
       (\<lambda>attempts. Option.bind (defaulted None (nullable as_str) (f ''prompt''))
       (\<lambda>prompt. Some
          \<lparr>po_action = action, po_backoff = backoff, po_initial_delay_seconds = initial,
           po_max_delay_seconds = maximum, po_max_attempts = attempts, po_prompt = prompt\<rparr>)))))))"

definition lifecycle_of :: "json \<Rightarrow> lifecycle_settings option" where
  "lifecycle_of v =
     Option.bind (known_fields [''stale_after_seconds''] v)
       (\<lambda>f. Option.bind (defaulted (stale_after_seconds default_lifecycle_settings) as_i64
            (f ''stale_after_seconds''))
       (\<lambda>n. Some \<lparr>stale_after_seconds = n\<rparr>))"

record policy_update =
  pu_condition :: string
  pu_policy :: policy_override

definition policy_update_of :: "json \<Rightarrow> policy_update option" where
  "policy_update_of v =
     Option.bind (struct_fields [''condition'', ''policy''] v)
       (\<lambda>f. Option.bind (required as_str (f ''condition''))
       (\<lambda>c. Option.bind (required policy_override_of (f ''policy''))
       (\<lambda>p. Some \<lparr>pu_condition = c, pu_policy = p\<rparr>)))"

definition activity_query_validate :: "activity_query \<Rightarrow> unit result" where
  "activity_query_validate q =
     (if aq_limit q = 0 \<or> max_activity_items < aq_limit q
      then bail (''activity limit must be between 1 and '' @ show_nat max_activity_items)
      else Inr ())"

definition session_ref_key :: "session_ref \<Rightarrow> string" where
  "session_ref_key s = sr_provider s @ '':'' @ sr_session_id s"


section \<open>The client\<close>

definition validate_response_version :: "u32 \<Rightarrow> unit result" where
  "validate_response_version v =
     (if v \<noteq> protocol_version
      then bail (''Watchcat service protocol '' @ show_nat (unat v) @
        '' is not supported; expected '' @ show_nat (unat protocol_version))
      else Inr ())"

text \<open>What \<open>WatchcatClient::request\<close> makes of the response it read.\<close>

definition accept_response :: "rpc_request \<Rightarrow> rpc_response \<Rightarrow> (json \<times> u64) result" where
  "accept_response request response =
     bindR (validate_response_version (rsp_version response)) (\<lambda>_.
       if rsp_id response \<noteq> rq_id request
       then bail ''Watchcat service returned a response for another request''
       else case rsp_error response of
         Some e \<Rightarrow> bail (re_code e @ '': '' @ re_message e)
       | None \<Rightarrow>
           Inr (case rsp_result response of None \<Rightarrow> JNull | Some v \<Rightarrow> v, rsp_revision response))"

section \<open>What survives the wire\<close>

lemma as_u32_json_u32 [simp]: "as_u32 (json_u32 n) = Some n"
proof -
  have n: "unat n < 2 ^ 32"
    using unsigned_less [of n] by simp
  then have "unat (word_of_nat (unat n) :: u64) = unat n"
    by (simp only: unat_of_nat) simp
  then have "as_u64 (json_u32 n) = Some (word_of_nat (unat n))" and
    "unat (word_of_nat (unat n) :: u64) = unat n"
    by (simp_all only: json_u32_def as_u64.simps)
  moreover have "(word_of_nat (unat n) :: u32) = n"
    by simp
  ultimately show ?thesis using n by (simp only: as_u32_def Option.bind.simps if_True)
qed

lemma as_u64_json_u64 [simp]: "as_u64 (json_u64 n) = Some n"
  by (simp add: json_u64_def)

lemma nullable_json_u64 [simp]: "nullable as_u64 (json_u64 n) = Some (Some n)"
  by (simp add: json_u64_def)

lemma nullable_object [simp]: "nullable f (json_object kvs) = map_option Some (f (json_object kvs))"
  by (simp add: json_object_def)

lemma struct_fields_object [simp]:
  "struct_fields names (json_object kvs) = Some (\<lambda>k. hm_get (rev kvs) k)"
proof -
  have "hm_get (foldl (\<lambda>m (k, v). bt_insert k v m) [] kvs) k = hm_get (rev kvs) k" for k
    using json_get_object [of k kvs] by (simp add: json_object_def)
  then show ?thesis by (simp add: json_object_def fun_eq_iff)
qed

lemma rpc_error_of_json [simp]: "rpc_error_of (rpc_error_json e) = Some e"
  by (simp add: rpc_error_of_def rpc_error_json_def required_def hm_get_def)

lemma request_of_json: "request_of (request_json r) = Some r"
  by (cases "rq_expected_revision r")
    (simp_all add: request_of_def request_json_def required_def defaulted_def hm_get_def)

lemma nullable_value [simp]: "v \<noteq> JNull \<Longrightarrow> nullable Some v = Some (Some v)"
  by (cases v) auto

lemma rpc_error_json_not_null: "nullable rpc_error_of (rpc_error_json e) = Some (Some e)"
  using rpc_error_of_json [of e] by (simp add: rpc_error_json_def)

text \<open>A result that is null reads back as no result.\<close>

lemma response_of_json:
  "response_of (response_json r) =
     Some (if rsp_result r = Some JNull then r\<lparr>rsp_result := None\<rparr> else r)"
  by (cases "rsp_result r"; cases "rsp_error r"; cases "rsp_result r = Some JNull")
    (simp_all add: response_of_def response_json_def required_def defaulted_def hm_get_def
      rpc_error_json_not_null)

lemma accept_response_Inr:
  "accept_response rq r = Inr (v, g) \<longleftrightarrow>
     rsp_version r = protocol_version \<and> rsp_id r = rq_id rq \<and> rsp_error r = None \<and>
     v = (case rsp_result r of None \<Rightarrow> JNull | Some v \<Rightarrow> v) \<and> g = rsp_revision r"
  by (auto simp: accept_response_def bindR_Inr_iff validate_response_version_def
      split: option.splits)

lemma decode_Inr [simp]: "decode msg name f v = Inr q \<longleftrightarrow> f v = Some q"
  by (simp add: decode_def)

lemma decode_no_panic: "decode msg name f v = Inl e \<Longrightarrow> \<not> is_panic e"
  by (auto simp: decode_def ok_or_def split: option.splits)

end
