(* ===== verification/Framing.thy ===== *)
theory Framing
  imports Protocol
begin

text \<open>
  Length-prefixed frames on a byte stream: the local RPC of \<open>client.rs\<close> (big-endian length)
  and the Codex Desktop IPC of \<open>transport/codex_desktop.rs\<close> (little-endian length, JSON
  payload).  A stream is the list of bytes still to be read, up to its end; \<open>eof\<close> is the
  text of the library's error at the end of a stream.
\<close>


section \<open>Bytes on a stream\<close>

definition be_u32 :: "nat \<Rightarrow> string" where
  "be_u32 n = map char_of [n div 2 ^ 24 mod 256, n div 2 ^ 16 mod 256, n div 2 ^ 8 mod 256, n mod 256]"

definition of_be_u32 :: "string \<Rightarrow> nat" where
  "of_be_u32 s = foldl (\<lambda>n c. n * 256 + of_char c) 0 s"

definition le_u32 :: "nat \<Rightarrow> string" where
  "le_u32 n = rev (be_u32 n)"

definition of_le_u32 :: "string \<Rightarrow> nat" where
  "of_le_u32 s = of_be_u32 (rev s)"

definition read_exact :: "string \<Rightarrow> nat \<Rightarrow> string \<Rightarrow> string result \<times> string" where
  "read_exact eof n stream =
     (if n \<le> length stream then (Inr (take n stream), drop n stream) else (bail eof, []))"

text \<open>
  Writing puts all the bytes on the wire, or fails with the system's message after some
  of them.
\<close>

fun transmit :: "(nat \<times> string) option \<Rightarrow> string \<Rightarrow> unit result \<times> string" where
  "transmit None out = (Inr (), out)"
| "transmit (Some (k, os)) out = (bail os, take k out)"


section \<open>The local RPC\<close>

definition write_frame :: "(nat \<times> string) option \<Rightarrow> string \<Rightarrow> unit result \<times> string" where
  "write_frame io bytes =
     (if max_frame_bytes < length bytes
      then (bail (''RPC frame exceeds '' @ show_nat max_frame_bytes @ '' bytes''), [])
      else transmit io (be_u32 (length bytes mod 2 ^ 32) @ bytes))"

definition read_frame_with_limit :: "string \<Rightarrow> nat \<Rightarrow> string \<Rightarrow> string result \<times> string" where
  "read_frame_with_limit eof max_bytes stream =
     (case read_exact eof 4 stream of
        (Inl e, rest) \<Rightarrow> (Inl e, rest)
      | (Inr header, rest) \<Rightarrow>
          if max_bytes < of_be_u32 header
          then (bail (''RPC frame exceeds '' @ show_nat max_bytes @ '' bytes''), rest)
          else read_exact eof (of_be_u32 header) rest)"

definition read_frame :: "string \<Rightarrow> string \<Rightarrow> string result \<times> string" where
  "read_frame eof stream = read_frame_with_limit eof max_frame_bytes stream"


section \<open>The Codex Desktop IPC\<close>

definition ipc_max_frame_bytes :: nat where
  "ipc_max_frame_bytes = 256 * 1024 * 1024"

definition ipc_write_frame ::
    "(string, json) codec \<Rightarrow> (nat \<times> string) option \<Rightarrow> json \<Rightarrow> unit result \<times> string" where
  "ipc_write_frame c io message =
     (case enc c message of
        Inl m \<Rightarrow> (bail m, [])
      | Inr payload \<Rightarrow>
          if payload = [] \<or> ipc_max_frame_bytes < length payload
          then (bail (''Codex Desktop IPC frame has invalid size: '' @ show_nat (length payload)), [])
          else if 2 ^ 32 \<le> length payload
          then (Inl (io_error ''Codex Desktop IPC frame is too large''
            ''out of range integral type conversion attempted''), [])
          else transmit io (le_u32 (length payload) @ payload))"

definition ipc_read_frame ::
    "(string, json) codec \<Rightarrow> string \<Rightarrow> string \<Rightarrow> json result \<times> string" where
  "ipc_read_frame c eof stream =
     (case read_exact eof 4 stream of
        (Inl e, rest) \<Rightarrow> (Inl e, rest)
      | (Inr header, rest) \<Rightarrow>
          if of_le_u32 header = 0 \<or> ipc_max_frame_bytes < of_le_u32 header
          then (bail (''Codex Desktop IPC frame has invalid size: '' @
            show_nat (of_le_u32 header)), rest)
          else (case read_exact eof (of_le_u32 header) rest of
              (Inl e, rest') \<Rightarrow> (Inl e, rest')
            | (Inr payload, rest') \<Rightarrow>
                (case dec c payload of
                   Inl m \<Rightarrow> (Inl (io_error ''Codex Desktop IPC returned invalid JSON'' m), rest')
                 | Inr v \<Rightarrow> (Inr v, rest'))))"


section \<open>Headers\<close>

text \<open>What a frame format promises: four bytes from which the length is recovered.\<close>

locale frame_header =
  fixes header :: "nat \<Rightarrow> string" and value_of :: "string \<Rightarrow> nat"
  assumes header_length: "length (header n) = 4"
    and header_value: "n < 2 ^ 32 \<Longrightarrow> value_of (header n) = n"
begin

lemma read_header:
  "read_exact eof 4 (header n @ rest) = (Inr (header n), rest)"
  by (simp add: read_exact_def header_length)

lemma read_header_torn:
  "k < 4 \<Longrightarrow> read_exact eof 4 (take k (header n @ rest)) = (bail eof, [])"
  by (simp add: read_exact_def header_length)

lemma torn_after_header:
  "4 \<le> k \<Longrightarrow> take k (header n @ rest) = header n @ take (k - 4) rest"
  by (simp add: header_length)

end

lemma horner_base: "(n div 256) * 256 + n mod 256 = (n :: nat)"
  by simp

lemma of_be_u32_be_u32: "n < 2 ^ 32 \<Longrightarrow> of_be_u32 (be_u32 n) = n"
proof -
  assume n: "n < 2 ^ 32"
  define a where "a = n div 256"
  define b where "b = a div 256"
  define c where "c = b div 256"
  have shifts: "n div 2 ^ 8 = a" "n div 2 ^ 16 = b" "n div 2 ^ 24 = c"
    by (simp_all add: a_def b_def c_def div_mult2_eq [symmetric])
  have "c < 256"
    using n by (simp add: shifts [symmetric] less_mult_imp_div_less)
  then have "of_be_u32 (be_u32 n) = ((c * 256 + b mod 256) * 256 + a mod 256) * 256 + n mod 256"
    unfolding be_u32_def shifts by (simp add: of_be_u32_def of_char_of)
  also have "\<dots> = n"
    by (simp only: a_def b_def c_def horner_base)
  finally show ?thesis .
qed

interpretation rpc_header: frame_header be_u32 of_be_u32
  by unfold_locales (simp add: be_u32_def, rule of_be_u32_be_u32)

interpretation ipc_header: frame_header le_u32 of_le_u32
  by unfold_locales
    (simp add: le_u32_def be_u32_def, simp only: le_u32_def of_le_u32_def rev_rev_ident of_be_u32_be_u32)


section \<open>Frames\<close>

lemma read_exact_append [simp]: "read_exact eof (length p) (p @ rest) = (Inr p, rest)"
  by (simp add: read_exact_def)

lemma read_exact_short: "length s < n \<Longrightarrow> read_exact eof n s = (bail eof, [])"
  by (simp add: read_exact_def)

lemma write_frame_fits:
  "length p \<le> max_frame_bytes \<Longrightarrow> write_frame io p = transmit io (be_u32 (length p) @ p)"
  by (simp add: write_frame_def max_frame_bytes_def)

lemma read_frame_after_header:
  assumes "n \<le> max_bytes" and "n < 2 ^ 32"
  shows "read_frame_with_limit eof max_bytes (be_u32 n @ rest) = read_exact eof n rest"
  using assms by (simp add: read_frame_with_limit_def rpc_header.read_header rpc_header.header_value)

lemma read_written_frame:
  assumes "length p \<le> max_bytes" and "length p < 2 ^ 32"
  shows "read_frame_with_limit eof max_bytes (be_u32 (length p) @ p @ rest) = (Inr p, rest)"
  using assms by (simp add: read_frame_after_header)

lemma read_oversized_frame:
  assumes "max_bytes < length p" and "length p < 2 ^ 32"
  shows "read_frame_with_limit eof max_bytes (be_u32 (length p) @ rest) =
    (bail (''RPC frame exceeds '' @ show_nat max_bytes @ '' bytes''), rest)"
  using assms by (simp add: read_frame_with_limit_def rpc_header.read_header rpc_header.header_value)

lemma read_torn_frame:
  assumes "length p \<le> max_bytes" and "length p < 2 ^ 32" and "k < 4 + length p"
  shows "read_frame_with_limit eof max_bytes (take k (be_u32 (length p) @ p)) = (bail eof, [])"
proof (cases "k < 4")
  case True
  then show ?thesis by (simp add: read_frame_with_limit_def rpc_header.read_header_torn del: take_append)
next
  case False
  then have "take k (be_u32 (length p) @ p) = be_u32 (length p) @ take (k - 4) p"
    by (simp add: rpc_header.torn_after_header del: take_append)
  moreover have "length (take (k - 4) p) < length p"
    using False assms(3) by simp
  ultimately show ?thesis
    using assms by (simp add: read_frame_after_header read_exact_short)
qed

text \<open>Reading frame after frame until the stream ends.\<close>

fun read_frames :: "string \<Rightarrow> nat \<Rightarrow> nat \<Rightarrow> string \<Rightarrow> string list \<times> string" where
  "read_frames eof max_bytes 0 s = ([], s)"
| "read_frames eof max_bytes (Suc n) s =
     (case read_frame_with_limit eof max_bytes s of
        (Inl e, s') \<Rightarrow> ([], s')
      | (Inr p, s') \<Rightarrow> (case read_frames eof max_bytes n s' of (ps, s'') \<Rightarrow> (p # ps, s'')))"

lemma read_written_frames:
  assumes "max_bytes < 2 ^ 32" and "\<forall>p \<in> set ps. length p \<le> max_bytes"
  shows "read_frames eof max_bytes (length ps) (concat (map (\<lambda>p. be_u32 (length p) @ p) ps) @ rest) =
    (ps, rest)"
  using assms(2)
proof (induction ps)
  case (Cons p ps)
  with assms(1) have "length p \<le> max_bytes" and "length p < 2 ^ 32" by auto
  with Cons show ?case by (simp add: read_written_frame del: append_assoc) (simp add: read_written_frame)
qed simp

lemma ipc_read_written:
  assumes "codec_ok c" and "enc c v = Inr payload" and "ipc_write_frame c None v = (Inr (), out)"
  shows "ipc_read_frame c eof (out @ rest) = (Inr v, rest)"
proof -
  have len: "payload \<noteq> []" "length payload \<le> ipc_max_frame_bytes" and
    out: "out = le_u32 (length payload) @ payload"
    using assms(2,3) by (auto simp: ipc_write_frame_def split: if_splits)
  then have "length payload < 2 ^ 32" by (simp add: ipc_max_frame_bytes_def)
  with len out codec_okD [OF assms(1,2)] show ?thesis
    by (simp add: ipc_read_frame_def ipc_header.read_header ipc_header.header_value)
qed

lemma read_frames_stop:
  assumes "max_bytes < 2 ^ 32" and "\<forall>p \<in> set ps. length p \<le> max_bytes"
    and "read_frame_with_limit eof max_bytes rest = (Inl e, s')"
  shows "read_frames eof max_bytes (length ps + Suc n)
    (concat (map (\<lambda>p. be_u32 (length p) @ p) ps) @ rest) = (ps, s')"
  using assms(2)
proof (induction ps)
  case Nil
  with assms(3) show ?case by simp
next
  case (Cons p ps)
  with assms(1) have "length p \<le> max_bytes" and "length p < 2 ^ 32" by auto
  with Cons show ?case by (simp add: read_written_frame)
qed


section \<open>Properties\<close>

text \<open>C13: A reader of the local RPC gets exactly the messages that were written: of a
  stream of complete frames followed by one whose writer failed part-way, reading (with
  any limit up to the frame limit that admits them) yields the complete messages in order
  and unchanged, never a truncated one, however many more reads are tried.\<close>
theorem rpc_frames_exact:
  assumes "max_bytes \<le> max_frame_bytes" and "\<forall>p \<in> set ps. length p \<le> max_bytes"
    and "length q \<le> max_bytes" and "k < 4 + length q"
  shows "read_frames eof max_bytes (length ps + Suc n)
    (concat (map (\<lambda>p. snd (write_frame None p)) ps) @ snd (write_frame (Some (k, os)) q)) = (ps, [])"
proof -
  have limit: "max_bytes < 2 ^ 32"
    using assms(1) by (simp add: max_frame_bytes_def)
  have frames: "map (\<lambda>p. snd (write_frame None p)) ps = map (\<lambda>p. be_u32 (length p) @ p) ps"
    using assms(1,2) by (auto simp: write_frame_fits)
  have torn: "snd (write_frame (Some (k, os)) q) = take k (be_u32 (length q) @ q)"
    using assms(1,3) by (simp add: write_frame_fits)
  have "read_frame_with_limit eof max_bytes (take k (be_u32 (length q) @ q)) = (bail eof, [])"
    by (rule read_torn_frame) (use assms(3,4) limit in auto)
  then show ?thesis
    unfolding frames torn by (rule read_frames_stop [OF limit assms(2)])
qed

theorem rpc_frames_exact_witness:
  "read_frames ''eof'' 1024 3
     (concat (map (\<lambda>p. snd (write_frame None p)) [''a'', []]) @ snd (write_frame (Some (6, ''broken'')) ''abc''))
   = ([''a'', []], [])"
proof -
  have "read_frames ''eof'' 1024 (length [''a'', []] + Suc 0)
     (concat (map (\<lambda>p. snd (write_frame None p)) [''a'', []]) @ snd (write_frame (Some (6, ''broken'')) ''abc''))
   = ([''a'', []], [])"
    by (rule rpc_frames_exact) (simp_all add: max_frame_bytes_def)
  moreover have "length [''a'', [] :: string] + Suc 0 = 3"
    by simp
  ultimately show ?thesis by (simp only:)
qed

end
