(* ===== verification/Desktop_Ipc.thy ===== *)
theory Desktop_Ipc
  imports Steps Engine Protocol Framing
begin

text \<open>
  The client of the Codex Desktop IPC router (\<open>transport/codex_desktop.rs\<close>): connecting to
  an endpoint that must belong to the user, finding the Desktop window that owns a thread,
  steering or starting a turn in it, and waiting for the answer among everything else the
  router sends.  A connection is its two directions: the frames that will arrive, with the
  expiry of a waiting time and broken reads among them, and the frames written so far with
  the outcomes of the writes.  The bytes of a frame are in \<open>Framing\<close>.
\<close>


section \<open>The connection\<close>

datatype incoming = Frame json | Broken error | Elapsed

record desktop =
  ds_client_id :: string
  ds_ids :: nat
  ds_inbox :: "incoming list"
  ds_outbox :: "(json \<times> unit result) list"

text \<open>The n-th fresh identifier, the outcome of the n-th write, and the clock in milliseconds.\<close>

record desktop_env =
  dv_fresh :: "nat \<Rightarrow> string"
  dv_write :: "nat \<Rightarrow> unit result"
  dv_now :: u64

record delivery =
  dl_turn_id :: string
  dl_delivery :: message_delivery

definition initial_client_id :: string where
  "initial_client_id = ''initializing-client''"

definition local_host_id :: string where
  "local_host_id = ''local''"

definition request_timeout_ms :: nat where
  "request_timeout_ms = 10000"

definition send_frame :: "desktop_env \<Rightarrow> json \<Rightarrow> (unit, desktop) step" where
  "send_frame env m d =
     (let r = dv_write env (length (ds_outbox d))
      in (r, d\<lparr>ds_outbox := ds_outbox d @ [(m, r)]\<rparr>))"

definition fresh_id :: "desktop_env \<Rightarrow> (string, desktop) step" where
  "fresh_id env d = (Inr (dv_fresh env (ds_ids d)), d\<lparr>ds_ids := ds_ids d + 1\<rparr>)"

definition discovery_response :: "string \<Rightarrow> json" where
  "discovery_response i = json_object
     [(''type'', JString ''client-discovery-response''), (''requestId'', JString i),
      (''response'', json_object [(''canHandle'', JBool False)])]"

definition answers :: "string \<Rightarrow> json \<Rightarrow> bool" where
  "answers rid m \<longleftrightarrow> get_str ''type'' m = Some ''response'' \<and> get_str ''requestId'' m = Some rid"

datatype awaited = Answer json | Failed error | Expired

function read_response :: "desktop_env \<Rightarrow> string \<Rightarrow> desktop \<Rightarrow> awaited \<times> desktop" where
  "read_response env rid d =
     (case ds_inbox d of
        [] \<Rightarrow> (Expired, d)
      | Elapsed # rest \<Rightarrow> (Expired, d\<lparr>ds_inbox := rest\<rparr>)
      | Broken e # rest \<Rightarrow> (Failed e, d\<lparr>ds_inbox := rest\<rparr>)
      | Frame m # rest \<Rightarrow>
          if answers rid m then (Answer m, d\<lparr>ds_inbox := rest\<rparr>)
          else if get_str ''type'' m = Some ''client-discovery-request''
          then (case get_str ''requestId'' m of
              None \<Rightarrow> read_response env rid (d\<lparr>ds_inbox := rest\<rparr>)
            | Some i \<Rightarrow>
                (case dv_write env (length (ds_outbox d)) of
                   Inl e \<Rightarrow> (Failed e, snd (send_frame env (discovery_response i) (d\<lparr>ds_inbox := rest\<rparr>)))
                 | Inr _ \<Rightarrow> read_response env rid
                     (snd (send_frame env (discovery_response i) (d\<lparr>ds_inbox := rest\<rparr>)))))
          else read_response env rid (d\<lparr>ds_inbox := rest\<rparr>))"
  by pat_completeness auto
termination
  by (relation "measure (\<lambda>(env, rid, d). length (ds_inbox d))") (auto simp: send_frame_def Let_def)

declare read_response.simps [simp del]


section \<open>Requests\<close>

definition request_message ::
    "string \<Rightarrow> string \<Rightarrow> string \<Rightarrow> nat \<Rightarrow> json \<Rightarrow> string option \<Rightarrow> json" where
  "request_message rid client_id method version params target = json_object
     ([(''type'', JString ''request''), (''requestId'', JString rid),
       (''sourceClientId'', JString client_id), (''version'', json_nat version),
       (''method'', JString method), (''params'', params),
       (''timeoutMs'', json_nat request_timeout_ms)] @
      (case target of None \<Rightarrow> [] | Some t \<Rightarrow> [(''targetClientId'', JString t)]))"

definition response_result :: "string \<Rightarrow> json \<Rightarrow> json result" where
  "response_result method response =
     (if get_str ''resultType'' response = Some ''error''
      then Inl (Root (DesktopIpcRemoteError method
             (unwrap_or (get_str ''error'' response) ''unknown-error'')))
      else if get_str ''resultType'' response \<noteq> Some ''success''
      then bail (''Codex Desktop IPC returned an invalid response for '' @ method)
      else Inr response)"

definition unanswered :: "bool \<Rightarrow> string \<Rightarrow> awaited \<Rightarrow> error" where
  "unanswered may_have_started method a =
     (case a of
        Failed e \<Rightarrow>
          if may_have_started
          then Root (AcknowledgementUnknown (''Codex Desktop IPC closed while waiting for '' @
            method @ '': '' @ error_chain_text e))
          else e
      | _ \<Rightarrow>
          if may_have_started
          then Root (AcknowledgementUnknown (''Codex Desktop IPC request timed out: '' @ method))
          else Root (Message (''Codex Desktop IPC request timed out: '' @ method)))"

definition desktop_request ::
    "desktop_env \<Rightarrow> bool \<Rightarrow> string \<Rightarrow> nat \<Rightarrow> json \<Rightarrow> string option \<Rightarrow> (json, desktop) step" where
  "desktop_request env may_have_started method version params target =
     bindS (fresh_id env) (\<lambda>rid d.
       bindS (send_frame env (request_message rid (ds_client_id d) method version params target))
         (\<lambda>_ d1. case read_response env rid d1 of
            (Answer m, d2) \<Rightarrow> (response_result method m, d2)
          | (a, d2) \<Rightarrow> (Inl (unanswered may_have_started method a), d2)) d)"

definition first_pointer :: "string list list \<Rightarrow> json \<Rightarrow> string option" where
  "first_pointer paths v = Option.bind (find_map (\<lambda>p. json_pointer p v) paths) as_str"

definition found_or :: "string \<Rightarrow> 'a option \<Rightarrow> ('a, desktop) step" where
  "found_or m x = liftS (ok_or (Root (Message m)) x)"

definition set_client_id :: "string \<Rightarrow> (unit, desktop) step" where
  "set_client_id i d = (Inr (), d\<lparr>ds_client_id := i\<rparr>)"

definition desktop_initialize :: "desktop_env \<Rightarrow> (unit, desktop) step" where
  "desktop_initialize env =
     bindS (desktop_request env False ''initialize'' 0
       (json_object [(''clientType'', JString ''watchcat'')]) None) (\<lambda>response.
     bindS (found_or ''Codex Desktop IPC initialize returned no client id''
       (pointer_str [''result'', ''clientId''] response)) set_client_id)"

fun remote_error_message :: "error \<Rightarrow> string option" where
  "remote_error_message (Root (DesktopIpcRemoteError method m)) = Some m"
| "remote_error_message (Context c e) = remote_error_message e"
| "remote_error_message _ = None"

definition discover_owner :: "desktop_env \<Rightarrow> string \<Rightarrow> (string option, desktop) step" where
  "discover_owner env session_id d =
     (case desktop_request env False ''thread-owner-discovery'' 1 (json_object
         [(''hostId'', JString local_host_id), (''conversationId'', JString session_id)]) None d of
        (Inr response, d') \<Rightarrow>
          (map_sum id Some (ok_or (Root (Message ''Codex Desktop owner discovery returned no owner id''))
             (first_pointer [[''result'', ''handledByClientId''], [''handledByClientId'']] response)),
           d')
      | (Inl e, d') \<Rightarrow>
          if remote_error_message e = Some ''no-client-found'' then (Inr None, d') else (Inl e, d'))"

definition text_input :: "string \<Rightarrow> json" where
  "text_input message = JArray [json_object
     [(''type'', JString ''text''), (''text'', JString message), (''text_elements'', JArray [])]]"

definition restore_message :: "desktop_env \<Rightarrow> string \<Rightarrow> string \<Rightarrow> string \<Rightarrow> json" where
  "restore_message env message_id message cwd = json_object
     [(''id'', JString message_id), (''text'', JString message), (''cwd'', JString cwd),
      (''createdAt'', json_u64 (dv_now env)),
      (''context'', json_object
         [(''prompt'', JString message), (''addedFiles'', JArray []), (''fileAttachments'', JArray []),
          (''pastedTextAttachments'', JArray []), (''generatedPastedTextAttachmentPaths'', JArray []),
          (''ideContext'', JNull), (''imageAttachments'', JArray []),
          (''commentAttachments'', JArray []), (''mcpAppModelContextAttachments'', JArray []),
          (''appshotContexts'', JArray []), (''workspaceRoots'', JArray [JString cwd])])]"

definition desktop_steer ::
    "desktop_env \<Rightarrow> string \<Rightarrow> string \<Rightarrow> string \<Rightarrow> string \<Rightarrow> string \<Rightarrow> (delivery, desktop) step" where
  "desktop_steer env owner session_id message_id message cwd =
     bindS (desktop_request env False ''thread-follower-steer-turn'' 1 (json_object
         [(''conversationId'', JString session_id), (''clientUserMessageId'', JString message_id),
          (''input'', text_input message), (''serviceTier'', JNull), (''attachments'', JArray []),
          (''additionalContext'', json_object []),
          (''restoreMessage'', restore_message env message_id message cwd)]) (Some owner))
       (\<lambda>response. bindS (found_or ''Codex Desktop accepted steer without a turn id''
          (first_pointer [[''result'', ''result'', ''turnId''], [''result'', ''turnId''], [''turnId'']]
            response))
          (\<lambda>turn_id. returnS \<lparr>dl_turn_id = turn_id, dl_delivery = Steered\<rparr>))"

definition desktop_start_turn ::
    "desktop_env \<Rightarrow> string \<Rightarrow> string \<Rightarrow> string \<Rightarrow> string \<Rightarrow> (delivery, desktop) step" where
  "desktop_start_turn env owner session_id message_id message =
     bindS (desktop_request env True ''thread-follower-start-turn'' 1 (json_object
         [(''conversationId'', JString session_id),
          (''turnStartParams'', json_object
             [(''clientUserMessageId'', JString message_id), (''input'', text_input message),
              (''attachments'', JArray []), (''useAppServerPermissionDefault'', JBool True)]),
          (''mcpAppModelContextAttachments'', JArray [])]) (Some owner))
       (\<lambda>response. bindS (found_or ''Codex Desktop accepted turn start without a turn id''
          (first_pointer [[''result'', ''result'', ''turn'', ''id''], [''result'', ''turn'', ''id''],
             [''turn'', ''id'']] response))
          (\<lambda>turn_id. returnS \<lparr>dl_turn_id = turn_id, dl_delivery = Started\<rparr>))"

datatype turn_state_conflict = TurnInactive | TurnActive

definition state_conflict :: "error \<Rightarrow> turn_state_conflict option" where
  "state_conflict e =
     (case remote_error_message e of
        None \<Rightarrow> None
      | Some m \<Rightarrow>
          (let message = to_ascii_lowercase m
           in if contains_any [''no active turn'', ''without an active turn'', ''not being streamed'',
                  ''not currently active'', ''is not active'', ''active turn already ended''] message
              then Some TurnInactive
              else if contains_any [''active turn'', ''already active'', ''already in progress''] message
              then Some TurnActive
              else None))"


section \<open>Delivering a message\<close>

definition steer_or_start ::
    "desktop_env \<Rightarrow> string \<Rightarrow> string \<Rightarrow> string \<Rightarrow> string \<Rightarrow> string \<Rightarrow> (delivery, desktop) step" where
  "steer_or_start env owner session_id message_id message cwd d =
     (case desktop_steer env owner session_id message_id message cwd d of
        (Inr receipt, d1) \<Rightarrow> (Inr receipt, d1)
      | (Inl e, d1) \<Rightarrow>
          if state_conflict e \<noteq> Some TurnInactive then (Inl e, d1)
          else (case desktop_start_turn env owner session_id message_id message d1 of
              (Inr receipt, d2) \<Rightarrow> (Inr receipt, d2)
            | (Inl e', d2) \<Rightarrow>
                if state_conflict e' \<noteq> Some TurnActive then (Inl e', d2)
                else desktop_steer env owner session_id message_id message cwd d2))"

definition desktop_send_message ::
    "desktop_env \<Rightarrow> string \<Rightarrow> string \<Rightarrow> string \<Rightarrow> (delivery option, desktop) step" where
  "desktop_send_message env session_id message cwd =
     bindS (discover_owner env session_id) (\<lambda>found.
       case found of
         None \<Rightarrow> returnS None
       | Some owner \<Rightarrow>
           bindS (fresh_id env) (\<lambda>message_id.
           bindS (steer_or_start env owner session_id message_id message cwd) (\<lambda>receipt.
             returnS (Some receipt))))"

definition desktop_start_recovery ::
    "desktop_env \<Rightarrow> string \<Rightarrow> string \<Rightarrow> string \<Rightarrow> (string option, desktop) step" where
  "desktop_start_recovery env session_id message key =
     bindS (discover_owner env session_id) (\<lambda>found.
       case found of
         None \<Rightarrow> returnS None
       | Some owner \<Rightarrow>
           bindS (desktop_start_turn env owner session_id key message) (\<lambda>receipt.
             returnS (Some (dl_turn_id receipt))))"

definition desktop_interrupt ::
    "desktop_env \<Rightarrow> string \<Rightarrow> string \<Rightarrow> (string option, desktop) step" where
  "desktop_interrupt env session_id expected_turn_id =
     bindS (discover_owner env session_id) (\<lambda>found.
       case found of
         None \<Rightarrow> returnS None
       | Some owner \<Rightarrow>
           bindS (desktop_request env False ''thread-follower-interrupt-turn'' 4 (json_object
               [(''conversationId'', JString session_id), (''mode'', JString ''user-stop''),
                (''expectedTurnId'', JString expected_turn_id)]) (Some owner)) (\<lambda>response.
           bindS (found_or ''Codex Desktop accepted interrupt without a turn id''
             (first_pointer [[''result'', ''result'', ''interruptedTurnId''],
                [''result'', ''interruptedTurnId''], [''interruptedTurnId'']] response)) (\<lambda>turn_id.
             returnS (Some turn_id))))"


section \<open>Connecting\<close>

text \<open>
  \<open>symlink_metadata\<close> of the endpoint and of its directory, and the outcome of connecting;
  \<open>Unavailable\<close> stands for the two kinds of error that mean that nothing listens.
\<close>

record file_stat =
  sa_is_dir :: bool
  sa_is_socket :: bool
  sa_uid :: u32
  sa_mode :: u32

datatype stat_answer = Stat file_stat | Missing | StatError string

datatype connect_answer = Connected | Unavailable | ConnectError string | ConnectTimeout

definition default_unix_endpoint :: "string option \<Rightarrow> string option \<Rightarrow> string result" where
  "default_unix_endpoint codex_home home =
     bindR (case codex_home of
         Some path \<Rightarrow> Inr path
       | None \<Rightarrow>
           (case home of
              None \<Rightarrow> bail ''cannot determine the current user's home directory''
            | Some dir \<Rightarrow> Inr (dir @ ''/.codex'')))
       (\<lambda>root.
          if \<not> starts_with ''/'' root
          then bail ''CODEX_HOME must be an absolute path for Desktop IPC''
          else Inr root)"

definition ipc_directory :: "string \<Rightarrow> string" where
  "ipc_directory root = root @ ''/ipc''"

definition ipc_endpoint :: "string \<Rightarrow> string" where
  "ipc_endpoint root = ipc_directory root @ ''/ipc.sock''"

text \<open>\<open>mode & 0o022 != 0\<close>: the group's or everybody's write bit.\<close>

definition others_may_write :: "u32 \<Rightarrow> bool" where
  "others_may_write mode \<longleftrightarrow> bit mode 4 \<or> bit mode 1"

fun stat_or_absent :: "stat_answer \<Rightarrow> file_stat option result" where
  "stat_or_absent (Stat st) = Inr (Some st)"
| "stat_or_absent Missing = Inr None"
| "stat_or_absent (StatError os) = bail os"

definition connect_platform ::
    "string result \<Rightarrow> u32 \<Rightarrow> stat_answer \<Rightarrow> stat_answer \<Rightarrow> connect_answer \<Rightarrow> bool result" where
  "connect_platform endpoint uid parent socket answer =
     bindR endpoint (\<lambda>root.
     bindR (stat_or_absent parent) (\<lambda>p.
     case p of None \<Rightarrow> Inr False | Some ps \<Rightarrow>
     bindR (stat_or_absent socket) (\<lambda>s.
     case s of None \<Rightarrow> Inr False | Some ss \<Rightarrow>
       if \<not> sa_is_dir ps \<or> sa_uid ps \<noteq> uid \<or> others_may_write (sa_mode ps)
       then bail (''refusing insecure Codex Desktop IPC directory: '' @ ipc_directory root)
       else if \<not> sa_is_socket ss \<or> sa_uid ss \<noteq> uid
       then bail (''refusing untrusted Codex Desktop IPC endpoint: '' @ ipc_endpoint root)
       else (case answer of
           Connected \<Rightarrow> Inr True
         | Unavailable \<Rightarrow> Inr False
         | ConnectError os \<Rightarrow> bail os
         | ConnectTimeout \<Rightarrow> bail ''timed out connecting to Codex Desktop IPC''))))"

text \<open>A new connection, on what the router will send over it.\<close>

definition connect_default ::
    "desktop_env \<Rightarrow> string result \<Rightarrow> u32 \<Rightarrow> stat_answer \<Rightarrow> stat_answer \<Rightarrow> connect_answer \<Rightarrow>
     incoming list \<Rightarrow> desktop option result" where
  "connect_default env endpoint uid parent socket answer inbox =
     bindR (connect_platform endpoint uid parent socket answer) (\<lambda>connected.
       if \<not> connected then Inr None
       else (case with_contextS ''Codex Desktop IPC is present but incompatible''
           (desktop_initialize env)
           \<lparr>ds_client_id = initial_client_id, ds_ids = 0, ds_inbox = inbox, ds_outbox = []\<rparr> of
             (Inl e, d) \<Rightarrow> Inl e
           | (Inr _, d) \<Rightarrow> Inr (Some d)))"

lemma connect_platform_trusted:
  assumes "connect_platform endpoint uid parent socket answer = Inr True"
  shows "\<exists>ps ss. parent = Stat ps \<and> socket = Stat ss \<and> sa_is_dir ps \<and> sa_uid ps = uid \<and>
    \<not> others_may_write (sa_mode ps) \<and> sa_is_socket ss \<and> sa_uid ss = uid"
  using assms
  by (cases parent; cases socket; cases answer)
    (auto simp: connect_platform_def bindR_Inr_iff split: if_splits)


section \<open>What a request leaves behind\<close>

text \<open>The requests of a method among the frames written.\<close>

definition requests_of :: "string \<Rightarrow> desktop \<Rightarrow> (json \<times> unit result) list" where
  "requests_of method d =
     filter (\<lambda>(m, r). get_str ''method'' m = Some method) (ds_outbox d)"

definition same_requests :: "desktop \<Rightarrow> desktop \<Rightarrow> bool" where
  "same_requests d d' \<longleftrightarrow> (\<forall>method. requests_of method d' = requests_of method d)"

lemma same_requests_refl [simp]: "same_requests d d"
  by (simp add: same_requests_def)

lemma same_requests_trans: "same_requests a b \<Longrightarrow> same_requests b c \<Longrightarrow> same_requests a c"
  by (simp add: same_requests_def)

lemma get_str_object: "get_str k (json_object kvs) = Option.bind (hm_get (rev kvs) k) as_str"
  by (simp add: get_str_def json_get_object)

lemma discovery_no_request [simp]: "get_str ''method'' (discovery_response i) = None"
  by (simp add: discovery_response_def get_str_object hm_get_def)

lemma request_message_method [simp]:
  "get_str ''method'' (request_message rid i method version params target) = Some method"
  by (cases target) (simp_all add: request_message_def get_str_object hm_get_def)

lemma request_message_id [simp]:
  "get_str ''requestId'' (request_message rid i method version params target) = Some rid"
  by (cases target) (simp_all add: request_message_def get_str_object hm_get_def)

lemma send_frame_requests:
  "requests_of method (snd (send_frame env m d)) =
     requests_of method d @ (if get_str ''method'' m = Some method then [(m, fst (send_frame env m d))] else [])"
  by (simp add: send_frame_def Let_def requests_of_def)

lemma inbox_requests [simp]:
  "requests_of method (d\<lparr>ds_inbox := xs\<rparr>) = requests_of method d"
  "requests_of method (d\<lparr>ds_ids := n\<rparr>) = requests_of method d"
  "requests_of method (d\<lparr>ds_client_id := i\<rparr>) = requests_of method d"
  by (simp_all add: requests_of_def)

lemma read_response_effect:
  assumes "read_response env rid d = (a, d')"
  shows "same_requests d d' \<and> set (ds_inbox d') \<subseteq> set (ds_inbox d) \<and>
    (\<forall>m. a = Answer m \<longrightarrow> answers rid m \<and> Frame m \<in> set (ds_inbox d))"
  using assms
proof (induction env rid d arbitrary: a d' rule: read_response.induct)
  case (1 env rid d)
  show ?case
  proof (cases "ds_inbox d")
    case Nil
    with 1(4) show ?thesis by (subst (asm) read_response.simps) auto
  next
    case (Cons x rest)
    let ?d = "d\<lparr>ds_inbox := rest\<rparr>"
    show ?thesis
    proof (cases x)
      case (Broken e)
      with Cons 1(4) show ?thesis by (subst (asm) read_response.simps) (auto simp: same_requests_def)
    next
      case Elapsed
      with Cons 1(4) show ?thesis by (subst (asm) read_response.simps) (auto simp: same_requests_def)
    next
      case (Frame m)
      note fr = Cons [unfolded Frame]
      consider (mine) "answers rid m"
        | (asked) i where "\<not> answers rid m" "get_str ''type'' m = Some ''client-discovery-request''"
            "get_str ''requestId'' m = Some i"
        | (other) "\<not> answers rid m" "get_str ''type'' m = Some ''client-discovery-request'' \<Longrightarrow>
            get_str ''requestId'' m = None"
        by (cases "get_str ''requestId'' m") auto
      then show ?thesis
      proof cases
        case mine
        with fr 1(4) show ?thesis by (subst (asm) read_response.simps) (auto simp: same_requests_def)
      next
        case (asked i)
        let ?s = "snd (send_frame env (discovery_response i) ?d)"
        have s: "same_requests d ?s" "ds_inbox ?s = rest"
          by (simp_all add: same_requests_def send_frame_requests) (simp add: send_frame_def Let_def)
        show ?thesis
        proof (cases "dv_write env (length (ds_outbox d))")
          case (Inl e)
          with asked fr 1(4) s show ?thesis by (subst (asm) read_response.simps) auto
        next
          case (Inr u)
          with asked fr 1(4) have "read_response env rid ?s = (a, d')"
            by (subst (asm) read_response.simps) simp
          from 1(2) [OF Cons Frame asked(1,2,3) Inr this] s fr show ?thesis
            by (auto dest: same_requests_trans)
        qed
      next
        case other
        with fr 1(4) have run: "read_response env rid ?d = (a, d')"
          by (subst (asm) read_response.simps) (auto split: if_splits)
        have "same_requests ?d d' \<and> set (ds_inbox d') \<subseteq> set rest \<and>
            (\<forall>m. a = Answer m \<longrightarrow> answers rid m \<and> Frame m \<in> set rest)"
        proof (cases "get_str ''type'' m = Some ''client-discovery-request''")
          case True
          from 1(1) [OF Cons Frame other(1) True other(2) [OF True] run] show ?thesis by simp
        next
          case False
          from 1(3) [OF Cons Frame other(1) False run] show ?thesis by simp
        qed
        with fr show ?thesis by (auto simp: same_requests_def)
      qed
    qed
  qed
qed

text \<open>
  A request puts exactly one request on the wire.  When it fails, its frame was not
  written, or an answer came, or the error is the one for a missing answer.
\<close>

lemma desktop_request_effect:
  assumes "desktop_request env u method version params target d = (r, d')"
  shows "\<exists>m w rid. get_str ''method'' m = Some method \<and> get_str ''requestId'' m = Some rid \<and>
    (\<forall>k. requests_of k d' = requests_of k d @ (if k = method then [(m, w)] else [])) \<and>
    set (ds_inbox d') \<subseteq> set (ds_inbox d) \<and>
    (w \<noteq> Inr () \<or> (\<exists>f. Frame f \<in> set (ds_inbox d) \<and> answers rid f) \<or>
     (\<exists>a. r = Inl (unanswered u method a)))"
proof -
  let ?rid = "dv_fresh env (ds_ids d)"
  let ?m = "request_message ?rid (ds_client_id d) method version params target"
  let ?d = "d\<lparr>ds_ids := ds_ids d + 1\<rparr>"
  obtain w d1 where sent: "send_frame env ?m ?d = (w, d1)" by (metis surj_pair)
  have d1: "requests_of k d1 = requests_of k d @ (if k = method then [(?m, w)] else [])"
    "ds_inbox d1 = ds_inbox d" for k
    using send_frame_requests [of k env ?m ?d] sent by (auto simp: send_frame_def Let_def)
  have run: "desktop_request env u method version params target d =
      (case w of Inl e \<Rightarrow> (Inl e, d1)
       | Inr _ \<Rightarrow> (case read_response env ?rid d1 of
            (Answer m, d2) \<Rightarrow> (response_result method m, d2)
          | (a, d2) \<Rightarrow> (Inl (unanswered u method a), d2)))"
    using sent by (simp add: desktop_request_def bindS_def fresh_id_def)
  show ?thesis
  proof (cases w)
    case (Inl e)
    with run assms d1 show ?thesis
      by (intro exI [of _ ?m] exI [of _ w] exI [of _ ?rid]) auto
  next
    case (Inr x)
    obtain a d2 where read: "read_response env ?rid d1 = (a, d2)" by (metis surj_pair)
    note eff = read_response_effect [OF read]
    from run assms Inr read have d': "d' = d2"
      and r: "(\<exists>m. a = Answer m) \<or> r = Inl (unanswered u method a)"
      by (auto split: awaited.splits)
    from eff have reqs: "requests_of k d2 = requests_of k d1" for k
      by (simp add: same_requests_def)
    with eff d1 r d' show ?thesis
      by (intro exI [of _ ?m] exI [of _ w] exI [of _ ?rid]) auto
  qed
qed


section \<open>What delivering a message leaves behind\<close>

abbreviation starts_of :: "desktop \<Rightarrow> (json \<times> unit result) list" where
  "starts_of \<equiv> requests_of ''thread-follower-start-turn''"

abbreviation steers_of :: "desktop \<Rightarrow> (json \<times> unit result) list" where
  "steers_of \<equiv> requests_of ''thread-follower-steer-turn''"

lemma fresh_id_effect:
  "fresh_id env d = (r, d') \<Longrightarrow> same_requests d d' \<and> ds_inbox d' = ds_inbox d"
  by (auto simp: fresh_id_def same_requests_def)

lemma found_or_effect: "found_or m x d = (r, d') \<Longrightarrow> d' = d"
  by (simp add: found_or_def liftS_def)

lemma discover_owner_effect:
  assumes "discover_owner env session_id d = (r, d')"
  shows "starts_of d' = starts_of d \<and> steers_of d' = steers_of d \<and>
    set (ds_inbox d') \<subseteq> set (ds_inbox d)"
proof -
  let ?params = "json_object
    [(''hostId'', JString local_host_id), (''conversationId'', JString session_id)]"
  obtain r0 where "desktop_request env False ''thread-owner-discovery'' 1 ?params None d = (r0, d')"
    using assms by (auto simp: discover_owner_def split: prod.splits sum.splits if_splits)
  from desktop_request_effect [OF this] show ?thesis by auto
qed

lemma desktop_steer_effect:
  assumes "desktop_steer env owner session_id message_id message cwd d = (r, d')"
  shows "starts_of d' = starts_of d \<and> length (steers_of d') = length (steers_of d) + 1 \<and>
    set (ds_inbox d') \<subseteq> set (ds_inbox d)"
  using assms unfolding desktop_steer_def
  by (auto elim!: bindS_cases simp: returnS_def dest!: desktop_request_effect found_or_effect)

lemma unanswered_unknown [simp]: "acknowledgement_is_unknown (unanswered True method a)"
  by (cases a) (simp_all add: unanswered_def)

lemma desktop_start_turn_effect:
  assumes "desktop_start_turn env owner session_id message_id message d = (r, d')"
  shows "steers_of d' = steers_of d \<and> set (ds_inbox d') \<subseteq> set (ds_inbox d) \<and>
    (\<exists>m w rid. starts_of d' = starts_of d @ [(m, w)] \<and> get_str ''requestId'' m = Some rid \<and>
      (w \<noteq> Inr () \<or> (\<exists>f. Frame f \<in> set (ds_inbox d) \<and> answers rid f) \<or>
       (\<exists>e. r = Inl e \<and> acknowledgement_is_unknown e)))"
  using assms unfolding desktop_start_turn_def
proof (cases rule: bindS_cases)
  case (error e)
  from desktop_request_effect [OF error(1)] error(2) show ?thesis by fastforce
next
  case (passed v d1)
  from passed(2) have "d' = d1"
    by (auto elim!: bindS_cases simp: returnS_def dest!: found_or_effect)
  with desktop_request_effect [OF passed(1)] show ?thesis by fastforce
qed

lemma steer_or_start_effect:
  assumes "steer_or_start env owner session_id message_id message cwd d = (r, d')"
  shows "length (starts_of d') \<le> length (starts_of d) + 1 \<and>
    length (steers_of d') \<le> length (steers_of d) + 2"
proof -
  obtain r1 d1 where steer: "desktop_steer env owner session_id message_id message cwd d = (r1, d1)"
    by (metis surj_pair)
  obtain r2 d2 where start: "desktop_start_turn env owner session_id message_id message d1 = (r2, d2)"
    by (metis surj_pair)
  obtain r3 d3 where again: "desktop_steer env owner session_id message_id message cwd d2 = (r3, d3)"
    by (metis surj_pair)
  have "d' = d1 \<or> d' = d2 \<or> d' = d3"
    using assms steer start again by (auto simp: steer_or_start_def split: sum.splits if_splits)
  with desktop_steer_effect [OF steer] desktop_start_turn_effect [OF start]
    desktop_steer_effect [OF again]
  show ?thesis by auto
qed

lemma desktop_message_starts:
  assumes "desktop_send_message env session_id message cwd d = (r, d')"
  shows "length (starts_of d') \<le> length (starts_of d) + 1 \<and>
    length (steers_of d') \<le> length (steers_of d) + 2 \<and>
    (r = Inr None \<longrightarrow> starts_of d' = starts_of d \<and> steers_of d' = steers_of d)"
  using assms unfolding desktop_send_message_def
proof (cases rule: bindS_cases)
  case (error e)
  with discover_owner_effect [OF error(1)] show ?thesis by simp
next
  case (passed found d1)
  note found = discover_owner_effect [OF passed(1)]
  show ?thesis
  proof (cases found)
    case None
    with passed(2) found show ?thesis by (simp add: returnS_def)
  next
    case (Some owner)
    with passed(2) obtain i d2 r2 where "fresh_id env d1 = (Inr i, d2)"
      and steer: "steer_or_start env owner session_id i message cwd d2 = (r2, d')"
      and r: "r \<noteq> Inr None"
      by (auto elim!: bindS_cases simp: returnS_def fresh_id_def)
    then have "same_requests d1 d2" using fresh_id_effect by blast
    with steer_or_start_effect [OF steer] found r show ?thesis
      by (simp add: same_requests_def)
  qed
qed

lemma desktop_recovery_starts:
  assumes "desktop_start_recovery env session_id message key d = (r, d')"
  shows "length (starts_of d') \<le> length (starts_of d) + 1 \<and> steers_of d' = steers_of d \<and>
    (r = Inr None \<longrightarrow> starts_of d' = starts_of d)"
  using assms unfolding desktop_start_recovery_def
proof (cases rule: bindS_cases)
  case (error e)
  with discover_owner_effect [OF error(1)] show ?thesis by simp
next
  case (passed found d1)
  note found = discover_owner_effect [OF passed(1)]
  show ?thesis
  proof (cases found)
    case None
    with passed(2) found show ?thesis by (simp add: returnS_def)
  next
    case (Some owner)
    with passed(2) obtain r2 where
      start: "desktop_start_turn env owner session_id key message d1 = (r2, d')"
      and q: "r \<noteq> Inr None"
      by (auto elim!: bindS_cases simp: returnS_def)
    from desktop_start_turn_effect [OF start] found q show ?thesis by auto
  qed
qed

text \<open>C26: A recovery whose fate is open is never reported as a failure.  When starting a
  recovery turn through Desktop fails with an error other than the one for a missing
  acknowledgement, then no start was written, or its write failed, or Desktop answered
  exactly that request; closing the connection, an unreadable frame and the end of the
  waiting time are always reported as unknown.\<close>
theorem desktop_failure_is_definite:
  assumes "desktop_start_recovery env session_id message key d = (Inl e, d')"
    and "\<not> acknowledgement_is_unknown e"
  shows "starts_of d' = starts_of d \<or>
    (\<exists>m w rid. starts_of d' = starts_of d @ [(m, w)] \<and> get_str ''requestId'' m = Some rid \<and>
      (w \<noteq> Inr () \<or> (\<exists>f. Frame f \<in> set (ds_inbox d) \<and> answers rid f)))"
  using assms(1) unfolding desktop_start_recovery_def
proof (cases rule: bindS_cases)
  case (error e')
  with discover_owner_effect [OF error(1)] show ?thesis by simp
next
  case (passed found d1)
  note found = discover_owner_effect [OF passed(1)]
  from passed(2) obtain owner where "found = Some owner"
    by (cases found) (auto simp: returnS_def)
  with passed(2) have start: "desktop_start_turn env owner session_id key message d1 = (Inl e, d')"
    by (auto elim!: bindS_cases simp: returnS_def)
  from desktop_start_turn_effect [OF start] assms(2) found show ?thesis by fastforce
qed

definition example_desktop_env :: desktop_env where
  "example_desktop_env =
     \<lparr>dv_fresh = (\<lambda>n. replicate n (CHR ''x'')), dv_write = (\<lambda>n. Inr ()), dv_now = 0\<rparr>"

definition example_answer :: "string \<Rightarrow> (string \<times> json) list \<Rightarrow> incoming" where
  "example_answer i kvs = Frame (json_object
     ([(''type'', JString ''response''), (''requestId'', JString i)] @ kvs))"

text \<open>The owner is found, and refuses to start a turn.\<close>

definition example_desktop :: desktop where
  "example_desktop =
     \<lparr>ds_client_id = ''c'', ds_ids = 0,
      ds_inbox =
        [example_answer [] [(''resultType'', JString ''success''), (''handledByClientId'', JString ''w'')],
         example_answer ''x'' [(''resultType'', JString ''error''), (''error'', JString ''busy'')]],
      ds_outbox = []\<rparr>"

lemma example_desktop_requests [simp]: "requests_of k example_desktop = []"
  by (simp add: requests_of_def example_desktop_def)

lemma json_pointer_object:
  "json_pointer (t # ts) (json_object kvs) =
     (case hm_get (rev kvs) t of None \<Rightarrow> None | Some w \<Rightarrow> json_pointer ts w)"
  using json_get_object [of t kvs] by (simp add: json_object_def)

lemmas desktop_run_simps =
  desktop_start_recovery_def discover_owner_def desktop_start_turn_def desktop_request_def
  bindS_def fresh_id_def send_frame_def Let_def read_response.simps answers_def response_result_def
  first_pointer_def found_or_def liftS_def returnS_def

theorem desktop_failure_is_definite_witness:
  "\<exists>d' m w. desktop_start_recovery example_desktop_env ''s'' ''hi'' ''k'' example_desktop =
      (Inl (Root (DesktopIpcRemoteError ''thread-follower-start-turn'' ''busy'')), d') \<and>
    starts_of d' = [(m, w)] \<and> (w \<noteq> Inr () \<or> (\<exists>f rid. Frame f \<in> set (ds_inbox example_desktop) \<and> answers rid f))"
proof -
  let ?e = "Root (DesktopIpcRemoteError ''thread-follower-start-turn'' ''busy'')"
  have "\<exists>d'. desktop_start_recovery example_desktop_env ''s'' ''hi'' ''k'' example_desktop =
      (Inl ?e, d') \<and> starts_of d' \<noteq> []"
    by (simp add: desktop_run_simps example_desktop_env_def example_desktop_def example_answer_def
        get_str_object json_pointer_object hm_get_def requests_of_def)
  then obtain d' where r: "desktop_start_recovery example_desktop_env ''s'' ''hi'' ''k'' example_desktop =
      (Inl ?e, d')" and starts: "starts_of d' \<noteq> []" by blast
  have "\<not> acknowledgement_is_unknown ?e" by simp
  from desktop_failure_is_definite [OF r this] r starts show ?thesis by auto
qed

end
