(* ===== verification/Engine_Ops.thy ===== *)
theory Engine_Ops
  imports Engine
begin

text \<open>
  The other operations of \<open>WatchEngine\<close>: the manual retry, the calls that are handed to a
  provider, and the changes of settings, targets and providers.
\<close>


section \<open>Manual retry\<close>

record manual_script =
  ms_permit_first :: permit
  ms_failure :: "failure option result"
  ms_permit_send :: permit
  ms_save_attempt :: "unit result"
  ms_resume :: "resume_receipt result"
  ms_save_outcome :: "unit result"
  ms_append :: "unit result"

definition with_state :: "runtime_state \<Rightarrow> engine \<Rightarrow> engine" where
  "with_state st en = en\<lparr>en_state := st\<rparr>"

definition manual_resume ::
    "timestamp \<Rightarrow> bool \<Rightarrow> watch_target \<Rightarrow> failure \<Rightarrow> resolved_policy \<Rightarrow> nat \<Rightarrow> string \<Rightarrow>
     manual_script \<Rightarrow> engine \<Rightarrow> resume_receipt result \<times> engine \<times> effect list" where
  "manual_resume now automatic target f p attempts prompt scr en =
     (case ms_resume scr of
        Inr receipt \<Rightarrow>
          (let st = mark_handled f ''resumed'' now
                 (begin_recovery f (rr_turn_id receipt) now automatic (en_state en));
               sent = (attempt_event now ''retry.sent'' target
                 (''started turn '' @ rr_turn_id receipt @ '' after '' @ fl_condition f)
                 f p (attempts + 1) (Some prompt))\<lparr>ev_receipt := Some receipt\<rparr>
           in (Inr receipt, with_state st en,
               [SaveState st (ms_save_outcome scr), AppendLog [sent] (ms_append scr)]))
      | Inl e \<Rightarrow>
          if acknowledgement_is_unknown e
          then
            (let st = mark_handled f ''unconfirmed'' now (en_state en);
                 unknown = attempt_event now ''retry.unconfirmed'' target
                   ''recovery may have started, but the provider acknowledgement was lost''
                   f p (attempts + 1) (Some prompt)
             in (Inl e, with_state st en,
                 [SaveState st (ms_save_outcome scr), AppendLog [unknown] (ms_append scr)]))
          else (Inl e, en, []))"

definition manual_send ::
    "chrono \<Rightarrow> string \<Rightarrow> string \<Rightarrow> timestamp \<Rightarrow> bool \<Rightarrow> u64 \<Rightarrow> watch_target \<Rightarrow> failure \<Rightarrow>
     manual_script \<Rightarrow> engine \<Rightarrow> resume_receipt result \<times> engine \<times> effect list" where
  "manual_send ch provider session_id now automatic generation target f scr en =
     (let p = policy (en_settings en) (fl_condition f)
      in if rp_action p \<noteq> Retry
         then (bail (fl_condition f @ '' is configured to skip; change the policy before retrying''),
               en, [])
         else
           (case recent_attempts ch target now
                (attempt_window_seconds (st_engine (en_settings en))) (en_state en) of
              Inl e \<Rightarrow> (Inl e, en, [])
            | Inr (attempts, st) \<Rightarrow>
                if attempts \<ge> rp_max_attempts p
                then (bail (''retry limit reached for '' @ provider @ '':'' @ session_id @ '' ('' @
                        show_nat attempts @ ''/'' @ show_nat (rp_max_attempts p) @ '')''),
                      with_state st en, [])
                else
                  (let prompt = render_prompt (rp_prompt p) f (attempts + 1) (rp_max_attempts p)
                   in if \<not> allows (ms_permit_send scr) target generation
                      then (bail ''session authorization changed before the manual retry was sent'',
                            with_state st en, [])
                      else
                        (let st' = record_attempt target now st;
                             saved = SaveState st' (ms_save_attempt scr)
                         in case ms_save_attempt scr of
                              Inl e \<Rightarrow> (Inl e, with_state st' en, [saved])
                            | Inr _ \<Rightarrow>
                                (case manual_resume now automatic target f p attempts prompt scr
                                    (with_state st' en) of
                                   (r, en', es) \<Rightarrow>
                                     (r, en', saved # Resume session_id prompt (failure_key f) # es))))))"

definition retry_now ::
    "chrono \<Rightarrow> string \<Rightarrow> string \<Rightarrow> timestamp \<Rightarrow> bool \<Rightarrow> u64 \<Rightarrow> manual_script \<Rightarrow> engine \<Rightarrow>
     resume_receipt result \<times> engine \<times> effect list" where
  "retry_now ch provider session_id now automatic generation scr en =
     (case find (\<lambda>t. wt_provider t = provider \<and> wt_session_id t = session_id) (en_targets en) of
        None \<Rightarrow> (bail (''session '' @ provider @ '':'' @ session_id @ '' is not being watched''), en, [])
      | Some target \<Rightarrow>
          if \<not> allows (ms_permit_first scr) target generation
          then (bail ''session authorization changed before the manual retry could start'', en, [])
          else if provider \<notin> en_providers en
          then (bail (''provider is unavailable: '' @ provider), en, [])
          else
            (case ms_failure scr of
               Inl e \<Rightarrow> (Inl e, en, [])
             | Inr None \<Rightarrow> (bail (''session '' @ session_id @ '' has no failed latest turn''), en, [])
             | Inr (Some f) \<Rightarrow>
                 manual_send ch provider session_id now automatic generation target f scr
                   (en\<lparr>en_unresolved := insert (provider @ '':'' @ session_id) (en_unresolved en)\<rparr>)))"

lemma with_state_simps [simp]:
  "en_state (with_state st en) = st"
  "en_settings (with_state st en) = en_settings en"
  "en_targets (with_state st en) = en_targets en"
  "en_providers (with_state st en) = en_providers en"
  by (simp_all add: with_state_def)

lemma manual_resume_result:
  "manual_resume now automatic target f p attempts prompt scr en = (r, en', es) \<Longrightarrow>
     r = ms_resume scr \<and> list_all (\<lambda>x. \<not> is_resume x) es \<and>
     (\<forall>receipt. r = Inr receipt \<longrightarrow>
        handled_action (en_state en') f = Some ''resumed'' \<and>
        hm_get (rs_pending (en_state en')) (failure_key f) =
          Some (new_recovery f (rr_turn_id receipt) now automatic)) \<and>
     (\<forall>e. r = Inl e \<and> acknowledgement_is_unknown e \<longrightarrow>
        handled_action (en_state en') f = Some ''unconfirmed'')"
  by (auto simp: manual_resume_def Let_def mark_handled_def begin_recovery_def hash.get_insert
      handled_action_def split: sum.splits if_splits)

lemma manual_send_cases:
  assumes "manual_send ch provider session_id now automatic generation target f scr en = (r, en', es)"
  defines "p \<equiv> policy (en_settings en) (fl_condition f)"
  obtains (refused) "list_all (\<lambda>x. \<not> is_resume x) es" and "\<exists>e. r = Inl e"
    | (sent) st prompt rest where
      "es = SaveState st (Inr ()) # Resume session_id prompt (failure_key f) # rest"
      and "list_all (\<lambda>x. \<not> is_resume x) rest" and "r = ms_resume scr"
      and "rp_action p = Retry" and "allows (ms_permit_send scr) target generation"
      and "attempts_of st (target_key target) \<noteq> []"
      and "last (attempts_of st (target_key target)) = now"
      and "length (attempts_of st (target_key target)) \<le> rp_max_attempts p"
      and "\<forall>receipt. r = Inr receipt \<longrightarrow> handled_action (en_state en') f = Some ''resumed'' \<and>
        hm_get (rs_pending (en_state en')) (failure_key f) =
          Some (new_recovery f (rr_turn_id receipt) now automatic)"
      and "\<forall>e. r = Inl e \<and> acknowledgement_is_unknown e \<longrightarrow>
        handled_action (en_state en') f = Some ''unconfirmed''"
proof (cases "rp_action p = Retry")
  case False
  with assms(1) show thesis
    by (intro refused) (auto simp: manual_send_def p_def [symmetric] Let_def)
next
  case retry: True
  show thesis
  proof (cases "recent_attempts ch target now
      (attempt_window_seconds (st_engine (en_settings en))) (en_state en)")
    case (Inl e)
    with retry assms(1) show thesis
      by (intro refused) (auto simp: manual_send_def p_def [symmetric] Let_def)
  next
    case (Inr a)
    obtain attempts st where a: "a = (attempts, st)" by (cases a)
    show thesis
    proof (cases "attempts < rp_max_attempts p \<and> allows (ms_permit_send scr) target generation")
      case False
      with retry assms(1) Inr a show thesis
        by (intro refused) (auto simp: manual_send_def p_def [symmetric] Let_def split: if_splits)
    next
      case ok: True
      let ?st = "record_attempt target now st"
      let ?prompt = "render_prompt (rp_prompt p) f (attempts + 1) (rp_max_attempts p)"
      show thesis
      proof (cases "ms_save_attempt scr")
        case (Inl e)
        with retry assms(1) Inr a ok show thesis
          by (intro refused) (auto simp: manual_send_def p_def [symmetric] Let_def)
      next
        case saved: (Inr u)
        obtain r1 en1 es1 where run: "manual_resume now automatic target f p attempts ?prompt scr
            (with_state ?st en) = (r1, en1, es1)" by (metis surj_pair)
        with retry assms(1) Inr a ok saved
        have "r = r1" "en' = en1"
          and es: "es = SaveState ?st (Inr ()) # Resume session_id ?prompt (failure_key f) # es1"
          by (auto simp: manual_send_def p_def [symmetric] Let_def)
        moreover have "length (attempts_of ?st (target_key target)) \<le> rp_max_attempts p"
          using recent_attempts_Inr [OF Inr [unfolded a]] ok by auto
        ultimately show thesis
          using manual_resume_result [OF run] retry ok by (intro sent [OF es]) auto
      qed
    qed
  qed
qed


text \<open>Without the permit at the moment of sending, nothing is sent, automatically or by hand.\<close>

lemma target_step_unpermitted:
  assumes "target_step ch generation now target scr pa = (r, pa')"
    and "\<not> allows (ts_permit_send scr) target generation"
  shows "\<exists>new. pa_effects pa' = pa_effects pa @ new \<and> list_all (\<lambda>x. \<not> is_resume x) new"
proof -
  from target_step_effects [OF assms(1), of "{(target, scr)}"] obtain new where
    new: "pa_effects pa' = pa_effects pa @ new"
    and guarded: "guarded (justified generation now (en_settings (pa_engine pa)) (en_dry_run (pa_engine pa))
      {(target, scr)}) new" by blast
  then have "list_all (\<lambda>x. \<not> is_resume x) new"
    using assms(2) by (auto simp: guarded_def justified_def list_all_length)
  with new show ?thesis by blast
qed

lemma retry_now_unpermitted:
  assumes "retry_now ch provider session_id now automatic generation scr en = (r, en', es)"
    and "\<And>target. wt_provider target = provider \<Longrightarrow> wt_session_id target = session_id \<Longrightarrow>
      \<not> allows (ms_permit_send scr) target generation"
  shows "list_all (\<lambda>x. \<not> is_resume x) es"
proof (cases "es = []")
  case False
  let ?en = "en\<lparr>en_unresolved := insert (provider @ '':'' @ session_id) (en_unresolved en)\<rparr>"
  from False assms(1) obtain target f where
    found: "find (\<lambda>t. wt_provider t = provider \<and> wt_session_id t = session_id) (en_targets en) = Some target"
    and send: "manual_send ch provider session_id now automatic generation target f scr ?en = (r, en', es)"
    by (auto simp: retry_now_def split: option.splits if_splits sum.splits)
  from find_Some_mem [OF found] assms(2) have "\<not> allows (ms_permit_send scr) target generation" by auto
  with send show ?thesis by (cases rule: manual_send_cases) auto
qed simp


section \<open>Calls handed to a provider\<close>

text \<open>The shape of every such call: an unavailable provider is an error, otherwise its answer.\<close>

definition provider_call :: "string \<Rightarrow> 'a result \<Rightarrow> engine \<Rightarrow> 'a result" where
  "provider_call provider answer en =
     (if provider \<in> en_providers en then answer
      else bail (''provider is unavailable: '' @ provider))"

definition engine_metrics_since :: "timestamp \<Rightarrow> engine \<Rightarrow> recovery_metrics" where
  "engine_metrics_since since en = metrics_since since (en_state en)"

definition pending_provider_names :: "engine \<Rightarrow> string set" where
  "pending_provider_names en = pr_provider ` set (pending_recoveries (en_state en))"

definition unresolved_target_keys :: "engine \<Rightarrow> string set" where
  "unresolved_target_keys en = en_unresolved en \<union> pending_target_keys (en_state en)"


section \<open>Settings, targets and providers\<close>

text \<open>The retention of the log follows the settings; \<open>closed\<close> says that providers were shut down.\<close>

definition replace_settings :: "settings \<Rightarrow> engine \<times> nat \<Rightarrow> (engine \<times> nat) \<times> bool" where
  "replace_settings s = (\<lambda>(en, retention).
     let restart = (st_providers (en_settings en) \<noteq> st_providers s);
         en' = (if restart then en\<lparr>en_providers := {}\<rparr> else en)
     in ((en'\<lparr>en_settings := s\<rparr>, log_retention (st_engine s)), restart))"

definition replace_targets :: "watch_target list \<Rightarrow> engine \<Rightarrow> engine" where
  "replace_targets targets en =
     en\<lparr>en_targets := targets,
        en_unresolved := {key \<in> en_unresolved en. key \<in> target_key ` set targets}\<rparr>"

text \<open>
  \<open>build_providers\<close> and \<open>start_providers\<close> for one name: \<open>built\<close> is the outcome of creating
  the adapter, \<open>started\<close> of starting it.
\<close>

definition build_provider :: "settings \<Rightarrow> string \<Rightarrow> unit result \<Rightarrow> unit result" where
  "build_provider s name built =
     (if name = ''codex''
      then (if codex_enabled (ps_codex (st_providers s)) then built
            else bail ''provider is disabled: codex'')
      else if name = ''claude''
      then (if claude_enabled (ps_claude (st_providers s)) then built
            else bail ''provider is disabled: claude'')
      else bail (''unknown provider: '' @ name))"

definition ensure_provider ::
    "string \<Rightarrow> unit result \<Rightarrow> unit result \<Rightarrow> engine \<Rightarrow> unit result \<times> engine" where
  "ensure_provider name built started en =
     (if name \<in> en_providers en then (Inr (), en)
      else case build_provider (en_settings en) name built of
        Inl e \<Rightarrow> (Inl e, en)
      | Inr _ \<Rightarrow>
          (case started of
             Inl e \<Rightarrow> (Inl e, en)
           | Inr _ \<Rightarrow> (Inr (), en\<lparr>en_providers := insert name (en_providers en)\<rparr>)))"

text \<open>The engine only ever holds adapters its settings enable.\<close>

definition provider_enabled :: "settings \<Rightarrow> string \<Rightarrow> bool" where
  "provider_enabled s name \<longleftrightarrow> build_provider s name (Inr ()) = Inr ()"

definition providers_inv :: "engine \<Rightarrow> bool" where
  "providers_inv en \<longleftrightarrow> (\<forall>name \<in> en_providers en. provider_enabled (en_settings en) name)"

lemma build_provider_enabled: "build_provider s name built = Inr u \<Longrightarrow> provider_enabled s name"
  by (simp add: build_provider_def provider_enabled_def split: if_splits)

lemma provider_enabled_cong:
  "st_providers s = st_providers s' \<Longrightarrow> provider_enabled s name = provider_enabled s' name"
  by (simp add: provider_enabled_def build_provider_def)

lemma ensure_provider_cases:
  assumes "ensure_provider name built started en = (r, en')"
  shows "en' = en \<or> (provider_enabled (en_settings en) name \<and>
    en' = en\<lparr>en_providers := insert name (en_providers en)\<rparr>)"
proof (cases "build_provider (en_settings en) name built")
  case (Inl e)
  with assms show ?thesis by (auto simp: ensure_provider_def split: if_splits)
next
  case (Inr u)
  then have "provider_enabled (en_settings en) name" by (rule build_provider_enabled)
  with Inr assms show ?thesis by (auto simp: ensure_provider_def split: if_splits sum.splits)
qed

lemma ensure_provider_inv [invariant_intros]:
  "providers_inv en \<Longrightarrow> ensure_provider name built started en = (r, en') \<Longrightarrow> providers_inv en'"
  by (drule ensure_provider_cases) (auto simp: providers_inv_def)

lemma replace_settings_inv [invariant_intros]:
  assumes "providers_inv en" and "replace_settings s (en, n) = ((en', n'), closed)"
  shows "providers_inv en'"
proof (cases "st_providers (en_settings en) = st_providers s")
  case True
  with assms show ?thesis
    using provider_enabled_cong [OF True] by (auto simp: providers_inv_def replace_settings_def)
next
  case False
  with assms(2) show ?thesis by (auto simp: providers_inv_def replace_settings_def)
qed

interpretation engine_providers: transactional "\<lambda>(name, built, started) en. ensure_provider name built started en"
  by unfold_locales (simp add: ensure_provider_def split: prod.splits if_splits sum.splits)


section \<open>Properties\<close>

text \<open>C5: A manual retry never hides what happened to the message.  It returns a receipt only
  if the provider gave it, after an attempt within the limit was saved, for a watched
  session that the permit covers when it is sent; then the failure is marked resumed and
  the recovery is open with the given origin.  If the provider was asked, the result is
  the provider's answer, and a lost acknowledgement marks the failure unconfirmed; any
  other error means that nothing was sent.\<close>
theorem manual_retry_is_accounted:
  assumes "retry_now ch provider session_id now automatic generation scr en = (r, en', es)"
  shows "(list_all (\<lambda>x. \<not> is_resume x) es \<and> (\<exists>e. r = Inl e)) \<or>
    (\<exists>target f st prompt rest.
       target \<in> set (en_targets en) \<and> wt_provider target = provider \<and> wt_session_id target = session_id \<and>
       ms_failure scr = Inr (Some f) \<and>
       es = SaveState st (Inr ()) # Resume session_id prompt (failure_key f) # rest \<and>
       list_all (\<lambda>x. \<not> is_resume x) rest \<and>
       allows (ms_permit_first scr) target generation \<and> allows (ms_permit_send scr) target generation \<and>
       rp_action (policy (en_settings en) (fl_condition f)) = Retry \<and>
       last (attempts_of st (target_key target)) = now \<and>
       length (attempts_of st (target_key target))
         \<le> rp_max_attempts (policy (en_settings en) (fl_condition f)) \<and>
       r = ms_resume scr \<and>
       (\<forall>receipt. r = Inr receipt \<longrightarrow> handled_action (en_state en') f = Some ''resumed'' \<and>
          hm_get (rs_pending (en_state en')) (failure_key f) =
            Some (new_recovery f (rr_turn_id receipt) now automatic)) \<and>
       (\<forall>e. r = Inl e \<and> acknowledgement_is_unknown e \<longrightarrow>
          handled_action (en_state en') f = Some ''unconfirmed''))"
proof -
  let ?watched = "\<lambda>t. wt_provider t = provider \<and> wt_session_id t = session_id"
  let ?en = "en\<lparr>en_unresolved := insert (provider @ '':'' @ session_id) (en_unresolved en)\<rparr>"
  consider (refused) "es = []" and "\<exists>e. r = Inl e"
    | (send) target f where "find ?watched (en_targets en) = Some target"
      and "allows (ms_permit_first scr) target generation" and "ms_failure scr = Inr (Some f)"
      and "manual_send ch provider session_id now automatic generation target f scr ?en = (r, en', es)"
    using assms
    by (auto simp: retry_now_def split: option.splits if_splits sum.splits)
  then show ?thesis
  proof cases
    case refused
    then show ?thesis by simp
  next
    case send
    have target: "target \<in> set (en_targets en)" "wt_provider target = provider" "wt_session_id target = session_id"
      using find_Some_mem [OF send(1)] by auto
    from send(4) show ?thesis
    proof (cases rule: manual_send_cases)
      case refused
      then show ?thesis by simp
    next
      case (sent st prompt rest)
      with target send show ?thesis by (intro disjI2) auto
    qed
  qed
qed


definition example_manual_script :: manual_script where
  "example_manual_script =
     (let p = permit_new True [example_target] 7
      in \<lparr>ms_permit_first = p, ms_failure = Inr (Some example_failure), ms_permit_send = p,
          ms_save_attempt = Inr (), ms_resume = Inr example_receipt, ms_save_outcome = Inr (),
          ms_append = Inr ()\<rparr>)"

theorem manual_retry_is_accounted_witness:
  "fst (retry_now chrono_reference ''codex'' ''a'' (100 * nanos) False 7 example_manual_script
     (example_engine example_state)) = Inr example_receipt \<and>
   handled_action (en_state (fst (snd (retry_now chrono_reference ''codex'' ''a'' (100 * nanos) False 7
     example_manual_script (example_engine example_state))))) example_failure = Some ''resumed''"
proof -
  have "minus_seconds chrono_reference (100 * nanos) 3600 = Inr (100 * nanos - 3600 * nanos)"
    by (rule minus_seconds_reference) (simp_all add: nanos_def)
  then have recent: "recent_attempts chrono_reference example_target (100 * nanos) 3600 example_state =
      Inr (0, example_state\<lparr>rs_attempts := [(target_key example_target, [])]\<rparr>)"
    by (simp add: recent_attempts_def attempts_of_def example_state_def initial_runtime_state_def
        hm_get_def hm_insert_def)
  have window: "attempt_window_seconds (st_engine default_settings) = 3600"
    by (simp add: default_settings_def default_engine_settings_def)
  have permit: "allows (permit_new True [example_target] 7) example_target 7"
    by (simp add: permit_new_def permit_update_def default_permit_def allows_def)
  have fields: "wt_provider example_target = ''codex''" "wt_session_id example_target = ''a''"
    "fl_condition example_failure = ''network.timeout''"
    by (simp_all add: example_target_def example_failure_def)
  obtain r en' es where run: "retry_now chrono_reference ''codex'' ''a'' (100 * nanos) False 7
      example_manual_script (example_engine example_state) = (r, en', es)" by (metis surj_pair)
  have "r = Inr example_receipt"
    using run permit
    by (auto simp: retry_now_def manual_send_def manual_resume_def example_manual_script_def Let_def
        example_engine_def window recent example_policy fields split: prod.splits)
  with manual_retry_is_accounted [OF run] run show ?thesis
    by (auto simp: example_manual_script_def Let_def)
qed

end
