(* ===== verification/Providers.thy ===== *)
theory Providers
  imports Engine_Ops
begin

text \<open>
  The \<open>Provider\<close> trait of \<open>providers/mod.rs\<close>: building and starting adapters, the methods
  the trait itself implements, and the loop that pages through a provider's sessions until
  it has seen everything more recent than a cutoff.  An adapter's own search is an
  argument that passes a state on, since it talks to a process or to the file system.
\<close>


section \<open>Building and starting\<close>

text \<open>\<open>built name\<close> is the outcome of creating the adapter called \<open>name\<close>.\<close>

fun build_providers ::
    "settings \<Rightarrow> (string \<Rightarrow> unit result) \<Rightarrow> string set \<Rightarrow> string list \<Rightarrow> string set result" where
  "build_providers s built providers [] = Inr providers"
| "build_providers s built providers (name # names) =
     (if name \<in> providers then build_providers s built providers names
      else bindR (build_provider s name (built name))
        (\<lambda>_. build_providers s built (insert name providers) names))"

definition start_providers :: "(string \<Rightarrow> unit result) \<Rightarrow> string list \<Rightarrow> unit result" where
  "start_providers started names = check_all started names"

lemma build_providers_enabled:
  "build_providers s built ps names = Inr qs \<Longrightarrow>
     ps \<subseteq> qs \<and> set names \<subseteq> qs \<and> (\<forall>q \<in> qs - ps. q \<in> set names \<and> provider_enabled s q)"
proof (induction s built ps names rule: build_providers.induct)
  case (2 s built ps name names)
  show ?case
  proof (cases "name \<in> ps")
    case True
    with 2 show ?thesis by auto
  next
    case False
    with 2(3) obtain u where built: "build_provider s name (built name) = Inr u"
      and rest: "build_providers s built (insert name ps) names = Inr qs"
      by (auto simp: bindR_Inr_iff)
    from 2(2) [OF False rest] build_provider_enabled [OF built] show ?thesis by auto
  qed
qed simp


section \<open>The methods of the trait\<close>

record search_page =
  sp_sessions :: "session list"
  sp_next_cursor :: "string option"

definition default_validate_session ::
    "(string \<Rightarrow> nat \<Rightarrow> session_log list result) \<Rightarrow> string \<Rightarrow> unit result" where
  "default_validate_session session_logs session_id =
     bindR (session_logs session_id 1) (\<lambda>_. Inr ())"

definition default_turn_outcome :: "string \<Rightarrow> string \<Rightarrow> turn_outcome result" where
  "default_turn_outcome session_id turn_id = Inr TurnUnknown"

definition default_interrupt :: "string \<Rightarrow> string \<Rightarrow> interrupt_receipt result" where
  "default_interrupt name session_id = bail (name @ '' does not support interrupting sessions'')"

definition default_send_message ::
    "(string \<Rightarrow> string \<Rightarrow> string \<Rightarrow> resume_receipt result) \<Rightarrow> string \<Rightarrow> string \<Rightarrow> string \<Rightarrow>
     message_receipt result" where
  "default_send_message resume fresh session_id message =
     bindR (resume session_id message fresh) (\<lambda>receipt. Inr
       \<lparr>mr_provider = rr_provider receipt, mr_session_id = rr_session_id receipt,
        mr_turn_id = rr_turn_id receipt, mr_delivery = Started,
        mr_transport = rr_transport receipt\<rparr>)"

definition older_than :: "timestamp \<Rightarrow> session \<Rightarrow> bool" where
  "older_than cutoff s = (case se_updated_at s of None \<Rightarrow> False | Some t \<Rightarrow> t < cutoff)"

text \<open>The loop has no bound of its own: a provider that keeps inventing cursors keeps it busy.\<close>

partial_function (option) recent_loop ::
    "string \<Rightarrow> (string option \<Rightarrow> 's \<Rightarrow> search_page result \<times> 's) \<Rightarrow> timestamp \<Rightarrow>
     session list \<Rightarrow> string option \<Rightarrow> string set \<Rightarrow> 's \<Rightarrow> (session list result \<times> 's) option" where
  "recent_loop name search cutoff sessions cursor seen s =
     (case search cursor s of
        (Inl e, s') \<Rightarrow> Some (Inl e, s')
      | (Inr page, s') \<Rightarrow>
          if list_ex (older_than cutoff) (sp_sessions page)
          then Some (Inr (sessions @ sp_sessions page), s')
          else (case sp_next_cursor page of
             None \<Rightarrow> Some (Inr (sessions @ sp_sessions page), s')
           | Some cursor' \<Rightarrow>
               if cursor' \<in> seen
               then Some (bail (name @ '' repeated a discovery cursor''), s')
               else recent_loop name search cutoff (sessions @ sp_sessions page) (Some cursor')
                 (insert cursor' seen) s'))"

definition default_recent_sessions ::
    "string \<Rightarrow> (string \<Rightarrow> string option \<Rightarrow> nat \<Rightarrow> 's \<Rightarrow> search_page result \<times> 's) \<Rightarrow> timestamp \<Rightarrow>
     's \<Rightarrow> (session list result \<times> 's) option" where
  "default_recent_sessions name search cutoff =
     recent_loop name (\<lambda>cursor. search [] cursor 500) cutoff [] None {}"

text \<open>With finitely many cursors the loop ends, whatever else the provider does.\<close>

lemma recent_loop_terminates:
  assumes "finite C"
    and cursors: "\<And>cursor s page s' c. search cursor s = (Inr page, s') \<Longrightarrow>
      sp_next_cursor page = Some c \<Longrightarrow> c \<in> C"
    and "seen \<subseteq> C"
  shows "\<exists>r. recent_loop name search cutoff sessions cursor seen s = Some r"
  using assms(3)
proof (induction "card (C - seen)" arbitrary: sessions cursor seen s rule: less_induct)
  case less
  obtain r s' where srch: "search cursor s = (r, s')" by (metis surj_pair)
  show ?case
  proof (cases r)
    case (Inl e)
    with srch show ?thesis by (subst recent_loop.simps) simp
  next
    case (Inr page)
    show ?thesis
    proof (cases "sp_next_cursor page")
      case None
      with srch Inr show ?thesis by (subst recent_loop.simps) simp
    next
      case (Some c)
      from cursors [OF srch [unfolded Inr] Some] have c: "c \<in> C" .
      show ?thesis
      proof (cases "c \<in> seen")
        case True
        with srch Inr Some show ?thesis by (subst recent_loop.simps) simp
      next
        case False
        have "card (C - insert c seen) < card (C - seen)"
          using assms(1) c False by (intro psubset_card_mono) auto
        from less(1) [OF this, of "sessions @ sp_sessions page" "Some c" s'] less(2) c
        obtain r' where "recent_loop name search cutoff (sessions @ sp_sessions page) (Some c)
            (insert c seen) s' = Some r'" by auto
        with srch Inr Some False show ?thesis by (subst recent_loop.simps) simp
      qed
    qed
  qed
qed


section \<open>Catalogues behind cursors\<close>

text \<open>
  What the loop asks of a search: while the provider's sessions do not change, a cursor
  stands for a place in their list, a page is what matches in the stretch from there, and
  the next cursor stands for a later place, or there is none once the end is reached.
\<close>

locale cursor_catalogue =
  fixes search :: "string option \<Rightarrow> 's \<Rightarrow> search_page result \<times> 's"
    and steady :: "'s \<Rightarrow> bool"
    and catalogue :: "session list"
    and hit :: "session \<Rightarrow> bool"
    and place :: "string option \<Rightarrow> nat option"
  assumes first_place: "place None = Some 0"
    and page: "steady s \<Longrightarrow> place cursor = Some i \<Longrightarrow>
      \<exists>found s' j. search cursor s = (Inr found, s') \<and> steady s' \<and>
        sp_sessions found = filter hit (take (j - i) (drop i catalogue)) \<and>
        (case sp_next_cursor found of
           None \<Rightarrow> length catalogue \<le> j
         | Some c \<Rightarrow> i < j \<and> j < length catalogue \<and> place (Some c) = Some j)"
begin

lemma stretch:
  "i \<le> j \<Longrightarrow> take i xs @ take (j - i) (drop i xs) = take j xs"
  by (metis le_add_diff_inverse take_add)

lemma loop_prefix:
  assumes "steady s" and "place cursor = Some i" and "i \<le> length catalogue"
    and "\<forall>c \<in> seen. \<exists>j \<le> i. place (Some c) = Some j"
  shows "\<exists>k s'. recent_loop name search cutoff (filter hit (take i catalogue)) cursor seen s =
      Some (Inr (filter hit (take k catalogue)), s') \<and> steady s' \<and>
    (length catalogue \<le> k \<or> list_ex (older_than cutoff) (filter hit (take k catalogue)))"
  using assms
proof (induction "length catalogue - i" arbitrary: i cursor seen s rule: less_induct)
  case less
  from page [OF less(2,3)] obtain found s' j where
    srch: "search cursor s = (Inr found, s')" and steady': "steady s'"
    and got: "sp_sessions found = filter hit (take (j - i) (drop i catalogue))"
    and more: "case sp_next_cursor found of None \<Rightarrow> length catalogue \<le> j
      | Some c \<Rightarrow> i < j \<and> j < length catalogue \<and> place (Some c) = Some j" by blast
  from more less(4) have le: "i \<le> j" by (auto split: option.splits)
  have acc: "filter hit (take i catalogue) @ sp_sessions found = filter hit (take j catalogue)"
    unfolding got filter_append [symmetric] stretch [OF le] ..
  show ?case
  proof (cases "list_ex (older_than cutoff) (sp_sessions found)")
    case True
    with srch acc have "recent_loop name search cutoff (filter hit (take i catalogue)) cursor seen s =
        Some (Inr (filter hit (take j catalogue)), s')"
      by (subst recent_loop.simps) simp
    moreover have "list_ex (older_than cutoff) (filter hit (take j catalogue))"
      using True unfolding acc [symmetric] by simp
    ultimately show ?thesis using steady' by blast
  next
    case old: False
    show ?thesis
    proof (cases "sp_next_cursor found")
      case None
      with srch acc old have "recent_loop name search cutoff (filter hit (take i catalogue)) cursor seen s =
          Some (Inr (filter hit (take j catalogue)), s')"
        by (subst recent_loop.simps) simp
      moreover have "length catalogue \<le> j" using None more by simp
      ultimately show ?thesis using steady' by blast
    next
      case (Some c)
      with more have c: "i < j" "j < length catalogue" "place (Some c) = Some j" by simp_all
      have "c \<notin> seen" using less(5) c(1,3) by force
      with srch acc old Some have "recent_loop name search cutoff (filter hit (take i catalogue)) cursor seen s =
          recent_loop name search cutoff (filter hit (take j catalogue)) (Some c) (insert c seen) s'"
        by (subst recent_loop.simps) simp
      moreover have "\<forall>c' \<in> insert c seen. \<exists>j' \<le> j. place (Some c') = Some j'"
        using less(5) c by force
      ultimately show ?thesis
        using less(1) [OF _ steady' c(3), of "insert c seen"] c by simp
    qed
  qed
qed

text \<open>
  Discovery returns a prefix of what matches, and stops before the end only behind a
  session that is older than the cutoff.
\<close>

lemma discovery_prefix:
  assumes "steady s"
  shows "\<exists>k s'. recent_loop name search cutoff [] None {} s =
      Some (Inr (filter hit (take k catalogue)), s') \<and> steady s' \<and>
    (length catalogue \<le> k \<or> list_ex (older_than cutoff) (filter hit (take k catalogue)))"
  using loop_prefix [OF assms first_place] by simp

text \<open>In a list that is sorted newest first nothing that is recent is missed.\<close>

lemma discovery_complete:
  assumes "steady s" and "sorted_wrt (\<lambda>a b. opt_max (se_updated_at a) (se_updated_at b) = se_updated_at a) catalogue"
  shows "\<exists>found s'. recent_loop name search cutoff [] None {} s = Some (Inr found, s') \<and>
    set found \<subseteq> {x \<in> set catalogue. hit x} \<and>
    (\<forall>x \<in> set catalogue. hit x \<longrightarrow> (\<exists>t. se_updated_at x = Some t \<and> cutoff \<le> t) \<longrightarrow> x \<in> set found)"
proof -
  obtain k s' where loop: "recent_loop name search cutoff [] None {} s =
      Some (Inr (filter hit (take k catalogue)), s')"
    and stop: "length catalogue \<le> k \<or> list_ex (older_than cutoff) (filter hit (take k catalogue))"
    using discovery_prefix [OF assms(1)] by blast
  have "x \<in> set (filter hit (take k catalogue))"
    if x: "x \<in> set catalogue" "hit x" "se_updated_at x = Some t" "cutoff \<le> t" for x t
  proof (rule ccontr)
    assume missed: "x \<notin> set (filter hit (take k catalogue))"
    have "x \<in> set (take k catalogue) \<union> set (drop k catalogue)"
      using x(1) by (metis append_take_drop_id set_append)
    with missed x(2) have "x \<in> set (drop k catalogue)" by simp
    moreover have "\<not> length catalogue \<le> k" using missed x(1,2) by auto
    then obtain y where y: "y \<in> set (take k catalogue)" "older_than cutoff y"
      using stop by (auto simp: list_ex_iff)
    moreover have "sorted_wrt (\<lambda>a b. opt_max (se_updated_at a) (se_updated_at b) = se_updated_at a)
        (take k catalogue @ drop k catalogue)"
      using assms(2) by simp
    ultimately have "opt_max (se_updated_at y) (se_updated_at x) = se_updated_at y"
      by (auto simp: sorted_wrt_append simp del: append_take_drop_id)
    with y(2) x(3,4) show False by (auto simp: older_than_def split: option.splits)
  qed
  with loop show ?thesis by (auto dest: in_set_takeD)
qed

end

end
