(* ===== verification/Classification.thy ===== *)
theory Classification
  imports Conditions
begin

text \<open>
  How the two adapters name a failure: \<open>classify_codex_error\<close> of \<open>providers/codex.rs\<close> on the
  App Server's structured errors, and \<open>classify_claude_error\<close> and \<open>classify_claude_hook\<close> of
  \<open>providers/claude.rs\<close> on the payload of Claude's \<open>StopFailure\<close> hook.
\<close>

record classified_error =
  ce_condition :: string
  ce_provider_code :: string
  ce_retry_after_seconds :: "u64 option"
  ce_scope :: "string option"


section \<open>Codex\<close>

definition canonical_error_code :: "string \<Rightarrow> string" where
  "canonical_error_code code =
     (if code = ''httpConnectionFailed'' then ''HttpConnectionFailed''
      else if code = ''responseStreamConnectionFailed'' then ''ResponseStreamConnectionFailed''
      else if code = ''responseStreamDisconnected'' then ''ResponseStreamDisconnected''
      else if code = ''responseTooManyFailedAttempts'' then ''ResponseTooManyFailedAttempts''
      else if code = ''contextWindowExceeded'' then ''ContextWindowExceeded''
      else if code = ''usageLimitExceeded'' then ''UsageLimitExceeded''
      else if code = ''badRequest'' then ''BadRequest''
      else if code = ''unauthorized'' then ''Unauthorized''
      else if code = ''sandboxError'' then ''SandboxError''
      else if code = ''internalServerError'' then ''InternalServerError''
      else ''Other'')"

fun codex_error_code :: "json option \<Rightarrow> string" where
  "codex_error_code (Some (JString code)) = canonical_error_code code"
| "codex_error_code (Some (JObject m)) =
     (case filter (\<lambda>k. k \<noteq> ''Other'') (map canonical_error_code (hm_keys m)) of
        [known] \<Rightarrow> known
      | _ \<Rightarrow> ''Other'')"
| "codex_error_code _ = ''Other''"

definition nested_status :: "json \<Rightarrow> u64 option" where
  "nested_status nested =
     (case as_object nested of
        None \<Rightarrow> None
      | Some m \<Rightarrow> Option.bind (hm_get m ''httpStatusCode'') as_u64)"

fun http_status :: "json option \<Rightarrow> u64 option" where
  "http_status None = None"
| "http_status (Some v) =
     (case as_object v of
        None \<Rightarrow> None
      | Some m \<Rightarrow>
          (case Option.bind (hm_get m ''httpStatusCode'') as_u64 of
             Some status \<Rightarrow> Some status
           | None \<Rightarrow> find_map nested_status (hm_values m)))"

definition retry_after :: "json \<Rightarrow> u64 option" where
  "retry_after error =
     (case Option.bind (json_pointer [''additionalDetails'', ''retryAfterSeconds''] error) as_u64 of
        Some n \<Rightarrow> Some n
      | None \<Rightarrow>
          Option.bind (json_pointer [''codexErrorInfo'', ''retryAfterSeconds''] error) as_u64)"

definition http_condition :: "u64 option \<Rightarrow> string \<times> string option" where
  "http_condition status =
     (case status of
        None \<Rightarrow> (''network.connection_failed'', None)
      | Some n \<Rightarrow>
          if n = 408 then (''network.timeout'', None)
          else if n = 409 \<or> n = 425 then (''service.conflict'', None)
          else if n = 429 then (''capacity.rate_limited'', None)
          else if n = 529 then (''capacity.service_overloaded'', Some ''service'')
          else if n = 401 \<or> n = 403 then (''auth.invalid'', None)
          else if n = 413 then (''request.too_large'', None)
          else if 400 \<le> n \<and> n < 500 then (''request.invalid'', None)
          else if 500 \<le> n then (''service.server_error'', None)
          else (''network.connection_failed'', None))"

definition codex_condition :: "string \<Rightarrow> u64 option \<Rightarrow> string \<times> string option" where
  "codex_condition code status =
     (if code = ''ContextWindowExceeded'' then (''context.window_exceeded'', None)
      else if code = ''UsageLimitExceeded'' then (''quota.usage_exhausted'', None)
      else if code = ''HttpConnectionFailed'' then http_condition status
      else if code = ''ResponseStreamConnectionFailed'' \<or> code = ''ResponseStreamDisconnected''
      then (''network.stream_failed'', None)
      else if code = ''ResponseTooManyFailedAttempts'' then (''retry.provider_exhausted'', None)
      else if code = ''BadRequest'' then (''request.invalid'', None)
      else if code = ''Unauthorized'' then (''auth.invalid'', None)
      else if code = ''SandboxError'' then (''sandbox.failed'', None)
      else if code = ''InternalServerError'' then (''service.server_error'', None)
      else (''failure.unknown'', None))"

definition classify_codex_error :: "json \<Rightarrow> classified_error" where
  "classify_codex_error error =
     (let code = codex_error_code (json_get ''codexErrorInfo'' error);
          status = http_status (json_get ''codexErrorInfo'' error)
      in case codex_condition code status of
           (condition, scope) \<Rightarrow>
             \<lparr>ce_condition = condition, ce_provider_code = code,
              ce_retry_after_seconds = retry_after error, ce_scope = scope\<rparr>)"


section \<open>Claude\<close>

definition claude_condition :: "string \<Rightarrow> string option \<Rightarrow> string" where
  "claude_condition error detail =
     (if error = ''overloaded'' \<and> detail = Some ''model_overloaded''
      then ''capacity.model_overloaded''
      else if error = ''overloaded'' then ''capacity.service_overloaded''
      else if error = ''rate_limit'' \<and> detail = Some ''server_throttled''
      then ''capacity.server_throttled''
      else if error = ''rate_limit'' \<and> detail = Some ''usage_limit'' then ''quota.usage_exhausted''
      else if error = ''rate_limit'' then ''capacity.rate_limited''
      else if error = ''authentication_failed'' then ''auth.invalid''
      else if error = ''oauth_org_not_allowed'' then ''capability.access_denied''
      else if error = ''billing_error'' then ''billing.required''
      else if error = ''invalid_request'' \<and> detail = Some ''feature_unsupported''
      then ''capability.feature_unsupported''
      else if error = ''invalid_request'' then ''request.invalid''
      else if error = ''model_not_found'' \<and> detail = Some ''access_denied''
      then ''capability.access_denied''
      else if error = ''model_not_found'' then ''capability.model_unavailable''
      else if error = ''server_error'' then ''service.server_error''
      else if error = ''max_output_tokens'' then ''context.output_limit''
      else ''failure.unknown'')"

text \<open>\<open>get(k).or_else(|| get(l))\<close>: the second key is looked at only when the first is absent.\<close>

definition get_either :: "string \<Rightarrow> string \<Rightarrow> json \<Rightarrow> json option" where
  "get_either k l v = (case json_get k v of Some w \<Rightarrow> Some w | None \<Rightarrow> json_get l v)"

definition classify_claude_error :: "string \<Rightarrow> json option \<Rightarrow> classified_error" where
  "classify_claude_error error details =
     (let detail = Option.bind (Option.bind details (get_either ''type'' ''code'')) as_str;
          condition = claude_condition error detail
      in \<lparr>ce_condition = condition, ce_provider_code = error,
          ce_retry_after_seconds = Option.bind
            (Option.bind details (get_either ''retry_after_seconds'' ''retryAfterSeconds'')) as_u64,
          ce_scope =
            (if condition = ''capacity.model_overloaded'' then Some ''model''
             else if condition = ''capacity.service_overloaded'' then Some ''service''
             else None)\<rparr>)"

definition classify_claude_hook :: "json \<Rightarrow> classified_error" where
  "classify_claude_hook payload =
     (let error = unwrap_or (get_str ''error'' payload) ''unknown'';
          details = json_get ''error_details'' payload;
          c0 = classify_claude_error error details;
          c1 = (if error = ''overloaded'' \<and> get_str ''model'' payload \<noteq> None
                then c0\<lparr>ce_condition := ''capacity.model_overloaded'', ce_scope := Some ''model''\<rparr>
                else c0)
      in if (case details of Some d \<Rightarrow> is_jstring d | None \<Rightarrow> False)
         then c1\<lparr>ce_retry_after_seconds := None\<rparr> else c1)"


section \<open>Every failure is classified into the table\<close>

definition canonical_codes :: "string list" where
  "canonical_codes =
     [''HttpConnectionFailed'', ''ResponseStreamConnectionFailed'', ''ResponseStreamDisconnected'',
      ''ResponseTooManyFailedAttempts'', ''ContextWindowExceeded'', ''UsageLimitExceeded'',
      ''BadRequest'', ''Unauthorized'', ''SandboxError'', ''InternalServerError'', ''Other'']"

lemma canonical_error_code_canonical: "canonical_error_code code \<in> set canonical_codes"
  by (simp add: canonical_error_code_def canonical_codes_def)

lemma codex_error_code_canonical: "codex_error_code v \<in> set canonical_codes"
proof (induction v rule: codex_error_code.induct)
  case (2 m)
  let ?ks = "filter (\<lambda>k. k \<noteq> ''Other'') (map canonical_error_code (hm_keys m))"
  have ks: "x \<in> set canonical_codes" if "x \<in> set ?ks" for x
    using that canonical_error_code_canonical by auto
  have other: "''Other'' \<in> set canonical_codes"
    by (simp add: canonical_codes_def)
  show ?case
  proof (cases ?ks)
    case Nil
    with other show ?thesis by simp
  next
    case (Cons k rest)
    with ks [of k] other show ?thesis by (cases rest) simp_all
  qed
qed (simp_all add: canonical_error_code_canonical, simp_all add: canonical_codes_def)

lemma http_condition_known: "is_known (fst (http_condition status))"
  by (cases status) (simp_all add: http_condition_def is_known_names)

lemma codex_condition_known: "is_known (fst (codex_condition code status))"
  by (simp add: codex_condition_def http_condition_known) (simp add: is_known_names)

lemma claude_condition_known: "is_known (claude_condition error detail)"
  by (simp add: claude_condition_def is_known_names)

lemma classify_codex_condition:
  "ce_condition (classify_codex_error error) =
     fst (codex_condition (codex_error_code (json_get ''codexErrorInfo'' error))
       (http_status (json_get ''codexErrorInfo'' error)))"
  by (simp add: classify_codex_error_def Let_def split: prod.splits)

lemma classify_codex_code:
  "ce_provider_code (classify_codex_error error) = codex_error_code (json_get ''codexErrorInfo'' error)"
  by (simp add: classify_codex_error_def Let_def split: prod.splits)

lemma classify_claude_known: "is_known (ce_condition (classify_claude_error error details))"
  by (simp add: classify_claude_error_def Let_def claude_condition_known)

lemma classify_hook_known: "is_known (ce_condition (classify_claude_hook payload))"
  by (simp add: classify_claude_hook_def Let_def classify_claude_known)
    (simp add: is_known_names)

text \<open>
  A scope is given exactly to the two kinds of overload, whichever adapter names them.
\<close>

definition scope_of_condition :: "string \<Rightarrow> string option" where
  "scope_of_condition condition =
     (if condition = ''capacity.model_overloaded'' then Some ''model''
      else if condition = ''capacity.service_overloaded'' then Some ''service'' else None)"

lemma codex_condition_scope:
  "snd (codex_condition code status) = scope_of_condition (fst (codex_condition code status))"
  by (cases status) (simp_all add: codex_condition_def http_condition_def scope_of_condition_def)

lemma classify_hook_scope:
  "ce_scope (classify_claude_hook payload) =
     scope_of_condition (ce_condition (classify_claude_hook payload))"
  by (simp add: classify_claude_hook_def classify_claude_error_def Let_def scope_of_condition_def)

text \<open>C21: The classification is well typed.  Whatever JSON an adapter is handed, the condition
  it reports is one of the table of conditions, so that it has a policy; Codex's provider
  code is one of the eleven canonical codes; and a scope is reported exactly for the
  overload conditions, the one that belongs to the condition.\<close>
theorem classification_well_typed:
  "is_known (ce_condition (classify_codex_error error)) \<and>
   ce_provider_code (classify_codex_error error) \<in> set canonical_codes \<and>
   ce_scope (classify_codex_error error) =
     scope_of_condition (ce_condition (classify_codex_error error)) \<and>
   is_known (ce_condition (classify_claude_hook payload)) \<and>
   ce_scope (classify_claude_hook payload) =
     scope_of_condition (ce_condition (classify_claude_hook payload))"
proof -
  have "ce_scope (classify_codex_error error) =
      snd (codex_condition (codex_error_code (json_get ''codexErrorInfo'' error))
        (http_status (json_get ''codexErrorInfo'' error)))"
    by (simp add: classify_codex_error_def Let_def split: prod.splits)
  then show ?thesis
    by (simp add: classify_codex_condition classify_codex_code codex_condition_known
        codex_error_code_canonical codex_condition_scope classify_hook_known classify_hook_scope)
qed

end
