(* ===== verification/Codex.thy ===== *)
theory Codex
  imports Desktop_Ipc Providers Classification
begin

text \<open>
  The Codex adapter (\<open>CodexProvider\<close> of \<open>providers/codex.rs\<close>).  It talks to the App Server
  through a JSON-RPC client and, where it runs, to the Desktop application; both are given
  as operations on a state of their own, so that the adapter can be put on top of any
  behaviour of theirs.  The serialisation of cursors, the parsers of time stamps and the
  working directory are parameters.
\<close>


section \<open>The adapter's surroundings\<close>

text \<open>
  The client's calls carry whether an effect may have started when no answer comes; the
  Desktop application answers \<open>None\<close> when it does not take a request.
\<close>

record 's world =
  wd_start :: "(unit, 's) step"
  wd_is_running :: "(bool, 's) step"
  wd_close :: "(unit, 's) step"
  wd_notify :: "string \<Rightarrow> json \<Rightarrow> (unit, 's) step"
  wd_request :: "bool \<Rightarrow> string \<Rightarrow> json \<Rightarrow> (json, 's) step"
  wd_connect :: "(bool, 's) step"
  wd_start_recovery :: "string \<Rightarrow> string \<Rightarrow> string \<Rightarrow> (string option, 's) step"
  wd_send_message :: "string \<Rightarrow> string \<Rightarrow> string \<Rightarrow> (delivery option, 's) step"
  wd_interrupt :: "string \<Rightarrow> string \<Rightarrow> (string option, 's) step"

record codex_env =
  xe_unix :: "int \<Rightarrow> timestamp option"
  xe_rfc3339 :: "string \<Rightarrow> timestamp option"
  xe_show_cursor :: "string \<times> string option \<Rightarrow> string"
  xe_read_cursor :: "string \<Rightarrow> (string \<times> string option) result"
  xe_cwd :: string
  xe_version :: string

record 's codex =
  cx_started :: bool
  cx_world :: 's

definition on_world :: "('a, 's) step \<Rightarrow> ('a, 's codex) step" where
  "on_world f c = (case f (cx_world c) of (r, s) \<Rightarrow> (r, c\<lparr>cx_world := s\<rparr>))"

definition plain_request :: "'s world \<Rightarrow> string \<Rightarrow> json \<Rightarrow> (json, 's codex) step" where
  "plain_request w method params = on_world (wd_request w False method params)"


section \<open>Starting\<close>

definition initialize_params :: "codex_env \<Rightarrow> json" where
  "initialize_params env = json_object
     [(''clientInfo'', json_object
        [(''name'', JString ''watchcat''), (''title'', JString ''Watchcat''),
         (''version'', JString (xe_version env))]),
      (''capabilities'', json_object [(''experimentalApi'', JBool True)])]"

definition set_started :: "bool \<Rightarrow> (unit, 's codex) step" where
  "set_started b c = (Inr (), c\<lparr>cx_started := b\<rparr>)"

definition codex_start :: "'s world \<Rightarrow> codex_env \<Rightarrow> (unit, 's codex) step" where
  "codex_start w env c =
     (if cx_started c then (Inr (), c)
      else bindS (on_world (wd_start w)) (\<lambda>_.
           bindS (with_contextS ''cannot initialize Codex App Server''
             (plain_request w ''initialize'' (initialize_params env))) (\<lambda>_.
           bindS (on_world (wd_notify w ''initialized'' (json_object []))) (\<lambda>_.
             set_started True))) c)"

definition ensure_started :: "'s world \<Rightarrow> codex_env \<Rightarrow> (unit, 's codex) step" where
  "ensure_started w env c =
     (if cx_started c
      then bindS (on_world (wd_is_running w))
        (\<lambda>running. if running then returnS ()
           else bindS (set_started False) (\<lambda>_. codex_start w env)) c
      else bindS (set_started False) (\<lambda>_. codex_start w env) c)"

definition codex_close :: "'s world \<Rightarrow> (unit, 's codex) step" where
  "codex_close w c =
     (if \<not> cx_started c then (Inr (), c)
      else bindS (on_world (wd_close w)) (\<lambda>_. set_started False) c)"


section \<open>Sessions\<close>

definition source_kinds :: "string list" where
  "source_kinds = [''cli'', ''vscode'', ''exec'', ''appServer'', ''unknown'']"

definition max_search_pages :: nat where
  "max_search_pages = 5"

definition thread_list_params :: "string option \<Rightarrow> nat \<Rightarrow> json" where
  "thread_list_params cursor limit = json_object
     [(''cursor'', json_opt JString cursor), (''limit'', json_nat limit),
      (''sortKey'', JString ''updated_at''), (''sortDirection'', JString ''desc''),
      (''sourceKinds'', JArray (map JString source_kinds))]"

fun parse_timestamp :: "codex_env \<Rightarrow> json option \<Rightarrow> timestamp option" where
  "parse_timestamp env (Some (JNumber n)) = Option.bind (as_i64 (JNumber n)) (xe_unix env)"
| "parse_timestamp env (Some (JString s)) = xe_rfc3339 env s"
| "parse_timestamp env _ = None"

text \<open>\<open>chars().take(n)\<close> on the bytes of a string: continuation bytes belong to their character.\<close>

definition continuation_byte :: "char \<Rightarrow> bool" where
  "continuation_byte c \<longleftrightarrow> 128 \<le> byte c \<and> byte c < 192"

fun take_chars :: "nat \<Rightarrow> string \<Rightarrow> string" where
  "take_chars n [] = []"
| "take_chars n (c # s) =
     (if continuation_byte c then c # take_chars n s
      else case n of 0 \<Rightarrow> [] | Suc m \<Rightarrow> c # take_chars m s)"

definition session_title :: "string \<Rightarrow> json \<Rightarrow> string" where
  "session_title i raw =
     (case Option.bind (get_str ''name'' raw) (\<lambda>n. if blank n then None else Some n) of
        Some name \<Rightarrow> name
      | None \<Rightarrow>
          (case get_str ''preview'' raw of
             Some preview \<Rightarrow> take_chars 80 (replace_text [newline] '' '' preview)
           | None \<Rightarrow> i))"

definition session_state_of :: "string option \<Rightarrow> session_state" where
  "session_state_of status =
     (if status = Some ''active'' then SessionActive
      else if status = Some ''idle'' \<or> status = Some ''notLoaded'' then SessionIdle
      else if status = Some ''systemError'' then SessionFailed
      else SessionUnknown)"

definition parse_session :: "codex_env \<Rightarrow> json \<Rightarrow> session result" where
  "parse_session env raw =
     bindR (ok_or (Root (Message ''Codex thread/list returned a session without an id''))
       (get_str ''id'' raw)) (\<lambda>i. Inr
       \<lparr>se_provider = ''codex'', se_id = i, se_title = session_title i raw,
        se_state = session_state_of (pointer_str [''status'', ''type''] raw),
        se_updated_at = parse_timestamp env (json_get ''updatedAt'' raw),
        se_metadata = json_object
          [(''path'', unwrap_or (json_get ''path'' raw) JNull),
           (''is_pinned'', JBool (unwrap_or (Option.bind (json_get ''isPinned'' raw) as_bool) False)),
           (''source'', unwrap_or (json_get ''source'' raw) JNull)]\<rparr>)"

fun parse_sessions :: "codex_env \<Rightarrow> json list \<Rightarrow> session list result" where
  "parse_sessions env [] = Inr []"
| "parse_sessions env (raw # raws) =
     bindR (parse_session env raw) (\<lambda>s. bindR (parse_sessions env raws) (\<lambda>ss. Inr (s # ss)))"

lemma parse_sessions_length: "parse_sessions env raws = Inr ss \<Longrightarrow> length ss = length raws"
  by (induction raws arbitrary: ss) (auto simp: bindR_Inr_iff)

lemma parse_sessions_grow: "parse_sessions env raws = Inr ss \<Longrightarrow> raws \<noteq> [] \<Longrightarrow> 0 < length ss"
  using parse_sessions_length [of env raws ss] by auto

definition page_data :: "json \<Rightarrow> json list result" where
  "page_data page =
     ok_or (Root (Message ''Codex thread/list returned invalid data'')) (get_array ''data'' page)"

function list_loop ::
    "'s world \<Rightarrow> codex_env \<Rightarrow> nat \<Rightarrow> session list \<Rightarrow> string option \<Rightarrow> (session list, 's) step" where
  "list_loop w env limit sessions cursor s =
     (if limit \<le> length sessions then (Inr sessions, s)
      else case wd_request w False ''thread/list''
          (thread_list_params cursor (min 100 (limit - length sessions))) s of
        (Inl e, s') \<Rightarrow> (Inl e, s')
      | (Inr page, s') \<Rightarrow>
          (case page_data page of
             Inl e \<Rightarrow> (Inl e, s')
           | Inr raws \<Rightarrow>
               if raws = [] then (Inr sessions, s')
               else (case parse_sessions env raws of
                  Inl e \<Rightarrow> (Inl e, s')
                | Inr found \<Rightarrow>
                    (case get_str ''nextCursor'' page of
                       None \<Rightarrow> (Inr (sessions @ found), s')
                     | Some c \<Rightarrow> list_loop w env limit (sessions @ found) (Some c) s'))))"
  by pat_completeness auto
termination
  by (relation "measure (\<lambda>(w, env, limit, sessions, cursor, s). limit - length sessions)")
    (auto dest!: parse_sessions_grow simp: diff_less_mono2)

declare list_loop.simps [simp del]

definition codex_list_sessions :: "'s world \<Rightarrow> codex_env \<Rightarrow> nat \<Rightarrow> (session list, 's codex) step" where
  "codex_list_sessions w env limit =
     bindS (ensure_started w env) (\<lambda>_.
     bindS (on_world (list_loop w env limit [] None)) (\<lambda>sessions.
       returnS (take limit sessions)))"

definition codex_hit :: "string \<Rightarrow> session \<Rightarrow> bool" where
  "codex_hit needle s \<longleftrightarrow>
     needle = [] \<or> contains_text needle (to_ascii_lowercase (se_title s)) \<or>
     contains_text needle (to_ascii_lowercase (se_id s))"

definition search_end :: "codex_env \<Rightarrow> string \<Rightarrow> session list \<Rightarrow> string option \<Rightarrow> search_page" where
  "search_end env query sessions cursor =
     \<lparr>sp_sessions = sessions,
      sp_next_cursor = map_option (\<lambda>c. xe_show_cursor env (query, Some c)) cursor\<rparr>"

text \<open>The first number counts the pages that may still be asked for.\<close>

fun search_loop ::
    "nat \<Rightarrow> 's world \<Rightarrow> codex_env \<Rightarrow> string \<Rightarrow> nat \<Rightarrow> session list \<Rightarrow> string option \<Rightarrow>
     (search_page, 's) step" where
  "search_loop 0 w env query limit sessions cursor s =
     (Inr (search_end env query sessions cursor), s)"
| "search_loop (Suc pages) w env query limit sessions cursor s =
     (if limit \<le> length sessions then (Inr (search_end env query sessions cursor), s)
      else case wd_request w False ''thread/list''
          (thread_list_params cursor (min 100 (limit - length sessions))) s of
        (Inl e, s') \<Rightarrow> (Inl e, s')
      | (Inr page, s') \<Rightarrow>
          (case page_data page of
             Inl e \<Rightarrow> (Inl e, s')
           | Inr raws \<Rightarrow>
               if raws = [] then (Inr \<lparr>sp_sessions = sessions, sp_next_cursor = None\<rparr>, s')
               else (case parse_sessions env raws of
                  Inl e \<Rightarrow> (Inl e, s')
                | Inr found \<Rightarrow>
                    (let sessions' =
                       sessions @ filter (codex_hit (to_ascii_lowercase query)) found
                     in case get_str ''nextCursor'' page of
                       None \<Rightarrow> (Inr \<lparr>sp_sessions = sessions', sp_next_cursor = None\<rparr>, s')
                     | Some c \<Rightarrow> search_loop pages w env query limit sessions' (Some c) s'))))"

definition search_position :: "codex_env \<Rightarrow> string \<Rightarrow> string option \<Rightarrow> string option result" where
  "search_position env query cursor =
     (case cursor of
        None \<Rightarrow> Inr None
      | Some c \<Rightarrow>
          bindR (with_context ''invalid Codex session cursor; refresh the search'' (xe_read_cursor env c))
            (\<lambda>(q, provider_cursor).
               if q \<noteq> query then bail ''session cursor belongs to another search; refresh the search''
               else Inr provider_cursor))"

definition codex_search_sessions ::
    "'s world \<Rightarrow> codex_env \<Rightarrow> string \<Rightarrow> string option \<Rightarrow> nat \<Rightarrow> (search_page, 's codex) step" where
  "codex_search_sessions w env query cursor limit =
     bindS (ensure_started w env) (\<lambda>_.
     bindS (liftS (search_position env query cursor)) (\<lambda>position.
       on_world (search_loop max_search_pages w env query limit [] position)))"


section \<open>Turns\<close>

definition unstructured_error :: json where
  "unstructured_error =
     json_object [(''message'', JString ''Codex turn failed without structured error details'')]"

definition turn_error :: "json \<Rightarrow> json" where
  "turn_error turn = unwrap_or (json_get ''error'' turn) unstructured_error"

definition error_message :: "json \<Rightarrow> string" where
  "error_message error = unwrap_or (get_str ''message'' error) ''Codex turn failed''"

definition text_contents :: "json \<Rightarrow> string list" where
  "text_contents item =
     List.map_filter (get_str ''text'')
       (filter (\<lambda>content. get_str ''type'' content = Some ''text'')
         (unwrap_or (get_array ''content'' item) []))"

definition item_text :: "json \<Rightarrow> (string \<times> string) option" where
  "item_text item =
     (case get_str ''type'' item of
        None \<Rightarrow> None
      | Some kind \<Rightarrow>
          if kind = ''userMessage'' then Some (''user'', join_text [newline] (text_contents item))
          else if kind = ''agentMessage''
          then map_option (\<lambda>text. (''assistant'', text)) (get_str ''text'' item)
          else None)"

definition codex_item_log ::
    "string \<Rightarrow> string option \<Rightarrow> timestamp option \<Rightarrow> json \<Rightarrow> session_log option" where
  "codex_item_log session_id turn_id timestamp item =
     map_option (\<lambda>(role, message).
       \<lparr>sl_timestamp = timestamp, sl_provider = ''codex'', sl_session_id = session_id,
        sl_source = ''provider'', sl_kind = ''message'', sl_role = Some role, sl_turn_id = turn_id,
        sl_condition = None, sl_message = message,
        sl_metadata = json_object [(''item_id'', unwrap_or (json_get ''id'' item) JNull)]\<rparr>)
       (item_text item)"

definition turn_time :: "codex_env \<Rightarrow> json \<Rightarrow> timestamp option" where
  "turn_time env turn =
     (case parse_timestamp env (json_get ''completedAt'' turn) of
        Some t \<Rightarrow> Some t
      | None \<Rightarrow> parse_timestamp env (json_get ''startedAt'' turn))"

definition turn_entry :: "codex_env \<Rightarrow> string \<Rightarrow> json \<Rightarrow> session_log" where
  "turn_entry env session_id turn =
     (let status = unwrap_or (get_str ''status'' turn) ''unknown'';
          failed = (status = ''failed'')
      in \<lparr>sl_timestamp = turn_time env turn, sl_provider = ''codex'', sl_session_id = session_id,
          sl_source = ''provider'', sl_kind = ''turn.'' @ status, sl_role = None,
          sl_turn_id = get_str ''id'' turn,
          sl_condition =
            (if failed then Some (ce_condition (classify_codex_error (turn_error turn))) else None),
          sl_message = (if failed then error_message (turn_error turn) else ''turn '' @ status),
          sl_metadata = json_object [(''model'', unwrap_or (json_get ''model'' turn) JNull)]\<rparr>)"

definition codex_turn_logs :: "codex_env \<Rightarrow> string \<Rightarrow> json \<Rightarrow> session_log list" where
  "codex_turn_logs env session_id turn =
     List.map_filter (codex_item_log session_id (get_str ''id'' turn) (turn_time env turn))
       (unwrap_or (get_array ''items'' turn) []) @ [turn_entry env session_id turn]"

definition thread_read_params :: "string \<Rightarrow> bool \<Rightarrow> json" where
  "thread_read_params session_id turns =
     json_object [(''threadId'', JString session_id), (''includeTurns'', JBool turns)]"

definition thread_turns :: "json \<Rightarrow> json list option" where
  "thread_turns thread = Option.bind (json_pointer [''thread'', ''turns''] thread) as_array"

definition codex_session_logs ::
    "'s world \<Rightarrow> codex_env \<Rightarrow> string \<Rightarrow> nat \<Rightarrow> (session_log list, 's codex) step" where
  "codex_session_logs w env session_id limit =
     bindS (ensure_started w env) (\<lambda>_.
     bindS (plain_request w ''thread/read'' (thread_read_params session_id True)) (\<lambda>result.
       case thread_turns result of
         None \<Rightarrow> liftS (bail ''Codex thread/read returned invalid turns'')
       | Some turns \<Rightarrow>
           returnS (keep_last limit
             (concat (map (codex_turn_logs env session_id) (keep_last limit turns))))))"

definition latest_turn_params :: "string \<Rightarrow> string \<Rightarrow> json" where
  "latest_turn_params session_id view = json_object
     [(''threadId'', JString session_id), (''limit'', json_nat 1),
      (''sortDirection'', JString ''desc''), (''itemsView'', JString view)]"

definition first_turn :: "json \<Rightarrow> json option" where
  "first_turn page =
     (case get_array ''data'' page of Some (turn # _) \<Rightarrow> Some turn | _ \<Rightarrow> None)"

definition turn_failure :: "codex_env \<Rightarrow> string \<Rightarrow> json \<Rightarrow> failure option result" where
  "turn_failure env session_id turn =
     (if get_str ''status'' turn \<noteq> Some ''failed'' then Inr None
      else case get_str ''id'' turn of
        None \<Rightarrow> bail ''Codex returned a failed turn without an id''
      | Some turn_id \<Rightarrow>
          (let error = turn_error turn; c = classify_codex_error error
           in Inr (Some
             \<lparr>fl_provider = ''codex'', fl_session_id = session_id, fl_turn_id = turn_id,
              fl_condition = ce_condition c, fl_provider_code = ce_provider_code c,
              fl_message = error_message error,
              fl_occurred_at = parse_timestamp env (json_get ''completedAt'' turn),
              fl_retry_after_seconds = ce_retry_after_seconds c,
              fl_model = get_str ''model'' turn, fl_scope = ce_scope c,
              fl_metadata = unwrap_or (json_get ''additionalDetails'' error) JNull\<rparr>)))"

definition codex_latest_failure ::
    "'s world \<Rightarrow> codex_env \<Rightarrow> string \<Rightarrow> (failure option, 's codex) step" where
  "codex_latest_failure w env session_id =
     bindS (ensure_started w env) (\<lambda>_.
     bindS (plain_request w ''thread/turns/list'' (latest_turn_params session_id ''summary''))
       (\<lambda>page.
          case first_turn page of
            None \<Rightarrow> returnS None
          | Some turn \<Rightarrow> liftS (turn_failure env session_id turn)))"

definition outcome_of_status :: "string option \<Rightarrow> turn_outcome" where
  "outcome_of_status status =
     (if status = Some ''inProgress'' then InProgress
      else if status = Some ''completed'' then Completed
      else if status = Some ''failed'' then TurnFailed
      else TurnUnknown)"

definition codex_turn_outcome ::
    "'s world \<Rightarrow> codex_env \<Rightarrow> string \<Rightarrow> string \<Rightarrow> (turn_outcome, 's codex) step" where
  "codex_turn_outcome w env session_id turn_id =
     bindS (ensure_started w env) (\<lambda>_.
     bindS (plain_request w ''thread/read'' (thread_read_params session_id True)) (\<lambda>result.
       returnS (outcome_of_status
         (Option.bind (Option.bind (thread_turns result)
           (find (\<lambda>turn. get_str ''id'' turn = Some turn_id))) (get_str ''status'')))))"


section \<open>Sending\<close>

definition message_params :: "string \<Rightarrow> string \<Rightarrow> string option \<Rightarrow> json" where
  "message_params session_id message client_message_id = json_object
     [(''threadId'', JString session_id),
      (''input'', JArray [json_object
         [(''type'', JString ''text''), (''text'', JString message)]]),
      (''clientUserMessageId'', json_opt JString client_message_id)]"

definition steer_params :: "string \<Rightarrow> string \<Rightarrow> string \<Rightarrow> json" where
  "steer_params session_id turn_id message = json_object
     [(''threadId'', JString session_id), (''expectedTurnId'', JString turn_id),
      (''input'', JArray [json_object
         [(''type'', JString ''text''), (''text'', JString message)]])]"

definition running_turn :: "json option \<Rightarrow> string option" where
  "running_turn turn =
     Option.bind turn (\<lambda>t.
       if get_str ''status'' t = Some ''inProgress'' then get_str ''id'' t else None)"

definition last_turn :: "json \<Rightarrow> json option" where
  "last_turn resumed =
     (case thread_turns resumed of
        None \<Rightarrow> None
      | Some turns \<Rightarrow> if turns = [] then None else Some (last turns))"

definition message_request ::
    "json \<Rightarrow> string \<Rightarrow> string \<Rightarrow> string \<times> json \<times> message_delivery" where
  "message_request resumed session_id message =
     (case running_turn (last_turn resumed) of
        Some turn_id \<Rightarrow> (''turn/steer'', steer_params session_id turn_id message, Steered)
      | None \<Rightarrow> (''turn/start'', message_params session_id message None, Started))"

definition thread_params :: "string \<Rightarrow> json" where
  "thread_params session_id = json_object [(''threadId'', JString session_id)]"

definition resume_through_server ::
    "'s world \<Rightarrow> string \<Rightarrow> string \<Rightarrow> string \<Rightarrow> (resume_receipt, 's codex) step" where
  "resume_through_server w session_id prompt key =
     bindS (plain_request w ''thread/resume'' (thread_params session_id)) (\<lambda>_.
     bindS (on_world (wd_request w True ''turn/start''
         (message_params session_id prompt (Some key)))) (\<lambda>result.
       case pointer_str [''turn'', ''id''] result of
         None \<Rightarrow> liftS (bail ''Codex accepted turn/start without returning a turn id'')
       | Some turn_id \<Rightarrow> returnS
           \<lparr>rr_provider = ''codex'', rr_session_id = session_id, rr_turn_id = turn_id,
            rr_transport = AppServer\<rparr>))"

definition codex_resume ::
    "'s world \<Rightarrow> codex_env \<Rightarrow> string \<Rightarrow> string \<Rightarrow> string \<Rightarrow> (resume_receipt, 's codex) step" where
  "codex_resume w env session_id prompt key =
     bindS (ensure_started w env) (\<lambda>_.
     bindS (on_world (wd_connect w)) (\<lambda>connected.
       if connected
       then bindS (on_world (wd_start_recovery w session_id prompt key)) (\<lambda>taken.
         case taken of
           Some turn_id \<Rightarrow> returnS
             \<lparr>rr_provider = ''codex'', rr_session_id = session_id, rr_turn_id = turn_id,
              rr_transport = DesktopIpc\<rparr>
         | None \<Rightarrow> resume_through_server w session_id prompt key)
       else resume_through_server w session_id prompt key))"

definition session_cwd :: "'s world \<Rightarrow> codex_env \<Rightarrow> string \<Rightarrow> (string, 's codex) step" where
  "session_cwd w env session_id c =
     (case plain_request w ''thread/read'' (thread_read_params session_id False) c of
        (Inl e, c') \<Rightarrow> (Inr (xe_cwd env), c')
      | (Inr thread, c') \<Rightarrow>
          (Inr (case pointer_str [''thread'', ''cwd''] thread of
             Some cwd \<Rightarrow> if cwd = [] then xe_cwd env else cwd
           | None \<Rightarrow> xe_cwd env), c'))"

definition send_through_server ::
    "'s world \<Rightarrow> string \<Rightarrow> string \<Rightarrow> (message_receipt, 's codex) step" where
  "send_through_server w session_id message =
     bindS (plain_request w ''thread/resume'' (thread_params session_id)) (\<lambda>resumed.
       case message_request resumed session_id message of
         (method, params, how) \<Rightarrow>
           bindS (plain_request w method params) (\<lambda>result.
             case pointer_str (if how = Steered then [''turnId''] else [''turn'', ''id'']) result of
               None \<Rightarrow> liftS (bail (''Codex accepted '' @ method @ '' without returning a turn id''))
             | Some turn_id \<Rightarrow> returnS
                 \<lparr>mr_provider = ''codex'', mr_session_id = session_id, mr_turn_id = turn_id,
                  mr_delivery = how, mr_transport = AppServer\<rparr>))"

definition codex_send_message ::
    "'s world \<Rightarrow> codex_env \<Rightarrow> string \<Rightarrow> string \<Rightarrow> (message_receipt, 's codex) step" where
  "codex_send_message w env session_id message =
     bindS (ensure_started w env) (\<lambda>_.
     bindS (on_world (wd_connect w)) (\<lambda>connected.
       if connected
       then bindS (session_cwd w env session_id) (\<lambda>cwd.
         bindS (on_world (wd_send_message w session_id message cwd)) (\<lambda>taken.
           case taken of
             Some d \<Rightarrow> returnS
               \<lparr>mr_provider = ''codex'', mr_session_id = session_id, mr_turn_id = dl_turn_id d,
                mr_delivery = dl_delivery d, mr_transport = DesktopIpc\<rparr>
           | None \<Rightarrow> send_through_server w session_id message))
       else send_through_server w session_id message))"

definition active_turn_id :: "'s world \<Rightarrow> string \<Rightarrow> (string option, 's codex) step" where
  "active_turn_id w session_id =
     bindS (plain_request w ''thread/turns/list'' (latest_turn_params session_id ''notLoaded''))
       (\<lambda>result. returnS (running_turn (first_turn result)))"

definition interrupt_through_server ::
    "'s world \<Rightarrow> string \<Rightarrow> string \<Rightarrow> (interrupt_receipt, 's codex) step" where
  "interrupt_through_server w session_id turn_id =
     bindS (plain_request w ''thread/resume'' (thread_params session_id)) (\<lambda>_.
     bindS (plain_request w ''turn/interrupt'' (json_object
         [(''threadId'', JString session_id), (''turnId'', JString turn_id)])) (\<lambda>_.
       returnS \<lparr>ir_provider = ''codex'', ir_session_id = session_id, ir_turn_id = turn_id,
         ir_transport = AppServer\<rparr>))"

definition codex_interrupt ::
    "'s world \<Rightarrow> codex_env \<Rightarrow> string \<Rightarrow> (interrupt_receipt, 's codex) step" where
  "codex_interrupt w env session_id =
     bindS (ensure_started w env) (\<lambda>_.
     bindS (active_turn_id w session_id) (\<lambda>active.
       case active of
         None \<Rightarrow> liftS (bail (''Codex session '' @ session_id @ '' has no active turn''))
       | Some turn_id \<Rightarrow>
           bindS (on_world (wd_connect w)) (\<lambda>connected.
             if connected
             then bindS (on_world (wd_interrupt w session_id turn_id)) (\<lambda>taken.
               case taken of
                 Some interrupted \<Rightarrow> returnS
                   \<lparr>ir_provider = ''codex'', ir_session_id = session_id, ir_turn_id = interrupted,
                    ir_transport = DesktopIpc\<rparr>
               | None \<Rightarrow> interrupt_through_server w session_id turn_id)
             else interrupt_through_server w session_id turn_id)))"


section \<open>Discovery ends\<close>

text \<open>The cursors that a search hands on come from the server.\<close>

definition server_cursors :: "'s world \<Rightarrow> string set \<Rightarrow> bool" where
  "server_cursors w C \<longleftrightarrow>
     (\<forall>params s page s' c. wd_request w False ''thread/list'' params s = (Inr page, s') \<longrightarrow>
        get_str ''nextCursor'' page = Some c \<longrightarrow> c \<in> C)"

lemma search_loop_first:
  assumes "search_loop (Suc pages) w env query limit sessions cursor s = (Inr found, s')"
    and "length sessions < limit" and "sp_next_cursor found = Some x"
  shows "\<exists>page s1 raws ss c. wd_request w False ''thread/list''
      (thread_list_params cursor (min 100 (limit - length sessions))) s = (Inr page, s1) \<and>
    page_data page = Inr raws \<and> raws \<noteq> [] \<and> parse_sessions env raws = Inr ss \<and>
    get_str ''nextCursor'' page = Some c \<and>
    search_loop pages w env query limit
      (sessions @ filter (codex_hit (to_ascii_lowercase query)) ss) (Some c) s1 = (Inr found, s')"
  using assms by (auto simp: Let_def split: prod.splits sum.splits option.splits if_splits)

lemma search_loop_cursors:
  assumes "server_cursors w C" and "search_loop pages w env query limit sessions cursor s = (Inr found, s')"
    and "sp_next_cursor found = Some x"
  shows "\<exists>c. x = xe_show_cursor env (query, Some c) \<and> (c \<in> C \<or> cursor = Some c)"
  using assms
proof (induction pages w env query limit sessions cursor s rule: search_loop.induct)
  case (1 w env query limit sessions cursor s)
  then show ?case by (auto simp: search_end_def)
next
  case (2 pages w env query limit sessions cursor s)
  show ?case
  proof (cases "limit \<le> length sessions")
    case True
    with 2(3,4) show ?thesis by (auto simp: search_end_def)
  next
    case False
    with search_loop_first [OF 2(3) _ 2(4)] obtain page s1 raws ss c where
      req: "wd_request w False ''thread/list''
        (thread_list_params cursor (min 100 (limit - length sessions))) s = (Inr page, s1)"
      and raws: "page_data page = Inr raws" "raws \<noteq> []"
      and ss: "parse_sessions env raws = Inr ss" and c: "get_str ''nextCursor'' page = Some c"
      and rest: "search_loop pages w env query limit
        (sessions @ filter (codex_hit (to_ascii_lowercase query)) ss) (Some c) s1 = (Inr found, s')"
      by auto
    have "c \<in> C" using 2(2) req c unfolding server_cursors_def by blast
    with 2(1) [OF False req [symmetric] refl raws(1) raws(2) ss refl c 2(2) rest 2(4)] show ?thesis
      by auto
  qed
qed

lemma codex_search_cursors:
  assumes "server_cursors w C" and "0 < limit"
    and "codex_search_sessions w env query cursor limit c = (Inr found, c')"
    and "sp_next_cursor found = Some x"
  shows "x \<in> (\<lambda>p. xe_show_cursor env (query, Some p)) ` C"
proof -
  from assms(3) obtain position s s' where
    "search_loop (Suc 4) w env query limit [] position s = (Inr found, s')"
    by (auto simp: codex_search_sessions_def on_world_def max_search_pages_def
        numeral_eq_Suc elim!: bindS_cases split: prod.splits)
  from search_loop_first [OF this _ assms(4)] assms(2) obtain page s1 ss p where
    req: "wd_request w False ''thread/list'' (thread_list_params position (min 100 limit)) s = (Inr page, s1)"
    and nxt: "get_str ''nextCursor'' page = Some p"
    and rest: "search_loop 4 w env query limit
      ([] @ filter (codex_hit (to_ascii_lowercase query)) ss) (Some p) s1 = (Inr found, s')"
    by auto
  have "p \<in> C" using assms(1) req nxt unfolding server_cursors_def by blast
  with search_loop_cursors [OF assms(1) rest assms(4)] show ?thesis by auto
qed

text \<open>C24: Discovery ends whatever the App Server answers.  As long as the cursors it hands out
  come from a finite set, the loop that pages through Codex's sessions returns - with the
  sessions, with the server's error, or refusing a cursor it has seen before - however the
  server, the process and the sessions behave from call to call.\<close>
theorem codex_discovery_terminates:
  assumes "finite C" and "server_cursors w C"
  shows "\<exists>r. default_recent_sessions ''codex'' (codex_search_sessions w env) cutoff c = Some r"
  unfolding default_recent_sessions_def
proof (rule recent_loop_terminates)
  show "finite ((\<lambda>p. xe_show_cursor env ([], Some p)) ` C)"
    using assms(1) by simp
next
  fix cursor s page s' x
  assume "codex_search_sessions w env [] cursor 500 s = (Inr page, s')"
    and "sp_next_cursor page = Some x"
  then show "x \<in> (\<lambda>p. xe_show_cursor env ([], Some p)) ` C"
    using codex_search_cursors [OF assms(2), of 500] by simp
qed simp


section \<open>Discovery is complete\<close>

lemma parse_sessions_iff:
  "parse_sessions env raws = Inr ss \<longleftrightarrow> list_all2 (\<lambda>raw s. parse_session env raw = Inr s) raws ss"
  by (induction raws arbitrary: ss) (auto simp: bindR_Inr_iff list_all2_Cons1)

lemma parse_sessions_stretch:
  "parse_sessions env raws = Inr ss \<Longrightarrow>
     parse_sessions env (take n (drop i raws)) = Inr (take n (drop i ss))"
  by (simp add: parse_sessions_iff list_all2_takeI list_all2_dropI)

text \<open>
  What the App Server documents of \<open>thread/list\<close>, for a list of threads that does not
  change: a cursor stands for a place in it, an answer holds threads from there on - at
  least one, while there are any - and the next cursor stands for the place behind them.
\<close>

definition serves :: "'s world \<Rightarrow> ('s \<Rightarrow> bool) \<Rightarrow> json list \<Rightarrow> (string option \<Rightarrow> nat option) \<Rightarrow> bool" where
  "serves w steady raws place \<longleftrightarrow>
     place None = Some 0 \<and>
     (\<forall>s. steady s \<longrightarrow> (\<exists>s'. wd_is_running w s = (Inr True, s') \<and> steady s')) \<and>
     (\<forall>s cursor i limit. steady s \<longrightarrow> place cursor = Some i \<longrightarrow> 0 < limit \<longrightarrow>
        (\<exists>page s' j. wd_request w False ''thread/list'' (thread_list_params cursor limit) s =
             (Inr page, s') \<and> steady s' \<and>
           get_array ''data'' page = Some (take (j - i) (drop i raws)) \<and>
           (case get_str ''nextCursor'' page of
              None \<Rightarrow> length raws \<le> j
            | Some c \<Rightarrow> i < j \<and> j < length raws \<and> place (Some c) = Some j)))"

definition cursor_codec :: "codex_env \<Rightarrow> string \<Rightarrow> bool" where
  "cursor_codec env query \<longleftrightarrow>
     (\<forall>c. xe_read_cursor env (xe_show_cursor env (query, Some c)) = Inr (query, Some c))"

definition codex_place ::
    "codex_env \<Rightarrow> string \<Rightarrow> (string option \<Rightarrow> nat option) \<Rightarrow> nat \<Rightarrow> string option \<Rightarrow> nat option"
  where
  "codex_place env query place n cursor =
     (case search_position env query cursor of
        Inl e \<Rightarrow> None
      | Inr position \<Rightarrow>
          (case place position of None \<Rightarrow> None | Some i \<Rightarrow> if i \<le> n then Some i else None))"

lemma stretch_append:
  "i \<le> j \<Longrightarrow> j \<le> k \<Longrightarrow>
     take (j - i) (drop i xs) @ take (k - j) (drop j xs) = take (k - i) (drop i xs)"
  using take_add [of "j - i" "k - j" "drop i xs"] by simp

lemma search_loop_stretch:
  assumes "serves w steady raws place" and "parse_sessions env raws = Inr catalogue"
    and "steady s" and "place cursor = Some i" and "i \<le> length raws"
    and "0 < pages \<and> length sessions < limit \<or> cursor \<noteq> None \<and> i < length raws"
  shows "\<exists>found s' j. search_loop pages w env query limit sessions cursor s = (Inr found, s') \<and>
    steady s' \<and> i \<le> j \<and> (0 < pages \<and> length sessions < limit \<longrightarrow> i < j \<or> length raws \<le> j) \<and>
    sp_sessions found = sessions @ filter (codex_hit (to_ascii_lowercase query)) (take (j - i) (drop i catalogue)) \<and>
    (case sp_next_cursor found of
       None \<Rightarrow> length raws \<le> j
     | Some x \<Rightarrow> \<exists>c. x = xe_show_cursor env (query, Some c) \<and> j < length raws \<and> place (Some c) = Some j)"
  using assms(3-6)
proof (induction pages arbitrary: sessions cursor s i)
  case 0
  then obtain c where "cursor = Some c" by auto
  with 0 show ?case by (intro exI [of _ i] exI conjI) (auto simp: search_end_def)
next
  case (Suc pages)
  show ?case
  proof (cases "limit \<le> length sessions")
    case True
    with Suc.prems obtain c where "cursor = Some c" by auto
    with Suc.prems True show ?thesis by (intro exI [of _ i] exI conjI) (auto simp: search_end_def)
  next
    case False
    then have "0 < min 100 (limit - length sessions)" by simp
    with assms(1) Suc.prems(1,2) obtain page s1 j where
      req: "wd_request w False ''thread/list''
        (thread_list_params cursor (min 100 (limit - length sessions))) s = (Inr page, s1)"
      and s1: "steady s1" and data: "get_array ''data'' page = Some (take (j - i) (drop i raws))"
      and more: "case get_str ''nextCursor'' page of None \<Rightarrow> length raws \<le> j
        | Some c \<Rightarrow> i < j \<and> j < length raws \<and> place (Some c) = Some j"
      unfolding serves_def by blast
    let ?hit = "codex_hit (to_ascii_lowercase query)" and ?raws = "take (j - i) (drop i raws)"
      and ?got = "take (j - i) (drop i catalogue)"
    have parsed: "parse_sessions env ?raws = Inr ?got"
      by (rule parse_sessions_stretch [OF assms(2)])
    have le: "i \<le> j" using more Suc.prems(3) by (auto split: option.splits)
    have step: "search_loop (Suc pages) w env query limit sessions cursor s =
        (if ?raws = [] then (Inr \<lparr>sp_sessions = sessions, sp_next_cursor = None\<rparr>, s1)
         else case get_str ''nextCursor'' page of
             None \<Rightarrow> (Inr \<lparr>sp_sessions = sessions @ filter ?hit ?got, sp_next_cursor = None\<rparr>, s1)
           | Some c \<Rightarrow> search_loop pages w env query limit (sessions @ filter ?hit ?got) (Some c) s1)"
      using False req parsed data by (simp add: page_data_def Let_def)
    show ?thesis
    proof (cases "get_str ''nextCursor'' page")
      case None
      have "?raws = [] \<Longrightarrow> ?got = []"
        using parse_sessions_length [OF parsed] by (metis length_0_conv)
      then have "search_loop (Suc pages) w env query limit sessions cursor s =
          (Inr \<lparr>sp_sessions = sessions @ filter ?hit ?got, sp_next_cursor = None\<rparr>, s1)"
        unfolding step None by (cases "?raws = []") (simp_all only: simp_thms if_True if_False option.case
          filter.simps append_Nil2)
      with None more s1 le show ?thesis by (intro exI [of _ j] exI conjI) auto
    next
      case (Some c)
      with more have j: "i < j" "j < length raws" "place (Some c) = Some j" by simp_all
      then have "?raws \<noteq> []" by simp
      with step Some have loop: "search_loop (Suc pages) w env query limit sessions cursor s =
          search_loop pages w env query limit (sessions @ filter ?hit ?got) (Some c) s1" by simp
      from Suc.IH [OF s1 j(3), of "sessions @ filter ?hit ?got"] j obtain found s' k where
        run: "search_loop pages w env query limit (sessions @ filter ?hit ?got) (Some c) s1 = (Inr found, s')"
        and s': "steady s'" and k: "j \<le> k"
        and got: "sp_sessions found = (sessions @ filter ?hit ?got) @ filter ?hit (take (k - j) (drop j catalogue))"
        and nxt: "case sp_next_cursor found of None \<Rightarrow> length raws \<le> k
          | Some x \<Rightarrow> \<exists>c. x = xe_show_cursor env (query, Some c) \<and> k < length raws \<and> place (Some c) = Some k"
        by auto
      have "sp_sessions found = sessions @ filter ?hit (take (k - i) (drop i catalogue))"
        unfolding got stretch_append [OF le k, symmetric] by simp
      with run s' nxt loop j k show ?thesis by (intro exI [of _ k] exI conjI) auto
    qed
  qed
qed

lemma codex_catalogue:
  assumes "serves w steady raws place" and "parse_sessions env raws = Inr catalogue"
    and "cursor_codec env query"
  shows "cursor_catalogue (\<lambda>cursor. codex_search_sessions w env query cursor (Suc n))
    (\<lambda>c. cx_started c \<and> steady (cx_world c)) catalogue (codex_hit (to_ascii_lowercase query))
    (codex_place env query place (length raws))"
proof
  show "codex_place env query place (length raws) None = Some 0"
    using assms(1) by (simp add: codex_place_def search_position_def serves_def)
next
  fix c :: "'a codex" and cursor i
  assume c: "cx_started c \<and> steady (cx_world c)"
    and "codex_place env query place (length raws) cursor = Some i"
  then obtain position where position: "search_position env query cursor = Inr position"
    and i: "place position = Some i" "i \<le> length raws"
    by (auto simp: codex_place_def split: sum.splits option.splits if_splits)
  from c assms(1) obtain s1 where running: "wd_is_running w (cx_world c) = (Inr True, s1)"
    and s1: "steady s1" by (auto simp: serves_def)
  have "0 < max_search_pages \<and> length ([] :: session list) < Suc n"
    by (simp add: max_search_pages_def)
  with search_loop_stretch [OF assms(1,2) s1 i, of max_search_pages "[]" "Suc n" query]
  obtain found s' j where
    run: "search_loop max_search_pages w env query (Suc n) [] position s1 = (Inr found, s')"
    and s': "steady s'" and j: "i < j \<or> length raws \<le> j"
    and got: "sp_sessions found = filter (codex_hit (to_ascii_lowercase query)) (take (j - i) (drop i catalogue))"
    and nxt: "case sp_next_cursor found of None \<Rightarrow> length raws \<le> j
      | Some x \<Rightarrow> \<exists>c. x = xe_show_cursor env (query, Some c) \<and> j < length raws \<and> place (Some c) = Some j"
    by auto
  have len: "length catalogue = length raws" by (rule parse_sessions_length [OF assms(2)])
  have "codex_search_sessions w env query cursor (Suc n) c = (Inr found, c\<lparr>cx_world := s'\<rparr>)"
    using c position running run
    by (simp add: codex_search_sessions_def ensure_started_def bindS_def on_world_def returnS_def liftS_def)
  moreover have "case sp_next_cursor found of None \<Rightarrow> length catalogue \<le> j
      | Some x \<Rightarrow> i < j \<and> j < length catalogue \<and>
          codex_place env query place (length raws) (Some x) = Some j"
    using nxt j len assms(3)
    by (auto simp: codex_place_def search_position_def cursor_codec_def split: option.splits)
  ultimately show "\<exists>found c' j. codex_search_sessions w env query cursor (Suc n) c = (Inr found, c') \<and>
      (cx_started c' \<and> steady (cx_world c')) \<and>
      sp_sessions found = filter (codex_hit (to_ascii_lowercase query)) (take (j - i) (drop i catalogue)) \<and>
      (case sp_next_cursor found of None \<Rightarrow> length catalogue \<le> j
       | Some x \<Rightarrow> i < j \<and> j < length catalogue \<and>
          codex_place env query place (length raws) (Some x) = Some j)"
    using c s' got by fastforce
qed

text \<open>C25: Discovery is complete.  Over an App Server whose threads rest, listed newest first
  behind opaque cursors of any kind and in pages of any size, the loop over Codex's bounded
  searches returns every session that is not older than the cutoff, and only sessions of
  the server, without taking a cursor for a repeated one.\<close>
theorem codex_discovery_complete:
  assumes "serves w steady raws place" and "parse_sessions env raws = Inr catalogue"
    and "cursor_codec env []"
    and "sorted_wrt (\<lambda>a b. opt_max (se_updated_at a) (se_updated_at b) = se_updated_at a) catalogue"
    and "cx_started c" and "steady (cx_world c)"
  shows "\<exists>found c'. default_recent_sessions ''codex'' (codex_search_sessions w env) cutoff c =
      Some (Inr found, c') \<and> set found \<subseteq> set catalogue \<and>
    (\<forall>x \<in> set catalogue. (\<exists>t. se_updated_at x = Some t \<and> cutoff \<le> t) \<longrightarrow> x \<in> set found)"
proof -
  have "codex_hit (to_ascii_lowercase []) x" for x
    by (simp add: codex_hit_def to_ascii_lowercase_def)
  moreover have "\<exists>found c'. recent_loop ''codex''
      (\<lambda>cursor. codex_search_sessions w env [] cursor (Suc 499)) cutoff [] None {} c =
        Some (Inr found, c') \<and>
      set found \<subseteq> {x \<in> set catalogue. codex_hit (to_ascii_lowercase []) x} \<and>
      (\<forall>x \<in> set catalogue. codex_hit (to_ascii_lowercase []) x \<longrightarrow>
         (\<exists>t. se_updated_at x = Some t \<and> cutoff \<le> t) \<longrightarrow> x \<in> set found)"
    using assms(5,6)
    by (intro cursor_catalogue.discovery_complete [OF codex_catalogue [OF assms(1-3)] _ assms(4)]) simp
  ultimately show ?thesis by (simp add: default_recent_sessions_def)
qed

definition example_thread :: "string \<Rightarrow> json" where
  "example_thread i = json_object [(''id'', JString i), (''name'', JString i)]"

definition example_server :: "nat world" where
  "example_server =
     \<lparr>wd_start = returnS (), wd_is_running = returnS True, wd_close = returnS (),
      wd_notify = (\<lambda>m p. returnS ()),
      wd_request = (\<lambda>unknown m p n.
        (Inr (if get_str ''cursor'' p = Some ''b''
              then json_object [(''data'', JArray [example_thread ''t2''])]
              else json_object [(''data'', JArray [example_thread ''t1'']),
                                (''nextCursor'', JString ''b'')]), n + 1)),
      wd_connect = returnS False, wd_start_recovery = (\<lambda>i p k. returnS None),
      wd_send_message = (\<lambda>i m d. returnS None), wd_interrupt = (\<lambda>i t. returnS None)\<rparr>"

definition example_codex_env :: codex_env where
  "example_codex_env =
     \<lparr>xe_unix = Some, xe_rfc3339 = (\<lambda>s. None), xe_show_cursor = (\<lambda>(q, c). unwrap_or c []),
      xe_read_cursor = (\<lambda>x. Inr ([], Some x)), xe_cwd = ''.'', xe_version = ''1''\<rparr>"

definition app_server_place :: "string option \<Rightarrow> nat option" where
  "app_server_place c =
     (case c of None \<Rightarrow> Some 0 | Some x \<Rightarrow> if x = ''b'' then Some 1 else None)"

lemma json_opt_cursor: "get_str ''cursor'' (thread_list_params cursor limit) = cursor"
  by (cases cursor) (simp_all add: get_str_def thread_list_params_def json_get_object hm_get_def json_opt_def)

lemma object_fields:
  "get_str k (json_object kvs) = Option.bind (hm_get (rev kvs) k) as_str"
  "get_array k (json_object kvs) = Option.bind (hm_get (rev kvs) k) as_array"
  by (simp_all add: get_str_def get_array_def json_get_object)

lemma example_serves:
  "serves example_server (\<lambda>_. True) [example_thread ''t1'', example_thread ''t2''] app_server_place"
proof -
  have "\<exists>page s' j. wd_request example_server False ''thread/list'' (thread_list_params cursor limit) s =
        (Inr page, s') \<and>
      get_array ''data'' page = Some (take (j - i) (drop i [example_thread ''t1'', example_thread ''t2''])) \<and>
      (case get_str ''nextCursor'' page of
         None \<Rightarrow> length [example_thread ''t1'', example_thread ''t2''] \<le> j
       | Some c \<Rightarrow> i < j \<and> j < length [example_thread ''t1'', example_thread ''t2''] \<and>
           app_server_place (Some c) = Some j)"
    if "app_server_place cursor = Some i" for s cursor i limit
  proof (cases "cursor = Some ''b''")
    case True
    with that have "i = 1" by (simp add: app_server_place_def)
    with True show ?thesis
      by (simp add: example_server_def json_opt_cursor)
        (rule exI [of _ 2], simp add: object_fields hm_get_def)
  next
    case False
    with that have "i = 0" by (auto simp: app_server_place_def split: option.splits if_splits)
    with False show ?thesis
      by (simp add: example_server_def json_opt_cursor)
        (rule exI [of _ 1], simp add: object_fields hm_get_def app_server_place_def)
  qed
  then show ?thesis
    by (simp add: serves_def app_server_place_def [of None]) (simp add: example_server_def returnS_def)
qed

definition example_codex :: "nat codex" where
  "example_codex = \<lparr>cx_started = True, cx_world = 0\<rparr>"

theorem codex_discovery_complete_witness:
  "\<exists>found c'. default_recent_sessions ''codex'' (codex_search_sessions example_server example_codex_env) 5
      example_codex = Some (Inr found, c') \<and> set found \<subseteq> set (projr (parse_sessions example_codex_env
        [example_thread ''t1'', example_thread ''t2'']))"
proof -
  have "case parse_sessions example_codex_env [example_thread ''t1'', example_thread ''t2''] of
      Inr ss \<Rightarrow> length ss = 2 \<and> sorted_wrt (\<lambda>a b. opt_max (se_updated_at a) (se_updated_at b) =
        se_updated_at a) ss | Inl e \<Rightarrow> False"
    by code_simp
  then obtain ss where
    ss: "parse_sessions example_codex_env [example_thread ''t1'', example_thread ''t2''] = Inr ss"
    and sorted: "sorted_wrt (\<lambda>a b. opt_max (se_updated_at a) (se_updated_at b) = se_updated_at a) ss"
    by (auto split: sum.splits)
  have "cursor_codec example_codex_env []"
    by (simp add: cursor_codec_def example_codex_env_def)
  have "cx_started example_codex" by (simp add: example_codex_def)
  from codex_discovery_complete [OF example_serves ss \<open>cursor_codec _ _\<close> sorted this, of 5]
  show ?thesis unfolding ss by auto
qed

theorem codex_discovery_terminates_witness:
  "\<exists>r. default_recent_sessions ''codex'' (codex_search_sessions example_server example_codex_env) 5
      example_codex = Some r"
proof (rule codex_discovery_terminates [of "{''b''}"])
  show "server_cursors example_server {''b''}"
    by (auto simp: server_cursors_def example_server_def get_str_def json_get_object hm_get_def)
qed simp

end
