(* ===== verification/Jsonrpc.thy ===== *)
theory Jsonrpc
  imports Steps Engine Protocol
begin

text \<open>
  The JSON-RPC client that talks to the App Server over the standard streams of a child
  process (\<open>transport/jsonrpc.rs\<close>).  A reader task hands every answer to the request whose
  identifier it carries; what the reader meets - lines, the end of the stream, a failed
  read - and the expiry of a request's time are the events that will happen, in their
  order.  The process itself (spawning, signals, exit states) answers through a script.
\<close>


section \<open>The client\<close>

datatype stdout_event =
    Line string
  | StdoutClosed
  | StdoutFailed string
  | ChannelDropped
  | Deadline

text \<open>
  \<open>jc_reader\<close>: the reader task is running; \<open>jc_child\<close>: a child is held;
  \<open>jc_pending\<close>: the requests that wait.
\<close>

record rpc_client =
  jc_command :: "string list"
  jc_child :: bool
  jc_stdin :: bool
  jc_reader :: bool
  jc_pending :: "u64 list"
  jc_next_id :: u64
  jc_events :: "stdout_event list"
  jc_sent :: "(json \<times> unit result) list"
  jc_polls :: nat
  jc_spawns :: nat
  jc_kills :: nat

text \<open>
  The parser of lines, the outcome of the n-th write to the child's input, whether the
  child has exited when asked for the n-th time, whether the n-th attempt to kill it
  succeeds, the outcome of the n-th spawning with its output's events, and the absolute path that an executable's name resolves to.
\<close>

record rpc_env =
  jv_parse :: "string \<Rightarrow> json option"
  jv_write :: "nat \<Rightarrow> unit result"
  jv_exited :: "nat \<Rightarrow> bool result"
  jv_kill :: "nat \<Rightarrow> unit result"
  jv_spawn :: "nat \<Rightarrow> stdout_event list result"
  jv_resolve :: "string \<Rightarrow> string option"

definition new_client :: "rpc_env \<Rightarrow> string list \<Rightarrow> rpc_client result" where
  "new_client env command =
     (case command of
        [] \<Rightarrow> bail ''JSON-RPC command cannot be empty''
      | program # args \<Rightarrow> Inr
          \<lparr>jc_command = unwrap_or (jv_resolve env program) program # args, jc_child = False,
           jc_stdin = False, jc_reader = False, jc_pending = [], jc_next_id = 1, jc_events = [],
           jc_sent = [], jc_polls = 0, jc_spawns = 0, jc_kills = 0\<rparr>)"

text \<open>Everything that waits is told that the process is gone; then nothing waits.\<close>

definition reset_process :: "rpc_client \<Rightarrow> rpc_client" where
  "reset_process c =
     c\<lparr>jc_stdin := False, jc_child := False, jc_reader := False, jc_pending := []\<rparr>"

definition poll_child :: "rpc_env \<Rightarrow> (bool, rpc_client) step" where
  "poll_child env c = (jv_exited env (jc_polls c), c\<lparr>jc_polls := jc_polls c + 1\<rparr>)"

definition kill_child :: "rpc_client \<Rightarrow> rpc_client" where
  "kill_child c = c\<lparr>jc_kills := jc_kills c + 1\<rparr>"

definition discard_unhealthy_process :: "rpc_env \<Rightarrow> rpc_client \<Rightarrow> rpc_client" where
  "discard_unhealthy_process env c =
     reset_process
       (if \<not> jc_child c then c
        else case poll_child env c of (r, c1) \<Rightarrow> if r = Inr True then c1 else kill_child c1)"

definition spawn_child :: "rpc_env \<Rightarrow> (unit, rpc_client) step" where
  "spawn_child env c =
     (case with_context (''cannot start '' @ join_text '' '' (jc_command c)) (jv_spawn env (jc_spawns c)) of
        Inl e \<Rightarrow> (Inl e, c\<lparr>jc_spawns := jc_spawns c + 1\<rparr>)
      | Inr events \<Rightarrow>
          (Inr (), c\<lparr>jc_spawns := jc_spawns c + 1, jc_child := True, jc_stdin := True,
             jc_reader := True, jc_events := events\<rparr>))"

definition client_start :: "rpc_env \<Rightarrow> (unit, rpc_client) step" where
  "client_start env c =
     (if \<not> jc_child c then spawn_child env c
      else bindS (poll_child env)
        (\<lambda>exited c1. if exited then spawn_child env (reset_process c1) else (Inr (), c1)) c)"

definition client_is_running :: "rpc_env \<Rightarrow> (bool, rpc_client) step" where
  "client_is_running env c =
     (if \<not> jc_child c then (Inr False, c)
      else bindS (poll_child env)
        (\<lambda>exited c1. if exited then (Inr False, reset_process c1) else (Inr True, c1)) c)"

text \<open>A kill that fails leaves the child and the reader where they are; only the input is gone.\<close>

definition client_close :: "rpc_env \<Rightarrow> (unit, rpc_client) step" where
  "client_close env c =
     (let c1 = c\<lparr>jc_stdin := False\<rparr>; taken = (\<lambda>c. c\<lparr>jc_child := False, jc_reader := False\<rparr>)
      in if \<not> jc_child c1 then (Inr (), taken c1)
         else bindS (poll_child env)
           (\<lambda>exited c2.
             if exited then (Inr (), taken c2)
             else (case jv_kill env (jc_kills c2) of
                 Inl e \<Rightarrow> (Inl e, kill_child c2)
               | Inr _ \<Rightarrow> (Inr (), taken (kill_child c2)))) c1)"

definition client_send :: "rpc_env \<Rightarrow> json \<Rightarrow> (unit, rpc_client) step" where
  "client_send env m c =
     (if \<not> jc_stdin c then (bail ''JSON-RPC process is not running'', c)
      else (let r = jv_write env (length (jc_sent c))
            in (r, c\<lparr>jc_sent := jc_sent c @ [(m, r)]\<rparr>)))"

definition client_notify :: "rpc_env \<Rightarrow> string \<Rightarrow> json \<Rightarrow> (unit, rpc_client) step" where
  "client_notify env method params =
     client_send env (json_object [(''method'', JString method), (''params'', params)])"


section \<open>The reader\<close>

definition show_code :: "json \<Rightarrow> string" where
  "show_code error = show_int (unwrap_or (Option.bind (json_get ''code'' error) as_i64) (- 32000))"

definition rpc_failure :: "json \<Rightarrow> error" where
  "rpc_failure error = Root (Message (''JSON-RPC error '' @ show_code error @ '': '' @
     unwrap_or (get_str ''message'' error) ''unknown error''))"

definition answer_of :: "json \<Rightarrow> json result" where
  "answer_of message =
     (case json_get ''error'' message of
        Some error \<Rightarrow> Inl (rpc_failure error)
      | None \<Rightarrow> Inr (unwrap_or (json_get ''result'' message) JNull))"

text \<open>Which request a line answers: not a notification or request of the server, with a number.\<close>

definition answered_id :: "rpc_env \<Rightarrow> string \<Rightarrow> (u64 \<times> json) option" where
  "answered_id env line =
     (case jv_parse env line of
        None \<Rightarrow> None
      | Some message \<Rightarrow>
          if get_str ''method'' message \<noteq> None then None
          else map_option (\<lambda>i. (i, message)) (Option.bind (json_get ''id'' message) as_u64))"

definition stdout_closed :: error where
  "stdout_closed = Root (Message ''app-server stdout closed'')"

datatype waiting = Told "json result" | Dropped | Late

text \<open>
  Waiting for one request: the reader goes on until this request is told something, its
  channel is dropped or its time is over.  When its stream ends, the reader tells everything that waits and stops.
\<close>

fun await_answer ::
    "rpc_env \<Rightarrow> u64 \<Rightarrow> stdout_event list \<Rightarrow> u64 list \<Rightarrow>
     waiting \<times> stdout_event list \<times> u64 list \<times> bool" where
  "await_answer env rid [] pending = (Late, [], pending, True)"
| "await_answer env rid (Deadline # es) pending = (Late, es, pending, True)"
| "await_answer env rid (ChannelDropped # es) pending = (Dropped, es, remove1 rid pending, True)"
| "await_answer env rid (StdoutClosed # es) pending = (Told (Inl stdout_closed), es, [], False)"
| "await_answer env rid (StdoutFailed os # es) pending = (Told (Inl stdout_closed), es, [], False)"
| "await_answer env rid (Line l # es) pending =
     (case answered_id env l of
        None \<Rightarrow> await_answer env rid es pending
      | Some (i, message) \<Rightarrow>
          if i \<notin> set pending then await_answer env rid es pending
          else if i = rid then (Told (answer_of message), es, remove1 i pending, True)
          else await_answer env rid es (remove1 i pending))"


section \<open>Requests\<close>

definition request_json_rpc :: "string \<Rightarrow> u64 \<Rightarrow> json \<Rightarrow> json" where
  "request_json_rpc method rid params = json_object
     [(''method'', JString method), (''id'', json_u64 rid), (''params'', params)]"

definition no_answer :: "bool \<Rightarrow> string \<Rightarrow> error" where
  "no_answer may_have_started m =
     Root (if may_have_started then AcknowledgementUnknown m else Message m)"

definition timed_out :: "bool \<Rightarrow> string \<Rightarrow> error" where
  "timed_out may_have_started method =
     no_answer may_have_started (''app-server request timed out: '' @ method)"

definition closed_waiting :: "bool \<Rightarrow> string \<Rightarrow> error" where
  "closed_waiting may_have_started method =
     no_answer may_have_started (''app-server closed while waiting for '' @ method)"

definition client_request :: "rpc_env \<Rightarrow> bool \<Rightarrow> string \<Rightarrow> json \<Rightarrow> (json, rpc_client) step" where
  "client_request env may_have_started method params c =
     (let rid = jc_next_id c;
          c1 = c\<lparr>jc_next_id := rid + 1, jc_pending := jc_pending c @ [rid]\<rparr>
      in case client_send env (request_json_rpc method rid params) c1 of
           (Inl e, c2) \<Rightarrow>
             (Inl e, discard_unhealthy_process env (c2\<lparr>jc_pending := remove1 rid (jc_pending c2)\<rparr>))
         | (Inr _, c2) \<Rightarrow>
             if \<not> jc_reader c2
             then (Inl (timed_out may_have_started method),
                   discard_unhealthy_process env (c2\<lparr>jc_pending := remove1 rid (jc_pending c2)\<rparr>))
             else (case await_answer env rid (jc_events c2) (jc_pending c2) of
                 (Told r, es, pending, alive) \<Rightarrow>
                   (r, c2\<lparr>jc_events := es, jc_pending := pending, jc_reader := alive\<rparr>)
               | (Dropped, es, pending, alive) \<Rightarrow>
                   (Inl (closed_waiting may_have_started method),
                    discard_unhealthy_process env (c2\<lparr>jc_events := es, jc_pending := pending\<rparr>))
               | (Late, es, pending, alive) \<Rightarrow>
                   (Inl (timed_out may_have_started method),
                    discard_unhealthy_process env
                      (c2\<lparr>jc_events := es, jc_pending := remove1 rid pending\<rparr>))))"

section \<open>What a request's outcome says\<close>

text \<open>The answers to one request among the events.\<close>

definition answers_request :: "rpc_env \<Rightarrow> u64 \<Rightarrow> stdout_event \<Rightarrow> json \<Rightarrow> bool" where
  "answers_request env rid x message \<longleftrightarrow> (\<exists>l. x = Line l \<and> answered_id env l = Some (rid, message))"

lemma await_answer_told:
  assumes "await_answer env rid es pending = (Told r, es', pending', alive)"
  shows "(\<exists>x message. x \<in> set es \<and> answers_request env rid x message \<and> r = answer_of message) \<or>
    (r = Inl stdout_closed \<and> (StdoutClosed \<in> set es \<or> (\<exists>os. StdoutFailed os \<in> set es)))"
  using assms
proof (induction env rid es pending rule: await_answer.induct)
  case (6 env rid l es pending)
  show ?case
  proof (cases "answered_id env l")
    case None
    with 6(1) [OF None] 6(4) show ?thesis by auto
  next
    case (Some p)
    obtain i message where p: "p = (i, message)" by (cases p)
    consider (stale) "i \<notin> set pending" | (mine) "i \<in> set pending" "i = rid"
      | (other) "i \<in> set pending" "i \<noteq> rid" by blast
    then show ?thesis
    proof cases
      case stale
      with 6(2) [OF Some p [symmetric] stale] 6(4) Some p show ?thesis by auto
    next
      case mine
      with 6(4) Some p show ?thesis by (auto simp: answers_request_def)
    next
      case other
      with 6(3) [OF Some p [symmetric]] 6(4) Some p show ?thesis by auto
    qed
  qed
qed auto

lemma discard_frame [simp]:
  "jc_sent (discard_unhealthy_process env c) = jc_sent c"
  "jc_pending (discard_unhealthy_process env c) = []"
  "jc_child (discard_unhealthy_process env c) = False"
  by (simp_all add: discard_unhealthy_process_def reset_process_def poll_child_def kill_child_def)

text \<open>C27: The outcome of a request.  A value is the result in a line that carries this request's
  own number, never another request's.  A failure means that nothing was written
  completely, or that a line answered this very request with an error, or that the reader
  found the process's output closed, or that no answer came, in time or at all; and in that
  last case a request that may start something is reported as unknown, and only such a one.
  In every case at most this one message was sent.\<close>
theorem jsonrpc_request_outcome:
  assumes "client_request env may_have_started method params c = (r, c')"
  shows "(\<exists>w. jc_sent c' = jc_sent c \<or> jc_sent c' = jc_sent c @ [(request_json_rpc method (jc_next_id c) params, w)]) \<and>
    (case r of
       Inr v \<Rightarrow> \<exists>x message. x \<in> set (jc_events c) \<and> answers_request env (jc_next_id c) x message \<and>
         answer_of message = Inr v
     | Inl e \<Rightarrow>
         (\<forall>w. jc_sent c' \<noteq> jc_sent c @ [(request_json_rpc method (jc_next_id c) params, Inr w)]) \<or>
         (\<exists>x message. x \<in> set (jc_events c) \<and> answers_request env (jc_next_id c) x message \<and>
            answer_of message = Inl e) \<or>
         (e = stdout_closed \<and> (StdoutClosed \<in> set (jc_events c) \<or> (\<exists>os. StdoutFailed os \<in> set (jc_events c)))) \<or>
         ((e = timed_out may_have_started method \<or> e = closed_waiting may_have_started method) \<and>
            (acknowledgement_is_unknown e \<longleftrightarrow> may_have_started)))"
proof -
  let ?rid = "jc_next_id c" and ?m = "request_json_rpc method (jc_next_id c) params"
  let ?c1 = "c\<lparr>jc_next_id := ?rid + 1, jc_pending := jc_pending c @ [?rid]\<rparr>"
  obtain w c2 where sent: "client_send env ?m ?c1 = (w, c2)" by (metis surj_pair)
  show ?thesis
  proof (cases w)
    case (Inl e)
    with sent have "jc_sent c2 = jc_sent c \<or> jc_sent c2 = jc_sent c @ [(?m, Inl e)]"
      by (auto simp: client_send_def Let_def split: if_splits)
    with assms sent Inl show ?thesis by (auto simp: client_request_def Let_def)
  next
    case (Inr u)
    with sent have c2: "jc_sent c2 = jc_sent c @ [(?m, Inr u)]" "jc_events c2 = jc_events c"
      by (auto simp: client_send_def Let_def split: if_splits)
    obtain wt es pending alive where
      wait: "await_answer env ?rid (jc_events c2) (jc_pending c2) = (wt, es, pending, alive)"
      by (metis surj_pair)
    show ?thesis
    proof (cases "\<not> jc_reader c2 \<or> wt = Late \<or> wt = Dropped")
      case True
      with assms sent Inr wait c2 show ?thesis
        by (auto simp: client_request_def Let_def no_answer_def timed_out_def closed_waiting_def split: if_splits)
    next
      case False
      then obtain r' where wt: "wt = Told r'" "jc_reader c2" by (cases wt) auto
      with assms sent Inr wait have r: "r = r'" and c': "jc_sent c' = jc_sent c2"
        by (auto simp: client_request_def Let_def)
      from await_answer_told [OF wait [unfolded wt]] c2(2) r
      consider x message where "x \<in> set (jc_events c)" "answers_request env ?rid x message"
          "answer_of message = r"
        | "r = Inl stdout_closed" "StdoutClosed \<in> set (jc_events c) \<or> (\<exists>os. StdoutFailed os \<in> set (jc_events c))"
        by metis
      then show ?thesis
      proof cases
        case (1 x message)
        with c' c2(1) show ?thesis by (cases r) (simp_all only: sum.case, blast+)
      next
        case 2
        then show ?thesis using c' c2(1) by auto
      qed
    qed
  qed
qed

text \<open>
  The last case is no refusal: the message was written completely, and the process may
  have acted on it before its output closed.  It is reported as a plain failure all the
  same.
\<close>

lemma closed_output_reported_as_failure:
  assumes "jc_stdin c" and "jc_reader c" and "jv_write env (length (jc_sent c)) = Inr ()"
    and "jc_events c = StdoutClosed # es"
  shows "\<exists>c'. client_request env True ''turn/start'' params c = (Inl stdout_closed, c') \<and>
    jc_sent c' = jc_sent c @ [(request_json_rpc ''turn/start'' (jc_next_id c) params, Inr ())] \<and>
    \<not> acknowledgement_is_unknown stdout_closed"
  using assms by (simp add: client_request_def Let_def client_send_def stdout_closed_def)

definition example_rpc_env :: rpc_env where
  "example_rpc_env =
     \<lparr>jv_parse = (\<lambda>l. Some (json_object [(''id'', json_u64 7), (''result'', JString l)])),
      jv_write = (\<lambda>n. Inr ()), jv_exited = (\<lambda>n. Inr False), jv_kill = (\<lambda>n. Inr ()), jv_spawn = (\<lambda>n. Inr []),
      jv_resolve = (\<lambda>s. None)\<rparr>"

definition example_client :: rpc_client where
  "example_client =
     \<lparr>jc_command = [''codex''], jc_child = True, jc_stdin = True, jc_reader = True, jc_pending = [],
      jc_next_id = 7, jc_events = [Line ''done''], jc_sent = [], jc_polls = 0, jc_spawns = 1,
      jc_kills = 0\<rparr>"

theorem jsonrpc_request_outcome_witness:
  "\<exists>c'. client_request example_rpc_env True ''turn/start'' JNull example_client = (Inr (JString ''done''), c') \<and>
    (\<exists>w. jc_sent c' = [] \<or> jc_sent c' = [(request_json_rpc ''turn/start'' 7 JNull, w)])"
proof -
  have "answered_id example_rpc_env ''done'' =
      Some (7, json_object [(''id'', json_u64 7), (''result'', JString ''done'')])"
    by (simp add: answered_id_def example_rpc_env_def get_str_def json_get_object hm_get_def)
  moreover have "answer_of (json_object [(''id'', json_u64 7), (''result'', JString ''done'')]) =
      Inr (JString ''done'')"
    by (simp add: answer_of_def json_get_object hm_get_def)
  ultimately obtain c' where run: "client_request example_rpc_env True ''turn/start'' JNull example_client =
      (Inr (JString ''done''), c')"
    by (simp add: client_request_def Let_def client_send_def example_client_def)
      (simp add: example_rpc_env_def)
  from jsonrpc_request_outcome [OF run] run show ?thesis
    by (auto simp: example_client_def)
qed

end
