(* ===== verification/Codex_World.thy ===== *)
theory Codex_World
  imports Codex Jsonrpc
begin

text \<open>
  The Codex adapter on its own transports: the JSON-RPC client and, opened anew for every
  message, a connection to the Desktop application.  The lemmas follow the messages that
  start a turn through both.
\<close>


section \<open>The adapter's world\<close>

text \<open>\<open>lk_desktop\<close> is the connection the current operation has opened, if it has.\<close>

record link =
  lk_rpc :: rpc_client
  lk_desktop :: "desktop option"
  lk_connects :: nat

text \<open>What the n-th attempt to connect to Desktop meets.\<close>

record link_env =
  le_rpc :: rpc_env
  le_desktop :: "nat \<Rightarrow> desktop_env"
  le_endpoint :: "string result"
  le_uid :: u32
  le_parent :: "nat \<Rightarrow> stat_answer"
  le_socket :: "nat \<Rightarrow> stat_answer"
  le_answer :: "nat \<Rightarrow> connect_answer"
  le_inbox :: "nat \<Rightarrow> incoming list"

definition on_rpc :: "('a, rpc_client) step \<Rightarrow> ('a, link) step" where
  "on_rpc f l = (case f (lk_rpc l) of (r, c) \<Rightarrow> (r, l\<lparr>lk_rpc := c\<rparr>))"

definition on_desktop ::
    "link_env \<Rightarrow> (desktop_env \<Rightarrow> ('a option, desktop) step) \<Rightarrow> ('a option, link) step" where
  "on_desktop env f l =
     (case lk_desktop l of
        None \<Rightarrow> (Inr None, l)
      | Some d \<Rightarrow>
          (case f (le_desktop env (lk_connects l)) d of (r, d') \<Rightarrow> (r, l\<lparr>lk_desktop := Some d'\<rparr>)))"

definition open_desktop :: "link_env \<Rightarrow> (bool, link) step" where
  "open_desktop env l =
     (let n = lk_connects l + 1
      in case connect_default (le_desktop env n) (le_endpoint env) (le_uid env) (le_parent env n)
           (le_socket env n) (le_answer env n) (le_inbox env n) of
           Inl e \<Rightarrow> (Inl e, l\<lparr>lk_connects := n, lk_desktop := None\<rparr>)
         | Inr None \<Rightarrow> (Inr False, l\<lparr>lk_connects := n, lk_desktop := None\<rparr>)
         | Inr (Some d) \<Rightarrow> (Inr True, l\<lparr>lk_connects := n, lk_desktop := Some d\<rparr>))"

definition live_world :: "link_env \<Rightarrow> link world" where
  "live_world env =
     \<lparr>wd_start = on_rpc (client_start (le_rpc env)),
      wd_is_running = on_rpc (client_is_running (le_rpc env)),
      wd_close = on_rpc (client_close (le_rpc env)),
      wd_notify = (\<lambda>called params. on_rpc (client_notify (le_rpc env) called params)),
      wd_request = (\<lambda>unknown called params. on_rpc (client_request (le_rpc env) unknown called params)),
      wd_connect = open_desktop env,
      wd_start_recovery = (\<lambda>session_id prompt key.
        on_desktop env (\<lambda>denv. desktop_start_recovery denv session_id prompt key)),
      wd_send_message = (\<lambda>session_id message cwd.
        on_desktop env (\<lambda>denv. desktop_send_message denv session_id message cwd)),
      wd_interrupt = (\<lambda>session_id turn_id.
        on_desktop env (\<lambda>denv. desktop_interrupt denv session_id turn_id))\<rparr>"


section \<open>Messages that start a turn\<close>

text \<open>What the App Server was sent to start a turn or to steer a running one.\<close>

definition server_turns :: "rpc_client \<Rightarrow> (json \<times> unit result) list" where
  "server_turns c = filter (\<lambda>(m, w). get_str ''method'' m = Some ''turn/start'' \<or>
     get_str ''method'' m = Some ''turn/steer'') (jc_sent c)"

definition desktop_starts :: "link \<Rightarrow> (json \<times> unit result) list" where
  "desktop_starts l = (case lk_desktop l of None \<Rightarrow> [] | Some d \<Rightarrow> starts_of d)"

definition desktop_steers :: "link \<Rightarrow> (json \<times> unit result) list" where
  "desktop_steers l = (case lk_desktop l of None \<Rightarrow> [] | Some d \<Rightarrow> steers_of d)"

text \<open>How many turns an operation may have started or steered: through the server, through Desktop.\<close>

definition starts_within :: "nat \<Rightarrow> nat \<Rightarrow> link \<Rightarrow> link \<Rightarrow> bool" where
  "starts_within m n l l' \<longleftrightarrow>
     length (server_turns (lk_rpc l')) \<le> length (server_turns (lk_rpc l)) + m \<and>
     length (desktop_starts l') \<le> length (desktop_starts l) + n \<and>
     length (desktop_steers l') \<le> length (desktop_steers l) + n"

lemma request_json_rpc_method [simp]:
  "get_str ''method'' (request_json_rpc called rid params) = Some called"
  by (simp add: request_json_rpc_def get_str_object hm_get_def)

lemma client_send_sent:
  "client_send env m c = (r, c') \<Longrightarrow> \<exists>w. jc_sent c' = jc_sent c \<or> jc_sent c' = jc_sent c @ [(m, w)]"
  by (auto simp: client_send_def Let_def split: if_splits)

lemma client_request_sent:
  assumes "client_request env u called params c = (r, c')"
  shows "\<exists>w. jc_sent c' = jc_sent c \<or>
    jc_sent c' = jc_sent c @ [(request_json_rpc called (jc_next_id c) params, w)]"
proof -
  let ?c1 = "c\<lparr>jc_next_id := jc_next_id c + 1, jc_pending := jc_pending c @ [jc_next_id c]\<rparr>"
  obtain w c2 where sent: "client_send env (request_json_rpc called (jc_next_id c) params) ?c1 = (w, c2)"
    by (metis surj_pair)
  have "jc_sent c' = jc_sent c2"
    using assms sent
    by (auto simp: client_request_def Let_def split: prod.splits sum.splits waiting.splits if_splits)
  with client_send_sent [OF sent] show ?thesis by simp
qed

lemma client_request_starts:
  assumes "client_request env u called params c = (r, c')"
  shows "length (server_turns c') \<le> length (server_turns c) + (if called = ''turn/start'' \<or> called = ''turn/steer'' then 1 else 0)"
  using client_request_sent [OF assms] by (auto simp: server_turns_def)

lemma client_other_starts:
  "client_start env c = (r1, c1) \<Longrightarrow> server_turns c1 = server_turns c"
  "client_is_running env c = (r2, c2) \<Longrightarrow> server_turns c2 = server_turns c"
  by (auto simp: client_start_def client_is_running_def spawn_child_def reset_process_def poll_child_def
      bindS_def server_turns_def split: if_splits sum.splits prod.splits)

lemma client_notify_starts:
  assumes "client_notify env ''initialized'' params c = (r, c')"
  shows "server_turns c' = server_turns c"
  using client_send_sent [OF assms [unfolded client_notify_def]]
  by (auto simp: server_turns_def get_str_object hm_get_def)

text \<open>An operation of the adapter that starts at most so many turns.\<close>

definition bounded_starts :: "nat \<Rightarrow> nat \<Rightarrow> ('a, link codex) step \<Rightarrow> bool" where
  "bounded_starts m n f \<longleftrightarrow>
     (\<forall>c r c'. f c = (r, c') \<longrightarrow> starts_within m n (cx_world c) (cx_world c'))"

lemma bounded_bind:
  assumes "bounded_starts m n f" and "\<And>a. bounded_starts k l (g a)"
  shows "bounded_starts (m + k) (n + l) (bindS f g)"
proof -
  have "starts_within (m + k) (n + l) (cx_world c) (cx_world c')" if "bindS f g c = (r, c')" for c r c'
    using that
  proof (cases rule: bindS_cases)
    case (error e)
    with assms(1) show ?thesis by (fastforce simp: bounded_starts_def starts_within_def)
  next
    case (passed a c1)
    with assms have "starts_within m n (cx_world c) (cx_world c1)"
      and "starts_within k l (cx_world c1) (cx_world c')"
      by (auto simp: bounded_starts_def)
    then show ?thesis by (auto simp: starts_within_def)
  qed
  then show ?thesis by (simp add: bounded_starts_def)
qed

lemma bounded_bind_quiet:
  assumes "bounded_starts 0 0 f" and "\<And>a. bounded_starts k l (g a)"
  shows "bounded_starts k l (bindS f g)"
  using bounded_bind [OF assms] by simp

lemma bounded_mono: "bounded_starts m n f \<Longrightarrow> m \<le> m' \<Longrightarrow> n \<le> n' \<Longrightarrow> bounded_starts m' n' f"
  unfolding bounded_starts_def starts_within_def by (meson add_left_mono order_trans)

lemma bounded_same: "(\<And>c r c'. f c = (r, c') \<Longrightarrow> cx_world c' = cx_world c) \<Longrightarrow> bounded_starts m n f"
  by (simp add: bounded_starts_def starts_within_def)

lemma bounded_trivial [simp]:
  "bounded_starts m n (returnS a)" "bounded_starts m n (liftS r)" "bounded_starts m n (set_started b)"
  by (auto intro!: bounded_same simp: returnS_def liftS_def set_started_def)

lemma bounded_with_context: "bounded_starts m n f \<Longrightarrow> bounded_starts m n (with_contextS s f)"
  by (auto simp: bounded_starts_def with_contextS_def split: prod.splits)


section \<open>The live world\<close>

lemma bounded_rpc:
  assumes "\<And>c r c'. f c = (r, c') \<Longrightarrow> length (server_turns c') \<le> length (server_turns c) + m"
  shows "bounded_starts m 0 (on_world (on_rpc f))"
proof -
  have "starts_within m 0 l l'" if "on_rpc f l = (r, l')" for l r l'
    using that assms
    by (cases "f (lk_rpc l)") (auto simp: on_rpc_def starts_within_def desktop_starts_def desktop_steers_def)
  then show ?thesis by (auto simp: bounded_starts_def on_world_def split: prod.splits)
qed

lemma live_simps [simp]:
  "wd_request (live_world env) u called params = on_rpc (client_request (le_rpc env) u called params)"
  "wd_connect (live_world env) = open_desktop env"
  "wd_start_recovery (live_world env) session_id prompt key =
     on_desktop env (\<lambda>denv. desktop_start_recovery denv session_id prompt key)"
  "wd_send_message (live_world env) session_id message cwd =
     on_desktop env (\<lambda>denv. desktop_send_message denv session_id message cwd)"
  by (simp_all add: live_world_def)

lemma live_request:
  "bounded_starts (if called = ''turn/start'' \<or> called = ''turn/steer'' then 1 else 0) 0
     (on_world (wd_request (live_world env) u called params))"
  unfolding live_simps by (rule bounded_rpc) (rule client_request_starts)

lemma live_other_request:
  "called \<noteq> ''turn/start'' \<Longrightarrow> called \<noteq> ''turn/steer'' \<Longrightarrow>
     bounded_starts 0 0 (plain_request (live_world env) called params)"
  using live_request [of called env False params]
  by (simp only: plain_request_def if_False simp_thms)

lemma live_ensure_started: "bounded_starts 0 0 (ensure_started (live_world env) xenv)"
proof -
  have start: "bounded_starts 0 0 (on_world (wd_start (live_world env)))"
    and notify: "bounded_starts 0 0 (on_world (wd_notify (live_world env) ''initialized'' params))" for params
    by (simp_all add: live_world_def) (rule bounded_rpc, auto dest: client_other_starts client_notify_starts)+
  have running: "bounded_starts 0 0 (on_world (wd_is_running (live_world env)))"
    by (simp add: live_world_def) (rule bounded_rpc, auto dest: client_other_starts)
  have body: "bounded_starts 0 0
      (bindS (on_world (wd_start (live_world env))) (\<lambda>_.
       bindS (with_contextS ''cannot initialize Codex App Server''
         (plain_request (live_world env) ''initialize'' (initialize_params xenv))) (\<lambda>_.
       bindS (on_world (wd_notify (live_world env) ''initialized'' (json_object []))) (\<lambda>_.
         set_started True))))"
    by (intro bounded_bind_quiet start notify bounded_with_context live_other_request bounded_trivial) simp_all
  have codex_start: "bounded_starts 0 0 (codex_start (live_world env) xenv)"
    using body by (auto simp: bounded_starts_def codex_start_def starts_within_def split: if_splits)
  have restart: "bounded_starts 0 0 (bindS (set_started False) (\<lambda>_. codex_start (live_world env) xenv))"
    by (intro bounded_bind_quiet codex_start bounded_trivial)
  have again: "bounded_starts 0 0 (bindS (on_world (wd_is_running (live_world env)))
      (\<lambda>running. if running then returnS ()
        else bindS (set_started False) (\<lambda>_. codex_start (live_world env) xenv)))"
    by (intro bounded_bind_quiet running) (simp add: restart)
  show ?thesis
    using restart again by (auto simp: bounded_starts_def ensure_started_def split: if_splits)
qed

text \<open>A new connection has started nothing.\<close>

lemma open_desktop_starts:
  assumes "open_desktop env l = (r, l')"
  shows "lk_rpc l' = lk_rpc l \<and> desktop_starts l' = [] \<and> desktop_steers l' = []"
proof -
  let ?n = "lk_connects l + 1"
  have fresh: "starts_of d = [] \<and> steers_of d = []"
    if conn: "connect_default denv ep uid p s a inbox = Inr (Some d)" for denv ep uid p s a inbox d
  proof -
    let ?d0 = "\<lparr>ds_client_id = initial_client_id, ds_ids = 0, ds_inbox = inbox, ds_outbox = []\<rparr>"
    from conn obtain u where "desktop_initialize denv ?d0 = (Inr u, d)"
      by (auto simp: connect_default_def bindR_Inr_iff with_contextS_def split: prod.splits sum.splits if_splits
          elim!: with_context.elims)
    then show ?thesis
      unfolding desktop_initialize_def
      by (auto elim!: bindS_cases dest!: desktop_request_effect found_or_effect
          simp: set_client_id_def requests_of_def)
  qed
  show ?thesis
    using assms fresh
    by (auto simp: open_desktop_def Let_def desktop_starts_def desktop_steers_def split: sum.splits option.splits)
qed

lemma live_connect_starts:
  assumes "on_world (wd_connect (live_world env)) c = (r, c')"
  shows "lk_rpc (cx_world c') = lk_rpc (cx_world c) \<and> desktop_starts (cx_world c') = [] \<and>
    desktop_steers (cx_world c') = []"
  using assms by (auto simp: on_world_def dest: open_desktop_starts split: prod.splits)

lemma live_recovery_starts:
  assumes "on_world (wd_start_recovery (live_world env) session_id prompt key) c = (r, c')"
  shows "lk_rpc (cx_world c') = lk_rpc (cx_world c) \<and>
    length (desktop_starts (cx_world c')) \<le> length (desktop_starts (cx_world c)) + 1 \<and>
    desktop_steers (cx_world c') = desktop_steers (cx_world c) \<and>
    (r = Inr None \<longrightarrow> desktop_starts (cx_world c') = desktop_starts (cx_world c))"
proof (cases "lk_desktop (cx_world c)")
  case None
  with assms show ?thesis by (auto simp: on_world_def on_desktop_def)
next
  case (Some d)
  obtain q d' where run: "desktop_start_recovery (le_desktop env (lk_connects (cx_world c))) session_id prompt key d = (q, d')"
    by (metis surj_pair)
  with assms Some desktop_recovery_starts [OF run] show ?thesis
    by (auto simp: on_world_def on_desktop_def desktop_starts_def desktop_steers_def)
qed

lemma live_message_starts:
  assumes "on_world (wd_send_message (live_world env) session_id message cwd) c = (r, c')"
  shows "lk_rpc (cx_world c') = lk_rpc (cx_world c) \<and>
    length (desktop_starts (cx_world c')) \<le> length (desktop_starts (cx_world c)) + 1 \<and>
    (r = Inr None \<longrightarrow> desktop_starts (cx_world c') = desktop_starts (cx_world c) \<and>
       desktop_steers (cx_world c') = desktop_steers (cx_world c))"
proof (cases "lk_desktop (cx_world c)")
  case None
  with assms show ?thesis by (auto simp: on_world_def on_desktop_def)
next
  case (Some d)
  obtain q d' where run: "desktop_send_message (le_desktop env (lk_connects (cx_world c))) session_id message cwd d = (q, d')"
    by (metis surj_pair)
  with assms Some desktop_message_starts [OF run] show ?thesis
    by (auto simp: on_world_def on_desktop_def desktop_starts_def desktop_steers_def)
qed

lemma server_resume_starts: "bounded_starts 1 0 (resume_through_server (live_world env) session_id prompt key)"
proof -
  have "bounded_starts (if ''turn/start'' = ''turn/start'' \<or> ''turn/start'' = ''turn/steer'' then 1 else 0) 0
      (on_world (wd_request (live_world env) True ''turn/start'' params))" for params
    by (rule live_request)
  then have start: "bounded_starts 1 0 (on_world (wd_request (live_world env) True ''turn/start'' params))"
    for params by simp
  have "bounded_starts (0 + (1 + 0)) (0 + (0 + 0)) (resume_through_server (live_world env) session_id prompt key)"
    unfolding resume_through_server_def
    by (intro bounded_bind live_other_request start) (auto split: option.splits)
  then show ?thesis by simp
qed

lemma server_send_starts: "bounded_starts 1 0 (send_through_server (live_world env) session_id message)"
proof -
  have req: "bounded_starts 1 0 (plain_request (live_world env) called params)" for called params
    unfolding plain_request_def
    by (rule bounded_mono [OF live_request]) simp_all
  have "bounded_starts (0 + 1) (0 + 0) (send_through_server (live_world env) session_id message)"
    unfolding send_through_server_def
  proof (intro bounded_bind live_other_request)
    fix resumed
    show "bounded_starts 1 0 (case message_request resumed session_id message of
        (called, params, how) \<Rightarrow>
          bindS (plain_request (live_world env) called params) (\<lambda>result.
            case pointer_str (if how = Steered then [''turnId''] else [''turn'', ''id'']) result of
              None \<Rightarrow> liftS (bail (''Codex accepted '' @ called @ '' without returning a turn id''))
            | Some turn_id \<Rightarrow> returnS
                \<lparr>mr_provider = ''codex'', mr_session_id = session_id, mr_turn_id = turn_id,
                 mr_delivery = how, mr_transport = AppServer\<rparr>))"
    proof (cases "message_request resumed session_id message")
      case (fields called params how)
      have "bounded_starts (1 + 0) (0 + 0) (bindS (plain_request (live_world env) called params) (\<lambda>result.
            case pointer_str (if how = Steered then [''turnId''] else [''turn'', ''id'']) result of
              None \<Rightarrow> liftS (bail (''Codex accepted '' @ called @ '' without returning a turn id''))
            | Some turn_id \<Rightarrow> returnS
                \<lparr>mr_provider = ''codex'', mr_session_id = session_id, mr_turn_id = turn_id,
                 mr_delivery = how, mr_transport = AppServer\<rparr>))"
        by (intro bounded_bind req) (auto split: option.splits)
      with fields show ?thesis by simp
    qed
  qed simp_all
  then show ?thesis by simp
qed

lemma session_cwd_starts: "bounded_starts 0 0 (session_cwd (live_world env) xenv session_id)"
proof -
  have "bounded_starts 0 0 (plain_request (live_world env) ''thread/read'' params)" for params
    by (rule live_other_request) simp_all
  then show ?thesis
    by (fastforce simp: bounded_starts_def session_cwd_def split: prod.splits sum.splits)
qed

section \<open>One turn at most\<close>

definition total_starts :: "link \<Rightarrow> nat" where
  "total_starts l = length (server_turns (lk_rpc l)) + length (desktop_starts l)"

lemma bounded_total:
  "bounded_starts m n f \<Longrightarrow> f c = (r, c') \<Longrightarrow>
     length (server_turns (lk_rpc (cx_world c'))) \<le> length (server_turns (lk_rpc (cx_world c))) + m \<and>
     length (desktop_starts (cx_world c')) \<le> length (desktop_starts (cx_world c)) + n \<and>
     length (desktop_steers (cx_world c')) \<le> length (desktop_steers (cx_world c)) + n"
  by (simp add: bounded_starts_def starts_within_def)

lemma resume_starts:
  assumes "codex_resume (live_world env) xenv session_id prompt key c = (r, c')"
  shows "total_starts (cx_world c') \<le> total_starts (cx_world c) + 1 \<and>
    (\<forall>receipt. r = Inr receipt \<longrightarrow> rr_transport receipt = DesktopIpc \<longrightarrow>
       length (server_turns (lk_rpc (cx_world c'))) \<le> length (server_turns (lk_rpc (cx_world c)))) \<and>
    (\<forall>receipt. r = Inr receipt \<longrightarrow> rr_transport receipt = AppServer \<longrightarrow>
       desktop_starts (cx_world c') = [] \<and> desktop_steers (cx_world c') = [])"
  using assms unfolding codex_resume_def
proof (cases rule: bindS_cases)
  case (error e)
  with bounded_total [OF live_ensure_started error(1)] show ?thesis by (simp add: total_starts_def)
next
  case (passed u c1)
  note c1 = bounded_total [OF live_ensure_started passed(1)]
  from passed(2) show ?thesis
  proof (cases rule: bindS_cases)
    case (error e)
    with c1 live_connect_starts [OF error(1)] show ?thesis by (simp add: total_starts_def)
  next
    case connected: (passed b c2)
    note c2 = live_connect_starts [OF connected(1)]
    show ?thesis
    proof (cases b)
      case False
      with connected(2) have through: "resume_through_server (live_world env) session_id prompt key c2 = (r, c')"
        by simp
      have "r = Inr receipt \<Longrightarrow> rr_transport receipt = AppServer" for receipt
        using through
        by (auto simp: resume_through_server_def returnS_def liftS_def elim!: bindS_cases split: option.splits)
      with c1 c2 bounded_total [OF server_resume_starts through] show ?thesis
        by (auto simp: total_starts_def)
    next
      case True
      with connected(2) have "bindS (on_world (wd_start_recovery (live_world env) session_id prompt key))
          (\<lambda>taken. case taken of
             Some turn_id \<Rightarrow> returnS
               \<lparr>rr_provider = ''codex'', rr_session_id = session_id, rr_turn_id = turn_id,
                rr_transport = DesktopIpc\<rparr>
           | None \<Rightarrow> resume_through_server (live_world env) session_id prompt key) c2 = (r, c')"
        by simp
      then show ?thesis
      proof (cases rule: bindS_cases)
        case (error e)
        with c1 c2 live_recovery_starts [OF error(1)] show ?thesis by (simp add: total_starts_def)
      next
        case taken: (passed t c3)
        note c3 = live_recovery_starts [OF taken(1)]
        show ?thesis
        proof (cases t)
          case (Some turn_id)
          with taken(2) c1 c2 c3 show ?thesis by (auto simp: total_starts_def returnS_def)
        next
          case None
          with taken(2) have through: "resume_through_server (live_world env) session_id prompt key c3 = (r, c')"
            by simp
          have "r = Inr receipt \<Longrightarrow> rr_transport receipt = AppServer" for receipt
            using through
            by (auto simp: resume_through_server_def returnS_def liftS_def elim!: bindS_cases split: option.splits)
          with None c1 c2 c3 bounded_total [OF server_resume_starts through] show ?thesis
            by (auto simp: total_starts_def)
        qed
      qed
    qed
  qed
qed

lemma session_cwd_returns: "\<exists>cwd c'. session_cwd w xenv session_id c = (Inr cwd, c')"
proof -
  obtain r c1 where "plain_request w ''thread/read'' (thread_read_params session_id False) c = (r, c1)"
    by (metis surj_pair)
  then show ?thesis by (cases r) (simp_all add: session_cwd_def)
qed

lemma server_send_transport:
  assumes "send_through_server w session_id message c = (Inr receipt, c')"
  shows "mr_transport receipt = AppServer"
  using assms
  by (auto simp: send_through_server_def returnS_def liftS_def elim!: bindS_cases
      split: option.splits prod.splits if_splits)

text \<open>A message handed to the App Server, with nothing sent through Desktop before.\<close>

lemma message_through_server:
  assumes "send_through_server (live_world env) session_id message c = (r, c')"
    and "desktop_starts (cx_world c) = []" and "desktop_steers (cx_world c) = []"
  shows "length (server_turns (lk_rpc (cx_world c'))) \<le> length (server_turns (lk_rpc (cx_world c))) + 1 \<and>
    desktop_starts (cx_world c') = [] \<and> desktop_steers (cx_world c') = [] \<and>
    (\<forall>receipt. r = Inr receipt \<longrightarrow> mr_transport receipt = AppServer)"
  using bounded_total [OF server_send_starts assms(1)] assms(2,3)
    server_send_transport [of "live_world env" session_id message c _ c'] assms(1)
  by auto

lemma send_starts:
  assumes "codex_send_message (live_world env) xenv session_id message c = (r, c')"
  shows "total_starts (cx_world c') \<le> total_starts (cx_world c) + 1 \<and>
    (\<forall>receipt. r = Inr receipt \<longrightarrow> mr_transport receipt = DesktopIpc \<longrightarrow>
       length (server_turns (lk_rpc (cx_world c'))) \<le> length (server_turns (lk_rpc (cx_world c)))) \<and>
    (\<forall>receipt. r = Inr receipt \<longrightarrow> mr_transport receipt = AppServer \<longrightarrow>
       desktop_starts (cx_world c') = [] \<and> desktop_steers (cx_world c') = [])"
  using assms unfolding codex_send_message_def
proof (cases rule: bindS_cases)
  case (error e)
  with bounded_total [OF live_ensure_started error(1)] show ?thesis by (simp add: total_starts_def)
next
  case (passed u c1)
  note c1 = bounded_total [OF live_ensure_started passed(1)]
  from passed(2) show ?thesis
  proof (cases rule: bindS_cases)
    case (error e)
    with c1 live_connect_starts [OF error(1)] show ?thesis by (simp add: total_starts_def)
  next
    case connected: (passed b c2)
    note c2 = live_connect_starts [OF connected(1)]
    show ?thesis
    proof (cases b)
      case False
      with connected(2) have "send_through_server (live_world env) session_id message c2 = (r, c')" by simp
      with message_through_server [OF this] c1 c2 show ?thesis by (auto simp: total_starts_def)
    next
      case True
      obtain cwd c3 where dir: "session_cwd (live_world env) xenv session_id c2 = (Inr cwd, c3)"
        using session_cwd_returns by blast
      note c3 = bounded_total [OF session_cwd_starts dir]
      from connected(2) True dir have "bindS (on_world (wd_send_message (live_world env) session_id message cwd))
          (\<lambda>taken. case taken of
             Some d \<Rightarrow> returnS
               \<lparr>mr_provider = ''codex'', mr_session_id = session_id, mr_turn_id = dl_turn_id d,
                mr_delivery = dl_delivery d, mr_transport = DesktopIpc\<rparr>
           | None \<Rightarrow> send_through_server (live_world env) session_id message) c3 = (r, c')"
        by (simp add: bindS_def)
      then show ?thesis
      proof (cases rule: bindS_cases)
        case (error e)
        with c1 c2 c3 live_message_starts [OF error(1)] show ?thesis by (simp add: total_starts_def)
      next
        case taken: (passed t c4)
        note c4 = live_message_starts [OF taken(1)]
        show ?thesis
        proof (cases t)
          case (Some d)
          with taken(2) c1 c2 c3 c4 show ?thesis by (auto simp: total_starts_def returnS_def)
        next
          case None
          with taken(2) have "send_through_server (live_world env) session_id message c4 = (r, c')" by simp
          with message_through_server [OF this] None c1 c2 c3 c4 show ?thesis by (auto simp: total_starts_def)
        qed
      qed
    qed
  qed
qed

text \<open>C28: One call starts one turn.  A recovery through Codex, over both transports together
  and with the App Server started or replaced on the way, writes at most one message that
  starts a turn or steers one through the App Server; a user's message writes at most one
  that starts a turn, or reaches one through the App Server.  The receipt of either names the
  transport that was used: with a receipt of Desktop nothing was started or steered through
  the App Server, and with one of the App Server nothing was started or steered through
  Desktop.\<close>
theorem codex_starts_one_turn:
  assumes "codex_resume (live_world env) xenv session_id prompt key c = (r, c')"
    and "codex_send_message (live_world env) xenv session_id message d = (q, d')"
  shows "total_starts (cx_world c') \<le> total_starts (cx_world c) + 1 \<and>
    (\<forall>receipt. r = Inr receipt \<longrightarrow> rr_transport receipt = DesktopIpc \<longrightarrow>
       length (server_turns (lk_rpc (cx_world c'))) \<le> length (server_turns (lk_rpc (cx_world c)))) \<and>
    (\<forall>receipt. r = Inr receipt \<longrightarrow> rr_transport receipt = AppServer \<longrightarrow>
       desktop_starts (cx_world c') = [] \<and> desktop_steers (cx_world c') = []) \<and>
    total_starts (cx_world d') \<le> total_starts (cx_world d) + 1 \<and>
    (\<forall>receipt. q = Inr receipt \<longrightarrow> mr_transport receipt = DesktopIpc \<longrightarrow>
       length (server_turns (lk_rpc (cx_world d'))) \<le> length (server_turns (lk_rpc (cx_world d)))) \<and>
    (\<forall>receipt. q = Inr receipt \<longrightarrow> mr_transport receipt = AppServer \<longrightarrow>
       desktop_starts (cx_world d') = [] \<and> desktop_steers (cx_world d') = [])"
  using resume_starts [OF assms(1)] send_starts [OF assms(2)] by blast

definition example_link_env :: link_env where
  "example_link_env =
     \<lparr>le_rpc = example_rpc_env, le_desktop = (\<lambda>n. example_desktop_env),
      le_endpoint = Inr ''/home/u/.codex'', le_uid = 501, le_parent = (\<lambda>n. Missing),
      le_socket = (\<lambda>n. Missing), le_answer = (\<lambda>n. Unavailable), le_inbox = (\<lambda>n. [])\<rparr>"

definition example_link :: "link codex" where
  "example_link = \<lparr>cx_started = True,
     cx_world = \<lparr>lk_rpc = example_client\<lparr>jc_events := []\<rparr>, lk_desktop = None, lk_connects = 0\<rparr>\<rparr>"

theorem codex_starts_one_turn_witness:
  "total_starts (cx_world (snd (codex_resume (live_world example_link_env) example_codex_env ''s'' ''go'' ''k''
      example_link))) \<le> 1 \<and>
   total_starts (cx_world (snd (codex_send_message (live_world example_link_env) example_codex_env ''s'' ''go''
      example_link))) \<le> 1"
proof -
  obtain r c' q d' where
    run: "codex_resume (live_world example_link_env) example_codex_env ''s'' ''go'' ''k'' example_link = (r, c')"
      "codex_send_message (live_world example_link_env) example_codex_env ''s'' ''go'' example_link = (q, d')"
    by (metis surj_pair)
  have "total_starts (cx_world example_link) = 0"
    by (simp add: total_starts_def server_turns_def desktop_starts_def example_link_def example_client_def)
  with codex_starts_one_turn [OF run] run show ?thesis by simp
qed

end
