(* ===== verification/Reading.thy ===== *)
theory Reading
  imports Text
begin

text \<open>
  Reading a file of lines that another process is still writing: \<open>BufRead::read_line\<close>, the
  bytes that are UTF-8, and the lines of a content that are complete.  Both the transcripts
  of Claude and the log of the dialogs are read this way.
\<close>

text \<open>The bytes that \<open>from_utf8\<close> accepts.\<close>

definition byte_in :: "nat \<Rightarrow> nat \<Rightarrow> char \<Rightarrow> bool" where
  "byte_in lo hi c \<longleftrightarrow> lo \<le> byte c \<and> byte c \<le> hi"

fun utf8_rest :: "(nat \<times> nat) list \<Rightarrow> string \<Rightarrow> string option" where
  "utf8_rest [] s = Some s"
| "utf8_rest (r # rs) [] = None"
| "utf8_rest (r # rs) (c # s) = (if byte_in (fst r) (snd r) c then utf8_rest rs s else None)"

definition utf8_tail :: "char \<Rightarrow> (nat \<times> nat) list option" where
  "utf8_tail c =
     (if byte c < 128 then Some []
      else if byte_in 194 223 c then Some [(128, 191)]
      else if byte c = 224 then Some [(160, 191), (128, 191)]
      else if byte_in 225 236 c \<or> byte_in 238 239 c then Some [(128, 191), (128, 191)]
      else if byte c = 237 then Some [(128, 159), (128, 191)]
      else if byte c = 240 then Some [(144, 191), (128, 191), (128, 191)]
      else if byte_in 241 243 c then Some [(128, 191), (128, 191), (128, 191)]
      else if byte c = 244 then Some [(128, 143), (128, 191), (128, 191)]
      else None)"

lemma utf8_rest_length: "utf8_rest rs s = Some t \<Longrightarrow> length t \<le> length s"
  by (induction rs s rule: utf8_rest.induct) (auto split: if_splits)

function valid_utf8 :: "string \<Rightarrow> bool" where
  "valid_utf8 [] = True"
| "valid_utf8 (c # s) =
     (case utf8_tail c of
        None \<Rightarrow> False
      | Some rs \<Rightarrow> (case utf8_rest rs s of None \<Rightarrow> False | Some t \<Rightarrow> valid_utf8 t))"
  by pat_completeness auto
termination
  by (relation "measure length") (auto dest: utf8_rest_length)


text \<open>\<open>read_line\<close>: up to and with the next line feed, or to the end.\<close>

definition read_line :: "string \<Rightarrow> string" where
  "read_line s =
     takeWhile (\<lambda>c. c \<noteq> newline) s @ take 1 (dropWhile (\<lambda>c. c \<noteq> newline) s)"

lemma read_line_nonempty: "s \<noteq> [] \<Longrightarrow> read_line s \<noteq> []"
  by (cases s) (auto simp: read_line_def)

lemma read_line_Nil [simp]: "read_line [] = []"
  by (simp add: read_line_def)

definition unfinished :: "string \<Rightarrow> bool" where
  "unfinished chunk \<longleftrightarrow> chunk = [] \<or> last chunk \<noteq> newline"

lemma finished_shorter:
  assumes "\<not> unfinished (read_line s)"
  shows "s \<noteq> [] \<and> read_line s \<noteq> []"
  using assms by (auto simp: unfinished_def)

text \<open>The lines that end with a line feed; the last one may still be written.\<close>

function complete_lines :: "string \<Rightarrow> string list" where
  "complete_lines s =
     (let chunk = read_line s
      in if unfinished chunk then [] else chunk # complete_lines (drop (length chunk) s))"
  by pat_completeness auto
termination
  by (relation "measure length") (auto dest: finished_shorter)

declare complete_lines.simps [simp del]

text \<open>A finished line stays what it is when more is appended.\<close>

lemma read_line_at: "newline \<notin> set a \<Longrightarrow> read_line (a @ newline # b) = a @ [newline]"
  by (induction a) (auto simp: read_line_def)

lemma read_line_finished:
  assumes "\<not> unfinished (read_line s)"
  shows "read_line (s @ x) = read_line s \<and> length (read_line s) \<le> length s"
proof -
  have "newline \<in> set s"
  proof (rule ccontr)
    assume "newline \<notin> set s"
    then have all: "\<forall>c \<in> set s. c \<noteq> newline" by blast
    then have "takeWhile (\<lambda>c. c \<noteq> newline) s = s" by simp
    moreover from all have "dropWhile (\<lambda>c. c \<noteq> newline) s = []" by simp
    ultimately have "read_line s = s" by (simp only: read_line_def take_Nil append_Nil2)
    with assms have "s \<noteq> []" and "last s = newline" by (simp_all add: unfinished_def)
    with all show False using last_in_set by blast
  qed
  then obtain a b where s: "s = a @ newline # b" and a: "newline \<notin> set a"
    by (meson split_list_first)
  then have "read_line s = a @ [newline]" and "read_line (s @ x) = a @ [newline]"
    by (simp_all add: read_line_at)
  with s show ?thesis by simp
qed

definition complete_length :: "string \<Rightarrow> nat" where
  "complete_length s = sum_list (map length (complete_lines s))"

lemma complete_lines_unfinished:
  "unfinished (read_line s) \<Longrightarrow> complete_lines s = []"
  by (subst complete_lines.simps) simp

lemma complete_lines_finished:
  "\<not> unfinished (read_line s) \<Longrightarrow>
     complete_lines s = read_line s # complete_lines (drop (length (read_line s)) s)"
  by (subst complete_lines.simps) (simp add: Let_def)

lemma complete_length_le: "complete_length s \<le> length s"
proof (induction s rule: complete_lines.induct)
  case (1 s)
  show ?case
  proof (cases "unfinished (read_line s)")
    case False
    with 1 [OF refl False] read_line_finished [OF False, of "[]"] show ?thesis
      by (simp add: complete_length_def complete_lines_finished)
  qed (simp add: complete_length_def complete_lines_unfinished)
qed

lemma complete_lines_append:
  "complete_lines (s @ x) = complete_lines s @ complete_lines (drop (complete_length s) (s @ x))"
proof (induction s rule: complete_lines.induct)
  case (1 s)
  show ?case
  proof (cases "unfinished (read_line s)")
    case False
    note fin = read_line_finished [OF False]
    have "complete_length s =
        length (read_line s) + complete_length (drop (length (read_line s)) s)"
      using False by (simp add: complete_length_def complete_lines_finished)
    moreover have "complete_lines (s @ x) =
        read_line s # complete_lines (drop (length (read_line s)) s @ x)"
      using complete_lines_finished [of "s @ x"] False fin by simp
    ultimately show ?thesis
      using 1 [OF refl False] False fin
      by (simp add: complete_lines_finished add.commute [of "complete_length _"])
  qed (simp add: complete_length_def complete_lines_unfinished)
qed

end
