(* ===== verification/Paths.thy ===== *)
theory Paths
  imports Text Reading
begin

text \<open>
  Where Watchcat keeps its files: \<open>Paths::discover\<close> of \<open>config.rs\<close>, on the paths of the
  standard library for Unix.  A path is its bytes; two paths are the same when their
  components are, so \<open>/a//b\<close>, \<open>/a/./b\<close> and \<open>/a/b/\<close> are one.
\<close>


section \<open>Paths of the standard library\<close>

definition slash :: char where
  "slash = CHR 0x2F"

definition absolute :: "string \<Rightarrow> bool" where
  "absolute p \<longleftrightarrow> p \<noteq> [] \<and> hd p = slash"

text \<open>\<open>Path::join\<close>: an absolute second path replaces the first.\<close>

definition path_join :: "string \<Rightarrow> string \<Rightarrow> string" where
  "path_join a b =
     (if absolute b then b
      else if a = [] \<or> last a = slash then a @ b
      else a @ slash # b)"

text \<open>
  The names of a path: repeated separators and \<open>.\<close> count for nothing.  (A path that is not
  absolute can also begin with \<open>.\<close>, which is a component of its own.)
\<close>

fun path_parts :: "string \<Rightarrow> string list" where
  "path_parts [] = [[]]"
| "path_parts (c # s) =
     (if c = slash then [] # path_parts s
      else case path_parts s of [] \<Rightarrow> [[c]] | p # ps \<Rightarrow> (c # p) # ps)"

definition path_names :: "string \<Rightarrow> string list" where
  "path_names p = filter (\<lambda>n. n \<noteq> [] \<and> n \<noteq> ''.'') (path_parts p)"

text \<open>
  \<open>Path::parent\<close>, which cuts the path after its last but one component; separators and \<open>.\<close>
  at the end do not count.
\<close>

fun drop_trailing :: "string \<Rightarrow> string" where
  "drop_trailing [] = []"
| "drop_trailing (c # r) =
     (if c = slash \<or> (c = CHR ''.'' \<and> r \<noteq> [] \<and> hd r = slash) then drop_trailing r else c # r)"

definition path_parent :: "string \<Rightarrow> string option" where
  "path_parent p =
     (let r = drop_trailing (rev p)
      in if r = [] then None
         else let q = drop_trailing (dropWhile (\<lambda>c. c \<noteq> slash) r)
           in Some (if q = [] then if absolute p then [slash] else [] else rev q))"

text \<open>
  \<open>std::path::absolute\<close>: without asking the file system; exactly two leading separators and
  a separator at the end are kept.
\<close>

definition std_absolute :: "string result \<Rightarrow> string \<Rightarrow> string result" where
  "std_absolute cwd p =
     (if p = [] then bail ''cannot make an empty path absolute''
      else bindR
        (if absolute p
         then Inr (if starts_with [slash, slash] p \<and> \<not> starts_with [slash, slash, slash] p
                   then [slash, slash] else [slash])
         else cwd)
        (\<lambda>base.
          let q = foldl path_join base (path_names p)
          in Inr (if last p = slash then path_join q [] else q)))"

lemma path_parts_nonempty [simp]: "path_parts s \<noteq> []"
  by (cases s) (auto split: list.splits)

lemma path_parts_slash:
  "path_parts (a @ slash # b) = path_parts a @ path_parts b"
proof (induction a)
  case (Cons c a)
  then show ?case
    by (cases "path_parts a") auto
qed simp

lemma path_names_slash [simp]: "path_names (a @ slash # b) = path_names a @ path_names b"
  by (simp add: path_names_def path_parts_slash)

lemma path_names_Nil [simp]: "path_names [] = []"
  by (simp add: path_names_def)

lemma path_names_Cons_slash [simp]: "path_names (slash # b) = path_names b"
  using path_names_slash [of "[]" b] by simp

lemma path_names_end_slash [simp]: "path_names (a @ [slash]) = path_names a"
  using path_names_slash [of a "[]"] by simp

lemma path_parts_plain: "slash \<notin> set n \<Longrightarrow> path_parts n = [n]"
  by (induction n) auto

definition single_name :: "string \<Rightarrow> bool" where
  "single_name n \<longleftrightarrow> n \<noteq> [] \<and> n \<noteq> ''.'' \<and> slash \<notin> set n"

lemma path_names_single [simp]: "single_name n \<Longrightarrow> path_names n = [n]"
  by (simp add: single_name_def path_names_def path_parts_plain)

lemma path_parts_no_slash: "n \<in> set (path_parts s) \<Longrightarrow> slash \<notin> set n"
  by (induction s arbitrary: n) (auto split: if_splits list.splits)

lemma path_names_are_plain: "n \<in> set (path_names p) \<Longrightarrow> single_name n"
  by (auto simp: path_names_def single_name_def dest: path_parts_no_slash)

lemma single_not_absolute: "single_name n \<Longrightarrow> \<not> absolute n"
  by (cases n) (auto simp: single_name_def absolute_def)

lemma absolute_join [simp]: "absolute a \<Longrightarrow> absolute (path_join a b)"
  by (auto simp: path_join_def absolute_def)

lemma path_join_absolute [simp]: "absolute b \<Longrightarrow> path_join a b = b"
  by (simp add: path_join_def)

lemma path_names_join:
  assumes "\<not> absolute b"
  shows "path_names (path_join a b) = path_names a @ path_names b"
proof -
  consider "a = []" | c where "a = c @ [slash]" | "a \<noteq> []" and "last a \<noteq> slash"
    by (metis append_butlast_last_id)
  then show ?thesis
  proof cases
    case 2
    then have "path_join a b = c @ slash # b" using assms by (simp add: path_join_def)
    with 2 show ?thesis by simp
  qed (use assms in \<open>simp_all add: path_join_def\<close>)
qed

lemma path_names_join_single [simp]:
  "single_name n \<Longrightarrow> path_names (path_join a n) = path_names a @ [n]"
  by (simp add: path_names_join single_not_absolute)

lemma drop_trailing_names: "path_names (rev (drop_trailing r)) = path_names (rev r)"
proof (induction r)
  case (Cons c r)
  show ?case
  proof (cases "c = slash \<or> (c = CHR ''.'' \<and> r \<noteq> [] \<and> hd r = slash)")
    case True
    have "path_names (rev r @ [c]) = path_names (rev r)"
    proof (cases "c = slash")
      case False
      with True obtain q where "c = CHR ''.''" and "r = slash # q"
        by (cases r) auto
      moreover have "path_names ''.'' = []" by (simp add: path_names_def slash_def)
      ultimately show ?thesis by simp
    qed simp
    with True Cons show ?thesis by auto
  next
    case False
    then have "drop_trailing (c # r) = c # r" by auto
    then show ?thesis by (simp only:)
  qed
qed simp

lemma drop_trailing_suffix: "\<exists>d. r = d @ drop_trailing r"
proof (induction r)
  case (Cons c r)
  then obtain d where "r = d @ drop_trailing r" by blast
  then have "c # r = (c # d) @ drop_trailing r" by simp
  moreover have "drop_trailing (c # r) = drop_trailing r \<or> drop_trailing (c # r) = c # r"
    by simp
  ultimately show ?case by (metis append_Nil)
qed simp

lemma drop_trailing_single:
  assumes "single_name n"
  shows "drop_trailing (rev n @ s) = rev n @ s"
proof -
  obtain c m where n: "rev n = c # m"
    using assms by (cases "rev n") (auto simp: single_name_def)
  then have "set (c # m) = set n"
    by (metis set_rev)
  then have "slash \<notin> set (c # m)"
    using assms by (simp add: single_name_def)
  moreover have "c \<noteq> CHR ''.'' \<or> m \<noteq> []"
    using assms n by (auto simp: single_name_def)
  ultimately have "\<not> (c = slash \<or> (c = CHR ''.'' \<and> m @ s \<noteq> [] \<and> hd (m @ s) = slash))"
    by (cases m) auto
  then show ?thesis by (auto simp: n)
qed

lemma drop_trailing_head:
  "drop_trailing r = c # q \<Longrightarrow> c \<noteq> slash \<and> (c = CHR ''.'' \<longrightarrow> q = [] \<or> hd q \<noteq> slash)"
  by (induction r) (auto split: if_splits)

text \<open>An absolute path has a parent unless it is the root.\<close>

lemma path_parent_None: "path_names p \<noteq> [] \<Longrightarrow> path_parent p \<noteq> None"
  using drop_trailing_names [of "rev p"]
  by (cases "drop_trailing (rev p)") (auto simp: path_parent_def Let_def)

lemma path_parent_Some:
  assumes "path_parent p = Some d" and abs: "absolute p"
  shows "path_names p \<noteq> []"
proof -
  from assms(1) obtain c q where r: "drop_trailing (rev p) = c # q"
    by (cases "drop_trailing (rev p)") (auto simp: path_parent_def)
  define seg where "seg = rev (takeWhile (\<lambda>c. c \<noteq> slash) (c # q))"
  define rest where "rest = dropWhile (\<lambda>c. c \<noteq> slash) (c # q)"
  have split: "rev (c # q) = rev rest @ seg"
    unfolding seg_def rest_def rev_append [symmetric] takeWhile_dropWhile_id ..
  obtain x where x: "rev p = x @ (c # q)" using drop_trailing_suffix [of "rev p"] r by auto
  have "rev (rev p) = rev (c # q) @ rev x" unfolding x by (rule rev_append)
  then have pre: "p = rev (c # q) @ rev x" by (simp only: rev_rev_ident)
  have head: "c \<noteq> slash" "c = CHR ''.'' \<longrightarrow> q = [] \<or> hd q \<noteq> slash"
    using drop_trailing_head [OF r] by auto
  have "slash \<notin> set seg" by (auto simp: seg_def dest: set_takeWhileD)
  moreover have "seg \<noteq> []" using head by (simp add: seg_def)
  moreover have "seg \<noteq> ''.''"
  proof
    assume dot: "seg = ''.''"
    then have one: "takeWhile (\<lambda>c. c \<noteq> slash) (c # q) = ''.''" by (simp add: seg_def)
    with head have c: "c = CHR ''.''" by auto
    with one have "takeWhile (\<lambda>c. c \<noteq> slash) q = []" by (auto simp: slash_def)
    with head c have "q = []" by (cases q) auto
    with pre c abs show False by (simp add: absolute_def slash_def)
  qed
  ultimately have plain: "single_name seg" by (simp add: single_name_def)
  have "path_names (rev rest @ seg) = path_names (rev rest) @ [seg]"
  proof (cases rest)
    case (Cons a l)
    then have "dropWhile (\<lambda>c. c \<noteq> slash) (c # q) = a # l" by (simp only: rest_def)
    then have a: "a = slash" unfolding dropWhile_eq_Cons_conv by blast
    have "rev rest @ seg = rev l @ slash # seg" by (simp only: Cons a rev.simps append.assoc append_Cons append_Nil)
    then have "path_names (rev rest @ seg) = path_names (rev l) @ path_names seg" by (simp only: path_names_slash)
    moreover have "path_names (rev rest) = path_names (rev l)"
      by (simp only: Cons a rev.simps path_names_end_slash)
    ultimately show ?thesis using path_names_single [OF plain] by (simp only:)
  qed (use path_names_single [OF plain] in \<open>simp only: rev.simps append_Nil path_names_Nil\<close>)
  then have "path_names (rev (c # q)) = path_names (rev rest) @ [seg]"
    by (simp only: split)
  moreover have "path_names (rev (c # q)) = path_names p"
    using drop_trailing_names [of "rev p"] by (simp only: r rev_rev_ident)
  ultimately have "path_names p = path_names (rev rest) @ [seg]" by (simp only:)
  then show ?thesis by simp
qed

text \<open>The parent of a file in a directory is that directory.\<close>

lemma path_parent_join:
  assumes dir: "absolute d" and name: "single_name n"
  shows "\<exists>p. path_parent (path_join d n) = Some p \<and> absolute p \<and> path_names p = path_names d"
proof -
  have n: "\<not> absolute n" using name by (rule single_not_absolute)
  obtain e where j: "path_join d n = e @ slash # n" and e: "path_names (e @ [slash]) = path_names d"
    and abs: "absolute (e @ [slash])"
  proof (cases "last d = slash")
    case True
    with dir have d: "d = butlast d @ [slash]"
      by (metis absolute_def append_butlast_last_id)
    with n True have "path_join d n = butlast d @ slash # n"
      by (metis append.assoc append_Cons append_Nil path_join_def)
    with d dir that show ?thesis by metis
  next
    case False
    with n dir have "path_join d n = d @ slash # n"
      by (auto simp: path_join_def absolute_def)
    moreover have "absolute (d @ [slash])" using dir by (simp add: absolute_def)
    ultimately show ?thesis using that by simp
  qed
  define q where "q = drop_trailing (slash # rev e)"
  have "dropWhile (\<lambda>c. c \<noteq> slash) (rev n @ slash # rev e) = slash # rev e"
    using name by (subst dropWhile_append2) (auto simp: single_name_def)
  then have parent: "path_parent (path_join d n) = Some (if q = [] then [slash] else rev q)"
    using dir absolute_join [OF dir, of n] name
    by (auto simp: path_parent_def j drop_trailing_single q_def single_name_def Let_def)
  have names: "path_names (rev q) = path_names d"
    unfolding q_def drop_trailing_names using e by simp
  have "absolute (rev q)" if q: "q \<noteq> []"
  proof -
    obtain x where "slash # rev e = x @ q" unfolding q_def using drop_trailing_suffix by blast
    then have "e @ [slash] = rev q @ rev x" by (metis rev.simps(2) rev_append rev_rev_ident)
    with abs q show ?thesis by (simp add: absolute_def hd_append)
  qed
  with parent names show ?thesis
    by (cases "q = []") (auto simp: absolute_def)
qed

lemma foldl_join:
  "\<forall>n \<in> set ns. single_name n \<Longrightarrow>
     path_names (foldl path_join b ns) = path_names b @ ns \<and>
     (absolute b \<longrightarrow> absolute (foldl path_join b ns))"
  by (induction ns arbitrary: b) simp_all

text \<open>Where a path leads from a directory: the names from the root on.\<close>

definition place_of :: "string \<Rightarrow> string \<Rightarrow> string list" where
  "place_of cwd p = path_names (path_join cwd p)"

lemma std_absolute_place:
  assumes "std_absolute (Inr cwd) p = Inr q" and "absolute cwd"
  shows "absolute q \<and> path_names q = place_of cwd p"
proof -
  define base where "base = (if absolute p
      then if starts_with [slash, slash] p \<and> \<not> starts_with [slash, slash, slash] p
        then [slash, slash] else [slash] else cwd)"
  define f where "f = foldl path_join base (path_names p)"
  have plain: "\<forall>n \<in> set (path_names p). single_name n"
    by (simp add: path_names_are_plain)
  have q: "q = (if last p = slash then path_join f [] else f)"
    using assms(1) by (auto simp: std_absolute_def base_def f_def Let_def split: if_splits)
  have "absolute base" using assms(2) by (simp add: base_def absolute_def)
  with foldl_join [OF plain, of base] have f: "absolute f" "path_names f = path_names base @ path_names p"
    by (simp_all add: f_def)
  have base: "path_names base @ path_names p = place_of cwd p"
    by (auto simp: base_def place_of_def path_names_join)
  have "path_names (path_join f []) = path_names f"
    by (simp add: path_names_join absolute_def)
  with f base show ?thesis by (simp add: q)
qed


section \<open>Discovery\<close>

record paths =
  pa_config_file :: string
  pa_watchlist_file :: string
  pa_state_file :: string
  pa_control_state_file :: string
  pa_event_log_file :: string
  pa_retry_operations_file :: string
  pa_lock_file :: string
  pa_socket_file :: string

text \<open>
  What a process finds around it: the directories of the platform (the directories crate;
  \<open>None\<close> when there is no home), its environment and its working directory.
\<close>

record platform_dirs =
  pd_config :: string
  pd_state :: "string option"
  pd_data_local :: string

record surroundings =
  su_dirs :: "platform_dirs option"
  su_var :: "string \<Rightarrow> string option"
  su_cwd :: "string result"

definition absolute_path :: "string result \<Rightarrow> string \<Rightarrow> string result" where
  "absolute_path cwd p =
     (if absolute p then Inr p
      else bindR (with_context ''cannot determine current directory'' cwd) (\<lambda>d. Inr (path_join d p)))"

definition config_file_of ::
    "surroundings \<Rightarrow> platform_dirs \<Rightarrow> string option \<Rightarrow> string result" where
  "config_file_of su dirs config_override =
     (case config_override of
        Some p \<Rightarrow> absolute_path (su_cwd su) p
      | None \<Rightarrow>
          Inr (path_join (unwrap_or (su_var su ''WATCHCAT_CONFIG_DIR'') (pd_config dirs)) ''config.toml''))"

definition discover_paths :: "surroundings \<Rightarrow> string option \<Rightarrow> paths result" where
  "discover_paths su config_override =
     bindR (ok_or (Root (Message ''cannot determine configuration directories'')) (su_dirs su)) (\<lambda>dirs.
     bindR (config_file_of su dirs config_override) (\<lambda>config_file.
     bindR (ok_or (Root (Message ''configuration path has no parent'')) (path_parent config_file))
       (\<lambda>config_dir.
     bindR (absolute_path (su_cwd su)
         (unwrap_or (su_var su ''WATCHCAT_STATE_DIR'') (unwrap_or (pd_state dirs) (pd_data_local dirs))))
       (\<lambda>state_dir.
     bindR (absolute_path (su_cwd su)
         (unwrap_or (su_var su ''WATCHCAT_WATCHLIST'') (path_join config_dir ''watchlist.json'')))
       (\<lambda>watchlist_file. Inr
         \<lparr>pa_config_file = config_file, pa_watchlist_file = watchlist_file,
          pa_state_file = path_join state_dir ''state.json'',
          pa_control_state_file = path_join state_dir ''control.json'',
          pa_event_log_file = path_join state_dir ''events.jsonl'',
          pa_retry_operations_file = path_join state_dir ''retry-operations.json'',
          pa_lock_file = path_join state_dir ''watchcat.lock'',
          pa_socket_file = path_join state_dir ''watchcat.sock''\<rparr>)))))"

text \<open>The files of a process in one directory and of another in another are the same ones.\<close>

definition same_files :: "string \<Rightarrow> paths \<Rightarrow> string \<Rightarrow> paths \<Rightarrow> bool" where
  "same_files cwd p cwd' p' \<longleftrightarrow>
     list_all (\<lambda>file_of. place_of cwd (file_of p) = place_of cwd' (file_of p'))
       [pa_config_file, pa_watchlist_file, pa_state_file, pa_control_state_file, pa_event_log_file,
        pa_retry_operations_file, pa_lock_file, pa_socket_file]"

lemma absolute_path_Inr:
  "absolute_path (Inr cwd) p = Inr q \<Longrightarrow> absolute cwd \<Longrightarrow> absolute q \<and> q = path_join cwd p"
  by (auto simp: absolute_path_def split: if_splits)

lemma absolute_path_absolute [simp]: "absolute p \<Longrightarrow> absolute_path cwd p = Inr p"
  by (simp add: absolute_path_def)

lemma state_names [simp]:
  "single_name ''state.json''" "single_name ''control.json''" "single_name ''events.jsonl''"
  "single_name ''retry-operations.json''" "single_name ''watchcat.lock''" "single_name ''watchcat.sock''"
  "single_name ''watchcatd.log''" "single_name ''watchcatd.err.log''" "single_name ''config.toml''"
  "single_name ''watchlist.json''" "single_name ''watchcatd''"
  by (simp_all add: single_name_def slash_def)

text \<open>What discovery ensures: everything but the configuration is at an absolute place.\<close>

definition state_files :: "string \<Rightarrow> paths \<Rightarrow> bool" where
  "state_files d p \<longleftrightarrow>
     pa_state_file p = path_join d ''state.json'' \<and>
     pa_control_state_file p = path_join d ''control.json'' \<and>
     pa_event_log_file p = path_join d ''events.jsonl'' \<and>
     pa_retry_operations_file p = path_join d ''retry-operations.json'' \<and>
     pa_lock_file p = path_join d ''watchcat.lock'' \<and>
     pa_socket_file p = path_join d ''watchcat.sock''"

lemma discover_Inr:
  assumes "discover_paths su ov = Inr p" and "su_cwd su = Inr cwd" and "absolute cwd"
  shows "\<exists>d. absolute d \<and> state_files d p \<and> absolute (pa_watchlist_file p)"
  using assms
  by (auto simp: discover_paths_def bindR_Inr_iff state_files_def dest!: absolute_path_Inr)

lemma discover_config_names:
  assumes p: "discover_paths su ov = Inr p" and cwd: "su_cwd su = Inr cwd" "absolute cwd"
  shows "place_of cwd (pa_config_file p) \<noteq> []"
proof (cases ov)
  case None
  with p obtain dir where "pa_config_file p = path_join dir ''config.toml''"
    by (auto simp: discover_paths_def bindR_Inr_iff config_file_of_def)
  moreover have "place_of cwd (path_join dir ''config.toml'') \<noteq> []"
    by (cases "absolute (path_join dir ''config.toml'')") (simp_all add: place_of_def path_names_join)
  ultimately show ?thesis by simp
next
  case (Some f)
  with p cwd obtain d where "absolute_path (Inr cwd) f = Inr (pa_config_file p)"
    and "path_parent (pa_config_file p) = Some d"
    by (auto simp: discover_paths_def bindR_Inr_iff config_file_of_def)
  with absolute_path_Inr cwd(2) path_parent_Some have
    "absolute (pa_config_file p)" "path_names (pa_config_file p) \<noteq> []" by blast+
  then show ?thesis by (simp add: place_of_def)
qed

text \<open>
  A process that is given the configuration and, in its environment, the state directory
  and the watch list of another one, uses the files of that one, wherever it runs.
\<close>

lemma discover_same_files:
  assumes p: "discover_paths su ov = Inr p" and cwd: "su_cwd su = Inr cwd" "absolute cwd"
    and config: "std_absolute (Inr cwd) (pa_config_file p) = Inr config"
    and state: "path_parent (pa_state_file p) = Some state"
    and dirs: "su_dirs su' \<noteq> None"
    and vars: "su_var su' ''WATCHCAT_STATE_DIR'' = Some state"
      "su_var su' ''WATCHCAT_WATCHLIST'' = Some (pa_watchlist_file p)"
  shows "\<exists>p'. discover_paths su' (Some config) = Inr p' \<and> same_files cwd p cwd' p'"
proof -
  from discover_Inr [OF p cwd] obtain d where d: "absolute d" "state_files d p"
    and w: "absolute (pa_watchlist_file p)" by blast
  from std_absolute_place [OF config cwd(2)]
  have c: "absolute config" "path_names config = place_of cwd (pa_config_file p)" by auto
  from path_parent_join [OF d(1), of "''state.json''"] d(2) state
  have s: "absolute state" "path_names state = path_names d"
    by (auto simp: state_files_def)
  obtain dirs' where dirs': "su_dirs su' = Some dirs'" using dirs by auto
  have "path_names config \<noteq> []"
    using c(2) discover_config_names [OF p cwd] by simp
  then obtain parent' where parent': "path_parent config = Some parent'"
    using path_parent_None by blast
  have "\<exists>p'. discover_paths su' (Some config) = Inr p' \<and> pa_config_file p' = config \<and>
      pa_watchlist_file p' = pa_watchlist_file p \<and> state_files state p'"
    using c s w vars dirs' parent' by (simp add: discover_paths_def config_file_of_def state_files_def)
  then obtain p' where p': "discover_paths su' (Some config) = Inr p'" "pa_config_file p' = config"
    "pa_watchlist_file p' = pa_watchlist_file p" "state_files state p'" by blast
  have "same_files cwd p cwd' p'"
    using d(2) p'(2-4) c s d(1) w by (simp add: same_files_def state_files_def place_of_def)
  with p'(1) show ?thesis by blast
qed

end
