(* ===== verification/Executables.thy ===== *)
theory Executables
  imports Paths Jsonrpc
begin

text \<open>
  How the App Server's executable is found (\<open>resolve_executable\<close> of \<open>jsonrpc.rs\<close>): a path is
  taken as it is, a name is looked for in the directories of \<open>PATH\<close> and then in the usual
  ones.  Which paths are files, and the environment, are arguments.
\<close>


text \<open>\<open>Path::components().count()\<close>: the root and a leading \<open>.\<close> count.\<close>

definition component_count :: "string \<Rightarrow> nat" where
  "component_count p =
     (if absolute p \<or> hd (path_parts p) = ''.'' then 1 else 0) + length (path_names p)"

text \<open>\<open>env::split_paths\<close> on Unix.\<close>

fun split_paths :: "string \<Rightarrow> string list" where
  "split_paths [] = [[]]"
| "split_paths (c # s) =
     (if c = CHR '':'' then [] # split_paths s
      else case split_paths s of [] \<Rightarrow> [[c]] | p # ps \<Rightarrow> (c # p) # ps)"

definition executable_candidates :: "string option \<Rightarrow> string option \<Rightarrow> string \<Rightarrow> string list" where
  "executable_candidates path home name =
     (case path of None \<Rightarrow> [] | Some p \<Rightarrow> map (\<lambda>d. path_join d name) (split_paths p)) @
     [path_join ''/opt/homebrew/bin'' name, path_join ''/usr/local/bin'' name] @
     (case home of None \<Rightarrow> []
      | Some h \<Rightarrow> map (\<lambda>d. path_join (path_join h d) name) [''.local/bin'', ''.cargo/bin''])"

definition resolve_executable ::
    "(string \<Rightarrow> bool) \<Rightarrow> string option \<Rightarrow> string option \<Rightarrow> string \<Rightarrow> string option" where
  "resolve_executable is_file path home name =
     (if component_count name > 1 then (if is_file name then Some name else None)
      else find is_file (executable_candidates path home name))"

lemma split_paths_join: "split_paths s \<noteq> [] \<and> join_text '':'' (split_paths s) = s"
proof (induction s)
  case (Cons c s)
  then obtain p ps where "split_paths s = p # ps" by (cases "split_paths s") auto
  with Cons show ?case by (cases ps) auto
qed simp

lemma split_paths_plain: "d \<in> set (split_paths s) \<Longrightarrow> CHR '':'' \<notin> set d"
proof (induction s arbitrary: d)
  case (Cons c s)
  then show ?case by (cases "split_paths s") (auto split: if_splits)
qed simp

text \<open>
  What is resolved is a file, it is the name itself when that is a path, and otherwise the
  name in the first directory that has it: those of \<open>PATH\<close> in their order come first.
\<close>

lemma resolve_executable_first:
  assumes "resolve_executable is_file path home name = Some found"
  shows "is_file found \<and>
    (if component_count name > 1 then found = name
     else \<exists>before after. executable_candidates path home name = before @ found # after \<and>
       (\<forall>c \<in> set before. \<not> is_file c))"
proof (cases "component_count name > 1")
  case False
  then have "find is_file (executable_candidates path home name) = Some found"
    using assms by (simp add: resolve_executable_def)
  then obtain i where i: "i < length (executable_candidates path home name)"
    "is_file (executable_candidates path home name ! i)" "found = executable_candidates path home name ! i"
    "\<forall>j < i. \<not> is_file (executable_candidates path home name ! j)" by (auto simp: find_Some_iff)
  then have "executable_candidates path home name =
      take i (executable_candidates path home name) @ found # drop (Suc i) (executable_candidates path home name)"
    by (simp add: id_take_nth_drop)
  moreover have "\<forall>c \<in> set (take i (executable_candidates path home name)). \<not> is_file c"
    using i(1,4) by (auto simp: in_set_conv_nth)
  ultimately show ?thesis using False i(2,3) by auto
qed (use assms in \<open>auto simp: resolve_executable_def split: if_splits\<close>)

lemma resolve_executable_none:
  "resolve_executable is_file path home name = None \<longleftrightarrow>
     (if component_count name > 1 then \<not> is_file name
      else \<forall>c \<in> set (executable_candidates path home name). \<not> is_file c)"
  by (auto simp: resolve_executable_def find_None_iff)

text \<open>The command that is started: the program resolved, its arguments as they are.\<close>

lemma new_client_resolves:
  assumes "jv_resolve env = resolve_executable is_file path home"
    and "new_client env (program # args) = Inr c"
  shows "jc_command c = unwrap_or (resolve_executable is_file path home program) program # args"
  using assms by (auto simp: new_client_def)

end
