(* ===== verification/Windows_Pipe.thy ===== *)
theory Windows_Pipe
  imports Steps
begin

text \<open>
  The named pipe of Codex Desktop on Windows (\<open>connect_platform\<close> and \<open>windows_identity\<close> of
  \<open>codex_desktop.rs\<close>): waiting for a busy pipe, and accepting only a server of the same user.
  The answers of the Win32 calls are arguments; the handles a process owns are explicit, so
  that leaks, double closes and uses of a closed handle are visible.
\<close>


section \<open>Handles\<close>

text \<open>The handles that are open, and whether a call broke the rules for them or for a buffer.\<close>

record handles =
  ha_open :: "nat list"
  ha_broken :: bool

text \<open>The pseudo handle of the current process is always valid, and is never closed.\<close>

datatype handle = Owned nat | Current_Process

definition valid_handle :: "handle \<Rightarrow> handles \<Rightarrow> bool" where
  "valid_handle h s = (case h of Owned n \<Rightarrow> n \<in> set (ha_open s) | Current_Process \<Rightarrow> True)"

definition using_handle :: "handle \<Rightarrow> (unit, handles) step" where
  "using_handle h s = (Inr (), s\<lparr>ha_broken := ha_broken s \<or> \<not> valid_handle h s\<rparr>)"

text \<open>\<open>OwnedHandle::drop\<close>.\<close>

definition close_handle :: "nat \<Rightarrow> handles \<Rightarrow> handles" where
  "close_handle n s =
     s\<lparr>ha_open := remove1 n (ha_open s), ha_broken := ha_broken s \<or> n \<notin> set (ha_open s)\<rparr>"

text \<open>
  A handle that a call returned is owned: whatever the rest of the block does, it is closed
  at its end.
\<close>

definition with_handle :: "(nat, handles) step \<Rightarrow> (handle \<Rightarrow> ('a, handles) step) \<Rightarrow> ('a, handles) step" where
  "with_handle acquire body s =
     (case acquire s of
        (Inl e, s') \<Rightarrow> (Inl e, s')
      | (Inr n, s') \<Rightarrow> (case body (Owned n) s' of (r, s'') \<Rightarrow> (r, close_handle n s'')))"

definition owned_handle :: "nat \<Rightarrow> (nat, handles) step" where
  "owned_handle n s = (Inr n, s\<lparr>ha_open := n # ha_open s\<rparr>)"


section \<open>The calls\<close>

text \<open>
  What Win32 answers: \<open>Inl\<close> the system's message of a failing call.  \<open>wc_fresh\<close> is the number
  of the next handle, given the open ones; \<open>Inr False\<close> a null handle.  The first query of a
  token tells a size, the second fills a buffer; \<open>wc_sid\<close> is the SID in it, if its pointer is
  not null.
\<close>

record 'sid win_calls =
  wc_server_process :: "string + nat"
  wc_open_process :: "nat \<Rightarrow> string + unit"
  wc_open_token :: "handle \<Rightarrow> string + bool"
  wc_null :: string
  wc_fresh :: "nat list \<Rightarrow> nat"
  wc_size :: "bool \<Rightarrow> u32"
  wc_fill :: "bool \<Rightarrow> string + 'sid option"
  wc_equal :: "'sid \<Rightarrow> 'sid \<Rightarrow> bool"

definition open_process :: "('sid, 'z) win_calls_scheme \<Rightarrow> nat \<Rightarrow> (nat, handles) step" where
  "open_process wc pid s =
     (case wc_open_process wc pid of
        Inl os \<Rightarrow> (with_context ''cannot inspect Codex Desktop IPC server process'' (bail os), s)
      | Inr _ \<Rightarrow> owned_handle (wc_fresh wc (ha_open s)) s)"

definition open_token :: "('sid, 'z) win_calls_scheme \<Rightarrow> handle \<Rightarrow> (nat, handles) step" where
  "open_token wc process =
     bindS (using_handle process) (\<lambda>_ s.
       case wc_open_token wc process of
         Inl os \<Rightarrow> (with_context ''cannot inspect a Desktop IPC process token'' (bail os), s)
       | Inr False \<Rightarrow>
           (with_context ''Desktop IPC process returned a null token'' (bail (wc_null wc)), s)
       | Inr True \<Rightarrow> owned_handle (wc_fresh wc (ha_open s)) s)"

definition word_bytes :: nat where
  "word_bytes = 8"

definition token_user_bytes :: nat where
  "token_user_bytes = 16"

definition usize_max :: nat where
  "usize_max = 2 ^ 64 - 1"

text \<open>
  The buffer holds whole words; the call is told how many bytes it may write, and breaks
  the rules if that is more than the buffer has.  \<open>server\<close> says whose token it is.
\<close>

definition token_user ::
    "('sid, 'z) win_calls_scheme \<Rightarrow> bool \<Rightarrow> handle \<Rightarrow> (nat \<times> 'sid option, handles) step" where
  "token_user wc server token =
     bindS (using_handle token) (\<lambda>_.
     (let required = unat (wc_size wc server)
      in if required < token_user_bytes
         then liftS (bail ''Desktop IPC process token returned invalid user information size'')
         else if required + (word_bytes - 1) > usize_max
         then liftS (bail ''Desktop IPC token information is too large'')
         else
           (let bytes = (required + (word_bytes - 1)) div word_bytes * word_bytes;
                allowed = (if bytes < 2 ^ 32 then bytes else 2 ^ 32 - 1)
            in bindS (using_handle token) (\<lambda>_ s.
              (bindR (with_context ''cannot read Desktop IPC process user SID''
                  (case wc_fill wc server of Inl os \<Rightarrow> bail os | Inr sid \<Rightarrow> Inr sid)) (\<lambda>sid.
                 Inr (bytes, sid)),
               s\<lparr>ha_broken := ha_broken s \<or> bytes < allowed \<or> bytes < required\<rparr>)))))"

definition user_sid :: "nat \<times> 'sid option \<Rightarrow> 'sid result" where
  "user_sid = (\<lambda>(bytes, sid).
     if bytes < token_user_bytes
     then bail ''Desktop IPC process token returned truncated user information''
     else ok_or (Root (Message ''Desktop IPC process token returned a null user SID'')) sid)"

definition validate_same_user_server :: "('sid, 'z) win_calls_scheme \<Rightarrow> (unit, handles) step" where
  "validate_same_user_server wc =
     bindS (liftS (with_context ''cannot identify Codex Desktop IPC server''
         (case wc_server_process wc of Inl os \<Rightarrow> bail os | Inr pid \<Rightarrow> Inr pid))) (\<lambda>pid.
     with_handle (open_process wc pid) (\<lambda>process.
     with_handle (open_token wc process) (\<lambda>server_token.
     with_handle (open_token wc Current_Process) (\<lambda>current_token.
     bindS (token_user wc True server_token) (\<lambda>server_user.
     bindS (token_user wc False current_token) (\<lambda>current_user.
     bindS (liftS (user_sid server_user)) (\<lambda>server_sid.
     bindS (liftS (user_sid current_user)) (\<lambda>current_sid.
       if \<not> wc_equal wc server_sid current_sid
       then liftS (bail ''refusing Codex Desktop IPC server owned by another Windows user'')
       else returnS ()))))))))"


section \<open>Connecting\<close>

text \<open>An error of the system: its kind, its code if there is one, and its text.\<close>

datatype io_kind = Not_Found | Connection_Refused | Other_Kind

record io_failure =
  if_kind :: io_kind
  if_code :: "int option"
  if_text :: string

definition is_unavailable_error :: "bool \<Rightarrow> io_failure \<Rightarrow> bool" where
  "is_unavailable_error windows e \<longleftrightarrow>
     if_kind e = Not_Found \<or> if_kind e = Connection_Refused \<or>
     windows \<and> (if_code e = Some 2 \<or> if_code e = Some 3)"

text \<open>An attempt to open the pipe (\<open>None\<close>: it is open), with the time after it in milliseconds.\<close>

record pipe_attempt =
  pa_failure :: "io_failure option"
  pa_now :: nat

text \<open>
  \<open>None\<close>: still waiting after these attempts.  A pipe that is not there is no error; 231 says
  that all its instances are busy.
\<close>

fun connect_pipe ::
    "('sid, 'z) win_calls_scheme \<Rightarrow> nat \<Rightarrow> pipe_attempt list \<Rightarrow> handles \<Rightarrow> (bool result \<times> handles) option" where
  "connect_pipe wc deadline [] s = None"
| "connect_pipe wc deadline (a # as) s =
     (case pa_failure a of
        None \<Rightarrow> Some (bindS (validate_same_user_server wc) (\<lambda>_. returnS True) s)
      | Some e \<Rightarrow>
          if is_unavailable_error True e then Some (Inr False, s)
          else if if_code e = Some 231
          then (if deadline \<le> pa_now a
            then Some (bail ''timed out connecting to busy Codex Desktop IPC pipe'', s)
            else connect_pipe wc deadline as s)
          else Some (bail (if_text e), s))"


section \<open>Handles are paired\<close>

text \<open>
  A step is paired when, started with these handles open, it ends with them open, and no
  call broke the rules on the way.
\<close>

definition paired :: "nat list \<Rightarrow> ('a, handles) step \<Rightarrow> bool" where
  "paired hs f \<longleftrightarrow>
     (\<forall>s. ha_open s = hs \<longrightarrow> ha_open (snd (f s)) = hs \<and> ha_broken (snd (f s)) = ha_broken s)"

definition acquires :: "nat list \<Rightarrow> (nat, handles) step \<Rightarrow> bool" where
  "acquires hs f \<longleftrightarrow> (\<forall>s. ha_open s = hs \<longrightarrow>
     (case f s of
        (Inl e, s') \<Rightarrow> ha_open s' = hs \<and> ha_broken s' = ha_broken s
      | (Inr n, s') \<Rightarrow> ha_open s' = n # hs \<and> ha_broken s' = ha_broken s))"

lemma paired_bind:
  "paired hs f \<Longrightarrow> (\<And>x. paired hs (k x)) \<Longrightarrow> paired hs (bindS f k)"
  unfolding paired_def by (fastforce simp: bindS_def split: prod.splits sum.splits)

lemma paired_lift: "paired hs (liftS r)"
  by (simp add: paired_def liftS_def)

lemma paired_return: "paired hs (returnS x)"
  by (simp add: paired_def returnS_def)

lemma paired_use: "valid_handle h \<lparr>ha_open = hs, ha_broken = False\<rparr> \<Longrightarrow> paired hs (using_handle h)"
  by (auto simp: paired_def using_handle_def valid_handle_def split: handle.splits)

text \<open>A block that owns a handle is paired when its body is, on one handle more.\<close>

lemma paired_with_handle:
  assumes "acquires hs acquire" and "\<And>n. paired (n # hs) (body (Owned n))"
  shows "paired hs (with_handle acquire body)"
  unfolding paired_def
proof (intro allI impI)
  fix s :: handles assume s: "ha_open s = hs"
  show "ha_open (snd (with_handle acquire body s)) = hs \<and>
        ha_broken (snd (with_handle acquire body s)) = ha_broken s"
  proof (cases "acquire s")
    case (Pair r s')
    show ?thesis
    proof (cases r)
      case (Inl e)
      with assms(1) s Pair show ?thesis
        by (auto simp: acquires_def with_handle_def dest: spec [of _ s])
    next
      case (Inr n)
      then have got: "ha_open s' = n # hs" "ha_broken s' = ha_broken s"
        using assms(1) s Pair by (auto simp: acquires_def dest: spec [of _ s])
      obtain q s2 where body: "body (Owned n) s' = (q, s2)"
        by fastforce
      then have "ha_open s2 = n # hs" "ha_broken s2 = ha_broken s'"
        using assms(2) [of n] got unfolding paired_def by (metis snd_conv)+
      then show ?thesis
        using Pair Inr body got by (simp add: with_handle_def close_handle_def)
    qed
  qed
qed

lemma acquires_process: "acquires hs (open_process wc pid)"
  by (simp add: acquires_def open_process_def owned_handle_def split: sum.splits)

lemma acquires_token:
  "valid_handle h \<lparr>ha_open = hs, ha_broken = False\<rparr> \<Longrightarrow> acquires hs (open_token wc h)"
  by (auto simp: acquires_def open_token_def owned_handle_def bindS_def using_handle_def
      valid_handle_def split: sum.splits bool.splits handle.splits)

text \<open>The buffer is never shorter than what the second query is told it may write.\<close>

lemma whole_words: "required \<le> (required + (word_bytes - 1)) div word_bytes * word_bytes"
  by (simp add: word_bytes_def)

lemma paired_token_user:
  assumes "valid_handle h \<lparr>ha_open = hs, ha_broken = False\<rparr>"
  shows "paired hs (token_user wc server h)"
  unfolding token_user_def Let_def
  using assms whole_words [of "unat (wc_size wc server)"]
  by (auto intro!: paired_bind paired_use paired_lift simp: paired_def [of _ "\<lambda>s. (_ s, _ s)"])

lemmas paired_rules = paired_bind paired_lift paired_return paired_with_handle acquires_process
  acquires_token paired_token_user

lemma validate_paired: "paired hs (validate_same_user_server wc)"
  unfolding validate_same_user_server_def
  by (auto intro!: paired_rules simp: valid_handle_def)


section \<open>Only a server of the same user\<close>

lemma with_handle_ok:
  "with_handle acquire body s = (Inr x, s') \<Longrightarrow>
   \<exists>n s1 s2. acquire s = (Inr n, s1) \<and> body (Owned n) s1 = (Inr x, s2)"
  by (auto simp: with_handle_def split: prod.splits sum.splits)

lemma bind_ok:
  "bindS f k s = (Inr x, s') \<Longrightarrow> \<exists>y s1. f s = (Inr y, s1) \<and> k y s1 = (Inr x, s')"
  by (auto simp: bindS_def split: prod.splits sum.splits)

lemma token_user_ok:
  assumes "token_user wc server h s = (Inr (bytes, sid), s')"
  shows "wc_fill wc server = Inr sid"
  using assms
  by (auto simp: token_user_def bindS_def using_handle_def liftS_def Let_def bindR_def
      split: if_splits sum.splits)

lemma user_sid_ok: "user_sid (bytes, sid) = Inr x \<Longrightarrow> sid = Some x"
  by (auto simp: user_sid_def ok_or_def split: if_splits option.splits)

lemma validated_same_user:
  assumes "validate_same_user_server wc s = (Inr (), s')"
  shows "\<exists>server current. wc_fill wc True = Inr (Some server) \<and>
           wc_fill wc False = Inr (Some current) \<and> wc_equal wc server current"
proof -
  from assms obtain h1 h2 s1 s2 s3 where
    "bindS (token_user wc True h1) (\<lambda>server_user.
     bindS (token_user wc False h2) (\<lambda>current_user.
     bindS (liftS (user_sid server_user)) (\<lambda>server_sid.
     bindS (liftS (user_sid current_user)) (\<lambda>current_sid.
       if \<not> wc_equal wc server_sid current_sid
       then liftS (bail ''refusing Codex Desktop IPC server owned by another Windows user'')
       else returnS ())))) s1 = (Inr (), s2)"
    unfolding validate_same_user_server_def by (blast dest: bind_ok with_handle_ok)
  then show ?thesis
    by (auto simp: liftS_def returnS_def dest!: bind_ok token_user_ok user_sid_ok
        split: if_splits)
qed

text \<open>A pipe is connected only after that check, and every way out leaves no handle behind.\<close>

lemma connected_same_user:
  assumes "connect_pipe wc deadline as s = Some (Inr True, s')"
  shows "\<exists>server current. wc_fill wc True = Inr (Some server) \<and>
           wc_fill wc False = Inr (Some current) \<and> wc_equal wc server current"
  using assms
proof (induction as)
  case (Cons a as)
  then show ?case
    by (auto simp: returnS_def split: option.splits if_splits
        dest!: bind_ok validated_same_user)
qed simp

lemma connect_keeps_handles:
  assumes "connect_pipe wc deadline as s = Some (r, s')"
  shows "ha_open s' = ha_open s \<and> ha_broken s' = ha_broken s"
  using assms
proof (induction as)
  case (Cons a as)
  have "paired (ha_open s) (bindS (validate_same_user_server wc) (\<lambda>_. returnS True))"
    by (intro paired_bind validate_paired paired_return)
  then have "ha_open (snd (bindS (validate_same_user_server wc) (\<lambda>_. returnS True) s)) = ha_open s"
    "ha_broken (snd (bindS (validate_same_user_server wc) (\<lambda>_. returnS True) s)) = ha_broken s"
    unfolding paired_def by blast+
  with Cons show ?case
    by (auto split: option.splits if_splits)
qed simp

text \<open>
  Attempts are at least 50 milliseconds apart.  However long the pipe stays busy, the wait
  ends: \<open>REQUEST_TIMEOUT\<close> of ten seconds allows 201 attempts at most.
\<close>

fun paced :: "nat \<Rightarrow> pipe_attempt list \<Rightarrow> bool" where
  "paced t [] \<longleftrightarrow> True"
| "paced t (a # as) \<longleftrightarrow> t \<le> pa_now a \<and> paced (pa_now a + 50) as"

lemma connect_pipe_ends:
  "paced t as \<Longrightarrow> as \<noteq> [] \<Longrightarrow> deadline + 50 \<le> t + 50 * length as \<Longrightarrow>
   connect_pipe wc deadline as s \<noteq> None"
proof (induction as arbitrary: t)
  case (Cons a as)
  show ?case
  proof (cases "as = []")
    case True
    with Cons.prems show ?thesis
      by (auto split: option.splits)
  next
    case False
    with Cons.prems Cons.IH [of "pa_now a + 50"] show ?thesis
      by (auto split: option.splits)
  qed
qed simp

lemma ten_seconds_201_attempts:
  "paced t as \<Longrightarrow> length as = 201 \<Longrightarrow> connect_pipe wc (t + 10000) as s \<noteq> None"
  by (erule connect_pipe_ends) auto

end
