(* ===== verification/Dialog_Match.thy ===== *)
theory Dialog_Match
  imports Dialog_Rules
begin

text \<open>
  Looking into a window of another process (\<open>matching_button\<close> of
  \<open>os_permissions/macos.rs\<close>): the walk over its accessibility tree with a budget, and the
  button a rule selects.  What the accessibility interface answers is a script: every
  attribute at every moment of the walk.
\<close>


section \<open>Accessibility values\<close>

datatype ax_error =
    Success
  | CannotComplete
  | InvalidUIElement
  | NotificationUnsupported
  | NotificationAlreadyRegistered
  | AttributeUnsupported
  | NoValue
  | Failure
  | OtherError int

text \<open>
  A reference to an element: the address of the object, and what it refers to; equality of
  elements is equality of the latter.
\<close>

record ax_element =
  ax_address :: nat
  ax_node :: nat

datatype ax_value =
    AxString string
  | AxBool bool
  | AxArray "ax_value list"
  | AxElement ax_element
  | AxOther

fun ax_string :: "ax_error + ax_value \<Rightarrow> ax_error + string" where
  "ax_string (Inr (AxString s)) = Inr s"
| "ax_string (Inr v) = Inr []"
| "ax_string (Inl AttributeUnsupported) = Inr []"
| "ax_string (Inl NoValue) = Inr []"
| "ax_string (Inl e) = Inl e"

fun ax_child :: "ax_value \<Rightarrow> ax_element option" where
  "ax_child (AxElement e) = Some e"
| "ax_child v = None"

fun ax_elements :: "ax_error + ax_value \<Rightarrow> ax_error + ax_element list" where
  "ax_elements (Inr (AxArray vs)) = Inr (List.map_filter ax_child vs)"
| "ax_elements (Inr v) = Inl Failure"
| "ax_elements (Inl e) = Inl e"


section \<open>The walk\<close>

text \<open>
  One inspection: the answers by the number of the round (0 reads the window's title), the
  permit, and whether the second that an inspection may take is over.
\<close>

record inspection =
  in_attribute :: "nat \<Rightarrow> ax_element \<Rightarrow> string \<Rightarrow> ax_error + ax_value"
  in_permit :: "nat \<Rightarrow> bool"
  in_late :: "nat \<Rightarrow> bool"

record gathered =
  ga_text :: string
  ga_heading :: "string option"
  ga_buttons :: "(ax_element \<times> string) list"

definition nothing_gathered :: gathered where
  "nothing_gathered = \<lparr>ga_text = [], ga_heading = None, ga_buttons = []\<rparr>"

text \<open>Reading a string, or giving up with a reason.\<close>

definition read_text :: "string \<Rightarrow> ax_error + ax_value \<Rightarrow> string + string" where
  "read_text reason v = (case ax_string v of Inl e \<Rightarrow> Inl reason | Inr s \<Rightarrow> Inr s)"

definition orelse_text :: "bool \<Rightarrow> string + string \<Rightarrow> string \<Rightarrow> string + string" where
  "orelse_text replaced other s = (if replaced then other else Inr s)"

definition inspect_button :: "(string \<Rightarrow> ax_error + ax_value) \<Rightarrow> ax_element \<Rightarrow> gathered \<Rightarrow> string + gathered" where
  "inspect_button attribute e g =
     (case read_text ''cannot read button title'' (attribute ''AXTitle'') of
        Inl m \<Rightarrow> Inl m
      | Inr title \<Rightarrow>
     (case orelse_text (title = [])
         (read_text ''cannot read button label'' (attribute ''AXDescription'')) title of
        Inl m \<Rightarrow> Inl m
      | Inr label \<Rightarrow>
     (case attribute ''AXEnabled'' of
        Inl x \<Rightarrow> Inl ''cannot read button state''
      | Inr (AxBool enabled) \<Rightarrow>
          Inr (if enabled then g\<lparr>ga_buttons := ga_buttons g @ [(e, label)]\<rparr> else g)
      | Inr v \<Rightarrow> Inl ''invalid button state'')))"

definition inspect_text :: "(string \<Rightarrow> ax_error + ax_value) \<Rightarrow> gathered \<Rightarrow> string + gathered" where
  "inspect_text attribute g =
     (case read_text ''cannot read dialog text'' (attribute ''AXValue'') of
        Inl m \<Rightarrow> Inl m
      | Inr v \<Rightarrow>
     (case orelse_text (blank v)
         (read_text ''cannot read dialog text'' (attribute ''AXTitle'')) v of
        Inl m \<Rightarrow> Inl m
      | Inr s \<Rightarrow>
          Inr (if blank s then g
               else g\<lparr>ga_heading := Some (unwrap_or (ga_heading g) s),
                      ga_text := ga_text g @ s @ [newline]\<rparr>)))"

definition editable_roles :: "string list" where
  "editable_roles = [''AXTextField'', ''AXTextArea'']"

definition inspect_element ::
    "(string \<Rightarrow> ax_error + ax_value) \<Rightarrow> ax_element \<Rightarrow> gathered \<Rightarrow> string + gathered" where
  "inspect_element attribute e g =
     (case read_text ''cannot read element role'' (attribute ''AXRole'') of
        Inl m \<Rightarrow> Inl m
      | Inr role \<Rightarrow>
          if role \<in> set editable_roles then Inl ''window contains editable or credential fields''
          else if role = ''AXButton'' then inspect_button attribute e g
          else if role \<in> set [''AXStaticText'', ''AXHeading''] then inspect_text attribute g
          else Inr g)"

definition inspect_children :: "(string \<Rightarrow> ax_error + ax_value) \<Rightarrow> string + ax_element list" where
  "inspect_children attribute =
     (case ax_elements (attribute ''AXChildren'') of
        Inr children \<Rightarrow> Inr children
      | Inl e \<Rightarrow>
          if e = AttributeUnsupported \<or> e = NoValue then Inr []
          else Inl ''cannot read complete window tree'')"

text \<open>One element: what it adds, and its children.\<close>

definition inspect_one ::
    "(string \<Rightarrow> ax_error + ax_value) \<Rightarrow> ax_element \<Rightarrow> gathered \<Rightarrow> string + gathered \<times> ax_element list" where
  "inspect_one attribute e g =
     (case inspect_element attribute e g of
        Inl m \<Rightarrow> Inl m
      | Inr g' \<Rightarrow>
          if length (ga_text g') > 16384 then Inl ''window text exceeds inspection limit''
          else (case inspect_children attribute of
             Inl m \<Rightarrow> Inl m
           | Inr children \<Rightarrow> Inr (g', children)))"

text \<open>The top of the stack comes first; \<open>visited\<close> are addresses.\<close>

function walk ::
    "inspection \<Rightarrow> nat \<Rightarrow> (ax_element \<times> nat) list \<Rightarrow> nat list \<Rightarrow> gathered \<Rightarrow> string + gathered" where
  "walk ins k [] visited g = Inr g"
| "walk ins k ((e, depth) # stack) visited g =
     (if \<not> in_permit ins k then Inl ''monitor stopped''
      else if length visited \<ge> 256 \<or> depth > 20 \<or> in_late ins k
      then Inl ''window inspection budget exceeded''
      else if ax_address e \<in> set visited then walk ins (Suc k) stack visited g
      else (case inspect_one (in_attribute ins k e) e g of
          Inl m \<Rightarrow> Inl m
        | Inr (g', children) \<Rightarrow>
            walk ins (Suc k) (map (\<lambda>c. (c, Suc depth)) children @ stack)
              (ax_address e # visited) g'))"
  by pat_completeness auto
termination
  by (relation "measures [\<lambda>(ins, k, stack, visited, g). 256 - length visited,
      \<lambda>(ins, k, stack, visited, g). length stack]") auto


section \<open>The button\<close>

record matched_button =
  mb_button :: ax_element
  mb_signature :: string
  mb_rule :: string
  mb_label :: string

definition selects :: "(string \<Rightarrow> string) \<Rightarrow> string \<Rightarrow> dialog_rule \<Rightarrow> string \<Rightarrow> bool" where
  "selects lower rule selectors label \<longleftrightarrow>
     (if rule = directory_rule then is_allow_button lower label
      else dr_button selectors = Some label)"

definition dialog_signature :: "string \<Rightarrow> string \<Rightarrow> string \<Rightarrow> string" where
  "dialog_signature title text label = title @ [newline] @ text @ [newline] @ label"

definition choose_button ::
    "(string \<Rightarrow> string) \<Rightarrow> dialog_settings \<Rightarrow> string \<times> string \<Rightarrow> string \<Rightarrow> gathered \<Rightarrow>
     string + matched_button" where
  "choose_button lower rules identity title g =
     (case matching lower rules (fst identity) (snd identity) title (unwrap_or (ga_heading g) []) of
        [] \<Rightarrow> Inl ''no enabled rule matches this window''
      | [(rule, selectors)] \<Rightarrow>
          (case filter (\<lambda>(b, label). selects lower rule selectors label) (ga_buttons g) of
             [(b, label)] \<Rightarrow>
               Inr \<lparr>mb_button = b, mb_signature = dialog_signature title (ga_text g) label,
                    mb_rule = rule, mb_label = label\<rparr>
           | _ \<Rightarrow> Inl ''expected exactly one enabled matching button'')
      | _ \<Rightarrow> Inl ''multiple rules match; make selectors more specific'')"

definition matching_button ::
    "(string \<Rightarrow> string) \<Rightarrow> inspection \<Rightarrow> dialog_settings \<Rightarrow> string \<times> string \<Rightarrow> ax_element \<Rightarrow>
     string + matched_button" where
  "matching_button lower ins rules identity window =
     (case read_text ''cannot read window title'' (in_attribute ins 0 window ''AXTitle'') of
        Inl m \<Rightarrow> Inl m
      | Inr title \<Rightarrow>
          (case walk ins 1 [(window, 0)] [] nothing_gathered of
             Inl m \<Rightarrow> Inl m
           | Inr g \<Rightarrow> choose_button lower rules identity title g))"


section \<open>What was looked at\<close>

text \<open>\<open>T\<close> are the elements that were inspected, each with its round.\<close>

definition role_at :: "inspection \<Rightarrow> nat \<Rightarrow> ax_element \<Rightarrow> string option" where
  "role_at ins k e =
     (case ax_string (in_attribute ins k e ''AXRole'') of Inl x \<Rightarrow> None | Inr r \<Rightarrow> Some r)"

definition label_at :: "inspection \<Rightarrow> nat \<Rightarrow> ax_element \<Rightarrow> string \<Rightarrow> bool" where
  "label_at ins k e label \<longleftrightarrow>
     (case ax_string (in_attribute ins k e ''AXTitle'') of
        Inr [] \<Rightarrow> ax_string (in_attribute ins k e ''AXDescription'') = Inr label
      | r \<Rightarrow> r = Inr label)"

definition enabled_button :: "inspection \<Rightarrow> nat \<Rightarrow> ax_element \<Rightarrow> string \<Rightarrow> bool" where
  "enabled_button ins k e label \<longleftrightarrow>
     role_at ins k e = Some ''AXButton'' \<and> label_at ins k e label \<and>
     in_attribute ins k e ''AXEnabled'' = Inr (AxBool True)"

definition addresses :: "(nat \<times> ax_element) set \<Rightarrow> nat set" where
  "addresses T = (\<lambda>(k, e). ax_address e) ` T"

definition looked_at :: "inspection \<Rightarrow> nat set \<Rightarrow> (nat \<times> ax_element) set \<Rightarrow> bool" where
  "looked_at ins seen T \<longleftrightarrow>
     (\<forall>(k, e) \<in> T. (\<exists>r. role_at ins k e = Some r \<and> r \<notin> set editable_roles) \<and>
       (\<forall>cs. ax_elements (in_attribute ins k e ''AXChildren'') = Inr cs \<longrightarrow>
          (\<forall>c \<in> set cs. ax_address c \<in> seen \<union> addresses T)))"

lemma addresses_insert [simp]: "addresses (insert (k, e) T) = insert (ax_address e) (addresses T)"
  by (simp add: addresses_def)

lemma read_text_Inr [simp]: "read_text m v = Inr s \<longleftrightarrow> ax_string v = Inr s"
  by (simp add: read_text_def split: sum.splits)

lemma inspect_button_Inr:
  assumes "inspect_button (in_attribute ins k e) e g = Inr g'" and "role_at ins k e = Some ''AXButton''"
  shows "(ga_buttons g' = ga_buttons g \<or>
      (\<exists>label. enabled_button ins k e label \<and> ga_buttons g' = ga_buttons g @ [(e, label)])) \<and>
    ga_text g' = ga_text g"
proof -
  from assms(1) obtain title label enabled where
    title: "ax_string (in_attribute ins k e ''AXTitle'') = Inr title"
    and label: "orelse_text (title = [])
      (read_text ''cannot read button label'' (in_attribute ins k e ''AXDescription'')) title = Inr label"
    and enabled: "in_attribute ins k e ''AXEnabled'' = Inr (AxBool enabled)"
    and g': "g' = (if enabled then g\<lparr>ga_buttons := ga_buttons g @ [(e, label)]\<rparr> else g)"
    by (auto simp: inspect_button_def split: sum.splits ax_value.splits)
  have "label_at ins k e label"
    using title label by (cases title) (auto simp: label_at_def orelse_text_def)
  with enabled g' assms(2) show ?thesis by (cases enabled) (auto simp: enabled_button_def)
qed

lemma inspect_text_buttons: "inspect_text attribute g = Inr g' \<Longrightarrow> ga_buttons g' = ga_buttons g"
  by (auto simp: inspect_text_def split: sum.splits if_splits)

lemma inspect_one_Inr:
  assumes "inspect_one (in_attribute ins k e) e g = Inr (g', children)"
  shows "(\<exists>r. role_at ins k e = Some r \<and> r \<notin> set editable_roles) \<and>
    (\<forall>cs. ax_elements (in_attribute ins k e ''AXChildren'') = Inr cs \<longrightarrow> children = cs) \<and>
    (\<forall>(b, label) \<in> set (ga_buttons g') - set (ga_buttons g). b = e \<and> enabled_button ins k e label)"
proof -
  from assms have one: "inspect_element (in_attribute ins k e) e g = Inr g'"
    and kids: "inspect_children (in_attribute ins k e) = Inr children"
    by (auto simp: inspect_one_def split: sum.splits if_splits)
  from one obtain r where r: "role_at ins k e = Some r" "r \<notin> set editable_roles"
    and branch: "(r = ''AXButton'' \<and> inspect_button (in_attribute ins k e) e g = Inr g') \<or>
      inspect_text (in_attribute ins k e) g = Inr g' \<or> g' = g"
    by (auto simp: inspect_element_def role_at_def split: sum.splits if_splits)
  from branch r(1) have "\<forall>(b, label) \<in> set (ga_buttons g') - set (ga_buttons g).
      b = e \<and> enabled_button ins k e label"
    using inspect_button_Inr [of ins k e g g'] inspect_text_buttons [of "in_attribute ins k e" g g']
    by auto
  with r kids show ?thesis
    by (auto simp: inspect_children_def split: sum.splits if_splits)
qed

lemma looked_at_insert:
  assumes "looked_at ins (insert (ax_address e) seen) T"
    and "\<exists>r. role_at ins k e = Some r \<and> r \<notin> set editable_roles"
    and "\<forall>cs. ax_elements (in_attribute ins k e ''AXChildren'') = Inr cs \<longrightarrow>
      (\<forall>c \<in> set cs. ax_address c \<in> seen \<union> addresses (insert (k, e) T))"
  shows "looked_at ins seen (insert (k, e) T)"
  using assms by (simp add: looked_at_def)

lemma walk_looked_at:
  assumes "walk ins k stack visited g = Inr g'"
  shows "\<exists>T. looked_at ins (set visited) T \<and>
    ax_address ` fst ` set stack \<subseteq> set visited \<union> addresses T \<and>
    (\<forall>(b, label) \<in> set (ga_buttons g') - set (ga_buttons g).
       \<exists>j. (j, b) \<in> T \<and> enabled_button ins j b label)"
  using assms
proof (induction ins k stack visited g arbitrary: g' rule: walk.induct)
  case (1 ins k visited g)
  then show ?case by (intro exI [of _ "{}"]) (simp add: looked_at_def)
next
  case (2 ins k e depth stack visited g)
  from 2(3) have go: "in_permit ins k" "\<not> (length visited \<ge> 256 \<or> depth > 20 \<or> in_late ins k)"
    by (auto split: if_splits)
  show ?case
  proof (cases "ax_address e \<in> set visited")
    case True
    from 2(3) go True have "walk ins (Suc k) stack visited g = Inr g'" by simp
    from 2(1) [OF _ go(2) True this] go(1) True show ?thesis by auto
  next
    case False
    with 2(3) go obtain g1 children where one: "inspect_one (in_attribute ins k e) e g = Inr (g1, children)"
      and rest: "walk ins (Suc k) (map (\<lambda>c. (c, Suc depth)) children @ stack)
        (ax_address e # visited) g1 = Inr g'"
      by (auto split: sum.splits)
    from 2(2) [OF _ go(2) False one refl rest] go(1) obtain T where
      T: "looked_at ins (set (ax_address e # visited)) T"
      and stack: "ax_address ` fst ` set (map (\<lambda>c. (c, Suc depth)) children @ stack) \<subseteq>
        set (ax_address e # visited) \<union> addresses T"
      and buttons: "\<forall>(b, label) \<in> set (ga_buttons g') - set (ga_buttons g1).
        \<exists>j. (j, b) \<in> T \<and> enabled_button ins j b label"
      by auto
    have kids: "\<forall>c \<in> set children. ax_address c \<in> set visited \<union> addresses (insert (k, e) T)"
      using stack by force
    note now = inspect_one_Inr [OF one]
    have "looked_at ins (set visited) (insert (k, e) T)"
    proof (rule looked_at_insert)
      show "looked_at ins (insert (ax_address e) (set visited)) T" using T by simp
      show "\<exists>r. role_at ins k e = Some r \<and> r \<notin> set editable_roles" using now by blast
      show "\<forall>cs. ax_elements (in_attribute ins k e ''AXChildren'') = Inr cs \<longrightarrow>
          (\<forall>c \<in> set cs. ax_address c \<in> set visited \<union> addresses (insert (k, e) T))"
        using now kids by blast
    qed
    moreover have "ax_address ` fst ` set ((e, depth) # stack) \<subseteq> set visited \<union> addresses (insert (k, e) T)"
      using stack by auto
    moreover have "\<forall>(b, label) \<in> set (ga_buttons g') - set (ga_buttons g).
        \<exists>j. (j, b) \<in> insert (k, e) T \<and> enabled_button ins j b label"
    proof clarify
      fix b label
      assume mem: "(b, label) \<in> set (ga_buttons g')" "(b, label) \<notin> set (ga_buttons g)"
      show "\<exists>j. (j, b) \<in> insert (k, e) T \<and> enabled_button ins j b label"
      proof (cases "(b, label) \<in> set (ga_buttons g1)")
        case True
        with mem now have "b = e \<and> enabled_button ins k e label" by fastforce
        then show ?thesis by blast
      next
        case False
        with mem buttons have "\<exists>j. (j, b) \<in> T \<and> enabled_button ins j b label" by fastforce
        then show ?thesis by blast
      qed
    qed
    ultimately show ?thesis by blast
  qed
qed

section \<open>Properties\<close>

text \<open>C33: What is pressed was chosen unambiguously, in a window that was looked at as far as it
  showed.  A button is offered only when exactly one enabled rule matches the window's
  owner, title and heading; the button is enabled, has the role of a button and the label
  the rule asks for; and no element inspected on the way takes input, where every child of
  an inspected element was inspected, or another element at its address was.\<close>
theorem matched_button_sound:
  assumes "matching_button lower ins rules identity window = Inr m"
  shows "\<exists>T title g selectors.
    looked_at ins {} T \<and> ax_address window \<in> addresses T \<and>
    ax_string (in_attribute ins 0 window ''AXTitle'') = Inr title \<and>
    walk ins 1 [(window, 0)] [] nothing_gathered = Inr g \<and>
    matching lower rules (fst identity) (snd identity) title (unwrap_or (ga_heading g) []) =
      [(mb_rule m, selectors)] \<and>
    selects lower (mb_rule m) selectors (mb_label m) \<and>
    filter (\<lambda>(b, label). selects lower (mb_rule m) selectors label) (ga_buttons g) =
      [(mb_button m, mb_label m)] \<and>
    (\<exists>j. (j, mb_button m) \<in> T \<and> enabled_button ins j (mb_button m) (mb_label m)) \<and>
    mb_signature m = dialog_signature title (ga_text g) (mb_label m)"
proof -
  from assms obtain title g where
    title: "ax_string (in_attribute ins 0 window ''AXTitle'') = Inr title"
    and walk: "walk ins 1 [(window, 0)] [] nothing_gathered = Inr g"
    and choice: "choose_button lower rules identity title g = Inr m"
    by (auto simp: matching_button_def split: sum.splits)
  from choice obtain selectors where
    rule: "matching lower rules (fst identity) (snd identity) title (unwrap_or (ga_heading g) []) =
      [(mb_rule m, selectors)]"
    and one: "filter (\<lambda>(b, label). selects lower (mb_rule m) selectors label) (ga_buttons g) =
      [(mb_button m, mb_label m)]"
    and sig: "mb_signature m = dialog_signature title (ga_text g) (mb_label m)"
    by (auto simp: choose_button_def split: list.splits prod.splits)
  have "(mb_button m, mb_label m) \<in> set (filter (\<lambda>(b, label). selects lower (mb_rule m) selectors label)
      (ga_buttons g))" by (simp add: one)
  then have mem: "(mb_button m, mb_label m) \<in> set (ga_buttons g)"
    and selected: "selects lower (mb_rule m) selectors (mb_label m)" by auto
  from walk_looked_at [OF walk] obtain T where looked: "looked_at ins {} T"
    and window: "ax_address window \<in> addresses T"
    and buttons: "\<forall>(b, label) \<in> set (ga_buttons g). \<exists>j. (j, b) \<in> T \<and> enabled_button ins j b label"
    by (simp add: nothing_gathered_def) blast
  from buttons mem have "\<exists>j. (j, mb_button m) \<in> T \<and> enabled_button ins j (mb_button m) (mb_label m)"
    by fastforce
  with looked window title walk rule one sig selected show ?thesis
    by (intro exI [of _ T] exI [of _ title] exI [of _ g] exI [of _ selectors]) simp
qed


section \<open>An example\<close>

definition window_at :: "nat \<Rightarrow> ax_element" where
  "window_at n = \<lparr>ax_address = n, ax_node = n\<rparr>"

text \<open>A consent dialog: a heading and an enabled button that allows.\<close>

definition consent_attribute :: "nat \<Rightarrow> ax_element \<Rightarrow> string \<Rightarrow> ax_error + ax_value" where
  "consent_attribute k e a =
     (if a = ''AXRole'' then Inr (AxString (if ax_node e = 0 then ''AXWindow''
        else if ax_node e = 1 then ''AXStaticText''
        else if ax_node e = 2 then ''AXButton'' else ''AXTextField''))
      else if a = ''AXValue'' then Inr (AxString consent_example)
      else if a = ''AXTitle'' then Inr (AxString (if ax_node e = 2 then ''ok'' else []))
      else if a = ''AXEnabled'' then Inr (AxBool True)
      else if a = ''AXChildren'' \<and> ax_node e = 0
      then Inr (AxArray [AxElement (window_at 1), AxElement (window_at 2)])
      else Inl NoValue)"

definition consent_view :: inspection where
  "consent_view = \<lparr>in_attribute = consent_attribute, in_permit = (\<lambda>k. True), in_late = (\<lambda>k. False)\<rparr>"

lemma ok_trim: "trim ''ok'' = ''ok''"
  by (rule trim_visible) (simp_all add: visible_ascii_def byte_def)

lemma consent_not_blank: "\<not> blank consent_example"
  by (simp add: blank_def consent_example_trim) (simp add: consent_example_def)

lemma blank_empty: "blank []" by (simp add: blank_def)

lemma consent_walk:
  assumes "in_attribute ins = consent_attribute" and "\<And>k. in_permit ins k" and "\<And>k. \<not> in_late ins k"
  shows "walk ins 1 [(window_at 0, 0)] [] nothing_gathered =
    Inr \<lparr>ga_text = consent_example @ [newline], ga_heading = Some consent_example,
      ga_buttons = [(window_at 2, ''ok'')]\<rparr>"
proof -
  have len: "length consent_example = 56" by (simp add: consent_example_def)
  show ?thesis
    by (simp add: assms inspect_one_def inspect_element_def inspect_children_def inspect_text_def
        inspect_button_def read_text_def orelse_text_def editable_roles_def consent_attribute_def
        window_at_def nothing_gathered_def map_filter_def len consent_not_blank)
qed

definition consent_match :: matched_button where
  "consent_match =
     \<lparr>mb_button = window_at 2,
      mb_signature = dialog_signature [] (consent_example @ [newline]) ''ok'',
      mb_rule = directory_rule, mb_label = ''ok''\<rparr>"

lemma consent_choice:
  "choose_button (\<lambda>s. s) default_dialog_settings (''/System/Library/U'', []) []
     \<lparr>ga_text = consent_example @ [newline], ga_heading = Some consent_example,
      ga_buttons = [(window_at 2, ''ok'')]\<rparr> = Inr consent_match"
proof -
  have "matching (\<lambda>s. s) default_dialog_settings ''/System/Library/U'' [] [] consent_example =
      [(directory_rule, default_dialog_rule)]"
    by (simp add: matching_def default_dialog_settings_def default_dialog_rule_def
        consent_example_accepted system_owner_def starts_with_def)
  then show ?thesis
    by (simp add: choose_button_def selects_def is_allow_button_def ok_trim allow_labels_def
        consent_match_def)
qed

lemma consent_matched:
  "matching_button (\<lambda>s. s) consent_view default_dialog_settings (''/System/Library/U'', []) (window_at 0) =
     Inr consent_match"
proof -
  have "read_text ''cannot read window title'' (in_attribute consent_view 0 (window_at 0) ''AXTitle'') = Inr []"
    by (simp add: consent_view_def consent_attribute_def window_at_def)
  moreover have "walk consent_view 1 [(window_at 0, 0)] [] nothing_gathered =
    Inr \<lparr>ga_text = consent_example @ [newline], ga_heading = Some consent_example,
      ga_buttons = [(window_at 2, ''ok'')]\<rparr>"
    by (rule consent_walk) (simp_all add: consent_view_def)
  ultimately show ?thesis
    by (simp add: matching_button_def consent_choice del: read_text_Inr)
qed

theorem matched_button_sound_witness:
  "\<exists>T. looked_at consent_view {} T \<and> ax_address (window_at 0) \<in> addresses T \<and>
    (\<exists>j. (j, mb_button consent_match) \<in> T \<and>
      enabled_button consent_view j (mb_button consent_match) (mb_label consent_match))"
  using matched_button_sound [OF consent_matched] by blast

text \<open>
  Visited elements are remembered by the address of an object that may already be freed: an
  element that is allocated at the address of an earlier one is not looked at, nor anything
  below it, and a window with a field for credentials is taken for a consent dialog.
\<close>

definition reused_attribute :: "nat \<Rightarrow> ax_element \<Rightarrow> string \<Rightarrow> ax_error + ax_value" where
  "reused_attribute k e a =
     (if a = ''AXChildren'' \<and> ax_node e = 2
      then Inr (AxArray [AxElement \<lparr>ax_address = 1, ax_node = 3\<rparr>])
      else consent_attribute k e a)"

definition reused_view :: inspection where
  "reused_view = \<lparr>in_attribute = reused_attribute, in_permit = (\<lambda>k. True), in_late = (\<lambda>k. False)\<rparr>"

lemma reused_address_hides_field:
  "ax_elements (in_attribute reused_view k (window_at 2) ''AXChildren'') =
     Inr [\<lparr>ax_address = 1, ax_node = 3\<rparr>] \<and>
   role_at reused_view k \<lparr>ax_address = 1, ax_node = 3\<rparr> = Some ''AXTextField'' \<and>
   matching_button (\<lambda>s. s) reused_view default_dialog_settings (''/System/Library/U'', []) (window_at 0) =
     Inr consent_match"
proof -
  have len: "length consent_example = 56" by (simp add: consent_example_def)
  have "walk reused_view 1 [(window_at 0, 0)] [] nothing_gathered =
    Inr \<lparr>ga_text = consent_example @ [newline], ga_heading = Some consent_example,
      ga_buttons = [(window_at 2, ''ok'')]\<rparr>"
    by (simp add: reused_view_def inspect_one_def inspect_element_def inspect_children_def
        inspect_text_def inspect_button_def read_text_def orelse_text_def editable_roles_def
        reused_attribute_def consent_attribute_def window_at_def nothing_gathered_def map_filter_def
        len consent_not_blank)
  moreover have "read_text ''cannot read window title'' (in_attribute reused_view 0 (window_at 0) ''AXTitle'') = Inr []"
    by (simp add: reused_view_def reused_attribute_def consent_attribute_def window_at_def)
  ultimately have "matching_button (\<lambda>s. s) reused_view default_dialog_settings (''/System/Library/U'', [])
      (window_at 0) = Inr consent_match"
    by (simp add: matching_button_def consent_choice del: read_text_Inr)
  then show ?thesis
    by (simp add: reused_view_def reused_attribute_def consent_attribute_def window_at_def
        role_at_def map_filter_def)
qed

end
