(* ===== verification/Dialog_Log.thy ===== *)
theory Dialog_Log
  imports Storage Reading "HOL-Library.Sublist"
begin

text \<open>
  The audit log of the dialogs (\<open>os_permissions/events.rs\<close>) and how an entry gets into it
  (\<open>record\<close> of \<open>os_permissions.rs\<close>): one JSON line per event, an append that takes back what
  a failed write left, a compaction, and a reader that leaves an unfinished last line alone.
  The file is its bytes; the JSON of an event is a parameter, every I/O step may fail.
\<close>

record dialog_event =
  dv_timestamp :: timestamp
  dv_kind :: string
  dv_pid :: "int option"
  dv_app :: string
  dv_rule :: "string option"
  dv_button :: "string option"
  dv_detail :: string

record dialog_codec =
  dc_line :: "dialog_event \<Rightarrow> string"
  dc_parse :: "string \<Rightarrow> string + dialog_event"

text \<open>
  What the log relies on: serde_json writes UTF-8 without a line feed, and reads back what
  it wrote (the white space after the value is skipped).
\<close>

definition dialog_line :: "dialog_codec \<Rightarrow> dialog_event \<Rightarrow> string" where
  "dialog_line dc e = dc_line dc e @ [newline]"

definition dialog_line_ok :: "dialog_codec \<Rightarrow> dialog_event \<Rightarrow> bool" where
  "dialog_line_ok dc e \<longleftrightarrow>
     newline \<notin> set (dc_line dc e) \<and> valid_utf8 (dialog_line dc e) \<and>
     dc_parse dc (dialog_line dc e) = Inr e"

definition file_bytes :: "string option \<Rightarrow> string" where
  "file_bytes d = unwrap_or d []"


section \<open>Reading\<close>

text \<open>
  A fault is the number of lines read before a call fails (opening the file is call 0),
  with the system's message.
\<close>

type_synonym read_fault = "(nat \<times> string) option"

definition push_entry :: "bool \<Rightarrow> nat \<Rightarrow> dialog_event \<Rightarrow> dialog_event list \<Rightarrow> dialog_event list" where
  "push_entry clicks_only limit e entries =
     (if clicks_only \<and> \<not> starts_with ''click.'' (dv_kind e) then entries
      else let entries' = entries @ [e]
           in if length entries' > limit then tl entries' else entries')"

function read_entries ::
    "dialog_codec \<Rightarrow> location \<Rightarrow> bool \<Rightarrow> nat \<Rightarrow> read_fault \<Rightarrow> string \<Rightarrow> dialog_event list \<Rightarrow>
     dialog_event list result" where
  "read_entries dc loc clicks_only limit fault s entries =
     (case fault of
        Some (0, os) \<Rightarrow> bail os
      | _ \<Rightarrow>
          let chunk = read_line s
          in if \<not> valid_utf8 chunk then bail ''stream did not contain valid UTF-8''
             else if unfinished chunk then Inr entries
             else case dc_parse dc chunk of
               Inl m \<Rightarrow> Inl (io_error (''invalid dialog event in '' @ loc_path loc) m)
             | Inr e \<Rightarrow>
                 read_entries dc loc clicks_only limit (map_option (\<lambda>(n, os). (n - 1, os)) fault)
                   (drop (length chunk) s) (push_entry clicks_only limit e entries))"
  by pat_completeness auto
termination
  by (relation "measure (\<lambda>(dc, loc, c, l, fault, s, es). length s)") (auto dest: finished_shorter)

declare read_entries.simps [simp del]

definition dialog_read ::
    "dialog_codec \<Rightarrow> location \<Rightarrow> read_fault \<Rightarrow> bool \<Rightarrow> nat \<Rightarrow> string option \<Rightarrow>
     dialog_event list result" where
  "dialog_read dc loc fault clicks_only limit file =
     (case file of
        None \<Rightarrow> Inr []
      | Some bytes \<Rightarrow> read_entries dc loc clicks_only limit fault bytes [])"


section \<open>Opening\<close>

record dialog_log =
  dl_count :: nat
  dl_retention :: nat
  dl_repair_required :: bool

record open_script =
  os_read :: "string option"
  os_truncate :: "string option"
  os_scan :: read_fault

text \<open>Everything up to the last line feed.\<close>

definition complete_part :: "string \<Rightarrow> string" where
  "complete_part bytes = rev (dropWhile (\<lambda>c. c \<noteq> newline) (rev bytes))"

definition cut_tail :: "open_script \<Rightarrow> string option \<Rightarrow> unit result \<times> string option" where
  "cut_tail scr file =
     (case file of
        None \<Rightarrow> (Inr (), file)
      | Some bytes \<Rightarrow>
          (case os_read scr of
             Some os \<Rightarrow> (bail os, file)
           | None \<Rightarrow>
               if bytes \<noteq> [] \<and> last bytes \<noteq> newline
               then (case os_truncate scr of
                   Some os \<Rightarrow> (bail os, file)
                 | None \<Rightarrow> (Inr (), Some (complete_part bytes)))
               else (Inr (), file)))"

definition dialog_log_new ::
    "dialog_codec \<Rightarrow> location \<Rightarrow> open_script \<Rightarrow> nat \<Rightarrow> string option \<Rightarrow>
     dialog_log result \<times> string option" where
  "dialog_log_new dc loc scr retention file =
     (case cut_tail scr file of
        (Inl e, file1) \<Rightarrow> (Inl e, file1)
      | (Inr _, file1) \<Rightarrow>
          (bindR (dialog_read dc loc (os_scan scr) False u64_max file1)
             (\<lambda>entries. Inr \<lparr>dl_count = length entries, dl_retention = retention,
                dl_repair_required = False\<rparr>),
           file1))"


section \<open>Appending\<close>

text \<open>
  The outcome of every call of an append; \<open>ap_write\<close> is how many bytes reached the file
  before \<open>write_all\<close> failed, which leaves at least the last one unwritten.
\<close>

record append_script =
  ap_directory :: "string option"
  ap_open :: "string option"
  ap_metadata :: "string option"
  ap_write :: "(nat \<times> string) option"
  ap_restore :: "string option"
  ap_read :: read_fault
  ap_replace :: "string fault"

definition compact_dialogs ::
    "dialog_codec \<Rightarrow> location \<Rightarrow> append_script \<Rightarrow> dialog_log \<Rightarrow> string option \<Rightarrow>
     unit result \<times> dialog_log \<times> string option" where
  "compact_dialogs dc loc scr l file =
     (case dialog_read dc loc (ap_read scr) False (dl_retention l) file of
        Inl e \<Rightarrow> (Inl e, l, file)
      | Inr entries \<Rightarrow>
          (case atomic_write loc (ap_replace scr) (concat (map (dialog_line dc) entries)) file of
             (Inl e, file') \<Rightarrow> (Inl e, l, file')
           | (Inr _, file') \<Rightarrow> (Inr (), l\<lparr>dl_count := length entries\<rparr>, file')))"

definition write_entry ::
    "dialog_codec \<Rightarrow> location \<Rightarrow> append_script \<Rightarrow> dialog_event \<Rightarrow> dialog_log \<Rightarrow> string option \<Rightarrow>
     unit result \<times> dialog_log \<times> string option" where
  "write_entry dc loc scr e l file =
     (case ap_write scr of
        Some (n, os) \<Rightarrow>
          (let torn = Some (file_bytes file @ take n (dc_line dc e))
           in case ap_restore scr of
                Some os' \<Rightarrow>
                  (Inl (Context (''cannot restore dialog log: '' @ os') (Root (Message os))),
                   l\<lparr>dl_repair_required := True\<rparr>, torn)
              | None \<Rightarrow> (bail os, l, file))
      | None \<Rightarrow>
          (let file' = Some (file_bytes file @ dialog_line dc e); l' = l\<lparr>dl_count := dl_count l + 1\<rparr>
           in if dl_count l' > usize_sat_mul (dl_retention l') 2
              then compact_dialogs dc loc scr l' file'
              else (Inr (), l', file')))"

definition dialog_append ::
    "dialog_codec \<Rightarrow> location \<Rightarrow> append_script \<Rightarrow> dialog_event \<Rightarrow> dialog_log \<Rightarrow> string option \<Rightarrow>
     unit result \<times> dialog_log \<times> string option" where
  "dialog_append dc loc scr e l file =
     (if dl_repair_required l
      then (bail ''dialog log needs repair; restart the service'', l, file)
      else case loc_parent loc of
        None \<Rightarrow> (bail ''dialog log has no parent'', l, file)
      | Some _ \<Rightarrow>
          (case ap_directory scr of Some os \<Rightarrow> (bail os, l, file) | None \<Rightarrow>
          (case ap_open scr of Some os \<Rightarrow> (bail os, l, file) | None \<Rightarrow>
             (let opened = Some (file_bytes file)
              in case ap_metadata scr of
                   Some os \<Rightarrow> (bail os, l, opened)
                 | None \<Rightarrow> write_entry dc loc scr e l opened))))"


section \<open>Recording\<close>

text \<open>The characters of a text, and the first 512 that are not control characters.\<close>

definition continuation :: "char \<Rightarrow> bool" where
  "continuation c \<longleftrightarrow> 128 \<le> byte c \<and> byte c < 192"

function chars_of :: "string \<Rightarrow> string list" where
  "chars_of [] = []"
| "chars_of (c # s) = (c # takeWhile continuation s) # chars_of (dropWhile continuation s)"
  by pat_completeness auto
termination
  by (relation "measure length") (auto simp: le_imp_less_Suc length_dropWhile_le)

definition plain_text :: "string \<Rightarrow> string" where
  "plain_text s = concat (take 512 (filter (\<lambda>c. \<not> has_control c) (chars_of s)))"

definition dialog_event_of ::
    "timestamp \<Rightarrow> string \<Rightarrow> int option \<Rightarrow> string \<Rightarrow> string option \<Rightarrow> string option \<Rightarrow> string \<Rightarrow>
     dialog_event" where
  "dialog_event_of now kind pid app rule button detail =
     \<lparr>dv_timestamp = now, dv_kind = kind, dv_pid = pid, dv_app = plain_text app, dv_rule = rule,
      dv_button = map_option plain_text button, dv_detail = detail\<rparr>"

text \<open>The log of the process, if it is open, and its file.\<close>

type_synonym dialog_store = "dialog_log option \<times> string option"

definition record_event ::
    "dialog_codec \<Rightarrow> location \<Rightarrow> append_script \<Rightarrow> dialog_event \<Rightarrow> dialog_store \<Rightarrow>
     bool \<times> dialog_store" where
  "record_event dc loc scr e st =
     (case st of
        (None, file) \<Rightarrow> (False, st)
      | (Some l, file) \<Rightarrow>
          (case dialog_append dc loc scr e l file of
             (r, l', file') \<Rightarrow> (r = Inr (), (Some l', file'))))"

definition open_log ::
    "dialog_codec \<Rightarrow> location \<Rightarrow> open_script \<Rightarrow> nat \<Rightarrow> dialog_store \<Rightarrow> unit result \<times> dialog_store" where
  "open_log dc loc scr retention st =
     (case dialog_log_new dc loc scr retention (snd st) of
        (Inl e, file) \<Rightarrow> (Inl e, (fst st, file))
      | (Inr l, file) \<Rightarrow> (Inr (), (Some l, file)))"


section \<open>What the file holds\<close>

definition dialog_bytes :: "dialog_codec \<Rightarrow> dialog_event list \<Rightarrow> string" where
  "dialog_bytes dc es = concat (map (dialog_line dc) es)"

definition torn_log :: "dialog_codec \<Rightarrow> dialog_event list \<Rightarrow> string \<Rightarrow> string option \<Rightarrow> bool" where
  "torn_log dc es rest file \<longleftrightarrow>
     file_bytes file = dialog_bytes dc es @ rest \<and> newline \<notin> set rest \<and>
     list_all (dialog_line_ok dc) es"

lemma file_bytes_simps [simp]:
  "file_bytes None = []"
  "file_bytes (Some b) = b"
  by (simp_all add: file_bytes_def)

lemma dialog_bytes_simps [simp]:
  "dialog_bytes dc [] = []"
  "dialog_bytes dc (e # es) = dialog_line dc e @ dialog_bytes dc es"
  "dialog_bytes dc (es @ es') = dialog_bytes dc es @ dialog_bytes dc es'"
  by (simp_all add: dialog_bytes_def)

lemma newline_end: "dialog_bytes dc es \<noteq> [] \<Longrightarrow> last (dialog_bytes dc es) = newline"
  by (induction es) (auto simp: dialog_line_def)

lemma dialog_bytes_empty [simp]: "dialog_bytes dc es = [] \<longleftrightarrow> es = []"
  by (cases es) (auto simp: dialog_line_def)

lemma complete_part_torn:
  assumes "newline \<notin> set rest"
  shows "complete_part (dialog_bytes dc es @ rest) = dialog_bytes dc es"
proof -
  have "dropWhile (\<lambda>c. c \<noteq> newline) (rev rest @ xs) = dropWhile (\<lambda>c. c \<noteq> newline) xs" for xs
    using assms by (subst dropWhile_append2) auto
  moreover have "dropWhile (\<lambda>c. c \<noteq> newline) (rev (dialog_bytes dc es)) = rev (dialog_bytes dc es)"
    using newline_end [of dc es] by (cases "dialog_bytes dc es" rule: rev_cases) auto
  ultimately show ?thesis by (simp add: complete_part_def)
qed

text \<open>The loop is the bounded buffer over the selected entries, unless a call fails.\<close>

definition shown_entry :: "bool \<Rightarrow> dialog_event \<Rightarrow> bool" where
  "shown_entry clicks_only e \<longleftrightarrow> clicks_only \<longrightarrow> starts_with ''click.'' (dv_kind e)"

lemma push_entry_bounded:
  "push_bounded limit (push_entry c limit e acc) (filter (shown_entry c) es) =
     push_bounded limit acc (filter (shown_entry c) (e # es))"
  by (simp add: push_entry_def shown_entry_def Let_def)

lemma read_line_dialog:
  "newline \<notin> set l \<Longrightarrow> read_line (l @ [newline] @ s) = l @ [newline]"
  by (simp add: read_line_at)

lemma read_line_rest: "newline \<notin> set rest \<Longrightarrow> read_line rest = rest \<and> unfinished rest"
proof -
  assume none: "newline \<notin> set rest"
  then have all: "\<forall>c \<in> set rest. c \<noteq> newline" by blast
  then have "takeWhile (\<lambda>c. c \<noteq> newline) rest = rest" by simp
  moreover from all have "dropWhile (\<lambda>c. c \<noteq> newline) rest = []" by simp
  ultimately have "read_line rest = rest" by (simp only: read_line_def take_Nil append_Nil2)
  moreover have "unfinished rest"
    using none last_in_set by (metis unfinished_def)
  ultimately show ?thesis ..
qed

lemma read_entries_step:
  assumes "dialog_line_ok dc e" and "fault = None \<or> (\<exists>n os. fault = Some (Suc n, os))"
  shows "read_entries dc loc c limit fault (dialog_line dc e @ s) acc =
    read_entries dc loc c limit (map_option (\<lambda>(n, os). (n - 1, os)) fault) s (push_entry c limit e acc)"
proof -
  have line: "read_line (dialog_line dc e @ s) = dialog_line dc e"
    and fin: "\<not> unfinished (dialog_line dc e)" and valid: "valid_utf8 (dialog_line dc e)"
    and parsed: "dc_parse dc (dialog_line dc e) = Inr e"
    using assms(1) read_line_dialog [of "dc_line dc e" s]
    by (simp_all add: dialog_line_ok_def dialog_line_def unfinished_def)
  from assms(2) show ?thesis
    by (subst read_entries.simps) (auto simp: Let_def line fin valid parsed)
qed

lemma read_entries_torn:
  assumes "list_all (dialog_line_ok dc) es" and "newline \<notin> set rest"
    and "read_entries dc loc c limit fault (dialog_bytes dc es @ rest) acc = Inr r"
  shows "r = push_bounded limit acc (filter (shown_entry c) es)"
  using assms(1,3)
proof (induction es arbitrary: fault acc)
  case Nil
  then show ?case
    using read_line_rest [OF assms(2)]
    by (subst (asm) read_entries.simps) (auto simp: Let_def split: option.splits prod.splits nat.splits if_splits)
next
  case (Cons e es)
  have "fault = None \<or> (\<exists>n os. fault = Some (Suc n, os))"
  proof (rule ccontr)
    assume "\<not> ?thesis"
    then obtain os where "fault = Some (0, os)" by (metis not0_implies_Suc option.exhaust surj_pair)
    with Cons.prems(2) show False by (subst (asm) read_entries.simps) simp
  qed
  from read_entries_step [OF _ this, of dc e] Cons.prems Cons.IH
  have "r = push_bounded limit (push_entry c limit e acc) (filter (shown_entry c) es)" by simp
  then show ?case by (simp only: push_entry_bounded)
qed

lemma read_entries_total:
  assumes "list_all (dialog_line_ok dc) es" and "newline \<notin> set rest" and "valid_utf8 rest"
  shows "\<exists>r. read_entries dc loc c limit None (dialog_bytes dc es @ rest) acc = Inr r"
  using assms(1)
proof (induction es arbitrary: acc)
  case Nil
  then show ?case
    using read_line_rest [OF assms(2)] assms(3) by (subst read_entries.simps) (simp add: Let_def)
next
  case (Cons e es)
  then show ?case by (simp add: read_entries_step)
qed

lemma dialog_read_torn:
  assumes "torn_log dc es rest d" and "dialog_read dc loc fault c limit d = Inr r"
  shows "r = keep_last limit (filter (shown_entry c) es)"
proof (cases d)
  case None
  with assms show ?thesis by (simp add: dialog_read_def torn_log_def)
next
  case (Some bytes)
  with assms have "read_entries dc loc c limit fault (dialog_bytes dc es @ rest) [] = Inr r"
    by (simp add: dialog_read_def torn_log_def)
  from read_entries_torn [OF _ _ this] assms(1) show ?thesis
    by (simp add: torn_log_def push_bounded_keep_last)
qed


section \<open>Histories\<close>

text \<open>
  \<open>written\<close> are the events whose lines were written out, acknowledged or not; the log holds
  the newest of them, and a torn line behind them only while it refuses to go on.
\<close>

definition log_holds ::
    "dialog_codec \<Rightarrow> nat \<Rightarrow> dialog_event list \<Rightarrow> dialog_event list \<Rightarrow> dialog_store \<Rightarrow> bool" where
  "log_holds dc retention written es st \<longleftrightarrow>
     recent_part retention written es \<and>
     (\<exists>rest. torn_log dc es rest (snd st) \<and>
       (\<forall>l. fst st = Some l \<longrightarrow>
          dl_retention l = retention \<and> (rest \<noteq> [] \<longrightarrow> dl_repair_required l)))"

lemma recent_part_keep_last:
  assumes "recent_part n history es"
  shows "recent_part n history (keep_last n es)"
proof -
  obtain dropped where "history = dropped @ es" using assms by (auto simp: recent_part_def)
  moreover obtain ys where "es = ys @ keep_last n es" using keep_last_suffix by blast
  ultimately have "history = (dropped @ ys) @ keep_last n es" by simp
  with assms show ?thesis by (auto simp: recent_part_def)
qed

lemma torn_log_write:
  "torn_log dc es [] d \<Longrightarrow> dialog_line_ok dc e \<Longrightarrow>
     torn_log dc (es @ [e]) [] (Some (file_bytes d @ dialog_line dc e))"
  by (simp add: torn_log_def)

lemma torn_log_tear:
  "torn_log dc es [] d \<Longrightarrow> dialog_line_ok dc e \<Longrightarrow>
     torn_log dc es (take n (dc_line dc e)) (Some (file_bytes d @ take n (dc_line dc e)))"
  by (auto simp: torn_log_def dialog_line_ok_def dest: in_set_takeD)

lemma torn_log_keep_last:
  "torn_log dc es rest d \<Longrightarrow> torn_log dc (keep_last n es) [] (Some (dialog_bytes dc (keep_last n es)))"
  using set_keep_last [of n es] by (auto simp: torn_log_def list_all_iff)

lemma filter_shown_all [simp]: "filter (shown_entry False) es = es"
  by (simp add: shown_entry_def)

lemma compact_dialogs_cases:
  assumes "torn_log dc es rest d" and "compact_dialogs dc loc scr l d = (r, l', d')"
  shows "(r \<noteq> Inr () \<and> l' = l \<and> d' = d) \<or>
    (r = Inr () \<and> dl_retention l' = dl_retention l \<and>
     d' = Some (dialog_bytes dc (keep_last (dl_retention l) es)))"
proof (cases "dialog_read dc loc (ap_read scr) False (dl_retention l) d")
  case (Inl e)
  with assms(2) show ?thesis by (auto simp: compact_dialogs_def)
next
  case (Inr entries)
  from dialog_read_torn [OF assms(1) Inr] have "entries = keep_last (dl_retention l) es" by simp
  with Inr assms(2) show ?thesis
    by (auto simp: compact_dialogs_def dialog_bytes_def split: sum.splits prod.splits
        dest: disk.replace_ok disk.replace_err)
qed

lemma write_entry_cases:
  assumes "torn_log dc es [] d" and "dialog_line_ok dc e" and "d \<noteq> None"
    and "write_entry dc loc scr e l d = (r, l', d')"
  shows "dl_retention l' = dl_retention l \<and>
    ((r = Inr () \<and> (torn_log dc (es @ [e]) [] d' \<or> torn_log dc (keep_last (dl_retention l) (es @ [e])) [] d')) \<or>
     (r \<noteq> Inr () \<and> (torn_log dc (es @ [e]) [] d' \<or> torn_log dc es [] d' \<or>
       (dl_repair_required l' \<and> (\<exists>rest. torn_log dc es rest d')))))"
proof (cases "ap_write scr")
  case None
  let ?d = "Some (file_bytes d @ dialog_line dc e)"
  let ?l = "l\<lparr>dl_count := dl_count l + 1\<rparr>"
  have torn: "torn_log dc (es @ [e]) [] ?d" by (rule torn_log_write [OF assms(1,2)])
  show ?thesis
  proof (cases "dl_count ?l > usize_sat_mul (dl_retention l) 2")
    case True
    with None assms(4) have run: "compact_dialogs dc loc scr ?l ?d = (r, l', d')"
      by (simp add: write_entry_def Let_def)
    from compact_dialogs_cases [OF torn run] torn torn_log_keep_last [OF torn, of "dl_retention l"]
    show ?thesis by auto
  next
    case False
    with None assms(4) torn show ?thesis by (auto simp: write_entry_def Let_def)
  qed
next
  case (Some a)
  obtain n os where a: "a = (n, os)" by (cases a)
  with Some assms torn_log_tear [OF assms(1,2), of n] show ?thesis
    by (auto simp: write_entry_def Let_def split: option.splits)
qed

text \<open>
  What can happen to the log: an event is recorded, the process dies while it writes one
  (\<open>n\<close> bytes of the line are in the file), or a new process opens the log.
\<close>

datatype dialog_op =
    Records append_script dialog_event
  | Dies nat dialog_event
  | Opens open_script

fun op_ok :: "dialog_codec \<Rightarrow> dialog_op \<Rightarrow> bool" where
  "op_ok dc (Records scr e) = dialog_line_ok dc e"
| "op_ok dc (Dies n e) = dialog_line_ok dc e"
| "op_ok dc (Opens scr) = True"

definition left_behind :: "dialog_codec \<Rightarrow> nat \<Rightarrow> dialog_event \<Rightarrow> dialog_store \<Rightarrow> string option" where
  "left_behind dc n e st =
     (case st of
        (Some l, d) \<Rightarrow>
          if dl_repair_required l then d else Some (file_bytes d @ take n (dialog_line dc e))
      | (None, d) \<Rightarrow> d)"

text \<open>The events that were acknowledged, and the store afterwards.\<close>

fun op_run ::
    "dialog_codec \<Rightarrow> location \<Rightarrow> nat \<Rightarrow> dialog_op \<Rightarrow> dialog_store \<Rightarrow> dialog_event list \<times> dialog_store" where
  "op_run dc loc retention (Records scr e) st =
     (case record_event dc loc scr e st of (done, st') \<Rightarrow> (if done then [e] else [], st'))"
| "op_run dc loc retention (Dies n e) st = ([], (None, left_behind dc n e st))"
| "op_run dc loc retention (Opens scr) st = ([], snd (open_log dc loc scr retention (None, snd st)))"

fun dialog_history ::
    "dialog_codec \<Rightarrow> location \<Rightarrow> nat \<Rightarrow> dialog_op list \<Rightarrow> dialog_store \<Rightarrow>
     dialog_event list \<times> dialog_store" where
  "dialog_history dc loc retention [] st = ([], st)"
| "dialog_history dc loc retention (x # ops) st =
     (case op_run dc loc retention x st of
        (acked, st1) \<Rightarrow>
          (case dialog_history dc loc retention ops st1 of (acked', st2) \<Rightarrow> (acked @ acked', st2)))"

lemma dialog_append_cases:
  assumes "torn_log dc es rest d" and "rest \<noteq> [] \<longrightarrow> dl_repair_required l" and "dialog_line_ok dc e"
    and "dialog_append dc loc scr e l d = (r, l', d')"
  shows "dl_retention l' = dl_retention l \<and>
    ((r = Inr () \<and> (torn_log dc (es @ [e]) [] d' \<or> torn_log dc (keep_last (dl_retention l) (es @ [e])) [] d')) \<or>
     (r \<noteq> Inr () \<and> (torn_log dc (es @ [e]) [] d' \<or> torn_log dc es [] d' \<or>
       (dl_repair_required l' \<and> (\<exists>rest. torn_log dc es rest d')))))"
proof (cases "dl_repair_required l")
  case True
  with assms(1,4) show ?thesis by (auto simp: dialog_append_def)
next
  case False
  with assms(1,2) have torn: "torn_log dc es [] d" "torn_log dc es [] (Some (file_bytes d))"
    by (auto simp: torn_log_def)
  have written: ?thesis if "write_entry dc loc scr e l (Some (file_bytes d)) = (r, l', d')"
    by (rule write_entry_cases [OF torn(2) assms(3) _ that]) simp
  from False assms(4) have "write_entry dc loc scr e l (Some (file_bytes d)) = (r, l', d') \<or>
      (r \<noteq> Inr () \<and> l' = l \<and> (d' = d \<or> d' = Some (file_bytes d)))"
    by (auto simp: dialog_append_def Let_def split: option.splits)
  then show ?thesis
  proof
    assume "r \<noteq> Inr () \<and> l' = l \<and> (d' = d \<or> d' = Some (file_bytes d))"
    with torn show ?thesis by blast
  qed (rule written)
qed

lemma open_log_torn:
  assumes "torn_log dc es rest d" and "dialog_log_new dc loc scr retention d = (r, d')"
  shows "(\<exists>e. r = Inl e \<and> (\<exists>rest. torn_log dc es rest d')) \<or>
    (\<exists>l. r = Inr l \<and> dl_retention l = retention \<and> torn_log dc es [] d')"
proof -
  obtain rc d1 where cut: "cut_tail scr d = (rc, d1)" by (cases "cut_tail scr d")
  have torn: "(rc = Inr () \<and> torn_log dc es [] d1) \<or> (rc \<noteq> Inr () \<and> d1 = d)"
  proof (cases d)
    case None
    with assms(1) cut show ?thesis by (auto simp: cut_tail_def torn_log_def)
  next
    case (Some bytes)
    with assms(1) have bytes: "bytes = dialog_bytes dc es @ rest" and rest: "newline \<notin> set rest"
      by (simp_all add: torn_log_def)
    have whole: "torn_log dc es [] d" if "bytes = [] \<or> last bytes = newline"
    proof -
      have "rest = []" using that rest last_in_set [of rest] bytes by (cases "rest = []") auto
      with assms(1) show ?thesis by simp
    qed
    have cut_off: "torn_log dc es [] (Some (complete_part bytes))"
      using assms(1) complete_part_torn [OF rest, of dc es] by (simp add: torn_log_def bytes)
    from cut whole cut_off show ?thesis
      by (simp add: cut_tail_def Some split: option.splits if_splits) blast+
  qed
  show ?thesis
  proof (cases rc)
    case (Inl e)
    with torn assms cut show ?thesis by (auto simp: dialog_log_new_def)
  next
    case (Inr u)
    with torn have "torn_log dc es [] d1" by simp
    with Inr cut assms(2) show ?thesis
      by (cases "dialog_read dc loc (os_scan scr) False u64_max d1") (auto simp: dialog_log_new_def)
  qed
qed

lemma log_holds_append:
  assumes "log_holds dc retention written es (Some l, d)" and "dialog_line_ok dc e"
    and "dialog_append dc loc scr e l d = (r, l', d')"
  shows "\<exists>xs es'. (r = Inr () \<longrightarrow> xs = [e]) \<and> log_holds dc retention (written @ xs) es' (Some l', d')"
proof -
  obtain rest where recent: "recent_part retention written es" and torn: "torn_log dc es rest d"
    and ret: "dl_retention l = retention" and repair: "rest \<noteq> [] \<longrightarrow> dl_repair_required l"
    using assms(1) by (auto simp: log_holds_def)
  have longer: "recent_part retention (written @ [e]) (es @ [e])"
    by (rule recent_part_append [OF recent])
  note cases = dialog_append_cases [OF torn repair assms(2,3)]
  consider "torn_log dc (es @ [e]) [] d'" | "torn_log dc (keep_last retention (es @ [e])) [] d'"
    | "r \<noteq> Inr ()" "torn_log dc es [] d' \<or> (dl_repair_required l' \<and> (\<exists>rest. torn_log dc es rest d'))"
    using cases ret by auto
  then show ?thesis
  proof cases
    case 1
    with longer cases ret have "log_holds dc retention (written @ [e]) (es @ [e]) (Some l', d')"
      by (auto simp: log_holds_def)
    then show ?thesis by blast
  next
    case 2
    with recent_part_keep_last [OF longer] cases ret
    have "log_holds dc retention (written @ [e]) (keep_last retention (es @ [e])) (Some l', d')"
      by (auto simp: log_holds_def)
    then show ?thesis by blast
  next
    case 3
    with recent cases ret have "log_holds dc retention (written @ []) es (Some l', d')"
      by (auto simp: log_holds_def)
    with 3(1) show ?thesis by blast
  qed
qed

lemma log_holds_dies:
  assumes "log_holds dc retention written es st" and "dialog_line_ok dc e"
  shows "\<exists>xs es'. log_holds dc retention (written @ xs) es' (None, left_behind dc n e st)"
proof -
  obtain lo d where st: "st = (lo, d)" by (cases st)
  obtain rest where recent: "recent_part retention written es" and torn: "torn_log dc es rest d"
    and repair: "\<forall>l. lo = Some l \<longrightarrow> rest \<noteq> [] \<longrightarrow> dl_repair_required l"
    using assms(1) st by (auto simp: log_holds_def)
  have same: ?thesis if "left_behind dc n e st = d"
  proof -
    have "log_holds dc retention (written @ []) es (None, left_behind dc n e st)"
      using recent torn that by (auto simp: log_holds_def)
    then show ?thesis by blast
  qed
  show ?thesis
  proof (cases "\<exists>l. lo = Some l \<and> \<not> dl_repair_required l")
    case False
    then have "left_behind dc n e st = d"
      by (auto simp: left_behind_def st split: option.splits)
    then show ?thesis by (rule same)
  next
    case True
    with repair have "rest = []" by blast
    with torn have whole: "torn_log dc es [] d" by simp
    have left: "left_behind dc n e st = Some (file_bytes d @ take n (dialog_line dc e))"
      using True by (auto simp: left_behind_def st)
    show ?thesis
    proof (cases "n \<le> length (dc_line dc e)")
      case True
      then have "take n (dialog_line dc e) = take n (dc_line dc e)" by (simp add: dialog_line_def)
      with torn_log_tear [OF whole assms(2), of n] left recent
      have "log_holds dc retention (written @ []) es (None, left_behind dc n e st)"
        by (auto simp: log_holds_def)
      then show ?thesis by blast
    next
      case False
      then have "take n (dialog_line dc e) = dialog_line dc e" by (simp add: dialog_line_def)
      with torn_log_write [OF whole assms(2)] left recent_part_append [OF recent, of "[e]"]
      have "log_holds dc retention (written @ [e]) (es @ [e]) (None, left_behind dc n e st)"
        by (auto simp: log_holds_def)
      then show ?thesis by blast
    qed
  qed
qed

lemma log_holds_opens:
  assumes "log_holds dc retention written es (None, d)"
  shows "log_holds dc retention written es (snd (open_log dc loc scr retention (None, d)))"
proof -
  obtain rest where recent: "recent_part retention written es" and torn: "torn_log dc es rest d"
    using assms by (auto simp: log_holds_def)
  obtain r d' where run: "dialog_log_new dc loc scr retention d = (r, d')"
    by (cases "dialog_log_new dc loc scr retention d")
  from open_log_torn [OF torn run] recent show ?thesis
    by (auto simp: log_holds_def open_log_def run)
qed

lemma op_run_holds:
  assumes "log_holds dc retention written es st" and "op_ok dc x"
    and "op_run dc loc retention x st = (acked, st')"
  shows "\<exists>xs es'. subseq acked xs \<and> log_holds dc retention (written @ xs) es' st'"
proof (cases x)
  case (Records scr e)
  show ?thesis
  proof (cases "fst st")
    case None
    with assms Records have "acked = [] \<and> st' = st"
      by (cases st) (simp add: record_event_def)
    with assms(1) have "subseq acked [] \<and> log_holds dc retention (written @ []) es st'" by simp
    then show ?thesis by blast
  next
    case (Some l)
    then obtain d where st: "st = (Some l, d)" by (cases st) auto
    obtain r l' d' where run: "dialog_append dc loc scr e l d = (r, l', d')"
      by (cases "dialog_append dc loc scr e l d") auto
    from assms(2) Records have "dialog_line_ok dc e" by simp
    from log_holds_append [OF assms(1) [unfolded st] this run] obtain xs es'
      where "r = Inr () \<longrightarrow> xs = [e]" and "log_holds dc retention (written @ xs) es' (Some l', d')"
      by blast
    moreover have "acked = (if r = Inr () then [e] else []) \<and> st' = (Some l', d')"
      using assms(3) Records by (simp add: record_event_def st run)
    ultimately show ?thesis by fastforce
  qed
next
  case (Dies n e)
  with assms log_holds_dies [OF assms(1), of e n] show ?thesis by auto
next
  case (Opens scr)
  obtain d where d: "snd st = d" by blast
  have "log_holds dc retention written es (None, d)"
    using assms(1) d by (auto simp: log_holds_def)
  from log_holds_opens [OF this, of loc scr] assms(3) Opens d
  have "subseq acked [] \<and> log_holds dc retention (written @ []) es st'" by simp
  then show ?thesis by blast
qed

lemma dialog_history_holds:
  assumes "log_holds dc retention written es st" and "\<forall>x \<in> set ops. op_ok dc x"
    and "dialog_history dc loc retention ops st = (acked, st')"
  shows "\<exists>xs es'. subseq acked xs \<and> log_holds dc retention (written @ xs) es' st'"
  using assms
proof (induction ops arbitrary: written es st acked)
  case Nil
  then have "subseq acked [] \<and> log_holds dc retention (written @ []) es st'" by simp
  then show ?case by blast
next
  case (Cons x ops)
  obtain acked1 st1 where now: "op_run dc loc retention x st = (acked1, st1)" by (metis surj_pair)
  obtain acked2 st2 where later: "dialog_history dc loc retention ops st1 = (acked2, st2)"
    by (metis surj_pair)
  from Cons.prems(2) have ok: "op_ok dc x" "\<forall>x \<in> set ops. op_ok dc x" by simp_all
  from op_run_holds [OF Cons.prems(1) ok(1) now] obtain xs es1
    where xs: "subseq acked1 xs" and holds: "log_holds dc retention (written @ xs) es1 st1" by blast
  from Cons.prems(3) now later have eqs: "acked = acked1 @ acked2" "st' = st2" by simp_all
  from Cons.IH [OF holds ok(2) later [folded eqs(2)]] obtain ys es'
    where ys: "subseq acked2 ys" and "log_holds dc retention ((written @ xs) @ ys) es' st'" by blast
  then have "log_holds dc retention (written @ (xs @ ys)) es' st'" by simp
  moreover have "subseq acked (xs @ ys)"
    using xs ys eqs(1) by (simp add: list_emb_append_mono)
  ultimately show ?case by blast
qed

text \<open>An open log that does not refuse is read without error, and shows its newest entries.\<close>

lemma dialog_read_open:
  assumes "torn_log dc es rest d" and "valid_utf8 rest"
  shows "dialog_read dc loc None c limit d = Inr (keep_last limit (filter (shown_entry c) es))"
proof -
  have "\<exists>r. dialog_read dc loc None c limit d = Inr r"
    using assms read_entries_total [of dc es rest loc c limit "[]"]
    by (cases d) (auto simp: dialog_read_def torn_log_def)
  then show ?thesis using dialog_read_torn [OF assms(1)] by blast
qed


section \<open>Properties\<close>

text \<open>C34: The audit log loses nothing that was acknowledged.  Through any history of records with
  any I/O failure, deaths of the process in the middle of a line, and restarts, starting
  from a file that may itself end in a torn line: the file holds the newest part of what
  was written, at least \<open>retention\<close> events or all, and every event whose record was answered
  with success was written, in order.  Whatever a reader is given is the newest selected
  entries of that part, and while the log goes on it is given it.\<close>
theorem dialog_audit_survives:
  assumes "torn_log dc es0 rest0 d0" and "\<forall>x \<in> set ops. op_ok dc x"
    and "dialog_history dc loc retention ops (None, d0) = (acked, (lo, d))"
  shows "\<exists>written es. subseq (es0 @ acked) written \<and> recent_part retention written es \<and>
    (\<forall>fault clicks limit r. dialog_read dc loc fault clicks limit d = Inr r \<longrightarrow>
       r = keep_last limit (filter (shown_entry clicks) es)) \<and>
    (\<forall>l clicks limit. lo = Some l \<longrightarrow> \<not> dl_repair_required l \<longrightarrow>
       dialog_read dc loc None clicks limit d = Inr (keep_last limit (filter (shown_entry clicks) es)))"
proof -
  have "log_holds dc retention es0 es0 (None, d0)"
    using assms(1) by (auto simp: log_holds_def recent_part_def)
  from dialog_history_holds [OF this assms(2,3)] obtain xs es
    where xs: "subseq acked xs" and holds: "log_holds dc retention (es0 @ xs) es (lo, d)" by blast
  then obtain rest where torn: "torn_log dc es rest d"
    and repair: "\<forall>l. lo = Some l \<longrightarrow> rest \<noteq> [] \<longrightarrow> dl_repair_required l"
    by (auto simp: log_holds_def)
  have "dialog_read dc loc None c limit d = Inr (keep_last limit (filter (shown_entry c) es))"
    if "lo = Some l" and "\<not> dl_repair_required l" for l c limit
    using dialog_read_open [OF torn] repair that by auto
  moreover have "subseq (es0 @ acked) (es0 @ xs)"
    using xs by (intro list_emb_append_mono) simp_all
  ultimately show ?thesis
    using holds dialog_read_torn [OF torn] by (auto simp: log_holds_def) blast
qed

text \<open>
  An append in flight is left for the next call only when it breaks off between two
  characters: otherwise the whole log cannot be read.
\<close>

lemma torn_character_breaks_reading:
  assumes "torn_log dc es rest d" and "\<not> valid_utf8 rest"
  shows "dialog_read dc loc None c limit d = bail ''stream did not contain valid UTF-8''"
proof -
  have "read_entries dc loc c limit None (dialog_bytes dc es @ rest) acc =
      bail ''stream did not contain valid UTF-8''" if "list_all (dialog_line_ok dc) es" for acc
    using that
  proof (induction es arbitrary: acc)
    case Nil
    have "read_line rest = rest" using read_line_rest assms(1) by (simp add: torn_log_def)
    with assms(2) show ?case by (subst read_entries.simps) (simp add: Let_def)
  next
    case (Cons e es)
    then show ?case by (simp add: read_entries_step)
  qed
  moreover have "d \<noteq> None" using assms by (cases d) (auto simp: torn_log_def)
  ultimately show ?thesis
    using assms(1) by (auto simp: dialog_read_def torn_log_def)
qed

section \<open>An example\<close>

definition example_dialog_event :: dialog_event where
  "example_dialog_event = dialog_event_of 0 ''click.attempt'' (Some 7) ''app'' None None []"

definition example_dialog_codec :: dialog_codec where
  "example_dialog_codec = \<lparr>dc_line = (\<lambda>e. ''x''), dc_parse = (\<lambda>s. Inr example_dialog_event)\<rparr>"

definition no_open_fault :: open_script where
  "no_open_fault = \<lparr>os_read = None, os_truncate = None, os_scan = None\<rparr>"

definition no_append_fault :: append_script where
  "no_append_fault = \<lparr>ap_directory = None, ap_open = None, ap_metadata = None, ap_write = None,
     ap_restore = None, ap_read = None, ap_replace = NoFault\<rparr>"

text \<open>A torn record is cut off when the log is opened, and the next one is recorded.\<close>

lemma example_dialog_history:
  "dialog_history example_dialog_codec \<lparr>loc_path = ''l'', loc_parent = Some ''p''\<rparr> 3
     [Opens no_open_fault, Records no_append_fault example_dialog_event] (None, Some ''torn'') =
   ([example_dialog_event],
    (Some \<lparr>dl_count = 1, dl_retention = 3, dl_repair_required = False\<rparr>, Some (''x'' @ [newline])))"
  by (simp add: open_log_def dialog_log_new_def cut_tail_def no_open_fault_def complete_part_def
      dialog_read_def read_entries.simps unfinished_def record_event_def dialog_append_def
      write_entry_def no_append_fault_def dialog_line_def example_dialog_codec_def newline_def
      usize_sat_mul_def u64_max_def)

theorem dialog_audit_survives_witness:
  "\<exists>written es. subseq ([] @ [example_dialog_event]) written \<and> recent_part 3 written es \<and>
    dialog_read example_dialog_codec \<lparr>loc_path = ''l'', loc_parent = Some ''p''\<rparr> None True 1
      (Some (''x'' @ [newline])) = Inr (keep_last 1 (filter (shown_entry True) es))"
proof -
  have torn: "torn_log example_dialog_codec [] ''torn'' (Some ''torn'')"
    by (simp add: torn_log_def newline_def)
  have ok: "\<forall>x \<in> set [Opens no_open_fault, Records no_append_fault example_dialog_event].
      op_ok example_dialog_codec x"
    by (simp add: dialog_line_ok_def dialog_line_def example_dialog_codec_def newline_def
        utf8_tail_def byte_def)
  from dialog_audit_survives [OF torn ok example_dialog_history] show ?thesis by force
qed

end
