(* ===== verification/Dialog_Monitor.thy ===== *)
theory Dialog_Monitor
  imports Dialog_Match Dialog_Log
begin

text \<open>
  The monitor of consent dialogs (\<open>os_permissions/macos.rs\<close>): the scan of a process's
  windows with its clicks and their verification, and the bookkeeping of the processes it
  listens to.  Everything the operating system answers (windows, identities, subscriptions,
  clock, permit, the outcome of a press and of every audit record) is a script; what the
  monitor does outside its own state is a list of effects in order.
\<close>


section \<open>State and effects\<close>

record dialog_status =
  do_state :: string
  do_listening :: nat
  do_unavailable :: nat
  do_clicks_sent :: nat
  do_dialogs_closed :: nat
  do_last_result :: "string option"

text \<open>\<open>dg_timer\<close>: a one-shot timer that scans the process again is set.\<close>

record dialog =
  dg_window :: ax_element
  dg_last_attempt :: "string option"
  dg_last_observation :: "string option"
  dg_last_rule :: "string option"
  dg_last_button :: "string option"
  dg_awaiting_close :: bool
  dg_deadline :: "timestamp option"
  dg_timer :: bool

text \<open>
  An audit record (kind, process, application, rule, button, detail) and whether it was
  written; a press on a button of a window, with the signature of the request; the
  subscriptions for a window; a scan that is queued (0 is the list of processes).
\<close>

datatype monitor_effect =
    Audited string "int option" string "string option" "string option" string bool
  | Pressed ax_element ax_element string ax_error
  | Watched ax_element
  | Queued int

definition same_window :: "ax_element \<Rightarrow> dialog \<Rightarrow> bool" where
  "same_window w d \<longleftrightarrow> ax_node (dg_window d) = ax_node w"

definition fresh_dialog :: "ax_element \<Rightarrow> dialog" where
  "fresh_dialog w =
     \<lparr>dg_window = w, dg_last_attempt = None, dg_last_observation = None, dg_last_rule = None,
      dg_last_button = None, dg_awaiting_close = False, dg_deadline = None, dg_timer = False\<rparr>"

text \<open>What is fixed during a scan: \<open>to_lowercase\<close>, the \<open>Debug\<close> text of an error, the dry run, the process.\<close>

record scan_env =
  sc_lower :: "string \<Rightarrow> string"
  sc_error_text :: "ax_error \<Rightarrow> string"
  sc_dry_run :: bool
  sc_pid :: int
  sc_app :: string

text \<open>The answers for one window, in the order in which they are asked for.\<close>

record window_script =
  ws_permit :: bool
  ws_rules :: "dialog_settings option"
  ws_identity :: "(string \<times> string) option"
  ws_now :: timestamp
  ws_first :: inspection
  ws_second :: inspection
  ws_terminated :: bool
  ws_identity_again :: "(string \<times> string) option"
  ws_permit_press :: bool
  ws_written :: "string \<Rightarrow> bool"
  ws_result :: ax_error
  ws_pressed_at :: timestamp
  ws_timer :: bool

definition audit ::
    "scan_env \<Rightarrow> (string \<Rightarrow> bool) \<Rightarrow> string \<Rightarrow> string option \<Rightarrow> string option \<Rightarrow> string \<Rightarrow> monitor_effect" where
  "audit sc written kind rule button detail =
     Audited kind (Some (sc_pid sc)) (sc_app sc) rule button detail (written kind)"


section \<open>One window\<close>

text \<open>A press whose window is still there after three seconds is not verified any longer.\<close>

definition give_up_waiting ::
    "scan_env \<Rightarrow> window_script \<Rightarrow> dialog \<times> dialog_status \<Rightarrow>
     (dialog \<times> dialog_status) \<times> monitor_effect list" where
  "give_up_waiting sc scr s =
     (case s of (d, st) \<Rightarrow>
        if dg_awaiting_close d \<and>
          (case dg_deadline d of None \<Rightarrow> False | Some deadline \<Rightarrow> deadline \<le> ws_now scr)
        then ((d\<lparr>dg_awaiting_close := False, dg_timer := False\<rparr>,
               st\<lparr>do_last_result := Some ''Click sent; window still present (not retried)''\<rparr>),
              [audit sc (ws_written scr) ''click.unconfirmed'' (dg_last_rule d) (dg_last_button d)
                 ''window still present after 3 seconds; click will not be retried''])
        else (s, []))"

text \<open>The press, after its intent is on record.\<close>

definition press_button ::
    "scan_env \<Rightarrow> window_script \<Rightarrow> matched_button \<Rightarrow> matched_button \<Rightarrow> dialog \<times> dialog_status \<Rightarrow>
     (dialog \<times> dialog_status) \<times> monitor_effect list" where
  "press_button sc scr m current s =
     (case s of (d, st) \<Rightarrow>
        let rule = Some (mb_rule m); label = Some (mb_label m); written = ws_written scr;
            attempt = audit sc written ''click.attempt'' rule label ''matched rule; sending AXPress''
        in if \<not> written ''click.attempt''
           then ((d, st\<lparr>do_last_result := Some ''Click skipped: cannot write event log''\<rparr>), [attempt])
           else
             (let d1 = d\<lparr>dg_last_attempt := Some (mb_signature m), dg_last_rule := rule,
                       dg_last_button := label, dg_awaiting_close := False, dg_timer := False\<rparr>;
                  r = ws_result scr; shown = sc_error_text sc r;
                  pressed = Pressed (dg_window d) (mb_button current) (mb_signature m) r
              in if r = Success \<or> r = CannotComplete
                 then ((d1\<lparr>dg_awaiting_close := True, dg_deadline := Some (ws_pressed_at scr + 3 * nanos),
                          dg_timer := ws_timer scr\<rparr>,
                        st\<lparr>do_clicks_sent := do_clicks_sent st + 1,
                           do_last_result := Some (''Clicked '' @ mb_label m @ '' via '' @ mb_rule m @
                             ''; waiting for window to close'')\<rparr>),
                       [attempt, pressed,
                        audit sc written ''click.sent'' rule label
                          (''AXPress: '' @ shown @ ''; waiting for window to close''),
                        Queued (sc_pid sc)])
                 else ((d1, st\<lparr>do_last_result := Some (''Click failed: '' @ shown)\<rparr>),
                       [attempt, pressed,
                        audit sc written ''click.failed'' rule label
                          (''AXPress: '' @ shown @ ''; not retried'')])))"

text \<open>The two inspections of a window agree, and its owner is still the same.\<close>

definition confirmed ::
    "window_script \<Rightarrow> string \<times> string \<Rightarrow> matched_button \<Rightarrow> matched_button \<Rightarrow> bool" where
  "confirmed scr identity m current \<longleftrightarrow>
     ax_node (mb_button m) = ax_node (mb_button current) \<and>
     mb_signature m = mb_signature current \<and> mb_rule m = mb_rule current \<and>
     \<not> ws_terminated scr \<and> ws_identity_again scr = Some identity"

text \<open>A matched button; the flag says whether the scan ends here.\<close>

definition act_on_match ::
    "scan_env \<Rightarrow> window_script \<Rightarrow> dialog_settings \<Rightarrow> string \<times> string \<Rightarrow> matched_button \<Rightarrow>
     dialog \<times> dialog_status \<Rightarrow> bool \<times> (dialog \<times> dialog_status) \<times> monitor_effect list" where
  "act_on_match sc scr rules identity m s =
     (case s of (d, st) \<Rightarrow>
        if dg_last_attempt d = Some (mb_signature m) then (False, s, [])
        else
          (let d1 = d\<lparr>dg_last_observation := Some (''matched '' @ mb_rule m)\<rparr>
           in if sc_dry_run sc
              then (False, (d1\<lparr>dg_last_attempt := Some (mb_signature m)\<rparr>, st),
                    [audit sc (ws_written scr) ''click.dry_run'' (Some (mb_rule m)) (Some (mb_label m))
                       ''rule matched; no click in dry run''])
              else (case matching_button (sc_lower sc) (ws_second scr) rules identity (dg_window d) of
                  Inl reason \<Rightarrow> (False, (d1, st), [])
                | Inr current \<Rightarrow>
                    if \<not> confirmed scr identity m current then (False, (d1, st), [])
                    else if \<not> ws_permit_press scr then (True, (d1, st), [])
                    else (case press_button sc scr m current (d1, st) of
                        (s', es) \<Rightarrow> (False, s', es)))))"

definition examine ::
    "scan_env \<Rightarrow> window_script \<Rightarrow> dialog_settings \<Rightarrow> string \<times> string \<Rightarrow> dialog \<times> dialog_status \<Rightarrow>
     bool \<times> (dialog \<times> dialog_status) \<times> monitor_effect list" where
  "examine sc scr rules identity s =
     (case matching_button (sc_lower sc) (ws_first scr) rules identity (dg_window (fst s)) of
        Inl reason \<Rightarrow>
          if dg_last_observation (fst s) \<noteq> Some reason
          then (False, ((fst s)\<lparr>dg_last_observation := Some reason\<rparr>, snd s),
                [audit sc (ws_written scr) ''window.skipped'' None None reason])
          else (False, s, [])
      | Inr m \<Rightarrow> act_on_match sc scr rules identity m s)"

text \<open>The dialog of a window, which is new when none is known.\<close>

definition dialog_of_window ::
    "scan_env \<Rightarrow> window_script \<Rightarrow> ax_element \<Rightarrow> dialog list \<Rightarrow> dialog list \<times> monitor_effect list" where
  "dialog_of_window sc scr w ds =
     (if list_ex (same_window w) ds then (ds, [])
      else (ds @ [fresh_dialog w],
            [Watched w,
             audit sc (ws_written scr) ''window.discovered'' None None
               ''window event or initial window snapshot'']))"

definition scan_window ::
    "scan_env \<Rightarrow> window_script \<Rightarrow> ax_element \<Rightarrow> dialog list \<times> dialog_status \<Rightarrow>
     bool \<times> (dialog list \<times> dialog_status) \<times> monitor_effect list" where
  "scan_window sc scr w s =
     (if \<not> ws_permit scr then (True, s, [])
      else case ws_rules scr of None \<Rightarrow> (True, s, []) | Some rules \<Rightarrow>
     (case ws_identity scr of None \<Rightarrow> (True, s, []) | Some identity \<Rightarrow>
     (case s of (ds, st) \<Rightarrow>
        let (ds1, es1) = dialog_of_window sc scr w ds
        in case find (same_window w) ds1 of
             None \<Rightarrow> (False, (ds1, st), es1)
           | Some d \<Rightarrow>
               (let ((d1, st1), es2) = give_up_waiting sc scr (d, st);
                    (stop, (d2, st2), es3) = examine sc scr rules identity (d1, st1)
                in (stop, (update_first (same_window w) (\<lambda>_. d2) ds1, st2), es1 @ es2 @ es3)))))"


section \<open>The windows of a process\<close>

fun scan_windows ::
    "scan_env \<Rightarrow> (nat \<Rightarrow> window_script) \<Rightarrow> nat \<Rightarrow> ax_element list \<Rightarrow> dialog list \<times> dialog_status \<Rightarrow>
     (dialog list \<times> dialog_status) \<times> monitor_effect list" where
  "scan_windows sc scr k [] s = (s, [])"
| "scan_windows sc scr k (w # ws) s =
     (case scan_window sc (scr k) w s of
        (stop, s1, es) \<Rightarrow>
          if stop then (s1, es)
          else (case scan_windows sc scr (Suc k) ws s1 of (s2, es2) \<Rightarrow> (s2, es @ es2)))"

definition present :: "ax_element list \<Rightarrow> dialog \<Rightarrow> bool" where
  "present windows d \<longleftrightarrow> list_ex (\<lambda>w. same_window w d) windows"

text \<open>Dialogs whose window is gone; a press that was waiting for that is confirmed.\<close>

definition close_absent ::
    "scan_env \<Rightarrow> (string \<Rightarrow> bool) \<Rightarrow> ax_element list \<Rightarrow> dialog list \<times> dialog_status \<Rightarrow>
     (dialog list \<times> dialog_status) \<times> monitor_effect list" where
  "close_absent sc written windows s =
     (case s of (ds, st) \<Rightarrow>
        let closed = filter (\<lambda>d. \<not> present windows d \<and> dg_awaiting_close d) ds
        in ((filter (present windows) ds,
             if closed = [] then st
             else st\<lparr>do_dialogs_closed := do_dialogs_closed st + length closed,
                     do_last_result := Some ''Dialog closed after click''\<rparr>),
            map (\<lambda>d. audit sc written ''click.closed'' (dg_last_rule d) (dg_last_button d)
              ''window absent after click; original tool result is unknown'') closed))"

record process =
  pr_dialogs :: "dialog list"
  pr_subscriptions :: "string list"
  pr_last_error :: "ax_error option"

record process_script =
  ps_windows :: "ax_error + ax_value"
  ps_written :: "string \<Rightarrow> bool"
  ps_window :: "nat \<Rightarrow> window_script"

definition scan_process ::
    "scan_env \<Rightarrow> process_script \<Rightarrow> dialog list \<times> dialog_status \<Rightarrow>
     (ax_error + unit) \<times> (dialog list \<times> dialog_status) \<times> monitor_effect list" where
  "scan_process sc scr s =
     (case ax_elements (ps_windows scr) of
        Inl e \<Rightarrow> (Inl e, s, [])
      | Inr windows \<Rightarrow>
          (let (s1, es1) = close_absent sc (ps_written scr) windows s;
               (s2, es2) = scan_windows sc (ps_window scr) 0 (take 32 windows) s1
           in (Inr (), s2, es1 @ es2)))"

text \<open>\<open>process_subscriptions\<close>: the subscriptions of a process, \<open>add\<close> being the answer for each.\<close>

definition process_notifications :: "string list" where
  "process_notifications = [''AXWindowCreated'', ''AXSheetCreated'', ''AXFocusedWindowChanged'']"

definition is_transient :: "ax_error \<Rightarrow> bool" where
  "is_transient e \<longleftrightarrow> e = CannotComplete \<or> e = InvalidUIElement"

definition is_subscribed :: "ax_error \<Rightarrow> bool" where
  "is_subscribed e \<longleftrightarrow> e = Success \<or> e = NotificationAlreadyRegistered"

definition process_subscriptions :: "(string \<Rightarrow> ax_error) \<Rightarrow> ax_error + string list" where
  "process_subscriptions add =
     (let answers = map add process_notifications
      in case find is_transient answers of
           Some e \<Rightarrow> Inl e
         | None \<Rightarrow>
             (case filter (\<lambda>n. is_subscribed (add n)) process_notifications of
                [] \<Rightarrow> Inl (unwrap_or (find (\<lambda>e. \<not> is_subscribed e) answers) NotificationUnsupported)
              | names \<Rightarrow> Inr names))"

definition dialog_notifications :: "string list" where
  "dialog_notifications = [''AXUIElementDestroyed'', ''AXLayoutChanged'', ''AXSheetCreated'']"

text \<open>\<open>created\<close> is the answer of \<open>AXObserverCreate\<close>.\<close>

definition new_process :: "ax_error \<Rightarrow> (string \<Rightarrow> ax_error) \<Rightarrow> ax_error + process" where
  "new_process created add =
     (if created \<noteq> Success then Inl created
      else case process_subscriptions add of
        Inl e \<Rightarrow> Inl e
      | Inr names \<Rightarrow> Inr \<lparr>pr_dialogs = [], pr_subscriptions = names, pr_last_error = None\<rparr>)"


section \<open>The monitor\<close>

text \<open>A running application is the object the workspace hands out for a process.\<close>

record application =
  an_object :: nat
  an_pid :: int

record pending =
  pp_app :: application
  pp_attempts :: nat
  pp_timer :: bool

record monitor =
  mo_processes :: "(int, application \<times> process) dict"
  mo_failed :: "(int, pending) dict"
  mo_initialized :: bool
  mo_status :: dialog_status

text \<open>The answers of the desktop while the monitor works through one event.\<close>

record desktop_script =
  dk_trusted :: bool
  dk_rules :: "dialog_settings option"
  dk_running :: "application list"
  dk_terminated :: "application \<Rightarrow> bool"
  dk_identity :: "application \<Rightarrow> (string \<times> string) option"
  dk_name :: "application \<Rightarrow> string"
  dk_permit :: "nat \<Rightarrow> bool"
  dk_created :: "application \<Rightarrow> ax_error"
  dk_subscribed :: "application \<Rightarrow> string \<Rightarrow> ax_error"
  dk_timer :: "application \<Rightarrow> bool"
  dk_written :: "string \<Rightarrow> bool"
  dk_executable :: "string option"
  dk_scan :: process_script

definition observed_app :: "desktop_script \<Rightarrow> application \<Rightarrow> bool" where
  "observed_app dk app \<longleftrightarrow>
     \<not> dk_terminated dk app \<and>
     (case dk_identity dk app of
        None \<Rightarrow> False
      | Some (path, bundle) \<Rightarrow>
          observes (unwrap_or (dk_rules dk) default_dialog_settings) path bundle)"

definition app_audit ::
    "desktop_script \<Rightarrow> string \<Rightarrow> application \<Rightarrow> string option \<Rightarrow> string option \<Rightarrow> string \<Rightarrow> monitor_effect" where
  "app_audit dk kind app rule button detail =
     Audited kind (Some (an_pid app)) (dk_name dk app) rule button detail (dk_written dk kind)"

definition attach ::
    "(ax_error \<Rightarrow> string) \<Rightarrow> desktop_script \<Rightarrow> application \<Rightarrow> nat \<Rightarrow> monitor \<Rightarrow>
     monitor \<times> monitor_effect list" where
  "attach dbg dk app previous m =
     (let pid = an_pid app
      in case new_process (dk_created dk app) (dk_subscribed dk app) of
           Inr p \<Rightarrow>
             (m\<lparr>mo_failed := hm_remove pid (mo_failed m),
               mo_processes := hm_insert pid (app, p) (mo_processes m)\<rparr>,
              [app_audit dk ''process.observed'' app None None
                 (''subscribed: '' @ join_text '', '' (pr_subscriptions p) @ ''; initial window check''),
               Queued pid])
         | Inl e \<Rightarrow>
             (let attempts = previous + 1; timer = (attempts < 4 \<and> is_transient e \<and> dk_timer dk app)
              in (m\<lparr>mo_failed := hm_insert pid \<lparr>pp_app = app, pp_attempts = attempts, pp_timer = timer\<rparr>
                     (mo_failed m)\<rparr>,
                  [app_audit dk (if timer then ''process.retry'' else ''process.unavailable'') app None None
                     (''AX subscription attempt '' @ show_nat attempts @ ''/4: '' @ dbg e)])))"

text \<open>The one-shot timer of a failed subscription.\<close>

definition retry_attach ::
    "(ax_error \<Rightarrow> string) \<Rightarrow> desktop_script \<Rightarrow> int \<Rightarrow> monitor \<Rightarrow> monitor \<times> monitor_effect list" where
  "retry_attach dbg dk pid m =
     (case hm_get (mo_failed m) pid of
        None \<Rightarrow> (m, [Queued 0])
      | Some p \<Rightarrow>
          (let m1 = m\<lparr>mo_failed := hm_remove pid (mo_failed m)\<rparr>
           in if dk_terminated dk (pp_app p) \<or> \<not> dk_permit dk 0 then (m1, [Queued 0])
              else (case attach dbg dk (pp_app p) (pp_attempts p) m1 of
                  (m2, es) \<Rightarrow> (m2, es @ [Queued 0]))))"

definition permission_required :: "desktop_script \<Rightarrow> monitor \<Rightarrow> monitor \<times> monitor_effect list" where
  "permission_required dk m =
     (m\<lparr>mo_processes := [], mo_failed := [],
        mo_status := (mo_status m)
          \<lparr>do_state := ''accessibility_required'', do_listening := 0, do_unavailable := 0,
           do_last_result := map_option (\<lambda>path. ''Enable Accessibility for '' @ path @
             '' and restart the service'') (dk_executable dk)\<rparr>\<rparr>,
      if do_state (mo_status m) \<noteq> ''accessibility_required''
      then [Audited ''monitor.permission_required'' None ''watchcatd'' None None
              ''Grant Accessibility to watchcatd and restart'' (dk_written dk ''monitor.permission_required'')]
      else [])"

text \<open>A process that exited, or that no enabled rule applies to any longer.\<close>

definition detach_audits :: "desktop_script \<Rightarrow> application \<times> process \<Rightarrow> monitor_effect list" where
  "detach_audits dk = (\<lambda>(app, p).
     app_audit dk ''process.detached'' app None None ''process exited or no enabled rule applies'' #
     map (\<lambda>d. app_audit dk ''click.unconfirmed'' app (dg_last_rule d) (dg_last_button d)
         ''host exited or rule removed before close was confirmed'')
       (filter dg_awaiting_close (pr_dialogs p)))"

definition drop_unobserved :: "desktop_script \<Rightarrow> monitor \<Rightarrow> monitor \<times> monitor_effect list" where
  "drop_unobserved dk m =
     (m\<lparr>mo_processes := hm_retain (\<lambda>pid ap. observed_app dk (fst ap)) (mo_processes m),
        mo_failed := hm_retain (\<lambda>pid p. observed_app dk (pp_app p)) (mo_failed m)\<rparr>,
      concat (map (detach_audits dk)
        (filter (\<lambda>ap. \<not> observed_app dk (fst ap)) (hm_values (mo_processes m)))))"

text \<open>
  The running applications in order; the flag says whether the permit was withdrawn on the
  way, which ends the reconciliation.
\<close>

fun discover_apps ::
    "(ax_error \<Rightarrow> string) \<Rightarrow> desktop_script \<Rightarrow> nat \<Rightarrow> application list \<Rightarrow> monitor \<Rightarrow>
     bool \<times> monitor \<times> monitor_effect list" where
  "discover_apps dbg dk k [] m = (False, m, [])"
| "discover_apps dbg dk k (app # apps) m =
     (if \<not> dk_permit dk k then (True, m, [])
      else if hm_get (mo_processes m) (an_pid app) \<noteq> None \<or> hm_get (mo_failed m) (an_pid app) \<noteq> None \<or>
        \<not> observed_app dk app
      then discover_apps dbg dk (Suc k) apps m
      else
        (case attach dbg dk app 0 m of
           (m1, es1) \<Rightarrow>
             (case discover_apps dbg dk (Suc k) apps m1 of
                (stop, m2, es2) \<Rightarrow>
                  (stop, m2,
                   app_audit dk ''process.discovered'' app None None
                     (if mo_initialized m
                      then ''new process from application-list event; installing window observer''
                      else ''initial application snapshot; installing window observer'') #
                   es1 @ es2))))"

definition monitor_state :: "bool \<Rightarrow> monitor \<Rightarrow> string" where
  "monitor_state dry_run m =
     (if mo_failed m \<noteq> [] then ''partial''
      else if dry_run then ''dry_run''
      else if mo_processes m = [] then ''waiting_for_system_ui''
      else ''listening'')"

definition reconcile_monitor ::
    "(ax_error \<Rightarrow> string) \<Rightarrow> bool \<Rightarrow> desktop_script \<Rightarrow> monitor \<Rightarrow> monitor \<times> monitor_effect list" where
  "reconcile_monitor dbg dry_run dk m =
     (if \<not> dk_trusted dk then permission_required dk m
      else (case drop_unobserved dk m of
        (m1, es1) \<Rightarrow>
          (case discover_apps dbg dk 0 (dk_running dk) m1 of
             (True, m2, es2) \<Rightarrow> (m2, es1 @ es2)
           | (False, m2, es2) \<Rightarrow>
               (m2\<lparr>mo_initialized := True,
                  mo_status := (mo_status m2)
                    \<lparr>do_listening := length (mo_processes m2), do_unavailable := length (mo_failed m2),
                     do_state := monitor_state dry_run m2\<rparr>\<rparr>,
                es1 @ es2 @ map Queued (hm_keys (mo_processes m2))))))"

text \<open>A scan of one process that was queued.\<close>

definition scan_env_of ::
    "(string \<Rightarrow> string) \<Rightarrow> (ax_error \<Rightarrow> string) \<Rightarrow> bool \<Rightarrow> desktop_script \<Rightarrow> application \<Rightarrow> scan_env" where
  "scan_env_of lower dbg dry_run dk app =
     \<lparr>sc_lower = lower, sc_error_text = dbg, sc_dry_run = dry_run, sc_pid = an_pid app,
      sc_app = dk_name dk app\<rparr>"

definition scan_monitor ::
    "(string \<Rightarrow> string) \<Rightarrow> (ax_error \<Rightarrow> string) \<Rightarrow> bool \<Rightarrow> desktop_script \<Rightarrow> int \<Rightarrow> monitor \<Rightarrow>
     monitor \<times> monitor_effect list" where
  "scan_monitor lower dbg dry_run dk pid m =
     (if \<not> dk_trusted dk then reconcile_monitor dbg dry_run dk m
      else case hm_get (mo_processes m) pid of
        None \<Rightarrow> (m, [])
      | Some (app, p) \<Rightarrow>
          if dk_terminated dk app then (m, [])
          else (case scan_process (scan_env_of lower dbg dry_run dk app) (dk_scan dk) (pr_dialogs p, mo_status m) of
              (Inr _, (ds, st), es) \<Rightarrow>
                (m\<lparr>mo_processes := hm_insert pid (app, p\<lparr>pr_dialogs := ds, pr_last_error := None\<rparr>)
                     (mo_processes m), mo_status := st\<rparr>, es)
            | (Inl e, (ds, st), es) \<Rightarrow>
                (m\<lparr>mo_processes := hm_insert pid (app, p\<lparr>pr_dialogs := ds, pr_last_error := Some e\<rparr>)
                     (mo_processes m),
                   mo_status := st\<lparr>do_state := ''partial'',
                     do_last_result := Some (''Cannot read system dialog: '' @ dbg e)\<rparr>\<rparr>,
                 es @ (if pr_last_error p \<noteq> Some e
                   then [app_audit dk ''process.read_failed'' app None None (''AXWindows: '' @ dbg e)]
                   else []))))"

text \<open>\<open>reset_failed\<close>: a lifecycle event makes a failed process eligible again.\<close>

definition reset_failed :: "int option \<Rightarrow> bool \<Rightarrow> (int, 'a) dict \<Rightarrow> (int, 'a) dict" where
  "reset_failed pid reset failed =
     (if reset then [] else case pid of None \<Rightarrow> failed | Some p \<Rightarrow> hm_remove p failed)"

text \<open>After sleep the observers are replaced; what was attempted is kept.\<close>

definition reconnect_process ::
    "desktop_script \<Rightarrow> application \<times> process \<Rightarrow> (application \<times> process) \<times> monitor_effect list" where
  "reconnect_process dk ap =
     (case new_process (dk_created dk (fst ap)) (dk_subscribed dk (fst ap)) of
        Inl e \<Rightarrow> (ap, [])
      | Inr replacement \<Rightarrow>
          ((fst ap, replacement\<lparr>pr_dialogs := pr_dialogs (snd ap)\<rparr>),
           map (\<lambda>d. Watched (dg_window d)) (pr_dialogs (snd ap))))"

definition reconnect :: "desktop_script \<Rightarrow> monitor \<Rightarrow> monitor \<times> monitor_effect list" where
  "reconnect dk m =
     (m\<lparr>mo_processes := map (\<lambda>(pid, ap). (pid, fst (reconnect_process dk ap))) (mo_processes m)\<rparr>,
      concat (map (\<lambda>(pid, ap). snd (reconnect_process dk ap)) (mo_processes m)))"

definition lifecycle_event ::
    "desktop_script \<Rightarrow> int option \<Rightarrow> bool \<Rightarrow> monitor \<Rightarrow> monitor \<times> monitor_effect list" where
  "lifecycle_event dk pid reset m =
     (let m1 = m\<lparr>mo_failed := reset_failed pid reset (mo_failed m)\<rparr>
      in case (if reset then reconnect dk m1 else (m1, [])) of
           (m2, es) \<Rightarrow> (m2, es @ [Queued 0]))"

definition configuration_changed :: "monitor \<Rightarrow> monitor \<times> monitor_effect list" where
  "configuration_changed m =
     (m\<lparr>mo_failed := [],
        mo_processes := map (\<lambda>(pid, app, p). (pid, app,
            p\<lparr>pr_dialogs := map (\<lambda>d. d\<lparr>dg_last_observation := None\<rparr>) (pr_dialogs p)\<rparr>))
          (mo_processes m)\<rparr>,
      [Queued 0])"

text \<open>A queued scan is run only while the permit stands.\<close>

definition run_queued ::
    "(string \<Rightarrow> string) \<Rightarrow> (ax_error \<Rightarrow> string) \<Rightarrow> bool \<Rightarrow> bool \<Rightarrow> desktop_script \<Rightarrow> int \<Rightarrow> monitor \<Rightarrow>
     monitor \<times> monitor_effect list" where
  "run_queued lower dbg dry_run permit dk pid m =
     (if \<not> permit then (m, [])
      else if pid = 0 then reconcile_monitor dbg dry_run dk m
      else scan_monitor lower dbg dry_run dk pid m)"


section \<open>Audited presses\<close>

fun is_press :: "monitor_effect \<Rightarrow> bool" where
  "is_press (Pressed w b s r) = True"
| "is_press x = False"

definition quiet :: "monitor_effect list \<Rightarrow> bool" where
  "quiet es \<longleftrightarrow> (\<forall>x \<in> set es. \<not> is_press x)"

text \<open>Every press directly follows an effect that is right for it.\<close>

definition preceded :: "(monitor_effect \<Rightarrow> monitor_effect \<Rightarrow> bool) \<Rightarrow> monitor_effect list \<Rightarrow> bool" where
  "preceded J es \<longleftrightarrow>
     (\<forall>pre x post. es = pre @ x # post \<longrightarrow> is_press x \<longrightarrow> (\<exists>pre' a. pre = pre' @ [a] \<and> J a x))"

lemma quiet_simps [simp]:
  "quiet []"
  "quiet (x # es) \<longleftrightarrow> \<not> is_press x \<and> quiet es"
  "quiet (es @ es') \<longleftrightarrow> quiet es \<and> quiet es'"
  by (auto simp: quiet_def)

lemma quiet_preceded: "quiet es \<Longrightarrow> preceded J es"
  by (auto simp: quiet_def preceded_def)

lemma preceded_append:
  assumes "preceded J es" and "preceded J es'"
  shows "preceded J (es @ es')"
  unfolding preceded_def
proof (intro allI impI)
  fix pre x post
  assume eq: "es @ es' = pre @ x # post" and x: "is_press x"
  from eq consider us where "es = pre @ us" "us @ es' = x # post"
    | us where "pre = es @ us" "es' = us @ x # post"
    by (auto simp: append_eq_append_conv2)
  then show "\<exists>pre' a. pre = pre' @ [a] \<and> J a x"
  proof cases
    case 1
    show ?thesis
    proof (cases us)
      case Nil
      with 1 have "es' = [] @ x # post" by simp
      with assms(2) x show ?thesis unfolding preceded_def by blast
    next
      case (Cons y ys)
      with 1 have "es = pre @ x # ys" by simp
      with assms(1) x show ?thesis unfolding preceded_def by blast
    qed
  next
    case 2
    with assms(2) x obtain pre' a where "us = pre' @ [a]" and "J a x"
      unfolding preceded_def by blast
    with 2(1) show ?thesis by auto
  qed
qed

lemma preceded_press:
  assumes "J a x" and "\<not> is_press a" and "quiet es"
  shows "preceded J (a # x # es)"
  using assms by (auto simp: preceded_def quiet_def Cons_eq_append_conv)

lemma audit_quiet [simp]: "\<not> is_press (audit sc written kind rule button detail)"
  by (simp add: audit_def)

lemma dialog_of_window_quiet: "dialog_of_window sc scr w ds = (ds', es) \<Longrightarrow> quiet es"
  by (auto simp: dialog_of_window_def split: if_splits)

lemma give_up_waiting_quiet: "give_up_waiting sc scr s = (s', es) \<Longrightarrow> quiet es"
  by (auto simp: give_up_waiting_def split: if_splits prod.splits)

lemma close_absent_quiet: "close_absent sc written windows s = (s', es) \<Longrightarrow> quiet es"
  by (auto simp: close_absent_def quiet_def Let_def split: prod.splits)

text \<open>What must have happened for a press on a button of a window, with the record before it.\<close>

definition justified_press ::
    "scan_env \<Rightarrow> (nat \<Rightarrow> window_script) \<Rightarrow> monitor_effect \<Rightarrow> monitor_effect \<Rightarrow> bool" where
  "justified_press sc scripts a x \<longleftrightarrow>
     (\<exists>k w rules identity m current r.
        \<not> sc_dry_run sc \<and> ws_permit (scripts k) \<and> ws_permit_press (scripts k) \<and>
        ws_rules (scripts k) = Some rules \<and> ws_identity (scripts k) = Some identity \<and>
        matching_button (sc_lower sc) (ws_first (scripts k)) rules identity w = Inr m \<and>
        matching_button (sc_lower sc) (ws_second (scripts k)) rules identity w = Inr current \<and>
        confirmed (scripts k) identity m current \<and>
        a = Audited ''click.attempt'' (Some (sc_pid sc)) (sc_app sc) (Some (mb_rule m))
          (Some (mb_label m)) ''matched rule; sending AXPress'' True \<and>
        x = Pressed w (mb_button current) (mb_signature m) r)"

lemma press_button_effects:
  assumes "press_button sc scr m current (d, st) = (s', es)"
  shows "(\<not> ws_written scr ''click.attempt'' \<and> quiet es) \<or>
    (ws_written scr ''click.attempt'' \<and>
     (\<exists>rest. quiet rest \<and> es = audit sc (ws_written scr) ''click.attempt'' (Some (mb_rule m))
        (Some (mb_label m)) ''matched rule; sending AXPress'' #
        Pressed (dg_window d) (mb_button current) (mb_signature m) (ws_result scr) # rest))"
  using assms by (auto simp: press_button_def Let_def split: if_splits)

lemma act_on_match_effects:
  assumes "act_on_match sc scr rules identity m (d, st) = (stop, s', es)"
  shows "quiet es \<or>
    (\<exists>current. \<not> sc_dry_run sc \<and> ws_permit_press scr \<and> dg_last_attempt d \<noteq> Some (mb_signature m) \<and>
       matching_button (sc_lower sc) (ws_second scr) rules identity (dg_window d) = Inr current \<and>
       confirmed scr identity m current \<and>
       press_button sc scr m current
         (d\<lparr>dg_last_observation := Some (''matched '' @ mb_rule m)\<rparr>, st) = (s', es))"
  using assms
  by (auto simp: act_on_match_def Let_def split: if_splits sum.splits prod.splits)

lemma examine_effects:
  assumes "examine sc scr rules identity (d, st) = (stop, s', es)"
  shows "quiet es \<or>
    (\<exists>m. matching_button (sc_lower sc) (ws_first scr) rules identity (dg_window d) = Inr m \<and>
       act_on_match sc scr rules identity m (d, st) = (stop, s', es))"
  using assms by (auto simp: examine_def split: sum.splits if_splits)

lemma scan_window_preceded:
  assumes "scan_window sc (scripts k) w s = (stop, s', es)"
  shows "preceded (justified_press sc scripts) es"
proof -
  obtain ds st where s: "s = (ds, st)" by (cases s)
  show ?thesis
  proof (cases "quiet es")
    case True
    then show ?thesis by (rule quiet_preceded)
  next
    case False
    with assms s obtain rules identity where go: "ws_permit (scripts k)" "ws_rules (scripts k) = Some rules"
        "ws_identity (scripts k) = Some identity"
      by (auto simp: scan_window_def split: if_splits option.splits)
    obtain ds1 es1 where found: "dialog_of_window sc (scripts k) w ds = (ds1, es1)"
      by (cases "dialog_of_window sc (scripts k) w ds")
    from False assms s go found dialog_of_window_quiet [OF found] obtain d where
      d: "find (same_window w) ds1 = Some d"
      by (auto simp: scan_window_def split: option.splits)
    obtain d1 st1 es2 where late: "give_up_waiting sc (scripts k) (d, st) = ((d1, st1), es2)"
      by (metis surj_pair)
    obtain d2 st2 es3 where look: "examine sc (scripts k) rules identity (d1, st1) = (stop, (d2, st2), es3)"
      and es: "es = es1 @ es2 @ es3"
      using assms s go found d late by (auto simp: scan_window_def split: prod.splits)
    have quiet: "quiet es1" "quiet es2"
      using dialog_of_window_quiet [OF found] give_up_waiting_quiet [OF late] .
    with False es have "\<not> quiet es3" by simp
    with examine_effects [OF look] obtain m where
      m: "matching_button (sc_lower sc) (ws_first (scripts k)) rules identity (dg_window d1) = Inr m"
      and act: "act_on_match sc (scripts k) rules identity m (d1, st1) = (stop, (d2, st2), es3)" by blast
    note pressed = act_on_match_effects [OF act]
    with \<open>\<not> quiet es3\<close> obtain current where
      cur: "\<not> sc_dry_run sc" "ws_permit_press (scripts k)"
        "matching_button (sc_lower sc) (ws_second (scripts k)) rules identity (dg_window d1) = Inr current"
        "confirmed (scripts k) identity m current"
      and press: "press_button sc (scripts k) m current
        (d1\<lparr>dg_last_observation := Some (''matched '' @ mb_rule m)\<rparr>, st1) = ((d2, st2), es3)" by blast
    from press_button_effects [OF press] \<open>\<not> quiet es3\<close> obtain rest where
      written: "ws_written (scripts k) ''click.attempt''" and rest: "quiet rest"
      and es3: "es3 = audit sc (ws_written (scripts k)) ''click.attempt'' (Some (mb_rule m))
        (Some (mb_label m)) ''matched rule; sending AXPress'' #
        Pressed (dg_window d1) (mb_button current) (mb_signature m) (ws_result (scripts k)) # rest"
      by auto
    have "preceded (justified_press sc scripts) es3"
      unfolding es3
    proof (rule preceded_press [OF _ _ rest])
      show "justified_press sc scripts
          (audit sc (ws_written (scripts k)) ''click.attempt'' (Some (mb_rule m)) (Some (mb_label m))
            ''matched rule; sending AXPress'')
          (Pressed (dg_window d1) (mb_button current) (mb_signature m) (ws_result (scripts k)))"
        unfolding justified_press_def audit_def using go cur m written by blast
    qed simp
    then show ?thesis
      using quiet by (simp add: es preceded_append quiet_preceded)
  qed
qed

lemma scan_windows_preceded:
  "scan_windows sc scripts k ws s = (s', es) \<Longrightarrow> preceded (justified_press sc scripts) es"
proof (induction ws arbitrary: k s es s')
  case Nil
  then show ?case by (simp add: quiet_preceded)
next
  case (Cons w ws)
  obtain stop s1 es1 where one: "scan_window sc (scripts k) w s = (stop, s1, es1)" by (metis surj_pair)
  obtain s2 es2 where rest: "scan_windows sc scripts (Suc k) ws s1 = (s2, es2)" by (metis surj_pair)
  from Cons.prems one rest have "es = es1 \<or> es = es1 @ es2" by (auto split: if_splits)
  with scan_window_preceded [where scripts = scripts and k = k, OF one] Cons.IH [OF rest] show ?case by (auto intro: preceded_append)
qed

lemma scan_process_preceded:
  assumes "scan_process sc scr s = (r, s', es)"
  shows "preceded (justified_press sc (ps_window scr)) es"
proof (cases "ax_elements (ps_windows scr)")
  case (Inl e)
  with assms show ?thesis by (simp add: scan_process_def quiet_preceded)
next
  case (Inr windows)
  obtain s1 es1 where closed: "close_absent sc (ps_written scr) windows s = (s1, es1)" by (metis surj_pair)
  obtain s2 es2 where run: "scan_windows sc (ps_window scr) 0 (take 32 windows) s1 = (s2, es2)"
    by (metis surj_pair)
  from assms Inr closed run have "es = es1 @ es2" by (simp add: scan_process_def)
  with close_absent_quiet [OF closed] scan_windows_preceded [OF run] show ?thesis
    by (simp add: preceded_append quiet_preceded)
qed


section \<open>Requests that were pressed\<close>

text \<open>The signature a window was last attempted for, and the presses on it.\<close>

definition attempt :: "nat \<Rightarrow> dialog list \<Rightarrow> string option" where
  "attempt n ds = Option.bind (find (\<lambda>d. ax_node (dg_window d) = n) ds) dg_last_attempt"

fun press_on :: "nat \<Rightarrow> monitor_effect \<Rightarrow> string option" where
  "press_on n (Pressed w b s r) = (if ax_node w = n then Some s else None)"
| "press_on n x = None"

definition presses :: "nat \<Rightarrow> monitor_effect list \<Rightarrow> string list" where
  "presses n es = List.map_filter (press_on n) es"

text \<open>A series of presses, none for what was attempted directly before.\<close>

fun follows :: "string option \<Rightarrow> string list \<Rightarrow> bool" where
  "follows a [] = True"
| "follows a (s # ss) = (a \<noteq> Some s \<and> follows (Some s) ss)"

definition latest :: "string option \<Rightarrow> string list \<Rightarrow> string option" where
  "latest a ss = (if ss = [] then a else Some (last ss))"

definition tracks :: "nat \<Rightarrow> dialog list \<Rightarrow> monitor_effect list \<Rightarrow> dialog list \<Rightarrow> bool" where
  "tracks n ds es ds' \<longleftrightarrow>
     follows (attempt n ds) (presses n es) \<and> attempt n ds' = latest (attempt n ds) (presses n es)"

lemma presses_simps [simp]:
  "presses n [] = []"
  "presses n (x # es) = (case press_on n x of None \<Rightarrow> presses n es | Some s \<Rightarrow> s # presses n es)"
  "presses n (es @ es') = presses n es @ presses n es'"
  by (auto simp: presses_def map_filter_def split: option.splits)

lemma presses_quiet: "quiet es \<Longrightarrow> presses n es = []"
proof (induction es)
  case (Cons x es)
  then show ?case by (cases x) auto
qed simp

lemma follows_append: "follows a (ss @ ts) \<longleftrightarrow> follows a ss \<and> follows (latest a ss) ts"
  by (induction a ss rule: follows.induct) (auto simp: latest_def)

lemma tracks_append:
  "tracks n ds es ds1 \<Longrightarrow> tracks n ds1 es' ds' \<Longrightarrow> tracks n ds (es @ es') ds'"
  by (auto simp: tracks_def follows_append latest_def)

lemma tracks_quiet: "quiet es \<Longrightarrow> attempt n ds' = attempt n ds \<Longrightarrow> tracks n ds es ds'"
  by (simp add: tracks_def presses_quiet latest_def)

lemma attempt_find:
  "find (same_window w) ds = Some d \<Longrightarrow> attempt (ax_node w) ds = dg_last_attempt d"
  by (simp add: attempt_def same_window_def [abs_def])

lemma find_update_first:
  assumes "find P xs = Some x" and "P y"
  shows "find P (update_first P (\<lambda>_. y) xs) = Some y"
  using assms by (induction xs) (auto split: if_splits)

lemma find_update_other:
  "(\<And>x. P x \<Longrightarrow> \<not> Q x) \<Longrightarrow> \<not> Q y \<Longrightarrow> find Q (update_first P (\<lambda>_. y) xs) = find Q xs"
  by (induction xs) auto

lemma attempt_update:
  assumes "find (same_window w) ds = Some d" and "ax_node (dg_window d') = ax_node w"
  shows "attempt n (update_first (same_window w) (\<lambda>_. d') ds) =
    (if n = ax_node w then dg_last_attempt d' else attempt n ds)"
proof (cases "n = ax_node w")
  case True
  have "find (same_window w) (update_first (same_window w) (\<lambda>_. d') ds) = Some d'"
    by (rule find_update_first [OF assms(1)]) (simp add: same_window_def assms(2))
  with True attempt_find show ?thesis by simp
next
  case False
  then have "find (\<lambda>d. ax_node (dg_window d) = n) (update_first (same_window w) (\<lambda>_. d') ds) =
      find (\<lambda>d. ax_node (dg_window d) = n) ds"
    by (intro find_update_other) (auto simp: same_window_def assms(2))
  with False show ?thesis by (simp add: attempt_def)
qed

lemma attempt_dialog_of_window:
  assumes "dialog_of_window sc scr w ds = (ds', es)"
  shows "attempt n ds' = attempt n ds \<and> (\<exists>d. find (same_window w) ds' = Some d)"
proof (cases "list_ex (same_window w) ds")
  case True
  then have "find (same_window w) ds \<noteq> None" by (auto simp: find_None_iff list_ex_iff)
  with True assms show ?thesis by (auto simp: dialog_of_window_def)
next
  case False
  then have none: "find (same_window w) ds = None" by (auto simp: find_None_iff list_ex_iff)
  have append: "find P (xs @ [x]) = (case find P xs of None \<Rightarrow> if P x then Some x else None | Some y \<Rightarrow> Some y)"
    for P xs and x :: dialog by (induction xs) auto
  from False assms none show ?thesis
    by (auto simp: dialog_of_window_def attempt_def append same_window_def [abs_def] fresh_dialog_def
        split: option.splits)
qed

lemma give_up_waiting_keeps:
  "give_up_waiting sc scr (d, st) = ((d', st'), es) \<Longrightarrow>
     dg_window d' = dg_window d \<and> dg_last_attempt d' = dg_last_attempt d"
  by (auto simp: give_up_waiting_def split: if_splits)

lemma press_button_attempt:
  assumes "press_button sc scr m current (d, st) = ((d', st'), es)"
  shows "dg_window d' = dg_window d \<and>
    ((quiet es \<and> dg_last_attempt d' = dg_last_attempt d) \<or>
     ((\<forall>n. presses n es = (if n = ax_node (dg_window d) then [mb_signature m] else [])) \<and>
      dg_last_attempt d' = Some (mb_signature m)))"
  using assms by (auto simp: press_button_def Let_def audit_def split: if_splits)

lemma act_on_match_attempt:
  assumes "act_on_match sc scr rules identity m (d, st) = (stop, (d', st'), es)" and "\<not> sc_dry_run sc"
  shows "dg_window d' = dg_window d \<and>
    ((quiet es \<and> dg_last_attempt d' = dg_last_attempt d) \<or>
     ((\<forall>n. presses n es = (if n = ax_node (dg_window d) then [mb_signature m] else [])) \<and>
      dg_last_attempt d \<noteq> Some (mb_signature m) \<and> dg_last_attempt d' = Some (mb_signature m)))"
proof (cases "quiet es")
  case True
  with assms show ?thesis
    by (auto simp: act_on_match_def Let_def split: if_splits sum.splits prod.splits
        dest!: press_button_attempt)
next
  case False
  with act_on_match_effects [OF assms(1)] obtain current where
    "dg_last_attempt d \<noteq> Some (mb_signature m)"
    and "press_button sc scr m current (d\<lparr>dg_last_observation := Some (''matched '' @ mb_rule m)\<rparr>, st) =
      ((d', st'), es)" by blast
  with press_button_attempt False show ?thesis by fastforce
qed

lemma examine_attempt:
  assumes "examine sc scr rules identity (d, st) = (stop, (d', st'), es)" and "\<not> sc_dry_run sc"
  shows "dg_window d' = dg_window d \<and>
    ((quiet es \<and> dg_last_attempt d' = dg_last_attempt d) \<or>
     (\<exists>sig. (\<forall>n. presses n es = (if n = ax_node (dg_window d) then [sig] else [])) \<and>
      dg_last_attempt d \<noteq> Some sig \<and> dg_last_attempt d' = Some sig))"
proof (cases "matching_button (sc_lower sc) (ws_first scr) rules identity (dg_window d)")
  case (Inl reason)
  with assms(1) show ?thesis by (auto simp: examine_def split: if_splits)
next
  case (Inr m)
  with assms(1) have "act_on_match sc scr rules identity m (d, st) = (stop, (d', st'), es)"
    by (simp add: examine_def)
  from act_on_match_attempt [OF this assms(2)] show ?thesis by blast
qed

lemma scan_window_tracks:
  assumes "scan_window sc scr w (ds, st) = (stop, (ds', st'), es)" and "\<not> sc_dry_run sc"
  shows "tracks n ds es ds'"
proof (cases "ws_permit scr \<and> ws_rules scr \<noteq> None \<and> ws_identity scr \<noteq> None")
  case False
  with assms(1) have "ds' = ds \<and> es = []"
    by (auto simp: scan_window_def split: if_splits option.splits)
  then show ?thesis by (simp add: tracks_quiet)
next
  case True
  then obtain rules identity where go: "ws_permit scr" "ws_rules scr = Some rules"
      "ws_identity scr = Some identity" by auto
  obtain ds1 es1 where found: "dialog_of_window sc scr w ds = (ds1, es1)" by (cases "dialog_of_window sc scr w ds")
  from attempt_dialog_of_window [OF found] obtain d where d: "find (same_window w) ds1 = Some d" by blast
  obtain d1 st1 es2 where late: "give_up_waiting sc scr (d, st) = ((d1, st1), es2)"
    by (metis surj_pair)
  obtain d2 st2 es3 where look: "examine sc scr rules identity (d1, st1) = (stop, (d2, st2), es3)"
    and es: "es = es1 @ es2 @ es3" and ds': "ds' = update_first (same_window w) (\<lambda>_. d2) ds1"
    using assms go found d late by (auto simp: scan_window_def split: prod.splits)
  have node: "ax_node (dg_window d) = ax_node w"
    using find_Some_mem [OF d] by (simp add: same_window_def)
  note kept = give_up_waiting_keeps [OF late]
  note seen = examine_attempt [OF look assms(2)]
  have before: "tracks n ds es1 ds1"
    using attempt_dialog_of_window [OF found] dialog_of_window_quiet [OF found] by (simp add: tracks_quiet)
  have "tracks n ds1 (es2 @ es3) ds'"
  proof (cases "quiet es3 \<and> dg_last_attempt d2 = dg_last_attempt d1")
    case True
    then have "attempt n ds' = attempt n ds1"
      using attempt_update [OF d, of d2 n] attempt_find [OF d] seen kept node by (simp add: ds')
    with True give_up_waiting_quiet [OF late] show ?thesis by (simp add: tracks_quiet)
  next
    case False
    with seen obtain sig where
      press: "\<forall>n. presses n es3 = (if n = ax_node (dg_window d1) then [sig] else [])"
      and "dg_last_attempt d1 \<noteq> Some sig" and "dg_last_attempt d2 = Some sig" by blast
    then show ?thesis
      using attempt_update [OF d, of d2 n] attempt_find [OF d] seen kept node
        presses_quiet [OF give_up_waiting_quiet [OF late]]
      by (auto simp: tracks_def ds' latest_def)
  qed
  with before show ?thesis by (simp add: es tracks_append)
qed

lemma scan_windows_tracks:
  assumes "scan_windows sc scripts k ws (ds, st) = ((ds', st'), es)" and "\<not> sc_dry_run sc"
  shows "tracks n ds es ds'"
  using assms
proof (induction ws arbitrary: k ds st es)
  case Nil
  then show ?case by (simp add: tracks_quiet)
next
  case (Cons w ws)
  obtain stop ds1 st1 es1 where one: "scan_window sc (scripts k) w (ds, st) = (stop, (ds1, st1), es1)"
    by (metis surj_pair)
  obtain ds2 st2 es2 where rest: "scan_windows sc scripts (Suc k) ws (ds1, st1) = ((ds2, st2), es2)"
    by (metis surj_pair)
  note first = scan_window_tracks [where n = n, OF one Cons.prems(2)]
  show ?case
  proof (cases stop)
    case True
    with Cons.prems(1) one first show ?thesis by simp
  next
    case False
    with Cons.prems(1) one rest have eqs: "ds' = ds2" "st' = st2" "es = es1 @ es2" by simp_all
    from Cons.IH [OF rest [folded eqs] Cons.prems(2)] first show ?thesis
      by (simp add: eqs tracks_append)
  qed
qed

lemma find_filter_kept:
  "(\<And>x. P x \<Longrightarrow> Q x) \<Longrightarrow> find P (filter Q xs) = find P xs"
  by (induction xs) auto

lemma close_absent_attempt:
  assumes "close_absent sc written windows (ds, st) = ((ds', st'), es)"
    and "\<exists>w \<in> set windows. ax_node w = n"
  shows "attempt n ds' = attempt n ds"
proof -
  have "ds' = filter (present windows) ds"
    using assms(1) by (simp add: close_absent_def Let_def)
  moreover have "find (\<lambda>d. ax_node (dg_window d) = n) (filter (present windows) ds) =
      find (\<lambda>d. ax_node (dg_window d) = n) ds"
  proof (rule find_filter_kept)
    fix d :: dialog
    assume "ax_node (dg_window d) = n"
    moreover obtain w where "w \<in> set windows" and "ax_node w = n" using assms(2) by blast
    ultimately show "present windows d" by (auto simp: present_def list_ex_iff same_window_def intro!: bexI [of _ w])
  qed
  ultimately show ?thesis by (simp add: attempt_def)
qed

text \<open>The window is among those the process shows, as far as it shows any.\<close>

definition window_shown :: "nat \<Rightarrow> process_script \<Rightarrow> bool" where
  "window_shown n scr \<longleftrightarrow>
     (\<forall>windows. ax_elements (ps_windows scr) = Inr windows \<longrightarrow> (\<exists>w \<in> set windows. ax_node w = n))"

lemma scan_process_tracks:
  assumes "scan_process sc scr (ds, st) = (r, (ds', st'), es)" and "\<not> sc_dry_run sc"
    and "window_shown n scr"
  shows "tracks n ds es ds'"
proof (cases "ax_elements (ps_windows scr)")
  case (Inl e)
  with assms(1) show ?thesis by (simp add: scan_process_def tracks_quiet)
next
  case (Inr windows)
  obtain ds1 st1 es1 where closed: "close_absent sc (ps_written scr) windows (ds, st) = ((ds1, st1), es1)"
    by (metis surj_pair)
  obtain ds2 st2 es2 where run: "scan_windows sc (ps_window scr) 0 (take 32 windows) (ds1, st1) =
      ((ds2, st2), es2)" by (metis surj_pair)
  from assms(1) Inr closed run have eqs: "ds' = ds2" "es = es1 @ es2" by (simp_all add: scan_process_def)
  have "\<exists>w \<in> set windows. ax_node w = n" using assms(3) Inr by (simp add: window_shown_def)
  then have "tracks n ds es1 ds1"
    by (rule tracks_quiet [OF close_absent_quiet [OF closed] close_absent_attempt [OF closed]])
  with scan_windows_tracks [OF run assms(2)] show ?thesis by (simp add: eqs tracks_append)
qed

text \<open>
  What the main loop makes the monitor do: a queued scan with the permit of that moment (of the
  whole desktop for process 0), a change of the rules, an event of the workspace or of sleep,
  the timer of a failed subscription.  The effects are tagged with the process that was
  scanned.
\<close>

datatype monitor_event =
    Queued_Scan bool desktop_script int
  | Rules_Changed
  | Workspace_Event desktop_script "int option" bool
  | Retry_Timer desktop_script int

fun monitor_event_run ::
    "(string \<Rightarrow> string) \<Rightarrow> (ax_error \<Rightarrow> string) \<Rightarrow> bool \<Rightarrow> monitor_event \<Rightarrow> monitor \<Rightarrow>
     monitor \<times> monitor_effect list" where
  "monitor_event_run lower dbg dry_run (Queued_Scan permit dk pid) m =
     run_queued lower dbg dry_run permit dk pid m"
| "monitor_event_run lower dbg dry_run Rules_Changed m = configuration_changed m"
| "monitor_event_run lower dbg dry_run (Workspace_Event dk pid reset) m = lifecycle_event dk pid reset m"
| "monitor_event_run lower dbg dry_run (Retry_Timer dk pid) m = retry_attach dbg dk pid m"

fun scanned_pid :: "monitor_event \<Rightarrow> int" where
  "scanned_pid (Queued_Scan permit dk pid) = pid"
| "scanned_pid _ = 0"

fun monitor_history ::
    "(string \<Rightarrow> string) \<Rightarrow> (ax_error \<Rightarrow> string) \<Rightarrow> bool \<Rightarrow> monitor_event list \<Rightarrow> monitor \<Rightarrow>
     monitor \<times> (int \<times> monitor_effect list) list" where
  "monitor_history lower dbg dry_run [] m = (m, [])"
| "monitor_history lower dbg dry_run (x # xs) m =
     (case monitor_event_run lower dbg dry_run x m of
        (m1, es) \<Rightarrow>
          (case monitor_history lower dbg dry_run xs m1 of
             (m2, log) \<Rightarrow> (m2, (scanned_pid x, es) # log)))"

text \<open>What the scans of one process did.\<close>

definition effects_of :: "int \<Rightarrow> (int \<times> monitor_effect list) list \<Rightarrow> monitor_effect list" where
  "effects_of pid log = concat (map snd (filter (\<lambda>(p, es). p = pid) log))"

text \<open>
  What is taken for granted of an event while a window of a process stays: the desktop is read
  with the Accessibility permission, a reconciliation still finds the process observed, and
  a scan of the process finds the window, as far as it can read any.
\<close>

fun undisturbed :: "int \<Rightarrow> application \<Rightarrow> nat \<Rightarrow> monitor_event \<Rightarrow> bool" where
  "undisturbed pid app n (Queued_Scan permit dk q) \<longleftrightarrow>
     dk_trusted dk \<and> (q = 0 \<longrightarrow> observed_app dk app) \<and> (q = pid \<longrightarrow> window_shown n (dk_scan dk))"
| "undisturbed pid app n _ \<longleftrightarrow> True"

text \<open>The process is observed, and no failed subscription is for it.\<close>

definition holds_process :: "int \<Rightarrow> application \<Rightarrow> process \<Rightarrow> monitor \<Rightarrow> bool" where
  "holds_process pid app p m \<longleftrightarrow>
     hm_get (mo_processes m) pid = Some (app, p) \<and>
     (\<forall>(q, pp) \<in> set (mo_failed m). an_pid (pp_app pp) \<noteq> pid)"

lemma get_map_values: "hm_get (map (\<lambda>(k, v). (k, f v)) m) k = map_option f (hm_get m k)"
  unfolding hm_get_def by (induction m) auto

lemma get_retain_kept: "hm_get m k = Some v \<Longrightarrow> P k v \<Longrightarrow> hm_get (hm_retain P m) k = Some v"
  unfolding hm_get_def hm_retain_def by (induction m) (auto split: if_splits)

lemma attempt_map:
  assumes "\<And>d. dg_window (f d) = dg_window d \<and> dg_last_attempt (f d) = dg_last_attempt d"
  shows "attempt n (map f ds) = attempt n ds"
  using assms unfolding attempt_def by (induction ds) auto

lemma set_hm_insert: "x \<in> set (hm_insert k v m) \<Longrightarrow> x = (k, v) \<or> x \<in> set m"
  unfolding hm_insert_def by (induction m) (auto split: if_splits)

lemma attach_holds:
  assumes "attach dbg dk a previous m = (m', es)" and "an_pid a \<noteq> pid" and "holds_process pid app p m"
  shows "holds_process pid app p m'"
  using assms
  by (auto simp: attach_def holds_process_def Let_def hm_remove_def split: sum.splits dest!: set_hm_insert)

lemma discover_holds:
  "discover_apps dbg dk k apps m = (stop, m', es) \<Longrightarrow> holds_process pid app p m \<Longrightarrow>
     holds_process pid app p m'"
proof (induction dbg dk k apps m arbitrary: stop es rule: discover_apps.induct)
  case (2 dbg dk k a apps m)
  show ?case
  proof (cases "\<not> dk_permit dk k \<or> hm_get (mo_processes m) (an_pid a) \<noteq> None \<or>
      hm_get (mo_failed m) (an_pid a) \<noteq> None \<or> \<not> observed_app dk a")
    case True
    with 2 show ?thesis by (auto split: if_splits)
  next
    case False
    obtain m1 es1 where one: "attach dbg dk a 0 m = (m1, es1)" by (metis surj_pair)
    obtain stop2 m2 es2 where rest: "discover_apps dbg dk (Suc k) apps m1 = (stop2, m2, es2)"
      by (metis prod_cases3)
    from False one rest 2(3) have m': "m' = m2" by auto
    have "an_pid a \<noteq> pid" using False 2(4) by (auto simp: holds_process_def)
    from attach_holds [OF one this 2(4)] have "holds_process pid app p m1" .
    with 2(2) [OF _ _ one [symmetric]] False rest m' show ?thesis by auto
  qed
qed auto

lemma reconcile_holds:
  assumes "reconcile_monitor dbg dry_run dk m = (m', es)" and "dk_trusted dk" and "observed_app dk app"
    and "holds_process pid app p m"
  shows "holds_process pid app p m'"
proof -
  obtain m1 es1 where drop: "drop_unobserved dk m = (m1, es1)" by (metis surj_pair)
  obtain stop m2 es2 where disc: "discover_apps dbg dk 0 (dk_running dk) m1 = (stop, m2, es2)"
    by (metis prod_cases3)
  have "holds_process pid app p m1"
    using drop assms(3,4) get_retain_kept [of "mo_processes m" pid "(app, p)" "\<lambda>pid ap. observed_app dk (fst ap)"]
    by (auto simp: drop_unobserved_def holds_process_def hm_retain_def [of _ "mo_failed m"])
  from discover_holds [OF disc this] show ?thesis
    using assms(1,2) drop disc
    by (cases stop) (auto simp: reconcile_monitor_def holds_process_def)
qed

lemma reconnect_process_keeps:
  assumes "reconnect_process dk (app, p) = ((app', p'), es)"
  shows "pr_dialogs p' = pr_dialogs p \<and> quiet es"
  using assms by (auto simp: reconnect_process_def quiet_def split: sum.splits)

lemma monitor_event_tracks:
  assumes "monitor_event_run lower dbg False x m = (m', es)" and "undisturbed pid app n x"
    and "holds_process pid app p m" and "pid \<noteq> 0"
  shows "\<exists>p'. holds_process pid app p' m' \<and>
    tracks n (pr_dialogs p) (if scanned_pid x = pid then es else []) (pr_dialogs p')"
proof (cases x)
  case (Queued_Scan permit dk q)
  then have trusted: "dk_trusted dk" using assms(2) by simp
  consider (off) "\<not> permit" | (all) "permit" "q = 0" | (other) "permit" "q \<noteq> 0" "q \<noteq> pid"
    | (mine) "permit" "q = pid" by blast
  then show ?thesis
  proof cases
    case off
    with assms Queued_Scan show ?thesis
      by (intro exI [of _ p]) (simp add: run_queued_def tracks_quiet)
  next
    case all
    with assms Queued_Scan reconcile_holds [of dbg False dk m m' es app pid p] show ?thesis
      by (intro exI [of _ p]) (auto simp: run_queued_def tracks_quiet)
  next
    case other
    with assms(1) Queued_Scan trusted have
      "hm_get (mo_processes m') pid = hm_get (mo_processes m) pid" "mo_failed m' = mo_failed m"
      by (auto simp: run_queued_def scan_monitor_def hash.get_insert split: option.splits prod.splits
          sum.splits if_splits)
    with assms(3) Queued_Scan other show ?thesis
      by (intro exI [of _ p]) (simp add: holds_process_def tracks_quiet)
  next
    case mine
    obtain r ds st es1 where scan: "scan_process (scan_env_of lower dbg False dk app) (dk_scan dk)
        (pr_dialogs p, mo_status m) = (r, (ds, st), es1)" by (metis surj_pair)
    have "tracks n (pr_dialogs p) es1 ds"
      by (rule scan_process_tracks [OF scan]) (use assms(2) Queued_Scan mine in \<open>simp_all add: scan_env_of_def\<close>)
    moreover have "quiet [app_audit dk ''process.read_failed'' app None None detail]" for detail
      by (simp add: quiet_def app_audit_def)
    ultimately have read: "tracks n (pr_dialogs p) es1 ds"
      "tracks n (pr_dialogs p) (es1 @ [app_audit dk ''process.read_failed'' app None None detail]) ds" for detail
      using tracks_append [OF _ tracks_quiet [OF _ refl]] by blast+
    show ?thesis
    proof (cases "dk_terminated dk app")
      case True
      with assms mine Queued_Scan trusted show ?thesis
        by (intro exI [of _ p]) (simp add: run_queued_def scan_monitor_def holds_process_def tracks_quiet)
    next
      case False
      with assms(1,3,4) mine Queued_Scan trusted scan read show ?thesis
        by (cases r) (auto simp: run_queued_def scan_monitor_def holds_process_def split: if_splits)
    qed
  qed
next
  case Rules_Changed
  have "attempt n (map (\<lambda>d. d\<lparr>dg_last_observation := None\<rparr>) ds) = attempt n ds" for ds
    by (rule attempt_map) simp
  with assms Rules_Changed show ?thesis
    using get_map_values [of "\<lambda>(app, p). (app, p\<lparr>pr_dialogs := map (\<lambda>d. d\<lparr>dg_last_observation := None\<rparr>)
      (pr_dialogs p)\<rparr>)" "mo_processes m" pid]
    by (auto simp: configuration_changed_def holds_process_def case_prod_beta' tracks_quiet)
next
  case (Workspace_Event dk q reset)
  define failed where "failed = reset_failed q reset (mo_failed m)"
  have "set failed \<subseteq> set (mo_failed m)"
    by (auto simp: failed_def reset_failed_def hm_remove_def split: option.splits)
  then have none: "\<forall>(q, pp) \<in> set failed. an_pid (pp_app pp) \<noteq> pid"
    using assms(3) unfolding holds_process_def by blast
  obtain ap p' es' where again: "reconnect_process dk (app, p) = ((ap, p'), es')" by (metis surj_pair)
  then have ap: "ap = app" by (auto simp: reconnect_process_def split: sum.splits)
  have held: "hm_get (mo_processes m) pid = Some (app, p)" using assms(3) by (simp add: holds_process_def)
  from Workspace_Event assms(1) have "mo_failed m' = failed"
    by (auto simp: lifecycle_event_def reconnect_def Let_def simp flip: failed_def split: if_splits)
  moreover from Workspace_Event assms(1) held again
  have "hm_get (mo_processes m') pid = Some (app, if reset then p' else p)"
    using get_map_values [of "\<lambda>ap. fst (reconnect_process dk ap)" "mo_processes m" pid]
    by (auto simp: lifecycle_event_def reconnect_def Let_def ap split: if_splits)
  ultimately have "holds_process pid app (if reset then p' else p) m'"
    using none by (simp add: holds_process_def)
  with Workspace_Event assms(4) reconnect_process_keeps [OF again] show ?thesis
    by (intro exI [of _ "if reset then p' else p"]) (auto intro: tracks_quiet)
next
  case (Retry_Timer dk q)
  have "holds_process pid app p m'"
  proof (cases "hm_get (mo_failed m) q")
    case None
    with Retry_Timer assms(1,3) show ?thesis by (auto simp: retry_attach_def)
  next
    case (Some pp)
    let ?m = "m\<lparr>mo_failed := hm_remove q (mo_failed m)\<rparr>"
    have gone: "holds_process pid app p ?m"
      using assms(3) by (auto simp: holds_process_def hm_remove_def)
    have "(q, pp) \<in> set (mo_failed m)" using Some by (auto simp: hm_get_def dest: map_of_SomeD)
    then have "an_pid (pp_app pp) \<noteq> pid" using assms(3) by (auto simp: holds_process_def)
    moreover obtain m2 es2 where att: "attach dbg dk (pp_app pp) (pp_attempts pp) ?m = (m2, es2)"
      by (metis surj_pair)
    ultimately have "holds_process pid app p m2" using attach_holds gone by blast
    with gone att Some Retry_Timer assms(1) show ?thesis
      by (auto simp: retry_attach_def Let_def split: if_splits)
  qed
  with Retry_Timer assms(4) show ?thesis by (intro exI [of _ p]) (simp add: tracks_quiet)
qed

lemma monitor_history_tracks:
  assumes "monitor_history lower dbg False xs m = (m', log)" and "\<forall>x \<in> set xs. undisturbed pid app n x"
    and "holds_process pid app p m" and "pid \<noteq> 0"
  shows "\<exists>p'. holds_process pid app p' m' \<and> tracks n (pr_dialogs p) (effects_of pid log) (pr_dialogs p')"
  using assms(1-3)
proof (induction xs arbitrary: m log p)
  case Nil
  then show ?case by (auto simp: effects_of_def tracks_quiet)
next
  case (Cons x xs)
  obtain m1 es1 where one: "monitor_event_run lower dbg False x m = (m1, es1)" by (metis surj_pair)
  obtain m2 log2 where rest: "monitor_history lower dbg False xs m1 = (m2, log2)" by (metis surj_pair)
  from Cons.prems(1) one rest have eqs: "m' = m2" "log = (scanned_pid x, es1) # log2" by simp_all
  from monitor_event_tracks [OF one _ Cons.prems(3) assms(4)] Cons.prems(2) obtain p1 where
    p1: "holds_process pid app p1 m1"
    and first: "tracks n (pr_dialogs p) (if scanned_pid x = pid then es1 else []) (pr_dialogs p1)" by auto
  from Cons.IH [OF rest [folded eqs] _ p1] Cons.prems(2) obtain p2 where
    "holds_process pid app p2 m'" and "tracks n (pr_dialogs p1) (effects_of pid log2) (pr_dialogs p2)" by auto
  moreover have "effects_of pid log = (if scanned_pid x = pid then es1 else []) @ effects_of pid log2"
    by (simp add: eqs effects_of_def)
  ultimately show ?case using tracks_append [OF first] by auto
qed

lemma follows_nth:
  "follows a ss \<Longrightarrow> (\<forall>i. Suc i < length ss \<longrightarrow> ss ! i \<noteq> ss ! Suc i) \<and> (ss \<noteq> [] \<longrightarrow> a \<noteq> Some (hd ss))"
proof (induction a ss rule: follows.induct)
  case (2 a s ss)
  then have rest: "\<forall>i. Suc i < length ss \<longrightarrow> ss ! i \<noteq> ss ! Suc i" and "ss \<noteq> [] \<longrightarrow> s \<noteq> hd ss" by auto
  have "(s # ss) ! i \<noteq> (s # ss) ! Suc i" if "Suc i < length (s # ss)" for i
    using that rest \<open>ss \<noteq> [] \<longrightarrow> s \<noteq> hd ss\<close> by (cases i) (auto simp: hd_conv_nth)
  with 2(2) show ?case by auto
qed simp


section \<open>Properties\<close>

text \<open>C30: No press without a record of the intent, and none that is not authorised.  Whatever
  the desktop answers: directly before every press of a scan an audit record that names its
  rule and label was written, and the press follows two inspections of the window that
  agree on the button, the request and the rule, under the settings in force, with the
  owner unchanged and alive, the permit standing, and never in a dry run.\<close>
theorem presses_are_audited:
  assumes "scan_process sc scr s = (r, s', es)" and "es = before @ Pressed w b sig answer # after"
  shows "\<exists>earlier k rules identity m current.
    before = earlier @ [Audited ''click.attempt'' (Some (sc_pid sc)) (sc_app sc) (Some (mb_rule m))
      (Some (mb_label m)) ''matched rule; sending AXPress'' True] \<and>
    \<not> sc_dry_run sc \<and> ws_permit (ps_window scr k) \<and> ws_permit_press (ps_window scr k) \<and>
    ws_rules (ps_window scr k) = Some rules \<and> ws_identity (ps_window scr k) = Some identity \<and>
    matching_button (sc_lower sc) (ws_first (ps_window scr k)) rules identity w = Inr m \<and>
    matching_button (sc_lower sc) (ws_second (ps_window scr k)) rules identity w = Inr current \<and>
    confirmed (ps_window scr k) identity m current \<and> b = mb_button current \<and> sig = mb_signature m"
proof -
  have "is_press (Pressed w b sig answer)" by simp
  with scan_process_preceded [OF assms(1)] assms(2) obtain earlier a
    where "before = earlier @ [a]" and "justified_press sc (ps_window scr) a (Pressed w b sig answer)"
    unfolding preceded_def by blast
  then show ?thesis unfolding justified_press_def by blast
qed

text \<open>C31: A request is answered once.  As long as a process stays observed - every
  reconciliation finds the Accessibility permission, the process alive and a rule for it - and
  the process shows the window, no two presses on the window in a row answer the same request
  (title, texts and label), whether the first one worked or not, through any sequence of scans
  of any processes, failed readings, changes of the rules, events of the workspace, new
  observers after sleep and retried subscriptions of other processes; and none repeats what
  was attempted before the history begins.\<close>
theorem request_pressed_once:
  assumes "monitor_history lower dbg False xs m = (m', log)"
    and "holds_process pid app p m" and "pid \<noteq> 0"
    and "\<forall>x \<in> set xs. undisturbed pid app n x"
  defines "pressed \<equiv> presses n (effects_of pid log)"
  shows "(\<forall>i. Suc i < length pressed \<longrightarrow> pressed ! i \<noteq> pressed ! Suc i) \<and>
    (\<exists>p'. holds_process pid app p' m' \<and>
      (pressed \<noteq> [] \<longrightarrow>
        attempt n (pr_dialogs p) \<noteq> Some (hd pressed) \<and> attempt n (pr_dialogs p') = Some (last pressed)))"
proof -
  from monitor_history_tracks [OF assms(1,4,2,3)] obtain p' where "holds_process pid app p' m'"
    and "tracks n (pr_dialogs p) (effects_of pid log) (pr_dialogs p')" by blast
  then show ?thesis
    using follows_nth [of "attempt n (pr_dialogs p)" pressed]
    by (auto simp: tracks_def latest_def pressed_def)
qed


section \<open>An example\<close>

definition consent_env :: scan_env where
  "consent_env = \<lparr>sc_lower = (\<lambda>s. s), sc_error_text = (\<lambda>e. ''Success''), sc_dry_run = False,
     sc_pid = 7, sc_app = ''UserNotificationCenter''\<rparr>"

definition consent_script :: window_script where
  "consent_script =
     \<lparr>ws_permit = True, ws_rules = Some default_dialog_settings,
      ws_identity = Some (''/System/Library/U'', []), ws_now = 0, ws_first = consent_view,
      ws_second = consent_view, ws_terminated = False,
      ws_identity_again = Some (''/System/Library/U'', []), ws_permit_press = True,
      ws_written = (\<lambda>kind. True), ws_result = Success, ws_pressed_at = 0, ws_timer = True\<rparr>"

definition consent_process :: process_script where
  "consent_process =
     \<lparr>ps_windows = Inr (AxArray [AxElement (window_at 0)]), ps_written = (\<lambda>kind. True),
      ps_window = (\<lambda>k. consent_script)\<rparr>"

definition no_clicks :: dialog_status where
  "no_clicks = \<lparr>do_state = ''listening'', do_listening = 1, do_unavailable = 0, do_clicks_sent = 0,
     do_dialogs_closed = 0, do_last_result = None\<rparr>"

definition pressed_dialog :: dialog where
  "pressed_dialog =
     \<lparr>dg_window = window_at 0, dg_last_attempt = Some (mb_signature consent_match),
      dg_last_observation = Some (''matched '' @ directory_rule), dg_last_rule = Some directory_rule,
      dg_last_button = Some ''ok'', dg_awaiting_close = True, dg_deadline = Some (3 * nanos),
      dg_timer = True\<rparr>"

definition clicked :: "dialog_status \<Rightarrow> dialog_status" where
  "clicked st = st\<lparr>do_clicks_sent := do_clicks_sent st + 1, do_last_result := Some (''Clicked ok via '' @
     directory_rule @ ''; waiting for window to close'')\<rparr>"

definition found_effects :: "monitor_effect list" where
  "found_effects =
     [Watched (window_at 0),
      Audited ''window.discovered'' (Some 7) ''UserNotificationCenter'' None None
        ''window event or initial window snapshot'' True,
      Audited ''click.attempt'' (Some 7) ''UserNotificationCenter'' (Some directory_rule) (Some ''ok'')
        ''matched rule; sending AXPress'' True]"

definition sent_effects :: "monitor_effect list" where
  "sent_effects =
     [Audited ''click.sent'' (Some 7) ''UserNotificationCenter'' (Some directory_rule) (Some ''ok'')
        ''AXPress: Success; waiting for window to close'' True,
      Queued 7]"

lemma consent_press:
  "press_button consent_env consent_script consent_match consent_match
     ((fresh_dialog (window_at 0))\<lparr>dg_last_observation := Some (''matched '' @ directory_rule)\<rparr>, st) =
   ((pressed_dialog, clicked st),
    audit consent_env (\<lambda>kind. True) ''click.attempt'' (Some directory_rule) (Some ''ok'')
      ''matched rule; sending AXPress'' #
    Pressed (window_at 0) (window_at 2) (mb_signature consent_match) Success # sent_effects)"
  by (simp add: press_button_def consent_script_def consent_env_def consent_match_def fresh_dialog_def
      pressed_dialog_def clicked_def sent_effects_def audit_def nanos_def Let_def)

lemma consent_window:
  "scan_window consent_env consent_script (window_at 0) ([], st) =
    (False, ([pressed_dialog], clicked st),
     found_effects @ Pressed (window_at 0) (window_at 2) (mb_signature consent_match) Success # sent_effects)"
proof -
  have look: "examine consent_env consent_script default_dialog_settings (''/System/Library/U'', [])
      (fresh_dialog (window_at 0), st) =
    (False, (pressed_dialog, clicked st),
     audit consent_env (\<lambda>kind. True) ''click.attempt'' (Some directory_rule) (Some ''ok'')
       ''matched rule; sending AXPress'' #
     Pressed (window_at 0) (window_at 2) (mb_signature consent_match) Success # sent_effects)"
  proof -
    have views: "ws_first consent_script = consent_view" "ws_second consent_script = consent_view"
      "ws_permit_press consent_script" "sc_lower consent_env = (\<lambda>s. s)" "\<not> sc_dry_run consent_env"
      by (simp_all add: consent_script_def consent_env_def)
    have conf: "confirmed consent_script (''/System/Library/U'', []) consent_match consent_match"
      by (simp add: confirmed_def consent_script_def)
    have fresh: "dg_window (fresh_dialog (window_at 0)) = window_at 0"
      "dg_last_attempt (fresh_dialog (window_at 0)) = None" by (simp_all add: fresh_dialog_def)
    have rule: "mb_rule consent_match = directory_rule" by (simp add: consent_match_def)
    show ?thesis
      using consent_press
      by (simp add: examine_def act_on_match_def views fresh consent_matched conf rule Let_def)
  qed
  have waiting: "give_up_waiting consent_env consent_script (fresh_dialog (window_at 0), st) =
      ((fresh_dialog (window_at 0), st), [])"
    by (simp add: give_up_waiting_def fresh_dialog_def)
  have new: "dialog_of_window consent_env consent_script (window_at 0) [] =
      ([fresh_dialog (window_at 0)], [Watched (window_at 0),
        audit consent_env (\<lambda>kind. True) ''window.discovered'' None None
          ''window event or initial window snapshot''])"
    by (simp add: dialog_of_window_def consent_script_def)
  have same: "same_window (window_at 0) (fresh_dialog (window_at 0))"
    by (simp add: same_window_def fresh_dialog_def)
  have "ws_permit consent_script" "ws_rules consent_script = Some default_dialog_settings"
    "ws_identity consent_script = Some (''/System/Library/U'', [])"
    by (simp_all add: consent_script_def)
  then show ?thesis
    by (simp add: scan_window_def new same waiting look Let_def)
      (simp add: found_effects_def audit_def consent_env_def)
qed

lemma consent_scan:
  "scan_process consent_env consent_process ([], st) =
     (Inr (), ([pressed_dialog], clicked st),
      found_effects @ Pressed (window_at 0) (window_at 2) (mb_signature consent_match) Success # sent_effects)"
  by (simp add: scan_process_def consent_process_def close_absent_def map_filter_def consent_window)

theorem presses_are_audited_witness:
  "\<exists>earlier k rules identity m current.
    found_effects = earlier @ [Audited ''click.attempt'' (Some (sc_pid consent_env)) (sc_app consent_env)
      (Some (mb_rule m)) (Some (mb_label m)) ''matched rule; sending AXPress'' True] \<and>
    confirmed (ps_window consent_process k) identity m current \<and>
    matching_button (sc_lower consent_env) (ws_second (ps_window consent_process k)) rules identity
      (window_at 0) = Inr current"
  using presses_are_audited [OF consent_scan refl] by blast

text \<open>The same window is scanned once more while it is still there: it is not pressed again.\<close>

lemma consent_scan_again:
  "scan_process consent_env consent_process ([pressed_dialog], st) =
     (Inr (), ([pressed_dialog], st), [])"
proof -
  have views: "ws_first consent_script = consent_view" "ws_permit consent_script"
    "ws_rules consent_script = Some default_dialog_settings" "ws_now consent_script = 0"
    "ws_identity consent_script = Some (''/System/Library/U'', [])" "sc_lower consent_env = (\<lambda>s. s)"
    by (simp_all add: consent_script_def consent_env_def)
  have d: "dg_window pressed_dialog = window_at 0" "dg_deadline pressed_dialog = Some (3 * nanos)"
    "dg_last_attempt pressed_dialog = Some (mb_signature consent_match)"
    by (simp_all add: pressed_dialog_def)
  have same: "same_window (window_at 0) pressed_dialog" by (simp add: same_window_def d)
  have "scan_window consent_env consent_script (window_at 0) ([pressed_dialog], st) =
      (False, ([pressed_dialog], st), [])"
    by (simp add: scan_window_def dialog_of_window_def same views give_up_waiting_def d nanos_def examine_def
        consent_matched act_on_match_def)
  then show ?thesis
    by (simp add: scan_process_def consent_process_def close_absent_def map_filter_def present_def same)
qed

definition consent_app :: application where
  "consent_app = \<lparr>an_object = 1, an_pid = 7\<rparr>"

definition consent_desktop :: desktop_script where
  "consent_desktop =
     \<lparr>dk_trusted = True, dk_rules = None, dk_running = [consent_app], dk_terminated = (\<lambda>a. False),
      dk_identity = (\<lambda>a. Some (''/System/Library/U'', [])), dk_name = (\<lambda>a. ''UserNotificationCenter''),
      dk_permit = (\<lambda>k. True), dk_created = (\<lambda>a. Success), dk_subscribed = (\<lambda>a n. Success),
      dk_timer = (\<lambda>a. True), dk_written = (\<lambda>kind. True), dk_executable = None,
      dk_scan = consent_process\<rparr>"

definition ruled_desktop :: desktop_script where
  "ruled_desktop = consent_desktop\<lparr>dk_rules := Some default_dialog_settings\<rparr>"

definition disabled_desktop :: desktop_script where
  "disabled_desktop = consent_desktop
     \<lparr>dk_rules := Some \<lparr>ds_rules = [(directory_rule, default_dialog_rule\<lparr>dr_enabled := False\<rparr>)]\<rparr>\<rparr>"

definition waiting_process :: process where
  "waiting_process = \<lparr>pr_dialogs = [], pr_subscriptions = process_notifications, pr_last_error = None\<rparr>"

definition waiting_monitor :: monitor where
  "waiting_monitor = \<lparr>mo_processes = [(7, consent_app, waiting_process)], mo_failed = [],
     mo_initialized = True, mo_status = no_clicks\<rparr>"

text \<open>The monitor with one process that was scanned, or not yet.\<close>

definition watching :: "dialog list \<Rightarrow> dialog_status \<Rightarrow> monitor" where
  "watching ds st = waiting_monitor
     \<lparr>mo_processes := [(7, consent_app, waiting_process\<lparr>pr_dialogs := ds\<rparr>)], mo_status := st\<rparr>"

definition pressing :: "monitor_effect list" where
  "pressing = found_effects @ Pressed (window_at 0) (window_at 2) (mb_signature consent_match) Success #
     sent_effects"

lemma consent_system: "system_owner ''/System/Library/U''" by (simp add: system_owner_def starts_with_def)

lemma consent_observed:
  "observed_app ruled_desktop consent_app"
  "\<not> observed_app disabled_desktop consent_app"
  by (simp_all add: observed_app_def ruled_desktop_def disabled_desktop_def consent_desktop_def observes_def
      default_dialog_settings_def default_dialog_rule_def consent_system)

lemma watching_scan:
  "run_queued (\<lambda>s. s) (\<lambda>e. ''Success'') False True ruled_desktop 7 (watching [] st) =
     (watching [pressed_dialog] (clicked st), pressing)"
  "run_queued (\<lambda>s. s) (\<lambda>e. ''Success'') False True ruled_desktop 7 (watching [pressed_dialog] st) =
     (watching [pressed_dialog] st, [])"
proof -
  have env: "scan_env_of (\<lambda>s. s) (\<lambda>e. ''Success'') False ruled_desktop consent_app = consent_env"
    and desk: "dk_trusted ruled_desktop" "\<not> dk_terminated ruled_desktop consent_app"
      "dk_scan ruled_desktop = consent_process"
    by (simp_all add: scan_env_of_def consent_env_def ruled_desktop_def consent_desktop_def consent_app_def)
  show "run_queued (\<lambda>s. s) (\<lambda>e. ''Success'') False True ruled_desktop 7 (watching [] st) =
      (watching [pressed_dialog] (clicked st), pressing)"
    by (simp add: run_queued_def scan_monitor_def env desk watching_def waiting_monitor_def hm_get_def
        hm_insert_def consent_scan pressing_def waiting_process_def)
  show "run_queued (\<lambda>s. s) (\<lambda>e. ''Success'') False True ruled_desktop 7 (watching [pressed_dialog] st) =
      (watching [pressed_dialog] st, [])"
    by (simp add: run_queued_def scan_monitor_def env desk watching_def waiting_monitor_def hm_get_def
        hm_insert_def consent_scan_again waiting_process_def)
qed

lemma watching_presses: "presses 0 pressing = [mb_signature consent_match]"
  by (simp add: pressing_def found_effects_def sent_effects_def window_at_def)

lemma watching_rules_changed:
  "configuration_changed (watching [] st) = (watching [] st, [Queued 0])"
  by (simp add: configuration_changed_def watching_def waiting_monitor_def)

lemma consent_history:
  "monitor_history (\<lambda>s. s) (\<lambda>e. ''Success'') False
     [Rules_Changed, Queued_Scan True ruled_desktop 7, Queued_Scan True ruled_desktop 7] (watching [] no_clicks) =
   (watching [pressed_dialog] (clicked no_clicks), [(0, [Queued 0]), (7, pressing), (7, [])])"
  by (simp add: watching_rules_changed watching_scan)

theorem request_pressed_once_witness:
  "presses 0 (effects_of 7 [(0, [Queued 0]), (7, pressing), (7, [])]) = [mb_signature consent_match] \<and>
   (\<exists>p'. holds_process 7 consent_app p' (watching [pressed_dialog] (clicked no_clicks)) \<and>
     attempt 0 (pr_dialogs p') = Some (mb_signature consent_match))"
proof -
  have held: "holds_process 7 consent_app (waiting_process\<lparr>pr_dialogs := []\<rparr>) (watching [] no_clicks)"
    by (simp add: holds_process_def watching_def waiting_monitor_def hm_get_def)
  have fine: "\<forall>x \<in> set [Rules_Changed, Queued_Scan True ruled_desktop 7, Queued_Scan True ruled_desktop 7].
      undisturbed 7 consent_app 0 x"
    by (simp add: ruled_desktop_def consent_desktop_def window_shown_def consent_process_def map_filter_def
        window_at_def)
  have one: "presses 0 (effects_of 7 [(0, [Queued 0]), (7, pressing), (7, [])]) = [mb_signature consent_match]"
    by (simp add: effects_of_def watching_presses)
  from request_pressed_once [OF consent_history held _ fine] one show ?thesis by auto
qed

text \<open>
  A process that is dropped takes what was attempted in it along: when its rule is disabled
  and enabled again while the window is open, each change followed by its reconciliation, the
  request that was already answered is pressed a second time.
\<close>

lemma watching_dropped:
  "\<exists>m es. run_queued (\<lambda>s. s) (\<lambda>e. ''Success'') False True disabled_desktop 0
     (watching ds st) = (m, es) \<and> mo_processes m = [] \<and> mo_failed m = []"
  using consent_observed(2)
  by (simp add: run_queued_def reconcile_monitor_def drop_unobserved_def watching_def waiting_monitor_def
      hm_retain_def hm_values_def)
    (simp add: disabled_desktop_def consent_desktop_def hm_get_def)

lemma watching_attached:
  assumes "mo_processes m = []" and "mo_failed m = []"
  shows "\<exists>st es. run_queued (\<lambda>s. s) (\<lambda>e. ''Success'') False True ruled_desktop 0 m = (watching [] st, es)"
proof -
  have desk: "dk_running ruled_desktop = [consent_app]" "dk_permit ruled_desktop k" "dk_trusted ruled_desktop"
      "new_process (dk_created ruled_desktop consent_app) (dk_subscribed ruled_desktop consent_app) =
        Inr waiting_process" "an_pid consent_app = 7" for k
    by (simp_all add: ruled_desktop_def consent_desktop_def consent_app_def new_process_def
        process_subscriptions_def process_notifications_def is_transient_def is_subscribed_def waiting_process_def)
  show ?thesis
    using assms consent_observed(1)
    by (cases m) (auto simp: run_queued_def reconcile_monitor_def drop_unobserved_def hm_simps desk attach_def
        watching_def waiting_monitor_def waiting_process_def Let_def)
qed

lemma reattached_process_pressed_again:
  "\<exists>m log. monitor_history (\<lambda>s. s) (\<lambda>e. ''Success'') False
     [Queued_Scan True ruled_desktop 7, Queued_Scan True disabled_desktop 0, Queued_Scan True ruled_desktop 0,
      Queued_Scan True ruled_desktop 7] (watching [] no_clicks) = (m, log) \<and>
   presses 0 (effects_of 7 log) = [mb_signature consent_match, mb_signature consent_match]"
proof -
  obtain m1 es1 where dropped: "run_queued (\<lambda>s. s) (\<lambda>e. ''Success'') False True
      disabled_desktop 0 (watching [pressed_dialog] (clicked no_clicks)) = (m1, es1)"
    and gone: "mo_processes m1 = []" "mo_failed m1 = []" using watching_dropped by blast
  from watching_attached [OF gone] obtain st es2 where
    "run_queued (\<lambda>s. s) (\<lambda>e. ''Success'') False True ruled_desktop 0 m1 = (watching [] st, es2)" by blast
  with dropped show ?thesis
    by (simp add: watching_scan effects_of_def watching_presses)
qed

end
