(* ===== verification/Monitor_Service.thy ===== *)
theory Monitor_Service
  imports Dialog_Monitor
begin

text \<open>
  The life of the dialog monitor inside the service (\<open>os_permissions.rs\<close> and the tasks of
  \<open>os_permissions/macos.rs\<close>): the daemon's threads set the rules, start and stop it, the main
  run loop works through the blocks that are posted to it, and a scan gives way to the other
  threads between two windows and before a press.  What the desktop answers is part of an
  event; the rules and the permit a scan sees are those of the state.
\<close>


section \<open>State\<close>

text \<open>The blocks that wait in the main run loop, in the order they were posted.\<close>

datatype main_task =
    Install_Monitor nat bool
  | Remove_Monitor
  | Reload_Rules
  | Scan_Task int
  | Reconcile_Soon
  | Lifecycle_Task "int option" bool
  | Reattach_Task int
  | Stop_Loop

text \<open>A scan of a process that is under way: the windows not looked at yet.\<close>

record running_scan =
  rs_env :: scan_env
  rs_app :: application
  rs_process :: process
  rs_windows :: "ax_element list"

text \<open>
  The statics \<open>MAIN_RUNNING\<close>, \<open>QUEUED\<close>, \<open>STATUS\<close> and \<open>RULES\<close>, the permit of every guard that was
  handed out, and the monitor with its guard and its dry run.
\<close>

record desk =
  de_running :: bool
  de_tasks :: "main_task list"
  de_queued :: "int list"
  de_status :: "dialog_status option"
  de_rules :: "dialog_settings option"
  de_permits :: "bool list"
  de_monitor :: "(nat \<times> bool \<times> monitor) option"
  de_scan :: "running_scan option"

text \<open>
  What the outside sees: an effect of the monitor of a guard, a record of the service itself,
  and the returns of \<open>start\<close>, \<open>stop\<close> and \<open>configure\<close>.
\<close>

datatype desk_output =
    By nat monitor_effect
  | Noted monitor_effect
  | Begun nat bool
  | Ended nat
  | In_Force dialog_settings

definition no_status :: dialog_status where
  "no_status = \<lparr>do_state = [], do_listening = 0, do_unavailable = 0, do_clicks_sent = 0,
     do_dialogs_closed = 0, do_last_result = None\<rparr>"

text \<open>\<open>status\<close>: what a snapshot reports.\<close>

definition os_status :: "bool \<Rightarrow> ('a) desk_scheme \<Rightarrow> dialog_status" where
  "os_status macos d =
     unwrap_or (de_status d)
       (no_status\<lparr>do_state := if macos then ''not_started'' else ''unsupported''\<rparr>)"

definition set_state :: "string \<Rightarrow> desk \<Rightarrow> desk" where
  "set_state state d =
     d\<lparr>de_status := Some ((unwrap_or (de_status d) no_status)\<lparr>do_state := state\<rparr>)\<rparr>"


section \<open>The threads of the daemon\<close>

text \<open>The main run loop exists on macOS; while it does not run, its blocks wait.\<close>

definition on_main :: "main_task \<Rightarrow> desk \<Rightarrow> desk" where
  "on_main t d = d\<lparr>de_tasks := de_tasks d @ [t]\<rparr>"

definition queue_scan :: "int \<Rightarrow> desk \<Rightarrow> desk" where
  "queue_scan pid d =
     (if pid \<in> set (de_queued d) then d
      else on_main (Scan_Task pid) (d\<lparr>de_queued := pid # de_queued d\<rparr>))"

definition service_record :: "(string \<Rightarrow> bool) \<Rightarrow> string \<Rightarrow> string \<Rightarrow> desk_output" where
  "service_record written kind detail =
     Noted (Audited kind None ''watchcatd'' None None detail (written kind))"

definition configure_dialogs :: "dialog_settings \<Rightarrow> (string \<Rightarrow> bool) \<Rightarrow> desk \<Rightarrow> desk \<times> desk_output list" where
  "configure_dialogs settings written d =
     (let enabled = length (filter dr_enabled (hm_values (ds_rules settings)));
          d1 = d\<lparr>de_rules := Some settings\<rparr>
      in (if de_running d1 then on_main Reload_Rules d1 else d1,
          [In_Force settings,
           service_record written ''rules.updated''
             (show_nat enabled @
              '' enabled rules; disabled/removed rules cannot authorize further clicks'')]))"

text \<open>A guard is the number of its permit.\<close>

definition start_monitor :: "bool \<Rightarrow> desk \<Rightarrow> desk \<times> desk_output list" where
  "start_monitor dry_run d =
     (let g = length (de_permits d); d1 = d\<lparr>de_permits := de_permits d @ [True]\<rparr>
      in (if de_running d1 then on_main (Install_Monitor g dry_run) (set_state ''starting'' d1)
          else set_state ''no_desktop_event_loop'' d1,
          [Begun g dry_run]))"

text \<open>\<open>opened\<close> is the outcome of opening the audit log.\<close>

definition start_dialogs ::
    "bool \<Rightarrow> unit result \<Rightarrow> dialog_settings \<Rightarrow> (string \<Rightarrow> bool) \<Rightarrow> desk \<Rightarrow>
     nat result \<times> desk \<times> desk_output list" where
  "start_dialogs dry_run opened settings written d =
     (case opened of
        Inl e \<Rightarrow> (Inl e, d, [])
      | Inr _ \<Rightarrow>
          (case configure_dialogs settings written d of (d1, os1) \<Rightarrow>
          (case start_monitor dry_run d1 of (d2, os2) \<Rightarrow>
             (Inr (length (de_permits d1)), d2,
              os1 @ [service_record written ''monitor.started''
                (if dry_run then ''dry run; no clicks'' else ''event subscriptions starting'')] @ os2))))"

definition stop_guard :: "nat \<Rightarrow> desk \<Rightarrow> desk \<times> desk_output list" where
  "stop_guard g d =
     (if g < length (de_permits d)
      then (let d1 = d\<lparr>de_permits := (de_permits d)[g := False]\<rparr>
            in (if de_running d1 then on_main Remove_Monitor d1 else d1, [Ended g]))
      else (d, []))"

fun stop_guards :: "nat list \<Rightarrow> desk \<Rightarrow> desk \<times> desk_output list" where
  "stop_guards [] d = (d, [])"
| "stop_guards (g # gs) d =
     (case stop_guard g d of (d1, os1) \<Rightarrow> (case stop_guards gs d1 of (d2, os2) \<Rightarrow> (d2, os1 @ os2)))"

definition permitted :: "nat \<Rightarrow> desk \<Rightarrow> bool" where
  "permitted g d \<longleftrightarrow> g < length (de_permits d) \<and> de_permits d ! g"


section \<open>The main run loop\<close>

fun queue_effect :: "monitor_effect \<Rightarrow> desk \<Rightarrow> desk" where
  "queue_effect (Queued pid) d = queue_scan pid d"
| "queue_effect x d = d"

text \<open>
  A step of the monitor, on the status of the process; the scans it asks for are posted.
  Without a monitor nothing happens.
\<close>

definition with_monitor ::
    "(nat \<Rightarrow> bool \<Rightarrow> monitor \<Rightarrow> monitor \<times> monitor_effect list) \<Rightarrow> desk \<Rightarrow> desk \<times> desk_output list" where
  "with_monitor f d =
     (case de_monitor d of
        None \<Rightarrow> (d, [])
      | Some (g, dry_run, m) \<Rightarrow>
          (case f g dry_run (m\<lparr>mo_status := unwrap_or (de_status d) no_status\<rparr>) of (m', es) \<Rightarrow>
             (fold queue_effect es
                (d\<lparr>de_monitor := Some (g, dry_run, m'), de_status := Some (mo_status m')\<rparr>),
              map (By g) es)))"

definition new_monitor :: monitor where
  "new_monitor = \<lparr>mo_processes = [], mo_failed = [], mo_initialized = False, mo_status = no_status\<rparr>"

text \<open>What the desktop answers while the rules and the permit are those of the state.\<close>

definition desk_script :: "nat \<Rightarrow> desk \<Rightarrow> desktop_script \<Rightarrow> desktop_script" where
  "desk_script g d dk = dk\<lparr>dk_rules := de_rules d, dk_permit := (\<lambda>k. permitted g d \<and> dk_permit dk k)\<rparr>"

text \<open>A scan that has no windows left stores what it learned.\<close>

definition settle_scan :: "desk \<Rightarrow> desk" where
  "settle_scan d =
     (case de_scan d of
        None \<Rightarrow> d
      | Some rs \<Rightarrow>
          if rs_windows rs \<noteq> [] then d
          else d\<lparr>de_scan := None,
                 de_monitor := map_option (\<lambda>(g, dry_run, m).
                   (g, dry_run, m\<lparr>mo_processes := hm_insert (sc_pid (rs_env rs))
                      (rs_app rs, (rs_process rs)\<lparr>pr_last_error := None\<rparr>) (mo_processes m)\<rparr>))
                   (de_monitor d)\<rparr>)"

definition begin_scan ::
    "scan_env \<Rightarrow> application \<Rightarrow> process \<Rightarrow> process_script \<Rightarrow> ax_element list \<Rightarrow> nat \<Rightarrow> desk \<Rightarrow>
     desk \<times> desk_output list" where
  "begin_scan sc app p scr windows g d =
     (case close_absent sc (ps_written scr) windows
         (pr_dialogs p, unwrap_or (de_status d) no_status) of ((ds, st), es) \<Rightarrow>
        (settle_scan (d\<lparr>de_status := Some st,
           de_scan := Some \<lparr>rs_env = sc, rs_app = app, rs_process = p\<lparr>pr_dialogs := ds\<rparr>,
             rs_windows = take 32 windows\<rparr>\<rparr>),
         map (By g) es))"

record desk_env =
  de_lower :: "string \<Rightarrow> string"
  de_debug :: "ax_error \<Rightarrow> string"

definition run_scan ::
    "desk_env \<Rightarrow> desktop_script \<Rightarrow> int \<Rightarrow> desk \<Rightarrow> desk \<times> desk_output list" where
  "run_scan env dk pid d =
     (case de_monitor d of
        None \<Rightarrow> (d, [])
      | Some (g, dry_run, m) \<Rightarrow>
          if \<not> permitted g d then (d, [])
          else if pid = 0 \<or> \<not> dk_trusted dk
          then with_monitor (\<lambda>g dry_run. reconcile_monitor (de_debug env) dry_run (desk_script g d dk)) d
          else case hm_get (mo_processes m) pid of
            None \<Rightarrow> (d, [])
          | Some (app, p) \<Rightarrow>
              if dk_terminated dk app then (d, [])
              else case ax_elements (ps_windows (dk_scan dk)) of
                Inl e \<Rightarrow>
                  with_monitor (\<lambda>g dry_run.
                    scan_monitor (de_lower env) (de_debug env) dry_run (desk_script g d dk) pid) d
              | Inr windows \<Rightarrow>
                  begin_scan ((scan_env_of (de_lower env) (de_debug env) dry_run dk app)\<lparr>sc_pid := pid\<rparr>)
                    app p (dk_scan dk) windows g d)"

text \<open>The first block that waits is run.\<close>

definition run_task ::
    "desk_env \<Rightarrow> desktop_script \<Rightarrow> main_task \<Rightarrow> desk \<Rightarrow> desk \<times> desk_output list" where
  "run_task env dk t d =
     (case t of
        Install_Monitor g dry_run \<Rightarrow>
          (if permitted g d
           then (queue_scan 0 (d\<lparr>de_monitor := Some (g, dry_run, new_monitor)\<rparr>), [])
           else (d, []))
      | Remove_Monitor \<Rightarrow> (set_state ''stopped'' (d\<lparr>de_monitor := None\<rparr>), [])
      | Reload_Rules \<Rightarrow>
          (case with_monitor (\<lambda>g dry_run. configuration_changed) d of
             (d1, os1) \<Rightarrow> (queue_scan 0 d1, os1))
      | Scan_Task pid \<Rightarrow>
          run_scan env dk pid (d\<lparr>de_queued := filter (\<lambda>p. p \<noteq> pid) (de_queued d)\<rparr>)
      | Reconcile_Soon \<Rightarrow> (queue_scan 0 d, [])
      | Lifecycle_Task pid reset \<Rightarrow>
          (case with_monitor (\<lambda>g dry_run. lifecycle_event (desk_script g d dk) pid reset) d of
             (d1, os1) \<Rightarrow> (queue_scan 0 d1, os1))
      | Reattach_Task pid \<Rightarrow>
          (case with_monitor (\<lambda>g dry_run. retry_attach (de_debug env) (desk_script g d dk) pid) d of
             (d1, os1) \<Rightarrow> (queue_scan 0 d1, os1))
      | Stop_Loop \<Rightarrow> (d\<lparr>de_running := False, de_monitor := None\<rparr>, []))"

definition main_turn :: "desk_env \<Rightarrow> desktop_script \<Rightarrow> desk \<Rightarrow> desk \<times> desk_output list" where
  "main_turn env dk d =
     (case de_tasks d of
        [] \<Rightarrow> (d, [])
      | t # ts \<Rightarrow>
          if \<not> de_running d \<or> de_scan d \<noteq> None then (d, [])
          else run_task env dk t (d\<lparr>de_tasks := ts\<rparr>))"

text \<open>
  One window of the scan under way.  The permit is looked at, then the rules are locked, which
  keeps a change of them out until the window is done; the calls of \<open>stop\<close> in \<open>stops\<close> return
  before the permit is locked for the press.
\<close>

definition scan_turn :: "window_script \<Rightarrow> nat list \<Rightarrow> desk \<Rightarrow> desk \<times> desk_output list" where
  "scan_turn scr stops d =
     (case (de_scan d, de_monitor d) of
        (Some rs, Some (g, dry_run, m)) \<Rightarrow>
          (case rs_windows rs of
             [] \<Rightarrow> (d, [])
           | w # ws \<Rightarrow>
               (case stop_guards stops d of (d1, os1) \<Rightarrow>
                  (case scan_window (rs_env rs)
                      (scr\<lparr>ws_permit := permitted g d, ws_rules := de_rules d,
                           ws_permit_press := permitted g d1\<rparr>) w
                      (pr_dialogs (rs_process rs), unwrap_or (de_status d1) no_status) of
                     (ends, (ds, st), es) \<Rightarrow>
                       (settle_scan (fold queue_effect es (d1\<lparr>de_status := Some st,
                          de_scan := Some (rs\<lparr>rs_process := (rs_process rs)\<lparr>pr_dialogs := ds\<rparr>,
                            rs_windows := if ends then [] else ws\<rparr>)\<rparr>)),
                        os1 @ map (By g) es))))
      | _ \<Rightarrow> (d, []))"


section \<open>Histories\<close>

text \<open>
  The events: the loop of the main thread begins, the daemon starts, configures and stops the
  monitor, the system notifies (a window, the list of applications, a workspace event, a
  timer), the worker thread is done, and the main thread gets on with its work.
\<close>

datatype desk_event =
    Loop_Begins
  | Service_Starts bool "unit result" dialog_settings "string \<Rightarrow> bool"
  | Rules_Change dialog_settings "string \<Rightarrow> bool"
  | Service_Stops nat
  | Window_Notice int
  | Applications_Notice
  | Workspace_Notice "int option" bool
  | Attach_Timer int
  | Worker_Done
  | Main_Turn desktop_script
  | Scan_Turn window_script "nat list"

definition desk_step :: "desk_env \<Rightarrow> desk_event \<Rightarrow> desk \<Rightarrow> desk \<times> desk_output list" where
  "desk_step env x d =
     (case x of
        Loop_Begins \<Rightarrow> (d\<lparr>de_running := True\<rparr>, [])
      | Service_Starts dry_run opened settings written \<Rightarrow>
          snd (start_dialogs dry_run opened settings written d)
      | Rules_Change settings written \<Rightarrow> configure_dialogs settings written d
      | Service_Stops g \<Rightarrow> stop_guard g d
      | Window_Notice pid \<Rightarrow> (queue_scan pid d, [])
      | Applications_Notice \<Rightarrow> (if de_running d then on_main Reconcile_Soon d else d, [])
      | Workspace_Notice pid reset \<Rightarrow> (on_main (Lifecycle_Task pid reset) d, [])
      | Attach_Timer pid \<Rightarrow> (on_main (Reattach_Task pid) d, [])
      | Worker_Done \<Rightarrow> (on_main Stop_Loop d, [])
      | Main_Turn dk \<Rightarrow> main_turn env dk d
      | Scan_Turn scr stops \<Rightarrow> scan_turn scr stops d)"

fun desk_history :: "desk_env \<Rightarrow> desk_event list \<Rightarrow> desk \<Rightarrow> desk \<times> desk_output list" where
  "desk_history env [] d = (d, [])"
| "desk_history env (x # xs) d =
     (case desk_step env x d of (d1, os1) \<Rightarrow>
        (case desk_history env xs d1 of (d2, os2) \<Rightarrow> (d2, os1 @ os2)))"

definition empty_desk :: desk where
  "empty_desk = \<lparr>de_running = False, de_tasks = [], de_queued = [], de_status = None, de_rules = None,
     de_permits = [], de_monitor = None, de_scan = None\<rparr>"


section \<open>Quiet steps\<close>

lemma attach_quiet: "attach dbg dk app previous m = (m', es) \<Longrightarrow> quiet es"
  by (auto simp: attach_def app_audit_def Let_def split: sum.splits)

lemma retry_attach_quiet: "retry_attach dbg dk pid m = (m', es) \<Longrightarrow> quiet es"
  by (auto simp: retry_attach_def Let_def dest: attach_quiet split: option.splits if_splits prod.splits)

lemma permission_required_quiet: "permission_required dk m = (m', es) \<Longrightarrow> quiet es"
  by (auto simp: permission_required_def)

lemma drop_unobserved_quiet: "drop_unobserved dk m = (m', es) \<Longrightarrow> quiet es"
  by (auto simp: drop_unobserved_def quiet_def detach_audits_def app_audit_def)

lemma discover_apps_quiet: "discover_apps dbg dk k apps m = (ends, m', es) \<Longrightarrow> quiet es"
proof (induction apps arbitrary: k m ends m' es)
  case (Cons app apps)
  obtain m1 es1 where one: "attach dbg dk app 0 m = (m1, es1)" by fastforce
  obtain ends2 m2 es2 where rest: "discover_apps dbg dk (Suc k) apps m1 = (ends2, m2, es2)"
    by (metis surj_pair)
  from Cons.prems one rest Cons.IH [OF rest] attach_quiet [OF one] show ?case
    by (auto simp: app_audit_def dest: Cons.IH split: if_splits)
qed simp

lemma reconcile_monitor_quiet: "reconcile_monitor dbg dry dk m = (m', es) \<Longrightarrow> quiet es"
  by (auto simp: reconcile_monitor_def quiet_def [of "map Queued _"]
      dest: permission_required_quiet drop_unobserved_quiet discover_apps_quiet
      split: if_splits prod.splits bool.splits)

lemma reconnect_process_quiet: "quiet (snd (reconnect_process dk ap))"
  by (auto simp: reconnect_process_def quiet_def split: sum.splits)

lemma reconnect_quiet: "reconnect dk m = (m', es) \<Longrightarrow> quiet es"
  using reconnect_process_quiet by (fastforce simp: reconnect_def quiet_def)

lemma lifecycle_event_quiet: "lifecycle_event dk pid reset m = (m', es) \<Longrightarrow> quiet es"
  by (auto simp: lifecycle_event_def Let_def dest: reconnect_quiet split: if_splits prod.splits)

lemma configuration_changed_quiet: "configuration_changed m = (m', es) \<Longrightarrow> quiet es"
  by (auto simp: configuration_changed_def)

lemma failed_scan_quiet:
  assumes "ax_elements (ps_windows (dk_scan dk)) = Inl e"
    and "scan_monitor lower dbg dry dk pid m = (m', es)"
  shows "quiet es"
  using assms
  by (auto simp: scan_monitor_def scan_process_def app_audit_def dest: reconcile_monitor_quiet
      split: if_splits option.splits prod.splits)


section \<open>What holds at every moment\<close>

text \<open>The rules that were set last.\<close>

fun sets_rules :: "desk_output \<Rightarrow> dialog_settings option \<Rightarrow> dialog_settings option" where
  "sets_rules (In_Force s) r = Some s"
| "sets_rules x r = r"

definition in_force :: "desk_output list \<Rightarrow> dialog_settings option" where
  "in_force os = fold sets_rules os None"

lemma in_force_append: "in_force (os @ os') = fold sets_rules os' (in_force os)"
  by (simp add: in_force_def)

lemma sets_rules_by [simp]: "fold sets_rules (map (By g) es) r = r"
  by (induction es) auto

lemma in_force_by: "in_force (os @ map (By g) es) = in_force os"
  by (simp add: in_force_append)

definition desk_inv :: "desk_output list \<Rightarrow> desk \<Rightarrow> bool" where
  "desk_inv seen d \<longleftrightarrow>
     in_force seen = de_rules d \<and>
     (\<forall>g. Ended g \<in> set seen \<longrightarrow> \<not> permitted g d \<and> g < length (de_permits d)) \<and>
     (\<forall>g dry. Install_Monitor g dry \<in> set (de_tasks d) \<longrightarrow> Begun g dry \<in> set seen) \<and>
     (\<forall>g dry m. de_monitor d = Some (g, dry, m) \<longrightarrow> Begun g dry \<in> set seen) \<and>
     (\<forall>rs g dry m. de_scan d = Some rs \<longrightarrow> de_monitor d = Some (g, dry, m) \<longrightarrow>
        sc_dry_run (rs_env rs) = dry)"

lemma desk_inv_empty: "desk_inv [] empty_desk"
  by (simp add: desk_inv_def empty_desk_def in_force_def)

lemma desk_inv_by: "desk_inv seen d \<Longrightarrow> desk_inv (seen @ map (By g) es) d"
  by (auto simp: desk_inv_def in_force_append)

lemma desk_inv_on_main:
  "desk_inv seen d \<Longrightarrow> \<forall>g dry. t \<noteq> Install_Monitor g dry \<Longrightarrow> desk_inv seen (on_main t d)"
  by (auto simp: desk_inv_def on_main_def permitted_def)

lemma desk_inv_queue_scan: "desk_inv seen d \<Longrightarrow> desk_inv seen (queue_scan pid d)"
  by (auto simp: desk_inv_def queue_scan_def on_main_def permitted_def)

lemma desk_inv_queue_effects: "desk_inv seen d \<Longrightarrow> desk_inv seen (fold queue_effect es d)"
proof (induction es arbitrary: d)
  case (Cons x es)
  then show ?case by (cases x) (auto intro: desk_inv_queue_scan)
qed simp

lemma desk_inv_status: "desk_inv seen d \<Longrightarrow> desk_inv seen (d\<lparr>de_status := st\<rparr>)"
  by (simp add: desk_inv_def permitted_def)

lemma desk_inv_settle: "desk_inv seen d \<Longrightarrow> desk_inv seen (settle_scan d)"
  by (auto simp: desk_inv_def settle_scan_def permitted_def split: option.splits)

lemma desk_inv_with_monitor:
  assumes "desk_inv seen d" and "with_monitor f d = (d', os)"
  shows "desk_inv (seen @ os) d'"
proof (cases "de_monitor d")
  case None
  with assms show ?thesis by (simp add: with_monitor_def)
next
  case (Some gm)
  then obtain g dry m where m: "de_monitor d = Some (g, dry, m)" by (cases gm) auto
  obtain m' es where f: "f g dry (m\<lparr>mo_status := unwrap_or (de_status d) no_status\<rparr>) = (m', es)"
    by fastforce
  have "desk_inv seen (d\<lparr>de_monitor := Some (g, dry, m'), de_status := Some (mo_status m')\<rparr>)"
    using assms(1) m by (auto simp: desk_inv_def permitted_def)
  then show ?thesis
    using assms(2) m f by (auto simp: with_monitor_def intro!: desk_inv_by desk_inv_queue_effects)
qed

lemma desk_inv_configure:
  assumes "desk_inv seen d" and "configure_dialogs settings written d = (d', os)"
  shows "desk_inv (seen @ os) d'"
  using assms
  by (auto simp: desk_inv_def configure_dialogs_def Let_def in_force_append service_record_def permitted_def
      on_main_def split: if_splits)

lemma desk_inv_note:
  "desk_inv seen d \<Longrightarrow> desk_inv (seen @ [service_record written kind detail]) d"
  by (simp add: desk_inv_def in_force_append service_record_def)

lemma desk_inv_start_monitor:
  assumes "desk_inv seen d" and "start_monitor dry d = (d', os)"
  shows "desk_inv (seen @ os) d'"
  using assms
  by (auto simp: desk_inv_def start_monitor_def Let_def in_force_append permitted_def on_main_def
      set_state_def nth_append split: if_splits)

lemma desk_inv_start_dialogs:
  assumes "desk_inv seen d" and "start_dialogs dry opened settings written d = (r, d', os)"
  shows "desk_inv (seen @ os) d'"
proof (cases opened)
  case (Inl e)
  with assms show ?thesis by (simp add: start_dialogs_def)
next
  case (Inr u)
  obtain d1 os1 where one: "configure_dialogs settings written d = (d1, os1)" by fastforce
  obtain d2 os2 where two: "start_monitor dry d1 = (d2, os2)" by fastforce
  from desk_inv_start_monitor [OF desk_inv_note [OF desk_inv_configure [OF assms(1) one]] two]
  show ?thesis
    using assms(2) Inr one two by (auto simp: start_dialogs_def)
qed

lemma desk_inv_stop_guard:
  assumes "desk_inv seen d" and "stop_guard g d = (d', os)"
  shows "desk_inv (seen @ os) d'"
  using assms
  by (auto simp: desk_inv_def stop_guard_def Let_def in_force_append permitted_def on_main_def
      nth_list_update split: if_splits)

lemma desk_inv_stop_guards:
  "desk_inv seen d \<Longrightarrow> stop_guards gs d = (d', os) \<Longrightarrow> desk_inv (seen @ os) d'"
proof (induction gs arbitrary: seen d d' os)
  case (Cons g gs)
  obtain d1 os1 where one: "stop_guard g d = (d1, os1)" by fastforce
  obtain d2 os2 where two: "stop_guards gs d1 = (d2, os2)" by fastforce
  from Cons.IH [OF desk_inv_stop_guard [OF Cons.prems(1) one] two] Cons.prems(2) one two
  show ?case by auto
qed simp

lemma desk_inv_begin_scan:
  assumes "desk_inv seen d" and "de_monitor d = Some (g, dry, m)" and "sc_dry_run sc = dry"
    and "begin_scan sc app p scr windows g d = (d', os)"
  shows "desk_inv (seen @ os) d'"
proof -
  obtain ds st es where "close_absent sc (ps_written scr) windows
      (pr_dialogs p, unwrap_or (de_status d) no_status) = ((ds, st), es)" by (metis surj_pair)
  with assms show ?thesis
    by (auto simp: begin_scan_def intro!: desk_inv_by desk_inv_settle)
      (auto simp: desk_inv_def permitted_def)
qed

lemma desk_inv_run_scan:
  assumes "desk_inv seen d" and "run_scan env dk pid d = (d', os)"
  shows "desk_inv (seen @ os) d'"
  using assms
  by (auto simp: run_scan_def scan_env_of_def desk_inv_by [of _ _ _ "[]", simplified]
      intro: desk_inv_with_monitor
      elim!: desk_inv_begin_scan [rotated 3]
      split: option.splits prod.splits if_splits sum.splits)

lemma desk_inv_run_task:
  assumes "desk_inv seen (d\<lparr>de_tasks := t # ts\<rparr>)" and "de_scan d = None"
    and "run_task env dk t (d\<lparr>de_tasks := ts\<rparr>) = (d', os)"
  shows "desk_inv (seen @ os) d'"
proof -
  let ?d = "d\<lparr>de_tasks := ts\<rparr>"
  have inv: "desk_inv seen ?d" using assms(1) by (auto simp: desk_inv_def permitted_def)
  have queued: "desk_inv (seen @ os) (queue_scan 0 d1)" if "with_monitor f ?d = (d1, os)" for f d1 os
    using desk_inv_queue_scan desk_inv_with_monitor [OF inv that] .
  show ?thesis
  proof (cases t)
    case (Install_Monitor g dry)
    have "desk_inv seen (?d\<lparr>de_monitor := Some (g, dry, new_monitor)\<rparr>)"
      using assms(1,2) Install_Monitor by (auto simp: desk_inv_def permitted_def)
    with inv Install_Monitor assms(3) show ?thesis
      by (auto simp: run_task_def intro: desk_inv_queue_scan split: if_splits)
  next
    case (Scan_Task pid)
    have "desk_inv seen (?d\<lparr>de_queued := filter (\<lambda>p. p \<noteq> pid) (de_queued ?d)\<rparr>)"
      using inv by (auto simp: desk_inv_def permitted_def)
    with Scan_Task assms(3) show ?thesis by (auto simp: run_task_def intro: desk_inv_run_scan)
  next
    case Remove_Monitor
    with inv assms(3) show ?thesis
      by (auto simp: run_task_def set_state_def desk_inv_def permitted_def)
  next
    case Stop_Loop
    with inv assms(3) show ?thesis
      by (auto simp: run_task_def desk_inv_def permitted_def)
  qed (use inv queued assms(3) in
      \<open>auto simp: run_task_def intro: desk_inv_queue_scan split: prod.splits\<close>)
qed

lemma desk_inv_main_turn:
  assumes "desk_inv seen d" and "main_turn env dk d = (d', os)"
  shows "desk_inv (seen @ os) d'"
proof (cases "de_tasks d")
  case (Cons t ts)
  then have "d\<lparr>de_tasks := t # ts\<rparr> = d" by simp
  with assms Cons desk_inv_run_task [where seen = seen and d = d and t = t and ts = ts] show ?thesis
    by (auto simp: main_turn_def split: if_splits)
qed (use assms in \<open>simp add: main_turn_def\<close>)

lemma scan_turn_cases:
  assumes "scan_turn scr stops d = (d', os)"
  obtains (none) "d' = d" and "os = []"
  | (window) rs g dry m w ws d1 os1 ends ds st es where
      "de_scan d = Some rs" and "de_monitor d = Some (g, dry, m)" and "rs_windows rs = w # ws"
      and "stop_guards stops d = (d1, os1)"
      and "scan_window (rs_env rs)
        (scr\<lparr>ws_permit := permitted g d, ws_rules := de_rules d, ws_permit_press := permitted g d1\<rparr>) w
        (pr_dialogs (rs_process rs), unwrap_or (de_status d1) no_status) = (ends, (ds, st), es)"
      and "d' = settle_scan (fold queue_effect es (d1\<lparr>de_status := Some st,
        de_scan := Some (rs\<lparr>rs_process := (rs_process rs)\<lparr>pr_dialogs := ds\<rparr>,
          rs_windows := if ends then [] else ws\<rparr>)\<rparr>))"
      and "os = os1 @ map (By g) es"
proof (cases "\<exists>rs g dry m w ws. de_scan d = Some rs \<and> de_monitor d = Some (g, dry, m) \<and>
    rs_windows rs = w # ws")
  case False
  with assms that(1) show ?thesis
    by (auto simp: scan_turn_def split: option.splits list.splits)
next
  case True
  then obtain rs g dry m w ws where at: "de_scan d = Some rs" "de_monitor d = Some (g, dry, m)"
    "rs_windows rs = w # ws" by blast
  obtain d1 os1 where stop: "stop_guards stops d = (d1, os1)" by fastforce
  obtain ends ds st es where scan: "scan_window (rs_env rs)
      (scr\<lparr>ws_permit := permitted g d, ws_rules := de_rules d, ws_permit_press := permitted g d1\<rparr>) w
      (pr_dialogs (rs_process rs), unwrap_or (de_status d1) no_status) = (ends, (ds, st), es)"
    by (metis surj_pair)
  from assms at stop scan show ?thesis
    by (intro that(2) [OF at stop scan]) (auto simp: scan_turn_def)
qed

lemma stop_guards_keeps:
  "stop_guards gs d = (d', os) \<Longrightarrow>
   de_scan d' = de_scan d \<and> de_monitor d' = de_monitor d \<and> de_rules d' = de_rules d"
proof (induction gs arbitrary: d d' os)
  case (Cons g gs)
  obtain d1 os1 where one: "stop_guard g d = (d1, os1)" by fastforce
  obtain d2 os2 where two: "stop_guards gs d1 = (d2, os2)" by fastforce
  have "de_scan d1 = de_scan d \<and> de_monitor d1 = de_monitor d \<and> de_rules d1 = de_rules d"
    using one by (auto simp: stop_guard_def Let_def on_main_def split: if_splits)
  with Cons.IH [OF two] Cons.prems one two show ?case by auto
qed simp

lemma desk_inv_scan_turn:
  assumes "desk_inv seen d" and "scan_turn scr stops d = (d', os)"
  shows "desk_inv (seen @ os) d'"
  using assms(2)
proof (cases rule: scan_turn_cases)
  case none
  with assms(1) show ?thesis by simp
next
  case (window rs g dry m w ws d1 os1 ends ds st es)
  have kept: "de_scan d1 = Some rs" "de_monitor d1 = Some (g, dry, m)"
    using stop_guards_keeps [OF window(4)] window(1,2) by auto
  have "desk_inv (seen @ os1) d1" using desk_inv_stop_guards [OF assms(1) window(4)] .
  then have "desk_inv (seen @ os1) (d1\<lparr>de_status := Some st,
      de_scan := Some (rs\<lparr>rs_process := (rs_process rs)\<lparr>pr_dialogs := ds\<rparr>,
        rs_windows := if ends then [] else ws\<rparr>)\<rparr>)"
    using kept by (auto simp: desk_inv_def permitted_def)
  with window(6,7) desk_inv_by [where g = g and es = es] show ?thesis
    by (simp add: desk_inv_settle desk_inv_queue_effects flip: append_assoc)
qed

lemma desk_inv_step:
  assumes "desk_inv seen d" and "desk_step env x d = (d', os)"
  shows "desk_inv (seen @ os) d'"
proof (cases x)
  case Loop_Begins
  with assms show ?thesis by (auto simp: desk_step_def desk_inv_def permitted_def)
next
  case (Service_Starts dry opened settings written)
  obtain r d1 os1 where "start_dialogs dry opened settings written d = (r, d1, os1)"
    by (metis surj_pair)
  with assms Service_Starts show ?thesis by (auto simp: desk_step_def intro: desk_inv_start_dialogs)
qed (use assms in \<open>auto simp: desk_step_def intro: desk_inv_configure desk_inv_stop_guard
    desk_inv_queue_scan desk_inv_on_main desk_inv_main_turn desk_inv_scan_turn split: if_splits\<close>)


section \<open>Who presses\<close>

fun desk_press :: "desk_output \<Rightarrow> bool" where
  "desk_press (By g x) \<longleftrightarrow> is_press x"
| "desk_press x \<longleftrightarrow> False"

definition calm :: "desk_output list \<Rightarrow> bool" where
  "calm os \<longleftrightarrow> (\<forall>x \<in> set os. \<not> desk_press x)"

lemma calm_simps [simp]:
  "calm []"
  "calm (x # os) \<longleftrightarrow> \<not> desk_press x \<and> calm os"
  "calm (os @ os') \<longleftrightarrow> calm os \<and> calm os'"
  "calm (map (By g) es) \<longleftrightarrow> quiet es"
  by (auto simp: calm_def quiet_def)

lemma configure_calm: "configure_dialogs settings written d = (d', os) \<Longrightarrow> calm os"
  by (auto simp: configure_dialogs_def service_record_def Let_def)

lemma start_dialogs_calm: "start_dialogs dry opened settings written d = (r, d', os) \<Longrightarrow> calm os"
  by (auto simp: start_dialogs_def service_record_def start_monitor_def Let_def
      dest: configure_calm split: sum.splits prod.splits)

lemma stop_guards_calm: "stop_guards gs d = (d', os) \<Longrightarrow> calm os"
proof (induction gs arbitrary: d d' os)
  case (Cons g gs)
  then show ?case by (auto simp: stop_guard_def Let_def split: prod.splits if_splits)
qed simp

lemma with_monitor_calm:
  assumes "with_monitor f d = (d', os)" and "\<And>g dry m m' es. f g dry m = (m', es) \<Longrightarrow> quiet es"
  shows "calm os"
  using assms by (auto simp: with_monitor_def split: option.splits prod.splits)

lemma run_scan_calm:
  assumes "run_scan env dk pid d = (d', os)"
  shows "calm os"
proof -
  have failed: "calm os1"
    if "ax_elements (ps_windows (dk_scan dk)) = Inl e"
      and "with_monitor (\<lambda>g dry. scan_monitor lower dbg dry (desk_script g d dk) pid) d = (d1, os1)"
    for e lower dbg d1 os1
    by (rule with_monitor_calm [OF that(2)], rule failed_scan_quiet)
      (use that(1) in \<open>auto simp: desk_script_def\<close>)
  have reconciled: "calm os1"
    if "with_monitor (\<lambda>g dry. reconcile_monitor dbg dry (desk_script g d dk)) d = (d1, os1)"
    for dbg d1 os1
    using with_monitor_calm [OF that] reconcile_monitor_quiet by blast
  show ?thesis
    using assms
    by (auto simp: run_scan_def begin_scan_def dest: close_absent_quiet reconciled failed
        split: option.splits prod.splits if_splits sum.splits)
qed

lemma run_task_calm:
  assumes "run_task env dk t d = (d', os)"
  shows "calm os"
  using assms
  by (auto simp: run_task_def dest: run_scan_calm with_monitor_calm [OF _ configuration_changed_quiet]
      with_monitor_calm [OF _ lifecycle_event_quiet] with_monitor_calm [OF _ retry_attach_quiet]
      split: main_task.splits prod.splits if_splits)

lemma main_turn_calm: "main_turn env dk d = (d', os) \<Longrightarrow> calm os"
  by (auto simp: main_turn_def dest: run_task_calm split: list.splits if_splits)

text \<open>
  A press that may be: the guard was begun for real and not ended, and right before it the
  intent was recorded, under a rule that is enabled in the settings set last.
\<close>

definition right_press :: "desk_output list \<Rightarrow> nat \<Rightarrow> bool" where
  "right_press seen g \<longleftrightarrow>
     Ended g \<notin> set seen \<and> Begun g False \<in> set seen \<and>
     (\<exists>settings name rule pid app label earlier.
        in_force seen = Some settings \<and> (name, rule) \<in> set (ds_rules settings) \<and> dr_enabled rule \<and>
        seen = earlier @ [By g (Audited ''click.attempt'' pid app (Some name) (Some label)
          ''matched rule; sending AXPress'' True)])"

definition right_presses :: "desk_output list \<Rightarrow> desk_output list \<Rightarrow> bool" where
  "right_presses seen os \<longleftrightarrow>
     (\<forall>pre g x post. os = pre @ By g x # post \<longrightarrow> is_press x \<longrightarrow> right_press (seen @ pre) g)"

lemma right_presses_calm: "calm os \<Longrightarrow> right_presses seen os"
  by (auto simp: right_presses_def)

lemma right_presses_append:
  assumes "right_presses seen os" and "right_presses (seen @ os) os'"
  shows "right_presses seen (os @ os')"
  unfolding right_presses_def
proof (intro allI impI)
  fix pre g x post
  assume eq: "os @ os' = pre @ By g x # post" and x: "is_press x"
  from eq consider us where "os = pre @ us" "us @ os' = By g x # post"
    | us where "pre = os @ us" "os' = us @ By g x # post"
    by (auto simp: append_eq_append_conv2)
  then show "right_press (seen @ pre) g"
  proof cases
    case 1
    show ?thesis
    proof (cases us)
      case Nil
      with 1 have "os' = [] @ By g x # post" and "pre = os" by simp_all
      with assms(2) x show ?thesis unfolding right_presses_def by fastforce
    next
      case (Cons y ys)
      with 1 have "os = pre @ By g x # ys" by simp
      with assms(1) x show ?thesis unfolding right_presses_def by blast
    qed
  next
    case 2
    with assms(2) x show ?thesis unfolding right_presses_def by fastforce
  qed
qed

lemma matched_rule_enabled:
  assumes "matching_button lower ins rules identity w = Inr m"
  shows "\<exists>rule. (mb_rule m, rule) \<in> set (ds_rules rules) \<and> dr_enabled rule"
proof -
  from assms obtain title g where "choose_button lower rules identity title g = Inr m"
    by (auto simp: matching_button_def split: sum.splits)
  then obtain selectors where
    "matching lower rules (fst identity) (snd identity) title (unwrap_or (ga_heading g) []) =
      [(mb_rule m, selectors)]"
    by (auto simp: choose_button_def split: list.splits prod.splits)
  then have "(mb_rule m, selectors) \<in>
      set (matching lower rules (fst identity) (snd identity) title (unwrap_or (ga_heading g) []))"
    by simp
  then show ?thesis by (auto simp: matching_def split: if_splits)
qed

lemma scan_turn_right_presses:
  assumes "desk_inv seen d" and "scan_turn scr stops d = (d', os)"
  shows "right_presses seen os"
  using assms(2)
proof (cases rule: scan_turn_cases)
  case none
  then show ?thesis by (simp add: right_presses_calm)
next
  case (window rs g dry m w ws d1 os1 ends ds st es)
  let ?scr = "scr\<lparr>ws_permit := permitted g d, ws_rules := de_rules d,
    ws_permit_press := permitted g d1\<rparr>"
  note inv1 = desk_inv_stop_guards [OF assms(1) window(4)]
  have kept: "de_scan d1 = Some rs" "de_monitor d1 = Some (g, dry, m)" "de_rules d1 = de_rules d"
    using stop_guards_keeps [OF window(4)] window(1,2) by auto
  have "right_presses (seen @ os1) (map (By g) es)"
    unfolding right_presses_def
  proof (intro allI impI)
    fix pre g' x post
    assume split: "map (By g) es = pre @ By g' x # post" and press: "is_press x"
    then obtain pre0 post0 where es: "es = pre0 @ x # post0" "pre = map (By g) pre0" "g' = g"
      by (auto simp: map_eq_append_conv map_eq_Cons_conv)
    have "preceded (justified_press (rs_env rs) (\<lambda>k. ?scr)) es"
      by (rule scan_window_preceded [where k = 0]) (use window(5) in simp)
    with es(1) press obtain before a where pre0: "pre0 = before @ [a]"
      and "justified_press (rs_env rs) (\<lambda>k. ?scr) a x"
      unfolding preceded_def by blast
    then obtain rules identity w' mt where live: "\<not> sc_dry_run (rs_env rs)" "permitted g d1"
        and rules: "de_rules d = Some rules"
        and mt: "matching_button (sc_lower (rs_env rs)) (ws_first ?scr) rules identity w' = Inr mt"
        and a: "a = Audited ''click.attempt'' (Some (sc_pid (rs_env rs))) (sc_app (rs_env rs))
          (Some (mb_rule mt)) (Some (mb_label mt)) ''matched rule; sending AXPress'' True"
      unfolding justified_press_def by auto
    from matched_rule_enabled [OF mt] obtain rule where
      rule: "(mb_rule mt, rule) \<in> set (ds_rules rules)" "dr_enabled rule" by blast
    have seen: "(seen @ os1) @ pre = ((seen @ os1) @ map (By g) before) @ [By g a]"
      by (simp add: es(2) pre0)
    have "in_force ((seen @ os1) @ pre) = Some rules"
      using inv1 kept(3) rules by (simp add: es(2) in_force_by desk_inv_def del: append_assoc)
    moreover have "Ended g \<notin> set ((seen @ os1) @ pre)"
      using inv1 live(2) by (auto simp: desk_inv_def es(2))
    moreover have "Begun g False \<in> set ((seen @ os1) @ pre)"
      using inv1 kept live(1) by (auto simp: desk_inv_def)
    ultimately show "right_press ((seen @ os1) @ pre) g'"
      unfolding right_press_def es(3) using rule seen unfolding a by blast
  qed
  with right_presses_calm [OF stop_guards_calm [OF window(4)]] show ?thesis
    by (simp add: window(7) right_presses_append)
qed

lemma step_right_presses:
  assumes "desk_inv seen d" and "desk_step env x d = (d', os)"
  shows "right_presses seen os"
proof (cases x)
  case (Service_Starts dry opened settings written)
  obtain r d1 os1 where "start_dialogs dry opened settings written d = (r, d1, os1)"
    by (metis surj_pair)
  with assms Service_Starts show ?thesis
    by (auto simp: desk_step_def intro: right_presses_calm start_dialogs_calm)
next
  case (Scan_Turn scr stops)
  with assms show ?thesis by (auto simp: desk_step_def intro: scan_turn_right_presses)
next
  case (Service_Stops g)
  with assms show ?thesis
    by (auto simp: desk_step_def stop_guard_def Let_def intro!: right_presses_calm split: if_splits)
qed (use assms in \<open>auto simp: desk_step_def intro: right_presses_calm configure_calm main_turn_calm\<close>)

lemma history_right_presses:
  "desk_inv seen d \<Longrightarrow> desk_history env xs d = (d', os) \<Longrightarrow> right_presses seen os"
proof (induction xs arbitrary: seen d d' os)
  case Nil
  then show ?case by (simp add: right_presses_calm)
next
  case (Cons x xs)
  obtain d1 os1 where one: "desk_step env x d = (d1, os1)" by fastforce
  obtain d2 os2 where rest: "desk_history env xs d1 = (d2, os2)" by fastforce
  from Cons.prems one rest step_right_presses [OF Cons.prems(1) one]
    Cons.IH [OF desk_inv_step [OF Cons.prems(1) one] rest]
  show ?case by (auto intro: right_presses_append)
qed


section \<open>A scan that nothing disturbs\<close>

text \<open>
  Turn by turn, such a scan shows and stores exactly what \<open>scan_windows\<close> computes in one go.
\<close>

definition live_script :: "dialog_settings option \<Rightarrow> window_script \<Rightarrow> window_script" where
  "live_script rules scr = scr\<lparr>ws_permit := True, ws_rules := rules, ws_permit_press := True\<rparr>"

lemma queue_effects_keep:
  "de_scan (fold queue_effect es d) = de_scan d \<and> de_monitor (fold queue_effect es d) = de_monitor d \<and>
   de_permits (fold queue_effect es d) = de_permits d \<and> de_rules (fold queue_effect es d) = de_rules d \<and>
   de_status (fold queue_effect es d) = de_status d"
proof (induction es arbitrary: d)
  case (Cons x es)
  then show ?case by (cases x) (auto simp: queue_scan_def on_main_def)
qed simp

lemma finished_scan_turns:
  "de_scan d = None \<Longrightarrow> desk_history env (map (\<lambda>i. Scan_Turn (scr i) []) is) d = (d, [])"
  by (induction "is") (auto simp: desk_step_def scan_turn_def)

lemma undisturbed_scan:
  assumes "de_scan d = Some rs" and "de_monitor d = Some (g, dry, m)" and "permitted g d"
    and "rs_windows rs \<noteq> []"
    and "scan_windows (rs_env rs) (\<lambda>i. live_script (de_rules d) (scr i)) k (rs_windows rs)
      (pr_dialogs (rs_process rs), unwrap_or (de_status d) no_status) = ((ds, st), es)"
  shows "\<exists>d'. desk_history env
      (map (\<lambda>i. Scan_Turn (scr i) []) [k..<k + length (rs_windows rs)]) d = (d', map (By g) es) \<and>
    de_scan d' = None \<and> de_status d' = Some st \<and>
    de_monitor d' = Some (g, dry, m\<lparr>mo_processes := hm_insert (sc_pid (rs_env rs))
      (rs_app rs, (rs_process rs)\<lparr>pr_dialogs := ds, pr_last_error := None\<rparr>) (mo_processes m)\<rparr>)"
  using assms
proof (induction "rs_windows rs" arbitrary: d rs k es)
  case (Cons w ws)
  obtain ends ds1 st1 es1 where one: "scan_window (rs_env rs) (live_script (de_rules d) (scr k)) w
      (pr_dialogs (rs_process rs), unwrap_or (de_status d) no_status) = (ends, (ds1, st1), es1)"
    by (metis surj_pair)
  let ?rs = "rs\<lparr>rs_process := (rs_process rs)\<lparr>pr_dialogs := ds1\<rparr>, rs_windows := if ends then [] else ws\<rparr>"
  define d1 where "d1 = fold queue_effect es1 (d\<lparr>de_status := Some st1, de_scan := Some ?rs\<rparr>)"
  have kept: "de_scan d1 = Some ?rs" "de_monitor d1 = Some (g, dry, m)" "permitted g d1"
      "de_rules d1 = de_rules d" "de_status d1 = Some st1"
    using Cons.prems(2,3) by (auto simp: d1_def queue_effects_keep permitted_def)
  have turn: "desk_step env (Scan_Turn (scr k) []) d = (settle_scan d1, map (By g) es1)"
    using Cons.prems(1-3) one Cons.hyps(2) [symmetric]
    by (simp add: desk_step_def scan_turn_def live_script_def d1_def)
  have range: "[k..<k + length (rs_windows rs)] = k # [Suc k..<Suc k + length ws]"
    using Cons.hyps(2) [symmetric] upt_conv_Cons [of k "k + length (w # ws)"] by simp
  show ?case
  proof (cases "ends \<or> ws = []")
    case True
    with Cons.prems(5) one Cons.hyps(2) [symmetric] have "es = es1" "ds = ds1" "st = st1"
      by (auto split: if_splits)
    moreover from True have none: "de_scan (settle_scan d1) = None"
      using kept by (auto simp: settle_scan_def)
    ultimately show ?thesis
      using True kept by (simp add: range turn finished_scan_turns [OF none])
        (auto simp: settle_scan_def)
  next
    case False
    then have same: "settle_scan d1 = d1" using kept by (simp add: settle_scan_def)
    obtain es2 where rest: "scan_windows (rs_env rs) (\<lambda>i. live_script (de_rules d) (scr i)) (Suc k) ws (ds1, st1) =
        ((ds, st), es2)" and es: "es = es1 @ es2"
      using Cons.prems(5) one Cons.hyps(2) [symmetric] False by (auto split: prod.splits)
    from Cons.hyps(1) [of ?rs d1 "Suc k" es2] kept rest False obtain d' where
      "desk_history env (map (\<lambda>i. Scan_Turn (scr i) []) [Suc k..<Suc k + length ws]) d1 =
        (d', map (By g) es2)" and "de_scan d' = None" and "de_status d' = Some st"
      and "de_monitor d' = Some (g, dry, m\<lparr>mo_processes := hm_insert (sc_pid (rs_env rs))
        (rs_app rs, (rs_process rs)\<lparr>pr_dialogs := ds, pr_last_error := None\<rparr>) (mo_processes m)\<rparr>)"
      by auto
    then show ?thesis by (simp add: range turn same es)
  qed
qed simp


section \<open>Stopping and changing the rules are boundaries\<close>

text \<open>C32: Once \<open>stop\<close> has returned no press of its monitor follows, and once \<open>configure\<close> has
  returned no press follows under a rule that is disabled or gone.  In every history of the
  service - starts, changes of the rules, stops that fall into a scan, notifications, blocks of
  the main loop and answers of the desktop in any order - each press belongs to a monitor
  that was started for real and is not stopped, directly follows its written record, and
  names a rule that is enabled in the settings that were set last.\<close>
theorem stop_and_configure_are_boundaries:
  assumes "desk_history env xs empty_desk = (d, seen @ By g (Pressed w b sig answer) # after)"
  shows "Ended g \<notin> set seen \<and> Begun g False \<in> set seen \<and>
    (\<exists>settings name rule pid app label earlier.
       in_force seen = Some settings \<and> (name, rule) \<in> set (ds_rules settings) \<and> dr_enabled rule \<and>
       seen = earlier @ [By g (Audited ''click.attempt'' pid app (Some name) (Some label)
         ''matched rule; sending AXPress'' True)])"
proof -
  have "right_presses [] (seen @ By g (Pressed w b sig answer) # after)"
    by (rule history_right_presses [OF desk_inv_empty assms])
  then have "right_press ([] @ seen) g"
    unfolding right_presses_def by (metis is_press.simps(1))
  then show ?thesis by (simp add: right_press_def)
qed

definition consent_desk :: desk_env where
  "consent_desk = \<lparr>de_lower = (\<lambda>s. s), de_debug = (\<lambda>e. ''Success'')\<rparr>"

definition consent_events :: "desk_event list" where
  "consent_events =
     [Loop_Begins, Service_Starts False (Inr ()) default_dialog_settings (\<lambda>kind. True),
      Main_Turn consent_desktop, Main_Turn consent_desktop, Main_Turn consent_desktop,
      Main_Turn consent_desktop, Scan_Turn consent_script []]"

definition waiting_desk :: desk where
  "waiting_desk =
     \<lparr>de_running = True, de_tasks = [], de_queued = [], de_status = Some no_clicks,
      de_rules = Some default_dialog_settings, de_permits = [True],
      de_monitor = Some (0, False, \<lparr>mo_processes = [(7, consent_app, waiting_process)], mo_failed = [],
        mo_initialized = True, mo_status = no_clicks\<rparr>),
      de_scan = Some \<lparr>rs_env = consent_env, rs_app = consent_app, rs_process = waiting_process,
        rs_windows = [window_at 0]\<rparr>\<rparr>"

definition opening_effects :: "monitor_effect list" where
  "opening_effects =
     [Audited ''process.discovered'' (Some 7) ''UserNotificationCenter'' None None
        ''initial application snapshot; installing window observer'' True,
      Audited ''process.observed'' (Some 7) ''UserNotificationCenter'' None None
        ''subscribed: AXWindowCreated, AXSheetCreated, AXFocusedWindowChanged; initial window check'' True,
      Queued 7, Queued 7]"

lemma consent_reconciled:
  "reconcile_monitor (\<lambda>e. ''Success'') False ruled_desktop
     (new_monitor\<lparr>mo_status := no_status\<lparr>do_state := ''starting''\<rparr>\<rparr>) =
   (waiting_monitor, opening_effects)"
  by (simp add: reconcile_monitor_def drop_unobserved_def new_monitor_def hm_retain_def hm_values_def
      ruled_desktop_def consent_desktop_def attach_def consent_app_def new_process_def
      process_subscriptions_def process_notifications_def is_transient_def is_subscribed_def
      hm_insert_def hm_get_def hm_remove_def hm_keys_def waiting_process_def monitor_state_def
      no_clicks_def no_status_def Let_def observed_app_def observes_def default_dialog_settings_def
      default_dialog_rule_def consent_system app_audit_def opening_effects_def waiting_monitor_def)

lemma ruled_script:
  "permitted g d \<Longrightarrow> de_rules d = Some default_dialog_settings \<Longrightarrow>
   desk_script g d consent_desktop = ruled_desktop"
  by (simp add: desk_script_def ruled_desktop_def consent_desktop_def)

definition installed_desk :: desk where
  "installed_desk =
     \<lparr>de_running = True, de_tasks = [Scan_Task 0], de_queued = [0],
      de_status = Some (no_status\<lparr>do_state := ''starting''\<rparr>),
      de_rules = Some default_dialog_settings, de_permits = [True],
      de_monitor = Some (0, False, new_monitor), de_scan = None\<rparr>"

lemma consent_installed:
  "\<exists>os. desk_history consent_desk (take 4 consent_events) empty_desk = (installed_desk, os)"
  by (simp add: consent_events_def desk_step_def start_dialogs_def configure_dialogs_def start_monitor_def
      empty_desk_def Let_def on_main_def set_state_def main_turn_def run_task_def with_monitor_def
      permitted_def queue_scan_def installed_desk_def)

lemma consent_waiting:
  "main_turn consent_desk consent_desktop installed_desk =
    (waiting_desk\<lparr>de_tasks := [Scan_Task 7], de_queued := [7], de_scan := None\<rparr>,
     map (By 0) opening_effects)"
  by (simp add: main_turn_def run_task_def run_scan_def installed_desk_def with_monitor_def
      ruled_script permitted_def consent_desk_def consent_reconciled)
    (simp add: opening_effects_def queue_scan_def on_main_def waiting_desk_def waiting_monitor_def)

lemma consent_begun:
  "main_turn consent_desk consent_desktop
     (waiting_desk\<lparr>de_tasks := [Scan_Task 7], de_queued := [7], de_scan := None\<rparr>) = (waiting_desk, [])"
  by (simp add: main_turn_def run_task_def run_scan_def waiting_desk_def permitted_def
      consent_desktop_def hm_get_def consent_process_def begin_scan_def close_absent_def
      waiting_process_def map_filter_def settle_scan_def scan_env_of_def consent_env_def
      consent_desk_def consent_app_def)

lemma consent_turn:
  "\<exists>d. scan_turn consent_script [] waiting_desk =
     (d, map (By 0) (found_effects @
        Pressed (window_at 0) (window_at 2) (mb_signature consent_match) Success # sent_effects))"
proof -
  have "consent_script\<lparr>ws_permit := True, ws_rules := Some default_dialog_settings,
      ws_permit_press := True\<rparr> = consent_script"
    by (simp add: consent_script_def)
  then show ?thesis
    by (simp add: scan_turn_def waiting_desk_def permitted_def waiting_process_def consent_window)
qed

lemma desk_history_append:
  "desk_history env (xs @ ys) d =
     (case desk_history env xs d of (d1, os1) \<Rightarrow>
        (case desk_history env ys d1 of (d2, os2) \<Rightarrow> (d2, os1 @ os2)))"
  by (induction xs arbitrary: d) (auto split: prod.splits)

lemma consent_pressed:
  "\<exists>d seen after. desk_history consent_desk consent_events empty_desk =
     (d, seen @ By 0 (Pressed (window_at 0) (window_at 2) (mb_signature consent_match) Success) # after)"
proof -
  obtain os where opened: "desk_history consent_desk (take 4 consent_events) empty_desk = (installed_desk, os)"
    using consent_installed by blast
  obtain d where turn: "scan_turn consent_script [] waiting_desk =
     (d, map (By 0) (found_effects @
        Pressed (window_at 0) (window_at 2) (mb_signature consent_match) Success # sent_effects))"
    using consent_turn by blast
  have split: "consent_events = take 4 consent_events @
      [Main_Turn consent_desktop, Main_Turn consent_desktop, Scan_Turn consent_script []]"
    by (simp add: consent_events_def)
  have "desk_history consent_desk (take 4 consent_events @
      [Main_Turn consent_desktop, Main_Turn consent_desktop, Scan_Turn consent_script []]) empty_desk =
      (d, (os @ map (By 0) (opening_effects @ found_effects)) @
        By 0 (Pressed (window_at 0) (window_at 2) (mb_signature consent_match) Success) #
        map (By 0) sent_effects)"
    by (simp add: desk_history_append opened desk_step_def consent_waiting consent_begun turn)
  then have "desk_history consent_desk consent_events empty_desk =
      (d, (os @ map (By 0) (opening_effects @ found_effects)) @
        By 0 (Pressed (window_at 0) (window_at 2) (mb_signature consent_match) Success) #
        map (By 0) sent_effects)"
    by (simp only: split [symmetric])
  then show ?thesis by blast
qed

theorem stop_and_configure_are_boundaries_witness:
  "\<exists>d seen after. desk_history consent_desk consent_events empty_desk =
     (d, seen @ By 0 (Pressed (window_at 0) (window_at 2) (mb_signature consent_match) Success) # after) \<and>
     Ended 0 \<notin> set seen \<and> Begun 0 False \<in> set seen \<and>
     (\<exists>settings. in_force seen = Some settings)"
  using consent_pressed stop_and_configure_are_boundaries by blast

end
