(* ===== verification/Watchlist.thy ===== *)
theory Watchlist
  imports Config
begin

text \<open>
  The watch list of \<open>state.rs\<close> (\<open>WatchlistStore\<close>): the document on disk and its operations,
  which load it, change it and write it back.  \<open>ch\<close> is the calendar arithmetic, \<open>c\<close> the
  JSON codec, \<open>rf\<close> and \<open>fault\<close> the outcomes of reading and writing the file.
\<close>


section \<open>The document and its changes\<close>

record watchlist =
  wl_version :: u32
  wl_targets :: "watch_target list"
  wl_excluded :: "string set"

definition default_watchlist :: watchlist where
  "default_watchlist = \<lparr>wl_version = 4, wl_targets = [], wl_excluded = {}\<rparr>"

definition add_target :: "watch_target \<Rightarrow> watchlist \<Rightarrow> bool \<times> watchlist" where
  "add_target target doc =
     (let same = (\<lambda>entry. target_key entry = target_key target);
          added = \<not> list_ex same (wl_targets doc)
      in (added,
          doc\<lparr>wl_excluded := wl_excluded doc - {target_key target},
              wl_targets :=
                (if list_ex same (wl_targets doc)
                 then update_first same
                   (\<lambda>existing. existing
                      \<lparr>wt_added_at := wt_added_at target, wt_source := Manual,
                       wt_label := (if wt_label target \<noteq> None then wt_label target
                                    else wt_label existing)\<rparr>)
                   (wl_targets doc)
                 else wl_targets doc @ [target])\<rparr>))"

definition remove_target :: "string \<Rightarrow> watchlist \<Rightarrow> bool \<times> watchlist" where
  "remove_target key doc =
     (let kept = filter (\<lambda>t. target_key t \<noteq> key) (wl_targets doc)
      in (length (wl_targets doc) \<noteq> length kept,
          doc\<lparr>wl_targets := kept, wl_excluded := insert key (wl_excluded doc)\<rparr>))"

definition touch :: "session \<Rightarrow> watch_target \<Rightarrow> watch_target" where
  "touch s t = t\<lparr>wt_title := Some (se_title s),
                wt_last_activity_at := opt_max (wt_last_activity_at t) (se_updated_at s)\<rparr>"

definition discovered :: "timestamp \<Rightarrow> session \<Rightarrow> watch_target" where
  "discovered now s =
     \<lparr>wt_source = Automatic, wt_provider = se_provider s, wt_session_id = se_id s,
      wt_label = None, wt_title = Some (se_title s), wt_added_at = now,
      wt_last_activity_at = se_updated_at s\<rparr>"

definition updated_since :: "timestamp \<Rightarrow> session \<Rightarrow> bool" where
  "updated_since cutoff s \<longleftrightarrow>
     (case se_updated_at s of None \<Rightarrow> False | Some updated \<Rightarrow> updated \<ge> cutoff)"

text \<open>The index of every key; a key that occurs twice has its last position.\<close>

definition positions_of :: "watch_target list \<Rightarrow> (string, nat) dict" where
  "positions_of ts =
     foldl (\<lambda>m (i, t). hm_insert (target_key t) i m) [] (zip [0..<length ts] ts)"

definition discover_step ::
    "string set \<Rightarrow> timestamp \<Rightarrow> timestamp \<Rightarrow> watch_target list \<times> (string, nat) dict \<Rightarrow> session \<Rightarrow>
     watch_target list \<times> (string, nat) dict" where
  "discover_step excluded now cutoff = (\<lambda>(ts, positions) s.
     if session_key s \<in> excluded then (ts, positions)
     else case hm_get positions (session_key s) of
       Some i \<Rightarrow> (ts[i := touch s (ts ! i)], positions)
     | None \<Rightarrow>
         if updated_since cutoff s
         then (ts @ [discovered now s], hm_insert (session_key s) (length ts) positions)
         else (ts, positions))"

definition retained :: "string set \<Rightarrow> timestamp \<Rightarrow> watch_target \<Rightarrow> bool" where
  "retained protected cutoff t \<longleftrightarrow>
     target_key t \<in> protected \<or> inactivity_since t None \<ge> cutoff"

definition reconcile_targets ::
    "session list \<Rightarrow> timestamp \<Rightarrow> timestamp \<Rightarrow> string set \<Rightarrow> watchlist \<Rightarrow> watchlist" where
  "reconcile_targets sessions now cutoff protected doc =
     (let ts = fst (foldl (discover_step (wl_excluded doc) now cutoff)
                     (wl_targets doc, positions_of (wl_targets doc)) sessions)
      in doc\<lparr>wl_targets := filter (retained protected cutoff) ts\<rparr>)"


section \<open>The store\<close>

definition watchlist_load ::
    "('b, watchlist) codec \<Rightarrow> location \<Rightarrow> string option \<Rightarrow> 'b option \<Rightarrow> watchlist result" where
  "watchlist_load c loc rf file =
     bindR (load_json_or_default c loc rf default_watchlist file)
       (\<lambda>doc. if wl_version doc \<noteq> 4
          then bail (''unsupported watchlist version '' @ show_nat (unat (wl_version doc)) @
            ''; this release requires version 4'')
          else Inr doc)"

definition watchlist_list ::
    "('b, watchlist) codec \<Rightarrow> location \<Rightarrow> string option \<Rightarrow> 'b option \<Rightarrow> watch_target list result" where
  "watchlist_list c loc rf file =
     bindR (watchlist_load c loc rf file) (\<lambda>doc. Inr (wl_targets doc))"

definition watchlist_add ::
    "('b, watchlist) codec \<Rightarrow> location \<Rightarrow> string option \<Rightarrow> 'b fault \<Rightarrow> watch_target \<Rightarrow> 'b option \<Rightarrow>
     bool result \<times> 'b option" where
  "watchlist_add c loc rf fault target file =
     (case watchlist_load c loc rf file of
        Inl e \<Rightarrow> (Inl e, file)
      | Inr doc \<Rightarrow>
          (let (added, doc') = add_target target doc
           in case save_document c loc fault doc' file of
                (Inl e, file') \<Rightarrow> (Inl e, file')
              | (Inr _, file') \<Rightarrow> (Inr added, file')))"

definition watchlist_remove ::
    "('b, watchlist) codec \<Rightarrow> location \<Rightarrow> string option \<Rightarrow> 'b fault \<Rightarrow> string \<Rightarrow> 'b option \<Rightarrow>
     bool result \<times> 'b option" where
  "watchlist_remove c loc rf fault key file =
     (case watchlist_load c loc rf file of
        Inl e \<Rightarrow> (Inl e, file)
      | Inr doc \<Rightarrow>
          (let (removed, doc') = remove_target key doc
           in case save_document c loc fault doc' file of
                (Inl e, file') \<Rightarrow> (Inl e, file')
              | (Inr _, file') \<Rightarrow> (Inr removed, file')))"

definition watchlist_reconcile ::
    "chrono \<Rightarrow> ('b, watchlist) codec \<Rightarrow> location \<Rightarrow> string option \<Rightarrow> 'b fault \<Rightarrow> session list \<Rightarrow>
     timestamp \<Rightarrow> int \<Rightarrow> string set \<Rightarrow> 'b option \<Rightarrow> watch_target list result \<times> 'b option" where
  "watchlist_reconcile ch c loc rf fault sessions now stale_after protected file =
     (case watchlist_load c loc rf file of
        Inl e \<Rightarrow> (Inl e, file)
      | Inr doc \<Rightarrow>
          (case minus_seconds ch now stale_after of
             Inl e \<Rightarrow> (Inl e, file)
           | Inr cutoff \<Rightarrow>
               (let doc' = reconcile_targets sessions now cutoff protected doc
                in if doc' \<noteq> doc
                   then case save_document c loc fault doc' file of
                          (Inl e, file') \<Rightarrow> (Inl e, file')
                        | (Inr _, file') \<Rightarrow> (Inr (wl_targets doc'), file')
                   else (Inr (wl_targets doc'), file))))"


section \<open>Keys and exclusions\<close>

definition watchlist_inv :: "watchlist \<Rightarrow> bool" where
  "watchlist_inv doc \<longleftrightarrow>
     wl_version doc = 4 \<and> distinct (map target_key (wl_targets doc)) \<and>
     target_key ` set (wl_targets doc) \<inter> wl_excluded doc = {}"

lemma target_key_touch [simp]: "target_key (touch s t) = target_key t"
  by (simp add: target_key_def touch_def)

lemma target_key_discovered [simp]: "target_key (discovered now s) = session_key s"
  by (simp add: target_key_def discovered_def session_key_def)

lemma target_key_add_update [simp]:
  "target_key (t\<lparr>wt_added_at := a, wt_source := b, wt_label := l\<rparr>) = target_key t"
  by (simp add: target_key_def)

lemma default_watchlist_inv [invariant_intros]: "watchlist_inv default_watchlist"
  by (simp add: watchlist_inv_def default_watchlist_def)

lemma add_target_keys:
  "target_key ` set (wl_targets (snd (add_target t doc))) =
     insert (target_key t) (target_key ` set (wl_targets doc))"
proof -
  have "target_key ` set (update_first P f xs) = target_key ` set xs"
    if "\<And>x. P x \<Longrightarrow> target_key (f x) = target_key x" for P f and xs :: "watch_target list"
    using map_update_first [of P target_key f xs] that by (metis set_map)
  then show ?thesis
    by (auto simp: add_target_def Let_def list_ex_iff intro: rev_image_eqI)
qed

lemma add_target_excluded [simp]:
  "wl_excluded (snd (add_target t doc)) = wl_excluded doc - {target_key t}"
  by (simp add: add_target_def Let_def)

lemma add_target_inv [invariant_intros]: "watchlist_inv doc \<Longrightarrow> watchlist_inv (snd (add_target t doc))"
  using add_target_keys [of t doc]
  by (auto simp: watchlist_inv_def add_target_def Let_def list_ex_iff)

lemma add_target_added: "fst (add_target t doc) \<longleftrightarrow> target_key t \<notin> target_key ` set (wl_targets doc)"
  by (auto simp: add_target_def Let_def list_ex_iff image_iff)

lemma remove_target_simps [simp]:
  "wl_excluded (snd (remove_target k doc)) = insert k (wl_excluded doc)"
  "set (wl_targets (snd (remove_target k doc))) = {t \<in> set (wl_targets doc). target_key t \<noteq> k}"
  by (auto simp: remove_target_def Let_def)

lemma remove_target_inv [invariant_intros]: "watchlist_inv doc \<Longrightarrow> watchlist_inv (snd (remove_target k doc))"
  by (auto simp: watchlist_inv_def remove_target_def Let_def intro: distinct_map_filter)

lemma remove_target_removed: "fst (remove_target k doc) \<longleftrightarrow> k \<in> target_key ` set (wl_targets doc)"
proof -
  have "length (filter (\<lambda>t. target_key t = k) (wl_targets doc)) > 0 \<longleftrightarrow>
      k \<in> target_key ` set (wl_targets doc)"
    by (auto simp: filter_empty_conv)
  then show ?thesis
    using sum_length_filter_compl [of "\<lambda>t. target_key t \<noteq> k" "wl_targets doc"]
    by (auto simp: remove_target_def Let_def)
qed

text \<open>The position map of a discovery pass: every key of the list and where it is.\<close>

definition positions_ok :: "watch_target list \<times> (string, nat) dict \<Rightarrow> bool" where
  "positions_ok = (\<lambda>(ts, ps).
     (\<forall>k i. hm_get ps k = Some i \<longrightarrow> i < length ts \<and> target_key (ts ! i) = k) \<and>
     (\<forall>t \<in> set ts. hm_get ps (target_key t) \<noteq> None))"

lemma positions_of_snoc:
  "positions_of (ts @ [t]) = hm_insert (target_key t) (length ts) (positions_of ts)"
  by (simp add: positions_of_def)

lemma positions_ok_of: "positions_ok (ts, positions_of ts)"
proof (induction ts rule: rev_induct)
  case Nil
  then show ?case by (simp add: positions_ok_def positions_of_def hm_get_def)
next
  case (snoc t ts)
  then show ?case
    by (auto simp: positions_ok_def positions_of_snoc hash.get_insert nth_append less_Suc_eq)
qed

lemma discover_step_ok:
  assumes "positions_ok p"
  shows "positions_ok (discover_step excluded now cutoff p s)"
proof -
  obtain ts ps where p: "p = (ts, ps)" by (cases p)
  show ?thesis
  proof (cases "hm_get ps (session_key s)")
    case None
    with assms show ?thesis
      by (auto simp: p positions_ok_def discover_step_def hash.get_insert nth_append less_Suc_eq
          split: if_splits)
  next
    case (Some i)
    then have i: "i < length ts" "target_key (ts ! i) = session_key s"
      using assms by (auto simp: p positions_ok_def)
    then have keys: "map target_key (ts[i := touch s (ts ! i)]) = map target_key ts"
      by (simp add: map_list_update_same)
    have "target_key (ts[i := touch s (ts ! i)] ! j) = target_key (ts ! j)" if "j < length ts" for j
      using that keys by (metis length_list_update nth_map)
    moreover have "\<forall>t \<in> set (ts[i := touch s (ts ! i)]). target_key t \<in> target_key ` set ts"
      using keys by (metis image_eqI set_map)
    ultimately show ?thesis
      using assms Some by (fastforce simp: p positions_ok_def discover_step_def)
  qed
qed

lemma discover_step_keys:
  assumes "positions_ok p"
  shows "map target_key (fst (discover_step excluded now cutoff p s)) =
    map target_key (fst p) @
      (if session_key s \<notin> excluded \<and> session_key s \<notin> target_key ` set (fst p) \<and>
          updated_since cutoff s
       then [session_key s] else [])"
proof -
  obtain ts ps where p: "p = (ts, ps)" by (cases p)
  have found: "hm_get ps (session_key s) \<noteq> None \<longleftrightarrow> session_key s \<in> target_key ` set ts"
  proof
    assume "hm_get ps (session_key s) \<noteq> None"
    then obtain i where "i < length ts" and "target_key (ts ! i) = session_key s"
      using assms by (auto simp: p positions_ok_def)
    then show "session_key s \<in> target_key ` set ts" by (metis image_eqI nth_mem)
  next
    assume "session_key s \<in> target_key ` set ts"
    then show "hm_get ps (session_key s) \<noteq> None"
      using assms by (auto simp: p positions_ok_def)
  qed
  have "map target_key (ts[i := touch s (ts ! i)]) = map target_key ts"
    if "hm_get ps (session_key s) = Some i" for i
    using assms that by (intro map_list_update_same) (auto simp: p positions_ok_def)
  then show ?thesis
    using found by (cases "hm_get ps (session_key s)") (simp_all add: p discover_step_def)
qed

lemma discover_ok:
  "positions_ok p \<Longrightarrow> positions_ok (foldl (discover_step excluded now cutoff) p sessions)"
  by (induction sessions arbitrary: p) (simp_all add: discover_step_ok)

lemma discover_distinct:
  "positions_ok p \<Longrightarrow> distinct (map target_key (fst p)) \<Longrightarrow>
   target_key ` set (fst p) \<inter> excluded = {} \<Longrightarrow>
     distinct (map target_key (fst (foldl (discover_step excluded now cutoff) p sessions))) \<and>
     target_key ` set (fst (foldl (discover_step excluded now cutoff) p sessions)) \<inter> excluded = {}"
proof (induction sessions arbitrary: p)
  case (Cons s sessions)
  have keys: "map target_key (fst (discover_step excluded now cutoff p s)) =
      map target_key (fst p) @
      (if session_key s \<notin> excluded \<and> session_key s \<notin> target_key ` set (fst p) \<and>
          updated_since cutoff s then [session_key s] else [])"
    using Cons.prems(1) by (rule discover_step_keys)
  then have "distinct (map target_key (fst (discover_step excluded now cutoff p s)))"
    using Cons.prems(2) by simp
  moreover have "target_key ` set (fst (discover_step excluded now cutoff p s)) \<inter> excluded = {}"
    using Cons.prems(3) arg_cong [OF keys, of set] by (auto split: if_splits)
  ultimately show ?case
    using Cons.IH [OF discover_step_ok [OF Cons.prems(1)]] by simp
qed simp

lemma reconcile_targets_inv [invariant_intros]:
  assumes "watchlist_inv doc"
  shows "watchlist_inv (reconcile_targets sessions now cutoff protected doc)"
proof -
  have "positions_ok (wl_targets doc, positions_of (wl_targets doc))"
    by (rule positions_ok_of)
  then show ?thesis
    using assms discover_distinct [of "(wl_targets doc, positions_of (wl_targets doc))"
        "wl_excluded doc" now cutoff sessions]
    by (auto simp: watchlist_inv_def reconcile_targets_def Let_def intro: distinct_map_filter)
qed

lemma reconcile_targets_frame [simp]:
  "wl_excluded (reconcile_targets sessions now cutoff protected doc) = wl_excluded doc"
  "wl_version (reconcile_targets sessions now cutoff protected doc) = wl_version doc"
  by (simp_all add: reconcile_targets_def Let_def)

lemma add_remove_version [simp]:
  "wl_version (snd (add_target t doc)) = wl_version doc"
  "wl_version (snd (remove_target k doc)) = wl_version doc"
  by (simp_all add: add_target_def remove_target_def Let_def)


section \<open>What a reconciliation does to one key\<close>

definition target_at :: "watch_target list \<Rightarrow> string \<Rightarrow> watch_target option" where
  "target_at ts k = hm_get (map (\<lambda>t. (target_key t, t)) ts) k"

text \<open>The effect of one session on the target with key \<open>k\<close>, if it is watched.\<close>

fun observe_session ::
    "timestamp \<Rightarrow> timestamp \<Rightarrow> string \<Rightarrow> watch_target option \<Rightarrow> session \<Rightarrow> watch_target option" where
  "observe_session now cutoff k (Some t) s = (if session_key s = k then Some (touch s t) else Some t)"
| "observe_session now cutoff k None s =
     (if session_key s = k \<and> updated_since cutoff s then Some (discovered now s) else None)"

lemma target_at_Some:
  "distinct (map target_key ts) \<Longrightarrow> target_at ts k = Some t \<longleftrightarrow> t \<in> set ts \<and> target_key t = k"
  using hash.get_mem [of "map (\<lambda>t. (target_key t, t)) ts" k t]
  by (auto simp: target_at_def hm_wf_def comp_def)

lemma target_at_None: "target_at ts k = None \<longleftrightarrow> k \<notin> target_key ` set ts"
  by (auto simp: target_at_def hm_get_def map_of_eq_None_iff image_image)

lemma target_at_snoc:
  "target_at (ts @ [t]) k =
     (case target_at ts k of Some u \<Rightarrow> Some u | None \<Rightarrow> if target_key t = k then Some t else None)"
  by (simp add: target_at_def hm_get_def map_add_def split: option.splits)

lemma target_at_filter:
  assumes "distinct (map target_key ts)"
  shows "target_at (filter P ts) k =
    (case target_at ts k of None \<Rightarrow> None | Some t \<Rightarrow> if P t then Some t else None)"
proof -
  let ?m = "map (\<lambda>t. (target_key t, t)) ts"
  have "target_at (filter P ts) k = hm_get (hm_retain (\<lambda>_ t. P t) ?m) k"
    by (simp add: target_at_def hm_retain_def filter_map comp_def)
  moreover have "hm_wf ?m"
    using assms by (simp add: hm_wf_def comp_def)
  ultimately show ?thesis
    by (simp add: hash.get_retain target_at_def)
qed

lemma discover_step_at:
  assumes "positions_ok p" and "distinct (map target_key (fst p))"
  shows "target_at (fst (discover_step excluded now cutoff p s)) k =
    (if session_key s \<in> excluded then target_at (fst p) k
     else observe_session now cutoff k (target_at (fst p) k) s)"
proof -
  obtain ts ps where p: "p = (ts, ps)" by (cases p)
  show ?thesis
  proof (cases "hm_get ps (session_key s)")
    case None
    then have "target_at ts (session_key s) = None"
      using assms(1) by (force simp: p positions_ok_def target_at_None)
    with None show ?thesis
      by (cases "target_at ts k") (auto simp: p discover_step_def target_at_snoc)
  next
    case (Some i)
    then have i: "i < length ts" "target_key (ts ! i) = session_key s"
      using assms(1) by (auto simp: p positions_ok_def)
    let ?ts = "ts[i := touch s (ts ! i)]"
    have keys: "map target_key ?ts = map target_key ts"
      using i by (simp add: map_list_update_same)
    have d: "distinct (map target_key ts)" using assms(2) by (simp add: p)
    then have d': "distinct (map target_key ?ts)" by (simp only: keys)
    have "target_at ?ts k = observe_session now cutoff k (target_at ts k) s"
    proof (cases "session_key s = k")
      case True
      have "touch s (ts ! i) \<in> set ?ts" using i(1) by (simp add: set_update_memI)
      then have "target_at ?ts k = Some (touch s (ts ! i))"
        using True i(2) by (simp add: target_at_Some [OF d'])
      moreover have "target_at ts k = Some (ts ! i)"
        using True i by (simp add: target_at_Some [OF d])
      ultimately show ?thesis using True by simp
    next
      case False
      have "t \<in> set ?ts \<longleftrightarrow> t \<in> set ts" if "target_key t = k" for t
        using that False i by (metis in_set_conv_nth length_list_update nth_list_update_eq
          nth_list_update_neq target_key_touch)
      then have "target_at ?ts k = Some t \<longleftrightarrow> target_at ts k = Some t" for t
        by (auto simp: target_at_Some [OF d] target_at_Some [OF d'])
      then have "target_at ?ts k = target_at ts k" by (metis option.exhaust)
      with False show ?thesis by (cases "target_at ts k") simp_all
    qed
    with Some show ?thesis by (simp add: p discover_step_def)
  qed
qed

lemma observe_session_other: "session_key s \<noteq> k \<Longrightarrow> observe_session now cutoff k x s = x"
  by (cases x) simp_all

lemma discover_at:
  assumes "positions_ok p" and "distinct (map target_key (fst p))"
    and "target_key ` set (fst p) \<inter> excluded = {}"
  shows "target_at (fst (foldl (discover_step excluded now cutoff) p sessions)) k =
    (if k \<in> excluded then None
     else foldl (observe_session now cutoff k) (target_at (fst p) k) sessions)"
  using assms
proof (induction sessions arbitrary: p)
  case Nil
  then show ?case by (auto simp: target_at_None)
next
  case (Cons s sessions)
  let ?q = "discover_step excluded now cutoff p s"
  have "distinct (map target_key (fst ?q)) \<and> target_key ` set (fst ?q) \<inter> excluded = {}"
    using discover_distinct [OF Cons.prems, of now cutoff "[s]"] by simp
  moreover have "observe_session now cutoff k x s = x"
    if "session_key s \<in> excluded" "k \<notin> excluded" for x
    using that by (auto intro: observe_session_other)
  ultimately show ?case
    using Cons.IH [OF discover_step_ok [OF Cons.prems(1)]] discover_step_at [OF Cons.prems(1,2)]
    by (cases "session_key s \<in> excluded") auto
qed

lemma reconcile_targets_at:
  assumes "watchlist_inv doc"
  shows "target_at (wl_targets (reconcile_targets sessions now cutoff protected doc)) k =
    (case (if k \<in> wl_excluded doc then None
           else foldl (observe_session now cutoff k) (target_at (wl_targets doc) k) sessions) of
       None \<Rightarrow> None
     | Some t \<Rightarrow> if retained protected cutoff t then Some t else None)"
proof -
  let ?p = "(wl_targets doc, positions_of (wl_targets doc))"
  let ?ts = "fst (foldl (discover_step (wl_excluded doc) now cutoff) ?p sessions)"
  have "positions_ok ?p" by (rule positions_ok_of)
  moreover have "distinct (map target_key (fst ?p))" "target_key ` set (fst ?p) \<inter> wl_excluded doc = {}"
    using assms by (simp_all add: watchlist_inv_def)
  ultimately have "distinct (map target_key ?ts)"
    and "target_at ?ts k = (if k \<in> wl_excluded doc then None
      else foldl (observe_session now cutoff k) (target_at (wl_targets doc) k) sessions)"
    using discover_distinct [of ?p "wl_excluded doc" now cutoff sessions]
      discover_at [of ?p "wl_excluded doc" now cutoff sessions k] by simp_all
  then show ?thesis
    by (simp add: reconcile_targets_def Let_def target_at_filter)
qed


lemma observed_key:
  "foldl (observe_session now cutoff k) x sessions = Some t \<Longrightarrow>
     (\<forall>u. x = Some u \<longrightarrow> target_key u = k) \<Longrightarrow> target_key t = k"
proof (induction sessions arbitrary: x)
  case (Cons s sessions)
  show ?case
  proof (rule Cons.IH)
    show "foldl (observe_session now cutoff k) (observe_session now cutoff k x s) sessions = Some t"
      using Cons.prems(1) by simp
    show "\<forall>u. observe_session now cutoff k x s = Some u \<longrightarrow> target_key u = k"
      using Cons.prems(2) by (cases x) auto
  qed
qed simp

lemma discover_step_excluded:
  assumes "k \<in> excluded" and "positions_ok p" and "k \<notin> target_key ` set (fst p)"
  shows "k \<notin> target_key ` set (fst (discover_step excluded now cutoff p s))"
  using arg_cong [OF discover_step_keys [OF assms(2), of excluded now cutoff s], of set] assms(1,3)
  by (auto split: if_splits)

lemma reconcile_excluded:
  assumes "k \<in> wl_excluded doc" and "target_at (wl_targets doc) k = None"
  shows "target_at (wl_targets (reconcile_targets sessions now cutoff protected doc)) k = None"
proof -
  have "k \<notin> target_key ` set (fst (foldl (discover_step (wl_excluded doc) now cutoff) p sessions))"
    if "positions_ok p" and "k \<notin> target_key ` set (fst p)" for p
    using that
    by (induction sessions arbitrary: p)
      (simp_all add: discover_step_ok discover_step_excluded [OF assms(1)])
  from this [OF positions_ok_of, of "wl_targets doc"] assms(2) show ?thesis
    by (auto simp: reconcile_targets_def Let_def target_at_None)
qed


section \<open>Histories of the file\<close>

datatype watch_op =
    WatchAdd watch_target
  | WatchRemove string
  | WatchReconcile "session list" timestamp int "string set"

text \<open>One call of the store, with the outcomes of reading and writing.\<close>

fun watch_exec ::
    "chrono \<Rightarrow> ('b, watchlist) codec \<Rightarrow> location \<Rightarrow> 'b option \<Rightarrow>
     watch_op \<times> string option \<times> 'b fault \<Rightarrow> 'b option" where
  "watch_exec ch c loc file (WatchAdd t, rf, fault) = snd (watchlist_add c loc rf fault t file)"
| "watch_exec ch c loc file (WatchRemove k, rf, fault) = snd (watchlist_remove c loc rf fault k file)"
| "watch_exec ch c loc file (WatchReconcile sessions now stale protected, rf, fault) =
     snd (watchlist_reconcile ch c loc rf fault sessions now stale protected file)"

fun adds_key :: "string \<Rightarrow> watch_op \<Rightarrow> bool" where
  "adds_key k (WatchAdd t) \<longleftrightarrow> target_key t = k"
| "adds_key k _ \<longleftrightarrow> False"

lemma watchlist_load_fault:
  "watchlist_load c loc rf file = Inr doc \<Longrightarrow> watchlist_load c loc None file = Inr doc"
  by (auto simp: watchlist_load_def load_json_or_default_def load_document_def bindR_Inr_iff
      split: option.splits if_splits sum.splits)

lemma watchlist_load_version: "watchlist_load c loc rf file = Inr doc \<Longrightarrow> wl_version doc = 4"
  by (auto simp: watchlist_load_def bindR_Inr_iff split: if_splits)

lemma watchlist_load_saved:
  assumes "codec_ok c" and "save_document c loc fault doc file = (Inr (), file')" and "wl_version doc = 4"
  shows "watchlist_load c loc None file' = Inr doc"
  using load_after_save [OF assms(1,2)] assms(3)
  by (simp add: watchlist_load_def load_json_or_default_def)

text \<open>
  Every call either leaves the file as it is or replaces the document in it by the
  result of one of the three pure operations.
\<close>

fun watch_apply :: "chrono \<Rightarrow> watch_op \<Rightarrow> watchlist \<Rightarrow> watchlist" where
  "watch_apply ch (WatchAdd t) doc = snd (add_target t doc)"
| "watch_apply ch (WatchRemove k) doc = snd (remove_target k doc)"
| "watch_apply ch (WatchReconcile sessions now stale protected) doc =
     (case minus_seconds ch now stale of
        Inl e \<Rightarrow> doc
      | Inr cutoff \<Rightarrow> reconcile_targets sessions now cutoff protected doc)"

lemma watch_apply_inv [invariant_intros]: "watchlist_inv doc \<Longrightarrow> watchlist_inv (watch_apply ch op doc)"
  by (cases op) (auto intro: invariant_intros split: sum.splits)

lemma watch_apply_version: "wl_version (watch_apply ch op doc) = wl_version doc"
  by (cases op) (auto split: sum.splits)

lemma save_step:
  assumes "codec_ok c" and "wl_version doc = 4" and "save_document c loc fault doc file = (r, file')"
  shows "file' = file \<or> watchlist_load c loc None file' = Inr doc"
proof (cases r)
  case (Inl e)
  with assms(3) show ?thesis by (auto dest: save_document_Inl)
next
  case (Inr u)
  with assms(3) have "save_document c loc fault doc file = (Inr (), file')" by simp
  from watchlist_load_saved [OF assms(1) this assms(2)] show ?thesis ..
qed

lemma watch_exec_step:
  assumes "codec_ok c"
  shows "watch_exec ch c loc file (op, rf, fault) = file \<or>
    (\<exists>doc. watchlist_load c loc None file = Inr doc \<and>
       watchlist_load c loc None (watch_exec ch c loc file (op, rf, fault)) =
         Inr (watch_apply ch op doc))"
proof (cases "watchlist_load c loc rf file")
  case (Inl e)
  then show ?thesis
    by (cases op) (simp_all add: watchlist_add_def watchlist_remove_def watchlist_reconcile_def)
next
  case (Inr doc)
  then have doc: "watchlist_load c loc None file = Inr doc" and ver: "wl_version doc = 4"
    by (auto dest: watchlist_load_fault watchlist_load_version)
  obtain r file' where save: "save_document c loc fault (watch_apply ch op doc) file = (r, file')"
    by (meson surj_pair)
  have saved: "file' = file \<or> watchlist_load c loc None file' = Inr (watch_apply ch op doc)"
    by (rule save_step [OF assms _ save]) (simp add: watch_apply_version ver)
  have "watch_exec ch c loc file (op, rf, fault) \<in> {file, file'}"
    using Inr save
    by (cases op)
      (auto simp: watchlist_add_def watchlist_remove_def watchlist_reconcile_def Let_def
        split: prod.splits sum.splits if_splits)
  with saved doc show ?thesis by auto
qed

text \<open>A predicate of documents that the operations keep holds of the file throughout.\<close>

lemma watch_history:
  assumes "codec_ok c" and "watchlist_load c loc None start = Inr doc" and "P doc"
    and "\<And>op doc. op \<in> fst ` set ops \<Longrightarrow> P doc \<Longrightarrow> P (watch_apply ch op doc)"
  shows "\<exists>doc'. watchlist_load c loc None (foldl (watch_exec ch c loc) start ops) = Inr doc' \<and> P doc'"
  using assms(2-)
proof (induction ops arbitrary: start doc)
  case (Cons a ops)
  obtain op rf fault where a: "a = (op, rf, fault)" by (cases a)
  have "\<exists>doc'. watchlist_load c loc None (watch_exec ch c loc start a) = Inr doc' \<and> P doc'"
    using watch_exec_step [OF assms(1), of ch loc start op rf fault] Cons.prems a by auto
  then obtain doc' where "watchlist_load c loc None (watch_exec ch c loc start a) = Inr doc'" "P doc'"
    by blast
  from Cons.IH [OF this] Cons.prems(3) show ?case by simp
qed auto


section \<open>Properties\<close>

text \<open>Whatever calls are made on the watch list, in any order, with any of their reads
  and writes failing, the file keeps a document of the supported version in which every
  session is watched at most once and no excluded session is watched.\<close>
lemma watchlist_invariant_always:
  assumes "codec_ok c" and "watchlist_load c loc None start = Inr doc" and "watchlist_inv doc"
  shows "\<exists>doc'. watchlist_load c loc None (foldl (watch_exec ch c loc) start ops) = Inr doc' \<and>
    watchlist_inv doc'"
  by (rule watch_history [where P = watchlist_inv, OF assms]) (rule watch_apply_inv)

text \<open>C6: A removal by the user persists: once \<open>remove\<close> has returned, no discovery pass and no
  other call brings the session back, until the user adds it again.\<close>
theorem removal_persists:
  assumes "codec_ok c" and "watchlist_remove c loc rf fault k start = (Inr r, file)"
    and "\<forall>op \<in> fst ` set ops. \<not> adds_key k op"
  shows "\<exists>doc. watchlist_load c loc None (foldl (watch_exec ch c loc) file ops) = Inr doc \<and>
    k \<in> wl_excluded doc \<and> k \<notin> target_key ` set (wl_targets doc)"
proof -
  let ?P = "\<lambda>doc. k \<in> wl_excluded doc \<and> target_at (wl_targets doc) k = None"
  from assms(2) obtain doc where doc: "watchlist_load c loc rf start = Inr doc"
    and "save_document c loc fault (snd (remove_target k doc)) start = (Inr (), file)"
    by (auto simp: watchlist_remove_def Let_def split: sum.splits prod.splits)
  then have "watchlist_load c loc None file = Inr (snd (remove_target k doc))"
    by (intro watchlist_load_saved [OF assms(1)]) (auto dest: watchlist_load_version)
  moreover have "?P (snd (remove_target k doc))"
    by (auto simp: target_at_None)
  moreover have "?P (watch_apply ch op d)" if "op \<in> fst ` set ops" and "?P d" for op d
  proof (cases op)
    case (WatchAdd t)
    with assms(3) that(1) have "target_key t \<noteq> k" by force
    with that(2) WatchAdd show ?thesis
      using add_target_keys [of t d] by (simp add: target_at_None)
  next
    case (WatchRemove k')
    with that show ?thesis by (auto simp: target_at_None)
  next
    case (WatchReconcile sessions now stale protected)
    with that show ?thesis
      by (auto simp: reconcile_excluded split: sum.splits)
  qed
  ultimately have "\<exists>doc. watchlist_load c loc None (foldl (watch_exec ch c loc) file ops) = Inr doc \<and> ?P doc"
    by (intro watch_history [where P = ?P, OF assms(1)])
  then show ?thesis by (simp add: target_at_None)
qed

theorem removal_persists_witness:
  "\<exists>doc. watchlist_load id_codec example_location None
      (foldl (watch_exec chrono_reference id_codec example_location)
        (Some (snd (remove_target ''codex:a'' default_watchlist)))
        [(WatchReconcile [] 0 1 {}, None, NoFault)]) = Inr doc \<and>
    ''codex:a'' \<in> wl_excluded doc \<and> ''codex:a'' \<notin> target_key ` set (wl_targets doc)"
proof -
  have removed: "watchlist_remove id_codec example_location None NoFault ''codex:a'' None =
      (Inr False, Some (snd (remove_target ''codex:a'' default_watchlist)))"
    by (simp add: watchlist_remove_def watchlist_load_def load_json_or_default_def
        default_watchlist_def remove_target_def save_document_id)
  show ?thesis
    by (rule removal_persists [OF _ removed]) simp_all
qed

text \<open>C7: A successful discovery pass does to every session exactly what its provider's
  reports say: an excluded session stays unwatched; a watched one gets the reported title
  and the latest activity, its source, label and start unchanged; an unwatched one is
  added when it was active since the cutoff \<open>now - stale_after\<close>; and an entry is kept if
  and only if it is protected or not inactive for longer than that.\<close>
theorem reconcile_refines_key_view:
  assumes "codec_ok c" and "chrono_exact ch"
    and "watchlist_load c loc None start = Inr doc" and "watchlist_inv doc"
    and "watchlist_reconcile ch c loc None fault sessions now stale protected start = (Inr ts, file)"
  shows "watchlist_load c loc None file = Inr (doc\<lparr>wl_targets := ts\<rparr>) \<and>
    target_at ts k =
      (case (if k \<in> wl_excluded doc then None
             else foldl (observe_session now (now - stale * nanos) k)
               (target_at (wl_targets doc) k) sessions) of
         None \<Rightarrow> None
       | Some t \<Rightarrow>
           if k \<in> protected \<or> inactivity_since t None \<ge> now - stale * nanos
           then Some t else None)"
proof -
  from assms(3,5) obtain cutoff where cutoff: "minus_seconds ch now stale = Inr cutoff"
    by (auto simp: watchlist_reconcile_def split: sum.splits)
  let ?doc' = "reconcile_targets sessions now cutoff protected doc"
  have ts: "ts = wl_targets ?doc'"
    and saved: "?doc' = doc \<and> file = start \<or> save_document c loc fault ?doc' start = (Inr (), file)"
    using assms(3,5) cutoff
    by (auto simp: watchlist_reconcile_def Let_def split: if_splits prod.splits sum.splits)
  have doc': "?doc' = doc\<lparr>wl_targets := ts\<rparr>"
    by (simp add: ts reconcile_targets_def Let_def)
  have "watchlist_load c loc None file = Inr ?doc'"
    using saved assms(3) watchlist_load_version [OF assms(3)]
    by (auto intro: watchlist_load_saved [OF assms(1)])
  moreover have "target_key t = k" if "target_at ts k = Some t \<or>
      foldl (observe_session now cutoff k) (target_at (wl_targets doc) k) sessions = Some t" for t
    using that assms(4) reconcile_targets_inv [OF assms(4)]
    by (auto simp: ts watchlist_inv_def target_at_Some dest!: observed_key)
  ultimately show ?thesis
    using reconcile_targets_at [OF assms(4), of sessions now cutoff protected k]
      minus_seconds_exact [OF assms(2) cutoff]
    by (auto simp: doc' ts retained_def split: option.splits)
qed

definition example_session :: session where
  "example_session =
     \<lparr>se_provider = ''codex'', se_id = ''a'', se_title = ''Work'', se_state = SessionIdle,
      se_updated_at = Some 0, se_metadata = JNull\<rparr>"

theorem reconcile_refines_key_view_witness:
  "target_at [discovered 0 example_session] ''codex:a'' = Some (discovered 0 example_session)"
proof -
  let ?ts = "[discovered 0 example_session]"
  let ?file = "Some (default_watchlist\<lparr>wl_targets := ?ts\<rparr>)"
  have load: "watchlist_load id_codec example_location None None = Inr default_watchlist"
    by (simp add: watchlist_load_def load_json_or_default_def default_watchlist_def)
  have "minus_seconds chrono_reference 0 10 = Inr (- 10 * nanos)"
    using minus_seconds_reference [of 10 0] by (simp add: nanos_def)
  moreover have "reconcile_targets [example_session] 0 (- 10 * nanos) {} default_watchlist =
      default_watchlist\<lparr>wl_targets := ?ts\<rparr>"
    by (simp add: reconcile_targets_def discover_step_def default_watchlist_def positions_of_def
        hm_get_def updated_since_def example_session_def nanos_def retained_def discovered_def
        inactivity_since_def)
  ultimately have run: "watchlist_reconcile chrono_reference id_codec example_location None NoFault
      [example_session] 0 10 {} None = (Inr ?ts, ?file)"
    by (simp add: watchlist_reconcile_def load save_document_id default_watchlist_def)
  have key: "session_key example_session = ''codex:a''"
    by (simp add: session_key_def example_session_def)
  show ?thesis
    using reconcile_refines_key_view [OF _ _ load default_watchlist_inv run, of "''codex:a''"]
    by (simp add: key default_watchlist_def target_at_def hm_get_def)
qed

end
