(* ===== verification/Control_State.thy ===== *)
theory Control_State
  imports Storage
begin

text \<open>
  The control revision (\<open>ControlStateStore\<close> of \<open>state.rs\<close>): a counter that is written to
  disk before it is handed out, with which clients detect that the configuration changed.
\<close>

record control_state =
  cs_version :: u32
  cs_revision :: u64

definition revision_after :: "u64 \<Rightarrow> u64" where
  "revision_after r = max (sat_add r 1) 1"

definition next_revision ::
    "('b, control_state) codec \<Rightarrow> location \<Rightarrow> 'b fault \<Rightarrow> control_state \<times> 'b option \<Rightarrow>
     u64 result \<times> (control_state \<times> 'b option)" where
  "next_revision c loc fault = (\<lambda>(st, file).
     let st' = st\<lparr>cs_revision := revision_after (cs_revision st)\<rparr>
     in case save_document c loc fault st' file of
          (Inl e, file') \<Rightarrow> (Inl e, (st'\<lparr>cs_revision := cs_revision st\<rparr>, file'))
        | (Inr _, file') \<Rightarrow> (Inr (cs_revision st'), (st', file')))"

definition control_load ::
    "('b, control_state) codec \<Rightarrow> location \<Rightarrow> string option \<Rightarrow> 'b fault \<Rightarrow> 'b option \<Rightarrow>
     control_state result \<times> 'b option" where
  "control_load c loc rf fault file =
     (let parsed =
        (case file of
           Some bytes \<Rightarrow>
             bindR (load_document c (''cannot read control state '' @ loc_path loc)
                 (''invalid control state '' @ loc_path loc) rf
                 \<lparr>cs_version = 2, cs_revision = 0\<rparr> file)
               (\<lambda>st. if cs_version st \<noteq> 2
                  then bail (''unsupported control state version '' @ show_nat (unat (cs_version st)))
                  else Inr st)
         | None \<Rightarrow> Inr \<lparr>cs_version = 2, cs_revision = 0\<rparr>)
      in case parsed of
           Inl e \<Rightarrow> (Inl e, file)
         | Inr st \<Rightarrow>
             (case next_revision c loc fault (st, file) of
                (Inl e, (_, file')) \<Rightarrow> (Inl e, file')
              | (Inr _, (st', file')) \<Rightarrow> (Inr st', file')))"

interpretation revision: transactional "next_revision c loc" for c loc
  by unfold_locales
    (auto simp: next_revision_def Let_def dest: save_document_Inl split: prod.splits sum.splits)

lemma unat_revision_after: "unat (revision_after r) = min (unat r + 1) u64_max"
proof -
  have "unat (sat_add r 1) = min (unat r + 1) u64_max"
    by (simp add: unat_sat_ops)
  moreover have "1 \<le> sat_add r 1"
    using calculation by (simp add: word_le_nat_alt u64_max_def)
  ultimately show ?thesis
    by (simp add: revision_after_def max_def)
qed

lemma revision_after_bounds:
  "1 \<le> revision_after r" and "r \<le> revision_after r" and
  "unat r < u64_max \<Longrightarrow> r < revision_after r"
  using unat_u64_bound [of r]
  by (simp_all add: word_le_nat_alt word_less_nat_alt unat_revision_after u64_max_def min_def)

lemma next_revision_Inr:
  assumes "codec_ok c" and "next_revision c loc fault (st, file) = (Inr r, (st', file'))"
  shows "r = revision_after (cs_revision st) \<and> st' = st\<lparr>cs_revision := r\<rparr> \<and>
    (\<exists>b. file' = Some b \<and> dec c b = Inr st')"
  using assms(2)
  by (auto simp: next_revision_def Let_def dest: save_document_Inr [OF assms(1)]
      split: prod.splits sum.splits)

lemma next_revision_Inl:
  "next_revision c loc fault (st, file) = (Inl e, (st', file')) \<Longrightarrow> st' = st \<and> file' = file"
  by (drule revision.rollback) simp


section \<open>The revisions a service hands out over its lifetimes\<close>

datatype 'b revision_op =
    Start "string option" "'b fault"
  | Advance "'b fault"

text \<open>
  The store of the running process, if any, and the file; every call reports the revision
  it made current, if it succeeded.
\<close>

fun revision_exec ::
    "('b, control_state) codec \<Rightarrow> location \<Rightarrow> 'b revision_op \<Rightarrow>
     control_state option \<times> 'b option \<Rightarrow> u64 option \<times> (control_state option \<times> 'b option)" where
  "revision_exec c loc (Start rf fault) (mem, file) =
     (case control_load c loc rf fault file of
        (Inl e, file') \<Rightarrow> (None, (None, file'))
      | (Inr st, file') \<Rightarrow> (Some (cs_revision st), (Some st, file')))"
| "revision_exec c loc (Advance fault) (None, file) = (None, (None, file))"
| "revision_exec c loc (Advance fault) (Some st, file) =
     (case next_revision c loc fault (st, file) of
        (Inl e, (st', file')) \<Rightarrow> (None, (Some st', file'))
      | (Inr r, (st', file')) \<Rightarrow> (Some r, (Some st', file')))"

fun revision_trace ::
    "('b, control_state) codec \<Rightarrow> location \<Rightarrow> 'b revision_op list \<Rightarrow>
     control_state option \<times> 'b option \<Rightarrow> u64 list" where
  "revision_trace c loc [] s = []"
| "revision_trace c loc (op # ops) s =
     (case revision_exec c loc op s of
        (None, s') \<Rightarrow> revision_trace c loc ops s'
      | (Some r, s') \<Rightarrow> r # revision_trace c loc ops s')"

text \<open>
  The file holds exactly the last revision handed out, and so does the process; before
  the first one there is neither.
\<close>

fun revision_inv :: "('b, control_state) codec \<Rightarrow> u64 \<Rightarrow> control_state option \<times> 'b option \<Rightarrow> bool" where
  "revision_inv c r (mem, file) \<longleftrightarrow>
     mem = None \<and> file = None \<and> r = 0 \<or>
     (\<exists>b st. file = Some b \<and> dec c b = Inr st \<and> cs_revision st = r) \<and>
     (\<forall>st. mem = Some st \<longrightarrow> cs_revision st = r)"

lemma control_load_next:
  assumes "codec_ok c" and "control_load c loc rf fault file = (res, file')"
  shows "((\<exists>e. res = Inl e) \<and> file' = file) \<or>
    (\<exists>st0 st b. res = Inr st \<and> cs_revision st = revision_after (cs_revision st0) \<and>
       (file = None \<and> cs_revision st0 = 0 \<or> (\<exists>b0. file = Some b0 \<and> dec c b0 = Inr st0)) \<and>
       file' = Some b \<and> dec c b = Inr st)"
proof -
  define parsed where "parsed =
    (case file of
       Some bytes \<Rightarrow>
         bindR (load_document c (''cannot read control state '' @ loc_path loc)
             (''invalid control state '' @ loc_path loc) rf
             \<lparr>cs_version = 2, cs_revision = 0\<rparr> file)
           (\<lambda>st. if cs_version st \<noteq> 2
              then bail (''unsupported control state version '' @ show_nat (unat (cs_version st)))
              else Inr st)
     | None \<Rightarrow> Inr \<lparr>cs_version = 2, cs_revision = 0\<rparr>)"
  show ?thesis
  proof (cases parsed)
    case (Inl e)
    with assms(2) show ?thesis
      by (auto simp: control_load_def parsed_def [symmetric] Let_def)
  next
    case (Inr st0)
    then have st0: "file = None \<and> cs_revision st0 = 0 \<or> (\<exists>b0. file = Some b0 \<and> dec c b0 = Inr st0)"
      by (auto simp: parsed_def bindR_Inr_iff load_document_def
          split: option.splits sum.splits if_splits)
    obtain r st file1 where nxt: "next_revision c loc fault (st0, file) = (r, (st, file1))"
      by (metis surj_pair)
    show ?thesis
    proof (cases r)
      case (Inl e)
      with nxt have "file1 = file" by (auto dest: next_revision_Inl)
      with assms(2) Inr Inl nxt show ?thesis
        by (auto simp: control_load_def parsed_def [symmetric] Let_def)
    next
      case (Inr r')
      with nxt have "cs_revision st = revision_after (cs_revision st0)"
        and "\<exists>b. file1 = Some b \<and> dec c b = Inr st"
        using next_revision_Inr [OF assms(1)] by fastforce+
      with assms(2) \<open>parsed = Inr st0\<close> Inr nxt st0 show ?thesis
        by (auto simp: control_load_def parsed_def [symmetric] Let_def)
    qed
  qed
qed

lemma revision_exec_step:
  assumes "codec_ok c" and "revision_inv c r s" and "revision_exec c loc op s = (out, s')"
  shows "(case out of None \<Rightarrow> revision_inv c r s'
    | Some r' \<Rightarrow> r' = revision_after r \<and> revision_inv c r' s')"
proof -
  obtain mem d where s: "s = (mem, d)" by (cases s)
  show ?thesis
  proof (cases op)
    case (Start rf fault)
    obtain res file1 where load: "control_load c loc rf fault d = (res, file1)"
      by (metis surj_pair)
    from control_load_next [OF assms(1) load] assms(2,3) show ?thesis
      by (auto simp: s Start load)
  next
    case (Advance fault)
    show ?thesis
    proof (cases mem)
      case None
      with assms(2,3) show ?thesis by (auto simp: s Advance)
    next
      case (Some st)
      obtain res st1 file1 where nxt: "next_revision c loc fault (st, d) = (res, (st1, file1))"
        by (metis surj_pair)
      show ?thesis
      proof (cases res)
        case (Inl e)
        with nxt assms(2,3) Some show ?thesis
          by (auto simp: s Advance dest!: next_revision_Inl)
      next
        case (Inr r')
        with nxt have "next_revision c loc fault (st, d) = (Inr r', (st1, file1))" by simp
        from next_revision_Inr [OF assms(1) this] assms(2,3) Some Inr nxt show ?thesis
          by (auto simp: s Advance)
      qed
    qed
  qed
qed

lemma revision_trace_after:
  assumes "codec_ok c" and "revision_inv c r s"
  shows "\<forall>i < length (revision_trace c loc ops s).
    unat (revision_trace c loc ops s ! i) = min (unat r + i + 1) u64_max"
  using assms(2)
proof (induction ops arbitrary: r s)
  case (Cons op ops)
  obtain out s' where exec: "revision_exec c loc op s = (out, s')" by (cases "revision_exec c loc op s")
  note step = revision_exec_step [OF assms(1) Cons.prems exec]
  show ?case
  proof (cases out)
    case None
    with step exec Cons.IH show ?thesis by simp
  next
    case (Some r')
    with step have r': "unat r' = min (unat r + 1) u64_max" and "revision_inv c r' s'"
      by (auto simp: unat_revision_after)
    then show ?thesis
      using Cons.IH [of r' s'] exec Some by (auto simp: nth_Cons split: nat.splits)
  qed
qed simp


section \<open>Properties\<close>

text \<open>C8: Revisions strictly increase over every history of the service - restarts, failed
  reads and failed writes included: the i-th revision handed out is the last recorded one
  plus \<open>i + 1\<close>, until the counter saturates, so a revision is never handed out twice.\<close>
theorem revisions_strictly_increase:
  assumes "codec_ok c" and "revision_inv c r s" and "i < length (revision_trace c loc ops s)"
  shows "unat (revision_trace c loc ops s ! i) = min (unat r + i + 1) u64_max"
  using revision_trace_after [OF assms(1,2)] assms(3) by blast

theorem revisions_strictly_increase_witness:
  "unat (revision_trace id_codec \<lparr>loc_path = ''c'', loc_parent = Some ''p''\<rparr>
      [Start None NoFault, Advance (SyncFails ''full''), Advance NoFault] (None, None) ! 1) = 2"
proof -
  let ?t = "revision_trace id_codec \<lparr>loc_path = ''c'', loc_parent = Some ''p''\<rparr>
      [Start None NoFault, Advance (SyncFails ''full''), Advance NoFault] (None, None)"
  have "length ?t = 2"
    by (simp add: control_load_def next_revision_def save_document_def atomic_write_def
        atomic_write_trace_def Let_def)
  then have "1 < length ?t" by simp
  from revisions_strictly_increase [OF _ _ this, of 0] show ?thesis
    by (simp only: id_codec_simps revision_inv.simps) (simp add: u64_max_def)
qed

end
