(* ===== verification/Daemon_Control.thy ===== *)
theory Daemon_Control
  imports Watchlist Control_State Engine_Ops Protocol
begin

text \<open>
  The control plane of the service (\<open>WatchcatDaemon\<close> of \<open>daemon.rs\<close>): the requests that read
  and change the watch list and the settings, the control revision and the recovery
  permit they move, the reload of a configuration edited by hand, and the two halves of a
  reconciliation that enclose a pass of the engine.  Files, their faults, the clock and
  the parts of serde that only produce text are arguments.
\<close>


section \<open>State and environment\<close>

text \<open>
  \<open>dm_config_stamp\<close> is the modification time the configuration file has, \<open>dm_config_modified\<close>
  the one the service remembers; \<open>dm_dialogs\<close> is what the dialog monitor was last
  configured with.
\<close>

record 'b daemon =
  dm_watchlist :: "'b option"
  dm_control :: control_state
  dm_control_file :: "'b option"
  dm_config :: "'b option"
  dm_config_stamp :: "nat option"
  dm_config_modified :: "nat option"
  dm_settings :: settings
  dm_permit :: permit
  dm_attention :: "string list"
  dm_metrics :: recovery_metrics
  dm_dialogs :: dialog_settings

record snapshot =
  sn_generated_at :: timestamp
  sn_revision :: u64
  sn_service_online :: bool
  sn_watched :: nat
  sn_attention :: nat
  sn_attention_target_keys :: "string list"
  sn_automatic_recoveries :: nat
  sn_hands_free_percent :: "8 word"
  sn_os_permissions :: json

record 'b daemon_env =
  de_watchlist_codec :: "('b, watchlist) codec"
  de_control_codec :: "('b, control_state) codec"
  de_settings_codec :: "('b, settings) codec"
  de_runtime_codec :: "('b, runtime_state) codec"
  de_watchlist_loc :: location
  de_control_loc :: location
  de_config_loc :: location
  de_runtime_loc :: location
  de_chrono :: chrono
  de_month_start :: "timestamp \<Rightarrow> timestamp"
  de_message :: serde_error
  de_dialogs_of :: "json \<Rightarrow> dialog_settings option"
  de_targets_json :: "watch_target list \<Rightarrow> json"
  de_target_json :: "watch_target \<Rightarrow> json"
  de_policies_json :: "resolved_policy list \<Rightarrow> json"
  de_settings_json :: "settings \<Rightarrow> json"
  de_snapshot_json :: "snapshot \<Rightarrow> json"
  de_version :: string

text \<open>
  What a request meets on the way, in order: the clock, the reads of the watch list (the
  one that precedes a new revision, the one of the change itself, the one that follows),
  the writes of the revision, of the watch list and of the configuration, the
  configuration's modification time after its write, and the dialog monitor's status.
\<close>

record 'b daemon_io =
  io_now :: timestamp
  io_read_before :: "string option"
  io_read_change :: "string option"
  io_read_after :: "string option"
  io_revision :: "'b fault"
  io_watchlist :: "'b fault"
  io_config :: "'b fault"
  io_stamp :: "nat option"
  io_status :: json

definition revision :: "'b daemon \<Rightarrow> u64" where
  "revision d = cs_revision (dm_control d)"

definition list_targets ::
    "'b daemon_env \<Rightarrow> string option \<Rightarrow> 'b daemon \<Rightarrow> watch_target list result" where
  "list_targets env rf d =
     watchlist_list (de_watchlist_codec env) (de_watchlist_loc env) rf (dm_watchlist d)"

definition update_recovery_permit :: "watch_target list \<Rightarrow> 'b daemon \<Rightarrow> 'b daemon" where
  "update_recovery_permit targets d =
     d\<lparr>dm_permit := permit_update True targets (revision d) (dm_permit d)\<rparr>"

definition bump_revision ::
    "'b daemon_env \<Rightarrow> string option \<Rightarrow> 'b fault \<Rightarrow> 'b daemon \<Rightarrow> unit result \<times> 'b daemon" where
  "bump_revision env rf fault d =
     (case list_targets env rf d of
        Inl e \<Rightarrow> (Inl e, d)
      | Inr targets \<Rightarrow>
          (case next_revision (de_control_codec env) (de_control_loc env) fault
              (dm_control d, dm_control_file d) of
             (Inl e, (st, f)) \<Rightarrow> (Inl e, d\<lparr>dm_control := st, dm_control_file := f\<rparr>)
           | (Inr _, (st, f)) \<Rightarrow>
               (Inr (), update_recovery_permit targets
                  (d\<lparr>dm_control := st, dm_control_file := f\<rparr>))))"


section \<open>Starting\<close>

definition sorted_keys :: "string set \<Rightarrow> string list" where
  "sorted_keys ks = sorted_list_of_set ks"

text \<open>\<open>rf1\<close> to \<open>rf4\<close> are the reads of the four files, \<open>fault\<close> the write of the first revision.\<close>

definition daemon_load ::
    "'b daemon_env \<Rightarrow> timestamp \<Rightarrow> string option \<Rightarrow> string option \<Rightarrow> string option \<Rightarrow>
     string option \<Rightarrow> 'b fault \<Rightarrow> 'b option \<Rightarrow> 'b option \<Rightarrow> 'b option \<Rightarrow> 'b option \<Rightarrow>
     nat option \<Rightarrow> 'b daemon result \<times> 'b option" where
  "daemon_load env now rf1 rf2 rf3 rf4 fault config wlist rstate control stamp =
     (case load_settings (de_settings_codec env) (de_config_loc env) rf1 config of
        Inl e \<Rightarrow> (Inl e, control)
      | Inr s \<Rightarrow>
     (case watchlist_list (de_watchlist_codec env) (de_watchlist_loc env) rf2 wlist of
        Inl e \<Rightarrow> (Inl e, control)
      | Inr targets \<Rightarrow>
     (case runtime_load (de_runtime_codec env) (de_runtime_loc env) rf3 rstate of
        Inl e \<Rightarrow> (Inl e, control)
      | Inr st \<Rightarrow>
     (case control_load (de_control_codec env) (de_control_loc env) rf4 fault control of
        (Inl e, control') \<Rightarrow> (Inl e, control')
      | (Inr cs, control') \<Rightarrow>
          (Inr \<lparr>dm_watchlist = wlist, dm_control = cs, dm_control_file = control',
                dm_config = config, dm_config_stamp = stamp, dm_config_modified = stamp,
                dm_settings = s, dm_permit = permit_new True targets (cs_revision cs),
                dm_attention = sorted_keys (pending_target_keys st),
                dm_metrics = metrics_since (de_month_start env now) st,
                dm_dialogs = st_dialogs s\<rparr>,
           control')))))"

definition build_engine ::
    "'b daemon_env \<Rightarrow> string option \<Rightarrow> string option \<Rightarrow> 'b option \<Rightarrow> bool \<Rightarrow> 'b daemon \<Rightarrow>
     engine result" where
  "build_engine env rf1 rf2 rstate dry_run d =
     bindR (list_targets env rf1 d) (\<lambda>targets.
     bindR (runtime_load (de_runtime_codec env) (de_runtime_loc env) rf2 rstate) (\<lambda>st.
       Inr \<lparr>en_settings = dm_settings d, en_providers = {}, en_targets = targets, en_state = st,
            en_unresolved = {}, en_dry_run = dry_run\<rparr>))"


section \<open>Requests\<close>

definition check_revision :: "rpc_request \<Rightarrow> 'b daemon \<Rightarrow> unit result" where
  "check_revision request d =
     (case rq_expected_revision request of
        None \<Rightarrow> Inr ()
      | Some expected \<Rightarrow>
          if expected \<noteq> revision d
          then bail (''revision conflict: client has '' @ show_nat (unat expected) @
            '', server has '' @ show_nat (unat (revision d)))
          else Inr ())"

text \<open>\<open>Reverse(last_activity_at.unwrap_or(added_at))\<close>, with a stable sort.\<close>

definition last_seen :: "watch_target \<Rightarrow> timestamp" where
  "last_seen t = unwrap_or (wt_last_activity_at t) (wt_added_at t)"

definition list_sessions ::
    "'b daemon_env \<Rightarrow> 'b daemon_io \<Rightarrow> rpc_request \<Rightarrow> 'b daemon \<Rightarrow> watch_target list result" where
  "list_sessions env io request d =
     bindR (decode (de_message env) ''ManagedSessionQuery'' managed_session_query_of (rq_params request))
       (\<lambda>q. if mq_limit q = 0 then bail ''session limit must be positive''
          else bindR (list_targets env (io_read_before io) d)
            (\<lambda>targets. Inr (take (mq_limit q)
               (sort_key (\<lambda>t. - last_seen t)
                 (filter (\<lambda>t. case mq_provider q of None \<Rightarrow> True | Some p \<Rightarrow> p = wt_provider t)
                   targets)))))"

definition manual_target :: "timestamp \<Rightarrow> session_add \<Rightarrow> watch_target" where
  "manual_target now a =
     \<lparr>wt_source = Manual, wt_provider = sr_provider (sa_session a),
      wt_session_id = sr_session_id (sa_session a), wt_label = sa_label a, wt_title = None,
      wt_added_at = now, wt_last_activity_at = None\<rparr>"

text \<open>The change of the watch list that follows a new revision.\<close>

definition change_watchlist ::
    "'b daemon_env \<Rightarrow> 'b daemon_io \<Rightarrow> ('b option \<Rightarrow> bool result \<times> 'b option) \<Rightarrow> 'b daemon \<Rightarrow>
     bool result \<times> 'b daemon" where
  "change_watchlist env io change d =
     (case bump_revision env (io_read_before io) (io_revision io) d of
        (Inl e, d1) \<Rightarrow> (Inl e, d1)
      | (Inr _, d1) \<Rightarrow>
          (case change (dm_watchlist d1) of
             (Inl e, f) \<Rightarrow> (Inl e, d1\<lparr>dm_watchlist := f\<rparr>)
           | (Inr changed, f) \<Rightarrow>
               (let d2 = d1\<lparr>dm_watchlist := f\<rparr>
                in case list_targets env (io_read_after io) d2 of
                     Inl e \<Rightarrow> (Inl e, d2)
                   | Inr targets \<Rightarrow> (Inr changed, update_recovery_permit targets d2))))"

definition add_session ::
    "'b daemon_env \<Rightarrow> 'b daemon_io \<Rightarrow> rpc_request \<Rightarrow> 'b daemon \<Rightarrow> json result \<times> 'b daemon" where
  "add_session env io request d =
     (case check_revision request d of
        Inl e \<Rightarrow> (Inl e, d)
      | Inr _ \<Rightarrow>
     (case decode (de_message env) ''SessionAdd'' session_add_of (rq_params request) of
        Inl e \<Rightarrow> (Inl e, d)
      | Inr a \<Rightarrow>
          if sa_validate a
          then (bail ''validated sessions.add must use the provider worker'', d)
          else
            (let target = manual_target (io_now io) a
             in case change_watchlist env io (watchlist_add (de_watchlist_codec env)
                    (de_watchlist_loc env) (io_read_change io) (io_watchlist io) target) d of
                  (Inl e, d') \<Rightarrow> (Inl e, d')
                | (Inr added, d') \<Rightarrow>
                    (Inr (json_object
                       [(''added'', JBool added), (''target'', de_target_json env target)]), d'))))"

definition remove_session ::
    "'b daemon_env \<Rightarrow> 'b daemon_io \<Rightarrow> rpc_request \<Rightarrow> 'b daemon \<Rightarrow> json result \<times> 'b daemon" where
  "remove_session env io request d =
     (case check_revision request d of
        Inl e \<Rightarrow> (Inl e, d)
      | Inr _ \<Rightarrow>
     (case decode (de_message env) ''SessionRef'' session_ref_of (rq_params request) of
        Inl e \<Rightarrow> (Inl e, d)
      | Inr s \<Rightarrow>
          (case change_watchlist env io (watchlist_remove (de_watchlist_codec env)
                (de_watchlist_loc env) (io_read_change io) (io_watchlist io) (session_ref_key s)) d of
             (Inl e, d') \<Rightarrow> (Inl e, d')
           | (Inr removed, d') \<Rightarrow> (Inr (json_object [(''removed'', JBool removed)]), d'))))"

text \<open>
  A change of the settings: a new revision, then the file, then the service's own copy;
  \<open>configure\<close> says that the dialog monitor is told.
\<close>

definition commit_settings ::
    "'b daemon_env \<Rightarrow> 'b daemon_io \<Rightarrow> bool \<Rightarrow> string \<Rightarrow> settings \<Rightarrow> 'b daemon \<Rightarrow>
     json result \<times> 'b daemon" where
  "commit_settings env io configure done_key s d =
     (case bump_revision env (io_read_before io) (io_revision io) d of
        (Inl e, d1) \<Rightarrow> (Inl e, d1)
      | (Inr _, d1) \<Rightarrow>
          (case save_settings (de_settings_codec env) (de_config_loc env) (io_config io) s
              (dm_config d1) of
             (Inl e, f) \<Rightarrow> (Inl e, d1\<lparr>dm_config := f\<rparr>)
           | (Inr _, f) \<Rightarrow>
               (Inr (json_object [(done_key, JBool True)]),
                d1\<lparr>dm_config := f, dm_config_stamp := io_stamp io, dm_config_modified := io_stamp io,
                   dm_settings := s,
                   dm_dialogs := (if configure then st_dialogs s else dm_dialogs d1)\<rparr>)))"

definition override_with :: "'a option \<Rightarrow> 'a option \<Rightarrow> 'a option" where
  "override_with new old = (if new \<noteq> None then new else old)"

definition merge_policy :: "policy_override \<Rightarrow> policy_override \<Rightarrow> policy_override" where
  "merge_policy update entry =
     (if po_action update = Some Skip then update
      else entry\<lparr>po_action := override_with (po_action update) (po_action entry),
                 po_backoff := override_with (po_backoff update) (po_backoff entry),
                 po_initial_delay_seconds :=
                   override_with (po_initial_delay_seconds update) (po_initial_delay_seconds entry),
                 po_max_delay_seconds :=
                   override_with (po_max_delay_seconds update) (po_max_delay_seconds entry),
                 po_max_attempts := override_with (po_max_attempts update) (po_max_attempts entry),
                 po_prompt := override_with (po_prompt update) (po_prompt entry)\<rparr>)"

definition set_policy ::
    "'b daemon_env \<Rightarrow> 'b daemon_io \<Rightarrow> rpc_request \<Rightarrow> 'b daemon \<Rightarrow> json result \<times> 'b daemon" where
  "set_policy env io request d =
     (case check_revision request d of
        Inl e \<Rightarrow> (Inl e, d)
      | Inr _ \<Rightarrow>
     (case decode (de_message env) ''PolicyUpdate'' policy_update_of (rq_params request) of
        Inl e \<Rightarrow> (Inl e, d)
      | Inr u \<Rightarrow>
          if \<not> is_known (pu_condition u)
          then (bail (''unknown policy condition: '' @ pu_condition u), d)
          else
            (let s = dm_settings d;
                 entry = unwrap_or (hm_get (st_policies s) (pu_condition u)) default_override
             in commit_settings env io False ''updated''
                  (s\<lparr>st_policies := bt_insert (pu_condition u) (merge_policy (pu_policy u) entry)
                     (st_policies s)\<rparr>) d)))"

definition reset_policies ::
    "'b daemon_env \<Rightarrow> 'b daemon_io \<Rightarrow> rpc_request \<Rightarrow> 'b daemon \<Rightarrow> json result \<times> 'b daemon" where
  "reset_policies env io request d =
     (case check_revision request d of
        Inl e \<Rightarrow> (Inl e, d)
      | Inr _ \<Rightarrow>
          (let s = dm_settings d
           in case get_str ''condition'' (rq_params request) of
                Some condition \<Rightarrow>
                  if \<not> is_known condition
                  then (bail (''unknown policy condition: '' @ condition), d)
                  else commit_settings env io False ''reset''
                    (s\<lparr>st_policies := hm_remove condition (st_policies s)\<rparr>) d
              | None \<Rightarrow>
                  commit_settings env io False ''reset'' (s\<lparr>st_policies := []\<rparr>) d))"

definition set_dialogs ::
    "'b daemon_env \<Rightarrow> 'b daemon_io \<Rightarrow> rpc_request \<Rightarrow> 'b daemon \<Rightarrow> json result \<times> 'b daemon" where
  "set_dialogs env io request d =
     (case check_revision request d of
        Inl e \<Rightarrow> (Inl e, d)
      | Inr _ \<Rightarrow>
     (case decode (de_message env) ''DialogSettings'' (de_dialogs_of env) (rq_params request) of
        Inl e \<Rightarrow> (Inl e, d)
      | Inr dialogs \<Rightarrow>
          (let s = (dm_settings d)\<lparr>st_dialogs := dialogs\<rparr>
           in case validate s of
                Inl e \<Rightarrow> (Inl e, d)
              | Inr _ \<Rightarrow> commit_settings env io True ''updated'' s d)))"

definition set_lifecycle ::
    "'b daemon_env \<Rightarrow> 'b daemon_io \<Rightarrow> rpc_request \<Rightarrow> 'b daemon \<Rightarrow> json result \<times> 'b daemon" where
  "set_lifecycle env io request d =
     (case check_revision request d of
        Inl e \<Rightarrow> (Inl e, d)
      | Inr _ \<Rightarrow>
     (case decode (de_message env) ''LifecycleSettings'' lifecycle_of (rq_params request) of
        Inl e \<Rightarrow> (Inl e, d)
      | Inr lifecycle \<Rightarrow>
          (let s = (dm_settings d)\<lparr>st_lifecycle := lifecycle\<rparr>
           in case validate s of
                Inl e \<Rightarrow> (Inl e, d)
              | Inr _ \<Rightarrow> commit_settings env io False ''updated'' s d)))"

definition take_snapshot ::
    "'b daemon_env \<Rightarrow> 'b daemon_io \<Rightarrow> 'b daemon \<Rightarrow> snapshot result" where
  "take_snapshot env io d =
     bindR (list_targets env (io_read_before io) d) (\<lambda>targets. Inr
       \<lparr>sn_generated_at = io_now io, sn_revision = revision d, sn_service_online = True,
        sn_watched = length targets, sn_attention = length (dm_attention d),
        sn_attention_target_keys = dm_attention d,
        sn_automatic_recoveries = rm_automatic_recoveries (dm_metrics d),
        sn_hands_free_percent = rm_hands_free_percent (dm_metrics d),
        sn_os_permissions = io_status io\<rparr>)"

definition dispatch_control ::
    "'b daemon_env \<Rightarrow> 'b daemon_io \<Rightarrow> rpc_request \<Rightarrow> 'b daemon \<Rightarrow> json result \<times> 'b daemon" where
  "dispatch_control env io request d =
     (let m = rq_method request
      in if m = ''service.ping''
         then (Inr (json_object [(''online'', JBool True), (''version'', JString (de_version env))]), d)
         else if m = ''snapshot.get''
         then (bindR (take_snapshot env io d) (\<lambda>sn. Inr (de_snapshot_json env sn)), d)
         else if m = ''sessions.list''
         then (bindR (list_sessions env io request d) (\<lambda>ts. Inr (de_targets_json env ts)), d)
         else if m = ''sessions.add'' then add_session env io request d
         else if m = ''sessions.remove'' then remove_session env io request d
         else if m = ''config.policies.list''
         then (Inr (de_policies_json env (policies (dm_settings d))), d)
         else if m = ''config.policies.set'' then set_policy env io request d
         else if m = ''config.policies.reset'' then reset_policies env io request d
         else if m = ''config.dialogs.set'' then set_dialogs env io request d
         else if m = ''config.get'' then (Inr (de_settings_json env (dm_settings d)), d)
         else if m = ''config.set_lifecycle'' then set_lifecycle env io request d
         else (bail (''unknown RPC method: '' @ m), d))"

definition error_response :: "string \<Rightarrow> string \<Rightarrow> string \<Rightarrow> 'b daemon \<Rightarrow> rpc_response" where
  "error_response i code message d =
     \<lparr>rsp_version = protocol_version, rsp_id = i, rsp_revision = revision d, rsp_result = None,
      rsp_error = Some \<lparr>re_code = code, re_message = message\<rparr>\<rparr>"

definition handle_control ::
    "'b daemon_env \<Rightarrow> 'b daemon_io \<Rightarrow> rpc_request \<Rightarrow> 'b daemon \<Rightarrow> rpc_response \<times> 'b daemon" where
  "handle_control env io request d =
     (if rq_version request \<noteq> protocol_version
      then (error_response (rq_id request) ''protocol_mismatch''
              (''client protocol '' @ show_nat (unat (rq_version request)) @
               '' is not supported; expected '' @ show_nat (unat protocol_version)) d, d)
      else case dispatch_control env io request d of
        (Inr v, d') \<Rightarrow>
          (\<lparr>rsp_version = protocol_version, rsp_id = rq_id request, rsp_revision = revision d',
            rsp_result = Some v, rsp_error = None\<rparr>, d')
      | (Inl e, d') \<Rightarrow> (error_response (rq_id request) ''request_failed'' (error_chain_text e) d', d'))"

definition is_mutation :: "string \<Rightarrow> bool" where
  "is_mutation m \<longleftrightarrow> m \<in> set
     [''sessions.send'', ''sessions.interrupt'', ''sessions.retry_now'', ''sessions.add'',
      ''sessions.remove'', ''config.policies.set'', ''config.policies.reset'',
      ''config.set_lifecycle'', ''config.dialogs.set'']"

definition requires_recovery_boundary :: "string \<Rightarrow> bool" where
  "requires_recovery_boundary m \<longleftrightarrow> m \<in> set
     [''sessions.remove'', ''config.policies.set'', ''config.policies.reset'']"


section \<open>New revisions\<close>

interpretation bump: transactional "\<lambda>(rf, fault) d. bump_revision env rf fault d" for env
  by unfold_locales
    (auto simp: bump_revision_def dest: next_revision_Inl split: prod.splits sum.splits)

text \<open>The environment's codecs read back what they wrote.\<close>

definition env_ok :: "'b daemon_env \<Rightarrow> bool" where
  "env_ok env \<longleftrightarrow> codec_ok (de_watchlist_codec env) \<and> codec_ok (de_control_codec env) \<and>
     codec_ok (de_settings_codec env) \<and> codec_ok (de_runtime_codec env)"

lemma env_okD:
  assumes "env_ok env"
  shows "codec_ok (de_watchlist_codec env)" and "codec_ok (de_control_codec env)"
    and "codec_ok (de_settings_codec env)" and "codec_ok (de_runtime_codec env)"
  using assms by (simp_all add: env_ok_def)

definition revision_recorded :: "'b daemon_env \<Rightarrow> 'b daemon \<Rightarrow> bool" where
  "revision_recorded env d \<longleftrightarrow>
     (\<exists>b. dm_control_file d = Some b \<and> dec (de_control_codec env) b = Inr (dm_control d))"

definition daemon_inv :: "'b daemon_env \<Rightarrow> 'b daemon \<Rightarrow> bool" where
  "daemon_inv env d \<longleftrightarrow>
     validate (dm_settings d) = Inr () \<and> revision_recorded env d \<and>
     pm_running (dm_permit d) \<and> pm_generation (dm_permit d) = revision d"

lemma daemon_invD:
  assumes "daemon_inv env d"
  shows "validate (dm_settings d) = Inr ()" and "revision_recorded env d"
    and "pm_running (dm_permit d)" and "pm_generation (dm_permit d) = revision d"
  using assms by (simp_all add: daemon_inv_def)

lemma update_recovery_permit_simps [simp]:
  "revision (update_recovery_permit ts d) = revision d"
  "pm_running (dm_permit (update_recovery_permit ts d))"
  "pm_generation (dm_permit (update_recovery_permit ts d)) = revision d"
  "pm_target_keys (dm_permit (update_recovery_permit ts d)) = target_key ` set ts"
  "dm_watchlist (update_recovery_permit ts d) = dm_watchlist d"
  "dm_control (update_recovery_permit ts d) = dm_control d"
  "dm_control_file (update_recovery_permit ts d) = dm_control_file d"
  "dm_config (update_recovery_permit ts d) = dm_config d"
  "dm_config_stamp (update_recovery_permit ts d) = dm_config_stamp d"
  "dm_config_modified (update_recovery_permit ts d) = dm_config_modified d"
  "dm_settings (update_recovery_permit ts d) = dm_settings d"
  "dm_attention (update_recovery_permit ts d) = dm_attention d"
  "dm_metrics (update_recovery_permit ts d) = dm_metrics d"
  "dm_dialogs (update_recovery_permit ts d) = dm_dialogs d"
  by (simp_all add: update_recovery_permit_def permit_update_def revision_def)

lemma revision_frame [simp]:
  "revision (d\<lparr>dm_watchlist := w\<rparr>) = revision d"
  "revision (d\<lparr>dm_permit := p\<rparr>) = revision d"
  "revision (d\<lparr>dm_config := f\<rparr>) = revision d"
  "revision (d\<lparr>dm_config_stamp := t\<rparr>) = revision d"
  "revision (d\<lparr>dm_config_modified := t\<rparr>) = revision d"
  "revision (d\<lparr>dm_settings := s\<rparr>) = revision d"
  "revision (d\<lparr>dm_attention := ks\<rparr>) = revision d"
  "revision (d\<lparr>dm_metrics := m\<rparr>) = revision d"
  "revision (d\<lparr>dm_dialogs := ds\<rparr>) = revision d"
  "revision (d\<lparr>dm_control_file := cf\<rparr>) = revision d"
  "revision (d\<lparr>dm_control := c\<rparr>) = cs_revision c"
  by (simp_all add: revision_def)

lemma bump_revision_Inl: "bump_revision env rf fault d = (Inl e, d') \<Longrightarrow> d' = d"
  using bump.rollback [of env "(rf, fault)"] by simp

text \<open>Everything a successful new revision does.\<close>

lemma bump_revision_Inr:
  assumes "env_ok env" and "bump_revision env rf fault d = (Inr u, d')"
  shows "\<exists>targets. list_targets env rf d = Inr targets \<and>
    d' = update_recovery_permit targets
      (d\<lparr>dm_control := (dm_control d)\<lparr>cs_revision := revision_after (revision d)\<rparr>,
         dm_control_file := dm_control_file d'\<rparr>) \<and>
    revision_recorded env d'"
  using assms(2) next_revision_Inr [OF env_okD(2) [OF assms(1)]]
  by (fastforce simp: bump_revision_def revision_recorded_def revision_def
      split: sum.splits prod.splits)

lemma bump_revision_effect:
  assumes "env_ok env" and "bump_revision env rf fault d = (Inr u, d')"
  shows "revision d' = revision_after (revision d)" and "revision_recorded env d'"
    and "pm_running (dm_permit d')" and "pm_generation (dm_permit d') = revision d'"
    and "dm_watchlist d' = dm_watchlist d" and "dm_settings d' = dm_settings d"
    and "dm_config d' = dm_config d" and "dm_dialogs d' = dm_dialogs d"
    and "dm_config_stamp d' = dm_config_stamp d" and "dm_config_modified d' = dm_config_modified d"
    and "dm_attention d' = dm_attention d" and "dm_metrics d' = dm_metrics d"
proof -
  obtain targets where d': "d' = update_recovery_permit targets
      (d\<lparr>dm_control := (dm_control d)\<lparr>cs_revision := revision_after (revision d)\<rparr>,
         dm_control_file := dm_control_file d'\<rparr>)" and rec: "revision_recorded env d'"
    using bump_revision_Inr [OF assms] by blast
  show "revision_recorded env d'" by (rule rec)
  show "revision d' = revision_after (revision d)" by (subst d') simp
  show "pm_running (dm_permit d')" by (subst d') simp
  show "pm_generation (dm_permit d') = revision d'" by (subst d', subst (2) d') simp
  show "dm_watchlist d' = dm_watchlist d" by (subst d') simp
  show "dm_settings d' = dm_settings d" by (subst d') simp
  show "dm_config d' = dm_config d" by (subst d') simp
  show "dm_dialogs d' = dm_dialogs d" by (subst d') simp
  show "dm_config_stamp d' = dm_config_stamp d" by (subst d') simp
  show "dm_config_modified d' = dm_config_modified d" by (subst d') simp
  show "dm_attention d' = dm_attention d" by (subst d') simp
  show "dm_metrics d' = dm_metrics d" by (subst d') simp
qed


section \<open>What the changes do\<close>

lemma change_watchlist_cases:
  assumes "change_watchlist env io change d = (r, d')"
  obtains (no_revision) e where "r = Inl e" and "d' = d"
    | (failed) e d1 f where "r = Inl e"
      and "bump_revision env (io_read_before io) (io_revision io) d = (Inr (), d1)"
      and "snd (change (dm_watchlist d1)) = f" and "d' = d1\<lparr>dm_watchlist := f\<rparr>"
    | (changed) changed d1 f targets where "r = Inr changed"
      and "bump_revision env (io_read_before io) (io_revision io) d = (Inr (), d1)"
      and "change (dm_watchlist d1) = (Inr changed, f)"
      and "list_targets env (io_read_after io) (d1\<lparr>dm_watchlist := f\<rparr>) = Inr targets"
      and "d' = update_recovery_permit targets (d1\<lparr>dm_watchlist := f\<rparr>)"
proof -
  obtain r1 d1 where b: "bump_revision env (io_read_before io) (io_revision io) d = (r1, d1)"
    by (metis surj_pair)
  obtain r2 f where c: "change (dm_watchlist d1) = (r2, f)" by (metis surj_pair)
  show thesis
  proof (cases r1)
    case (Inl e)
    with assms b bump_revision_Inl [of env _ _ d e d1] show thesis
      by (intro no_revision) (auto simp: change_watchlist_def)
  next
    case ok: (Inr u)
    show thesis
    proof (cases r2)
      case (Inl e)
      with assms b c ok show thesis by (intro failed [of e d1 f]) (auto simp: change_watchlist_def)
    next
      case made: (Inr x)
      show thesis
      proof (cases "list_targets env (io_read_after io) (d1\<lparr>dm_watchlist := f\<rparr>)")
        case (Inl e)
        with assms b c ok made show thesis
          by (intro failed [of e d1 f]) (auto simp: change_watchlist_def Let_def)
      next
        case (Inr targets)
        with assms b c ok made show thesis
          by (intro changed [of x d1 f targets]) (auto simp: change_watchlist_def Let_def)
      qed
    qed
  qed
qed

lemma commit_settings_cases:
  assumes "commit_settings env io configure done_key s d = (r, d')"
  obtains (no_revision) e where "r = Inl e" and "d' = d"
    | (not_saved) e d1 where "r = Inl e"
      and "bump_revision env (io_read_before io) (io_revision io) d = (Inr (), d1)"
      and "d' = d1"
    | (saved) d1 f where "r = Inr (json_object [(done_key, JBool True)])"
      and "bump_revision env (io_read_before io) (io_revision io) d = (Inr (), d1)"
      and "save_settings (de_settings_codec env) (de_config_loc env) (io_config io) s (dm_config d1) =
        (Inr (), f)"
      and "d' = d1\<lparr>dm_config := f, dm_config_stamp := io_stamp io, dm_config_modified := io_stamp io,
        dm_settings := s, dm_dialogs := (if configure then st_dialogs s else dm_dialogs d1)\<rparr>"
proof -
  obtain r1 d1 where b: "bump_revision env (io_read_before io) (io_revision io) d = (r1, d1)"
    by (metis surj_pair)
  obtain r2 f where c: "save_settings (de_settings_codec env) (de_config_loc env) (io_config io) s
      (dm_config d1) = (r2, f)" by (metis surj_pair)
  show thesis
  proof (cases r1)
    case (Inl e)
    with assms b bump_revision_Inl [of env _ _ d e d1] show thesis
      by (intro no_revision) (auto simp: commit_settings_def)
  next
    case ok: (Inr u)
    show thesis
    proof (cases r2)
      case (Inl e)
      then have "f = dm_config d1"
        using c by (auto simp: save_settings_def dest: save_document_Inl split: sum.splits)
      with Inl assms b c ok show thesis
        by (intro not_saved [of e d1]) (auto simp: commit_settings_def)
    next
      case (Inr x)
      with assms b c ok show thesis
        by (intro saved [of d1 f]) (auto simp: commit_settings_def)
    qed
  qed
qed

lemma save_settings_valid:
  "save_settings c loc fault s file = (Inr u, file') \<Longrightarrow> validate s = Inr ()"
  by (auto simp: save_settings_def split: sum.splits)

lemma change_watchlist_inv [invariant_intros]:
  assumes "env_ok env" and "daemon_inv env d" and "change_watchlist env io change d = (r, d')"
  shows "daemon_inv env d'"
  using assms(3)
proof (cases rule: change_watchlist_cases)
  case (failed e d1 f)
  note eff = bump_revision_effect [OF assms(1) failed(2)]
  show ?thesis
    using eff daemon_invD(1) [OF assms(2)] by (simp add: daemon_inv_def failed revision_recorded_def)
next
  case (changed x d1 f targets)
  note eff = bump_revision_effect [OF assms(1) changed(2)]
  show ?thesis
    using eff daemon_invD(1) [OF assms(2)] by (simp add: daemon_inv_def changed revision_recorded_def)
qed (use assms(2) in simp)

lemma commit_settings_inv [invariant_intros]:
  assumes "env_ok env" and "daemon_inv env d" and "commit_settings env io configure k s d = (r, d')"
  shows "daemon_inv env d'"
  using assms(3)
proof (cases rule: commit_settings_cases)
  case (not_saved e d1)
  note eff = bump_revision_effect [OF assms(1) not_saved(2)]
  show ?thesis
    using eff daemon_invD(1) [OF assms(2)] by (simp add: daemon_inv_def not_saved)
next
  case (saved d1 f)
  note eff = bump_revision_effect [OF assms(1) saved(2)]
  show ?thesis
    using eff save_settings_valid [OF saved(3)] by (simp add: daemon_inv_def saved revision_recorded_def)
qed (use assms(2) in simp)

lemma check_revision_Inr:
  "check_revision request d = Inr u \<longleftrightarrow>
     (\<forall>expected. rq_expected_revision request = Some expected \<longrightarrow> expected = revision d)"
  by (auto simp: check_revision_def split: option.splits)

lemma add_session_cases:
  assumes "add_session env io request d = (r, d')"
  obtains (refused) e where "r = Inl e" and "d' = d"
    | (change) a r' where "check_revision request d = Inr ()"
      and "session_add_of (rq_params request) = Some a" and "\<not> sa_validate a"
      and "change_watchlist env io (watchlist_add (de_watchlist_codec env) (de_watchlist_loc env)
        (io_read_change io) (io_watchlist io) (manual_target (io_now io) a)) d = (r', d')"
      and "r = map_sum id (\<lambda>added. json_object [(''added'', JBool added),
        (''target'', de_target_json env (manual_target (io_now io) a))]) r'"
proof (cases "check_revision request d")
  case (Inl e)
  with assms refused show thesis by (auto simp: add_session_def)
next
  case ok: (Inr u)
  show thesis
  proof (cases "decode (de_message env) ''SessionAdd'' session_add_of (rq_params request)")
    case (Inl e)
    with assms ok refused show thesis by (auto simp: add_session_def)
  next
    case (Inr a)
    then have a: "session_add_of (rq_params request) = Some a" by simp
    show thesis
    proof (cases "sa_validate a")
      case True
      with assms ok Inr refused show thesis by (auto simp: add_session_def)
    next
      case False
      obtain r' d1 where run: "change_watchlist env io (watchlist_add (de_watchlist_codec env)
          (de_watchlist_loc env) (io_read_change io) (io_watchlist io) (manual_target (io_now io) a)) d =
          (r', d1)" by (metis surj_pair)
      with assms ok Inr False have "d1 = d'" and "r = map_sum id (\<lambda>added. json_object
          [(''added'', JBool added), (''target'', de_target_json env (manual_target (io_now io) a))]) r'"
        by (auto simp: add_session_def Let_def split: sum.splits)
      with run ok a False change show thesis by simp
    qed
  qed
qed

lemma remove_session_cases:
  assumes "remove_session env io request d = (r, d')"
  obtains (refused) e where "r = Inl e" and "d' = d"
    | (change) s r' where "check_revision request d = Inr ()"
      and "session_ref_of (rq_params request) = Some s"
      and "change_watchlist env io (watchlist_remove (de_watchlist_codec env) (de_watchlist_loc env)
        (io_read_change io) (io_watchlist io) (session_ref_key s)) d = (r', d')"
      and "r = map_sum id (\<lambda>removed. json_object [(''removed'', JBool removed)]) r'"
proof (cases "check_revision request d")
  case (Inl e)
  with assms refused show thesis by (auto simp: remove_session_def)
next
  case ok: (Inr u)
  show thesis
  proof (cases "decode (de_message env) ''SessionRef'' session_ref_of (rq_params request)")
    case (Inl e)
    with assms ok refused show thesis by (auto simp: remove_session_def)
  next
    case (Inr s)
    then have s: "session_ref_of (rq_params request) = Some s" by simp
    obtain r' d1 where run: "change_watchlist env io (watchlist_remove (de_watchlist_codec env)
        (de_watchlist_loc env) (io_read_change io) (io_watchlist io) (session_ref_key s)) d = (r', d1)"
      by (metis surj_pair)
    with assms ok Inr have "d1 = d'"
      and "r = map_sum id (\<lambda>removed. json_object [(''removed'', JBool removed)]) r'"
      by (auto simp: remove_session_def split: sum.splits)
    with run ok s change show thesis by simp
  qed
qed

lemma settings_request_cases:
  assumes "set_policy env io request d = (r, d') \<and> m = ''config.policies.set'' \<or>
    reset_policies env io request d = (r, d') \<and> m = ''config.policies.reset'' \<or>
    set_dialogs env io request d = (r, d') \<and> m = ''config.dialogs.set'' \<or>
    set_lifecycle env io request d = (r, d') \<and> m = ''config.set_lifecycle''"
  obtains (refused) e where "r = Inl e" and "d' = d"
    | (commit) configure k s where "check_revision request d = Inr ()"
      and "commit_settings env io configure k s d = (r, d')"
      and "configure \<longleftrightarrow> m = ''config.dialogs.set''"
      and "\<not> configure \<longrightarrow> st_dialogs s = st_dialogs (dm_settings d)"
proof (cases "check_revision request d")
  case (Inl e)
  with assms refused show thesis
    by (auto simp: set_policy_def reset_policies_def set_dialogs_def set_lifecycle_def)
next
  case (Inr u)
  then have ok: "check_revision request d = Inr ()" by simp
  from assms show thesis
  proof (elim disjE conjE)
    assume "set_policy env io request d = (r, d')" "m = ''config.policies.set''"
    then show thesis
      using refused commit [OF ok, of False] ok
      by (auto simp: set_policy_def Let_def split: sum.splits if_splits)
  next
    assume "reset_policies env io request d = (r, d')" "m = ''config.policies.reset''"
    then show thesis
      using refused commit [OF ok, of False] ok
      by (auto simp: reset_policies_def Let_def split: option.splits if_splits)
  next
    assume "set_dialogs env io request d = (r, d')" "m = ''config.dialogs.set''"
    then show thesis
      using refused commit [OF ok, of True] ok
      by (auto simp: set_dialogs_def Let_def split: sum.splits)
  next
    assume "set_lifecycle env io request d = (r, d')" "m = ''config.set_lifecycle''"
    then show thesis
      using refused commit [OF ok, of False] ok
      by (auto simp: set_lifecycle_def Let_def split: sum.splits)
  qed
qed

text \<open>
  Every request either leaves the service alone, or runs one of the two changes: this is
  the case distinction the properties rest on.
\<close>

lemma dispatch_control_cases:
  assumes "dispatch_control env io request d = (r, d')"
  obtains (quiet) "d' = d" and "is_mutation (rq_method request) \<Longrightarrow> \<exists>e. r = Inl e"
    | (watch) change r' where "change_watchlist env io change d = (r', d')"
      and "rq_method request = ''sessions.add'' \<or> rq_method request = ''sessions.remove''"
      and "\<forall>expected. rq_expected_revision request = Some expected \<longrightarrow> expected = revision d"
      and "(\<exists>e. r = Inl e) \<longleftrightarrow> (\<exists>e. r' = Inl e)"
    | (settings) configure k s where "commit_settings env io configure k s d = (r, d')"
      and "rq_method request \<in> {''config.policies.set'', ''config.policies.reset'',
        ''config.dialogs.set'', ''config.set_lifecycle''}"
      and "\<forall>expected. rq_expected_revision request = Some expected \<longrightarrow> expected = revision d"
      and "configure \<longleftrightarrow> rq_method request = ''config.dialogs.set''"
      and "\<not> configure \<longrightarrow> st_dialogs s = st_dialogs (dm_settings d)"
proof -
  let ?m = "rq_method request"
  consider (add) "?m = ''sessions.add''" | (remove) "?m = ''sessions.remove''"
    | (config) "?m \<in> {''config.policies.set'', ''config.policies.reset'',
        ''config.dialogs.set'', ''config.set_lifecycle''}"
    | (other) "?m \<notin> {''sessions.add'', ''sessions.remove'', ''config.policies.set'',
        ''config.policies.reset'', ''config.dialogs.set'', ''config.set_lifecycle''}"
    by blast
  then show thesis
  proof cases
    case add
    then have "add_session env io request d = (r, d')"
      using assms by (simp add: dispatch_control_def)
    then show thesis
      by (cases rule: add_session_cases)
        (use quiet watch add in \<open>auto simp: check_revision_Inr map_sum_def split: sum.splits\<close>)
  next
    case remove
    then have "remove_session env io request d = (r, d')"
      using assms by (simp add: dispatch_control_def)
    then show thesis
      by (cases rule: remove_session_cases)
        (use quiet watch remove in \<open>auto simp: check_revision_Inr map_sum_def split: sum.splits\<close>)
  next
    case config
    then have "set_policy env io request d = (r, d') \<and> ?m = ''config.policies.set'' \<or>
        reset_policies env io request d = (r, d') \<and> ?m = ''config.policies.reset'' \<or>
        set_dialogs env io request d = (r, d') \<and> ?m = ''config.dialogs.set'' \<or>
        set_lifecycle env io request d = (r, d') \<and> ?m = ''config.set_lifecycle''"
      using assms by (auto simp: dispatch_control_def)
    then show thesis
      by (cases rule: settings_request_cases)
        (use quiet settings config in \<open>auto simp: check_revision_Inr\<close>)
  next
    case other
    then have "d' = d \<and> (is_mutation ?m \<longrightarrow> (\<exists>e. r = Inl e))"
      using assms by (auto simp: dispatch_control_def Let_def is_mutation_def split: if_splits)
    then show thesis using quiet by blast
  qed
qed

lemma dispatch_control_inv:
  assumes "env_ok env" and "daemon_inv env d" and "dispatch_control env io request d = (r, d')"
  shows "daemon_inv env d'"
  using assms(3)
  by (cases rule: dispatch_control_cases)
    (use assms(1,2) in \<open>auto intro: change_watchlist_inv commit_settings_inv\<close>)

lemma handle_control_dispatch:
  assumes "handle_control env io request d = (resp, d')"
  obtains (version) "d' = d" and "rsp_error resp \<noteq> None" and "rsp_revision resp = revision d"
      and "rsp_result resp = None"
    | (run) r where "dispatch_control env io request d = (r, d')" and "rsp_revision resp = revision d'"
      and "rsp_error resp = None \<longleftrightarrow> (\<exists>v. r = Inr v)" and "rsp_result resp = (case r of Inr v \<Rightarrow> Some v | Inl e \<Rightarrow> None)"
proof (cases "rq_version request = protocol_version")
  case False
  with assms version show thesis by (auto simp: handle_control_def error_response_def)
next
  case True
  obtain r d1 where r: "dispatch_control env io request d = (r, d1)" by (metis surj_pair)
  with True assms run [of r] show thesis
    by (cases r) (auto simp: handle_control_def error_response_def)
qed

lemma handle_control_inv [invariant_intros]:
  assumes "env_ok env" and "daemon_inv env d" and "handle_control env io request d = (resp, d')"
  shows "daemon_inv env d'"
  using assms(3)
  by (cases rule: handle_control_dispatch) (use assms(1,2) dispatch_control_inv in auto)

lemma revision_not_allowed:
  assumes "pm_generation p = revision_after r" and "unat r < u64_max"
  shows "\<not> allows p t r"
proof -
  have "unat (revision_after r) \<noteq> unat r"
    using assms(2) by (simp add: unat_revision_after)
  with assms(1) show ?thesis by (auto simp: allows_def)
qed

text \<open>A request that succeeds as a mutation has taken a new revision.\<close>

lemma mutation_bumps:
  assumes "env_ok env" and "dispatch_control env io request d = (Inr v, d')"
    and "is_mutation (rq_method request)"
  shows "revision d' = revision_after (revision d) \<and> pm_generation (dm_permit d') = revision d' \<and>
    revision_recorded env d' \<and>
    (\<forall>expected. rq_expected_revision request = Some expected \<longrightarrow> expected = revision d)"
  using assms(2)
proof (cases rule: dispatch_control_cases)
  case quiet
  with assms(3) show ?thesis by auto
next
  case (watch change r')
  from watch(1) show ?thesis
  proof (cases rule: change_watchlist_cases)
    case (changed x d1 f targets)
    then show ?thesis
      using bump_revision_effect [OF assms(1) changed(2)] watch(3)
      by (simp add: revision_recorded_def)
  qed (use watch(4) in auto)
next
  case (settings configure k s)
  from settings(1) show ?thesis
  proof (cases rule: commit_settings_cases)
    case (saved d1 f)
    then show ?thesis
      using bump_revision_effect [OF assms(1) saved(2)] settings(3)
      by (simp add: revision_recorded_def)
  qed simp_all
qed

lemma watchlist_remove_Inr:
  assumes "codec_ok c" and "watchlist_remove c loc rf fault k start = (Inr r, file)"
  shows "\<exists>doc. watchlist_load c loc rf start = Inr doc \<and> r = fst (remove_target k doc) \<and>
    watchlist_load c loc None file = Inr (snd (remove_target k doc))"
proof -
  from assms(2) obtain doc where doc: "watchlist_load c loc rf start = Inr doc"
    and saved: "save_document c loc fault (snd (remove_target k doc)) start = (Inr (), file)"
    and r: "r = fst (remove_target k doc)"
    by (auto simp: watchlist_remove_def Let_def split: sum.splits prod.splits)
  have "watchlist_load c loc None file = Inr (snd (remove_target k doc))"
    by (rule watchlist_load_saved [OF assms(1) saved])
      (use watchlist_load_version [OF doc] in simp)
  with doc r show ?thesis by blast
qed

lemma list_targets_load:
  "list_targets env rf d = Inr ts \<Longrightarrow>
     \<exists>doc. watchlist_load (de_watchlist_codec env) (de_watchlist_loc env) None (dm_watchlist d) = Inr doc \<and>
       ts = wl_targets doc"
  by (auto simp: list_targets_def watchlist_list_def bindR_Inr_iff dest: watchlist_load_fault)

lemma method_distinct [simp]:
  "rq_method r = ''sessions.remove'' \<Longrightarrow>
     dispatch_control env io r d = remove_session env io r d"
  by (simp add: dispatch_control_def)


section \<open>An example\<close>

datatype example_file =
    WatchFile watchlist
  | ControlFile control_state
  | SettingsFile settings
  | RuntimeFile runtime_state

fun watch_of :: "example_file \<Rightarrow> string + watchlist" where
  "watch_of (WatchFile w) = Inr w" | "watch_of _ = Inl ''not a watch list''"

fun control_of :: "example_file \<Rightarrow> string + control_state" where
  "control_of (ControlFile w) = Inr w" | "control_of _ = Inl ''not a control state''"

fun settings_of :: "example_file \<Rightarrow> string + settings" where
  "settings_of (SettingsFile w) = Inr w" | "settings_of _ = Inl ''not settings''"

fun runtime_of :: "example_file \<Rightarrow> string + runtime_state" where
  "runtime_of (RuntimeFile w) = Inr w" | "runtime_of _ = Inl ''not a runtime state''"

definition example_env :: "example_file daemon_env" where
  "example_env =
     (let place = \<lparr>loc_path = ''dir/f'', loc_parent = Some ''dir''\<rparr>
      in \<lparr>de_watchlist_codec = \<lparr>enc = Inr \<circ> WatchFile, dec = watch_of\<rparr>,
          de_control_codec = \<lparr>enc = Inr \<circ> ControlFile, dec = control_of\<rparr>,
          de_settings_codec = \<lparr>enc = Inr \<circ> SettingsFile, dec = settings_of\<rparr>,
          de_runtime_codec = \<lparr>enc = Inr \<circ> RuntimeFile, dec = runtime_of\<rparr>,
          de_watchlist_loc = place, de_control_loc = place, de_config_loc = place,
          de_runtime_loc = place, de_chrono = chrono_reference, de_month_start = id,
          de_message = (\<lambda>name v. name), de_dialogs_of = (\<lambda>v. None),
          de_targets_json = (\<lambda>ts. JNull), de_target_json = (\<lambda>t. JNull),
          de_policies_json = (\<lambda>ps. JNull), de_settings_json = (\<lambda>s. JNull),
          de_snapshot_json = (\<lambda>s. JNull), de_version = ''1''\<rparr>)"

definition example_io :: "example_file daemon_io" where
  "example_io =
     \<lparr>io_now = 0, io_read_before = None, io_read_change = None, io_read_after = None,
      io_revision = NoFault, io_watchlist = NoFault, io_config = NoFault, io_stamp = Some 1,
      io_status = JNull\<rparr>"

definition example_control :: control_state where
  "example_control = \<lparr>cs_version = 2, cs_revision = 3\<rparr>"

definition example_daemon :: "example_file daemon" where
  "example_daemon =
     \<lparr>dm_watchlist = None, dm_control = example_control,
      dm_control_file = Some (ControlFile example_control), dm_config = None,
      dm_config_stamp = None, dm_config_modified = None, dm_settings = default_settings,
      dm_permit = permit_new True [] 3, dm_attention = [],
      dm_metrics = \<lparr>rm_automatic_recoveries = 0, rm_manual_recoveries = 0,
        rm_failed_recoveries = 0, rm_hands_free_percent = 100\<rparr>,
      dm_dialogs = st_dialogs default_settings\<rparr>"

definition example_request :: "string \<Rightarrow> (string \<times> json) list \<Rightarrow> rpc_request" where
  "example_request m params =
     \<lparr>rq_version = protocol_version, rq_id = ''1'', rq_method = m,
      rq_params = json_object params, rq_expected_revision = Some 3\<rparr>"

lemma example_env_simps [simp]:
  "de_watchlist_codec example_env = \<lparr>enc = Inr \<circ> WatchFile, dec = watch_of\<rparr>"
  "de_control_codec example_env = \<lparr>enc = Inr \<circ> ControlFile, dec = control_of\<rparr>"
  "de_settings_codec example_env = \<lparr>enc = Inr \<circ> SettingsFile, dec = settings_of\<rparr>"
  "de_runtime_codec example_env = \<lparr>enc = Inr \<circ> RuntimeFile, dec = runtime_of\<rparr>"
  "loc_parent (de_control_loc example_env) = Some ''dir''"
  "loc_parent (de_config_loc example_env) = Some ''dir''"
  "loc_parent (de_watchlist_loc example_env) = Some ''dir''"
  "de_chrono example_env = chrono_reference"
  by (simp_all add: example_env_def Let_def)

lemma example_env_ok: "env_ok example_env"
  by (auto simp: env_ok_def codec_ok_def)

lemma example_daemon_inv: "daemon_inv example_env example_daemon"
  by (simp add: daemon_inv_def example_daemon_def revision_recorded_def
      default_settings_valid permit_new_def permit_update_def revision_def example_control_def)

lemma example_list: "list_targets example_env None (example_daemon\<lparr>dm_control := c, dm_control_file := f\<rparr>) = Inr []"
  "list_targets example_env None example_daemon = Inr []"
  by (simp_all add: list_targets_def example_daemon_def watchlist_list_def watchlist_load_def
      load_json_or_default_def default_watchlist_def)

lemma example_bump:
  "\<exists>d1. bump_revision example_env None NoFault example_daemon = (Inr (), d1) \<and>
     dm_watchlist d1 = None \<and> dm_config d1 = None"
proof -
  have "\<exists>st f. next_revision (de_control_codec example_env) (de_control_loc example_env) NoFault
      (dm_control example_daemon, dm_control_file example_daemon) = (Inr (cs_revision st), (st, f))"
    by (simp add: next_revision_def Let_def save_document_def atomic_write_NoFault)
  then obtain st f where "next_revision (de_control_codec example_env) (de_control_loc example_env) NoFault
      (dm_control example_daemon, dm_control_file example_daemon) = (Inr (cs_revision st), (st, f))"
    by blast
  then show ?thesis
    by (simp add: bump_revision_def example_list) (simp add: example_daemon_def)
qed

definition example_remove :: rpc_request where
  "example_remove = example_request ''sessions.remove'' [(''session_id'', JString ''a'')]"

lemma example_remove_runs:
  "rsp_error (fst (handle_control example_env example_io example_remove example_daemon)) = None"
proof -
  obtain d1 where d1: "bump_revision example_env None NoFault example_daemon = (Inr (), d1)"
    and w: "dm_watchlist d1 = None" using example_bump by blast
  have params: "session_ref_of (rq_params example_remove) = Some \<lparr>sr_provider = ''codex'', sr_session_id = ''a''\<rparr>"
    by (simp add: example_remove_def example_request_def session_ref_of_def session_ref_fields_def
        required_def defaulted_def hm_get_def default_provider_def)
  have "\<exists>b f. watchlist_remove (de_watchlist_codec example_env) (de_watchlist_loc example_env) None NoFault
      ''codex:a'' None = (Inr b, Some (WatchFile f)) \<and> wl_version f = 4"
    by (auto simp: watchlist_remove_def watchlist_load_def load_json_or_default_def default_watchlist_def
        remove_target_def save_document_def atomic_write_NoFault)
  then obtain b f where rm: "watchlist_remove (de_watchlist_codec example_env) (de_watchlist_loc example_env)
      None NoFault ''codex:a'' None = (Inr b, Some (WatchFile f))" and v: "wl_version f = 4" by blast
  have "list_targets example_env None (d1\<lparr>dm_watchlist := Some (WatchFile f)\<rparr>) = Inr (wl_targets f)"
    using v by (simp add: list_targets_def watchlist_list_def watchlist_load_def load_json_or_default_def
        load_document_def)
  then have "\<exists>d2. change_watchlist example_env example_io (watchlist_remove (de_watchlist_codec example_env)
      (de_watchlist_loc example_env) None NoFault ''codex:a'') example_daemon = (Inr b, d2)"
    using d1 w rm by (simp add: change_watchlist_def example_io_def Let_def)
  moreover have "check_revision example_remove example_daemon = Inr ()"
    by (simp add: check_revision_def example_remove_def example_request_def example_daemon_def
        revision_def example_control_def)
  ultimately have "\<exists>v d2. remove_session example_env example_io example_remove example_daemon = (Inr v, d2)"
    using params by (auto simp: remove_session_def decode_def session_ref_key_def example_io_def)
  then show ?thesis
    by (auto simp: handle_control_def example_remove_def example_request_def)
qed

section \<open>Properties\<close>



text \<open>The control plane refuses a mutation based on an outdated revision and changes nothing.\<close>

lemma stale_control_request:
  assumes "is_mutation (rq_method request)" and "rq_expected_revision request = Some r"
    and "r \<noteq> revision d"
  shows "\<exists>resp. handle_control env io request d = (resp, d) \<and> rsp_error resp \<noteq> None \<and>
    rsp_result resp = None \<and> rsp_revision resp = revision d"
proof -
  obtain resp d' where h: "handle_control env io request d = (resp, d')" by (metis surj_pair)
  then show ?thesis
  proof (cases rule: handle_control_dispatch)
    case version
    with h show ?thesis by simp
  next
    case (run q)
    from run(1) have "d' = d \<and> (\<exists>e. q = Inl e)"
      by (cases rule: dispatch_control_cases) (use assms in auto)
    with run h show ?thesis by auto
  qed
qed

text \<open>C16: When the removal of a session has been answered, the session is no longer watched, is
  excluded from discovery, and the permit the service then holds lets nothing be sent to
  it under any revision: no step of an automatic pass and no manual retry that reads this
  permit when it is about to send asks the provider to resume the session.  The messages a
  user sends directly do not depend on the watch list and do not consult the permit.\<close>
theorem removed_session_not_authorised:
  assumes "env_ok env" and "rq_method request = ''sessions.remove''"
    and "handle_control env io request d = (resp, d')" and "rsp_error resp = None"
  shows "\<exists>s doc. session_ref_of (rq_params request) = Some s \<and>
    watchlist_load (de_watchlist_codec env) (de_watchlist_loc env) None (dm_watchlist d') = Inr doc \<and>
    session_ref_key s \<in> wl_excluded doc \<and>
    session_ref_key s \<notin> target_key ` set (wl_targets doc) \<and>
    pm_target_keys (dm_permit d') = target_key ` set (wl_targets doc) \<and>
    (\<forall>t g. target_key t = session_ref_key s \<longrightarrow> \<not> allows (dm_permit d') t g) \<and>
    (\<forall>ch g now t scr pa r pa'. target_key t = session_ref_key s \<longrightarrow> ts_permit_send scr = dm_permit d' \<longrightarrow>
       target_step ch g now t scr pa = (r, pa') \<longrightarrow>
       (\<exists>new. pa_effects pa' = pa_effects pa @ new \<and> list_all (\<lambda>x. \<not> is_resume x) new)) \<and>
    (\<forall>ch g now automatic scr en r en' es. ms_permit_send scr = dm_permit d' \<longrightarrow>
       retry_now ch (sr_provider s) (sr_session_id s) now automatic g scr en = (r, en', es) \<longrightarrow>
       list_all (\<lambda>x. \<not> is_resume x) es)"
  using assms(3)
proof (cases rule: handle_control_dispatch)
  case version
  with assms(4) show ?thesis by simp
next
  case (run r)
  with assms(2,4) obtain v where "remove_session env io request d = (Inr v, d')" by auto
  then show ?thesis
  proof (cases rule: remove_session_cases)
    case (change s r')
    from change(3) show ?thesis
    proof (cases rule: change_watchlist_cases)
      case (changed removed d1 f targets)
      from watchlist_remove_Inr [OF env_okD(1) [OF assms(1)] changed(3)] obtain doc where
        doc: "watchlist_load (de_watchlist_codec env) (de_watchlist_loc env) None f =
          Inr (snd (remove_target (session_ref_key s) doc))" by blast
      let ?doc = "snd (remove_target (session_ref_key s) doc)"
      from list_targets_load [OF changed(4)] doc have "targets = wl_targets ?doc" by simp
      with changed(5) doc have
        loaded: "watchlist_load (de_watchlist_codec env) (de_watchlist_loc env) None (dm_watchlist d') = Inr ?doc"
        and keys: "session_ref_key s \<in> wl_excluded ?doc" "session_ref_key s \<notin> target_key ` set (wl_targets ?doc)"
          "pm_target_keys (dm_permit d') = target_key ` set (wl_targets ?doc)"
        by auto
      then have off: "\<not> allows (dm_permit d') t g" if "target_key t = session_ref_key s" for t g
        using that by (simp add: allows_def)
      have auto_send: "\<exists>new. pa_effects pa' = pa_effects pa @ new \<and> list_all (\<lambda>x. \<not> is_resume x) new"
        if "target_key t = session_ref_key s" "ts_permit_send scr = dm_permit d'"
          "target_step ch g now t scr pa = (r, pa')" for ch g now t scr pa r pa'
        using target_step_unpermitted [OF that(3)] off that(1,2) by simp
      have manual_send: "list_all (\<lambda>x. \<not> is_resume x) es"
        if "ms_permit_send scr = dm_permit d'"
          "retry_now ch (sr_provider s) (sr_session_id s) now automatic g scr en = (r, en', es)"
        for ch g now automatic scr en r en' es
        by (rule retry_now_unpermitted [OF that(2)])
          (simp add: that(1) off target_key_def session_ref_key_def)
      show ?thesis
      proof (intro exI [of _ s] exI [of _ ?doc] conjI)
        show "\<forall>ch g now t scr pa r pa'. target_key t = session_ref_key s \<longrightarrow> ts_permit_send scr = dm_permit d' \<longrightarrow>
       target_step ch g now t scr pa = (r, pa') \<longrightarrow>
       (\<exists>new. pa_effects pa' = pa_effects pa @ new \<and> list_all (\<lambda>x. \<not> is_resume x) new)"
          by (intro allI impI, rule auto_send) assumption+
        show "\<forall>ch g now automatic scr en r en' es. ms_permit_send scr = dm_permit d' \<longrightarrow>
       retry_now ch (sr_provider s) (sr_session_id s) now automatic g scr en = (r, en', es) \<longrightarrow>
       list_all (\<lambda>x. \<not> is_resume x) es"
          by (intro allI impI, rule manual_send) assumption+
      qed (use change(2) loaded keys off in simp_all)
    qed (use change(4) in auto)
  qed simp
qed

theorem removed_session_not_authorised_witness:
  "\<exists>resp d' s. handle_control example_env example_io example_remove example_daemon = (resp, d') \<and>
     session_ref_of (rq_params example_remove) = Some s \<and>
     (\<forall>t g. target_key t = session_ref_key s \<longrightarrow> \<not> allows (dm_permit d') t g)"
proof -
  obtain resp d' where run: "handle_control example_env example_io example_remove example_daemon = (resp, d')"
    by (metis surj_pair)
  then have ok: "rsp_error resp = None" using example_remove_runs by simp
  have "rq_method example_remove = ''sessions.remove''"
    by (simp add: example_remove_def example_request_def)
  from removed_session_not_authorised [OF example_env_ok this run ok] obtain s where
    "session_ref_of (rq_params example_remove) = Some s"
    "\<forall>t g. target_key t = session_ref_key s \<longrightarrow> \<not> allows (dm_permit d') t g" by (elim exE conjE)
  with run show ?thesis by (intro exI conjI)
qed

text \<open>C17: The settings the service uses are always valid, and a change of them is all or
  nothing: after a successful request the configuration file reads back as exactly the
  settings in use, after a failed one the file, the settings and the dialog monitor's
  rules are the old ones.\<close>
theorem settings_change_is_atomic:
  assumes "env_ok env" and "daemon_inv env d" and "handle_control env io request d = (resp, d')"
  shows "validate (dm_settings d') = Inr () \<and>
    (dm_settings d' = dm_settings d \<and> dm_config d' = dm_config d \<and> dm_dialogs d' = dm_dialogs d \<or>
     rsp_error resp = None \<and>
     load_settings (de_settings_codec env) (de_config_loc env) None (dm_config d') = Inr (dm_settings d') \<and>
     (dm_dialogs d = st_dialogs (dm_settings d) \<longrightarrow> dm_dialogs d' = st_dialogs (dm_settings d')))"
proof -
  have "dm_settings d' = dm_settings d \<and> dm_config d' = dm_config d \<and> dm_dialogs d' = dm_dialogs d \<or>
     rsp_error resp = None \<and>
     load_settings (de_settings_codec env) (de_config_loc env) None (dm_config d') = Inr (dm_settings d') \<and>
     (dm_dialogs d = st_dialogs (dm_settings d) \<longrightarrow> dm_dialogs d' = st_dialogs (dm_settings d'))"
    using assms(3)
  proof (cases rule: handle_control_dispatch)
    case (run r)
    from run(1) show ?thesis
    proof (cases rule: dispatch_control_cases)
      case (watch change r')
      from watch(1) show ?thesis
        by (cases rule: change_watchlist_cases)
          (use bump_revision_effect [OF assms(1)] in auto)
    next
      case (settings configure k s)
      from settings(1) show ?thesis
      proof (cases rule: commit_settings_cases)
        case (not_saved e d1)
        with bump_revision_effect [OF assms(1)] show ?thesis by auto
      next
        case (saved d1 f)
        note valid = save_settings_valid [OF saved(3)]
        then have "save_document (de_settings_codec env) (de_config_loc env) (io_config io) s (dm_config d1) =
            (Inr (), f)"
          using saved(3) by (simp add: save_settings_def)
        from save_document_Inr [OF env_okD(3) [OF assms(1)] this] valid
        have "load_settings (de_settings_codec env) (de_config_loc env) None f = Inr s"
          by (auto simp: load_settings_def load_document_def)
        then show ?thesis
          using saved run settings(5) bump_revision_effect [OF assms(1) saved(2)] by auto
      qed simp
    qed simp
  qed simp
  moreover have "validate (dm_settings d') = Inr ()"
    using handle_control_inv [OF assms] by (rule daemon_invD)
  ultimately show ?thesis by blast
qed

theorem settings_change_is_atomic_witness:
  "validate (dm_settings (snd (handle_control example_env example_io example_remove example_daemon))) = Inr ()"
proof -
  obtain resp d' where run: "handle_control example_env example_io example_remove example_daemon = (resp, d')"
    by (metis surj_pair)
  from settings_change_is_atomic [OF example_env_ok example_daemon_inv run] run show ?thesis by simp
qed

lemma take_sort_key:
  assumes "x \<in> set xs" and "x \<notin> set (take n (sort_key f xs))" and "y \<in> set (take n (sort_key f xs))"
  shows "f y \<le> f x"
proof -
  have "sorted (map f (take n (sort_key f xs) @ drop n (sort_key f xs)))"
    by (simp only: append_take_drop_id sorted_sort_key)
  then have le: "\<forall>a \<in> set (take n (sort_key f xs)). \<forall>b \<in> set (drop n (sort_key f xs)). f a \<le> f b"
    by (auto simp: sorted_append simp del: append_take_drop_id)
  have "x \<in> set (take n (sort_key f xs) @ drop n (sort_key f xs))"
    using assms(1) by (simp only: append_take_drop_id set_sort)
  with assms(2) have "x \<in> set (drop n (sort_key f xs))"
    by (simp del: append_take_drop_id)
  with assms(3) le show ?thesis by blast
qed

text \<open>Listing the watched sessions answers with the most recently active ones of the
  requested provider: at most as many as asked for, newest first, and none left out that
  is newer than one that is listed.\<close>
lemma session_list_newest:
  assumes "list_sessions env io request d = Inr ts"
  shows "\<exists>q all. managed_session_query_of (rq_params request) = Some q \<and>
    list_targets env (io_read_before io) d = Inr all \<and>
    0 < mq_limit q \<and> length ts \<le> mq_limit q \<and>
    sorted_wrt (\<lambda>a b. last_seen a \<ge> last_seen b) ts \<and>
    set ts \<subseteq> {t \<in> set all. mq_provider q = None \<or> mq_provider q = Some (wt_provider t)} \<and>
    (\<forall>t \<in> set all. mq_provider q = None \<or> mq_provider q = Some (wt_provider t) \<longrightarrow>
       t \<in> set ts \<or> (length ts = mq_limit q \<and> (\<forall>u \<in> set ts. last_seen t \<le> last_seen u)))"
proof -
  from assms obtain q all where q: "managed_session_query_of (rq_params request) = Some q"
    and all: "list_targets env (io_read_before io) d = Inr all" and limit: "0 < mq_limit q"
    and ts: "ts = take (mq_limit q) (sort_key (\<lambda>t. - last_seen t)
      (filter (\<lambda>t. case mq_provider q of None \<Rightarrow> True | Some p \<Rightarrow> p = wt_provider t) all))"
    by (auto simp: list_sessions_def bindR_Inr_iff split: if_splits)
  let ?matching = "filter (\<lambda>t. case mq_provider q of None \<Rightarrow> True | Some p \<Rightarrow> p = wt_provider t) all"
  let ?sorted = "sort_key (\<lambda>t. - last_seen t) ?matching"
  have "sorted_wrt (\<lambda>a b. - last_seen a \<le> - last_seen b) ?sorted"
    using sorted_sort_key [of "\<lambda>t. - last_seen t" ?matching]
    by (simp only: sorted_map)
  then have "sorted_wrt (\<lambda>a b. last_seen a \<ge> last_seen b) ts"
    unfolding ts by (intro sorted_wrt_take) simp
  moreover have "set ts \<subseteq> set ?matching"
    unfolding ts by (metis set_sort set_take_subset)
  then have "set ts \<subseteq> {t \<in> set all. mq_provider q = None \<or> mq_provider q = Some (wt_provider t)}"
    by (cases "mq_provider q") auto
  moreover have "t \<in> set ts \<or> (length ts = mq_limit q \<and> (\<forall>u \<in> set ts. last_seen t \<le> last_seen u))"
    if "t \<in> set all" "mq_provider q = None \<or> mq_provider q = Some (wt_provider t)" for t
  proof (cases "t \<in> set ts")
    case False
    have t: "t \<in> set ?matching" using that by auto
    have "length ts = mq_limit q"
    proof (rule ccontr)
      assume "length ts \<noteq> mq_limit q"
      then have "ts = ?sorted" by (simp add: ts min_def split: if_splits)
      then have "set ts = set ?matching" by (simp only: set_sort)
      with t False show False by simp
    qed
    moreover have "last_seen t \<le> last_seen u" if "u \<in> set ts" for u
      using take_sort_key [OF t, of "mq_limit q" "\<lambda>t. - last_seen t" u] False that
      by (simp add: ts)
    ultimately show ?thesis by blast
  qed simp
  moreover have "length ts \<le> mq_limit q" by (simp add: ts)
  ultimately show ?thesis using q all limit by blast
qed

lemma given_resolved: "(x :: 'a option) \<in> {None, y} \<Longrightarrow> \<exists>D. r = unwrap_or y D \<Longrightarrow> x \<in> {None, Some r}"
  by (cases y) auto

text \<open>Setting the policy of a failure condition touches only that condition: every other
  condition resolves as before, and for this one every field the request gives is in
  effect, while a request that does not skip keeps the action when it gives none.\<close>
lemma policy_update_scoped:
  assumes "env_ok env" and "rq_method request = ''config.policies.set''"
    and "handle_control env io request d = (resp, d')" and "rsp_error resp = None"
  shows "\<exists>u. policy_update_of (rq_params request) = Some u \<and> is_known (pu_condition u) \<and>
    (\<forall>c. c \<noteq> pu_condition u \<longrightarrow> policy (dm_settings d') c = policy (dm_settings d) c) \<and>
    (let p = policy (dm_settings d) (pu_condition u);
         p' = policy (dm_settings d') (pu_condition u); x = pu_policy u
     in rp_action p' = unwrap_or (po_action x) (rp_action p) \<and> rp_customized p' \<and>
        po_initial_delay_seconds x \<in> {None, Some (rp_initial_delay_seconds p')} \<and>
        po_max_delay_seconds x \<in> {None, Some (rp_max_delay_seconds p')} \<and>
        po_max_attempts x \<in> {None, Some (rp_max_attempts p')} \<and>
        (rp_action p' = Retry \<longrightarrow> po_backoff x \<in> {None, rp_backoff p'} \<and>
           po_prompt x \<in> {None, Some (rp_prompt p')}))"
  using assms(3)
proof (cases rule: handle_control_dispatch)
  case version
  with assms(4) show ?thesis by simp
next
  case (run r)
  with assms(4) obtain v where "dispatch_control env io request d = (Inr v, d')" by auto
  then have "set_policy env io request d = (Inr v, d')"
    using assms(2) by (simp add: dispatch_control_def)
  then obtain u where u: "policy_update_of (rq_params request) = Some u" and known: "is_known (pu_condition u)"
    and commit: "commit_settings env io False ''updated''
      ((dm_settings d)\<lparr>st_policies := bt_insert (pu_condition u)
         (merge_policy (pu_policy u)
           (unwrap_or (hm_get (st_policies (dm_settings d)) (pu_condition u)) default_override))
         (st_policies (dm_settings d))\<rparr>) d = (Inr v, d')"
    by (auto simp: set_policy_def Let_def split: sum.splits if_splits)
  define entry where
    "entry = unwrap_or (hm_get (st_policies (dm_settings d)) (pu_condition u)) default_override"
  define x where "x = pu_policy u"
  from commit have s': "dm_settings d' = (dm_settings d)\<lparr>st_policies := bt_insert (pu_condition u)
      (merge_policy x entry) (st_policies (dm_settings d))\<rparr>"
    by (cases rule: commit_settings_cases) (simp_all add: entry_def x_def)
  have get: "hm_get (st_policies (dm_settings d')) (pu_condition u) = Some (merge_policy x entry)"
    by (simp add: s')
  have given: "po_initial_delay_seconds x \<in> {None, po_initial_delay_seconds (merge_policy x entry)}"
    "po_max_delay_seconds x \<in> {None, po_max_delay_seconds (merge_policy x entry)}"
    "po_max_attempts x \<in> {None, po_max_attempts (merge_policy x entry)}"
    "po_backoff x \<in> {None, po_backoff (merge_policy x entry)}"
    "po_prompt x \<in> {None, po_prompt (merge_policy x entry)}"
    by (auto simp: merge_policy_def override_with_def)
  have action: "po_action (merge_policy x entry) = (if po_action x = None then po_action entry else po_action x)"
    by (auto simp: merge_policy_def override_with_def)
  have old: "Option.bind (hm_get (st_policies (dm_settings d)) (pu_condition u)) po_action = po_action entry"
    by (cases "hm_get (st_policies (dm_settings d)) (pu_condition u)")
      (simp_all add: entry_def default_override_def)
  have "rp_action (policy (dm_settings d') (pu_condition u)) =
      unwrap_or (po_action x) (rp_action (policy (dm_settings d) (pu_condition u)))"
    by (cases "po_action x") (simp_all add: policy_action get old action)
  moreover have "policy (dm_settings d') c = policy (dm_settings d) c" if "c \<noteq> pu_condition u" for c
    using that policy_other [of "pu_condition u" c] by (simp add: s')
  moreover have "rp_customized (policy (dm_settings d') (pu_condition u))"
    using get by (simp add: policy_def Let_def)
  moreover have resolved: "\<exists>D. rp_initial_delay_seconds p' = unwrap_or (po_initial_delay_seconds (merge_policy x entry)) D"
    "\<exists>D. rp_max_delay_seconds p' = unwrap_or (po_max_delay_seconds (merge_policy x entry)) D"
    "\<exists>D. rp_max_attempts p' = unwrap_or (po_max_attempts (merge_policy x entry)) D"
    "rp_action p' = Retry \<Longrightarrow> po_backoff (merge_policy x entry) \<in> {None, rp_backoff p'}"
    "rp_action p' = Retry \<Longrightarrow> \<exists>D. rp_prompt p' = unwrap_or (po_prompt (merge_policy x entry)) D"
    if "p' = policy (dm_settings d') (pu_condition u)" for p'
    unfolding that policy_def Let_def get by (auto split: option.splits)
  moreover note given_resolved [OF given(1)] given_resolved [OF given(2)] given_resolved [OF given(3)]
    given_resolved [OF given(5)]
  moreover have "rp_action (policy (dm_settings d') (pu_condition u)) = Retry \<Longrightarrow>
      po_backoff x \<in> {None, rp_backoff (policy (dm_settings d') (pu_condition u))}"
    using resolved(4) [OF refl] given(4) by auto
  ultimately show ?thesis
    using u known by (intro exI [of _ u]) (fastforce simp: x_def Let_def)
qed

end
