(* ===== verification/Reconcile.thy ===== *)
theory Reconcile
  imports Daemon_Control
begin

text \<open>
  The reconciliation loop of the service (\<open>daemon.rs\<close>): reloading a configuration edited by
  hand, taking a plan, discovering the providers' sessions and running a pass of the
  engine on the targets that have not expired, and committing the discovered membership
  if nothing changed meanwhile.
\<close>


section \<open>Taking a plan\<close>

record reconcile_plan =
  pl_now :: timestamp
  pl_revision :: u64
  pl_targets :: "watch_target list"
  pl_settings :: settings

record 'b prepare_io =
  pi_now :: timestamp
  pi_read_config :: "string option"
  pi_read_reload :: "string option"
  pi_revision :: "'b fault"
  pi_read_targets :: "string option"

definition reload_external_config ::
    "'b daemon_env \<Rightarrow> 'b prepare_io \<Rightarrow> 'b daemon \<Rightarrow> unit result \<times> 'b daemon" where
  "reload_external_config env io d =
     (if dm_config_stamp d = dm_config_modified d then (Inr (), d)
      else case load_settings (de_settings_codec env) (de_config_loc env) (pi_read_config io)
          (dm_config d) of
        Inr s \<Rightarrow>
          (case bump_revision env (pi_read_reload io) (pi_revision io) d of
             (Inl e, d') \<Rightarrow> (Inl e, d')
           | (Inr _, d') \<Rightarrow>
               (Inr (), d'\<lparr>dm_dialogs := st_dialogs s, dm_settings := s,
                           dm_config_modified := dm_config_stamp d\<rparr>))
      | Inl e \<Rightarrow> (Inr (), d\<lparr>dm_config_modified := dm_config_stamp d\<rparr>))"

definition prepare_reconcile ::
    "'b daemon_env \<Rightarrow> 'b prepare_io \<Rightarrow> 'b daemon \<Rightarrow> reconcile_plan result \<times> 'b daemon" where
  "prepare_reconcile env io d =
     (case reload_external_config env io d of
        (Inl e, d1) \<Rightarrow> (Inl e, d1)
      | (Inr _, d1) \<Rightarrow>
          (case list_targets env (pi_read_targets io) d1 of
             Inl e \<Rightarrow> (Inl e, d1)
           | Inr targets \<Rightarrow>
               (Inr \<lparr>pl_now = pi_now io, pl_revision = revision d1, pl_targets = targets,
                     pl_settings = dm_settings d1\<rparr>,
                update_recovery_permit targets d1)))"


section \<open>Discovery and the pass\<close>

record reconcile_outcome =
  oc_events :: "engine_event list"
  oc_sessions :: "session list"
  oc_protected :: "string set"

text \<open>
  \<open>rc_order\<close> is the order in which the set of provider names is visited, \<open>rc_built\<close> and
  \<open>rc_started\<close> the outcomes of creating and starting an adapter, \<open>rc_recent\<close> its answer to the
  question for sessions active since a time.
\<close>

record reconcile_script =
  rc_order :: "string set \<Rightarrow> string list"
  rc_built :: "string \<Rightarrow> unit result"
  rc_started :: "string \<Rightarrow> unit result"
  rc_recent :: "string \<Rightarrow> timestamp \<Rightarrow> session list result"
  rc_pass :: pass_script

definition reconcile_providers :: "reconcile_plan \<Rightarrow> engine \<Rightarrow> string set" where
  "reconcile_providers plan en =
     wt_provider ` set (pl_targets plan) \<union> pending_provider_names en \<union>
     (if codex_enabled (ps_codex (st_providers (pl_settings plan))) then {''codex''} else {}) \<union>
     (if claude_enabled (ps_claude (st_providers (pl_settings plan))) then {''claude''} else {})"

definition plan_cutoff :: "chrono \<Rightarrow> reconcile_plan \<Rightarrow> timestamp result" where
  "plan_cutoff ch plan =
     minus_seconds ch (pl_now plan) (stale_after_seconds (st_lifecycle (pl_settings plan)))"

definition needs_protection :: "session \<Rightarrow> bool" where
  "needs_protection s \<longleftrightarrow> se_state s = SessionActive \<or> se_updated_at s = None"

definition keys_of_provider :: "string \<Rightarrow> watch_target list \<Rightarrow> string set" where
  "keys_of_provider name ts = target_key ` set (filter (\<lambda>t. wt_provider t = name) ts)"

definition discover_provider ::
    "chrono \<Rightarrow> reconcile_script \<Rightarrow> reconcile_plan \<Rightarrow> string \<Rightarrow> engine \<times> session list \<times> string set \<Rightarrow>
     (engine \<times> session list \<times> string set) result" where
  "discover_provider ch scr plan name = (\<lambda>(en, sessions, protected).
     let failed = (\<lambda>en'. Inr (en', sessions, protected \<union> keys_of_provider name (pl_targets plan)))
     in case ensure_provider name (rc_built scr name) (rc_started scr name) en of
          (Inl e, en') \<Rightarrow> failed en'
        | (Inr _, en') \<Rightarrow>
            bindR (plan_cutoff ch plan) (\<lambda>since.
              case provider_call name (rc_recent scr name since) en' of
                Inl e \<Rightarrow> failed en'
              | Inr found \<Rightarrow>
                  Inr (en', sessions @ found,
                    protected \<union> session_key ` set (filter needs_protection found))))"

fun discover ::
    "chrono \<Rightarrow> reconcile_script \<Rightarrow> reconcile_plan \<Rightarrow> string list \<Rightarrow> engine \<times> session list \<times> string set \<Rightarrow>
     (engine \<times> session list \<times> string set) result" where
  "discover ch scr plan [] acc = Inr acc"
| "discover ch scr plan (name # names) acc =
     bindR (discover_provider ch scr plan name acc) (discover ch scr plan names)"

text \<open>Collecting into a map keeps the last report of a session.\<close>

definition session_activity :: "session list \<Rightarrow> (string, timestamp option) dict" where
  "session_activity sessions =
     foldl (\<lambda>m s. hm_insert (session_key s) (se_updated_at s) m) [] sessions"

definition unexpired ::
    "timestamp \<Rightarrow> (string, timestamp option) dict \<Rightarrow> string set \<Rightarrow> watch_target \<Rightarrow> bool" where
  "unexpired cutoff activity protected t \<longleftrightarrow>
     target_key t \<in> protected \<or>
     inactivity_since t (case hm_get activity (target_key t) of None \<Rightarrow> None | Some u \<Rightarrow> u) \<ge> cutoff"

definition reconcile_engine ::
    "chrono \<Rightarrow> reconcile_script \<Rightarrow> reconcile_plan \<Rightarrow> engine \<times> nat \<Rightarrow>
     reconcile_outcome result \<times> (engine \<times> nat) \<times> effect list" where
  "reconcile_engine ch scr plan en0 =
     (let ((en, retention), closed) = replace_settings (pl_settings plan) en0
      in case bindR (discover ch scr plan (rc_order scr (reconcile_providers plan en)) (en, [], {}))
            (\<lambda>(en1, sessions, protected).
               bindR (plan_cutoff ch plan) (\<lambda>cutoff. Inr (en1, sessions, protected, cutoff))) of
           Inl e \<Rightarrow> (Inl e, (en, retention), [])
         | Inr (en1, sessions, protected, cutoff) \<Rightarrow>
             (let targets = filter (unexpired cutoff (session_activity sessions) protected)
                    (pl_targets plan)
              in case run_once_authorized ch (pl_now plan) (pl_revision plan) (rc_pass scr)
                    (replace_targets targets en1) of
                   (Inl e, en2, es) \<Rightarrow> (Inl e, (en2, retention), es)
                 | (Inr events, en2, es) \<Rightarrow>
                     (Inr \<lparr>oc_events = events, oc_sessions = sessions, oc_protected = protected\<rparr>,
                      (en2, retention), es)))"


section \<open>Committing\<close>

record 'b commit_io =
  ci_read_reconcile :: "string option"
  ci_watchlist :: "'b fault"
  ci_read_bump :: "string option"
  ci_revision :: "'b fault"

definition commit_attention :: "watch_target list \<Rightarrow> engine \<Rightarrow> string list" where
  "commit_attention targets en =
     sorted_keys {k \<in> unresolved_target_keys en. k \<in> target_key ` set targets}"

definition commit_reconcile ::
    "'b daemon_env \<Rightarrow> 'b commit_io \<Rightarrow> reconcile_plan \<Rightarrow> reconcile_outcome \<Rightarrow> 'b daemon \<times> engine \<Rightarrow>
     unit result \<times> ('b daemon \<times> engine)" where
  "commit_reconcile env io plan outcome = (\<lambda>(d, en).
     if revision d \<noteq> pl_revision plan \<or> pm_generation (dm_permit d) \<noteq> pl_revision plan
     then (Inr (), (d, en))
     else case watchlist_reconcile (de_chrono env) (de_watchlist_codec env) (de_watchlist_loc env)
         (ci_read_reconcile io) (ci_watchlist io) (oc_sessions outcome) (pl_now plan)
         (stale_after_seconds (st_lifecycle (dm_settings d))) (oc_protected outcome)
         (dm_watchlist d) of
       (Inl e, f) \<Rightarrow> (Inl e, (d\<lparr>dm_watchlist := f\<rparr>, en))
     | (Inr targets, f) \<Rightarrow>
         (let d1 = update_recovery_permit targets (d\<lparr>dm_watchlist := f\<rparr>)
          in case (if targets \<noteq> pl_targets plan
                   then bump_revision env (ci_read_bump io) (ci_revision io) d1
                   else (Inr (), d1)) of
               (Inl e, d2) \<Rightarrow> (Inl e, (d2, en))
             | (Inr _, d2) \<Rightarrow>
                 (let d3 = update_recovery_permit targets d2;
                      en' = replace_targets targets en
                  in (Inr (),
                      (d3\<lparr>dm_attention := commit_attention targets en',
                          dm_metrics := engine_metrics_since (de_month_start env (pl_now plan)) en'\<rparr>,
                       en')))))"


section \<open>The invariant of the service\<close>

lemma reload_inv [invariant_intros]:
  assumes "env_ok env" and "daemon_inv env d" and "reload_external_config env io d = (r, d')"
  shows "daemon_inv env d'"
proof (cases "dm_config_stamp d = dm_config_modified d")
  case True
  with assms show ?thesis by (simp add: reload_external_config_def)
next
  case False
  show ?thesis
  proof (cases "load_settings (de_settings_codec env) (de_config_loc env) (pi_read_config io) (dm_config d)")
    case (Inl e)
    with False assms show ?thesis
      by (auto simp: reload_external_config_def daemon_inv_def revision_recorded_def)
  next
    case (Inr s)
    then have valid: "validate s = Inr ()"
      by (cases "dm_config d") (auto simp: load_settings_def bindR_Inr_iff default_settings_valid)
    obtain r1 d1 where bump: "bump_revision env (pi_read_reload io) (pi_revision io) d = (r1, d1)"
      by (metis surj_pair)
    show ?thesis
    proof (cases r1)
      case (Inl e)
      with False assms \<open>load_settings _ _ _ _ = Inr s\<close> bump bump_revision_Inl [of env _ _ d e d1]
      show ?thesis by (auto simp: reload_external_config_def)
    next
      case ok: (Inr u)
      then have "bump_revision env (pi_read_reload io) (pi_revision io) d = (Inr (), d1)"
        using bump by simp
      note eff = bump_revision_effect [OF assms(1) this]
      from False assms(3) Inr bump ok have
        "d' = d1\<lparr>dm_dialogs := st_dialogs s, dm_settings := s, dm_config_modified := dm_config_stamp d\<rparr>"
        by (simp add: reload_external_config_def)
      with eff valid show ?thesis by (simp add: daemon_inv_def revision_recorded_def)
    qed
  qed
qed

lemma prepare_reconcile_Inr:
  assumes "prepare_reconcile env io d = (Inr plan, d')"
  shows "\<exists>d1. reload_external_config env io d = (Inr (), d1) \<and>
    list_targets env (pi_read_targets io) d1 = Inr (pl_targets plan) \<and>
    pl_revision plan = revision d1 \<and> pl_settings plan = dm_settings d1 \<and>
    d' = update_recovery_permit (pl_targets plan) d1"
  using assms by (auto simp: prepare_reconcile_def split: prod.splits sum.splits)

lemma prepare_reconcile_inv [invariant_intros]:
  assumes "env_ok env" and "daemon_inv env d" and "prepare_reconcile env io d = (r, d')"
  shows "daemon_inv env d'"
proof -
  obtain r1 d1 where reload: "reload_external_config env io d = (r1, d1)" by (metis surj_pair)
  then have "daemon_inv env d1" by (rule reload_inv [OF assms(1,2)])
  moreover have "d' = d1 \<or> (\<exists>ts. d' = update_recovery_permit ts d1)"
    using assms(3) reload by (auto simp: prepare_reconcile_def split: sum.splits)
  ultimately show ?thesis by (auto simp: daemon_inv_def revision_recorded_def)
qed

lemma commit_reconcile_cases:
  assumes "commit_reconcile env io plan outcome (d, en) = (r, (d', en'))"
  obtains (stale) "r = Inr ()" and "d' = d" and "en' = en"
      and "revision d \<noteq> pl_revision plan \<or> pm_generation (dm_permit d) \<noteq> pl_revision plan"
    | (failed) e f where "r = Inl e" and "d' = d\<lparr>dm_watchlist := f\<rparr>" and "en' = en"
    | (not_bumped) e targets f where "r = Inl e" and "en' = en"
      and "d' = update_recovery_permit targets (d\<lparr>dm_watchlist := f\<rparr>)"
    | (committed) targets f d2 where "r = Inr ()"
      and "watchlist_reconcile (de_chrono env) (de_watchlist_codec env) (de_watchlist_loc env)
         (ci_read_reconcile io) (ci_watchlist io) (oc_sessions outcome) (pl_now plan)
         (stale_after_seconds (st_lifecycle (dm_settings d))) (oc_protected outcome)
         (dm_watchlist d) = (Inr targets, f)"
      and "(if targets \<noteq> pl_targets plan
         then bump_revision env (ci_read_bump io) (ci_revision io)
           (update_recovery_permit targets (d\<lparr>dm_watchlist := f\<rparr>))
         else (Inr (), update_recovery_permit targets (d\<lparr>dm_watchlist := f\<rparr>))) = (Inr (), d2)"
      and "en' = replace_targets targets en"
      and "d' = (update_recovery_permit targets d2)
        \<lparr>dm_attention := commit_attention targets en',
         dm_metrics := engine_metrics_since (de_month_start env (pl_now plan)) en'\<rparr>"
      and "revision d = pl_revision plan"
proof (cases "revision d \<noteq> pl_revision plan \<or> pm_generation (dm_permit d) \<noteq> pl_revision plan")
  case True
  with assms stale show thesis by (auto simp: commit_reconcile_def)
next
  case False
  obtain r1 f where rec: "watchlist_reconcile (de_chrono env) (de_watchlist_codec env) (de_watchlist_loc env)
         (ci_read_reconcile io) (ci_watchlist io) (oc_sessions outcome) (pl_now plan)
         (stale_after_seconds (st_lifecycle (dm_settings d))) (oc_protected outcome)
         (dm_watchlist d) = (r1, f)" by (metis surj_pair)
  show thesis
  proof (cases r1)
    case (Inl e)
    with False assms rec failed [of e f] show thesis by (auto simp: commit_reconcile_def)
  next
    case (Inr targets)
    obtain r2 d2 where bump: "(if targets \<noteq> pl_targets plan
         then bump_revision env (ci_read_bump io) (ci_revision io)
           (update_recovery_permit targets (d\<lparr>dm_watchlist := f\<rparr>))
         else (Inr (), update_recovery_permit targets (d\<lparr>dm_watchlist := f\<rparr>))) = (r2, d2)"
      by (metis surj_pair)
    show thesis
    proof (cases r2)
      case (Inl e)
      then have "d2 = update_recovery_permit targets (d\<lparr>dm_watchlist := f\<rparr>)"
        using bump by (auto split: if_splits dest: bump_revision_Inl)
      with False assms rec Inr bump Inl not_bumped [of e targets f] show thesis
        by (auto simp: commit_reconcile_def Let_def)
    next
      case ok: (Inr u)
      with False assms rec Inr bump show thesis
        by (intro committed [of targets f d2]) (auto simp: commit_reconcile_def Let_def)
    qed
  qed
qed

lemma commit_reconcile_inv [invariant_intros]:
  assumes "env_ok env" and "daemon_inv env d"
    and "commit_reconcile env io plan outcome (d, en) = (r, (d', en'))"
  shows "daemon_inv env d'"
  using assms(3)
proof (cases rule: commit_reconcile_cases)
  case (committed targets f d2)
  show ?thesis
  proof (cases "targets = pl_targets plan")
    case True
    with committed assms(2) show ?thesis by (auto simp: daemon_inv_def revision_recorded_def)
  next
    case False
    with committed(3) have "bump_revision env (ci_read_bump io) (ci_revision io)
        (update_recovery_permit targets (d\<lparr>dm_watchlist := f\<rparr>)) = (Inr (), d2)" by simp
    from bump_revision_effect [OF assms(1) this] committed(5) assms(2)
    show ?thesis by (simp add: daemon_inv_def revision_recorded_def)
  qed
qed (use assms(2) in \<open>auto simp: daemon_inv_def revision_recorded_def\<close>)

lemma daemon_load_inv:
  assumes "env_ok env"
    and "daemon_load env now rf1 rf2 rf3 rf4 fault config wlist rstate control stamp = (Inr d, control')"
  shows "daemon_inv env d"
proof -
  from assms(2) obtain s targets st cs where
    s: "load_settings (de_settings_codec env) (de_config_loc env) rf1 config = Inr s"
    and load: "control_load (de_control_codec env) (de_control_loc env) rf4 fault control = (Inr cs, control')"
    and d: "dm_settings d = s" "dm_control d = cs" "dm_control_file d = control'"
      "dm_permit d = permit_new True targets (cs_revision cs)"
    by (auto simp: daemon_load_def split: sum.splits prod.splits)
  from s have "validate s = Inr ()"
    by (cases config) (auto simp: load_settings_def bindR_Inr_iff default_settings_valid)
  moreover from control_load_next [OF env_okD(2) [OF assms(1)] load]
  have "\<exists>b. control' = Some b \<and> dec (de_control_codec env) b = Inr cs" by auto
  ultimately show ?thesis
    by (simp add: daemon_inv_def d revision_recorded_def revision_def permit_new_def permit_update_def)
qed


section \<open>What discovery protects\<close>

text \<open>A provider's discovery can only fail at one of these points.\<close>

definition provider_failed :: "chrono \<Rightarrow> reconcile_script \<Rightarrow> reconcile_plan \<Rightarrow> string \<Rightarrow> bool" where
  "provider_failed ch scr plan name \<longleftrightarrow>
     (\<exists>e. build_provider (pl_settings plan) name (rc_built scr name) = Inl e) \<or>
     (\<exists>e. rc_started scr name = Inl e) \<or>
     (\<exists>since e. plan_cutoff ch plan = Inr since \<and> rc_recent scr name since = Inl e)"

text \<open>The providers' answers, and the sets that come out of them.\<close>

definition reported :: "reconcile_script \<Rightarrow> session \<Rightarrow> bool" where
  "reported scr s \<longleftrightarrow> (\<exists>name since found. rc_recent scr name since = Inr found \<and> s \<in> set found)"

definition discovery_ok ::
    "chrono \<Rightarrow> reconcile_script \<Rightarrow> reconcile_plan \<Rightarrow> engine \<times> session list \<times> string set \<Rightarrow> bool" where
  "discovery_ok ch scr plan = (\<lambda>(en, sessions, protected).
     en_settings en = pl_settings plan \<and>
     (\<forall>s \<in> set sessions. reported scr s) \<and>
     (\<forall>s \<in> set sessions. needs_protection s \<longrightarrow> session_key s \<in> protected) \<and>
     (\<forall>k \<in> protected. (\<exists>s \<in> set sessions. session_key s = k \<and> needs_protection s) \<or>
        (\<exists>name. provider_failed ch scr plan name \<and> k \<in> keys_of_provider name (pl_targets plan))))"

lemma ensure_provider_failed:
  assumes "ensure_provider name (rc_built scr name) (rc_started scr name) en = (Inl e, en')"
    and "en_settings en = pl_settings plan"
  shows "provider_failed ch scr plan name"
  using assms
  by (auto simp: ensure_provider_def provider_failed_def split: if_splits sum.splits)

lemma ensure_provider_Inr_mem:
  "ensure_provider name built start en = (Inr u, en') \<Longrightarrow> name \<in> en_providers en'"
  by (auto simp: ensure_provider_def split: if_splits sum.splits)

lemma ensure_provider_settings:
  "ensure_provider name built start en = (r, en') \<Longrightarrow> en_settings en' = en_settings en"
  by (drule ensure_provider_cases) auto

lemma discover_provider_ok:
  assumes "discovery_ok ch scr plan acc" and "discover_provider ch scr plan name acc = Inr acc'"
  shows "discovery_ok ch scr plan acc'"
proof -
  obtain en sessions protected where acc: "acc = (en, sessions, protected)" by (cases acc)
  obtain r1 en1 where ens: "ensure_provider name (rc_built scr name) (rc_started scr name) en = (r1, en1)"
    by (metis surj_pair)
  note settings = ensure_provider_settings [OF ens]
  have failed: "discovery_ok ch scr plan (en1, sessions, protected \<union> keys_of_provider name (pl_targets plan))"
    if "provider_failed ch scr plan name"
    using assms(1) that settings by (auto simp: discovery_ok_def acc)
  show ?thesis
  proof (cases r1)
    case (Inl e)
    with assms(2) ens have "acc' = (en1, sessions, protected \<union> keys_of_provider name (pl_targets plan))"
      by (simp add: discover_provider_def acc Let_def)
    moreover have "provider_failed ch scr plan name"
      using ens [unfolded Inl] assms(1) by (auto simp: discovery_ok_def acc intro: ensure_provider_failed)
    ultimately show ?thesis using failed by simp
  next
    case (Inr u)
    then have mem: "name \<in> en_providers en1" using ens by (auto dest: ensure_provider_Inr_mem)
    from assms(2) ens Inr obtain since where since: "plan_cutoff ch plan = Inr since"
      by (auto simp: discover_provider_def acc Let_def bindR_Inr_iff)
    show ?thesis
    proof (cases "rc_recent scr name since")
      case (Inl e)
      with assms(2) ens Inr since mem
      have "acc' = (en1, sessions, protected \<union> keys_of_provider name (pl_targets plan))"
        by (simp add: discover_provider_def acc Let_def provider_call_def)
      moreover have "provider_failed ch scr plan name"
        using Inl since by (auto simp: provider_failed_def)
      ultimately show ?thesis using failed by simp
    next
      case found: (Inr found)
      with assms(2) ens Inr since mem
      have "acc' = (en1, sessions @ found, protected \<union> session_key ` set (filter needs_protection found))"
        by (simp add: discover_provider_def acc Let_def provider_call_def)
      moreover have "reported scr s" if "s \<in> set found" for s
        using found that by (auto simp: reported_def)
      ultimately show ?thesis
        using assms(1) settings by (auto simp: discovery_ok_def acc)
    qed
  qed
qed

lemma discover_reports_ok:
  "discovery_ok ch scr plan acc \<Longrightarrow> discover ch scr plan names acc = Inr acc' \<Longrightarrow>
     discovery_ok ch scr plan acc'"
  by (induction names arbitrary: acc) (auto simp: bindR_Inr_iff dest: discover_provider_ok)

lemma replace_settings_settings:
  "replace_settings s (en, n) = ((en', n'), closed) \<Longrightarrow> en_settings en' = s"
  by (auto simp: replace_settings_def Let_def)

lemma reconcile_engine_cases:
  assumes "reconcile_engine ch scr plan en0 = (r, (en', n'), es)"
  obtains (undiscovered) e where "r = Inl e" and "es = []"
    | (pass) en1 sessions protected cutoff r' where "plan_cutoff ch plan = Inr cutoff"
      and "discovery_ok ch scr plan (en1, sessions, protected)"
      and "run_once_authorized ch (pl_now plan) (pl_revision plan) (rc_pass scr)
        (replace_targets (filter (unexpired cutoff (session_activity sessions) protected)
          (pl_targets plan)) en1) = (r', en', es)"
      and "r = map_sum id (\<lambda>events. \<lparr>oc_events = events, oc_sessions = sessions,
        oc_protected = protected\<rparr>) r'"
proof -
  obtain en n closed where repl: "replace_settings (pl_settings plan) en0 = ((en, n), closed)"
    by (metis surj_pair)
  let ?names = "rc_order scr (reconcile_providers plan en)"
  show thesis
  proof (cases "bindR (discover ch scr plan ?names (en, [], {}))
      (\<lambda>(en1, sessions, protected). bindR (plan_cutoff ch plan) (\<lambda>cutoff. Inr (en1, sessions, protected, cutoff)))")
    case (Inl e)
    with assms repl show thesis by (intro undiscovered [of e]) (simp_all add: reconcile_engine_def)
  next
    case (Inr x)
    then obtain en1 sessions protected cutoff where x: "x = (en1, sessions, protected, cutoff)"
      and disc: "discover ch scr plan ?names (en, [], {}) = Inr (en1, sessions, protected)"
      and cut: "plan_cutoff ch plan = Inr cutoff"
      by (auto simp: bindR_Inr_iff)
    have "en_settings en = pl_settings plan"
      using repl by (cases en0) (auto dest: replace_settings_settings)
    then have ok: "discovery_ok ch scr plan (en1, sessions, protected)"
      by (intro discover_reports_ok [OF _ disc]) (simp add: discovery_ok_def)
    obtain r' en2 es' where run: "run_once_authorized ch (pl_now plan) (pl_revision plan) (rc_pass scr)
        (replace_targets (filter (unexpired cutoff (session_activity sessions) protected)
          (pl_targets plan)) en1) = (r', en2, es')" by (metis surj_pair)
    show thesis
    proof (rule pass [OF cut ok])
      show "run_once_authorized ch (pl_now plan) (pl_revision plan) (rc_pass scr)
        (replace_targets (filter (unexpired cutoff (session_activity sessions) protected)
          (pl_targets plan)) en1) = (r', en', es)"
        using assms repl Inr x run by (cases r') (simp_all add: reconcile_engine_def Let_def)
      show "r = map_sum id (\<lambda>events. \<lparr>oc_events = events, oc_sessions = sessions,
          oc_protected = protected\<rparr>) r'"
        using assms repl Inr x run by (cases r') (simp_all add: reconcile_engine_def Let_def)
    qed
  qed
qed

lemma plan_cutoff_exact:
  "chrono_exact ch \<Longrightarrow> plan_cutoff ch plan = Inr c \<Longrightarrow>
     c = pl_now plan - stale_after_seconds (st_lifecycle (pl_settings plan)) * nanos"
  by (auto simp: plan_cutoff_def dest: minus_seconds_exact)

lemma replace_targets_targets [simp]: "en_targets (replace_targets ts en) = ts"
  by (simp add: replace_targets_def)


section \<open>What a commit drops\<close>

text \<open>The latest activity that the reports give a session.\<close>

definition latest_report :: "string \<Rightarrow> session list \<Rightarrow> timestamp option" where
  "latest_report k sessions =
     foldl opt_max None (map se_updated_at (filter (\<lambda>s. session_key s = k) sessions))"

lemma opt_max_commute: "opt_max x y = opt_max y x"
  by (cases x; cases y) (auto simp: max.commute)

lemma foldl_opt_max: "foldl opt_max x ys = opt_max x (foldl opt_max None ys)"
proof (induction ys arbitrary: x)
  case (Cons y ys)
  have "foldl opt_max x (y # ys) = opt_max (opt_max x y) (foldl opt_max None ys)"
    using Cons.IH [of "opt_max x y"] by simp
  also have "\<dots> = opt_max x (opt_max y (foldl opt_max None ys))" by (rule opt_max_assoc)
  also have "\<dots> = opt_max x (foldl opt_max None (y # ys))"
    using Cons.IH [of y] by simp
  finally show ?case .
qed simp

lemma observed_fields:
  "foldl (observe_session now cutoff k) (Some t) sessions = Some u \<Longrightarrow>
     wt_source u = wt_source t \<and> wt_added_at u = wt_added_at t \<and>
     wt_last_activity_at u = opt_max (wt_last_activity_at t) (latest_report k sessions)"
proof (induction sessions arbitrary: t)
  case Nil
  then show ?case by (simp add: latest_report_def)
next
  case (Cons s sessions)
  show ?case
  proof (cases "session_key s = k")
    case True
    with Cons.prems Cons.IH [of "touch s t"] show ?thesis
      using foldl_opt_max [of "se_updated_at s" "map se_updated_at (filter (\<lambda>s. session_key s = k) sessions)"]
      by (simp add: touch_def latest_report_def opt_max_assoc)
  next
    case False
    with Cons.prems Cons.IH [of t] show ?thesis by (simp add: latest_report_def)
  qed
qed

lemma observed_some: "\<exists>u. foldl (observe_session now cutoff k) (Some t) sessions = Some u"
proof (induction sessions arbitrary: t)
  case (Cons s sessions)
  then show ?case by (cases "session_key s = k") simp_all
qed simp

lemma inactivity_since_cong:
  "wt_source u = wt_source t \<Longrightarrow> wt_added_at u = wt_added_at t \<Longrightarrow>
     wt_last_activity_at u = opt_max r (wt_last_activity_at t) \<Longrightarrow>
     inactivity_since u None = inactivity_since t r"
  by (simp add: inactivity_since_def Let_def split: option.split tracking_source.split)

lemma reconcile_drop:
  assumes "watchlist_inv doc" and "t \<in> set (wl_targets doc)"
    and "target_key t \<notin> target_key ` set (wl_targets (reconcile_targets sessions now cutoff protected doc))"
  shows "target_key t \<notin> protected \<and> inactivity_since t (latest_report (target_key t) sessions) < cutoff"
proof -
  let ?k = "target_key t"
  have at: "target_at (wl_targets doc) ?k = Some t"
    using assms(1,2) by (simp add: target_at_Some watchlist_inv_def)
  obtain u where u: "foldl (observe_session now cutoff ?k) (Some t) sessions = Some u"
    using observed_some by blast
  have "?k \<notin> wl_excluded doc"
    using assms(1,2) by (auto simp: watchlist_inv_def)
  moreover have "target_at (wl_targets (reconcile_targets sessions now cutoff protected doc)) ?k = None"
    using assms(3) by (simp add: target_at_None)
  ultimately have "\<not> retained protected cutoff u"
    using reconcile_targets_at [OF assms(1), of sessions now cutoff protected ?k] at u
    by (auto split: if_splits)
  moreover have "target_key u = ?k"
    using observed_key [OF u] by simp
  moreover have "inactivity_since u None = inactivity_since t (latest_report ?k sessions)"
    using observed_fields [OF u] by (intro inactivity_since_cong) (auto simp: opt_max_commute)
  ultimately show ?thesis by (simp add: retained_def)
qed

lemma watchlist_reconcile_Inr:
  assumes "codec_ok c"
    and "watchlist_reconcile ch c loc rf fault sessions now stale protected start = (Inr ts, file)"
  shows "\<exists>doc cutoff. watchlist_load c loc None start = Inr doc \<and> minus_seconds ch now stale = Inr cutoff \<and>
    watchlist_load c loc None file = Inr (reconcile_targets sessions now cutoff protected doc) \<and>
    ts = wl_targets (reconcile_targets sessions now cutoff protected doc)"
proof -
  from assms(2) obtain doc cutoff where doc: "watchlist_load c loc rf start = Inr doc"
    and cut: "minus_seconds ch now stale = Inr cutoff"
    and ts: "ts = wl_targets (reconcile_targets sessions now cutoff protected doc)"
    and saved: "reconcile_targets sessions now cutoff protected doc = doc \<and> file = start \<or>
      save_document c loc fault (reconcile_targets sessions now cutoff protected doc) start = (Inr (), file)"
    by (auto simp: watchlist_reconcile_def Let_def split: if_splits prod.splits sum.splits)
  have "watchlist_load c loc None start = Inr doc" using doc by (rule watchlist_load_fault)
  moreover from saved this have
    "watchlist_load c loc None file = Inr (reconcile_targets sessions now cutoff protected doc)"
    using watchlist_load_version [OF doc] by (auto intro: watchlist_load_saved [OF assms(1)])
  ultimately show ?thesis using cut ts by blast
qed


section \<open>The service over its lifetime\<close>

text \<open>Requests, plans and commits happen in any order, one at a time.\<close>

inductive daemon_step :: "'b daemon_env \<Rightarrow> 'b daemon \<Rightarrow> 'b daemon \<Rightarrow> bool" for env where
  request: "handle_control env io rq d = (resp, d') \<Longrightarrow> daemon_step env d d'"
| plan: "prepare_reconcile env io d = (r, d') \<Longrightarrow> daemon_step env d d'"
| commit: "commit_reconcile env io p outcome (d, en) = (r, (d', en')) \<Longrightarrow> daemon_step env d d'"
| edited: "daemon_step env d (d\<lparr>dm_config := f, dm_config_stamp := stamp\<rparr>)"

inductive daemon_reachable :: "'b daemon_env \<Rightarrow> 'b daemon \<Rightarrow> bool" for env where
  loaded: "daemon_load env now rf1 rf2 rf3 rf4 fault config wlist rstate control stamp = (Inr d, control') \<Longrightarrow>
    daemon_reachable env d"
| stepped: "daemon_reachable env d \<Longrightarrow> daemon_step env d d' \<Longrightarrow> daemon_reachable env d'"

lemma daemon_step_inv:
  assumes "env_ok env" and "daemon_inv env d" and "daemon_step env d d'"
  shows "daemon_inv env d'"
  using assms(3)
proof cases
  case (request io rq resp)
  then show ?thesis by (rule handle_control_inv [OF assms(1,2)])
next
  case (plan io r)
  then show ?thesis by (rule prepare_reconcile_inv [OF assms(1,2)])
next
  case (commit io p outcome en r en')
  then show ?thesis by (rule commit_reconcile_inv [OF assms(1,2)])
next
  case (edited stamp f)
  have "daemon_inv env (d\<lparr>dm_config := f, dm_config_stamp := stamp\<rparr>)"
    using assms(2) by (simp add: daemon_inv_def revision_recorded_def)
  with edited show ?thesis by (simp only:)
qed


text \<open>Every step changes the watch list, if at all, by one of the calls of its store.\<close>

lemma bump_revision_watchlist:
  "bump_revision env rf fault d = (r, d') \<Longrightarrow> dm_watchlist d' = dm_watchlist d"
  by (auto simp: bump_revision_def update_recovery_permit_def Let_def split: sum.splits prod.splits)

lemma change_watchlist_file:
  assumes "change_watchlist env io change d = (r, d')"
  shows "dm_watchlist d' = dm_watchlist d \<or> dm_watchlist d' = snd (change (dm_watchlist d))"
proof -
  obtain r1 d1 where bump: "bump_revision env (io_read_before io) (io_revision io) d = (r1, d1)"
    by (metis surj_pair)
  then have "dm_watchlist d1 = dm_watchlist d" by (rule bump_revision_watchlist)
  with assms bump show ?thesis
    by (auto simp: change_watchlist_def Let_def split: sum.splits prod.splits)
qed

lemma handle_control_file:
  assumes "handle_control env io request d = (resp, d')"
  shows "dm_watchlist d' = dm_watchlist d \<or> (\<exists>call. dm_watchlist d' =
    watch_exec (de_chrono env) (de_watchlist_codec env) (de_watchlist_loc env) (dm_watchlist d) call)"
  using assms
proof (cases rule: handle_control_dispatch)
  case (run r)
  note dispatch = run(1)
  consider (add) "add_session env io request d = (r, d')"
    | (remove) "remove_session env io request d = (r, d')"
    | (other) "rq_method request \<noteq> ''sessions.add''" "rq_method request \<noteq> ''sessions.remove''"
    using dispatch by (cases "rq_method request \<in> {''sessions.add'', ''sessions.remove''}")
      (auto simp: dispatch_control_def)
  then show ?thesis
  proof cases
    case add
    then show ?thesis
    proof (cases rule: add_session_cases)
      case (change a r')
      from change_watchlist_file [OF change(4)] show ?thesis
        by (metis watch_exec.simps(1))
    qed simp
  next
    case remove
    then show ?thesis
    proof (cases rule: remove_session_cases)
      case (change s r')
      from change_watchlist_file [OF change(3)] show ?thesis
        by (metis watch_exec.simps(2))
    qed simp
  next
    case other
    from dispatch show ?thesis
    proof (cases rule: dispatch_control_cases)
      case (settings configure k s)
      from settings(1) show ?thesis
        by (cases rule: commit_settings_cases) (auto dest: bump_revision_watchlist)
    qed (use other in auto)
  qed
qed simp

lemma reload_file: "reload_external_config env io d = (r, d') \<Longrightarrow> dm_watchlist d' = dm_watchlist d"
  by (auto simp: reload_external_config_def Let_def split: if_splits sum.splits prod.splits
      dest: bump_revision_watchlist)

lemma prepare_reconcile_file: "prepare_reconcile env io d = (r, d') \<Longrightarrow> dm_watchlist d' = dm_watchlist d"
  by (auto simp: prepare_reconcile_def update_recovery_permit_def split: sum.splits prod.splits
      dest: reload_file)

lemma commit_reconcile_file:
  assumes "commit_reconcile env io plan outcome (d, en) = (r, (d', en'))"
  shows "dm_watchlist d' = dm_watchlist d \<or> (\<exists>call. dm_watchlist d' =
    watch_exec (de_chrono env) (de_watchlist_codec env) (de_watchlist_loc env) (dm_watchlist d) call)"
proof (cases "revision d \<noteq> pl_revision plan \<or> pm_generation (dm_permit d) \<noteq> pl_revision plan")
  case False
  let ?call = "(WatchReconcile (oc_sessions outcome) (pl_now plan)
    (stale_after_seconds (st_lifecycle (dm_settings d))) (oc_protected outcome), ci_read_reconcile io,
    ci_watchlist io)"
  have "dm_watchlist d' =
      watch_exec (de_chrono env) (de_watchlist_codec env) (de_watchlist_loc env) (dm_watchlist d) ?call"
    using False assms
    by (auto simp: commit_reconcile_def Let_def update_recovery_permit_def split: sum.splits prod.splits if_splits
        dest!: bump_revision_watchlist)
  then show ?thesis by blast
qed (use assms in \<open>auto simp: commit_reconcile_def\<close>)

lemma daemon_step_file:
  assumes "daemon_step env d d'"
  shows "dm_watchlist d' = dm_watchlist d \<or> (\<exists>call. dm_watchlist d' =
    watch_exec (de_chrono env) (de_watchlist_codec env) (de_watchlist_loc env) (dm_watchlist d) call)"
  using assms
proof cases
  case (request io rq resp)
  then show ?thesis by (rule handle_control_file)
next
  case (plan io r)
  from prepare_reconcile_file [OF this] show ?thesis ..
next
  case (commit io p outcome en r en')
  then show ?thesis by (rule commit_reconcile_file)
qed simp

text \<open>A property of the watch list that its operations keep survives every history of the service.\<close>

lemma daemon_watchlist_keeps:
  assumes "env_ok env" and "(daemon_step env)\<^sup>*\<^sup>* d d'"
    and "watchlist_load (de_watchlist_codec env) (de_watchlist_loc env) None (dm_watchlist d) = Inr doc" and "P doc"
    and "\<And>op doc. P doc \<Longrightarrow> P (watch_apply (de_chrono env) op doc)"
  shows "\<exists>doc'. watchlist_load (de_watchlist_codec env) (de_watchlist_loc env) None (dm_watchlist d') = Inr doc' \<and> P doc'"
  using assms(2)
proof induction
  case base
  with assms(3,4) show ?case by blast
next
  case (step d1 d2)
  then obtain doc' where
    doc': "watchlist_load (de_watchlist_codec env) (de_watchlist_loc env) None (dm_watchlist d1) = Inr doc'" "P doc'"
    by blast
  from daemon_step_file [OF step.hyps(2)] show ?case
  proof
    assume "\<exists>call. dm_watchlist d2 =
      watch_exec (de_chrono env) (de_watchlist_codec env) (de_watchlist_loc env) (dm_watchlist d1) call"
    then obtain op rf fault where "dm_watchlist d2 = watch_exec (de_chrono env) (de_watchlist_codec env)
        (de_watchlist_loc env) (dm_watchlist d1) (op, rf, fault)" by (metis prod_cases3)
    with watch_exec_step [OF env_okD(1) [OF assms(1)], of "de_chrono env" "de_watchlist_loc env"
        "dm_watchlist d1" op rf fault] doc' assms(5) show ?thesis by auto
  qed (use doc' in simp)
qed

lemma daemon_reachable_watchlist:
  assumes "env_ok env" and "daemon_reachable env d"
  shows "\<exists>doc. watchlist_load (de_watchlist_codec env) (de_watchlist_loc env) None (dm_watchlist d) = Inr doc"
  using assms(2)
proof induction
  case (loaded now rf1 rf2 rf3 rf4 fault config wlist rstate control stamp d control')
  then show ?case
    by (auto simp: daemon_load_def watchlist_list_def bindR_Inr_iff dest: watchlist_load_fault
        split: sum.splits prod.splits)
next
  case (stepped d d')
  then show ?case
    using daemon_watchlist_keeps [OF assms(1) r_into_rtranclp [of "daemon_step env" d d'], where P = "\<lambda>doc. True"]
    by auto
qed


section \<open>An example\<close>

definition example_plan :: reconcile_plan where
  "example_plan =
     \<lparr>pl_now = 100 * nanos, pl_revision = 7, pl_targets = [example_target],
      pl_settings = default_settings\<rparr>"

definition example_reconcile :: reconcile_script where
  "example_reconcile =
     \<lparr>rc_order = (\<lambda>names. [''codex'']), rc_built = (\<lambda>name. Inr ()), rc_started = (\<lambda>name. Inr ()),
      rc_recent = (\<lambda>name since. Inr []), rc_pass = example_pass_script\<rparr>"

lemma example_reconcile_sends:
  "Resume ''a'' example_prompt ''codex:a:t1'' \<in>
     set (snd (snd (reconcile_engine chrono_reference example_reconcile example_plan
       (example_engine example_state, 0))))"
proof -
  have window: "stale_after_seconds (st_lifecycle default_settings) = 259200"
    by (simp add: default_settings_def default_lifecycle_settings_def)
  have "minus_seconds chrono_reference (100 * nanos) 259200 = Inr (100 * nanos - 259200 * nanos)"
    by (rule minus_seconds_reference) (simp_all add: nanos_def)
  then have cut: "plan_cutoff chrono_reference example_plan = Inr (- 259100 * nanos)"
    by (simp add: plan_cutoff_def example_plan_def window)
  have same: "(example_engine example_state)\<lparr>en_settings := default_settings\<rparr> = example_engine example_state"
    "en_settings (example_engine example_state) = default_settings"
    by (simp_all add: example_engine_def)
  have disc: "discover chrono_reference example_reconcile example_plan [''codex'']
      (example_engine example_state, [], {}) = Inr (example_engine example_state, [], {})"
    by (simp add: discover_provider_def ensure_provider_def example_engine_def cut provider_call_def
        example_reconcile_def Let_def)
  have live: "filter (unexpired (- 259100 * nanos) (session_activity []) {}) [example_target] = [example_target]"
    by (simp add: unexpired_def session_activity_def hm_get_def example_target_def inactivity_since_def
        nanos_def)
  have "replace_targets [example_target] (example_engine example_state) = example_engine example_state"
    by (simp add: replace_targets_def example_engine_def)
  moreover obtain r en es where run: "run_once_authorized chrono_reference (100 * nanos) 7 example_pass_script
      (example_engine example_state) = (r, en, es)" by (metis surj_pair)
  ultimately have "snd (snd (reconcile_engine chrono_reference example_reconcile example_plan
      (example_engine example_state, 0))) = es"
    using disc cut live
    by (cases r)
      (simp_all add: reconcile_engine_def replace_settings_def Let_def same
        example_plan_def example_reconcile_def)
  with example_run_sends run show ?thesis by simp
qed

text \<open>
  The time after which a session expires is only checked to be positive, but building a
  duration of that many seconds panics when it is out of the crate's range: with valid
  settings, no reconciliation ever returns.
\<close>

definition huge_stale_settings :: settings where
  "huge_stale_settings = default_settings\<lparr>st_lifecycle := \<lparr>stale_after_seconds = 2 ^ 63 - 1\<rparr>\<rparr>"

lemma policy_lifecycle: "policy (s\<lparr>st_lifecycle := l\<rparr>) c = policy s c"
  by (simp add: policy_def)

lemma discover_Inl_panic:
  "discover ch scr plan names acc = Inl e \<Longrightarrow> \<exists>p. plan_cutoff ch plan = Inl p \<and> e = p"
proof (induction names arbitrary: acc)
  case (Cons name names)
  obtain en sessions protected where acc: "acc = (en, sessions, protected)" by (cases acc)
  show ?case
  proof (cases "discover_provider ch scr plan name acc")
    case (Inl e')
    with Cons.prems show ?thesis
      by (cases "plan_cutoff ch plan")
        (auto simp: discover_provider_def acc Let_def split: prod.splits sum.splits)
  next
    case (Inr acc')
    with Cons show ?thesis by simp
  qed
qed simp

lemma huge_stale_after_panics:
  "validate huge_stale_settings = Inr () \<and>
   (\<exists>p. fst (reconcile_engine chrono_reference scr (plan\<lparr>pl_settings := huge_stale_settings\<rparr>) en0) =
      Inl (Panic p))"
proof
  have "validate_resolved huge_stale_settings c = validate_resolved default_settings c" for c
    by (simp add: validate_resolved_def huge_stale_settings_def policy_lifecycle)
  then show "validate huge_stale_settings = Inr ()"
    using default_settings_valid by (simp add: validate_Inr) (simp add: huge_stale_settings_def)
  let ?plan = "plan\<lparr>pl_settings := huge_stale_settings\<rparr>"
  have cut: "plan_cutoff chrono_reference ?plan = Inl (Panic ''TimeDelta::seconds out of bounds'')"
    by (simp add: plan_cutoff_def huge_stale_settings_def minus_seconds_def chrono_reference_def)
  obtain en n closed where repl: "replace_settings (pl_settings ?plan) en0 = ((en, n), closed)"
    by (metis surj_pair)
  have "bindR (discover chrono_reference scr ?plan names acc) (\<lambda>(en1, sessions, protected).
      bindR (plan_cutoff chrono_reference ?plan) (\<lambda>cutoff. Inr (en1, sessions, protected, cutoff))) =
      Inl (Panic ''TimeDelta::seconds out of bounds'')" for names acc
    using cut discover_Inl_panic [of chrono_reference scr ?plan names acc]
    by (cases "discover chrono_reference scr ?plan names acc") auto
  with repl show "\<exists>p. fst (reconcile_engine chrono_reference scr ?plan en0) = Inl (Panic p)"
    by (simp add: reconcile_engine_def)
qed


section \<open>Properties\<close>

text \<open>C18: In every history of the service - requests, edits of the configuration by hand,
  plans and commits, with any of their reads and writes failing - the settings in use are
  valid, the revision in use is the one on disk, the recovery permit is running under
  exactly that revision, and the watch list on disk is readable.  A watch list that is well
  formed - of the supported version, with every session watched at most once and no
  excluded session watched - stays well formed in everything that happens after.\<close>
theorem daemon_always_consistent:
  assumes "env_ok env" and "daemon_reachable env d"
  shows "validate (dm_settings d) = Inr () \<and> revision_recorded env d \<and>
    pm_running (dm_permit d) \<and> pm_generation (dm_permit d) = revision d \<and>
    (\<exists>doc. watchlist_load (de_watchlist_codec env) (de_watchlist_loc env) None (dm_watchlist d) = Inr doc) \<and>
    (\<forall>doc d'. watchlist_load (de_watchlist_codec env) (de_watchlist_loc env) None (dm_watchlist d) = Inr doc \<longrightarrow>
       watchlist_inv doc \<longrightarrow> (daemon_step env)\<^sup>*\<^sup>* d d' \<longrightarrow>
       (\<exists>doc'. watchlist_load (de_watchlist_codec env) (de_watchlist_loc env) None (dm_watchlist d') = Inr doc' \<and>
          watchlist_inv doc'))"
proof -
  from assms(2) have "daemon_inv env d"
  proof induction
    case (loaded now rf1 rf2 rf3 rf4 fault config wlist rstate control stamp d control')
    then show ?case by (rule daemon_load_inv [OF assms(1)])
  next
    case (stepped d d')
    show ?case by (rule daemon_step_inv [OF assms(1) stepped.IH stepped.hyps(2)])
  qed
  then show ?thesis
    using daemon_reachable_watchlist [OF assms]
      daemon_watchlist_keeps [OF assms(1), where P = watchlist_inv, OF _ _ _ watch_apply_inv]
    unfolding daemon_inv_def by blast
qed

theorem daemon_always_consistent_witness:
  "\<exists>d c. daemon_load example_env 0 None None None None NoFault None None None None None = (Inr d, c) \<and>
     pm_generation (dm_permit d) = revision d \<and>
     (\<forall>d'. (daemon_step example_env)\<^sup>*\<^sup>* d d' \<longrightarrow>
        (\<exists>doc'. watchlist_load (de_watchlist_codec example_env) (de_watchlist_loc example_env) None
           (dm_watchlist d') = Inr doc' \<and> watchlist_inv doc'))"
proof -
  have "\<exists>cs c. control_load (de_control_codec example_env) (de_control_loc example_env) None NoFault None =
      (Inr cs, c)"
    by (simp add: control_load_def next_revision_def Let_def save_document_def atomic_write_NoFault)
  then have "\<exists>d c. daemon_load example_env 0 None None None None NoFault None None None None None = (Inr d, c) \<and>
      dm_watchlist d = None"
    by (auto simp: daemon_load_def load_settings_def watchlist_list_def watchlist_load_def
        load_json_or_default_def default_watchlist_def runtime_load_def initial_runtime_state_def)
  then obtain d c where load: "daemon_load example_env 0 None None None None NoFault None None None None None =
      (Inr d, c)" and none: "dm_watchlist d = None" by blast
  have "watchlist_load (de_watchlist_codec example_env) (de_watchlist_loc example_env) None (dm_watchlist d) =
      Inr default_watchlist" and "watchlist_inv default_watchlist"
    by (simp_all add: none watchlist_load_def load_json_or_default_def default_watchlist_def watchlist_inv_def)
  with daemon_always_consistent [OF example_env_ok loaded [OF load]] load show ?thesis by blast
qed

text \<open>C19: A change by the user invalidates a pass in flight.  When a mutation succeeds between
  the plan and the commit, the permit refuses everything the pass still wants to send, and
  the commit discards its result: nothing is changed.\<close>
theorem user_change_invalidates_pass:
  assumes "env_ok env" and "prepare_reconcile env pio d0 = (Inr plan, d1)"
    and "handle_control env io request d1 = (resp, d2)" and "rsp_error resp = None"
    and "is_mutation (rq_method request)" and "unat (revision d1) < u64_max"
  shows "(\<forall>t. \<not> allows (dm_permit d2) t (pl_revision plan)) \<and>
    commit_reconcile env cio plan outcome (d2, en) = (Inr (), (d2, en))"
proof -
  have rev1: "pl_revision plan = revision d1"
    using prepare_reconcile_Inr [OF assms(2)] by auto
  from assms(3) show ?thesis
  proof (cases rule: handle_control_dispatch)
    case version
    with assms(4) show ?thesis by simp
  next
    case (run r)
    with assms(4) obtain v where "dispatch_control env io request d1 = (Inr v, d2)" by auto
    from mutation_bumps [OF assms(1) this assms(5)]
    have "revision d2 = revision_after (revision d1)" "pm_generation (dm_permit d2) = revision d2"
      by simp_all
    moreover have "revision_after (revision d1) \<noteq> revision d1"
      using assms(6) unat_revision_after [of "revision d1"] by auto
    ultimately show ?thesis
      using revision_not_allowed [OF _ assms(6), of "dm_permit d2"] rev1
      by (simp add: commit_reconcile_def)
  qed
qed

theorem user_change_invalidates_pass_witness:
  "\<exists>plan d2. fst (prepare_reconcile example_env \<lparr>pi_now = 0, pi_read_config = None,
       pi_read_reload = None, pi_revision = NoFault, pi_read_targets = None\<rparr> example_daemon) = Inr plan \<and>
     snd (handle_control example_env example_io example_remove example_daemon) = d2 \<and>
     (\<forall>t. \<not> allows (dm_permit d2) t (pl_revision plan))"
proof -
  let ?io = "\<lparr>pi_now = 0, pi_read_config = None, pi_read_reload = None, pi_revision = NoFault,
    pi_read_targets = None\<rparr>"
  have "reload_external_config example_env ?io example_daemon = (Inr (), example_daemon)"
    by (simp add: reload_external_config_def example_daemon_def)
  moreover have "update_recovery_permit [] example_daemon = example_daemon"
    by (simp add: update_recovery_permit_def example_daemon_def permit_new_def permit_update_def
        revision_def example_control_def default_permit_def)
  ultimately obtain plan where plan: "prepare_reconcile example_env ?io example_daemon = (Inr plan, example_daemon)"
    by (simp add: prepare_reconcile_def example_list)
  obtain resp d2 where run: "handle_control example_env example_io example_remove example_daemon = (resp, d2)"
    by (metis surj_pair)
  then have ok: "rsp_error resp = None" using example_remove_runs by simp
  have "is_mutation (rq_method example_remove)"
    by (simp add: is_mutation_def example_remove_def example_request_def)
  moreover have "unat (revision example_daemon) < u64_max"
    by (simp add: revision_def example_daemon_def example_control_def u64_max_def)
  ultimately show ?thesis
    using user_change_invalidates_pass [OF example_env_ok plan run ok] plan run by auto
qed

text \<open>A reconciliation never resumes a session that has expired: whatever the pass sends
  goes to a watched session that was active since the cutoff, or whose provider reports it
  as active or without a time, or whose provider could not be asked.\<close>
lemma expired_sessions_not_resumed:
  assumes "chrono_exact ch" and "reconcile_engine ch scr plan en0 = (r, (en', n'), es)"
    and "Resume sid prompt k \<in> set es"
  shows "\<exists>t \<in> set (pl_targets plan). wt_session_id t = sid \<and>
    (\<exists>sessions. (\<forall>s \<in> set sessions. reported scr s) \<and>
      (inactivity_since t (case hm_get (session_activity sessions) (target_key t) of None \<Rightarrow> None | Some u \<Rightarrow> u)
         \<ge> pl_now plan - stale_after_seconds (st_lifecycle (pl_settings plan)) * nanos \<or>
       (\<exists>s \<in> set sessions. session_key s = target_key t \<and> (se_state s = SessionActive \<or> se_updated_at s = None)) \<or>
       (\<exists>name. provider_failed ch scr plan name \<and> target_key t \<in> keys_of_provider name (pl_targets plan))))"
  using assms(2)
proof (cases rule: reconcile_engine_cases)
  case undiscovered
  with assms(3) show ?thesis by simp
next
  case (pass en1 sessions protected cutoff r')
  from assms(3) pass(3) run_once_resume_target [of sid prompt k ch "pl_now plan" "pl_revision plan"
      "rc_pass scr" "replace_targets (filter (unexpired cutoff (session_activity sessions) protected)
        (pl_targets plan)) en1"]
  obtain t where t: "t \<in> set (pl_targets plan)" "wt_session_id t = sid"
    and live: "unexpired cutoff (session_activity sessions) protected t"
    by auto
  from pass(2) have "\<forall>s \<in> set sessions. reported scr s" by (simp add: discovery_ok_def)
  moreover have "target_key t \<in> protected \<Longrightarrow>
      (\<exists>s \<in> set sessions. session_key s = target_key t \<and> needs_protection s) \<or>
      (\<exists>name. provider_failed ch scr plan name \<and> target_key t \<in> keys_of_provider name (pl_targets plan))"
    using pass(2) by (simp add: discovery_ok_def)
  ultimately show ?thesis
    using t live plan_cutoff_exact [OF assms(1) pass(1)]
    by (intro bexI [OF _ t(1)] conjI exI [of _ sessions])
      (auto simp: unexpired_def needs_protection_def)
qed

text \<open>C20: A commit drops a watched session, whether discovered or added by hand, only if it is
  idle: not protected, and inactive - by its own record, by every report of the providers
  and, for one added by hand, since its addition - for longer than the configured time.\<close>
theorem commit_drops_only_idle:
  assumes "env_ok env" and "chrono_exact (de_chrono env)"
    and "commit_reconcile env io plan outcome (d, en) = (Inr (), (d', en'))"
    and "watchlist_load (de_watchlist_codec env) (de_watchlist_loc env) None (dm_watchlist d) = Inr doc"
    and "watchlist_inv doc" and "t \<in> set (wl_targets doc)"
    and "watchlist_load (de_watchlist_codec env) (de_watchlist_loc env) None (dm_watchlist d') = Inr doc'"
    and "target_key t \<notin> target_key ` set (wl_targets doc')"
  shows "target_key t \<notin> oc_protected outcome \<and>
    inactivity_since t (latest_report (target_key t) (oc_sessions outcome))
      < pl_now plan - stale_after_seconds (st_lifecycle (dm_settings d)) * nanos"
  using assms(3)
proof (cases rule: commit_reconcile_cases)
  case stale
  with assms(4,6,7,8) show ?thesis by auto
next
  case (committed targets f d2)
  have "dm_watchlist d' = f"
    using committed(3,5) bump_revision_effect(5) [OF assms(1)] by (auto split: if_splits)
  with watchlist_reconcile_Inr [OF env_okD(1) [OF assms(1)] committed(2)] assms(4,7)
  obtain cutoff where cut: "minus_seconds (de_chrono env) (pl_now plan)
      (stale_after_seconds (st_lifecycle (dm_settings d))) = Inr cutoff"
    and doc': "doc' = reconcile_targets (oc_sessions outcome) (pl_now plan) cutoff (oc_protected outcome) doc"
    by auto
  from reconcile_drop [OF assms(5,6) assms(8) [unfolded doc']] minus_seconds_exact [OF assms(2) cut]
  show ?thesis by simp
qed simp_all

definition example_watched :: watchlist where
  "example_watched = default_watchlist\<lparr>wl_targets := [example_target]\<rparr>"

theorem commit_drops_only_idle_witness:
  "inactivity_since example_target (latest_report (target_key example_target) []) < 1000000 * nanos -
     stale_after_seconds (st_lifecycle default_settings) * nanos"
proof -
  let ?d = "example_daemon\<lparr>dm_watchlist := Some (WatchFile example_watched)\<rparr>"
  let ?plan = "\<lparr>pl_now = 1000000 * nanos, pl_revision = 3, pl_targets = [], pl_settings = default_settings\<rparr>"
  let ?outcome = "\<lparr>oc_events = [], oc_sessions = [], oc_protected = {}\<rparr>"
  let ?io = "\<lparr>ci_read_reconcile = None, ci_watchlist = NoFault, ci_read_bump = None, ci_revision = NoFault\<rparr>"
  have window: "stale_after_seconds (st_lifecycle (dm_settings example_daemon)) = 259200"
    by (simp add: example_daemon_def default_settings_def default_lifecycle_settings_def)
  have cut: "minus_seconds chrono_reference (1000000 * nanos) 259200 = Inr (740800 * nanos)"
    by (simp add: minus_seconds_def chrono_reference_def nanos_def)
  have load: "watchlist_load (de_watchlist_codec example_env) (de_watchlist_loc example_env) None
      (Some (WatchFile example_watched)) = Inr example_watched"
    by (simp add: watchlist_load_def load_json_or_default_def load_document_def example_watched_def
        default_watchlist_def)
  have rec: "reconcile_targets [] (1000000 * nanos) (740800 * nanos) {} example_watched =
      default_watchlist"
    by (simp add: reconcile_targets_def Let_def example_watched_def default_watchlist_def retained_def
        inactivity_since_def example_target_def nanos_def positions_of_def)
  have "example_watched \<noteq> default_watchlist"
    by (simp add: example_watched_def default_watchlist_def)
  then have run: "watchlist_reconcile chrono_reference (de_watchlist_codec example_env) (de_watchlist_loc example_env)
      None NoFault [] (1000000 * nanos) 259200 {} (Some (WatchFile example_watched)) =
      (Inr [], Some (WatchFile default_watchlist))"
    using cut load
    by (simp add: watchlist_reconcile_def rec Let_def save_document_def atomic_write_NoFault)
      (simp add: default_watchlist_def)
  have "revision example_daemon = 3" "pm_generation (dm_permit example_daemon) = 3"
    by (simp_all add: revision_def example_daemon_def example_control_def permit_new_def permit_update_def)
  then obtain d' en' where commit: "commit_reconcile example_env ?io ?plan ?outcome (?d, example_engine example_state) =
      (Inr (), (d', en'))" and w: "dm_watchlist d' = Some (WatchFile default_watchlist)"
    using run by (simp add: commit_reconcile_def window Let_def)
  have load': "watchlist_load (de_watchlist_codec example_env) (de_watchlist_loc example_env) None
      (dm_watchlist d') = Inr default_watchlist"
    by (simp add: w watchlist_load_def load_json_or_default_def load_document_def default_watchlist_def)
  have "watchlist_inv example_watched" "example_target \<in> set (wl_targets example_watched)"
    "target_key example_target \<notin> target_key ` set (wl_targets default_watchlist)"
    by (simp_all add: watchlist_inv_def example_watched_def default_watchlist_def)
  moreover have "chrono_exact (de_chrono example_env)" by simp
  ultimately show ?thesis
    using commit_drops_only_idle [OF example_env_ok _ commit _ _ _ load'] load
    by (simp add: example_daemon_def)
qed

end
