(* ===== verification/Retry_Registry.thy ===== *)
theory Retry_Registry
  imports Protocol Engine
begin

text \<open>
  The registry of manual retries (\<open>RetryOperationRegistry\<close> of \<open>daemon.rs\<close>): operations are
  accepted once per request key, at most 32 are pending, at most 256 are remembered, and
  each change is written to disk before it is visible, or undone.  Fresh operation ids
  and readings of the clock are arguments.  Where the code picks one of several
  candidates of the map, the model takes the first in its iteration order.
\<close>


section \<open>State and operations\<close>

record retry_operation =
  ro_operation_id :: string
  ro_provider :: string
  ro_session_id :: string
  ro_request_key :: string
  ro_status :: string
  ro_result :: "json option"
  ro_error :: "string option"
  ro_updated_at :: timestamp

record retry_document =
  rd_version :: u32
  rd_operations :: "retry_operation list"

type_synonym registry = "(string, retry_operation) dict"

definition operation_value :: "chrono \<Rightarrow> retry_operation \<Rightarrow> json" where
  "operation_value ch o' = json_object
     [(''operation_id'', JString (ro_operation_id o')),
      (''provider'', JString (ro_provider o')),
      (''session_id'', JString (ro_session_id o')),
      (''status'', JString (ro_status o')),
      (''result'', json_opt id (ro_result o')),
      (''error'', json_opt JString (ro_error o')),
      (''updated_at'', JString (ch_show ch (ro_updated_at o')))]"

definition is_pending :: "retry_operation \<Rightarrow> bool" where
  "is_pending o' \<longleftrightarrow> ro_status o' = ''accepted'' \<or> ro_status o' = ''running''"

definition of_session :: "session_ref \<Rightarrow> retry_operation \<Rightarrow> bool" where
  "of_session s o' \<longleftrightarrow> ro_provider o' = sr_provider s \<and> ro_session_id o' = sr_session_id s"

definition registry_save ::
    "('b, retry_document) codec \<Rightarrow> location \<Rightarrow> 'b fault \<Rightarrow> registry \<Rightarrow> 'b option \<Rightarrow>
     unit result \<times> 'b option" where
  "registry_save c loc fault reg file =
     save_document c loc fault
       \<lparr>rd_version = 1, rd_operations = sort_key ro_updated_at (hm_values reg)\<rparr> file"

text \<open>\<open>now i\<close> is the clock while the i-th operation of the document is read.\<close>

definition interrupt_operation :: "timestamp \<Rightarrow> retry_operation \<Rightarrow> retry_operation" where
  "interrupt_operation now o' =
     (if is_pending o'
      then o'\<lparr>ro_status := ''unknown'',
              ro_error := Some ''Watchcat restarted before this retry reached a confirmed result'',
              ro_updated_at := now\<rparr>
      else o')"

definition collect_operations :: "(nat \<Rightarrow> timestamp) \<Rightarrow> retry_operation list \<Rightarrow> registry" where
  "collect_operations now os =
     foldl (\<lambda>reg (i, o'). let o1 = interrupt_operation (now i) o'
        in hm_insert (ro_operation_id o1) o1 reg) [] (enumerate 0 os)"

definition registry_load ::
    "('b, retry_document) codec \<Rightarrow> location \<Rightarrow> string option \<Rightarrow> (nat \<Rightarrow> timestamp) \<Rightarrow> 'b fault \<Rightarrow>
     'b option \<Rightarrow> registry result \<times> 'b option" where
  "registry_load c loc rf now fault file =
     (let loaded =
        (case file of
           None \<Rightarrow> Inr []
         | Some bytes \<Rightarrow>
             bindR (load_document c (''cannot read '' @ loc_path loc)
                 (''invalid retry operation state '' @ loc_path loc) rf
                 \<lparr>rd_version = 1, rd_operations = []\<rparr> file)
               (\<lambda>d. if rd_version d \<noteq> 1
                  then bail (''unsupported retry operation state version '' @
                    show_nat (unat (rd_version d)))
                  else Inr (collect_operations now (rd_operations d))))
      in case loaded of
           Inl e \<Rightarrow> (Inl e, file)
         | Inr reg \<Rightarrow>
             (case registry_save c loc fault reg file of
                (Inl e, file') \<Rightarrow> (Inl e, file')
              | (Inr _, file') \<Rightarrow> (Inr reg, file')))"

text \<open>The first operation with the smallest time stamp among those that are not pending.\<close>

fun min_by_updated_at :: "retry_operation list \<Rightarrow> retry_operation option" where
  "min_by_updated_at [] = None"
| "min_by_updated_at (o' # os) =
     (case min_by_updated_at os of
        None \<Rightarrow> Some o'
      | Some m \<Rightarrow> Some (if ro_updated_at m < ro_updated_at o' then m else o'))"

definition evict_oldest :: "registry \<Rightarrow> registry" where
  "evict_oldest reg =
     (if 256 \<le> length reg
      then case min_by_updated_at (filter (\<lambda>o'. \<not> is_pending o') (hm_values reg)) of
          Some oldest \<Rightarrow> hm_remove (ro_operation_id oldest) reg
        | None \<Rightarrow> reg
      else reg)"

definition registry_accept ::
    "('b, retry_document) codec \<Rightarrow> location \<Rightarrow> 'b fault \<Rightarrow> string \<Rightarrow> timestamp \<Rightarrow> session_ref \<Rightarrow>
     string \<Rightarrow> registry \<times> 'b option \<Rightarrow> (retry_operation \<times> bool) result \<times> (registry \<times> 'b option)"
  where
  "registry_accept c loc fault fresh now session request_key = (\<lambda>(reg, file).
     if blank request_key
     then (bail ''request_key is required for manual retry'', (reg, file))
     else case find (\<lambda>o'. ro_request_key o' = request_key) (hm_values reg) of
       Some o' \<Rightarrow>
         if \<not> of_session session o'
         then (bail ''request_key already belongs to another session'', (reg, file))
         else (Inr (o', False), (reg, file))
     | None \<Rightarrow>
         (case find (\<lambda>o'. is_pending o' \<and> of_session session o') (hm_values reg) of
            Some o' \<Rightarrow> (Inr (o', False), (reg, file))
          | None \<Rightarrow>
              if 32 \<le> length (filter is_pending (hm_values reg))
              then (bail ''too many manual retry operations are already pending'', (reg, file))
              else
                let o' = \<lparr>ro_operation_id = fresh, ro_provider = sr_provider session,
                          ro_session_id = sr_session_id session, ro_request_key = request_key,
                          ro_status = ''accepted'', ro_result = None, ro_error = None,
                          ro_updated_at = now\<rparr>;
                    reg' = hm_insert (ro_operation_id o') o' (evict_oldest reg)
                in case registry_save c loc fault reg' file of
                     (Inl e, file') \<Rightarrow> (Inl e, (reg, file'))
                   | (Inr _, file') \<Rightarrow> (Inr (o', True), (reg', file'))))"

definition find_request ::
    "session_ref \<Rightarrow> string \<Rightarrow> registry \<Rightarrow> retry_operation option result" where
  "find_request session request_key reg =
     (case find (\<lambda>o'. ro_request_key o' = request_key) (hm_values reg) of
        None \<Rightarrow> Inr None
      | Some o' \<Rightarrow>
          if \<not> of_session session o'
          then bail ''request_key already belongs to another session''
          else Inr (Some o'))"

definition set_running ::
    "('b, retry_document) codec \<Rightarrow> location \<Rightarrow> 'b fault \<Rightarrow> timestamp \<Rightarrow> string \<Rightarrow>
     registry \<times> 'b option \<Rightarrow> unit result \<times> (registry \<times> 'b option)" where
  "set_running c loc fault now operation_id = (\<lambda>(reg, file).
     let reg' = (case hm_get reg operation_id of
           Some o' \<Rightarrow>
             hm_insert operation_id (o'\<lparr>ro_status := ''running'', ro_updated_at := now\<rparr>) reg
         | None \<Rightarrow> reg)
     in case registry_save c loc fault reg' file of
          (Inl e, file') \<Rightarrow> (Inl e, (reg, file'))
        | (Inr _, file') \<Rightarrow> (Inr (), (reg', file')))"

definition conclude_operation :: "timestamp \<Rightarrow> json result \<Rightarrow> retry_operation \<Rightarrow> retry_operation" where
  "conclude_operation now result o' =
     (case result of
        Inr v \<Rightarrow>
          o'\<lparr>ro_status := ''succeeded'', ro_result := Some v, ro_error := None,
             ro_updated_at := now\<rparr>
      | Inl e \<Rightarrow>
          o'\<lparr>ro_status := (if acknowledgement_is_unknown e then ''unknown'' else ''failed''),
             ro_result := None, ro_error := Some (error_chain_text e),
             ro_updated_at := now\<rparr>)"

definition registry_finish ::
    "('b, retry_document) codec \<Rightarrow> location \<Rightarrow> 'b fault \<Rightarrow> timestamp \<Rightarrow> string \<Rightarrow> json result \<Rightarrow>
     registry \<times> 'b option \<Rightarrow> retry_operation option result \<times> (registry \<times> 'b option)" where
  "registry_finish c loc fault now operation_id result = (\<lambda>(reg, file).
     case hm_get reg operation_id of
       None \<Rightarrow> (Inr None, (reg, file))
     | Some o' \<Rightarrow>
         let o1 = conclude_operation now result o'; reg' = hm_insert operation_id o1 reg
         in (case registry_save c loc fault reg' file of
               (Inl e, file') \<Rightarrow> (Inl e, (reg, file'))
             | (Inr _, file') \<Rightarrow> (Inr (Some o1), (reg', file'))))"

text \<open>
  The connection handler takes back an acceptance whose response could not be delivered;
  when that cannot be written the operation stays.
\<close>

definition withdraw ::
    "('b, retry_document) codec \<Rightarrow> location \<Rightarrow> 'b fault \<Rightarrow> string \<Rightarrow>
     registry \<times> 'b option \<Rightarrow> unit result \<times> (registry \<times> 'b option)" where
  "withdraw c loc fault operation_id = (\<lambda>(reg, file).
     let reg' = hm_remove operation_id reg
     in case registry_save c loc fault reg' file of
          (Inl e, file') \<Rightarrow> (Inl e, (reg, file'))
        | (Inr _, file') \<Rightarrow> (Inr (), (reg', file')))"


section \<open>Undoing and writing\<close>

interpretation retry_accept: transactional
  "\<lambda>(fault, fresh, now, session, key). registry_accept c loc fault fresh now session key" for c loc
  by unfold_locales
    (auto simp: registry_accept_def Let_def registry_save_def dest: save_document_Inl
      split: prod.splits sum.splits option.splits if_splits)

interpretation retry_running: transactional
  "\<lambda>(fault, now, operation_id). set_running c loc fault now operation_id" for c loc
  by unfold_locales
    (auto simp: set_running_def Let_def registry_save_def dest: save_document_Inl
      split: prod.splits sum.splits)

interpretation retry_finish: transactional
  "\<lambda>(fault, now, operation_id, result). registry_finish c loc fault now operation_id result" for c loc
  by unfold_locales
    (auto simp: registry_finish_def Let_def registry_save_def dest: save_document_Inl
      split: prod.splits sum.splits option.splits)

interpretation retry_withdraw: transactional
  "\<lambda>(fault, operation_id). withdraw c loc fault operation_id" for c loc
  by unfold_locales
    (auto simp: withdraw_def Let_def registry_save_def dest: save_document_Inl
      split: prod.splits sum.splits)

text \<open>The file holds the registry.\<close>

definition on_disk :: "('b, retry_document) codec \<Rightarrow> registry \<Rightarrow> 'b option \<Rightarrow> bool" where
  "on_disk c reg file \<longleftrightarrow>
     (\<exists>b. file = Some b \<and> dec c b =
        Inr \<lparr>rd_version = 1, rd_operations = sort_key ro_updated_at (hm_values reg)\<rparr>)"

lemma registry_save_on_disk:
  "codec_ok c \<Longrightarrow> registry_save c loc fault reg file = (Inr u, file') \<Longrightarrow> on_disk c reg file'"
  by (auto simp: registry_save_def on_disk_def dest: save_document_Inr)

lemma set_running_Inr:
  assumes "codec_ok c" and "set_running c loc fault now i (reg, file) = (Inr u, (reg', file'))"
  shows "on_disk c reg' file' \<and>
    reg' = (case hm_get reg i of
        Some o' \<Rightarrow> hm_insert i (o'\<lparr>ro_status := ''running'', ro_updated_at := now\<rparr>) reg
      | None \<Rightarrow> reg)"
  using assms(2)
  by (auto simp: set_running_def Let_def dest: registry_save_on_disk [OF assms(1)]
      split: prod.splits sum.splits)

lemma registry_finish_Inr:
  assumes "codec_ok c" and "registry_finish c loc fault now i result (reg, file) = (Inr r, (reg', file'))"
    and "on_disk c reg file"
  shows "on_disk c reg' file' \<and>
    (case hm_get reg i of
       None \<Rightarrow> r = None \<and> reg' = reg
     | Some o' \<Rightarrow> r = Some (conclude_operation now result o') \<and> reg' = hm_insert i (conclude_operation now result o') reg)"
  using assms(2,3)
  by (auto simp: registry_finish_def Let_def dest: registry_save_on_disk [OF assms(1)]
      split: prod.splits sum.splits option.splits)

lemma withdraw_Inr:
  assumes "codec_ok c" and "withdraw c loc fault i (reg, file) = (Inr u, (reg', file'))"
  shows "on_disk c reg' file' \<and> reg' = hm_remove i reg"
  using assms(2)
  by (auto simp: withdraw_def Let_def dest: registry_save_on_disk [OF assms(1)]
      split: prod.splits sum.splits)

text \<open>An accepted request either names an operation that is there or starts a new one.\<close>

lemma registry_accept_Inr:
  assumes "codec_ok c"
    and "registry_accept c loc fault fresh now session key (reg, file) = (Inr (o', started), (reg', file'))"
  shows "\<not> blank key \<and>
    (if started
     then find (\<lambda>o'. ro_request_key o' = key) (hm_values reg) = None \<and>
       find (\<lambda>o'. is_pending o' \<and> of_session session o') (hm_values reg) = None \<and>
       length (filter is_pending (hm_values reg)) < 32 \<and>
       o' = \<lparr>ro_operation_id = fresh, ro_provider = sr_provider session,
             ro_session_id = sr_session_id session, ro_request_key = key,
             ro_status = ''accepted'', ro_result = None, ro_error = None, ro_updated_at = now\<rparr> \<and>
       reg' = hm_insert fresh o' (evict_oldest reg) \<and> on_disk c reg' file'
     else reg' = reg \<and> file' = file \<and> o' \<in> set (hm_values reg) \<and> of_session session o' \<and>
       (ro_request_key o' = key \<or>
        is_pending o' \<and> find (\<lambda>o'. ro_request_key o' = key) (hm_values reg) = None))"
  using assms(2)
  by (auto simp: registry_accept_def Let_def dest!: find_Some_mem
      dest: registry_save_on_disk [OF assms(1)]
      split: prod.splits sum.splits option.splits if_splits)


section \<open>The invariant\<close>

definition registry_inv :: "registry \<Rightarrow> bool" where
  "registry_inv reg \<longleftrightarrow>
     hm_wf reg \<and> length reg \<le> 256 \<and> length (filter is_pending (hm_values reg)) \<le> 32 \<and>
     (\<forall>i o'. hm_get reg i = Some o' \<longrightarrow> ro_operation_id o' = i) \<and>
     (\<forall>i j o1 o2. hm_get reg i = Some o1 \<longrightarrow> hm_get reg j = Some o2 \<longrightarrow>
        ro_request_key o1 = ro_request_key o2 \<longrightarrow> i = j) \<and>
     (\<forall>i j o1 o2. hm_get reg i = Some o1 \<longrightarrow> hm_get reg j = Some o2 \<longrightarrow>
        is_pending o1 \<longrightarrow> is_pending o2 \<longrightarrow> ro_provider o1 = ro_provider o2 \<longrightarrow>
        ro_session_id o1 = ro_session_id o2 \<longrightarrow> i = j)"

lemma registry_invD:
  assumes "registry_inv reg"
  shows "hm_wf reg" and "length reg \<le> 256" and "length (filter is_pending (hm_values reg)) \<le> 32"
    and "hm_get reg i = Some o1 \<Longrightarrow> ro_operation_id o1 = i"
    and "hm_get reg i = Some o1 \<Longrightarrow> hm_get reg j = Some o2 \<Longrightarrow>
      ro_request_key o1 = ro_request_key o2 \<Longrightarrow> i = j"
    and "hm_get reg i = Some o1 \<Longrightarrow> hm_get reg j = Some o2 \<Longrightarrow> is_pending o1 \<Longrightarrow> is_pending o2 \<Longrightarrow>
      ro_provider o1 = ro_provider o2 \<Longrightarrow> ro_session_id o1 = ro_session_id o2 \<Longrightarrow> i = j"
  using assms unfolding registry_inv_def by blast+

lemma registry_invI:
  assumes "hm_wf reg" and "length reg \<le> 256" and "length (filter is_pending (hm_values reg)) \<le> 32"
    and "\<And>i o1. hm_get reg i = Some o1 \<Longrightarrow> ro_operation_id o1 = i"
    and "\<And>i j o1 o2. hm_get reg i = Some o1 \<Longrightarrow> hm_get reg j = Some o2 \<Longrightarrow>
      ro_request_key o1 = ro_request_key o2 \<Longrightarrow> i = j"
    and "\<And>i j o1 o2. hm_get reg i = Some o1 \<Longrightarrow> hm_get reg j = Some o2 \<Longrightarrow> is_pending o1 \<Longrightarrow>
      is_pending o2 \<Longrightarrow> ro_provider o1 = ro_provider o2 \<Longrightarrow>
      ro_session_id o1 = ro_session_id o2 \<Longrightarrow> i = j"
  shows "registry_inv reg"
  using assms unfolding registry_inv_def by blast

text \<open>
  A registry all of whose operations stand for operations of another one that satisfies
  the invariant, pending only where those are.
\<close>

lemma registry_inv_transfer:
  assumes "registry_inv reg0" and "hm_wf reg" and "length reg \<le> 256"
    and "length (filter is_pending (hm_values reg)) \<le> 32"
    and "\<And>k v. hm_get reg k = Some v \<Longrightarrow>
      \<exists>w. hm_get reg0 k = Some w \<and> ro_operation_id v = ro_operation_id w \<and>
        ro_request_key v = ro_request_key w \<and> ro_provider v = ro_provider w \<and>
        ro_session_id v = ro_session_id w \<and> (is_pending v \<longrightarrow> is_pending w)"
  shows "registry_inv reg"
proof (rule registry_invI [OF assms(2-4)])
  note inv = registry_invD [OF assms(1)]
  fix i j o1 o2
  assume i: "hm_get reg i = Some o1"
  from assms(5) [OF i] obtain w1 where w1: "hm_get reg0 i = Some w1"
    "ro_operation_id o1 = ro_operation_id w1" "ro_request_key o1 = ro_request_key w1"
    "ro_provider o1 = ro_provider w1" "ro_session_id o1 = ro_session_id w1"
    "is_pending o1 \<longrightarrow> is_pending w1" by blast
  then show "ro_operation_id o1 = i" using inv(4) by metis
  assume j: "hm_get reg j = Some o2"
  from assms(5) [OF j] obtain w2 where w2: "hm_get reg0 j = Some w2"
    "ro_operation_id o2 = ro_operation_id w2" "ro_request_key o2 = ro_request_key w2"
    "ro_provider o2 = ro_provider w2" "ro_session_id o2 = ro_session_id w2"
    "is_pending o2 \<longrightarrow> is_pending w2" by blast
  show "i = j" if "ro_request_key o1 = ro_request_key o2"
    by (rule inv(5) [OF w1(1) w2(1)]) (use w1 w2 that in simp)
  show "i = j" if "is_pending o1" "is_pending o2" "ro_provider o1 = ro_provider o2"
    "ro_session_id o1 = ro_session_id o2"
    by (rule inv(6) [OF w1(1) w2(1)]) (use w1 w2 that in simp_all)
qed

lemma registry_inv_empty [simp]: "registry_inv []"
  by (simp add: registry_inv_def hm_get_def hm_values_def hm_wf_def)

lemma hm_insert_new: "k \<notin> fst ` set m \<Longrightarrow> hm_insert k v m = m @ [(k, v)]"
  unfolding hm_insert_def by (induction m) auto

lemma length_hm_insert_same: "hm_get m k \<noteq> None \<Longrightarrow> length (hm_insert k v m) = length m"
  unfolding hm_insert_def hm_get_def by (induction m) auto

lemma pending_hm_insert_same:
  "hm_get m k = Some v0 \<Longrightarrow> (P v \<longrightarrow> P v0) \<Longrightarrow>
     length (filter P (hm_values (hm_insert k v m))) \<le> length (filter P (hm_values m))"
  unfolding hm_insert_def hm_get_def hm_values_def by (induction m) (auto split: if_splits)

text \<open>Changing an operation in place, keeping its identity, and pending only if it was.\<close>

lemma registry_inv_update:
  assumes "registry_inv reg" and "hm_get reg i = Some o0"
    and "ro_operation_id o1 = ro_operation_id o0" and "ro_request_key o1 = ro_request_key o0"
    and "ro_provider o1 = ro_provider o0" and "ro_session_id o1 = ro_session_id o0"
    and "is_pending o1 \<longrightarrow> is_pending o0"
  shows "registry_inv (hm_insert i o1 reg)"
proof (rule registry_inv_transfer [OF assms(1)])
  note inv = registry_invD [OF assms(1)]
  show "hm_wf (hm_insert i o1 reg)" using inv(1) by (rule hash.wf_insert)
  show "length (hm_insert i o1 reg) \<le> 256"
    using inv(2) assms(2) by (simp add: length_hm_insert_same)
  show "length (filter is_pending (hm_values (hm_insert i o1 reg))) \<le> 32"
    using pending_hm_insert_same [OF assms(2,7)] inv(3) by (rule order.trans)
  fix k v assume "hm_get (hm_insert i o1 reg) k = Some v"
  with assms(2-) show "\<exists>w. hm_get reg k = Some w \<and> ro_operation_id v = ro_operation_id w \<and>
        ro_request_key v = ro_request_key w \<and> ro_provider v = ro_provider w \<and>
        ro_session_id v = ro_session_id w \<and> (is_pending v \<longrightarrow> is_pending w)"
    by (cases "k = i") auto
qed

lemma registry_inv_filter:
  assumes "registry_inv reg"
  shows "registry_inv (hm_remove i reg)"
proof (rule registry_inv_transfer [OF assms])
  note inv = registry_invD [OF assms]
  show "hm_wf (hm_remove i reg)" using inv(1) by (rule hash.wf_remove)
  show "length (hm_remove i reg) \<le> 256"
    using inv(2) by (simp add: hm_remove_def) (meson length_filter_le order.trans)
  have "length (filter is_pending (hm_values (hm_remove i reg))) \<le>
      length (filter is_pending (hm_values reg))"
    unfolding hm_remove_def hm_values_def by (induction reg) auto
  then show "length (filter is_pending (hm_values (hm_remove i reg))) \<le> 32"
    using inv(3) by (rule order.trans)
  fix k v assume "hm_get (hm_remove i reg) k = Some v"
  then have "hm_get reg k = Some v" by (auto simp: hash.get_remove split: if_splits)
  then show "\<exists>w. hm_get reg k = Some w \<and> ro_operation_id v = ro_operation_id w \<and>
        ro_request_key v = ro_request_key w \<and> ro_provider v = ro_provider w \<and>
        ro_session_id v = ro_session_id w \<and> (is_pending v \<longrightarrow> is_pending w)" by blast
qed

text \<open>Eviction removes one finished operation when the registry is full.\<close>

lemma min_by_updated_at_None [simp]: "min_by_updated_at os = None \<longleftrightarrow> os = []"
  by (cases os) (simp_all split: option.splits)

lemma min_by_updated_at_Some: "min_by_updated_at os = Some m \<Longrightarrow>
    m \<in> set os \<and> (\<forall>o' \<in> set os. ro_updated_at m \<le> ro_updated_at o')"
proof (induction os arbitrary: m)
  case (Cons a os)
  show ?case
  proof (cases "min_by_updated_at os")
    case None
    with Cons.prems show ?thesis by simp
  next
    case (Some n)
    from Cons.IH [OF Some] Cons.prems Some show ?thesis
      by (cases "ro_updated_at n < ro_updated_at a") force+
  qed
qed simp

lemma evict_oldest_cases:
  assumes "registry_inv reg"
  obtains "evict_oldest reg = reg" and "length reg < 256 \<or> list_all is_pending (hm_values reg)"
  | i oldest where "evict_oldest reg = hm_remove i reg" and "hm_get reg i = Some oldest"
    and "\<not> is_pending oldest" and "length reg = 256"
    and "\<forall>o' \<in> set (hm_values reg). is_pending o' \<or> ro_updated_at oldest \<le> ro_updated_at o'"
proof (cases "256 \<le> length reg")
  case True
  then have len: "length reg = 256"
    using registry_invD(2) [OF assms] by simp
  show ?thesis
  proof (cases "min_by_updated_at (filter (\<lambda>o'. \<not> is_pending o') (hm_values reg))")
    case None
    then have "list_all is_pending (hm_values reg)"
      by (simp add: filter_empty_conv list_all_iff)
    with None True show ?thesis by (intro that(1)) (simp_all add: evict_oldest_def)
  next
    case (Some oldest)
    then have mem: "oldest \<in> set (hm_values reg)" "\<not> is_pending oldest"
      and least: "\<forall>o' \<in> set (hm_values reg). is_pending o' \<or> ro_updated_at oldest \<le> ro_updated_at o'"
      using min_by_updated_at_Some [OF Some] by auto
    from mem(1) obtain i where i: "hm_get reg i = Some oldest"
      using hash.values_iff [OF registry_invD(1) [OF assms], THEN iffD1] by blast
    then have "ro_operation_id oldest = i"
      by (rule registry_invD(4) [OF assms])
    with Some True have "evict_oldest reg = hm_remove i reg"
      by (simp add: evict_oldest_def)
    from that(2) [OF this i mem(2) len least] show ?thesis .
  qed
next
  case False
  then show ?thesis by (intro that(1)) (simp_all add: evict_oldest_def)
qed

lemma length_hm_remove:
  assumes "hm_wf m" and "hm_get m k \<noteq> None"
  shows "length (hm_remove k m) < length m"
proof -
  from assms(2) obtain v where "(k, v) \<in> set m"
    by (auto simp: hm_get_def dest: map_of_SomeD)
  then show ?thesis
    unfolding hm_remove_def by (intro length_filter_less) auto
qed

lemma evict_oldest_inv:
  assumes "registry_inv reg"
  shows "registry_inv (evict_oldest reg)"
  using assms by (cases rule: evict_oldest_cases [OF assms]) (auto intro: registry_inv_filter)

lemma evict_oldest_room:
  assumes "registry_inv reg" and "length (filter is_pending (hm_values reg)) < 32"
  shows "length (evict_oldest reg) < 256"
  using assms(1)
proof (cases rule: evict_oldest_cases [OF assms(1)])
  case 1
  have "length (filter is_pending (hm_values reg)) = length reg" if "list_all is_pending (hm_values reg)"
    using that by (simp add: list_all_iff filter_id_conv [THEN iffD2] hm_values_def)
  with 1 assms(2) show ?thesis by fastforce
next
  case (2 i oldest)
  then show ?thesis
    using length_hm_remove [of reg i] registry_invD(1) [OF assms(1)] by simp
qed

lemma evict_oldest_get:
  assumes "registry_inv reg" and "hm_get (evict_oldest reg) k = Some v"
  shows "hm_get reg k = Some v"
  using assms(1)
  by (cases rule: evict_oldest_cases [OF assms(1)])
    (use assms(2) in \<open>auto simp: hash.get_remove split: if_splits\<close>)

lemma evict_oldest_pending:
  assumes "registry_inv reg" and "hm_get reg k = Some v" and "is_pending v"
  shows "hm_get (evict_oldest reg) k = Some v"
  using assms(1)
  by (cases rule: evict_oldest_cases [OF assms(1)])
    (use assms(2,3) in \<open>auto simp: hash.get_remove\<close>)

lemma pending_evict:
  assumes "registry_inv reg"
  shows "length (filter is_pending (hm_values (evict_oldest reg))) \<le> length (filter is_pending (hm_values reg))"
proof -
  have "length (filter is_pending (hm_values (hm_remove i reg))) \<le>
      length (filter is_pending (hm_values reg))" for i
    unfolding hm_remove_def hm_values_def by (induction reg) auto
  then show ?thesis by (cases rule: evict_oldest_cases [OF assms]) auto
qed

lemma find_None_get:
  assumes "hm_wf m" and "find P (hm_values m) = None" and "hm_get m k = Some v"
  shows "\<not> P v"
  using assms hash.values_iff [OF assms(1)] by (auto simp: find_None_iff)

lemma registry_accept_inv:
  assumes inv: "registry_inv reg" and fresh: "hm_get reg fresh = None"
    and key: "find (\<lambda>o'. ro_request_key o' = key) (hm_values reg) = None"
    and session: "find (\<lambda>o'. is_pending o' \<and> of_session s o') (hm_values reg) = None"
    and count: "length (filter is_pending (hm_values reg)) < 32"
    and op: "ro_operation_id o' = fresh" "ro_request_key o' = key" "of_session s o'"
  shows "registry_inv (hm_insert fresh o' (evict_oldest reg))"
proof -
  define ev where "ev = evict_oldest reg"
  have ev: "registry_inv ev" and room: "length ev < 256"
    using evict_oldest_inv [OF inv] evict_oldest_room [OF inv count] by (simp_all add: ev_def)
  have from_old: "hm_get ev k = Some v \<Longrightarrow> hm_get reg k = Some v" for k v
    unfolding ev_def by (rule evict_oldest_get [OF inv])
  have new: "hm_get ev fresh = None"
    using from_old [of fresh] fresh by (cases "hm_get ev fresh") auto
  then have append: "hm_insert fresh o' ev = ev @ [(fresh, o')]"
    by (intro hm_insert_new) (simp add: hm_get_def map_of_eq_None_iff)
  note wf = registry_invD(1) [OF inv]
  have old_key: "ro_request_key v \<noteq> key" if "hm_get ev k = Some v" for k v
    using find_None_get [OF wf key from_old [OF that]] .
  have old_session: "\<not> (is_pending v \<and> of_session s v)" if "hm_get ev k = Some v" for k v
    using find_None_get [OF wf session from_old [OF that]] .
  have "registry_inv (hm_insert fresh o' ev)"
  proof (rule registry_invI)
    show "hm_wf (hm_insert fresh o' ev)" using registry_invD(1) [OF ev] by (rule hash.wf_insert)
    show "length (hm_insert fresh o' ev) \<le> 256" using room by (simp add: append)
    have "length (filter is_pending (hm_values ev)) < 32"
      using pending_evict [OF inv] count by (simp add: ev_def)
    then show "length (filter is_pending (hm_values (hm_insert fresh o' ev))) \<le> 32"
      by (simp add: append hm_values_def)
    fix i j o1 o2
    assume i: "hm_get (hm_insert fresh o' ev) i = Some o1"
    then show "ro_operation_id o1 = i"
      using registry_invD(4) [OF ev] op(1) by (auto simp: hash.get_insert split: if_splits)
    assume j: "hm_get (hm_insert fresh o' ev) j = Some o2"
    show "i = j" if "ro_request_key o1 = ro_request_key o2"
      using i j that registry_invD(5) [OF ev] old_key op(2)
      by (auto simp: hash.get_insert split: if_splits)
    show "i = j" if "is_pending o1" "is_pending o2" "ro_provider o1 = ro_provider o2"
      "ro_session_id o1 = ro_session_id o2"
      using i j that registry_invD(6) [OF ev] old_session op(3)
      by (auto simp: hash.get_insert of_session_def split: if_splits)
  qed
  then show ?thesis by (simp add: ev_def)
qed


section \<open>Restarting\<close>

lemma interrupt_operation_simps [simp]:
  "ro_operation_id (interrupt_operation t o') = ro_operation_id o'"
  "ro_provider (interrupt_operation t o') = ro_provider o'"
  "ro_session_id (interrupt_operation t o') = ro_session_id o'"
  "ro_request_key (interrupt_operation t o') = ro_request_key o'"
  "ro_result (interrupt_operation t o') = ro_result o'"
  "\<not> is_pending (interrupt_operation t o')"
  by (auto simp: interrupt_operation_def is_pending_def)

lemma collect_operations_map:
  assumes "distinct (map ro_operation_id os)"
  shows "collect_operations now os =
    map (\<lambda>(i, o'). (ro_operation_id o', interrupt_operation (now i) o')) (enumerate 0 os)"
proof -
  have "foldl (\<lambda>reg (i, o'). let o1 = interrupt_operation (now i) o'
        in hm_insert (ro_operation_id o1) o1 reg) acc (enumerate n xs) =
      acc @ map (\<lambda>(i, o'). (ro_operation_id o', interrupt_operation (now i) o')) (enumerate n xs)"
    if "distinct (map ro_operation_id xs)" and "fst ` set acc \<inter> ro_operation_id ` set xs = {}"
    for xs acc n
    using that
  proof (induction xs arbitrary: acc n)
    case (Cons x xs)
    then have "hm_insert (ro_operation_id x) (interrupt_operation (now n) x) acc =
        acc @ [(ro_operation_id x, interrupt_operation (now n) x)]"
      by (intro hm_insert_new) auto
    with Cons show ?case by (auto simp: Let_def)
  qed simp
  from this [of os "[]" 0] assms show ?thesis
    by (simp add: collect_operations_def)
qed

lemma map_enumerate: "map (f \<circ> snd) (enumerate n xs) = map f xs"
  by (simp add: map_map [symmetric] del: map_map)

text \<open>After a restart the same operations are there, none of them pending.\<close>

lemma collect_operations_get:
  assumes inv: "registry_inv reg"
    and reg'_def: "reg' = collect_operations now (sort_key ro_updated_at (hm_values reg))"
  shows "hm_wf reg'" and "length reg' = length reg"
    and "hm_get reg' k = Some v \<Longrightarrow> \<exists>w t. hm_get reg k = Some w \<and> v = interrupt_operation t w"
    and "hm_get reg k = Some w \<Longrightarrow> \<exists>t. hm_get reg' k = Some (interrupt_operation t w)"
proof -
  define os where "os = sort_key ro_updated_at (hm_values reg)"
  have set_os: "set os = set (hm_values reg)" and len_os: "length os = length reg"
    by (simp_all add: os_def hm_values_def)
  note wf = registry_invD(1) [OF inv]
  have ids: "map ro_operation_id (hm_values reg) = map fst reg"
    using hash.get_mem [OF wf] registry_invD(4) [OF inv] by (auto simp: hm_values_def)
  then have "distinct (map ro_operation_id (hm_values reg))"
    using wf by (simp add: hm_wf_def)
  then have dist: "distinct (map ro_operation_id os)"
    by (simp add: os_def distinct_map)
  have reg': "reg' = map (\<lambda>(i, o'). (ro_operation_id o', interrupt_operation (now i) o')) (enumerate 0 os)"
    unfolding reg'_def os_def [symmetric] by (rule collect_operations_map [OF dist])
  have "map fst reg' = map ro_operation_id os"
    unfolding reg' by (simp add: comp_def case_prod_unfold map_enumerate [unfolded comp_def])
  then show wf': "hm_wf reg'" using dist by (simp add: hm_wf_def)
  show "length reg' = length reg" by (simp add: reg' len_os)
  have "reg' = map (\<lambda>i. (ro_operation_id (os ! i), interrupt_operation (now i) (os ! i))) [0..<length os]"
    unfolding reg' by (rule nth_equalityI) (simp_all add: nth_enumerate_eq)
  then have mem: "(k, v) \<in> set reg' \<longleftrightarrow>
      (\<exists>i < length os. k = ro_operation_id (os ! i) \<and> v = interrupt_operation (now i) (os ! i))" for k v
    by auto
  have in_reg: "w \<in> set os \<longleftrightarrow> hm_get reg (ro_operation_id w) = Some w" for w
    using hash.values_iff [OF wf, of w] registry_invD(4) [OF inv] by (auto simp: set_os)
  show "\<exists>w t. hm_get reg k = Some w \<and> v = interrupt_operation t w" if "hm_get reg' k = Some v"
  proof -
    from that hash.get_mem [OF wf'] mem obtain i where "i < length os"
      "k = ro_operation_id (os ! i)" "v = interrupt_operation (now i) (os ! i)" by metis
    with in_reg [of "os ! i"] show ?thesis by auto
  qed
  show "\<exists>t. hm_get reg' k = Some (interrupt_operation t w)" if "hm_get reg k = Some w"
  proof -
    have k: "ro_operation_id w = k" using registry_invD(4) [OF inv that] .
    with that in_reg [of w] obtain i where "i < length os" "os ! i = w"
      by (auto simp: in_set_conv_nth)
    with mem hash.get_mem [OF wf'] k show ?thesis by metis
  qed
qed

lemma collect_operations_inv:
  assumes "registry_inv reg"
  shows "registry_inv (collect_operations now (sort_key ro_updated_at (hm_values reg)))"
proof (rule registry_inv_transfer [OF assms])
  note get = collect_operations_get [OF assms refl [of "collect_operations now (sort_key ro_updated_at (hm_values reg))"]]
  show "hm_wf (collect_operations now (sort_key ro_updated_at (hm_values reg)))" by (rule get(1))
  show "length (collect_operations now (sort_key ro_updated_at (hm_values reg))) \<le> 256"
    using get(2) registry_invD(2) [OF assms] by simp
  have "filter is_pending (hm_values (collect_operations now (sort_key ro_updated_at (hm_values reg)))) = []"
    using hash.values_iff [OF get(1)] get(3) by (fastforce simp: filter_empty_conv)
  then show "length (filter is_pending (hm_values
      (collect_operations now (sort_key ro_updated_at (hm_values reg))))) \<le> 32" by simp
  fix k v
  assume "hm_get (collect_operations now (sort_key ro_updated_at (hm_values reg))) k = Some v"
  from get(3) [OF this] show "\<exists>w. hm_get reg k = Some w \<and> ro_operation_id v = ro_operation_id w \<and>
        ro_request_key v = ro_request_key w \<and> ro_provider v = ro_provider w \<and>
        ro_session_id v = ro_session_id w \<and> (is_pending v \<longrightarrow> is_pending w)" by auto
qed

lemma registry_load_Inr:
  assumes "codec_ok c" and "registry_load c loc rf now fault file = (Inr reg', file')"
  shows "on_disk c reg' file' \<and>
    (file = None \<and> reg' = [] \<or>
     (\<exists>b d. file = Some b \<and> dec c b = Inr d \<and> rd_version d = 1 \<and>
        reg' = collect_operations now (rd_operations d)))"
  using assms(2)
  by (auto simp: registry_load_def Let_def bindR_Inr_iff load_document_def
      dest: registry_save_on_disk [OF assms(1)]
      split: option.splits sum.splits prod.splits if_splits)

lemma registry_load_Inl:
  "registry_load c loc rf now fault file = (Inl e, file') \<Longrightarrow> file' = file"
  by (auto simp: registry_load_def Let_def registry_save_def dest: save_document_Inl
      split: option.splits sum.splits prod.splits if_splits)


section \<open>The registry in the running service\<close>

text \<open>
  Beside the registry and its file: the accepted operations whose response is being
  written, and those whose task is running.  A task marks its operation as running and
  then finishes it; only the task of an operation does so.
\<close>

record 'b retry_service =
  rv_registry :: registry
  rv_file :: "'b option"
  rv_unanswered :: "string set"
  rv_tasks :: "string set"

inductive retry_step ::
    "('b, retry_document) codec \<Rightarrow> location \<Rightarrow> 'b retry_service \<Rightarrow> 'b retry_service \<Rightarrow> bool"
  for c loc where
  started: "registry_accept c loc fault fresh now session key (rv_registry s, rv_file s) =
      (Inr (o', True), (reg', file')) \<Longrightarrow> hm_get (rv_registry s) fresh = None \<Longrightarrow>
    retry_step c loc s
      (s\<lparr>rv_registry := reg', rv_file := file', rv_unanswered := insert fresh (rv_unanswered s)\<rparr>)"
| not_started: "registry_accept c loc fault fresh now session key (rv_registry s, rv_file s) =
      (r, (reg', file')) \<Longrightarrow> (\<forall>o'. r \<noteq> Inr (o', True)) \<Longrightarrow>
    retry_step c loc s (s\<lparr>rv_registry := reg', rv_file := file'\<rparr>)"
| answered: "i \<in> rv_unanswered s \<Longrightarrow>
    retry_step c loc s
      (s\<lparr>rv_unanswered := rv_unanswered s - {i}, rv_tasks := insert i (rv_tasks s)\<rparr>)"
| unanswerable: "i \<in> rv_unanswered s \<Longrightarrow>
    withdraw c loc fault i (rv_registry s, rv_file s) = (r, (reg', file')) \<Longrightarrow>
    retry_step c loc s
      (s\<lparr>rv_registry := reg', rv_file := file', rv_unanswered := rv_unanswered s - {i}\<rparr>)"
| running: "i \<in> rv_tasks s \<Longrightarrow>
    set_running c loc fault now i (rv_registry s, rv_file s) = (r, (reg', file')) \<Longrightarrow>
    retry_step c loc s (s\<lparr>rv_registry := reg', rv_file := file'\<rparr>)"
| finished: "i \<in> rv_tasks s \<Longrightarrow>
    registry_finish c loc fault now i result (rv_registry s, rv_file s) = (r, (reg', file')) \<Longrightarrow>
    retry_step c loc s
      (s\<lparr>rv_registry := reg', rv_file := file', rv_tasks := rv_tasks s - {i}\<rparr>)"
| restarted: "registry_load c loc rf clock fault (rv_file s) = (Inr reg', file') \<Longrightarrow>
    retry_step c loc s
      \<lparr>rv_registry = reg', rv_file = file', rv_unanswered = {}, rv_tasks = {}\<rparr>"

inductive retry_reachable :: "('b, retry_document) codec \<Rightarrow> location \<Rightarrow> 'b retry_service \<Rightarrow> bool"
  for c loc where
  first_start: "registry_load c loc rf clock fault None = (Inr reg, file) \<Longrightarrow>
    retry_reachable c loc
      \<lparr>rv_registry = reg, rv_file = file, rv_unanswered = {}, rv_tasks = {}\<rparr>"
| later: "retry_reachable c loc s \<Longrightarrow> retry_step c loc s s' \<Longrightarrow> retry_reachable c loc s'"

definition service_inv :: "('b, retry_document) codec \<Rightarrow> 'b retry_service \<Rightarrow> bool" where
  "service_inv c s \<longleftrightarrow>
     registry_inv (rv_registry s) \<and> on_disk c (rv_registry s) (rv_file s) \<and>
     rv_unanswered s \<inter> rv_tasks s = {} \<and>
     (\<forall>i \<in> rv_unanswered s \<union> rv_tasks s. \<exists>o'. hm_get (rv_registry s) i = Some o' \<and> is_pending o')"

lemma service_invD:
  assumes "service_inv c s"
  shows "registry_inv (rv_registry s)" and "on_disk c (rv_registry s) (rv_file s)"
    and "rv_unanswered s \<inter> rv_tasks s = {}"
    and "i \<in> rv_unanswered s \<union> rv_tasks s \<Longrightarrow> \<exists>o'. hm_get (rv_registry s) i = Some o' \<and> is_pending o'"
  using assms by (auto simp: service_inv_def)

lemma on_disk_reload:
  assumes "codec_ok c" and "on_disk c reg file" and "registry_inv reg"
    and "registry_load c loc rf clock fault file = (Inr reg', file')"
  shows "reg' = collect_operations clock (sort_key ro_updated_at (hm_values reg)) \<and>
    registry_inv reg' \<and> on_disk c reg' file'"
  using registry_load_Inr [OF assms(1,4)] assms(2) collect_operations_inv [OF assms(3)]
  by (auto simp: on_disk_def)

lemma conclude_operation_simps [simp]:
  "ro_operation_id (conclude_operation now result o') = ro_operation_id o'"
  "ro_request_key (conclude_operation now result o') = ro_request_key o'"
  "ro_provider (conclude_operation now result o') = ro_provider o'"
  "ro_session_id (conclude_operation now result o') = ro_session_id o'"
  "\<not> is_pending (conclude_operation now result o')"
  by (auto simp: conclude_operation_def is_pending_def split: sum.splits)

lemma service_inv_started:
  assumes c: "codec_ok c" and inv: "service_inv c s"
    and acc: "registry_accept c loc fault fresh now session key (rv_registry s, rv_file s) =
      (Inr (o', True), (reg', file'))" and fresh: "hm_get (rv_registry s) fresh = None"
  shows "service_inv c (s\<lparr>rv_registry := reg', rv_file := file',
    rv_unanswered := insert fresh (rv_unanswered s)\<rparr>)"
proof -
  note start = registry_accept_Inr [OF c acc, simplified]
  have reg: "reg' = hm_insert fresh o' (evict_oldest (rv_registry s))" using start by blast
  have "registry_inv reg'"
    unfolding reg
    by (rule registry_accept_inv [OF service_invD(1) [OF inv] fresh]) (use start in \<open>auto simp: of_session_def\<close>)
  moreover have "\<exists>w. hm_get reg' i = Some w \<and> is_pending w"
    if i: "i \<in> insert fresh (rv_unanswered s) \<union> rv_tasks s" for i
  proof (cases "i = fresh")
    case True
    with start show ?thesis by (simp add: is_pending_def)
  next
    case False
    with i service_invD(4) [OF inv, of i] obtain w where "hm_get (rv_registry s) i = Some w" "is_pending w"
      by auto
    with evict_oldest_pending [OF service_invD(1) [OF inv]] False show ?thesis by (simp add: reg)
  qed
  moreover have "fresh \<notin> rv_tasks s"
    using service_invD(4) [OF inv, of fresh] fresh by auto
  ultimately show ?thesis
    using start service_invD(3) [OF inv] by (auto simp: service_inv_def)
qed

lemma service_inv_running:
  assumes c: "codec_ok c" and inv: "service_inv c s" and i: "i \<in> rv_tasks s"
    and run: "set_running c loc fault now i (rv_registry s, rv_file s) = (r, (reg', file'))"
  shows "service_inv c (s\<lparr>rv_registry := reg', rv_file := file'\<rparr>)"
proof (cases r)
  case (Inl e)
  with retry_running.rollback [of c loc "(fault, now, i)"] run inv show ?thesis by fastforce
next
  case (Inr u)
  from service_invD(4) [OF inv, of i] i obtain o0 where
    o0: "hm_get (rv_registry s) i = Some o0" "is_pending o0" by auto
  define o1 where "o1 = o0\<lparr>ro_status := ''running'', ro_updated_at := now\<rparr>"
  from set_running_Inr [OF c run [unfolded Inr]] o0(1)
  have reg: "reg' = hm_insert i o1 (rv_registry s)" and disk: "on_disk c reg' file'"
    by (auto simp: o1_def)
  have "registry_inv reg'"
    unfolding reg
    by (rule registry_inv_update [OF service_invD(1) [OF inv] o0(1)]) (simp_all add: o1_def o0(2))
  moreover have "is_pending o1" by (simp add: o1_def is_pending_def)
  then have "\<exists>w. hm_get reg' j = Some w \<and> is_pending w" if "j \<in> rv_unanswered s \<union> rv_tasks s" for j
    using service_invD(4) [OF inv that] by (cases "j = i") (auto simp: reg)
  ultimately show ?thesis
    using disk service_invD(3) [OF inv] by (simp add: service_inv_def)
qed

lemma service_inv_finished:
  assumes c: "codec_ok c" and inv: "service_inv c s" and i: "i \<in> rv_tasks s"
    and fin: "registry_finish c loc fault now i result (rv_registry s, rv_file s) = (r, (reg', file'))"
  shows "service_inv c (s\<lparr>rv_registry := reg', rv_file := file', rv_tasks := rv_tasks s - {i}\<rparr>)"
proof (cases r)
  case (Inl e)
  with retry_finish.rollback [of c loc "(fault, now, i, result)"] fin
  have "reg' = rv_registry s \<and> file' = rv_file s" by fastforce
  with inv show ?thesis by (auto simp: service_inv_def)
next
  case (Inr u)
  from service_invD(4) [OF inv, of i] i obtain o0 where
    o0: "hm_get (rv_registry s) i = Some o0" by auto
  from registry_finish_Inr [OF c fin [unfolded Inr] service_invD(2) [OF inv]] o0
  have reg: "reg' = hm_insert i (conclude_operation now result o0) (rv_registry s)" and disk: "on_disk c reg' file'"
    by auto
  have "registry_inv reg'"
    unfolding reg by (rule registry_inv_update [OF service_invD(1) [OF inv] o0]) simp_all
  moreover have "\<exists>w. hm_get reg' j = Some w \<and> is_pending w"
    if "j \<in> rv_unanswered s \<union> (rv_tasks s - {i})" for j
    using service_invD(3) [OF inv] service_invD(4) [OF inv, of j] that i by (cases "j = i") (auto simp: reg)
  ultimately show ?thesis
    using disk service_invD(3) [OF inv] by (auto simp: service_inv_def)
qed

lemma service_inv_unanswerable:
  assumes c: "codec_ok c" and inv: "service_inv c s" and i: "i \<in> rv_unanswered s"
    and wd: "withdraw c loc fault i (rv_registry s, rv_file s) = (r, (reg', file'))"
  shows "service_inv c (s\<lparr>rv_registry := reg', rv_file := file', rv_unanswered := rv_unanswered s - {i}\<rparr>)"
proof (cases r)
  case (Inl e)
  with retry_withdraw.rollback [of c loc "(fault, i)"] wd
  have "reg' = rv_registry s \<and> file' = rv_file s" by fastforce
  with inv show ?thesis by (auto simp: service_inv_def)
next
  case (Inr u)
  from withdraw_Inr [OF c wd [unfolded Inr]]
  have reg: "reg' = hm_remove i (rv_registry s)" and disk: "on_disk c reg' file'" by auto
  have "\<exists>w. hm_get reg' j = Some w \<and> is_pending w"
    if "j \<in> (rv_unanswered s - {i}) \<union> rv_tasks s" for j
    using service_invD(3) [OF inv] service_invD(4) [OF inv, of j] that i by (auto simp: reg hash.get_remove)
  then show ?thesis
    using disk service_invD(1,3) [OF inv] by (auto simp: service_inv_def reg intro: registry_inv_filter)
qed

lemma service_inv_step:
  assumes "codec_ok c" and "service_inv c s" and "retry_step c loc s s'"
  shows "service_inv c s'"
  using assms(3)
proof cases
  case (started fault fresh now session key o' reg' file')
  then show ?thesis using service_inv_started [OF assms(1,2)] by simp
next
  case (not_started fault fresh now session key r reg' file')
  have "reg' = rv_registry s \<and> file' = rv_file s"
  proof (cases r)
    case (Inl e)
    with retry_accept.rollback [of c loc "(fault, fresh, now, session, key)"] not_started(2)
    show ?thesis by fastforce
  next
    case (Inr p)
    with not_started(3) obtain o' where "r = Inr (o', False)" by (cases p) (metis (full_types))
    with registry_accept_Inr [OF assms(1)] not_started(2) show ?thesis by fastforce
  qed
  with assms(2) not_started(1) show ?thesis by simp
next
  case (answered i)
  then show ?thesis using assms(2) by (auto simp: service_inv_def)
next
  case (unanswerable i fault r reg' file')
  then show ?thesis using service_inv_unanswerable [OF assms(1,2)] by simp
next
  case (running i fault now r reg' file')
  then show ?thesis using service_inv_running [OF assms(1,2)] by simp
next
  case (finished i fault now result r reg' file')
  then show ?thesis using service_inv_finished [OF assms(1,2)] by simp
next
  case (restarted rf clock fault reg' file')
  from on_disk_reload [OF assms(1) service_invD(2,1) [OF assms(2)] restarted(2)] restarted(1)
  show ?thesis by (auto simp: service_inv_def)
qed

lemma service_inv_reachable:
  assumes "codec_ok c" and "retry_reachable c loc s"
  shows "service_inv c s"
  using assms(2)
proof induction
  case (first_start rf clock fault reg f)
  from registry_load_Inr [OF assms(1) this] show ?case by (auto simp: service_inv_def)
next
  case (later s s')
  then show ?case using service_inv_step [OF assms(1)] by blast
qed


section \<open>An example\<close>

definition example_ref :: session_ref where
  "example_ref = \<lparr>sr_provider = ''codex'', sr_session_id = ''s''\<rparr>"

definition example_operation :: retry_operation where
  "example_operation =
     \<lparr>ro_operation_id = ''op'', ro_provider = ''codex'', ro_session_id = ''s'',
      ro_request_key = ''k'', ro_status = ''accepted'', ro_result = None, ro_error = None,
      ro_updated_at = 7\<rparr>"

definition example_place :: location where
  "example_place = \<lparr>loc_path = ''dir/retries.json'', loc_parent = Some ''dir''\<rparr>"

definition example_retry_document :: "retry_operation list \<Rightarrow> retry_document" where
  "example_retry_document os = \<lparr>rd_version = 1, rd_operations = os\<rparr>"

text \<open>One accepted retry whose task is running.\<close>

definition example_service :: "retry_document retry_service" where
  "example_service =
     \<lparr>rv_registry = [(''op'', example_operation)],
      rv_file = Some (example_retry_document [example_operation]),
      rv_unanswered = {}, rv_tasks = {''op''}\<rparr>"

lemma example_retry_document_simps [simp]:
  "rd_version (example_retry_document os) = 1"
  "rd_operations (example_retry_document os) = os"
  by (simp_all add: example_retry_document_def)

lemma example_save [simp]:
  "registry_save id_codec example_place NoFault reg file =
     (Inr (), Some (example_retry_document (sort_key ro_updated_at (hm_values reg))))"
  by (simp add: registry_save_def example_place_def save_document_id example_retry_document_def)

lemma example_key_not_blank: "\<not> blank ''k''"
  by (rule visible_not_blank) (simp_all add: visible_ascii_def byte_def)

lemma example_accept:
  "registry_accept id_codec example_place NoFault ''op'' 7 example_ref ''k''
     ([], Some (example_retry_document [])) =
   (Inr (example_operation, True),
    ([(''op'', example_operation)], Some (example_retry_document [example_operation])))"
  by (simp add: registry_accept_def example_key_not_blank hm_values_def Let_def evict_oldest_def
      hm_insert_def example_ref_def example_operation_def)

lemma example_reachable: "retry_reachable id_codec example_place example_service"
proof -
  have "registry_load id_codec example_place None (\<lambda>i. 0) NoFault None =
      (Inr [], Some (example_retry_document []))"
    by (simp add: registry_load_def hm_values_def)
  from first_start [OF this]
  have "retry_reachable id_codec example_place
      \<lparr>rv_registry = [], rv_file = Some (example_retry_document []), rv_unanswered = {}, rv_tasks = {}\<rparr>"
    (is "retry_reachable _ _ ?s0") .
  moreover have "retry_step id_codec example_place ?s0
      (?s0\<lparr>rv_registry := [(''op'', example_operation)],
          rv_file := Some (example_retry_document [example_operation]),
          rv_unanswered := insert ''op'' (rv_unanswered ?s0)\<rparr>)" (is "retry_step _ _ _ ?s1")
    by (rule started [where o' = example_operation and now = 7 and session = example_ref and key = "''k''"
        and fault = NoFault]) (simp_all add: example_accept hm_get_def)
  ultimately have "retry_reachable id_codec example_place ?s1" by (rule later)
  moreover have "retry_step id_codec example_place ?s1
      (?s1\<lparr>rv_unanswered := rv_unanswered ?s1 - {''op''}, rv_tasks := insert ''op'' (rv_tasks ?s1)\<rparr>)"
    by (rule answered) simp
  ultimately have "retry_reachable id_codec example_place
      (?s1\<lparr>rv_unanswered := rv_unanswered ?s1 - {''op''}, rv_tasks := insert ''op'' (rv_tasks ?s1)\<rparr>)"
    by (rule later)
  then show ?thesis by (simp add: example_service_def)
qed

lemma example_service_inv: "service_inv id_codec example_service"
  by (rule service_inv_reachable [OF _ example_reachable]) simp


section \<open>Properties\<close>

text \<open>C12: At every moment of every history of the service - requests, deliveries, running
  and finishing tasks, failed writes and restarts - the registry is bounded (256
  operations, 32 pending), has one operation per request key and at most one pending
  operation per session, is exactly what the file holds, and every task works on an
  operation that is still pending.\<close>
theorem retry_service_invariant:
  assumes "codec_ok c" and "retry_reachable c loc s"
  shows "length (rv_registry s) \<le> 256 \<and>
    length (filter is_pending (hm_values (rv_registry s))) \<le> 32 \<and>
    inj_on ro_request_key (set (hm_values (rv_registry s))) \<and>
    inj_on (\<lambda>o'. (ro_provider o', ro_session_id o')) {o' \<in> set (hm_values (rv_registry s)). is_pending o'} \<and>
    on_disk c (rv_registry s) (rv_file s) \<and>
    rv_tasks s \<subseteq> ro_operation_id ` {o' \<in> set (hm_values (rv_registry s)). is_pending o'}"
proof -
  have inv: "service_inv c s" using assms by (rule service_inv_reachable)
  note reg = registry_invD [OF service_invD(1) [OF inv]]
  note mem = hash.values_iff [OF reg(1)]
  have "inj_on ro_request_key (set (hm_values (rv_registry s)))"
    by (intro inj_onI) (metis mem reg(5) option.inject)
  moreover have "inj_on (\<lambda>o'. (ro_provider o', ro_session_id o')) {o' \<in> set (hm_values (rv_registry s)). is_pending o'}"
  proof (rule inj_onI, clarsimp)
    fix x y
    assume "x \<in> set (hm_values (rv_registry s))" "y \<in> set (hm_values (rv_registry s))"
      and xy: "is_pending x" "is_pending y" "ro_provider x = ro_provider y" "ro_session_id x = ro_session_id y"
    then obtain i j where "hm_get (rv_registry s) i = Some x" "hm_get (rv_registry s) j = Some y"
      using mem by blast
    with reg(6) [OF this xy] show "x = y" by simp
  qed
  moreover have "rv_tasks s \<subseteq> ro_operation_id ` {o' \<in> set (hm_values (rv_registry s)). is_pending o'}"
  proof
    fix i assume "i \<in> rv_tasks s"
    with service_invD(4) [OF inv, of i] obtain o' where o': "hm_get (rv_registry s) i = Some o'" "is_pending o'"
      by auto
    with reg(4) [OF o'(1)] mem show "i \<in> ro_operation_id ` {o' \<in> set (hm_values (rv_registry s)). is_pending o'}"
      by (intro image_eqI [of _ _ o']) auto
  qed
  ultimately show ?thesis using reg(2,3) service_invD(2) [OF inv] by simp
qed

theorem retry_service_invariant_witness:
  "on_disk id_codec (rv_registry example_service) (rv_file example_service) \<and>
   rv_tasks example_service \<subseteq>
     ro_operation_id ` {o' \<in> set (hm_values (rv_registry example_service)). is_pending o'}"
  using retry_service_invariant [OF _ example_reachable] by simp

text \<open>A request starts a retry only when its key is new, nothing is pending for the
  session and fewer than 32 operations are pending; the operation is then on disk as
  accepted before the answer, and no pending operation was dropped to make room.  Every
  other request - refused, repeated, or failing to be written - changes nothing, and a
  repeated one is answered with an operation of its own session.\<close>
lemma accept_starts_once:
  assumes "codec_ok c" and "registry_inv reg"
    and "registry_accept c loc fault fresh now session key (reg, file) = (r, (reg', file'))"
  shows "case r of
      Inr (o', True) \<Rightarrow>
        key \<notin> ro_request_key ` set (hm_values reg) \<and>
        \<not> list_ex (\<lambda>p. is_pending p \<and> of_session session p) (hm_values reg) \<and>
        length (filter is_pending (hm_values reg)) < 32 \<and>
        ro_status o' = ''accepted'' \<and> ro_request_key o' = key \<and> of_session session o' \<and>
        hm_get reg' fresh = Some o' \<and> on_disk c reg' file' \<and>
        list_all (\<lambda>(i, p). is_pending p \<longrightarrow> i = fresh \<or> hm_get reg' i = Some p) reg
    | Inr (o', False) \<Rightarrow> (reg', file') = (reg, file) \<and> o' \<in> set (hm_values reg) \<and> of_session session o'
    | Inl e \<Rightarrow> (reg', file') = (reg, file)"
proof (cases r)
  case (Inl e)
  with retry_accept.rollback [of c loc "(fault, fresh, now, session, key)"] assms(3) show ?thesis
    by fastforce
next
  case (Inr p)
  obtain o' started where p: "p = (o', started)" by (cases p)
  note start = registry_accept_Inr [OF assms(1) assms(3) [unfolded Inr p]]
  have kept: "hm_get reg' i = Some q" if "(i, q) \<in> set reg" "is_pending q" "i \<noteq> fresh" started for i q
    using that start evict_oldest_pending [OF assms(2)] hash.get_mem [OF registry_invD(1) [OF assms(2)]]
    by (cases started) auto
  show ?thesis
  proof (cases started)
    case True
    then have "list_all (\<lambda>(i, p). is_pending p \<longrightarrow> i = fresh \<or> hm_get reg' i = Some p) reg"
      using kept by (auto simp: list_all_iff)
    with start True show ?thesis
      by (auto simp: Inr p find_None_iff list_ex_iff of_session_def)
  next
    case False
    with start show ?thesis by (simp add: Inr p)
  qed
qed

text \<open>Once a retry has finished, its outcome is on disk under a status that tells a
  success, a failure and an unconfirmed delivery apart, and every repetition of the
  request is answered with that outcome and starts nothing.\<close>
lemma finished_request_replays:
  assumes "codec_ok c" and "service_inv c s"
    and "registry_finish c loc fault now i result (rv_registry s, rv_file s) = (Inr (Some o'), (reg', file'))"
    and "\<not> blank (ro_request_key o')"
  shows "ro_status o' = (case result of Inr v \<Rightarrow> ''succeeded''
        | Inl e \<Rightarrow> if acknowledgement_is_unknown e then ''unknown'' else ''failed'') \<and>
    ro_result o' = (case result of Inr v \<Rightarrow> Some v | Inl e \<Rightarrow> None) \<and>
    on_disk c reg' file' \<and> hm_get reg' i = Some o' \<and>
    registry_accept c loc' fault' fresh now'
      \<lparr>sr_provider = ro_provider o', sr_session_id = ro_session_id o'\<rparr> (ro_request_key o') (reg', file')
      = (Inr (o', False), (reg', file'))"
proof -
  obtain o0 where o0: "hm_get (rv_registry s) i = Some o0"
    and o': "o' = conclude_operation now result o0" and reg: "reg' = hm_insert i o' (rv_registry s)"
    and disk: "on_disk c reg' file'"
    using registry_finish_Inr [OF assms(1,3) service_invD(2) [OF assms(2)]]
    by (cases "hm_get (rv_registry s) i") auto
  have inv: "registry_inv reg'"
    unfolding reg by (rule registry_inv_update [OF service_invD(1) [OF assms(2)] o0]) (simp_all add: o')
  have get: "hm_get reg' i = Some o'" by (simp add: reg)
  note mem = hash.values_iff [OF registry_invD(1) [OF inv]]
  have "find (\<lambda>p. ro_request_key p = ro_request_key o') (hm_values reg') = Some o'"
  proof (cases "find (\<lambda>p. ro_request_key p = ro_request_key o') (hm_values reg')")
    case None
    then show ?thesis using get mem by (auto simp: find_None_iff)
  next
    case (Some p)
    then obtain j where "hm_get reg' j = Some p" and "ro_request_key p = ro_request_key o'"
      using mem by (auto dest: find_Some_mem)
    with registry_invD(5) [OF inv this(1) get] get Some show ?thesis by simp
  qed
  then have "registry_accept c loc' fault' fresh now'
      \<lparr>sr_provider = ro_provider o', sr_session_id = ro_session_id o'\<rparr> (ro_request_key o') (reg', file')
      = (Inr (o', False), (reg', file'))"
    using assms(4) by (simp add: registry_accept_def of_session_def)
  with disk get show ?thesis by (simp add: o' conclude_operation_def split: sum.splits)
qed

text \<open>A restart forgets no retry and starts none again: every operation is still there
  under its id with its request key and session; one that was accepted or running has
  become \<open>unknown\<close>, every other one is unchanged, and nothing is pending.\<close>
lemma restart_keeps_operations:
  assumes "codec_ok c" and "service_inv c s"
    and "registry_load c loc rf clock fault (rv_file s) = (Inr reg', file')"
  shows "filter is_pending (hm_values reg') = [] \<and> length reg' = length (rv_registry s) \<and>
    (\<forall>i. case hm_get (rv_registry s) i of
       None \<Rightarrow> hm_get reg' i = None
     | Some o' \<Rightarrow> if is_pending o'
         then \<exists>t. hm_get reg' i = Some (o'\<lparr>ro_status := ''unknown'',
           ro_error := Some ''Watchcat restarted before this retry reached a confirmed result'',
           ro_updated_at := t\<rparr>)
         else hm_get reg' i = Some o')"
proof -
  note inv = service_invD(1) [OF assms(2)]
  have reg': "reg' = collect_operations clock (sort_key ro_updated_at (hm_values (rv_registry s)))"
    using on_disk_reload [OF assms(1) service_invD(2) [OF assms(2)] inv assms(3)] by blast
  note get = collect_operations_get [OF inv reg']
  have "filter is_pending (hm_values reg') = []"
    using hash.values_iff [OF get(1)] get(3) by (fastforce simp: filter_empty_conv)
  moreover have "case hm_get (rv_registry s) i of
       None \<Rightarrow> hm_get reg' i = None
     | Some o' \<Rightarrow> if is_pending o'
         then \<exists>t. hm_get reg' i = Some (o'\<lparr>ro_status := ''unknown'',
           ro_error := Some ''Watchcat restarted before this retry reached a confirmed result'',
           ro_updated_at := t\<rparr>)
         else hm_get reg' i = Some o'" for i
  proof (cases "hm_get (rv_registry s) i")
    case None
    then show ?thesis using get(3) [of i] by (cases "hm_get reg' i") auto
  next
    case (Some o')
    from get(4) [OF this] Some show ?thesis by (auto simp: interrupt_operation_def)
  qed
  ultimately show ?thesis using get(2) by simp
qed

end
