(* ===== verification/Event_Log.thy ===== *)
theory Event_Log
  imports Storage Models
begin

text \<open>
  The diagnostic log (\<open>EventLogStore\<close> of \<open>state.rs\<close>): one JSON line per event, appended in
  place, and compacted to the newest \<open>retention\<close> lines when it holds more than twice as
  many.  The file is its bytes; the JSON of an event is a parameter.
\<close>

record event_codec =
  ec_line :: "engine_event \<Rightarrow> string"
  ec_parse :: "string \<Rightarrow> string + engine_event"

text \<open>What the log relies on: serde_json escapes control characters and reads back what it wrote.\<close>

definition line_ok :: "event_codec \<Rightarrow> engine_event \<Rightarrow> bool" where
  "line_ok ec e \<longleftrightarrow> plain_line (ec_line ec e) \<and> ec_parse ec (ec_line ec e) = Inr e"

text \<open>
  The outcome of appending: \<open>None\<close> when everything is written, otherwise the number of
  bytes that reached the file before an I/O call failed (none when the directory or the
  file could not be opened), with the system's message.
\<close>

type_synonym append_fault = "(nat \<times> string) option"

definition event_bytes :: "event_codec \<Rightarrow> engine_event list \<Rightarrow> string" where
  "event_bytes ec events = unlines (map (ec_line ec) events)"

definition contents :: "string option \<Rightarrow> string" where
  "contents d = (case d of None \<Rightarrow> [] | Some bytes \<Rightarrow> bytes)"

definition count_lines :: "string option \<Rightarrow> nat" where
  "count_lines d = (case d of None \<Rightarrow> 0 | Some bytes \<Rightarrow> length (lines_of bytes))"

definition compact_log ::
    "location \<Rightarrow> nat \<Rightarrow> string option \<Rightarrow> string fault \<Rightarrow> string option \<Rightarrow> unit result \<times> string option" where
  "compact_log loc retention rf fault d =
     (case rf of
        Some os \<Rightarrow> (bail os, d)
      | None \<Rightarrow>
          (let kept = rev (take retention (rev (lines_of (contents d))))
           in atomic_write loc fault (unlines kept) d))"

definition event_append ::
    "event_codec \<Rightarrow> location \<Rightarrow> nat \<Rightarrow> append_fault \<Rightarrow> string option \<Rightarrow> string fault \<Rightarrow>
     engine_event list \<Rightarrow> string option \<Rightarrow> unit result \<times> string option" where
  "event_append ec loc retention afault rf fault events d =
     (if events = [] then (Inr (), d)
      else case loc_parent loc of
        None \<Rightarrow> (bail ''event log path has no parent'', d)
      | Some _ \<Rightarrow>
          (case afault of
             Some (n, os) \<Rightarrow>
               (bail os,
                if n = 0 then d else Some (contents d @ take n (event_bytes ec events)))
           | None \<Rightarrow>
               (let d' = Some (contents d @ event_bytes ec events)
                in if count_lines d' > usize_sat_mul retention 2
                   then compact_log loc retention rf fault d'
                   else (Inr (), d'))))"

definition condition_category :: "string \<Rightarrow> string" where
  "condition_category condition = split_first (CHR ''.'') condition"

definition log_selected :: "string \<Rightarrow> string \<Rightarrow> string option \<Rightarrow> session_log \<Rightarrow> bool" where
  "log_selected provider session_id category entry \<longleftrightarrow>
     sl_provider entry = provider \<and> sl_session_id entry = session_id \<and>
     (case category of
        None \<Rightarrow> True
      | Some cat \<Rightarrow>
          (case sl_condition entry of None \<Rightarrow> False | Some c \<Rightarrow> condition_category c = cat) \<or>
          split_first (CHR ''.'') (sl_kind entry) = cat)"

text \<open>The loop over the lines, with the bounded buffer of the newest entries.\<close>

fun scan_log ::
    "event_codec \<Rightarrow> location \<Rightarrow> (session_log \<Rightarrow> bool) \<Rightarrow> nat \<Rightarrow> session_log list \<Rightarrow> string list \<Rightarrow>
     session_log list result" where
  "scan_log ec loc selected limit logs [] = Inr logs"
| "scan_log ec loc selected limit logs (line # rest) =
     (case ec_parse ec line of
        Inl m \<Rightarrow> Inl (io_error (''invalid event log entry in '' @ loc_path loc) m)
      | Inr e \<Rightarrow>
          (case as_session_log e of
             None \<Rightarrow> scan_log ec loc selected limit logs rest
           | Some entry \<Rightarrow>
               if \<not> selected entry then scan_log ec loc selected limit logs rest
               else
                 (let logs' = logs @ [entry]
                  in scan_log ec loc selected limit
                       (if length logs' > limit then tl logs' else logs') rest)))"

definition event_session_logs ::
    "event_codec \<Rightarrow> location \<Rightarrow> string option \<Rightarrow> string \<Rightarrow> string \<Rightarrow> string option \<Rightarrow> nat \<Rightarrow>
     string option \<Rightarrow> session_log list result" where
  "event_session_logs ec loc rf provider session_id category limit d =
     (case d of
        None \<Rightarrow> Inr []
      | Some bytes \<Rightarrow>
          (case rf of
             Some os \<Rightarrow> bail os
           | None \<Rightarrow>
               scan_log ec loc (log_selected provider session_id category) limit []
                 (lines_of bytes)))"


section \<open>A log that was written completely\<close>

definition log_of :: "event_codec \<Rightarrow> engine_event list \<Rightarrow> string option \<Rightarrow> bool" where
  "log_of ec es d \<longleftrightarrow> contents d = event_bytes ec es \<and> (d = None \<longrightarrow> es = [])"

lemma contents_simps [simp]:
  "contents None = []"
  "contents (Some b) = b"
  by (simp_all add: contents_def)

lemma event_bytes_append [simp]: "event_bytes ec (xs @ ys) = event_bytes ec xs @ event_bytes ec ys"
  by (induction xs) (simp_all add: event_bytes_def)

lemma plain_lines: "list_all (line_ok ec) es \<Longrightarrow> list_all plain_line (map (ec_line ec) es)"
  by (simp add: line_ok_def list_all_iff)

lemma lines_of_event_bytes:
  "list_all (line_ok ec) es \<Longrightarrow> lines_of (event_bytes ec es) = map (ec_line ec) es"
  by (simp add: event_bytes_def lines_of_unlines plain_lines)

lemma log_of_lines:
  "list_all (line_ok ec) es \<Longrightarrow> log_of ec es d \<Longrightarrow> lines_of (contents d) = map (ec_line ec) es"
  by (simp add: log_of_def lines_of_event_bytes)

lemma unlines_keep_last:
  "unlines (keep_last n (map (ec_line ec) es)) = event_bytes ec (keep_last n es)"
  by (simp add: event_bytes_def keep_last_def drop_map)

lemma event_append_log:
  assumes "list_all (line_ok ec) (es @ events)" and "loc_parent loc \<noteq> None" and "log_of ec es d"
    and "events \<noteq> []"
    and "event_append ec loc retention None rf fault events d = (r, d')"
  shows "(r = Inr () \<and> log_of ec (compacted retention (es @ events)) d') \<or>
    (r \<noteq> Inr () \<and> log_of ec (es @ events) d')"
proof -
  let ?d = "Some (contents d @ event_bytes ec events)"
  have d: "log_of ec (es @ events) ?d"
    using assms(3) by (simp add: log_of_def)
  have count: "count_lines ?d = length (es @ events)"
    using log_of_lines [OF assms(1) d] by (simp add: count_lines_def)
  show ?thesis
  proof (cases "length (es @ events) > usize_sat_mul retention 2")
    case False
    with assms(2,4,5) d count show ?thesis
      by (auto simp: event_append_def Let_def compacted_def)
  next
    case True
    then have run: "compact_log loc retention rf fault ?d = (r, d')"
      using assms(2,4,5) count by (auto simp: event_append_def Let_def)
    show ?thesis
    proof (cases rf)
      case (Some os)
      with run d show ?thesis by (auto simp: compact_log_def)
    next
      case None
      have "rev (take retention (rev (lines_of (contents ?d)))) =
          keep_last retention (map (ec_line ec) (es @ events))"
        using log_of_lines [OF assms(1) d] by (simp only: rev_take_rev)
      with run None have saved: "atomic_write loc fault (event_bytes ec (keep_last retention (es @ events))) ?d = (r, d')"
        by (simp only: compact_log_def unlines_keep_last option.case Let_def)
      from atomic_write_cases [OF saved] d True show ?thesis
        by (auto simp: log_of_def compacted_def)
    qed
  qed
qed

lemma scan_log_bounded:
  assumes "list_all (line_ok ec) es"
  shows "scan_log ec loc selected limit logs (map (ec_line ec) es) =
    Inr (push_bounded limit logs (filter selected (List.map_filter as_session_log es)))"
  using assms
  by (induction es arbitrary: logs)
    (auto simp: line_ok_def map_filter_def Let_def split: option.splits)

text \<open>Appends in order; the log is the newest part of everything appended.\<close>

fun event_appends ::
    "event_codec \<Rightarrow> location \<Rightarrow> nat \<Rightarrow> (engine_event list \<times> string option \<times> string fault) list \<Rightarrow>
     string option \<Rightarrow> string option" where
  "event_appends ec loc retention [] d = d"
| "event_appends ec loc retention ((events, rf, fault) # batches) d =
     event_appends ec loc retention batches
       (snd (event_append ec loc retention None rf fault events d))"

lemma event_appends_recent:
  assumes "loc_parent loc \<noteq> None"
    and "log_of ec es d" and "recent_part retention history es"
    and "list_all (line_ok ec) (history @ concat (map fst batches))"
  shows "\<exists>es'. log_of ec es' (event_appends ec loc retention batches d) \<and>
    recent_part retention (history @ concat (map fst batches)) es'"
  using assms(2-)
proof (induction batches arbitrary: es d history)
  case Nil
  then show ?case by auto
next
  case (Cons a batches)
  obtain events rf fault where a: "a = (events, rf, fault)" by (cases a)
  obtain r d' where run: "event_append ec loc retention None rf fault events d = (r, d')"
    by (metis surj_pair)
  have "\<exists>es'. log_of ec es' d' \<and> recent_part retention (history @ events) es'"
  proof (cases "events = []")
    case True
    with run Cons.prems show ?thesis by (auto simp: event_append_def)
  next
    case False
    have "list_all (line_ok ec) (es @ events)"
      using Cons.prems(2,3) a by (auto simp: recent_part_def)
    from event_append_log [OF this assms(1) Cons.prems(1) False run]
      recent_part_append [OF Cons.prems(2), of events]
    show ?thesis by (auto intro: recent_part_compacted)
  qed
  then obtain es' where "log_of ec es' d'" and "recent_part retention (history @ events) es'"
    by blast
  from Cons.IH [OF this] Cons.prems(3) show ?case by (simp add: a run)
qed


section \<open>Properties\<close>

text \<open>C9: The log never loses recent events: after any sequence of appends, also when
  compactions fail on the way, the file is a well-formed log of the newest part of
  everything that was appended, with at least \<open>retention\<close> events (or all of them); and a
  query returns exactly the newest \<open>limit\<close> selected entries of that part, in order.\<close>
theorem event_log_keeps_recent:
  assumes "loc_parent loc \<noteq> None" and "log_of ec es d"
    and "list_all (line_ok ec) (es @ concat (map fst batches))"
  shows "\<exists>es'. recent_part retention (es @ concat (map fst batches)) es' \<and>
    log_of ec es' (event_appends ec loc retention batches d) \<and>
    event_session_logs ec loc None provider session_id category limit
        (event_appends ec loc retention batches d) =
      Inr (keep_last limit (filter (log_selected provider session_id category)
        (List.map_filter as_session_log es')))"
proof -
  have "recent_part retention es es" by (simp add: recent_part_def)
  from event_appends_recent [OF assms(1,2) this assms(3)] obtain es'
    where recent: "recent_part retention (es @ concat (map fst batches)) es'"
      and log: "log_of ec es' (event_appends ec loc retention batches d)" by blast
  have ok: "list_all (line_ok ec) es'"
  proof -
    obtain dropped where eq: "es @ concat (map fst batches) = dropped @ es'"
      using recent by (auto simp: recent_part_def)
    have "list_all (line_ok ec) (dropped @ es')"
      using assms(3) unfolding eq .
    then show ?thesis by simp
  qed
  have "event_session_logs ec loc None provider session_id category limit
        (event_appends ec loc retention batches d) =
      Inr (push_bounded limit [] (filter (log_selected provider session_id category)
        (List.map_filter as_session_log es')))"
    using log log_of_lines [OF ok log] scan_log_bounded [OF ok]
    by (auto simp: event_session_logs_def log_of_def map_filter_def split: option.splits)
  with recent log show ?thesis
    by (auto simp: push_bounded_keep_last)
qed

definition example_event :: engine_event where
  "example_event =
     \<lparr>ev_timestamp = 0, ev_kind = ''retry.sent'', ev_target = ''codex:a'', ev_message = [],
      ev_condition = None, ev_attempt = None, ev_max_attempts = None, ev_prompt = None,
      ev_failure = None, ev_receipt = None\<rparr>"

definition example_event_codec :: event_codec where
  "example_event_codec = \<lparr>ec_line = (\<lambda>e. ''x''), ec_parse = (\<lambda>s. Inr example_event)\<rparr>"

definition example_batches :: "(engine_event list \<times> string option \<times> string fault) list" where
  "example_batches = [([example_event, example_event, example_event], None, NoFault)]"

theorem event_log_keeps_recent_witness:
  "\<exists>es'. recent_part 1 ([] @ concat (map fst example_batches)) es' \<and>
    log_of example_event_codec es'
      (event_appends example_event_codec \<lparr>loc_path = ''e'', loc_parent = Some ''p''\<rparr> 1
        example_batches None)"
proof -
  have "loc_parent \<lparr>loc_path = ''e'', loc_parent = Some ''p''\<rparr> \<noteq> None"
    by simp
  moreover have "log_of example_event_codec [] None"
    by (simp add: log_of_def event_bytes_def)
  moreover have "list_all (line_ok example_event_codec) ([] @ concat (map fst example_batches))"
    by (simp add: line_ok_def example_event_codec_def plain_line_def newline_def example_batches_def)
  ultimately show ?thesis
    using event_log_keeps_recent [where es = "[]" and d = None and batches = example_batches
        and retention = 1 and ec = example_event_codec and provider = "[]" and session_id = "[]"
        and category = None and limit = 0 and loc = "\<lparr>loc_path = ''e'', loc_parent = Some ''p''\<rparr>"]
    by blast
qed


text \<open>
  An append that fails half-way leaves a record without its line end, and the next event
  is appended to the same line: the log can then no longer be read at all.
\<close>

lemma torn_append_breaks_the_log:
  assumes "loc_parent loc \<noteq> None" and "plain_line (ec_line ec e)" and "0 < n" and "n \<le> length (ec_line ec e)"
    and "ec_parse ec (take n (ec_line ec e) @ ec_line ec e) = Inl m" and "retention > 0"
    and "event_append ec loc retention (Some (n, os)) None fault [e] None = (r1, d1)"
    and "event_append ec loc retention None None fault [e] d1 = (r2, d2)"
  shows "r2 = Inr () \<and>
    event_session_logs ec loc None provider session_id category limit d2 =
      Inl (io_error (''invalid event log entry in '' @ loc_path loc) m)"
proof -
  let ?line = "take n (ec_line ec e) @ ec_line ec e"
  have d1: "d1 = Some (take n (ec_line ec e))"
    using assms(1,3,4,7) by (auto simp: event_append_def event_bytes_def)
  have "plain_line ?line"
    using assms(2,3,4) by (auto simp: plain_line_def dest: in_set_takeD)
  then have lines: "lines_of (?line @ [newline]) = [?line]"
    using lines_of_line [of ?line "[]"] by simp
  then have "count_lines (Some (?line @ [newline])) = 1"
    by (simp add: count_lines_def)
  moreover have "\<not> usize_sat_mul retention 2 < 1"
    using assms(6) by (simp add: usize_sat_mul_def u64_max_def)
  ultimately have "r2 = Inr () \<and> d2 = Some (?line @ [newline])"
    using assms(1,8) by (auto simp: event_append_def event_bytes_def d1)
  then show ?thesis
    using lines assms(5) by (simp add: event_session_logs_def)
qed

end
