(* ===== verification/Claude.thy ===== *)
theory Claude
  imports Providers Classification Reading "HOL-Library.Product_Lexorder" "HOL-Library.Sublist"
begin

text \<open>
  The Claude adapter (\<open>ClaudeProvider\<close> of \<open>providers/claude.rs\<close>): it reads the native
  transcripts below a directory, remembering for each how far it has read, and lists,
  searches and shows sessions from them.  What the file system answers during a refresh is
  an argument: the entries of the directories and, for each transcript, its metadata and
  the bytes its handle yields.  The parsers of serde_json, chrono and uuid and Unicode
  lower-casing are parameters.
\<close>


section \<open>The file system's answers\<close>

text \<open>
  \<open>cf_bytes\<close> is the whole content as the reader sees it, which may already be longer than
  the length in the metadata; \<open>cf_fault\<close> makes the n-th read of a line fail.
\<close>

record claude_file =
  cf_open :: "unit result"
  cf_metadata :: "unit result"
  cf_len :: nat
  cf_modified :: "nat option"
  cf_identity :: "nat \<times> nat"
  cf_seek :: "unit result"
  cf_bytes :: string
  cf_fault :: "(nat \<times> string) option"

record claude_entry =
  fe_name :: string
  fe_file :: claude_file

record claude_project =
  pj_path :: string
  pj_is_dir :: "bool result"
  pj_entries :: "claude_entry result list result"

record claude_env =
  ae_parse :: "string \<Rightarrow> json option"
  ae_time :: "string \<Rightarrow> timestamp option"
  ae_is_uuid :: "string \<Rightarrow> bool"
  ae_lower :: "string \<Rightarrow> string"
  ae_int_error :: "string \<Rightarrow> string"

text \<open>\<open>Path::file_stem\<close> and \<open>Path::extension\<close> of a file name.\<close>

definition file_stem :: "string \<Rightarrow> string" where
  "file_stem name =
     (let before = rev (tl (dropWhile (\<lambda>c. c \<noteq> CHR ''.'') (rev name)))
      in if name = ''..'' \<or> CHR ''.'' \<notin> set name \<or> before = [] then name else before)"

definition file_extension :: "string \<Rightarrow> string option" where
  "file_extension name =
     (let before = rev (tl (dropWhile (\<lambda>c. c \<noteq> CHR ''.'') (rev name)))
      in if name = ''..'' \<or> CHR ''.'' \<notin> set name \<or> before = [] then None
         else Some (rev (takeWhile (\<lambda>c. c \<noteq> CHR ''.'') (rev name))))"


section \<open>Records of a transcript\<close>

record transcript =
  tr_offset :: nat
  tr_modified :: "nat option"
  tr_identity :: "nat \<times> nat"
  tr_uncertain :: bool
  tr_session :: session

definition record_time :: "claude_env \<Rightarrow> json \<Rightarrow> timestamp option" where
  "record_time env v = Option.bind (as_str (json_index v ''timestamp'')) (ae_time env)"

definition message_text :: "json \<Rightarrow> string" where
  "message_text v =
     (let content = json_index (json_index v ''message'') ''content''
      in case as_str content of
           Some text \<Rightarrow> text
         | None \<Rightarrow> join_text [newline]
             (List.map_filter (\<lambda>block. as_str (json_index block ''text''))
               (unwrap_or (as_array content) [])))"

definition fresh_transcript :: "string \<Rightarrow> string \<Rightarrow> transcript" where
  "fresh_transcript path i =
     \<lparr>tr_offset = 0, tr_modified = None, tr_identity = (0, 0), tr_uncertain = False,
      tr_session =
        \<lparr>se_provider = ''claude'', se_id = i, se_title = i, se_state = SessionUnknown,
         se_updated_at = None,
         se_metadata = json_object
           [(''capabilities'', JArray [JString ''discover'', JString ''logs'']),
            (''transcript'', JString path)]\<rparr>\<rparr>"

definition is_message :: "json \<Rightarrow> bool" where
  "is_message v \<longleftrightarrow>
     as_str (json_index v ''type'') = Some ''user'' \<or>
     as_str (json_index v ''type'') = Some ''assistant''"

definition is_sidechain :: "json \<Rightarrow> bool" where
  "is_sidechain v \<longleftrightarrow> json_index v ''isSidechain'' = JBool True"

definition record_title :: "json \<Rightarrow> string option" where
  "record_title v =
     (case as_str (json_index v ''aiTitle'') of
        Some t \<Rightarrow> Some t
      | None \<Rightarrow> as_str (json_index v ''customTitle''))"

definition see_message :: "claude_env \<Rightarrow> json \<Rightarrow> transcript \<Rightarrow> transcript" where
  "see_message env v t =
     (if is_message v
      then t\<lparr>tr_session := (tr_session t)
               \<lparr>se_updated_at := opt_max (se_updated_at (tr_session t)) (record_time env v)\<rparr>,
             tr_uncertain := (if record_time env v \<noteq> None then False else tr_uncertain t)\<rparr>
      else t)"

definition see_title :: "json \<Rightarrow> transcript \<Rightarrow> transcript" where
  "see_title v t =
     (case record_title v of
        Some title \<Rightarrow> t\<lparr>tr_session := (tr_session t)\<lparr>se_title := title\<rparr>\<rparr>
      | None \<Rightarrow> t)"

definition apply_line :: "claude_env \<Rightarrow> string \<Rightarrow> transcript \<Rightarrow> transcript" where
  "apply_line env line t0 =
     (let t = t0\<lparr>tr_offset := tr_offset t0 + length line\<rparr>
      in case ae_parse env line of
           None \<Rightarrow> t\<lparr>tr_uncertain := True\<rparr>
         | Some v \<Rightarrow> if is_sidechain v then t else see_title v (see_message env v t))"

function read_records ::
    "claude_env \<Rightarrow> (nat \<times> string) option \<Rightarrow> string \<Rightarrow> transcript \<Rightarrow> unit result \<times> transcript" where
  "read_records env fault s t =
     (case fault of
        Some (0, os) \<Rightarrow> (bail os, t)
      | _ \<Rightarrow>
          let chunk = read_line s
          in if \<not> valid_utf8 chunk then (bail ''stream did not contain valid UTF-8'', t)
             else if unfinished chunk then (Inr (), t)
             else read_records env (map_option (\<lambda>(n, os). (n - 1, os)) fault)
               (drop (length chunk) s) (apply_line env chunk t))"
  by pat_completeness auto
termination
  by (relation "measure (\<lambda>(env, fault, s, t). length s)") (auto dest: finished_shorter)

declare read_records.simps [simp del]


section \<open>Refreshing\<close>

text \<open>Nothing new: the same file, unmodified, read to its end.\<close>

definition unchanged :: "claude_file \<Rightarrow> transcript \<Rightarrow> bool" where
  "unchanged f t \<longleftrightarrow>
     tr_identity t = cf_identity f \<and> tr_modified t = cf_modified f \<and> tr_offset t = cf_len f"

text \<open>Another file, or one that did not grow, is read again from its start.\<close>

definition rewind :: "claude_file \<Rightarrow> transcript \<Rightarrow> transcript" where
  "rewind f t =
     (if tr_identity t \<noteq> cf_identity f \<or> cf_len f \<le> tr_offset t
      then t\<lparr>tr_offset := 0, tr_identity := cf_identity f,
             tr_session := (tr_session t)\<lparr>se_updated_at := None\<rparr>\<rparr>
      else t)"

definition refresh_file :: "claude_env \<Rightarrow> claude_file \<Rightarrow> transcript \<Rightarrow> unit result \<times> transcript" where
  "refresh_file env f t =
     (case bindR (cf_open f) (\<lambda>_. cf_metadata f) of
        Inl e \<Rightarrow> (Inl e, t)
      | Inr _ \<Rightarrow>
          if unchanged f t then (Inr (), t)
          else
            (let t0 = rewind f t
             in case cf_seek f of
                  Inl e \<Rightarrow> (Inl e, t0)
                | Inr _ \<Rightarrow>
                    (case read_records env (cf_fault f) (drop (tr_offset t0) (cf_bytes f)) t0 of
                       (Inl e, t1) \<Rightarrow> (Inl e, t1)
                     | (Inr _, t1) \<Rightarrow> (Inr (), t1\<lparr>tr_modified := cf_modified f\<rparr>))))"

definition refresh_transcript :: "claude_env \<Rightarrow> claude_file \<Rightarrow> transcript \<Rightarrow> transcript" where
  "refresh_transcript env f t =
     (case refresh_file env f t of
        (Inr _, t1) \<Rightarrow> t1
      | (Inl _, t1) \<Rightarrow> t1\<lparr>tr_uncertain := True, tr_modified := None\<rparr>)"

type_synonym transcripts = "(string, transcript) dict"

text \<open>
  One entry of a project directory.  The path becomes a JSON value when its transcript is
  first seen, which panics when it is not UTF-8.
\<close>

definition session_file :: "claude_env \<Rightarrow> string \<Rightarrow> string option" where
  "session_file env name =
     (if file_extension name = Some ''jsonl'' \<and> valid_utf8 (file_stem name) \<and>
         ae_is_uuid env (file_stem name)
      then Some (file_stem name) else None)"

definition visit_entry ::
    "claude_env \<Rightarrow> string \<Rightarrow> claude_entry \<Rightarrow> string set \<times> transcripts \<Rightarrow>
     unit result \<times> (string set \<times> transcripts)" where
  "visit_entry env dir e = (\<lambda>(seen, ts).
     case session_file env (fe_name e) of
       None \<Rightarrow> (Inr (), (seen, ts))
     | Some i \<Rightarrow>
         let path = dir @ ''/'' @ fe_name e;
             seen' = insert path seen
         in if hm_get ts path = None \<and> \<not> valid_utf8 path
            then (panic ''path contains invalid UTF-8 characters'', (seen', ts))
            else (Inr (),
              (seen', hm_insert path (refresh_transcript env (fe_file e)
                 (unwrap_or (hm_get ts path) (fresh_transcript path i))) ts)))"

fun visit_entries ::
    "claude_env \<Rightarrow> string \<Rightarrow> claude_entry result list \<Rightarrow> string set \<times> transcripts \<Rightarrow>
     unit result \<times> (string set \<times> transcripts)" where
  "visit_entries env dir [] acc = (Inr (), acc)"
| "visit_entries env dir (Inl e # es) acc = (Inl e, acc)"
| "visit_entries env dir (Inr entry # es) acc =
     (case visit_entry env dir entry acc of
        (Inl e, acc') \<Rightarrow> (Inl e, acc')
      | (Inr _, acc') \<Rightarrow> visit_entries env dir es acc')"

fun visit_projects ::
    "claude_env \<Rightarrow> claude_project result list \<Rightarrow> string set \<times> transcripts \<Rightarrow>
     unit result \<times> (string set \<times> transcripts)" where
  "visit_projects env [] acc = (Inr (), acc)"
| "visit_projects env (Inl e # ps) acc = (Inl e, acc)"
| "visit_projects env (Inr p # ps) acc =
     (case pj_is_dir p of
        Inl e \<Rightarrow> (Inl e, acc)
      | Inr False \<Rightarrow> visit_projects env ps acc
      | Inr True \<Rightarrow>
          (case pj_entries p of
             Inl e \<Rightarrow> (Inl e, acc)
           | Inr es \<Rightarrow>
               (case visit_entries env (pj_path p) es acc of
                  (Inl e, acc') \<Rightarrow> (Inl e, acc')
                | (Inr _, acc') \<Rightarrow> visit_projects env ps acc')))"

text \<open>\<open>None\<close>: the directory of projects does not exist.\<close>

type_synonym listing = "claude_project result list result option"

definition claude_refresh :: "claude_env \<Rightarrow> listing \<Rightarrow> transcripts \<Rightarrow> unit result \<times> transcripts" where
  "claude_refresh env dir ts =
     (case dir of
        None \<Rightarrow> (Inr (), [])
      | Some (Inl e) \<Rightarrow> (Inl e, ts)
      | Some (Inr ps) \<Rightarrow>
          (case visit_projects env ps ({}, ts) of
             (Inl e, (seen, ts')) \<Rightarrow> (Inl e, ts')
           | (Inr _, (seen, ts')) \<Rightarrow> (Inr (), hm_retain (\<lambda>path _. path \<in> seen) ts')))"

definition transcript_path :: "string \<Rightarrow> transcripts \<Rightarrow> string result" where
  "transcript_path i ts =
     (case find (\<lambda>(path, t). se_id (tr_session t) = i) ts of
        None \<Rightarrow> bail ''Claude session not found''
      | Some (path, t) \<Rightarrow> Inr path)"


section \<open>The operations of the provider\<close>

text \<open>\<open>value[k] = v\<close>; other values than objects panic, but a session's metadata is an object.\<close>

fun with_entry :: "string \<Rightarrow> json \<Rightarrow> json \<Rightarrow> json" where
  "with_entry k v (JObject m) = JObject (bt_insert k v m)"
| "with_entry k v w = w"

definition reported_session :: "transcript \<Rightarrow> session" where
  "reported_session t =
     (if tr_uncertain t
      then (tr_session t)\<lparr>se_updated_at := None,
             se_metadata := with_entry ''activity_unknown'' (JBool True) (se_metadata (tr_session t))\<rparr>
      else tr_session t)"

text \<open>Newest first, the undated last, then by identifier.\<close>

definition session_rank :: "session \<Rightarrow> bool \<times> int \<times> string" where
  "session_rank s = (se_updated_at s = None, - unwrap_or (se_updated_at s) 0, se_id s)"

definition reported_sessions :: "transcripts \<Rightarrow> session list" where
  "reported_sessions ts = sort_key session_rank (map reported_session (hm_values ts))"

definition claude_list_sessions ::
    "claude_env \<Rightarrow> listing \<Rightarrow> nat \<Rightarrow> transcripts \<Rightarrow> session list result \<times> transcripts" where
  "claude_list_sessions env dir limit ts =
     (case claude_refresh env dir ts of
        (Inl e, ts') \<Rightarrow> (Inl e, ts')
      | (Inr _, ts') \<Rightarrow> (Inr (take limit (reported_sessions ts')), ts'))"

definition claude_recent_sessions ::
    "claude_env \<Rightarrow> listing \<Rightarrow> timestamp \<Rightarrow> transcripts \<Rightarrow> session list result \<times> transcripts" where
  "claude_recent_sessions env dir cutoff ts =
     (case claude_list_sessions env dir u64_max ts of
        (Inl e, ts') \<Rightarrow> (Inl e, ts')
      | (Inr sessions, ts') \<Rightarrow>
          (Inr (filter (\<lambda>s. case se_updated_at s of None \<Rightarrow> True | Some t \<Rightarrow> cutoff \<le> t) sessions),
           ts'))"

definition session_hit :: "claude_env \<Rightarrow> string \<Rightarrow> session \<Rightarrow> bool" where
  "session_hit env query s \<longleftrightarrow>
     contains_text query (se_id s) \<or> contains_text query (ae_lower env (se_title s))"

definition cursor_start :: "claude_env \<Rightarrow> string option \<Rightarrow> nat result" where
  "cursor_start env cursor =
     (case cursor of
        None \<Rightarrow> Inr 0
      | Some c \<Rightarrow>
          with_context ''invalid Claude session cursor''
            (ok_or (Root (Message (ae_int_error env c))) (parse_usize c)))"

definition session_page :: "nat \<Rightarrow> nat \<Rightarrow> session list \<Rightarrow> search_page" where
  "session_page start limit sessions =
     (let end' = min (usize_sat_add start limit) (length sessions)
      in \<lparr>sp_sessions = take limit (drop start sessions),
          sp_next_cursor =
            (if end' < length sessions then Some (show_nat end') else None)\<rparr>)"

definition claude_search_sessions ::
    "claude_env \<Rightarrow> listing \<Rightarrow> string \<Rightarrow> string option \<Rightarrow> nat \<Rightarrow> transcripts \<Rightarrow>
     search_page result \<times> transcripts" where
  "claude_search_sessions env dir query cursor limit ts =
     (case claude_list_sessions env dir u64_max ts of
        (Inl e, ts') \<Rightarrow> (Inl e, ts')
      | (Inr sessions, ts') \<Rightarrow>
          (let found = filter (session_hit env (ae_lower env query)) sessions
           in (bindR (cursor_start env cursor) (\<lambda>start. Inr (session_page start limit found)), ts')))"

definition claude_validate_session ::
    "claude_env \<Rightarrow> listing \<Rightarrow> string \<Rightarrow> transcripts \<Rightarrow> unit result \<times> transcripts" where
  "claude_validate_session env dir session_id ts =
     (case claude_refresh env dir ts of
        (Inl e, ts') \<Rightarrow> (Inl e, ts')
      | (Inr _, ts') \<Rightarrow> (bindR (transcript_path session_id ts') (\<lambda>_. Inr ()), ts'))"

definition claude_log :: "claude_env \<Rightarrow> string \<Rightarrow> string \<Rightarrow> session_log option" where
  "claude_log env session_id line =
     (case ae_parse env line of
        None \<Rightarrow> None
      | Some v \<Rightarrow>
          if is_message v \<and> \<not> is_sidechain v
          then Some
            \<lparr>sl_timestamp = record_time env v, sl_provider = ''claude'', sl_session_id = session_id,
             sl_source = ''claude'', sl_kind = ''message'',
             sl_role = as_str (json_index v ''type''), sl_turn_id = None, sl_condition = None,
             sl_message = message_text v, sl_metadata = JNull\<rparr>
          else None)"

text \<open>\<open>reader.lines()\<close>, with the last \<open>limit\<close> messages kept.\<close>

fun collect_logs ::
    "claude_env \<Rightarrow> string \<Rightarrow> nat \<Rightarrow> (nat \<times> string) option \<Rightarrow> session_log list \<Rightarrow> string list \<Rightarrow>
     session_log list result" where
  "collect_logs env session_id limit (Some (0, os)) logs ls = bail os"
| "collect_logs env session_id limit fault logs [] = Inr logs"
| "collect_logs env session_id limit fault logs (l # ls) =
     (if \<not> valid_utf8 l then bail ''stream did not contain valid UTF-8''
      else collect_logs env session_id limit (map_option (\<lambda>(n, os). (n - 1, os)) fault)
        (case claude_log env session_id l of
           None \<Rightarrow> logs
         | Some entry \<Rightarrow>
             let logs' = logs @ [entry] in if length logs' > limit then tl logs' else logs')
        ls)"

definition claude_session_logs ::
    "claude_env \<Rightarrow> listing \<Rightarrow> claude_file \<Rightarrow> string \<Rightarrow> nat \<Rightarrow> transcripts \<Rightarrow>
     session_log list result \<times> transcripts" where
  "claude_session_logs env dir f session_id limit ts =
     (case claude_refresh env dir ts of
        (Inl e, ts') \<Rightarrow> (Inl e, ts')
      | (Inr _, ts') \<Rightarrow>
          (bindR (transcript_path session_id ts') (\<lambda>_. bindR (cf_open f) (\<lambda>_.
             collect_logs env session_id limit (cf_fault f) [] (lines_of (cf_bytes f)))), ts'))"

definition claude_latest_failure :: "string \<Rightarrow> failure option result" where
  "claude_latest_failure session_id = Inr None"

definition claude_resume :: "string \<Rightarrow> string \<Rightarrow> string \<Rightarrow> resume_receipt result" where
  "claude_resume session_id prompt key =
     bail (''Claude sessions support discovery and logs; '' @
       ''live-session message delivery is not supported'')"


section \<open>Reading on and reading again\<close>

text \<open>
  The reference: what a transcript says as a whole, without any memory of how far it was
  read.  Only lines that end with a line feed count; the last one may still be written.
\<close>

definition apply_lines :: "claude_env \<Rightarrow> string list \<Rightarrow> transcript \<Rightarrow> transcript" where
  "apply_lines env ls t = foldl (\<lambda>t l. apply_line env l t) t ls"

definition transcript_of :: "claude_env \<Rightarrow> string \<Rightarrow> string \<Rightarrow> string \<Rightarrow> transcript" where
  "transcript_of env path i content =
     apply_lines env (complete_lines content) (fresh_transcript path i)"

lemma apply_lines_simps [simp]:
  "apply_lines env [] t = t"
  "apply_lines env (l # ls) t = apply_lines env ls (apply_line env l t)"
  "apply_lines env (ls @ ls') t = apply_lines env ls' (apply_lines env ls t)"
  by (simp_all add: apply_lines_def)

lemma read_records_lines:
  "read_records env fault s t = (Inr u, t') \<Longrightarrow> t' = apply_lines env (complete_lines s) t"
proof (induction env fault s t arbitrary: t' rule: read_records.induct)
  case (1 env fault s t)
  show ?case
  proof (cases "\<exists>os. fault = Some (0, os)")
    case True
    with 1(3) show ?thesis by (subst (asm) read_records.simps) auto
  next
    case False
    then have step: "read_records env fault s t =
        (let chunk = read_line s
         in if \<not> valid_utf8 chunk then (bail ''stream did not contain valid UTF-8'', t)
            else if unfinished chunk then (Inr (), t)
            else read_records env (map_option (\<lambda>(n, os). (n - 1, os)) fault)
              (drop (length chunk) s) (apply_line env chunk t))"
      by (subst read_records.simps) (auto split: option.splits prod.splits nat.splits)
    show ?thesis
    proof (cases "unfinished (read_line s)")
      case True
      with 1(3) step show ?thesis
        by (subst complete_lines.simps) (auto simp: Let_def split: if_splits)
    next
      case unf: False
      from 1(3) step unf have valid: "valid_utf8 (read_line s)"
        and rest: "read_records env (map_option (\<lambda>(n, os). (n - 1, os)) fault)
          (drop (length (read_line s)) s) (apply_line env (read_line s) t) = (Inr u, t')"
        by (auto simp: Let_def split: if_splits)
      from False have "fault = None \<or> (\<exists>n os. fault = Some (Suc n, os))"
        by (metis not0_implies_Suc option.exhaust surj_pair)
      then have "t' = apply_lines env (complete_lines (drop (length (read_line s)) s))
          (apply_line env (read_line s) t)"
      proof
        assume none: "fault = None"
        from 1(1) [OF none refl, of t'] valid unf rest none show ?thesis by simp
      next
        assume "\<exists>n os. fault = Some (Suc n, os)"
        then obtain n os where some: "fault = Some (Suc n, os)" by blast
        from 1(2) [OF some refl refl refl, of t'] valid unf rest some show ?thesis by simp
      qed
      with unf show ?thesis by (subst complete_lines.simps) (simp add: Let_def)
    qed
  qed
qed

text \<open>What lines do to a transcript, all at once.\<close>

definition line_record :: "claude_env \<Rightarrow> string \<Rightarrow> json option" where
  "line_record env l =
     (case ae_parse env l of None \<Rightarrow> None | Some v \<Rightarrow> if is_sidechain v then None else Some v)"

definition line_title :: "claude_env \<Rightarrow> string \<Rightarrow> string option" where
  "line_title env l = Option.bind (line_record env l) record_title"

definition line_time :: "claude_env \<Rightarrow> string \<Rightarrow> timestamp option" where
  "line_time env l =
     Option.bind (line_record env l) (\<lambda>v. if is_message v then record_time env v else None)"

definition line_doubt :: "claude_env \<Rightarrow> string \<Rightarrow> bool option" where
  "line_doubt env l =
     (if ae_parse env l = None then Some True
      else if line_time env l \<noteq> None then Some False else None)"

definition last_of :: "(string \<Rightarrow> 'a option) \<Rightarrow> string list \<Rightarrow> 'a option" where
  "last_of f ls = find_map f (rev ls)"

definition max_of :: "(string \<Rightarrow> timestamp option) \<Rightarrow> string list \<Rightarrow> timestamp option" where
  "max_of f ls = foldl opt_max None (map f ls)"

lemma last_of_snoc: "last_of f (ls @ [l]) = (case f l of Some x \<Rightarrow> Some x | None \<Rightarrow> last_of f ls)"
  by (simp add: last_of_def split: option.splits)

lemma find_map_append:
  "find_map f (xs @ ys) = (case find_map f xs of Some x \<Rightarrow> Some x | None \<Rightarrow> find_map f ys)"
  by (induction xs) (auto split: option.splits)

lemma last_of_append:
  "last_of f (xs @ ys) = (case last_of f ys of Some x \<Rightarrow> Some x | None \<Rightarrow> last_of f xs)"
  by (simp add: last_of_def find_map_append split: option.splits)

lemma max_of_snoc: "max_of f (ls @ [l]) = opt_max (max_of f ls) (f l)"
  by (simp add: max_of_def)

lemma apply_line_fields:
  "tr_offset (apply_line env l t) = tr_offset t + length l"
  "tr_modified (apply_line env l t) = tr_modified t"
  "tr_identity (apply_line env l t) = tr_identity t"
  "tr_uncertain (apply_line env l t) = unwrap_or (line_doubt env l) (tr_uncertain t)"
  "tr_session (apply_line env l t) = (tr_session t)
     \<lparr>se_title := unwrap_or (line_title env l) (se_title (tr_session t)),
      se_updated_at := opt_max (se_updated_at (tr_session t)) (line_time env l)\<rparr>"
  by (simp_all add: apply_line_def Let_def see_title_def see_message_def line_record_def
      line_title_def line_time_def line_doubt_def split: option.splits) auto

lemma apply_lines_fields:
  "tr_offset (apply_lines env ls t) = tr_offset t + sum_list (map length ls)"
  "tr_uncertain (apply_lines env ls t) = unwrap_or (last_of (line_doubt env) ls) (tr_uncertain t)"
  "tr_session (apply_lines env ls t) = (tr_session t)
     \<lparr>se_title := unwrap_or (last_of (line_title env) ls) (se_title (tr_session t)),
      se_updated_at := opt_max (se_updated_at (tr_session t)) (max_of (line_time env) ls)\<rparr>"
proof (induction ls rule: rev_induct)
  case Nil
  {
    case 1 show ?case by simp
  next
    case 2 show ?case by (simp add: last_of_def)
  next
    case 3 show ?case by (simp add: last_of_def max_of_def)
  }
next
  case (snoc l ls)
  {
    case 1 from snoc(1) show ?case by (simp add: apply_line_fields)
  next
    case 2 from snoc(2) show ?case
      by (simp add: apply_line_fields last_of_snoc split: option.splits)
  next
    case 3 from snoc(3) show ?case
      by (simp add: apply_line_fields last_of_snoc max_of_snoc opt_max_assoc split: option.splits)
  }
qed


definition same_reading :: "transcript \<Rightarrow> transcript \<Rightarrow> bool" where
  "same_reading t u \<longleftrightarrow>
     tr_session t = tr_session u \<and> tr_uncertain t = tr_uncertain u \<and> tr_offset t = tr_offset u"

lemma unwrap_or_again: "unwrap_or x (unwrap_or x d) = unwrap_or x d"
  by (cases x) simp_all

lemma apply_lines_same_reading:
  "same_reading t u \<Longrightarrow> same_reading (apply_lines env ls t) (apply_lines env ls u)"
  by (simp add: same_reading_def apply_lines_fields)

text \<open>
  Reading again from the start what was read before gives the same: the title and the
  doubt that are kept from before are the ones that come out again.
\<close>

lemma reread_same:
  assumes "same_reading t (apply_lines env ls (fresh_transcript path i))"
    and "u = t\<lparr>tr_offset := 0, tr_identity := n,
      tr_session := (tr_session t)\<lparr>se_updated_at := None\<rparr>\<rparr>"
  shows "same_reading (apply_lines env (ls @ ls2) u)
    (apply_lines env (ls @ ls2) (fresh_transcript path i))"
  using assms
  by (simp add: same_reading_def apply_lines_fields fresh_transcript_def unwrap_or_again)

lemma transcript_of_offset: "tr_offset (transcript_of env path i s) = complete_length s"
  by (simp add: transcript_of_def apply_lines_fields fresh_transcript_def complete_length_def)

lemma longer_prefix:
  assumes "length s \<le> length b" and "prefix b s"
  shows "b = s"
proof -
  from assms(2) obtain zs where "s = b @ zs" by (auto simp: prefix_def)
  with assms(1) show ?thesis by simp
qed

text \<open>One successful refresh over a file that was only appended to.\<close>

lemma refresh_step:
  assumes "same_reading t (transcript_of env path i b)"
    and "prefix b (take (cf_len f) (cf_bytes f))" and "cf_len f \<le> length (cf_bytes f)"
    and "refresh_file env f t = (Inr u, t')"
  shows "\<exists>c. prefix c (cf_bytes f) \<and> prefix (take (cf_len f) (cf_bytes f)) c \<and>
    same_reading t' (transcript_of env path i c)"
proof -
  let ?seen = "take (cf_len f) (cf_bytes f)" and ?all = "cf_bytes f"
  from assms(4) obtain x where opened: "bindR (cf_open f) (\<lambda>_. cf_metadata f) = Inr x"
    by (cases "bindR (cf_open f) (\<lambda>_. cf_metadata f)") (simp_all add: refresh_file_def)
  have offset: "tr_offset t = complete_length b"
    using assms(1) by (simp add: same_reading_def transcript_of_offset)
  show ?thesis
  proof (cases "unchanged f t")
    case True
    with assms(4) opened have "t' = t" by (simp add: refresh_file_def)
    moreover have "length ?seen \<le> length b"
      using True offset complete_length_le [of b] assms(3) by (simp add: unchanged_def)
    then have "b = ?seen"
      using assms(2) by (rule longer_prefix)
    ultimately show ?thesis using assms(1) take_is_prefix by blast
  next
    case False
    from assms(4) opened False obtain t1 where
      run: "read_records env (cf_fault f) (drop (tr_offset (rewind f t)) ?all) (rewind f t) = (Inr (), t1)"
      and t': "t' = t1\<lparr>tr_modified := cf_modified f\<rparr>"
      by (auto simp: refresh_file_def Let_def split: sum.splits prod.splits)
    from prefix_order.trans [OF assms(2) take_is_prefix] obtain rest where all: "?all = b @ rest"
      by (auto simp: prefix_def)
    have t1: "t1 = apply_lines env (complete_lines (drop (tr_offset (rewind f t)) ?all)) (rewind f t)"
      by (rule read_records_lines [OF run])
    have whole: "complete_lines ?all = complete_lines b @ complete_lines (drop (complete_length b) ?all)"
      unfolding all by (rule complete_lines_append)
    have "same_reading t1 (transcript_of env path i ?all)"
    proof (cases "tr_identity t \<noteq> cf_identity f \<or> cf_len f \<le> tr_offset t")
      case True
      then have "rewind f t = t\<lparr>tr_offset := 0, tr_identity := cf_identity f,
          tr_session := (tr_session t)\<lparr>se_updated_at := None\<rparr>\<rparr>" by (simp add: rewind_def)
      from reread_same [OF assms(1) [unfolded transcript_of_def] this] show ?thesis
        using t1 whole \<open>rewind f t = _\<close> by (simp add: transcript_of_def)
    next
      case False
      then have "rewind f t = t" by (simp add: rewind_def)
      with t1 offset whole apply_lines_same_reading [OF assms(1)] show ?thesis
        by (simp add: transcript_of_def)
    qed
    then have "same_reading t' (transcript_of env path i ?all)"
      by (simp add: t' same_reading_def)
    then show ?thesis using take_is_prefix by blast
  qed
qed

text \<open>A series of refreshes, and a file that only grows between and during them.\<close>

fun refresh_series :: "claude_env \<Rightarrow> claude_file list \<Rightarrow> transcript \<Rightarrow> unit result \<times> transcript" where
  "refresh_series env [] t = (Inr (), t)"
| "refresh_series env (f # fs) t =
     (case refresh_file env f t of
        (Inl e, t') \<Rightarrow> (Inl e, t')
      | (Inr _, t') \<Rightarrow> refresh_series env fs t')"

fun growing :: "string \<Rightarrow> claude_file list \<Rightarrow> bool" where
  "growing b [] \<longleftrightarrow> True"
| "growing b (f # fs) \<longleftrightarrow>
     prefix b (take (cf_len f) (cf_bytes f)) \<and> cf_len f \<le> length (cf_bytes f) \<and>
     growing (cf_bytes f) fs"

lemma growing_antimono: "growing b fs \<Longrightarrow> prefix a b \<Longrightarrow> growing a fs"
  by (cases fs) (auto intro: prefix_order.trans)

lemma refresh_series_reading:
  assumes "same_reading t (transcript_of env path i b)" and "growing b fs"
    and "refresh_series env fs t = (Inr u, t')" and "fs \<noteq> []"
    and "cf_len (last fs) = length (cf_bytes (last fs))"
  shows "same_reading t' (transcript_of env path i (cf_bytes (last fs)))"
  using assms
proof (induction fs arbitrary: t b)
  case (Cons f fs)
  from Cons.prems(3) obtain t1 where step: "refresh_file env f t = (Inr (), t1)"
    and rest: "refresh_series env fs t1 = (Inr u, t')"
    by (auto split: prod.splits sum.splits)
  from refresh_step [OF Cons.prems(1) _ _ step] Cons.prems(2) obtain c where
    c: "prefix c (cf_bytes f)" "prefix (take (cf_len f) (cf_bytes f)) c"
      "same_reading t1 (transcript_of env path i c)" by auto
  show ?case
  proof (cases "fs = []")
    case True
    with Cons.prems(5) c(1,2) have "c = cf_bytes f" by (auto intro: prefix_order.antisym)
    with True c(3) rest show ?thesis by simp
  next
    case False
    have "growing c fs" using Cons.prems(2) c(1) by (auto intro: growing_antimono)
    from Cons.IH [OF c(3) this rest False] Cons.prems(5) False show ?thesis by simp
  qed
qed simp

text \<open>C22: Reading on is equivalent to reading again.  However often a transcript that is only
  appended to is refreshed - with lines being written while it is read, with unfinished
  lines, with metadata that does not show an append yet and makes it read from the start -
  the session that comes out is the one that a single reading of the whole file gives:
  title, time of the last message, doubt, and the place to read on from.\<close>
theorem claude_refresh_incremental:
  assumes "growing [] fs" and "fs \<noteq> []" and "cf_len (last fs) = length (cf_bytes (last fs))"
    and "refresh_series env fs (fresh_transcript path i) = (Inr u, t)"
  shows "tr_session t = tr_session (transcript_of env path i (cf_bytes (last fs))) \<and>
    tr_uncertain t = tr_uncertain (transcript_of env path i (cf_bytes (last fs))) \<and>
    tr_offset t = tr_offset (transcript_of env path i (cf_bytes (last fs)))"
proof -
  have "complete_lines [] = []" by (simp add: complete_lines_unfinished unfinished_def)
  then have "same_reading (fresh_transcript path i) (transcript_of env path i [])"
    by (simp add: same_reading_def transcript_of_def)
  from refresh_series_reading [OF this assms(1,4,2,3)] show ?thesis
    by (simp add: same_reading_def)
qed

definition example_claude_env :: claude_env where
  "example_claude_env =
     \<lparr>ae_parse = (\<lambda>l. Some (json_object
        [(''type'', JString ''user''), (''timestamp'', JString l)])),
      ae_time = (\<lambda>s. Some (int (length s))), ae_is_uuid = (\<lambda>s. True), ae_lower = (\<lambda>s. s),
      ae_int_error = (\<lambda>s. ''invalid'')\<rparr>"

definition example_claude_file :: "string \<Rightarrow> nat \<Rightarrow> claude_file" where
  "example_claude_file bytes modified =
     \<lparr>cf_open = Inr (), cf_metadata = Inr (), cf_len = length bytes, cf_modified = Some modified,
      cf_identity = (1, 1), cf_seek = Inr (), cf_bytes = bytes, cf_fault = None\<rparr>"

definition example_claude_files :: "claude_file list" where
  "example_claude_files =
     [example_claude_file [CHR ''a'', CHR 0x0A, CHR ''b''] 1,
      example_claude_file [CHR ''a'', CHR 0x0A, CHR ''b'', CHR ''c'', CHR 0x0A] 2]"

theorem claude_refresh_incremental_witness:
  "tr_session (snd (refresh_series example_claude_env example_claude_files (fresh_transcript ''p'' ''i''))) =
   tr_session (transcript_of example_claude_env ''p'' ''i''
     (cf_bytes (last example_claude_files)))"
proof -
  let ?r = "refresh_series example_claude_env example_claude_files (fresh_transcript ''p'' ''i'')"
  have "case ?r of (Inr _, _) \<Rightarrow> True | _ \<Rightarrow> False" by code_simp
  then obtain u t where r: "?r = (Inr u, t)" by (auto split: prod.splits sum.splits)
  have "growing [] example_claude_files" "example_claude_files \<noteq> []"
    "cf_len (last example_claude_files) = length (cf_bytes (last example_claude_files))"
    by (simp_all add: example_claude_files_def example_claude_file_def)
  from claude_refresh_incremental [OF this r] show ?thesis by (simp add: r)
qed

section \<open>Paging\<close>

lemma session_rank_sorted:
  "sorted_wrt (\<lambda>a b. session_rank a \<le> session_rank b) (reported_sessions ts)"
  using sorted_sort_key [of session_rank "map reported_session (hm_values ts)"]
  by (simp only: reported_sessions_def sorted_map)

lemma session_rank_le:
  "session_rank a \<le> session_rank b \<Longrightarrow>
     opt_max (se_updated_at a) (se_updated_at b) = se_updated_at a"
  by (cases "se_updated_at a"; cases "se_updated_at b") (auto simp: session_rank_def less_eq_prod_def)

lemma reported_newest_first:
  "sorted_wrt (\<lambda>a b. opt_max (se_updated_at a) (se_updated_at b) = se_updated_at a)
     (filter P (reported_sessions ts))"
  by (intro sorted_wrt_filter sorted_wrt_mono_rel [OF _ session_rank_sorted])
    (auto dest: session_rank_le)

lemma length_reported [simp]: "length (reported_sessions ts) = length ts"
  by (simp add: reported_sessions_def hm_values_def)

text \<open>The directory as it is was already read, and fits into the address space.\<close>

definition at_rest :: "claude_env \<Rightarrow> listing \<Rightarrow> transcripts \<Rightarrow> bool" where
  "at_rest env dir ts \<longleftrightarrow> claude_refresh env dir ts = (Inr (), ts) \<and> length ts \<le> u64_max"

lemma at_rest_list:
  "at_rest env dir ts \<Longrightarrow> claude_list_sessions env dir u64_max ts = (Inr (reported_sessions ts), ts)"
  by (simp add: at_rest_def claude_list_sessions_def)

lemma at_rest_recent:
  "at_rest env dir ts \<Longrightarrow> claude_recent_sessions env dir cutoff ts =
     (Inr (filter (\<lambda>s. case se_updated_at s of None \<Rightarrow> True | Some t \<Rightarrow> cutoff \<le> t)
       (reported_sessions ts)), ts)"
  by (simp add: claude_recent_sessions_def at_rest_list)

definition claude_place :: "string option \<Rightarrow> nat option" where
  "claude_place c = (case c of None \<Rightarrow> Some 0 | Some s \<Rightarrow> parse_usize s)"

lemma cursor_start_place: "claude_place c = Some i \<Longrightarrow> cursor_start env c = Inr i"
  by (auto simp: claude_place_def cursor_start_def split: option.splits)

lemma session_page_stretch:
  assumes "length xs \<le> u64_max" and "0 < limit"
  shows "\<exists>j. sp_sessions (session_page i limit xs) = take (j - i) (drop i xs) \<and>
    (case sp_next_cursor (session_page i limit xs) of
       None \<Rightarrow> length xs \<le> j
     | Some c \<Rightarrow> i < j \<and> j < length xs \<and> claude_place (Some c) = Some j)"
proof (cases "usize_sat_add i limit < length xs")
  case True
  then have "usize_sat_add i limit = i + limit"
    using assms(1) by (simp add: usize_sat_add_def)
  with True assms show ?thesis
    by (intro exI [of _ "i + limit"]) (simp add: session_page_def Let_def claude_place_def)
next
  case False
  then have "length xs - i \<le> limit" by (auto simp: usize_sat_add_def split: if_splits)
  with False show ?thesis
    by (intro exI [of _ "length xs"]) (simp add: session_page_def Let_def)
qed

interpretation claude_pages: cursor_catalogue
  "\<lambda>cursor. claude_search_sessions env dir query cursor (Suc n)"
  "\<lambda>ts'. ts' = ts \<and> at_rest env dir ts"
  "filter (session_hit env (ae_lower env query)) (reported_sessions ts)"
  "\<lambda>_. True" claude_place for env dir query n ts
proof unfold_locales
  show "claude_place None = Some 0" by (simp add: claude_place_def)
next
  fix ts' cursor i
  let ?found = "filter (session_hit env (ae_lower env query)) (reported_sessions ts)"
  assume state: "ts' = ts \<and> at_rest env dir ts" and place: "claude_place cursor = Some i"
  have "length ?found \<le> length ts"
    using length_filter_le [of _ "reported_sessions ts"] by simp
  also have "\<dots> \<le> u64_max" using state by (simp add: at_rest_def)
  finally have bound: "length ?found \<le> u64_max" .
  from session_page_stretch [OF bound zero_less_Suc [of n], of i] obtain j where
    "sp_sessions (session_page i (Suc n) ?found) = take (j - i) (drop i ?found)"
    "case sp_next_cursor (session_page i (Suc n) ?found) of
       None \<Rightarrow> length ?found \<le> j
     | Some c \<Rightarrow> i < j \<and> j < length ?found \<and> claude_place (Some c) = Some j" by blast
  moreover have "claude_search_sessions env dir query cursor (Suc n) ts' =
      (Inr (session_page i (Suc n) ?found), ts)"
    using state at_rest_list [of env dir ts] cursor_start_place [OF place]
    by (simp add: claude_search_sessions_def)
  ultimately show "\<exists>found s' j. claude_search_sessions env dir query cursor (Suc n) ts' = (Inr found, s') \<and>
      (s' = ts \<and> at_rest env dir ts) \<and>
      sp_sessions found = filter (\<lambda>_. True) (take (j - i) (drop i ?found)) \<and>
      (case sp_next_cursor found of
         None \<Rightarrow> length ?found \<le> j
       | Some c \<Rightarrow> i < j \<and> j < length ?found \<and> claude_place (Some c) = Some j)"
    using state by auto
qed

lemma contains_empty [simp]: "contains_text [] s"
  by (cases s) simp_all

text \<open>C23: Claude's own discovery is equivalent to the paging loop of the trait, and better by
  the undated sessions.  Over a directory at rest the loop ends without repeating a
  cursor; of the sessions with a time both give exactly those not older than the cutoff,
  and Claude's also gives every session whose activity is not known, wherever it sorts.\<close>
theorem claude_recent_equivalent:
  assumes "claude_refresh env dir ts = (Inr (), ts)" and "length ts \<le> u64_max"
    and "ae_lower env [] = []"
  shows "\<exists>found recent.
    default_recent_sessions ''claude'' (claude_search_sessions env dir) cutoff ts =
      Some (Inr found, ts) \<and>
    claude_recent_sessions env dir cutoff ts = (Inr recent, ts) \<and>
    {s \<in> set recent. se_updated_at s \<noteq> None} =
      {s \<in> set found. \<exists>t. se_updated_at s = Some t \<and> cutoff \<le> t} \<and>
    {s \<in> set recent. se_updated_at s = None} =
      {s \<in> set (reported_sessions ts). se_updated_at s = None}"
proof -
  have at_rest: "at_rest env dir ts" using assms(1,2) by (simp add: at_rest_def)
  have all: "filter (session_hit env (ae_lower env [])) (reported_sessions ts) = reported_sessions ts"
    by (simp add: assms(3) session_hit_def)
  from claude_pages.discovery_complete [where env = env and dir = dir and query = "[]" and n = 499 and ts = ts and s = ts and
      name = "''claude''" and cutoff = cutoff] at_rest
    reported_newest_first [of "session_hit env (ae_lower env [])" ts]
  obtain found where
    loop: "default_recent_sessions ''claude'' (claude_search_sessions env dir) cutoff ts = Some (Inr found, ts)"
    and sub: "set found \<subseteq> set (reported_sessions ts)"
    and sup: "\<forall>x \<in> set (reported_sessions ts).
      (\<exists>t. se_updated_at x = Some t \<and> cutoff \<le> t) \<longrightarrow> x \<in> set found"
    using claude_pages.discovery_prefix [where env = env and dir = dir and query = "[]" and n = 499 and ts = ts and s = ts and
      name = "''claude''" and cutoff = cutoff]
    unfolding all by (auto simp: default_recent_sessions_def)
  from loop sub sup at_rest_recent [OF at_rest] show ?thesis by (auto split: option.splits)
qed

definition example_listing :: listing where
  "example_listing = Some (Inr [Inr
     \<lparr>pj_path = ''p'', pj_is_dir = Inr True,
      pj_entries = Inr [Inr \<lparr>fe_name = ''a.jsonl'',
        fe_file = example_claude_file [CHR ''a'', CHR 0x0A] 1\<rparr>]\<rparr>])"

definition example_transcripts :: transcripts where
  "example_transcripts = snd (claude_refresh example_claude_env example_listing [])"

theorem claude_recent_equivalent_witness:
  "\<exists>found recent. map se_id recent = [''a''] \<and>
    default_recent_sessions ''claude'' (claude_search_sessions example_claude_env example_listing) 1
      example_transcripts = Some (Inr found, example_transcripts) \<and>
    {s \<in> set recent. se_updated_at s \<noteq> None} =
      {s \<in> set found. \<exists>t. se_updated_at s = Some t \<and> 1 \<le> t}"
proof -
  have fixed: "claude_refresh example_claude_env example_listing example_transcripts =
      (Inr (), example_transcripts)" by code_simp
  have "length example_transcripts = 1" by code_simp
  then have small: "length example_transcripts \<le> u64_max" by (simp add: u64_max_def)
  have lower: "ae_lower example_claude_env [] = []" by (simp add: example_claude_env_def)
  let ?recent = "filter (\<lambda>s. case se_updated_at s of None \<Rightarrow> True | Some t \<Rightarrow> 1 \<le> t)
    (reported_sessions example_transcripts)"
  have ids: "map se_id ?recent = [''a'']" by code_simp
  have at_rest: "at_rest example_claude_env example_listing example_transcripts"
    using fixed small by (simp add: at_rest_def)
  from claude_recent_equivalent [OF fixed small lower, of 1] obtain found recent where
    loop: "default_recent_sessions ''claude'' (claude_search_sessions example_claude_env example_listing) 1
      example_transcripts = Some (Inr found, example_transcripts)"
    and own: "claude_recent_sessions example_claude_env example_listing 1 example_transcripts =
      (Inr recent, example_transcripts)"
    and same: "{s \<in> set recent. se_updated_at s \<noteq> None} =
      {s \<in> set found. \<exists>t. se_updated_at s = Some t \<and> 1 \<le> t}"
    by (elim exE conjE)
  from own at_rest_recent [OF at_rest, of 1] have "recent = ?recent"
    by (simp only: prod.inject sum.inject)
  with ids have "map se_id recent = [''a'']" by (simp only:)
  with loop same show ?thesis by (intro exI conjI)
qed

text \<open>
  The cursor is a place in the list as it is sorted now.  When a session becomes active
  between two pages, the session that was on the first page is shown again and the one that
  moved is never shown.
\<close>

lemma one_shown: "show_nat (Suc 0) = ''1''"
  by code_simp

lemma reordered_pages_miss:
  assumes "se_updated_at a = Some 2" and "se_updated_at b = Some 1" and "se_updated_at b' = Some 3"
  shows "session_page 0 1 (sort_key session_rank [a, b]) =
      \<lparr>sp_sessions = [a], sp_next_cursor = Some ''1''\<rparr> \<and>
    session_page 1 1 (sort_key session_rank [a, b']) = \<lparr>sp_sessions = [a], sp_next_cursor = None\<rparr>"
proof -
  have "sort_key session_rank [a, b] = [a, b]" and "sort_key session_rank [a, b'] = [b', a]"
    using assms by (simp_all add: session_rank_def less_eq_prod_def less_prod_def)
  then show ?thesis
    by (simp add: session_page_def Let_def usize_sat_add_def u64_max_def one_shown)
qed

end
