(* ===== verification/Daemon_Requests.thy ===== *)
theory Daemon_Requests
  imports Reconcile Retry_Registry Event_Log Claude
begin

text \<open>
  The requests of a connection (\<open>serve\<close> in \<open>daemon.rs\<close>): those that go to a provider through
  an engine of their own, the manual retry with its acceptance, its delivery and the task
  that carries it out, and the dispatch between them and the control plane.  The answers
  of the providers, the reads and writes of files and the delivery of a response are
  scripts; serde's text of the provider's data is a parameter.
\<close>


section \<open>Which requests go to a provider\<close>

definition is_reliability_log :: "session_log \<Rightarrow> bool" where
  "is_reliability_log l \<longleftrightarrow>
     sl_source l = ''watchcat'' \<or> sl_condition l \<noteq> None \<or>
     sl_kind l = ''turn.failed'' \<or> sl_kind l = ''provider.error''"

definition provider_log_limit :: "activity_query \<Rightarrow> nat" where
  "provider_log_limit q =
     (if aq_reliability_only q then min (usize_sat_mul (aq_limit q) 10) 2000 else aq_limit q)"

definition requires_provider :: "string \<Rightarrow> json \<Rightarrow> bool" where
  "requires_provider m params \<longleftrightarrow>
     m \<in> set [''sessions.search'', ''sessions.logs'', ''sessions.send'', ''sessions.interrupt''] \<or>
     (m = ''sessions.add'' \<and>
      unwrap_or (Option.bind (json_get ''validate'' params) as_bool) True)"

definition request_provider :: "rpc_request \<Rightarrow> string" where
  "request_provider request = unwrap_or (get_str ''provider'' (rq_params request)) ''codex''"


section \<open>The engine of a request\<close>

text \<open>
  What the provider's side answers while one request is served; \<open>pw_built\<close> and \<open>pw_started\<close>
  for each attempt to make an adapter, by its name.
\<close>

record provider_script =
  pw_built :: "string \<Rightarrow> unit result"
  pw_started :: "string \<Rightarrow> unit result"
  pw_state_fault :: "string option"
  pw_watchlist_fault :: "string option"
  pw_log_fault :: "string option"
  pw_now :: timestamp
  pw_search :: "string \<Rightarrow> string \<Rightarrow> string option \<Rightarrow> nat \<Rightarrow> search_page result"
  pw_logs :: "string \<Rightarrow> string \<Rightarrow> nat \<Rightarrow> session_log list result"
  pw_send :: "string \<Rightarrow> string \<Rightarrow> string \<Rightarrow> message_receipt result"
  pw_interrupt :: "string \<Rightarrow> string \<Rightarrow> interrupt_receipt result"
  pw_validate :: "string \<Rightarrow> string \<Rightarrow> unit result"

record worker_env =
  we_message :: serde_error
  we_session_json :: "session \<Rightarrow> json"
  we_logs_json :: "session_log list \<Rightarrow> json"
  we_message_receipt_json :: "message_receipt \<Rightarrow> json"
  we_interrupt_receipt_json :: "interrupt_receipt \<Rightarrow> json"
  we_event_codec :: event_codec
  we_log_loc :: location

definition build_interactive_engine ::
    "'b daemon_env \<Rightarrow> provider_script \<Rightarrow> settings \<Rightarrow> 'b option \<Rightarrow> string \<Rightarrow> engine result" where
  "build_interactive_engine env scr s rstate provider =
     bindR (build_providers s (pw_built scr) {} [provider]) (\<lambda>providers.
     bindR (start_providers (pw_started scr) [provider]) (\<lambda>_.
     bindR (runtime_load (de_runtime_codec env) (de_runtime_loc env) (pw_state_fault scr) rstate) (\<lambda>st.
       Inr \<lparr>en_settings = s, en_providers = providers, en_targets = [], en_state = st,
            en_unresolved = {}, en_dry_run = False\<rparr>)))"

text \<open>\<open>ensure_provider\<close>, then a call handed to it.\<close>

definition with_provider ::
    "provider_script \<Rightarrow> string \<Rightarrow> engine \<Rightarrow> (engine \<Rightarrow> 'a result) \<Rightarrow> 'a result" where
  "with_provider scr provider en f =
     (case ensure_provider provider (pw_built scr provider) (pw_started scr provider) en of
        (Inl e, en') \<Rightarrow> Inl e
      | (Inr _, en') \<Rightarrow> f en')"

definition search_item :: "worker_env \<Rightarrow> string set \<Rightarrow> session \<Rightarrow> json" where
  "search_item we watched s = json_object
     [(''watched'', JBool (session_key s \<in> watched)), (''session'', we_session_json we s)]"

definition page_json :: "worker_env \<Rightarrow> string set \<Rightarrow> search_page \<Rightarrow> json" where
  "page_json we watched page = json_object
     [(''items'', JArray (map (search_item we watched) (sp_sessions page))),
      (''next_cursor'', json_opt JString (sp_next_cursor page)),
      (''has_more'', JBool (sp_next_cursor page \<noteq> None))]"

definition search_request ::
    "'b daemon_env \<Rightarrow> worker_env \<Rightarrow> provider_script \<Rightarrow> rpc_request \<Rightarrow> 'b option \<Rightarrow> engine \<Rightarrow>
     json result" where
  "search_request env we scr request wlist en =
     bindR (decode (we_message we) ''SessionQuery'' session_query_of (rq_params request)) (\<lambda>q.
     with_provider scr (sq_provider q) en (\<lambda>en1.
     bindR (watchlist_list (de_watchlist_codec env) (de_watchlist_loc env) (pw_watchlist_fault scr) wlist)
       (\<lambda>targets.
     bindR (provider_call (sq_provider q)
         (pw_search scr (sq_provider q) (sq_query q) (sq_cursor q) (min (max (sq_limit q) 1) 500)) en1)
       (\<lambda>page. Inr (page_json we (target_key ` set targets) page)))))"

definition provider_error_log :: "timestamp \<Rightarrow> session_ref \<Rightarrow> error \<Rightarrow> session_log" where
  "provider_error_log now s e =
     \<lparr>sl_timestamp = Some now, sl_provider = sr_provider s, sl_session_id = sr_session_id s,
      sl_source = ''provider'', sl_kind = ''provider.error'', sl_role = None, sl_turn_id = None,
      sl_condition = None, sl_message = error_text e, sl_metadata = JNull\<rparr>"

text \<open>\<open>sort_by_key(timestamp)\<close> puts the entries without a time first; the newest are kept.\<close>

definition log_rank :: "session_log \<Rightarrow> bool \<times> int" where
  "log_rank l = (sl_timestamp l \<noteq> None, unwrap_or (sl_timestamp l) 0)"

definition merge_logs :: "activity_query \<Rightarrow> session_log list \<Rightarrow> session_log list \<Rightarrow> session_log list" where
  "merge_logs q provider_logs local_logs =
     (let keep = (\<lambda>ls. if aq_reliability_only q then filter is_reliability_log ls else ls)
      in keep_last (aq_limit q) (sort_key log_rank (keep provider_logs @ keep local_logs)))"

definition logs_request ::
    "worker_env \<Rightarrow> provider_script \<Rightarrow> rpc_request \<Rightarrow> string option \<Rightarrow> engine \<Rightarrow> json result" where
  "logs_request we scr request events en =
     bindR (decode (we_message we) ''ActivityQuery'' activity_query_of (rq_params request)) (\<lambda>q.
     bindR (activity_query_validate q) (\<lambda>_.
     (let s = aq_session q
      in with_provider scr (sr_provider s) en (\<lambda>en1.
        (let provider_logs =
           (case provider_call (sr_provider s)
               (pw_logs scr (sr_provider s) (sr_session_id s) (provider_log_limit q)) en1 of
              Inr ls \<Rightarrow> ls
            | Inl e \<Rightarrow> [provider_error_log (pw_now scr) s e])
         in bindR (event_session_logs (we_event_codec we) (we_log_loc we) (pw_log_fault scr)
              (sr_provider s) (sr_session_id s) (aq_category q) (aq_limit q) events) (\<lambda>local_logs.
              Inr (we_logs_json we (merge_logs q provider_logs local_logs))))))))"

definition send_request ::
    "worker_env \<Rightarrow> provider_script \<Rightarrow> rpc_request \<Rightarrow> engine \<Rightarrow> json result" where
  "send_request we scr request en =
     bindR (decode (we_message we) ''SessionMessage'' session_message_of (rq_params request)) (\<lambda>m.
     (let s = sm_session m
      in with_provider scr (sr_provider s) en (\<lambda>en1.
        if blank (sm_message m) then bail ''message cannot be empty''
        else bindR (provider_call (sr_provider s)
               (pw_send scr (sr_provider s) (sr_session_id s) (trim (sm_message m))) en1)
             (\<lambda>receipt. Inr (we_message_receipt_json we receipt)))))"

definition interrupt_request ::
    "worker_env \<Rightarrow> provider_script \<Rightarrow> rpc_request \<Rightarrow> engine \<Rightarrow> json result" where
  "interrupt_request we scr request en =
     bindR (decode (we_message we) ''SessionRef'' session_ref_of (rq_params request)) (\<lambda>s.
     with_provider scr (sr_provider s) en (\<lambda>en1.
     bindR (provider_call (sr_provider s) (pw_interrupt scr (sr_provider s) (sr_session_id s)) en1)
       (\<lambda>receipt. Inr (we_interrupt_receipt_json we receipt))))"

definition validate_request ::
    "worker_env \<Rightarrow> provider_script \<Rightarrow> rpc_request \<Rightarrow> engine \<Rightarrow> json result" where
  "validate_request we scr request en =
     bindR (decode (we_message we) ''SessionAdd'' session_add_of (rq_params request)) (\<lambda>a.
     (let s = sa_session a
      in with_provider scr (sr_provider s) en (\<lambda>en1.
        bindR (provider_call (sr_provider s) (pw_validate scr (sr_provider s) (sr_session_id s)) en1)
          (\<lambda>_. Inr JNull))))"

definition dispatch_provider ::
    "'b daemon_env \<Rightarrow> worker_env \<Rightarrow> provider_script \<Rightarrow> rpc_request \<Rightarrow> 'b option \<Rightarrow> string option \<Rightarrow>
     engine \<Rightarrow> json result" where
  "dispatch_provider env we scr request wlist events en =
     (if rq_version request \<noteq> protocol_version
      then bail (''client protocol '' @ show_nat (unat (rq_version request)) @
        '' is not supported; expected '' @ show_nat (unat protocol_version))
      else (let m = rq_method request
        in if m = ''sessions.search'' then search_request env we scr request wlist en
           else if m = ''sessions.logs'' then logs_request we scr request events en
           else if m = ''sessions.send'' then send_request we scr request en
           else if m = ''sessions.interrupt'' then interrupt_request we scr request en
           else if m = ''sessions.add'' then validate_request we scr request en
           else bail (''unknown provider RPC method: '' @ m)))"


section \<open>Responses\<close>

definition value_response :: "string \<Rightarrow> u64 \<Rightarrow> json \<Rightarrow> rpc_response" where
  "value_response i at v =
     \<lparr>rsp_version = protocol_version, rsp_id = i, rsp_revision = at, rsp_result = Some v,
      rsp_error = None\<rparr>"

definition failure_response :: "string \<Rightarrow> u64 \<Rightarrow> string \<Rightarrow> string \<Rightarrow> rpc_response" where
  "failure_response i at code m =
     \<lparr>rsp_version = protocol_version, rsp_id = i, rsp_revision = at, rsp_result = None,
      rsp_error = Some \<lparr>re_code = code, re_message = m\<rparr>\<rparr>"

definition too_large :: "rpc_response \<Rightarrow> rpc_response" where
  "too_large r = failure_response (rsp_id r) (rsp_revision r) ''response_too_large''
     (''response exceeds the local RPC limit of '' @ show_nat max_frame_bytes @
      '' bytes; request fewer items'')"

text \<open>\<open>ser\<close> is what serde writes.\<close>

definition encode_response :: "(rpc_response \<Rightarrow> string) \<Rightarrow> rpc_response \<Rightarrow> string" where
  "encode_response ser r =
     (if length (ser r) \<le> max_frame_bytes then ser r else ser (too_large r))"

definition provider_response ::
    "'b daemon_env \<Rightarrow> worker_env \<Rightarrow> provider_script \<Rightarrow> rpc_request \<Rightarrow> 'b option \<Rightarrow> string option \<Rightarrow>
     'b daemon_io \<Rightarrow> 'b daemon \<Rightarrow> rpc_response \<times> 'b daemon" where
  "provider_response env we scr request rstate events io d =
     (case bindR (build_interactive_engine env scr (dm_settings d) rstate (request_provider request))
         (dispatch_provider env we scr request (dm_watchlist d) events) of
        Inr v \<Rightarrow>
          if rq_method request = ''sessions.add''
          then handle_control env io
            (request\<lparr>rq_params := with_entry ''validate'' (JBool False) (rq_params request)\<rparr>) d
          else (value_response (rq_id request) (revision d) v, d)
      | Inl e \<Rightarrow>
          (failure_response (rq_id request) (revision d) ''request_failed'' (error_chain_text e), d))"

text \<open>
  Every other request of a connection: the response, and the notification that goes to the
  subscribers when a mutation succeeded and its response was written (\<open>sent\<close>).
\<close>

definition change_notification :: "string \<Rightarrow> rpc_response \<Rightarrow> rpc_notification option" where
  "change_notification m r =
     (if rsp_error r = None \<and> is_mutation m
      then Some \<lparr>rn_version = protocol_version, rn_event = ''state.changed'',
        rn_revision = rsp_revision r, rn_data = json_object [(''method'', JString m)]\<rparr>
      else None)"

definition connection_request ::
    "'b daemon_env \<Rightarrow> worker_env \<Rightarrow> provider_script \<Rightarrow> rpc_request \<Rightarrow> 'b option \<Rightarrow> string option \<Rightarrow>
     'b daemon_io \<Rightarrow> unit result \<Rightarrow> 'b daemon \<Rightarrow>
     rpc_response \<times> 'b daemon \<times> rpc_notification option" where
  "connection_request env we scr request rstate events io sent d =
     (let m = rq_method request
      in case (if requires_provider m (rq_params request)
               then provider_response env we scr request rstate events io d
               else handle_control env io request d) of
           (r, d') \<Rightarrow>
             (r, d', case sent of Inl e \<Rightarrow> None | Inr _ \<Rightarrow> change_notification m r))"


section \<open>Manual retries\<close>

text \<open>A retry that was accepted and answered, until its task runs.\<close>

record retry_task =
  rk_operation_id :: string
  rk_generation :: u64
  rk_session :: session_ref
  rk_settings :: settings

record 'b service =
  sv_daemon :: "'b daemon"
  sv_registry :: registry
  sv_file :: "'b option"
  sv_shutting_down :: bool
  sv_tasks :: "retry_task list"

text \<open>
  \<open>ri_revision\<close> is the revision read when the request came in, before the control plane is
  locked again; \<open>ri_delivered\<close> the outcome of writing the response.
\<close>

record 'b retry_io =
  ri_revision :: u64
  ri_fresh :: string
  ri_now :: timestamp
  ri_accept :: "'b fault"
  ri_delivered :: "unit result"
  ri_rollback :: "'b fault"

record 'b retry_env =
  re_codec :: "('b, retry_document) codec"
  re_loc :: location
  re_chrono :: chrono
  re_serde :: serde_error

text \<open>A response, or the connection is dropped without one.\<close>

datatype reply = Reply rpc_response | NoReply error

definition retry_prepared :: "rpc_request \<Rightarrow> 'b service \<Rightarrow> u64 result" where
  "retry_prepared request sv =
     (case rq_expected_revision request of
        None \<Rightarrow> bail ''expected_revision is required for manual retry''
      | Some generation \<Rightarrow>
          if sv_shutting_down sv then bail ''Watchcat is shutting down''
          else bindR (check_revision request (sv_daemon sv)) (\<lambda>_. Inr generation))"

definition retry_refused :: "rpc_request \<Rightarrow> 'b retry_io \<Rightarrow> string \<Rightarrow> rpc_response" where
  "retry_refused request io m =
     failure_response (rq_id request) (ri_revision io) ''retry_not_accepted'' m"

text \<open>An acceptance is answered; when the answer cannot be delivered it is taken back.\<close>

definition retry_accepted ::
    "'b retry_env \<Rightarrow> 'b retry_io \<Rightarrow> rpc_request \<Rightarrow> u64 \<Rightarrow> session_ref \<Rightarrow> retry_operation \<Rightarrow> bool \<Rightarrow>
     'b service \<Rightarrow> reply \<times> 'b service" where
  "retry_accepted env io request generation session operation started sv =
     (case ri_delivered io of
        Inl e \<Rightarrow>
          if \<not> started then (NoReply e, sv)
          else (case withdraw (re_codec env) (re_loc env) (ri_rollback io) (ro_operation_id operation)
                  (sv_registry sv, sv_file sv) of
              (_, (reg, file)) \<Rightarrow> (NoReply e, sv\<lparr>sv_registry := reg, sv_file := file\<rparr>))
      | Inr _ \<Rightarrow>
          (Reply (value_response (rq_id request) (ri_revision io) (operation_value (re_chrono env) operation)),
           if \<not> started then sv
           else sv\<lparr>sv_tasks := sv_tasks sv @
             [\<lparr>rk_operation_id = ro_operation_id operation, rk_generation = generation,
               rk_session = session, rk_settings = dm_settings (sv_daemon sv)\<rparr>]\<rparr>))"

text \<open>A response that is written without effect on the service.\<close>

definition delivered :: "'b retry_io \<Rightarrow> rpc_response \<Rightarrow> reply" where
  "delivered io r = (case ri_delivered io of Inl e \<Rightarrow> NoReply e | Inr _ \<Rightarrow> Reply r)"

definition retry_now_request ::
    "'b retry_env \<Rightarrow> 'b retry_io \<Rightarrow> rpc_request \<Rightarrow> 'b service \<Rightarrow> reply \<times> 'b service" where
  "retry_now_request env io request sv =
     (if rq_version request \<noteq> protocol_version
      then (NoReply (Root (Message ''client protocol is not supported'')), sv)
      else case decode (re_serde env) ''RetryRequest'' retry_request_of (rq_params request) of
        Inl e \<Rightarrow> (NoReply e, sv)
      | Inr retry \<Rightarrow>
     (case find_request (rt_session retry) (rt_request_key retry) (sv_registry sv) of
        Inl e \<Rightarrow> (NoReply e, sv)
      | Inr (Some operation) \<Rightarrow>
          (delivered io (value_response (rq_id request) (ri_revision io)
             (operation_value (re_chrono env) operation)), sv)
      | Inr None \<Rightarrow>
     (case retry_prepared request sv of
        Inl e \<Rightarrow> (delivered io (retry_refused request io (error_chain_text e)), sv)
      | Inr generation \<Rightarrow>
          (case registry_accept (re_codec env) (re_loc env) (ri_accept io) (ri_fresh io) (ri_now io)
              (rt_session retry) (rt_request_key retry) (sv_registry sv, sv_file sv) of
             (Inl e, (reg, file)) \<Rightarrow>
               (delivered io (retry_refused request io (error_text e)),
                sv\<lparr>sv_registry := reg, sv_file := file\<rparr>)
           | (Inr (operation, started), (reg, file)) \<Rightarrow>
               retry_accepted env io request generation (rt_session retry) operation started
                 (sv\<lparr>sv_registry := reg, sv_file := file\<rparr>)))))"

definition retry_status_request ::
    "chrono \<Rightarrow> rpc_request \<Rightarrow> 'b service \<Rightarrow> rpc_response result" where
  "retry_status_request ch request sv =
     (if rq_version request \<noteq> protocol_version then bail ''client protocol is not supported''
      else bindR (ok_or (Root (Message ''operation_id is required'')) (get_str ''operation_id'' (rq_params request)))
        (\<lambda>operation_id. Inr
          (let at = revision (sv_daemon sv)
           in case hm_get (sv_registry sv) operation_id of
                Some operation \<Rightarrow> value_response (rq_id request) at (operation_value ch operation)
              | None \<Rightarrow> failure_response (rq_id request) at ''operation_not_found''
                  ''manual retry operation is no longer available'')))"

text \<open>
  The task of an accepted retry: \<open>tk_stopped_early\<close> and \<open>tk_stopped_locked\<close> are the readings
  of the shutdown flag before and after the engine is locked.
\<close>

record 'b task_script =
  tk_stopped_early :: bool
  tk_stopped_locked :: bool
  tk_running :: "'b fault"
  tk_running_at :: timestamp
  tk_watchlist_fault :: "string option"
  tk_built :: "unit result"
  tk_started :: "unit result"
  tk_now :: timestamp
  tk_manual :: manual_script
  tk_finish :: "'b fault"
  tk_finish_at :: timestamp

definition cancelled_retry :: "'a result" where
  "cancelled_retry = bail ''manual retry was cancelled because Watchcat is shutting down''"

definition retry_with_engine ::
    "'b daemon_env \<Rightarrow> 'b task_script \<Rightarrow> retry_task \<Rightarrow> 'b option \<Rightarrow> engine \<times> nat \<Rightarrow>
     json result \<times> (engine \<times> nat) \<times> effect list" where
  "retry_with_engine env scr task wlist en0 =
     (let ((en, retention), closed) = replace_settings (rk_settings task) en0
      in case watchlist_list (de_watchlist_codec env) (de_watchlist_loc env) (tk_watchlist_fault scr) wlist of
           Inl e \<Rightarrow> (Inl e, (en, retention), [])
         | Inr targets \<Rightarrow>
             (let provider = sr_provider (rk_session task); en1 = replace_targets targets en
              in case ensure_provider provider (tk_built scr) (tk_started scr) en1 of
                   (Inl e, en2) \<Rightarrow> (Inl e, (en2, retention), [])
                 | (Inr _, en2) \<Rightarrow>
                     (case retry_now (de_chrono env) provider (sr_session_id (rk_session task)) (tk_now scr)
                          False (rk_generation task) (tk_manual scr) en2 of
                        (r, en3, es) \<Rightarrow> (bindR r (\<lambda>receipt. Inr (receipt_json receipt)), (en3, retention), es))))"

definition run_retry_task ::
    "'b daemon_env \<Rightarrow> 'b retry_env \<Rightarrow> 'b task_script \<Rightarrow> retry_task \<Rightarrow> 'b option \<Rightarrow>
     registry \<times> 'b option \<Rightarrow> engine \<times> nat \<Rightarrow>
     retry_operation option result \<times> (registry \<times> 'b option) \<times> (engine \<times> nat) \<times> effect list" where
  "run_retry_task env renv scr task wlist rf en =
     (let i = rk_operation_id task;
          (result, rf1, en1, es) =
            (if tk_stopped_early scr \<or> tk_stopped_locked scr then (cancelled_retry, rf, en, [])
             else (case set_running (re_codec renv) (re_loc renv) (tk_running scr) (tk_running_at scr) i rf of
                 (Inl e, rf1) \<Rightarrow> (Inl e, rf1, en, [])
               | (Inr _, rf1) \<Rightarrow>
                   (case retry_with_engine env scr task wlist en of
                      (r, en1, es) \<Rightarrow> (r, rf1, en1, es))))
      in case registry_finish (re_codec renv) (re_loc renv) (tk_finish scr) (tk_finish_at scr) i result rf1 of
           (r, rf2) \<Rightarrow> (r, rf2, en1, es))"

text \<open>Stopping: the flag is raised, and the permit is revoked under the next revision.\<close>

definition begin_shutdown ::
    "'b daemon_env \<Rightarrow> string option \<Rightarrow> 'b service \<Rightarrow> 'b service" where
  "begin_shutdown env rf sv =
     (let d = sv_daemon sv;
          targets = (case list_targets env rf d of Inl e \<Rightarrow> [] | Inr ts \<Rightarrow> ts)
      in sv\<lparr>sv_shutting_down := True,
            sv_daemon := d\<lparr>dm_permit := permit_update False targets (sat_add (revision d) 1) (dm_permit d)\<rparr>,
            sv_tasks := []\<rparr>)"


section \<open>Starting a retry\<close>

text \<open>Everything that must have happened when a request adds a task.\<close>

definition properly_started ::
    "'b retry_env \<Rightarrow> 'b retry_io \<Rightarrow> rpc_request \<Rightarrow> reply \<Rightarrow> 'b service \<Rightarrow> 'b service \<Rightarrow> retry_task \<Rightarrow> bool" where
  "properly_started env io request reply sv sv' task \<longleftrightarrow>
     \<not> sv_shutting_down sv \<and>
     rq_expected_revision request = Some (revision (sv_daemon sv)) \<and>
     rk_generation task = revision (sv_daemon sv) \<and>
     rk_settings task = dm_settings (sv_daemon sv) \<and>
     ri_delivered io = Inr () \<and>
     (\<exists>operation. hm_get (sv_registry sv') (rk_operation_id task) = Some operation \<and>
        ro_status operation = ''accepted'' \<and> of_session (rk_session task) operation \<and>
        on_disk (re_codec env) (sv_registry sv') (sv_file sv') \<and>
        reply = Reply (value_response (rq_id request) (ri_revision io)
          (operation_value (re_chrono env) operation)))"

lemma retry_prepared_Inr:
  "retry_prepared request sv = Inr generation \<Longrightarrow>
     \<not> sv_shutting_down sv \<and> rq_expected_revision request = Some generation \<and>
     generation = revision (sv_daemon sv)"
  by (auto simp: retry_prepared_def check_revision_def bindR_Inr_iff split: option.splits if_splits)

lemma retry_accepted_tasks:
  assumes "codec_ok (re_codec env)" and "retry_prepared request sv = Inr generation"
    and "registry_accept (re_codec env) (re_loc env) fault (ri_fresh io) now session key
      (sv_registry sv, sv_file sv) = (Inr (operation, started), (reg, file))"
    and "retry_accepted env io request generation session operation started
      (sv\<lparr>sv_registry := reg, sv_file := file\<rparr>) = (reply, sv')"
  shows "sv_tasks sv' = sv_tasks sv \<or>
    (\<exists>task. sv_tasks sv' = sv_tasks sv @ [task] \<and> properly_started env io request reply sv sv' task)"
proof (cases "started \<and> ri_delivered io = Inr ()")
  case True
  from registry_accept_Inr [OF assms(1,3)] True have
    op: "operation = \<lparr>ro_operation_id = ri_fresh io, ro_provider = sr_provider session,
      ro_session_id = sr_session_id session, ro_request_key = key, ro_status = ''accepted'',
      ro_result = None, ro_error = None, ro_updated_at = now\<rparr>"
    and reg: "reg = hm_insert (ri_fresh io) operation (evict_oldest (sv_registry sv))"
    and disk: "on_disk (re_codec env) reg file" by auto
  have get: "hm_get reg (ro_operation_id operation) = Some operation"
    by (simp add: reg op hash.get_insert_same)
  from assms(4) True retry_prepared_Inr [OF assms(2)] get disk op show ?thesis
    by (auto simp: retry_accepted_def properly_started_def of_session_def)
next
  case False
  with assms(4) show ?thesis
    by (auto simp: retry_accepted_def split: sum.splits if_splits prod.splits)
qed

lemma retry_now_request_cases:
  assumes "retry_now_request env io request sv = (reply, sv')"
  obtains "sv_tasks sv' = sv_tasks sv"
  | session key generation operation started reg rfile where "retry_prepared request sv = Inr generation"
      "registry_accept (re_codec env) (re_loc env) (ri_accept io) (ri_fresh io) (ri_now io)
        session key (sv_registry sv, sv_file sv) =
          (Inr (operation, started), (reg, rfile))"
      "retry_accepted env io request generation session operation started
        (sv\<lparr>sv_registry := reg, sv_file := rfile\<rparr>) = (reply, sv')"
  using assms
  by (auto simp: retry_now_request_def split: if_splits sum.splits option.splits prod.splits)

text \<open>C29: A retry starts only after it was promised, and is promised only once.  A request
  adds a task only when the service is not stopping, the request names the revision in
  force, the operation is in the registry and on disk as accepted, and its response was
  delivered; the task carries that revision and the settings of that moment.  A request
  whose key is known is answered with the operation as it is, and changes nothing, even
  with a stale revision and while the service stops.\<close>
theorem retry_starts_acknowledged:
  assumes "codec_ok (re_codec env)" and "retry_now_request env io request sv = (reply, sv')"
  shows "(sv_tasks sv' = sv_tasks sv \<or>
      (\<exists>task. sv_tasks sv' = sv_tasks sv @ [task] \<and> properly_started env io request reply sv sv' task)) \<and>
    (\<forall>retry operation. rq_version request = protocol_version \<longrightarrow>
       retry_request_of (rq_params request) = Some retry \<longrightarrow>
       find_request (rt_session retry) (rt_request_key retry) (sv_registry sv) = Inr (Some operation) \<longrightarrow>
       ri_delivered io = Inr () \<longrightarrow>
       sv' = sv \<and> reply = Reply (value_response (rq_id request) (ri_revision io)
         (operation_value (re_chrono env) operation)))"
proof (rule conjI)
  show "sv_tasks sv' = sv_tasks sv \<or>
      (\<exists>task. sv_tasks sv' = sv_tasks sv @ [task] \<and> properly_started env io request reply sv sv' task)"
  using assms(2)
  proof (rule retry_now_request_cases)
    fix session key generation operation started reg rfile
    assume "retry_prepared request sv = Inr generation"
      "registry_accept (re_codec env) (re_loc env) (ri_accept io) (ri_fresh io) (ri_now io)
        session key (sv_registry sv, sv_file sv) =
          (Inr (operation, started), (reg, rfile))"
      "retry_accepted env io request generation session operation started
        (sv\<lparr>sv_registry := reg, sv_file := rfile\<rparr>) = (reply, sv')"
    from retry_accepted_tasks [OF assms(1) this] show ?thesis .
  qed simp
next
  show "\<forall>retry operation. rq_version request = protocol_version \<longrightarrow>
       retry_request_of (rq_params request) = Some retry \<longrightarrow>
       find_request (rt_session retry) (rt_request_key retry) (sv_registry sv) = Inr (Some operation) \<longrightarrow>
       ri_delivered io = Inr () \<longrightarrow>
       sv' = sv \<and> reply = Reply (value_response (rq_id request) (ri_revision io)
         (operation_value (re_chrono env) operation))"
    using assms(2) by (auto simp: retry_now_request_def decode_def delivered_def)
qed


section \<open>An example\<close>

definition idle_service :: "retry_document service" where
  "idle_service =
     \<lparr>sv_daemon =
        \<lparr>dm_watchlist = None, dm_control = example_control, dm_control_file = None, dm_config = None,
         dm_config_stamp = None, dm_config_modified = None, dm_settings = default_settings,
         dm_permit = permit_new True [] 3, dm_attention = [],
         dm_metrics = \<lparr>rm_automatic_recoveries = 0, rm_manual_recoveries = 0,
           rm_failed_recoveries = 0, rm_hands_free_percent = 100\<rparr>,
         dm_dialogs = st_dialogs default_settings\<rparr>,
      sv_registry = [], sv_file = Some (example_retry_document []), sv_shutting_down = False,
      sv_tasks = []\<rparr>"

definition delivering :: "retry_document retry_io" where
  "delivering = \<lparr>ri_revision = 3, ri_fresh = ''op'', ri_now = 7, ri_accept = NoFault,
     ri_delivered = Inr (), ri_rollback = NoFault\<rparr>"

definition example_retry_env :: "retry_document retry_env" where
  "example_retry_env = \<lparr>re_codec = id_codec, re_loc = example_place, re_chrono = chrono_reference,
     re_serde = (\<lambda>name v. name)\<rparr>"

definition example_retry :: rpc_request where
  "example_retry = example_request ''sessions.retry_now''
     [(''session_id'', JString ''s''), (''request_key'', JString ''k'')]"

lemma example_retry_runs:
  "retry_now_request example_retry_env delivering example_retry idle_service =
     (Reply (value_response ''1'' 3 (operation_value chrono_reference example_operation)),
      idle_service\<lparr>sv_registry := [(''op'', example_operation)],
        sv_file := Some (example_retry_document [example_operation]),
        sv_tasks := [\<lparr>rk_operation_id = ''op'', rk_generation = 3, rk_session = example_ref,
          rk_settings = default_settings\<rparr>]\<rparr>)"
proof -
  have params: "retry_request_of (rq_params example_retry) =
      Some \<lparr>rt_session = example_ref, rt_request_key = ''k''\<rparr>"
    by (simp add: example_retry_def example_request_def retry_request_of_def session_ref_fields_def
        required_def defaulted_def json_object_def hm_get_def default_provider_def example_ref_def)
  have prepared: "retry_prepared example_retry idle_service = Inr 3"
    by (simp add: retry_prepared_def example_retry_def example_request_def idle_service_def
        check_revision_def revision_def example_control_def)
  have found: "find_request example_ref ''k'' [] = Inr None"
    by (simp add: find_request_def hm_values_def)
  have request: "rq_version example_retry = protocol_version" "rq_id example_retry = ''1''"
    by (simp_all add: example_retry_def example_request_def)
  have service: "sv_registry idle_service = []" "sv_tasks idle_service = []"
    "sv_file idle_service = Some (example_retry_document [])"
    "dm_settings (sv_daemon idle_service) = default_settings"
    by (simp_all add: idle_service_def)
  have op: "ro_operation_id example_operation = ''op''" by (simp add: example_operation_def)
  show ?thesis
    by (simp add: retry_now_request_def decode_def params prepared found request service op
        example_accept retry_accepted_def example_retry_env_def delivering_def)
qed

theorem retry_starts_acknowledged_witness:
  "\<exists>reply sv' task.
     retry_now_request example_retry_env delivering example_retry idle_service = (reply, sv') \<and>
     sv_tasks sv' = [task] \<and>
     properly_started example_retry_env delivering example_retry reply idle_service sv' task"
proof -
  have ok: "codec_ok (re_codec example_retry_env)" by (simp add: example_retry_env_def)
  have none: "sv_tasks idle_service = []" by (simp add: idle_service_def)
  from retry_starts_acknowledged [OF ok example_retry_runs, THEN conjunct1] none
  show ?thesis by (subst example_retry_runs) auto
qed

end
