(* ===== verification/Subscriptions.thy ===== *)
theory Subscriptions
  imports Daemon_Requests Framing
begin

text \<open>
  The subscribers to the service's events (\<open>serve\<close> in \<open>daemon.rs\<close>): the answer to a
  subscription, the loop that forwards notifications, and the limits on connections and
  subscribers.  The channel between the service and a subscriber and the semaphores that
  count slots are tokio's: what they answer is an argument, and what their documentation
  promises of the answers is a hypothesis.
\<close>


section \<open>Subscribing\<close>

definition max_rpc_connections :: nat where
  "max_rpc_connections = 16"

definition max_event_subscriptions :: nat where
  "max_event_subscriptions = 4"

text \<open>\<open>free\<close> says that a subscription slot could be taken.\<close>

definition subscribe_reply :: "bool \<Rightarrow> u64 \<Rightarrow> rpc_request \<Rightarrow> rpc_response result" where
  "subscribe_reply free at request =
     (if rq_version request \<noteq> protocol_version then bail ''client protocol is not supported''
      else Inr (if free
        then value_response (rq_id request) at (json_object [(''subscribed'', JBool True)])
        else failure_response (rq_id request) at ''too_many_subscribers''
          (''Watchcat supports at most '' @ show_nat max_event_subscriptions @ '' local event subscribers'')))"


section \<open>Forwarding\<close>

text \<open>\<open>broadcast::Receiver::recv\<close>: a message, or how many were skipped, or that no sender is left.\<close>

datatype 'm received =
    Received 'm
  | Lagged nat
  | Closed

text \<open>
  One turn of the loop: which branch of \<open>select!\<close> was ready, the revision the service has
  then, and a failure of the write after some bytes.
\<close>

datatype ready =
    Peer_Read "nat result"
  | Channel "rpc_notification received"
  | Heartbeat_Due

record turn =
  tu_ready :: ready
  tu_revision :: u64
  tu_write :: "(nat \<times> string) option"

definition service_notice :: "string \<Rightarrow> u64 \<Rightarrow> rpc_notification" where
  "service_notice event at =
     \<lparr>rn_version = protocol_version, rn_event = event, rn_revision = at, rn_data = JNull\<rparr>"

datatype next_move = Forward rpc_notification | Stop "unit result"

definition subscriber_move :: "turn \<Rightarrow> next_move" where
  "subscriber_move t =
     (case tu_ready t of
        Peer_Read (Inl e) \<Rightarrow> Stop (Inl e)
      | Peer_Read (Inr n) \<Rightarrow>
          Stop (if n = 0 then Inr () else bail ''event subscriber sent unexpected data'')
      | Channel (Received n) \<Rightarrow> Forward n
      | Channel (Lagged k) \<Rightarrow> Forward (service_notice ''state.resync_required'' (tu_revision t))
      | Channel Closed \<Rightarrow> Stop (Inr ())
      | Heartbeat_Due \<Rightarrow> Forward (service_notice ''service.heartbeat'' (tu_revision t)))"

text \<open>
  The loop over the turns it gets: how it ended (\<open>None\<close>: it is waiting for the next one) and
  the notifications that were written.  \<open>ser\<close> is serde's text of a notification.
\<close>

fun subscriber ::
    "(rpc_notification \<Rightarrow> string) \<Rightarrow> turn list \<Rightarrow> unit result option \<times> rpc_notification list" where
  "subscriber ser [] = (None, [])"
| "subscriber ser (t # ts) =
     (case subscriber_move t of
        Stop r \<Rightarrow> (Some r, [])
      | Forward n \<Rightarrow>
          (case fst (write_frame (tu_write t) (ser n)) of
             Inl e \<Rightarrow> (Some (Inl e), [])
           | Inr _ \<Rightarrow> (case subscriber ser ts of (r, ns) \<Rightarrow> (r, n # ns))))"


section \<open>What the channel promises\<close>

text \<open>
  The messages sent since the subscription, and the answers of the channel: every message
  is received in order, except those a lagging receiver skips, and of these it is told.
\<close>

fun channel_answers :: "'m list \<Rightarrow> 'm received list \<Rightarrow> bool" where
  "channel_answers sent [] \<longleftrightarrow> True"
| "channel_answers sent (Received m # as) \<longleftrightarrow>
     (case sent of [] \<Rightarrow> False | m' # ms \<Rightarrow> m = m' \<and> channel_answers ms as)"
| "channel_answers sent (Lagged k # as) \<longleftrightarrow>
     0 < k \<and> k \<le> length sent \<and> channel_answers (drop k sent) as"
| "channel_answers sent (Closed # as) \<longleftrightarrow> sent = [] \<and> as = []"

fun answers_of :: "turn list \<Rightarrow> rpc_notification received list" where
  "answers_of [] = []"
| "answers_of (t # ts) =
     (case tu_ready t of Channel a \<Rightarrow> a # answers_of ts | _ \<Rightarrow> answers_of ts)"

text \<open>The events the loop makes itself; no notification of the service has them.\<close>

definition is_marker :: "rpc_notification \<Rightarrow> bool" where
  "is_marker n \<longleftrightarrow> rn_event n = ''service.heartbeat'' \<or> rn_event n = ''state.resync_required''"

text \<open>
  What a subscriber can conclude from the notifications it read: they are those that were
  sent, in order, where each \<open>state.resync_required\<close> stands for one or more that were not
  delivered.
\<close>

fun explained :: "rpc_notification list \<Rightarrow> rpc_notification list \<Rightarrow> bool" where
  "explained sent [] \<longleftrightarrow> True"
| "explained sent (n # ns) \<longleftrightarrow>
     (if rn_event n = ''service.heartbeat'' then explained sent ns
      else if rn_event n = ''state.resync_required''
      then (\<exists>k \<in> {1..length sent}. explained (drop k sent) ns)
      else (case sent of [] \<Rightarrow> False | m # ms \<Rightarrow> n = m \<and> explained ms ns))"

lemma subscriber_explained:
  "channel_answers sent (answers_of ts) \<Longrightarrow> list_all (\<lambda>n. \<not> is_marker n) sent \<Longrightarrow>
     explained sent (snd (subscriber ser ts))"
proof (induction ts arbitrary: sent)
  case (Cons t ts)
  show ?case
  proof (cases "subscriber_move t")
    case (Forward n)
    show ?thesis
    proof (cases "fst (write_frame (tu_write t) (ser n))")
      case (Inr u)
      have rest: "explained sent' (snd (subscriber ser ts))"
        if "channel_answers sent' (answers_of ts)" and "list_all (\<lambda>n. \<not> is_marker n) sent'" for sent'
        using that by (rule Cons.IH)
      have "explained sent (n # snd (subscriber ser ts))"
      proof (cases "tu_ready t")
        case (Channel a)
        show ?thesis
        proof (cases a)
          case (Received m)
          with Channel Cons.prems(1) obtain ms where "sent = m # ms"
            and "channel_answers ms (answers_of ts)" by (auto split: list.splits)
          moreover have "n = m" using Forward Channel Received by (simp add: subscriber_move_def)
          ultimately show ?thesis using Cons.prems(2) rest [of ms] by (simp add: is_marker_def)
        next
          case (Lagged k)
          with Channel Cons.prems(1) have "k \<in> {1..length sent}"
            and "channel_answers (drop k sent) (answers_of ts)" by auto
          moreover have "list_all (\<lambda>n. \<not> is_marker n) (drop k sent)"
            using Cons.prems(2) by (auto simp: list_all_iff dest: in_set_dropD)
          ultimately have "\<exists>k \<in> {1..length sent}. explained (drop k sent) (snd (subscriber ser ts))"
            using rest by blast
          moreover have "rn_event n = ''state.resync_required''"
            using Forward Channel Lagged by (auto simp: subscriber_move_def service_notice_def)
          ultimately show ?thesis by simp
        next
          case Closed
          with Channel Forward show ?thesis by (simp add: subscriber_move_def)
        qed
      next
        case Heartbeat_Due
        then have "rn_event n = ''service.heartbeat''"
          using Forward by (auto simp: subscriber_move_def service_notice_def)
        moreover have "channel_answers sent (answers_of ts)" using Cons.prems(1) Heartbeat_Due by simp
        ultimately show ?thesis using rest Cons.prems(2) by simp
      next
        case (Peer_Read r)
        with Forward show ?thesis by (cases r) (simp_all add: subscriber_move_def)
      qed
      with Forward Inr show ?thesis
        by (cases "subscriber ser ts") (simp del: explained.simps)
    qed (simp add: Forward)
  qed simp
qed simp

lemma explained_prefix:
  "explained sent ns \<Longrightarrow> list_all (\<lambda>n. rn_event n \<noteq> ''state.resync_required'') ns \<Longrightarrow>
     \<exists>k. filter (\<lambda>n. \<not> is_marker n) ns = take k sent"
proof (induction ns arbitrary: sent)
  case (Cons n ns)
  show ?case
  proof (cases "rn_event n = ''service.heartbeat''")
    case True
    with Cons show ?thesis by (auto simp: is_marker_def)
  next
    case False
    with Cons.prems obtain ms where sent: "sent = n # ms" and ms: "explained ms ns"
      by (auto split: list.splits if_splits)
    from Cons.IH [OF ms] Cons.prems(2) obtain k where "filter (\<lambda>n. \<not> is_marker n) ns = take k ms" by auto
    then have "filter (\<lambda>n. \<not> is_marker n) (n # ns) = take (Suc k) sent"
      using sent False Cons.prems(2) by (simp add: is_marker_def)
    then show ?thesis by blast
  qed
qed (auto intro: exI [of _ 0])

text \<open>While the loop goes on, every turn has written one notification.\<close>

lemma subscriber_waiting:
  "subscriber ser ts = (None, ns) \<Longrightarrow>
     map Forward ns = map subscriber_move ts"
proof (induction ts arbitrary: ns)
  case (Cons t ts)
  then show ?case
    by (cases "subscriber_move t"; cases "fst (write_frame (tu_write t) (ser (case subscriber_move t of Forward n \<Rightarrow> n)))")
      (auto split: prod.splits)
qed simp

text \<open>C38: A subscriber misses no notification without being told.  Whatever the channel answers
  within its promise, and whenever writes fail, heartbeats fall due or the peer hangs up,
  the notifications a subscriber has read are those that the service has sent, in order,
  with a \<open>state.resync_required\<close> for each gap; without such a mark they are exactly the
  first ones that were sent.  While the loop has not ended, it has answered every turn.
\<close>
theorem subscriber_misses_nothing:
  assumes "channel_answers sent (answers_of ts)" and "list_all (\<lambda>n. \<not> is_marker n) sent"
    and "subscriber ser ts = (r, ns)"
  shows "explained sent ns \<and>
    (list_all (\<lambda>n. rn_event n \<noteq> ''state.resync_required'') ns \<longrightarrow>
       (\<exists>k. filter (\<lambda>n. \<not> is_marker n) ns = take k sent)) \<and>
    (r = None \<longrightarrow> map Forward ns = map subscriber_move ts)"
proof -
  from subscriber_explained [OF assms(1,2), of ser] assms(3) have "explained sent ns" by simp
  with explained_prefix subscriber_waiting assms(3) show ?thesis by blast
qed

definition example_notice :: "u64 \<Rightarrow> rpc_notification" where
  "example_notice at =
     \<lparr>rn_version = protocol_version, rn_event = ''state.changed'', rn_revision = at, rn_data = JNull\<rparr>"

definition example_turns :: "turn list" where
  "example_turns =
     map (\<lambda>r. \<lparr>tu_ready = r, tu_revision = 9, tu_write = None\<rparr>)
       [Channel (Received (example_notice 5)), Heartbeat_Due, Channel (Lagged 2),
        Channel (Received (example_notice 8)), Peer_Read (Inr 0)]"

definition example_serde :: "rpc_notification \<Rightarrow> string" where
  "example_serde n = rn_event n"

lemma small_frame: "length s \<le> max_frame_bytes \<Longrightarrow> fst (write_frame None s) = Inr ()"
  by (simp add: write_frame_def)

lemma example_subscriber:
  "subscriber example_serde example_turns =
     (Some (Inr ()), [example_notice 5, service_notice ''service.heartbeat'' 9,
        service_notice ''state.resync_required'' 9, example_notice 8])"
  by (simp add: example_turns_def subscriber_move_def small_frame example_serde_def max_frame_bytes_def
      example_notice_def service_notice_def)

theorem subscriber_misses_nothing_witness:
  "explained (map example_notice [5, 6, 7, 8])
     [example_notice 5, service_notice ''service.heartbeat'' 9,
      service_notice ''state.resync_required'' 9, example_notice 8]"
proof -
  have "channel_answers (map example_notice [5, 6, 7, 8]) (answers_of example_turns)"
    by (simp add: example_turns_def)
  moreover have "list_all (\<lambda>n. \<not> is_marker n) (map example_notice [5, 6, 7, 8])"
    by (simp add: is_marker_def example_notice_def)
  ultimately show ?thesis
    using subscriber_misses_nothing [OF _ _ example_subscriber] by blast
qed


section \<open>Connections and their slots\<close>

text \<open>
  tokio's semaphores: taking a permit at once, giving it back, and how many are left.
  \<open>semaphore\<close> is what is documented of them.
\<close>

record 'p permits =
  try_acquire :: "'p \<Rightarrow> 'p option"
  release :: "'p \<Rightarrow> 'p"

definition semaphore :: "('p, 'z) permits_scheme \<Rightarrow> ('p \<Rightarrow> nat) \<Rightarrow> bool" where
  "semaphore sem left \<longleftrightarrow>
     (\<forall>p. left p = 0 \<longrightarrow> try_acquire sem p = None) \<and>
     (\<forall>p. 0 < left p \<longrightarrow> (\<exists>p'. try_acquire sem p = Some p' \<and> left p = Suc (left p'))) \<and>
     (\<forall>p. left (release sem p) = Suc (left p))"

record open_connection =
  oc_id :: nat
  oc_uid :: nat
  oc_subscribed :: bool

record 'p listener =
  li_connections :: 'p
  li_subscriptions :: 'p
  li_open :: "open_connection list"

text \<open>
  A new connection is served only for a peer of the same user, and when there is a slot;
  \<open>peer\<close> is the peer's user as the socket tells it.
\<close>

definition accept_connection ::
    "('p, 'z) permits_scheme \<Rightarrow> nat \<Rightarrow> nat result \<Rightarrow> nat \<Rightarrow> 'p listener \<Rightarrow> 'p listener" where
  "accept_connection sem euid peer i l =
     (case peer of
        Inl e \<Rightarrow> l
      | Inr uid \<Rightarrow>
          if uid \<noteq> euid then l
          else (case try_acquire sem (li_connections l) of
              None \<Rightarrow> l
            | Some p \<Rightarrow> l\<lparr>li_connections := p,
                li_open := \<lparr>oc_id = i, oc_uid = uid, oc_subscribed = False\<rparr> # li_open l\<rparr>))"

text \<open>The slot of a subscriber, when it gets one; a connection asks at most once.\<close>

definition subscribe_connection ::
    "('p, 'z) permits_scheme \<Rightarrow> open_connection \<Rightarrow> 'p listener \<Rightarrow> bool \<times> 'p listener" where
  "subscribe_connection sem c l =
     (case try_acquire sem (li_subscriptions l) of
        None \<Rightarrow> (False, l)
      | Some p \<Rightarrow>
          (True, l\<lparr>li_subscriptions := p,
             li_open := c\<lparr>oc_subscribed := True\<rparr> # remove1 c (li_open l)\<rparr>))"

text \<open>Both slots are given back when the task of a connection ends, however it ends.\<close>

definition end_connection ::
    "('p, 'z) permits_scheme \<Rightarrow> open_connection \<Rightarrow> 'p listener \<Rightarrow> 'p listener" where
  "end_connection sem c l =
     l\<lparr>li_connections := release sem (li_connections l),
       li_subscriptions :=
         (if oc_subscribed c then release sem (li_subscriptions l) else li_subscriptions l),
       li_open := remove1 c (li_open l)\<rparr>"

inductive listening :: "('p, 'z) permits_scheme \<Rightarrow> nat \<Rightarrow> 'p \<Rightarrow> 'p \<Rightarrow> 'p listener \<Rightarrow> bool"
  for sem euid p16 p4 where
  started: "listening sem euid p16 p4 \<lparr>li_connections = p16, li_subscriptions = p4, li_open = []\<rparr>"
| accepted: "listening sem euid p16 p4 l \<Longrightarrow> listening sem euid p16 p4 (accept_connection sem euid peer i l)"
| subscribed: "listening sem euid p16 p4 l \<Longrightarrow> c \<in> set (li_open l) \<Longrightarrow> \<not> oc_subscribed c \<Longrightarrow>
    listening sem euid p16 p4 (snd (subscribe_connection sem c l))"
| ended: "listening sem euid p16 p4 l \<Longrightarrow> c \<in> set (li_open l) \<Longrightarrow>
    listening sem euid p16 p4 (end_connection sem c l)"

definition subscribers :: "'p listener \<Rightarrow> open_connection list" where
  "subscribers l = filter oc_subscribed (li_open l)"

lemma filter_remove1_length:
  "c \<in> set xs \<Longrightarrow>
     length (filter P xs) = length (filter P (remove1 c xs)) + (if P c then 1 else 0)"
  by (induction xs) auto

lemma length_remove1_in: "c \<in> set xs \<Longrightarrow> length xs = Suc (length (remove1 c xs))"
  by (induction xs) auto

text \<open>
  Only processes of the service's own user are served, never more than 16 connections
  and 4 subscribers at once, and no slot is lost: in every history of accepted, subscribed
  and ended connections, the slots that are left and those in use add up to the limits.
\<close>
lemma connections_bounded:
  assumes "semaphore sem left" and "left p16 = max_rpc_connections"
    and "left p4 = max_event_subscriptions" and "listening sem euid p16 p4 l"
  shows "left (li_connections l) + length (li_open l) = max_rpc_connections \<and>
    left (li_subscriptions l) + length (subscribers l) = max_event_subscriptions \<and>
    length (li_open l) \<le> 16 \<and> length (subscribers l) \<le> 4 \<and>
    (\<forall>c \<in> set (li_open l). oc_uid c = euid)"
proof -
  from assms(4) have "left (li_connections l) + length (li_open l) = max_rpc_connections \<and>
    left (li_subscriptions l) + length (subscribers l) = max_event_subscriptions \<and>
    (\<forall>c \<in> set (li_open l). oc_uid c = euid)"
  proof induction
    case started
    then show ?case using assms(2,3) by (simp add: subscribers_def)
  next
    case (accepted l peer i)
    have "\<forall>p'. try_acquire sem (li_connections l) = Some p' \<longrightarrow> left (li_connections l) = Suc (left p')"
      using assms(1) by (metis gr0I option.distinct(1) option.inject semaphore_def)
    with accepted.IH show ?case
      by (auto simp: accept_connection_def subscribers_def split: sum.splits option.splits)
  next
    case (subscribed l c)
    have "\<forall>p'. try_acquire sem (li_subscriptions l) = Some p' \<longrightarrow> left (li_subscriptions l) = Suc (left p')"
      using assms(1) by (metis gr0I option.distinct(1) option.inject semaphore_def)
    moreover have "oc_uid (c\<lparr>oc_subscribed := True\<rparr>) = oc_uid c" by simp
    ultimately show ?case
      using subscribed filter_remove1_length [OF subscribed.hyps(2), of oc_subscribed]
        length_remove1_in [OF subscribed.hyps(2)]
      by (auto simp: subscribe_connection_def subscribers_def dest: set_mp [OF set_remove1_subset]
          split: option.splits)
  next
    case (ended l c)
    have "left (release sem p) = Suc (left p)" for p using assms(1) by (simp add: semaphore_def)
    with ended filter_remove1_length [OF ended.hyps(2), of oc_subscribed]
      length_remove1_in [OF ended.hyps(2)]
    show ?case
      by (auto simp: end_connection_def subscribers_def dest: set_mp [OF set_remove1_subset])
  qed
  then show ?thesis by (auto simp: max_rpc_connections_def max_event_subscriptions_def)
qed

end
