(* ===== verification/Serving.thy ===== *)
theory Serving
  imports Subscriptions
begin

text \<open>
  One connection of the service (\<open>serve\<close> in \<open>daemon.rs\<close>): reading its request, the dispatch
  between subscriptions, manual retries, providers and the control plane, and what is
  announced to the subscribers; and a round of the reconciliation task with its
  announcements.
\<close>


section \<open>Reading the request\<close>

definition max_rpc_request_bytes :: nat where
  "max_rpc_request_bytes = 1024 * 1024"

text \<open>\<open>parse\<close> is serde_json; \<open>late\<close> says that the frame did not arrive in time.\<close>

definition read_request ::
    "(string \<Rightarrow> string + json) \<Rightarrow> serde_error \<Rightarrow> bool \<Rightarrow> string \<Rightarrow> string \<Rightarrow> rpc_request result" where
  "read_request parse msg late eof stream =
     (if late then with_context ''timed out reading the RPC request'' (bail ''deadline has elapsed'')
      else bindR (fst (read_frame_with_limit eof max_rpc_request_bytes stream)) (\<lambda>bytes.
        case parse bytes of
          Inl m \<Rightarrow> bail m
        | Inr v \<Rightarrow> decode msg ''RpcRequest'' request_of v))"


section \<open>Serving it\<close>

record 'b server_env =
  sx_daemon :: "'b daemon_env"
  sx_worker :: worker_env
  sx_retry :: "'b retry_env"

text \<open>
  What one request meets: whether a subscription slot is free, the provider's answers, the
  files it reads, the writes of the control plane and of the retry registry, and whether
  its response can be written.
\<close>

record 'b request_script =
  rs_slot :: bool
  rs_provider :: provider_script
  rs_runtime :: "'b option"
  rs_events :: "string option"
  rs_io :: "'b daemon_io"
  rs_retry :: "'b retry_io"
  rs_written :: "unit result"

definition written :: "unit result \<Rightarrow> rpc_response \<Rightarrow> reply" where
  "written w r = (case w of Inl e \<Rightarrow> NoReply e | Inr _ \<Rightarrow> Reply r)"

definition serve_request ::
    "'b server_env \<Rightarrow> 'b request_script \<Rightarrow> rpc_request \<Rightarrow> 'b service \<Rightarrow>
     reply \<times> 'b service \<times> rpc_notification option" where
  "serve_request env scr request sv =
     (let m = rq_method request; at = revision (sv_daemon sv)
      in if m = ''events.subscribe''
         then (case subscribe_reply (rs_slot scr) at request of
             Inl e \<Rightarrow> (NoReply e, sv, None)
           | Inr r \<Rightarrow> (written (rs_written scr) r, sv, None))
         else if m = ''sessions.retry_status''
         then (case retry_status_request (de_chrono (sx_daemon env)) request sv of
             Inl e \<Rightarrow> (NoReply e, sv, None)
           | Inr r \<Rightarrow> (written (rs_written scr) r, sv, None))
         else if m = ''sessions.retry_now''
         then (case retry_now_request (sx_retry env)
               ((rs_retry scr)\<lparr>ri_revision := at, ri_delivered := rs_written scr\<rparr>) request sv of
             (reply, sv') \<Rightarrow> (reply, sv', None))
         else (case connection_request (sx_daemon env) (sx_worker env) (rs_provider scr) request
               (rs_runtime scr) (rs_events scr) (rs_io scr) (rs_written scr) (sv_daemon sv) of
             (r, d', n) \<Rightarrow> (written (rs_written scr) r, sv\<lparr>sv_daemon := d'\<rparr>, n)))"


section \<open>A round of the reconciliation task\<close>

text \<open>
  The pass runs between the plan and the commit, with the service's lock released; the
  round compares with the revision it read before its plan.
\<close>

definition round_notices ::
    "(engine_event list \<Rightarrow> json) \<Rightarrow> u64 \<Rightarrow> reconcile_outcome \<Rightarrow> 'b daemon \<Rightarrow> rpc_notification list" where
  "round_notices events_json before outcome d =
     (if oc_events outcome = [] then []
      else [\<lparr>rn_version = protocol_version, rn_event = ''engine.events'', rn_revision = revision d,
             rn_data = events_json (oc_events outcome)\<rparr>]) @
     (if revision d = before then []
      else [\<lparr>rn_version = protocol_version, rn_event = ''state.changed'', rn_revision = revision d,
             rn_data = json_object [(''method'', JString ''service.reconcile'')]\<rparr>])"

definition finish_round ::
    "'b daemon_env \<Rightarrow> (engine_event list \<Rightarrow> json) \<Rightarrow> 'b commit_io \<Rightarrow> u64 \<Rightarrow> reconcile_plan result \<Rightarrow>
     reconcile_outcome result \<Rightarrow> 'b daemon \<times> engine \<Rightarrow> rpc_notification list \<times> 'b daemon \<times> engine" where
  "finish_round env events_json io before planned result = (\<lambda>(d, en).
     case (planned, result) of
       (Inr plan, Inr outcome) \<Rightarrow>
         (case commit_reconcile env io plan outcome (d, en) of
            (_, (d', en')) \<Rightarrow> (round_notices events_json before outcome d', d', en'))
     | _ \<Rightarrow> ([], d, en))"

text \<open>The notification of a manual retry that has come to an end.\<close>

definition retry_notice :: "chrono \<Rightarrow> u64 \<Rightarrow> retry_operation option result \<Rightarrow> rpc_notification option" where
  "retry_notice ch at finished =
     (case finished of
        Inr (Some operation) \<Rightarrow>
          Some \<lparr>rn_version = protocol_version, rn_event = ''retry.operation_changed'', rn_revision = at,
            rn_data = operation_value ch operation\<rparr>
      | _ \<Rightarrow> None)"


section \<open>What is announced\<close>

text \<open>None of the service's notifications looks like a mark of the subscriber's loop.\<close>

lemma service_notices_plain:
  "serve_request env scr request sv = (reply, sv', Some n) \<Longrightarrow> \<not> is_marker n"
  "finish_round denv ej io before planned result s = (ns, s') \<Longrightarrow> list_all (\<lambda>n. \<not> is_marker n) ns"
  "retry_notice ch at finished = Some n \<Longrightarrow> \<not> is_marker n"
  by (auto simp: serve_request_def connection_request_def change_notification_def Let_def is_marker_def
      finish_round_def round_notices_def retry_notice_def
      split: if_splits sum.splits prod.splits option.splits)

lemma dispatch_control_other:
  "dispatch_control env io request d = (r, d') \<Longrightarrow> \<not> is_mutation (rq_method request) \<Longrightarrow> d' = d"
  by (erule dispatch_control_cases) (auto simp: is_mutation_def)

lemma handle_control_other:
  assumes "handle_control env io request d = (resp, d')" and "\<not> is_mutation (rq_method request)"
  shows "d' = d"
  using assms(1)
  by (cases rule: handle_control_dispatch) (use dispatch_control_other assms(2) in auto)

lemma connection_request_other:
  assumes "connection_request env we scr request rstate events io w d = (r, d', n)" and "d' \<noteq> d"
  shows "is_mutation (rq_method request) \<and> rsp_revision r = revision d'"
proof (cases "requires_provider (rq_method request) (rq_params request)")
  case True
  then obtain v where add: "rq_method request = ''sessions.add''"
    and run: "handle_control env io
      (request\<lparr>rq_params := with_entry ''validate'' (JBool False) (rq_params request)\<rparr>) d = (r, d')"
    using assms by (auto simp: connection_request_def provider_response_def Let_def
        split: prod.splits sum.splits if_splits)
  from run have "rsp_revision r = revision d'"
    by (cases rule: handle_control_dispatch) simp_all
  with add show ?thesis by (simp add: is_mutation_def)
next
  case False
  then have run: "handle_control env io request d = (r, d')"
    using assms(1) by (auto simp: connection_request_def Let_def split: prod.splits)
  moreover from run have "rsp_revision r = revision d'"
    by (cases rule: handle_control_dispatch) simp_all
  ultimately show ?thesis using handle_control_other assms(2) by blast
qed

text \<open>
  The mutations of the service's own state.  \<open>sessions.send\<close> and \<open>sessions.interrupt\<close>, which
  \<open>is_mutation\<close> also counts, go to the provider.
\<close>

definition changes_service :: "string \<Rightarrow> bool" where
  "changes_service m \<longleftrightarrow> is_mutation m \<and> m \<noteq> ''sessions.send'' \<and> m \<noteq> ''sessions.interrupt''"

lemma stale_connection_request:
  assumes "changes_service (rq_method request)" and "rq_expected_revision request = Some r"
    and "r \<noteq> revision d"
  shows "\<exists>resp. connection_request env we scr request rstate events io w d = (resp, d, None) \<and>
    rsp_error resp \<noteq> None \<and> rsp_result resp = None \<and> rsp_revision resp = revision d"
proof -
  have m: "is_mutation (rq_method request)" using assms(1) by (simp add: changes_service_def)
  let ?skip = "request\<lparr>rq_params := with_entry ''validate'' (JBool False) (rq_params request)\<rparr>"
  obtain resp where plain: "handle_control env io request d = (resp, d)" "rsp_error resp \<noteq> None"
    "rsp_result resp = None" "rsp_revision resp = revision d"
    using stale_control_request [OF m assms(2,3)] by blast
  obtain resp' where skip: "handle_control env io ?skip d = (resp', d)" "rsp_error resp' \<noteq> None"
    "rsp_result resp' = None" "rsp_revision resp' = revision d"
    using stale_control_request [of ?skip, simplified, OF m assms(2,3)] by blast
  show ?thesis
  proof (cases "requires_provider (rq_method request) (rq_params request)")
    case True
    then have "rq_method request = ''sessions.add''"
      using assms(1) by (auto simp: requires_provider_def changes_service_def is_mutation_def)
    then show ?thesis
      using True skip
      by (cases "bindR (build_interactive_engine env scr (dm_settings d) rstate (request_provider request))
          (dispatch_provider env we scr request (dm_watchlist d) events)")
        (auto simp: connection_request_def provider_response_def change_notification_def
          failure_response_def split: sum.splits)
  next
    case False
    then show ?thesis
      using plain by (auto simp: connection_request_def change_notification_def Let_def split: sum.splits)
  qed
qed

text \<open>A known request key is answered with its operation, whatever revision the request names.\<close>

definition repeats_retry :: "'b server_env \<Rightarrow> rpc_request \<Rightarrow> 'b service \<Rightarrow> rpc_response \<Rightarrow> bool" where
  "repeats_retry env request sv resp \<longleftrightarrow>
     rq_method request = ''sessions.retry_now'' \<and>
     (\<exists>retry operation. retry_request_of (rq_params request) = Some retry \<and>
        find_request (rt_session retry) (rt_request_key retry) (sv_registry sv) = Inr (Some operation) \<and>
        resp = value_response (rq_id request) (revision (sv_daemon sv))
          (operation_value (re_chrono (sx_retry env)) operation))"

lemma stale_retry_request:
  assumes "rq_expected_revision request = Some r" and "r \<noteq> revision (sv_daemon sv)"
    and "retry_now_request renv io request sv = (reply, sv')"
  shows "sv' = sv \<and>
    (\<forall>resp. reply = Reply resp \<longrightarrow> rsp_revision resp = ri_revision io \<and>
       (rsp_error resp \<noteq> None \<or>
        (\<exists>retry operation. retry_request_of (rq_params request) = Some retry \<and>
           find_request (rt_session retry) (rt_request_key retry) (sv_registry sv) = Inr (Some operation) \<and>
           resp = value_response (rq_id request) (ri_revision io) (operation_value (re_chrono renv) operation))))"
proof -
  have "\<exists>e. retry_prepared request sv = Inl e"
    using assms(1,2) by (simp add: retry_prepared_def check_revision_def)
  with assms(3) show ?thesis
    by (auto simp: retry_now_request_def decode_def delivered_def retry_refused_def failure_response_def
        value_response_def split: if_splits sum.splits option.splits)
qed

text \<open>C15: A mutation of the service's own state that names an outdated revision changes nothing:
  adding or removing a session, changing or resetting policies, changing the lifecycle or
  the dialog rules, and starting a manual retry leave the watch list, the settings, the
  control record, the files, the retry registry and the waiting tasks as they were and
  announce nothing; what is answered carries the revision in force and is an error, except
  that a manual retry whose request key is known is answered with the operation it already
  has.\<close>
theorem stale_request_changes_nothing:
  assumes "changes_service (rq_method request)" and "rq_expected_revision request = Some r"
    and "r \<noteq> revision (sv_daemon sv)"
    and "serve_request env scr request sv = (reply, sv', notice)"
  shows "sv' = sv \<and> notice = None \<and>
    (\<forall>resp. reply = Reply resp \<longrightarrow> rsp_revision resp = revision (sv_daemon sv) \<and>
       (rsp_error resp \<noteq> None \<or> repeats_retry env request sv resp))"
proof -
  have m: "rq_method request \<noteq> ''events.subscribe''" "rq_method request \<noteq> ''sessions.retry_status''"
    using assms(1) by (auto simp: changes_service_def is_mutation_def)
  show ?thesis
  proof (cases "rq_method request = ''sessions.retry_now''")
    case True
    let ?io = "(rs_retry scr)\<lparr>ri_revision := revision (sv_daemon sv), ri_delivered := rs_written scr\<rparr>"
    from True assms(4) have "retry_now_request (sx_retry env) ?io request sv = (reply, sv')" "notice = None"
      by (auto simp: serve_request_def Let_def split: prod.splits)
    with stale_retry_request [OF assms(2,3) this(1)] True show ?thesis
      by (auto simp: repeats_retry_def)
  next
    case False
    from stale_connection_request [OF assms(1-3)] obtain resp where
      "connection_request (sx_daemon env) (sx_worker env) (rs_provider scr) request (rs_runtime scr)
        (rs_events scr) (rs_io scr) (rs_written scr) (sv_daemon sv) = (resp, sv_daemon sv, None)"
      "rsp_error resp \<noteq> None" "rsp_revision resp = revision (sv_daemon sv)" by blast
    with False m assms(4) show ?thesis
      by (auto simp: serve_request_def Let_def written_def split: sum.splits)
  qed
qed

text \<open>Messages and interrupts take no notice of the revision a request names.\<close>

lemma dispatch_send_ignores_revision:
  assumes "rq_method request = ''sessions.send'' \<or> rq_method request = ''sessions.interrupt''"
  shows "dispatch_provider env we scr (request\<lparr>rq_expected_revision := expected\<rparr>) wlist events =
    dispatch_provider env we scr request wlist events"
  using assms by (intro ext) (auto simp: dispatch_provider_def send_request_def interrupt_request_def)

lemma provider_send_ignores_revision:
  assumes "rq_method request = ''sessions.send'' \<or> rq_method request = ''sessions.interrupt''"
  shows "provider_response env we scr (request\<lparr>rq_expected_revision := expected\<rparr>) rstate events io d =
    provider_response env we scr request rstate events io d"
  using assms
  by (cases "bindR (build_interactive_engine env scr (dm_settings d) rstate (request_provider request))
      (dispatch_provider env we scr request (dm_watchlist d) events)")
    (auto simp: provider_response_def request_provider_def dispatch_send_ignores_revision)

lemma send_ignores_revision:
  assumes "rq_method request = ''sessions.send'' \<or> rq_method request = ''sessions.interrupt''"
  shows "serve_request env scr (request\<lparr>rq_expected_revision := expected\<rparr>) sv =
    serve_request env scr request sv"
  using assms
  by (auto simp: serve_request_def connection_request_def requires_provider_def provider_send_ignores_revision)


definition quiet_provider :: provider_script where
  "quiet_provider =
     \<lparr>pw_built = (\<lambda>p. Inr ()), pw_started = (\<lambda>p. Inr ()), pw_state_fault = None,
      pw_watchlist_fault = None, pw_log_fault = None, pw_now = 0,
      pw_search = (\<lambda>p q c n. bail ''offline''), pw_logs = (\<lambda>p s n. bail ''offline''),
      pw_send = (\<lambda>p s m. bail ''offline''), pw_interrupt = (\<lambda>p s. bail ''offline''),
      pw_validate = (\<lambda>p s. bail ''offline'')\<rparr>"

definition removal_server :: "example_file server_env" where
  "removal_server =
     \<lparr>sx_daemon = example_env,
      sx_worker = \<lparr>we_message = (\<lambda>name v. name), we_session_json = (\<lambda>s. JNull), we_logs_json = (\<lambda>ls. JNull),
        we_message_receipt_json = (\<lambda>r. JNull), we_interrupt_receipt_json = (\<lambda>r. JNull),
        we_event_codec = \<lparr>ec_line = (\<lambda>e. ''x''), ec_parse = (\<lambda>s. Inl ''x'')\<rparr>, we_log_loc = \<lparr>loc_path = ''l'', loc_parent = None\<rparr>\<rparr>,
      sx_retry = \<lparr>re_codec = \<lparr>enc = (\<lambda>r. Inl ''x''), dec = (\<lambda>f. Inl ''x'')\<rparr>,
        re_loc = \<lparr>loc_path = ''r'', loc_parent = None\<rparr>, re_chrono = chrono_reference, re_serde = (\<lambda>name v. name)\<rparr>\<rparr>"

definition removal_script :: "unit result \<Rightarrow> example_file request_script" where
  "removal_script w =
     \<lparr>rs_slot = True, rs_provider = quiet_provider, rs_runtime = None, rs_events = None,
      rs_io = example_io,
      rs_retry = \<lparr>ri_revision = 0, ri_fresh = ''op'', ri_now = 0, ri_accept = NoFault,
        ri_delivered = w, ri_rollback = NoFault\<rparr>,
      rs_written = w\<rparr>"

definition running_service :: "example_file service" where
  "running_service =
     \<lparr>sv_daemon = example_daemon, sv_registry = [], sv_file = None, sv_shutting_down = False,
      sv_tasks = []\<rparr>"
lemma example_served:
  "\<exists>resp d'. serve_request removal_server (removal_script w) example_remove running_service =
      (written w resp, running_service\<lparr>sv_daemon := d'\<rparr>,
       case w of Inl e \<Rightarrow> None | Inr _ \<Rightarrow> change_notification ''sessions.remove'' resp) \<and>
     rsp_error resp = None \<and> revision d' \<noteq> revision (sv_daemon running_service)"
proof -
  obtain resp d' where run: "handle_control example_env example_io example_remove example_daemon = (resp, d')"
    by (metis surj_pair)
  then have ok: "rsp_error resp = None" using example_remove_runs by simp
  have m: "rq_method example_remove = ''sessions.remove''"
    by (simp add: example_remove_def example_request_def)
  obtain v where "dispatch_control example_env example_io example_remove example_daemon = (Inr v, d')"
    using run ok by (cases rule: handle_control_dispatch) auto
  from mutation_bumps [OF example_env_ok this] m have "revision d' = revision_after (revision example_daemon)"
    by (simp add: is_mutation_def)
  moreover have "unat (revision_after 3) = 4" by (simp add: unat_revision_after u64_max_def)
  then have "revision_after 3 \<noteq> 3" by auto
  moreover have "revision example_daemon = 3"
    by (simp add: revision_def example_daemon_def example_control_def)
  ultimately have "revision d' \<noteq> revision (sv_daemon running_service)"
    by (simp add: running_service_def)
  moreover have "serve_request removal_server (removal_script w) example_remove running_service =
      (written w resp, running_service\<lparr>sv_daemon := d'\<rparr>,
       case w of Inl e \<Rightarrow> None | Inr _ \<Rightarrow> change_notification ''sessions.remove'' resp)"
    by (simp add: serve_request_def m connection_request_def requires_provider_def removal_server_def
        removal_script_def running_service_def run)
  ultimately show ?thesis using ok by blast
qed

theorem stale_request_changes_nothing_witness:
  "fst (snd (serve_request removal_server (removal_script (Inr ())) (example_remove\<lparr>rq_expected_revision := Some 2\<rparr>)
     running_service)) = running_service"
proof -
  let ?stale = "example_remove\<lparr>rq_expected_revision := Some 2\<rparr>"
  obtain reply sv' notice where
    run: "serve_request removal_server (removal_script (Inr ())) ?stale running_service = (reply, sv', notice)"
    by (metis prod_cases3)
  have "changes_service (rq_method ?stale)"
    by (simp add: changes_service_def is_mutation_def example_remove_def example_request_def)
  moreover have "rq_expected_revision ?stale = Some 2" by simp
  moreover have "2 \<noteq> revision (sv_daemon running_service)"
    by (simp add: running_service_def revision_def example_daemon_def example_control_def)
  ultimately show ?thesis
    using stale_request_changes_nothing [OF _ _ _ run] run by simp
qed


text \<open>
  A change whose answer cannot be delivered is made all the same, but the subscribers are
  not told: the notification is only sent after the response was written.
\<close>

lemma undelivered_change_not_announced:
  "\<exists>sv'. serve_request removal_server (removal_script (Inl e)) example_remove running_service =
      (NoReply e, sv', None) \<and> revision (sv_daemon sv') \<noteq> revision (sv_daemon running_service)"
  using example_served [of "Inl e"] by (fastforce simp: written_def)

text \<open>A round that fails after it has reloaded the configuration announces nothing.\<close>

lemma failed_round_not_announced:
  "finish_round env events_json io before planned (Inl e) (d, en) = ([], d, en)"
  by (simp add: finish_round_def split: sum.splits)

text \<open>
  A request between 1 MiB and 8 MiB is one the client writes and the service does not read:
  it is dropped without an answer.
\<close>

lemma large_request_dropped:
  assumes "max_rpc_request_bytes < length bytes" and "length bytes \<le> max_frame_bytes"
  shows "\<exists>e. write_frame None bytes = (Inr (), be_u32 (length bytes) @ bytes) \<and>
    read_request parse msg False eof (be_u32 (length bytes) @ bytes) = Inl e"
proof -
  have "length bytes < 2 ^ 32" using assms(2) by (simp add: max_frame_bytes_def)
  then show ?thesis
    using assms rpc_header.read_header [of eof "length bytes" bytes] rpc_header.header_value [of "length bytes"]
    by (simp add: write_frame_def read_request_def read_frame_with_limit_def)
qed

end
