(* ===== verification/Settings_Json.thy ===== *)
theory Settings_Json
  imports Protocol
begin

text \<open>
  The settings as JSON, as serde derives it for \<open>config.rs\<close> and \<open>os_permissions/rules.rs\<close>:
  what \<open>config.get\<close> and \<open>config.policies.list\<close> answer, what \<open>config.dialogs.set\<close> and
  \<open>config.policies.set\<close> are sent, and that it reads back.
\<close>


section \<open>Dictionaries\<close>

text \<open>A \<open>BTreeMap\<close> with string keys is an object; reading one inserts its entries in order.\<close>

definition dict_json :: "('v \<Rightarrow> json) \<Rightarrow> (string, 'v) dict \<Rightarrow> json" where
  "dict_json g m = json_object (map (\<lambda>(k, v). (k, g v)) m)"

fun dict_of :: "(json \<Rightarrow> 'v option) \<Rightarrow> json \<Rightarrow> (string, 'v) dict option" where
  "dict_of f (JObject m) =
     map_option (foldl (\<lambda>m (k, v). bt_insert k v m) [])
       (those (map (\<lambda>(k, v). map_option (Pair k) (f v)) m))"
| "dict_of f _ = None"

lemma bt_insert_last: "\<forall>x \<in> fst ` set m. x < k \<Longrightarrow> bt_insert k v m = m @ [(k, v)]"
  by (induction m) (auto simp: less_le_not_le)

lemma foldl_bt_insert: "bt_wf (m0 @ m) \<Longrightarrow> foldl (\<lambda>m (k, v). bt_insert k v m) m0 m = m0 @ m"
proof (induction m arbitrary: m0)
  case (Cons a m)
  obtain k v where a: "a = (k, v)" by (cases a)
  have "\<forall>x \<in> fst ` set m0. x < k"
    using Cons.prems by (auto simp: a bt_wf_def sorted_wrt_append)
  then have "bt_insert k v m0 = m0 @ [a]" by (simp add: a bt_insert_last)
  with Cons show ?case by (simp add: a)
qed simp

lemma dict_json_object:
  assumes "bt_wf m"
  shows "dict_json g m = JObject (map (\<lambda>(k, v). (k, g v)) m)"
proof -
  have "bt_wf ([] @ map (\<lambda>(k, v). (k, g v)) m)"
    using assms by (simp add: bt_wf_def comp_def case_prod_beta)
  from foldl_bt_insert [OF this] show ?thesis by (simp add: dict_json_def json_object_def)
qed

lemma dict_of_json:
  assumes "bt_wf m" and "\<forall>(k, v) \<in> set m. f (g v) = Some v"
  shows "dict_of f (dict_json g m) = Some m"
proof -
  have "those (map (\<lambda>(k, v). map_option (Pair k) (f v)) (map (\<lambda>(k, v). (k, g v)) m)) = Some m"
    using assms(2) by (induction m) auto
  moreover have "foldl (\<lambda>m (k, v). bt_insert k v m) [] m = m"
    using foldl_bt_insert [of "[]" m] assms(1) by simp
  ultimately show ?thesis by (simp add: dict_json_object [OF assms(1)])
qed


section \<open>Policies\<close>

definition policy_action_json :: "policy_action \<Rightarrow> json" where
  "policy_action_json a = JString (case a of Retry \<Rightarrow> ''retry'' | Skip \<Rightarrow> ''skip'')"

definition backoff_kind_json :: "backoff_kind \<Rightarrow> json" where
  "backoff_kind_json b = JString (case b of Fixed \<Rightarrow> ''fixed'' | Exponential \<Rightarrow> ''exponential'')"

definition policy_override_json :: "policy_override \<Rightarrow> json" where
  "policy_override_json p = json_object
     [(''action'', json_opt policy_action_json (po_action p)),
      (''backoff'', json_opt backoff_kind_json (po_backoff p)),
      (''initial_delay_seconds'', json_opt json_u64 (po_initial_delay_seconds p)),
      (''max_delay_seconds'', json_opt json_u64 (po_max_delay_seconds p)),
      (''max_attempts'', json_opt json_nat (po_max_attempts p)),
      (''prompt'', json_opt JString (po_prompt p))]"

definition resolved_policy_json :: "resolved_policy \<Rightarrow> json" where
  "resolved_policy_json p = json_object
     [(''condition'', JString (rp_condition p)), (''description'', JString (rp_description p)),
      (''action'', policy_action_json (rp_action p)),
      (''backoff'', json_opt backoff_kind_json (rp_backoff p)),
      (''initial_delay_seconds'', json_u64 (rp_initial_delay_seconds p)),
      (''max_delay_seconds'', json_u64 (rp_max_delay_seconds p)),
      (''max_attempts'', json_nat (rp_max_attempts p)),
      (''prompt'', JString (rp_prompt p)), (''customized'', JBool (rp_customized p))]"

definition resolved_policy_of :: "json \<Rightarrow> resolved_policy option" where
  "resolved_policy_of v =
     Option.bind (struct_fields [''condition'', ''description'', ''action'', ''backoff'',
         ''initial_delay_seconds'', ''max_delay_seconds'', ''max_attempts'', ''prompt'', ''customized''] v)
       (\<lambda>f. Option.bind (required as_str (f ''condition''))
       (\<lambda>c. Option.bind (required as_str (f ''description''))
       (\<lambda>d. Option.bind (required policy_action_of (f ''action''))
       (\<lambda>a. Option.bind (defaulted None (nullable backoff_kind_of) (f ''backoff''))
       (\<lambda>b. Option.bind (required as_u64 (f ''initial_delay_seconds''))
       (\<lambda>i. Option.bind (required as_u64 (f ''max_delay_seconds''))
       (\<lambda>m. Option.bind (required as_usize (f ''max_attempts''))
       (\<lambda>n. Option.bind (required as_str (f ''prompt''))
       (\<lambda>p. Option.bind (required as_bool (f ''customized''))
       (\<lambda>u. Some
          \<lparr>rp_condition = c, rp_description = d, rp_action = a, rp_backoff = b,
           rp_initial_delay_seconds = i, rp_max_delay_seconds = m, rp_max_attempts = n,
           rp_prompt = p, rp_customized = u\<rparr>))))))))))"


section \<open>Dialog rules\<close>

definition dialog_rule_json :: "dialog_rule \<Rightarrow> json" where
  "dialog_rule_json r = json_object
     [(''enabled'', JBool (dr_enabled r)), (''app'', json_opt JString (dr_app r)),
      (''title'', json_opt JString (dr_title r)), (''text'', json_opt JString (dr_text r)),
      (''button'', json_opt JString (dr_button r))]"

definition dialog_rule_of :: "json \<Rightarrow> dialog_rule option" where
  "dialog_rule_of v =
     Option.bind (known_fields [''enabled'', ''app'', ''title'', ''text'', ''button''] v)
       (\<lambda>f. Option.bind (defaulted True as_bool (f ''enabled''))
       (\<lambda>e. Option.bind (defaulted None (nullable as_str) (f ''app''))
       (\<lambda>a. Option.bind (defaulted None (nullable as_str) (f ''title''))
       (\<lambda>t. Option.bind (defaulted None (nullable as_str) (f ''text''))
       (\<lambda>x. Option.bind (defaulted None (nullable as_str) (f ''button''))
       (\<lambda>b. Some
          \<lparr>dr_enabled = e, dr_app = a, dr_title = t, dr_text = x, dr_button = b\<rparr>))))))"

definition dialog_settings_json :: "dialog_settings \<Rightarrow> json" where
  "dialog_settings_json ds = json_object [(''rules'', dict_json dialog_rule_json (ds_rules ds))]"

definition dialog_settings_of :: "json \<Rightarrow> dialog_settings option" where
  "dialog_settings_of v =
     Option.bind (known_fields [''rules''] v)
       (\<lambda>f. Option.bind (defaulted (ds_rules default_dialog_settings) (dict_of dialog_rule_of) (f ''rules''))
       (\<lambda>m. Some \<lparr>ds_rules = m\<rparr>))"


section \<open>Settings\<close>

definition json_i64 :: "int \<Rightarrow> json" where
  "json_i64 i = JNumber (if i < 0 then NegInt i else PosInt (word_of_int i))"

definition engine_settings_json :: "engine_settings \<Rightarrow> json" where
  "engine_settings_json e = json_object
     [(''poll_interval_seconds'', json_u64 (poll_interval_seconds e)),
      (''attempt_window_seconds'', json_i64 (attempt_window_seconds e)),
      (''log_retention'', json_nat (log_retention e))]"

definition lifecycle_json :: "lifecycle_settings \<Rightarrow> json" where
  "lifecycle_json l = json_object [(''stale_after_seconds'', json_i64 (stale_after_seconds l))]"

definition provider_settings_json :: "provider_settings \<Rightarrow> json" where
  "provider_settings_json p = json_object
     [(''codex'', json_object
        [(''enabled'', JBool (codex_enabled (ps_codex p))),
         (''command'', JArray (map JString (codex_command (ps_codex p))))]),
      (''claude'', json_object [(''enabled'', JBool (claude_enabled (ps_claude p)))])]"

definition settings_json :: "settings \<Rightarrow> json" where
  "settings_json s = json_object
     [(''version'', json_u32 (st_version s)),
      (''engine'', engine_settings_json (st_engine s)),
      (''lifecycle'', lifecycle_json (st_lifecycle s)),
      (''providers'', provider_settings_json (st_providers s)),
      (''policies'', dict_json policy_override_json (st_policies s)),
      (''dialogs'', dialog_settings_json (st_dialogs s))]"


section \<open>What is written reads back\<close>

lemma nullable_json_opt:
  assumes "\<And>a. x = Some a \<Longrightarrow> f (g a) = Some a \<and> g a \<noteq> JNull"
  shows "nullable f (json_opt g x) = Some x"
proof (cases x)
  case (Some a)
  with assms have "f (g a) = Some a" and "g a \<noteq> JNull" by auto
  with Some show ?thesis by (cases "g a") (simp_all add: json_opt_def)
qed (simp add: json_opt_def)

lemma nullable_strings [simp]: "nullable as_str (json_opt JString x) = Some x"
  by (rule nullable_json_opt) simp

lemma nullable_u64s [simp]: "nullable as_u64 (json_opt json_u64 x) = Some x"
  by (rule nullable_json_opt) (simp add: json_u64_def)

lemma as_usize_json_nat [simp]: "n \<le> u64_max \<Longrightarrow> as_usize (json_nat n) = Some n"
  by (simp add: as_usize_def json_nat_def)

lemma nullable_nats: "\<forall>n. x = Some n \<longrightarrow> n \<le> u64_max \<Longrightarrow> nullable as_usize (json_opt json_nat x) = Some x"
  by (rule nullable_json_opt) (auto simp: json_nat_def as_usize_def)

lemma policy_action_back [simp]: "policy_action_of (policy_action_json a) = Some a"
  by (cases a) (simp_all add: policy_action_of_def policy_action_json_def)

lemma backoff_kind_back: "backoff_kind_of (backoff_kind_json b) = Some b"
  by (cases b) (simp_all add: backoff_kind_of_def backoff_kind_json_def)

lemma nullable_actions [simp]: "nullable policy_action_of (json_opt policy_action_json x) = Some x"
  by (rule nullable_json_opt) (simp, simp add: policy_action_json_def)

lemma nullable_backoffs [simp]: "nullable backoff_kind_of (json_opt backoff_kind_json x) = Some x"
  by (rule nullable_json_opt) (simp add: backoff_kind_back, simp add: backoff_kind_json_def)

lemma fst_set_json_object: "fst ` set (foldl (\<lambda>m (k, v). bt_insert k v m) m0 kvs) = fst ` set m0 \<union> fst ` set kvs"
proof (induction kvs arbitrary: m0)
  case (Cons a kvs)
  obtain k v where a: "a = (k, v)" by (cases a)
  show ?case by (simp add: a Cons fst_set_bt_insert)
qed simp

lemma known_fields_object [simp]:
  "known_fields names (json_object kvs) =
     (if list_all (\<lambda>k. k \<in> set names) (map fst kvs) then Some (\<lambda>k. hm_get (rev kvs) k) else None)"
proof -
  have "list_all (\<lambda>k. k \<in> set names) (map fst (foldl (\<lambda>m (k, v). bt_insert k v m) [] kvs)) \<longleftrightarrow>
      list_all (\<lambda>k. k \<in> set names) (map fst kvs)"
    using fst_set_json_object [of "[]" kvs] by (simp add: list_all_iff ball_simps flip: ball_simps(9))
  moreover have "hm_get (foldl (\<lambda>m (k, v). bt_insert k v m) [] kvs) = hm_get (rev kvs)"
    using json_get_object [of _ kvs] by (auto simp: json_object_def)
  ultimately show ?thesis by (simp add: json_object_def)
qed

definition usize_policy :: "policy_override \<Rightarrow> bool" where
  "usize_policy p \<longleftrightarrow> (\<forall>n. po_max_attempts p = Some n \<longrightarrow> n \<le> u64_max)"

lemma policy_override_back:
  "usize_policy p \<Longrightarrow> policy_override_of (policy_override_json p) = Some p"
  by (simp add: usize_policy_def policy_override_of_def policy_override_json_def defaulted_def
      hm_get_def nullable_nats)

lemma dialog_rule_back: "dialog_rule_of (dialog_rule_json r) = Some r"
  by (simp add: dialog_rule_of_def dialog_rule_json_def defaulted_def hm_get_def)

lemma dialog_settings_back:
  "bt_wf (ds_rules ds) \<Longrightarrow> dialog_settings_of (dialog_settings_json ds) = Some ds"
  by (simp add: dialog_settings_of_def dialog_settings_json_def defaulted_def hm_get_def
      dict_of_json dialog_rule_back)

lemma resolved_policy_back:
  "rp_max_attempts p \<le> u64_max \<Longrightarrow> resolved_policy_of (resolved_policy_json p) = Some p"
  by (simp add: resolved_policy_of_def resolved_policy_json_def required_def defaulted_def hm_get_def)

lemma settings_json_dialogs:
  "json_index (settings_json s) ''dialogs'' = dialog_settings_json (st_dialogs s)"
  by (simp add: json_index_def settings_json_def json_get_object hm_get_def)

end
