(* ===== verification/Terminal.thy ===== *)
theory Terminal
  imports Reading Dialog_Log
begin

text \<open>
  What the command line reads and shows (\<open>main.rs\<close>): the parsers of numbers and durations,
  the text of a message, and tables whose columns are measured in characters, not bytes.
\<close>


section \<open>Numbers\<close>

text \<open>\<open>str::parse\<close> for an unsigned 64-bit integer, with its errors in the order they occur.\<close>

datatype int_error = EmptyInt | InvalidDigit | PosOverflow

definition int_error_text :: "int_error \<Rightarrow> string" where
  "int_error_text e =
     (case e of
        EmptyInt \<Rightarrow> ''cannot parse integer from empty string''
      | InvalidDigit \<Rightarrow> ''invalid digit found in string''
      | PosOverflow \<Rightarrow> ''number too large to fit in target type'')"

fun scan_u64 :: "nat \<Rightarrow> string \<Rightarrow> int_error + nat" where
  "scan_u64 acc [] = Inr acc"
| "scan_u64 acc (c # s) =
     (if \<not> ascii_digit c then Inl InvalidDigit
      else let n = 10 * acc + (byte c - 48)
        in if n > u64_max then Inl PosOverflow else scan_u64 n s)"

definition parse_u64 :: "string \<Rightarrow> int_error + nat" where
  "parse_u64 s =
     (case s of
        [] \<Rightarrow> Inl EmptyInt
      | c # t \<Rightarrow>
          if t = [] \<and> (c = CHR ''+'' \<or> c = CHR ''-'') then Inl InvalidDigit
          else scan_u64 0 (if c = CHR ''+'' then t else s))"

text \<open>The arguments of the command line fail with a text.\<close>

definition parse_positive_usize :: "string \<Rightarrow> string + nat" where
  "parse_positive_usize s =
     (case parse_u64 s of
        Inl e \<Rightarrow> Inl (''invalid number: '' @ int_error_text e)
      | Inr n \<Rightarrow> if n = 0 then Inl ''must be greater than zero'' else Inr n)"

definition strip_suffix :: "string \<Rightarrow> string \<Rightarrow> string option" where
  "strip_suffix p s = (if ends_with p s then Some (take (length s - length p) s) else None)"

definition duration_parts :: "string \<Rightarrow> string \<times> nat" where
  "duration_parts s =
     (case strip_suffix ''ms'' s of Some d \<Rightarrow> (d, 0) | None \<Rightarrow>
      case strip_suffix ''s'' s of Some d \<Rightarrow> (d, 1) | None \<Rightarrow>
      case strip_suffix ''m'' s of Some d \<Rightarrow> (d, 60) | None \<Rightarrow>
      case strip_suffix ''h'' s of Some d \<Rightarrow> (d, 3600) | None \<Rightarrow> (s, 1))"

definition parse_duration :: "string \<Rightarrow> string + nat" where
  "parse_duration raw =
     (case duration_parts (trim raw) of
        (digits, multiplier) \<Rightarrow>
          (case parse_u64 digits of
             Inl e \<Rightarrow> Inl (''invalid duration: '' @ int_error_text e)
           | Inr n \<Rightarrow>
               if multiplier = 0 \<or> n = 0 then Inl ''duration must be at least one second''
               else if n * multiplier > u64_max then Inl ''duration is too large''
               else Inr (n * multiplier)))"

lemma digits_value_le: "n * 10 ^ length s \<le> foldl (\<lambda>n c. 10 * n + (byte c - 48)) n s"
proof (induction s arbitrary: n)
  case (Cons c s)
  have "n * 10 ^ length (c # s) \<le> (10 * n + (byte c - 48)) * 10 ^ length s"
    by (simp add: algebra_simps)
  also have "\<dots> \<le> foldl (\<lambda>n c. 10 * n + (byte c - 48)) (10 * n + (byte c - 48)) s"
    by (rule Cons.IH)
  finally show ?case by simp
qed simp

lemma foldl_digits_ge: "n \<le> foldl (\<lambda>n c. 10 * n + (byte c - 48)) n s"
proof -
  have "n \<le> n * 10 ^ length s" by simp
  then show ?thesis using digits_value_le [of n s] by (rule le_trans)
qed

lemma scan_u64_Inr:
  "scan_u64 acc s = Inr n \<and> acc \<le> u64_max \<longleftrightarrow>
     list_all ascii_digit s \<and> acc \<le> u64_max \<and>
     n = foldl (\<lambda>n c. 10 * n + (byte c - 48)) acc s \<and> n \<le> u64_max"
proof (induction s arbitrary: acc)
  case (Cons c s)
  show ?case
  proof (cases "ascii_digit c \<and> 10 * acc + (byte c - 48) \<le> u64_max")
    case True
    then show ?thesis using Cons.IH [of "10 * acc + (byte c - 48)"] by (auto simp: Let_def)
  next
    case False
    have "10 * acc + (byte c - 48) \<le> foldl (\<lambda>n c. 10 * n + (byte c - 48)) acc (c # s)"
      using foldl_digits_ge [of "10 * acc + (byte c - 48)" s] by simp
    with False show ?thesis by (auto simp: Let_def)
  qed
qed auto

text \<open>The parser of the command line and the one of the other components agree.\<close>

lemma parse_u64_Inr: "parse_u64 s = Inr n \<longleftrightarrow> parse_usize s = Some n"
proof (cases s)
  case (Cons c t)
  have scan: "scan_u64 0 ds = Inr n \<longleftrightarrow> list_all ascii_digit ds \<and> n = digits_value ds \<and> n \<le> u64_max" for ds
    using scan_u64_Inr [of 0 ds n] by (auto simp: digits_value_def)
  consider "c = CHR ''+'' \<or> c = CHR ''-''" and "t = []" | "c = CHR ''+''" and "t \<noteq> []"
    | "c \<noteq> CHR ''+''" and "\<not> (t = [] \<and> c = CHR ''-'')" by blast
  then show ?thesis
  proof cases
    case 1
    then show ?thesis
      by (auto simp: Cons parse_u64_def parse_usize_def ascii_digit_def byte_def)
  next
    case 2
    then show ?thesis by (auto simp: Cons parse_u64_def parse_usize_def scan)
  next
    case 3
    then have "parse_u64 s = scan_u64 0 s" and
      "parse_usize s = (if list_all ascii_digit s \<and> digits_value s \<le> u64_max then Some (digits_value s) else None)"
      by (auto simp: Cons parse_u64_def parse_usize_def)
    then show ?thesis by (auto simp: scan)
  qed
qed (simp add: parse_u64_def parse_usize_def)

lemma strip_suffix_Some_iff: "strip_suffix p s = Some t \<longleftrightarrow> s = t @ p"
proof -
  have "ends_with p s \<longleftrightarrow> (\<exists>t. s = t @ p)"
    unfolding ends_with_def starts_with_iff by (metis rev_append rev_rev_ident)
  then show ?thesis by (auto simp: strip_suffix_def)
qed

lemma strip_suffix_append [simp]: "strip_suffix p (t @ p) = Some t"
  by (simp add: strip_suffix_Some_iff)

definition duration_units :: "(string \<times> nat) list" where
  "duration_units = [(''s'', 1), (''m'', 60), (''h'', 3600), ([], 1)]"

lemma duration_parts_cases:
  "duration_parts s = (d, k) \<Longrightarrow> k \<noteq> 0 \<Longrightarrow> \<exists>(u, m) \<in> set duration_units. s = d @ u \<and> k = m"
  by (auto simp: duration_parts_def duration_units_def strip_suffix_Some_iff split: option.splits)

lemma no_digit_suffix: "strip_suffix p (show_nat n) = Some t \<Longrightarrow> p \<noteq> [] \<Longrightarrow> ascii_digit (last p)"
proof -
  assume "strip_suffix p (show_nat n) = Some t" and p: "p \<noteq> []"
  then have "show_nat n = t @ p" by (simp add: strip_suffix_Some_iff)
  then have "list_all ascii_digit (t @ p)" using show_nat_digits [of n] by simp
  with p show ?thesis by (simp add: list_all_iff)
qed

lemma duration_parts_show:
  assumes "(u, m) \<in> set duration_units"
  shows "duration_parts (show_nat n @ u) = (show_nat n, m)"
proof -
  have last: "ascii_digit (last (show_nat n))"
    using show_nat_digits [of n] show_nat_nonempty [of n] by (simp add: list_all_iff)
  have none: "strip_suffix p (show_nat n @ u) = None"
    if "p \<noteq> []" and "last p \<noteq> last (show_nat n @ u)" for p
  proof (rule ccontr)
    assume "strip_suffix p (show_nat n @ u) \<noteq> None"
    then obtain t where "show_nat n @ u = t @ p" by (auto simp: strip_suffix_Some_iff)
    with that show False by (metis last_appendR)
  qed
  have ms: "strip_suffix ''ms'' (show_nat n @ ''s'') = None"
  proof (rule ccontr)
    assume "strip_suffix ''ms'' (show_nat n @ ''s'') \<noteq> None"
    then obtain t where "show_nat n @ ''s'' = t @ ''ms''" by (auto simp: strip_suffix_Some_iff)
    then have "show_nat n = t @ ''m''" by simp
    with last show False by (simp add: ascii_digit_def byte_def)
  qed
  have x: "CHR ''s'' \<noteq> last (show_nat n)" "CHR ''m'' \<noteq> last (show_nat n)" "CHR ''h'' \<noteq> last (show_nat n)"
  proof -
    have "\<not> ascii_digit (CHR ''s'')" "\<not> ascii_digit (CHR ''m'')" "\<not> ascii_digit (CHR ''h'')"
      by (simp_all add: ascii_digit_def byte_def)
    with last show "CHR ''s'' \<noteq> last (show_nat n)" "CHR ''m'' \<noteq> last (show_nat n)"
      "CHR ''h'' \<noteq> last (show_nat n)" by metis+
  qed
  from assms consider "u = ''s''" "m = 1" | "u = ''m''" "m = 60" | "u = ''h''" "m = 3600" | "u = []" "m = 1"
    by (auto simp: duration_units_def)
  then show ?thesis
  proof cases
    case 1
    then show ?thesis using ms strip_suffix_append [of "''s''" "show_nat n"]
      by (simp add: duration_parts_def)
  next
    case 2
    then show ?thesis using strip_suffix_append [of "''m''" "show_nat n"]
        none [of "''ms''"] none [of "''s''"]
      by (simp add: duration_parts_def)
  next
    case 3
    then show ?thesis using strip_suffix_append [of "''h''" "show_nat n"]
        none [of "''ms''"] none [of "''s''"] none [of "''m''"]
      by (simp add: duration_parts_def)
  next
    case 4
    then show ?thesis using x none [of "''ms''"] none [of "''s''"] none [of "''m''"] none [of "''h''"]
      by (simp add: duration_parts_def)
  qed
qed

text \<open>
  A duration is a number of at least one with a unit, and exactly its seconds; what does
  not fit into 64 bits is refused.
\<close>

lemma parse_duration_sound:
  assumes "parse_duration raw = Inr n"
  shows "0 < n \<and> n \<le> u64_max \<and>
    (\<exists>(u, m) \<in> set duration_units. \<exists>digits k. trim raw = digits @ u \<and> parse_usize digits = Some k \<and> n = k * m)"
proof -
  obtain d k where parts: "duration_parts (trim raw) = (d, k)" by (metis surj_pair)
  with assms obtain v where v: "parse_u64 d = Inr v" "k \<noteq> 0" "v \<noteq> 0" "n = v * k" "n \<le> u64_max"
    by (auto simp: parse_duration_def split: sum.splits if_splits)
  from duration_parts_cases [OF parts v(2)] v show ?thesis
    by (auto simp: parse_u64_Inr)
qed

lemma show_nat_trim:
  assumes "(u, m) \<in> set duration_units"
  shows "trim (show_nat n @ u) = show_nat n @ u"
proof (rule trim_visible)
  have digits: "\<forall>c \<in> set (show_nat n). visible_ascii c"
    using show_nat_digits [of n] by (auto simp: list_all_iff ascii_digit_def visible_ascii_def)
  then show "visible_ascii (hd (show_nat n @ u))"
    using show_nat_nonempty [of n] by simp
  show "visible_ascii (last (show_nat n @ u))"
    using assms digits by (auto simp: duration_units_def visible_ascii_def byte_def)
qed simp

lemma parse_duration_complete:
  assumes "(u, m) \<in> set duration_units" and "0 < n" and "n \<le> u64_max"
  shows "parse_duration (show_nat n @ u) =
    (if n * m \<le> u64_max then Inr (n * m) else Inl ''duration is too large'')"
proof -
  have "parse_u64 (show_nat n) = Inr n"
    using assms(3) by (simp add: parse_u64_Inr)
  moreover have "m \<noteq> 0" using assms(1) by (auto simp: duration_units_def)
  ultimately show ?thesis
    using assms
    by (simp add: parse_duration_def show_nat_trim [OF assms(1)] duration_parts_show [OF assms(1)])
qed


section \<open>Messages\<close>

text \<open>
  The message of \<open>session send\<close>: the argument, or standard input unless that is a terminal;
  \<open>stdin\<close> is what reading it to the end gives.
\<close>

definition message_input :: "string option \<Rightarrow> bool \<Rightarrow> string result \<Rightarrow> string result" where
  "message_input argument terminal stdin =
     bindR
       (case argument of
          Some m \<Rightarrow> Inr m
        | None \<Rightarrow>
            if terminal then bail ''message is required as an argument or via standard input''
            else with_context ''cannot read message from standard input'' stdin)
       (\<lambda>m. if trim m = [] then bail ''message cannot be empty'' else Inr (trim m))"

lemma message_input_visible: "message_input a t i = Inr m \<Longrightarrow> m \<noteq> []"
  by (auto simp: message_input_def bindR_Inr_iff split: if_splits)


section \<open>Tables\<close>

text \<open>Width is measured in characters.\<close>

definition char_count :: "string \<Rightarrow> nat" where
  "char_count s = length (chars_of s)"

definition ellipsis :: string where
  "ellipsis = [CHR 0xE2, CHR 0x80, CHR 0xA6]"

text \<open>The first pass: each column is as wide as its widest cell, but at most 72.\<close>

fun widen :: "nat list \<Rightarrow> string list \<Rightarrow> nat list result" where
  "widen ws [] = Inr ws"
| "widen [] (c # cs) = panic ''index out of bounds''"
| "widen (w # ws) (c # cs) =
     bindR (widen ws cs) (\<lambda>ws'. Inr (min 72 (max w (char_count c)) # ws'))"

fun column_widths :: "nat list \<Rightarrow> string list list \<Rightarrow> nat list result" where
  "column_widths ws [] = Inr ws"
| "column_widths ws (r # rs) = bindR (widen ws r) (\<lambda>ws'. column_widths ws' rs)"

definition render_cell :: "nat \<Rightarrow> string \<Rightarrow> string" where
  "render_cell w cell =
     (let cs = take w (chars_of cell);
          rendered = (if char_count cell > w \<and> w > 0 then butlast cs @ [ellipsis] else cs)
      in concat rendered @ replicate (w - length rendered) (CHR '' ''))"

fun print_cells :: "nat list \<Rightarrow> string list \<Rightarrow> string list result" where
  "print_cells ws [] = Inr []"
| "print_cells [] (c # cs) = panic ''index out of bounds''"
| "print_cells (w # ws) (c # cs) = bindR (print_cells ws cs) (\<lambda>r. Inr (render_cell w c # r))"

definition print_row :: "nat list \<Rightarrow> string list \<Rightarrow> string result" where
  "print_row ws row = bindR (print_cells ws row) (\<lambda>cells. Inr (join_text ''  '' cells))"

fun print_rows :: "nat list \<Rightarrow> string list list \<Rightarrow> string list result" where
  "print_rows ws [] = Inr []"
| "print_rows ws (r # rs) =
     bindR (print_row ws r) (\<lambda>l. bindR (print_rows ws rs) (\<lambda>ls. Inr (l # ls)))"

definition print_table :: "string list \<Rightarrow> string list list \<Rightarrow> string list result" where
  "print_table headers rows =
     bindR (column_widths (map length headers) rows) (\<lambda>ws.
     bindR (print_row ws headers) (\<lambda>top.
     bindR (print_row ws (map (\<lambda>w. replicate w (CHR ''-'')) ws)) (\<lambda>rule.
     bindR (print_rows ws rows) (\<lambda>ls. Inr (top # rule # ls)))))"

text \<open>A text that does not begin in the middle of a character.\<close>

definition whole :: "string \<Rightarrow> bool" where
  "whole s \<longleftrightarrow> s = [] \<or> \<not> continuation (hd s)"

definition one_char :: "string \<Rightarrow> bool" where
  "one_char g \<longleftrightarrow> g \<noteq> [] \<and> \<not> continuation (hd g) \<and> list_all continuation (tl g)"

lemma all_continuation:
  "\<forall>x \<in> set s. continuation x \<Longrightarrow> takeWhile continuation s = s \<and> dropWhile continuation s = []"
  by (induction s) auto

lemma concat_chars_of [simp]: "concat (chars_of s) = s"
  by (induction s rule: chars_of.induct) simp_all

lemma chars_of_hd: "chars_of s = g # gs \<Longrightarrow> g \<noteq> [] \<and> s \<noteq> [] \<and> hd g = hd s"
  by (cases s) auto

lemma chars_of_append:
  assumes "whole t"
  shows "chars_of (s @ t) = chars_of s @ chars_of t"
proof (induction s rule: chars_of.induct)
  case (2 c s)
  have t: "takeWhile continuation t = []" "dropWhile continuation t = t"
    using assms by (cases t; simp add: whole_def)+
  show ?case
  proof (cases "\<forall>x \<in> set s. continuation x")
    case True
    with t show ?thesis by (simp add: takeWhile_append dropWhile_append2 all_continuation)
  next
    case False
    then obtain x where "x \<in> set s" and "\<not> continuation x" by blast
    with "2" show ?thesis by (simp add: takeWhile_append1 dropWhile_append1)
  qed
qed simp

lemma chars_of_one: "one_char g \<Longrightarrow> chars_of g = [g]"
  by (cases g) (simp_all add: one_char_def list_all_iff all_continuation)

lemma chars_of_groups:
  "(\<forall>g \<in> set (chars_of s). g \<noteq> [] \<and> list_all continuation (tl g)) \<and>
   (\<forall>g \<in> set (tl (chars_of s)). \<not> continuation (hd g))"
proof (induction s rule: chars_of.induct)
  case (2 c s)
  have "\<not> continuation (hd g)" if g: "g \<in> set (chars_of (dropWhile continuation s))" for g
  proof (cases "dropWhile continuation s")
    case (Cons d r)
    then have "\<not> continuation d" using hd_dropWhile [of continuation s] by simp
    with Cons "2" g show ?thesis by auto
  next
    case Nil
    with g show ?thesis by (simp only: chars_of.simps empty_iff list.set)
  qed
  with "2" show ?case by (auto simp: list_all_iff dest: set_takeWhileD)
qed simp

lemma chars_of_whole: "whole s \<Longrightarrow> list_all one_char (chars_of s)"
proof (cases "chars_of s")
  case (Cons g gs)
  assume "whole s"
  with chars_of_hd [OF Cons] have "\<not> continuation (hd g)" by (simp add: whole_def)
  with chars_of_groups [of s] show ?thesis by (simp add: Cons list_all_iff one_char_def)
qed simp

lemma chars_of_concat: "list_all one_char gs \<Longrightarrow> chars_of (concat gs) = gs \<and> whole (concat gs)"
proof (induction gs)
  case (Cons g gs)
  then have "chars_of (g @ concat gs) = [g] @ gs"
    by (simp add: chars_of_append chars_of_one)
  moreover have "whole (g @ concat gs)" using Cons.prems by (auto simp: whole_def one_char_def)
  ultimately show ?case by simp
qed (simp add: whole_def)

lemma char_count_append: "whole t \<Longrightarrow> char_count (s @ t) = char_count s + char_count t"
  by (simp add: char_count_def chars_of_append)

lemma one_char_ascii: "byte c < 128 \<Longrightarrow> one_char [c]"
  by (simp add: one_char_def continuation_def)

lemma char_count_replicate: "byte c < 128 \<Longrightarrow> char_count (replicate n c) = n \<and> whole (replicate n c)"
proof -
  assume "byte c < 128"
  then have "list_all one_char (replicate n [c])" by (simp add: list_all_iff one_char_ascii)
  from chars_of_concat [OF this] have "chars_of (replicate n c) = replicate n [c]"
    and "whole (replicate n c)" by (simp_all add: concat_replicate_single)
  then show ?thesis by (simp add: char_count_def)
qed


text \<open>A rendered cell is exactly as wide as its column, and is the whole cell if that fits.\<close>

lemma ellipsis_one: "one_char ellipsis"
  by (simp add: ellipsis_def one_char_def continuation_def byte_def)

lemma render_cell_width:
  assumes "whole cell"
  shows "char_count (render_cell w cell) = w \<and> whole (render_cell w cell)"
proof -
  define cs where "cs = take w (chars_of cell)"
  define shown where "shown = (if char_count cell > w \<and> w > 0 then butlast cs @ [ellipsis] else cs)"
  have "list_all one_char cs"
    using chars_of_whole [OF assms] by (auto simp: cs_def list_all_iff dest: in_set_takeD)
  then have ok: "list_all one_char (shown @ replicate (w - length shown) '' '')"
    by (auto simp: shown_def list_all_iff ellipsis_one one_char_ascii byte_def dest: in_set_butlastD)
  have len: "length shown \<le> w"
    by (auto simp: shown_def cs_def char_count_def)
  have "render_cell w cell = concat (shown @ replicate (w - length shown) '' '')"
    by (simp add: render_cell_def shown_def cs_def Let_def)
  with chars_of_concat [OF ok] len show ?thesis
    by (simp add: char_count_def)
qed

lemma render_cell_fits:
  "char_count cell \<le> w \<Longrightarrow> render_cell w cell = cell @ replicate (w - char_count cell) (CHR '' '')"
  by (simp add: render_cell_def char_count_def)

lemma widen_total:
  "length row \<le> length ws \<Longrightarrow> \<exists>ws'. widen ws row = Inr ws' \<and> length ws' = length ws \<and>
     (\<forall>i < length ws. ws ! i \<le> 72 \<longrightarrow> ws ! i \<le> ws' ! i \<and> ws' ! i \<le> 72) \<and>
     (\<forall>i < length row. min 72 (char_count (row ! i)) \<le> ws' ! i)"
proof (induction ws row rule: widen.induct)
  case (3 w ws c cs)
  then obtain ws' where ws': "widen ws cs = Inr ws'" "length ws' = length ws"
    "\<forall>i < length ws. ws ! i \<le> 72 \<longrightarrow> ws ! i \<le> ws' ! i \<and> ws' ! i \<le> 72"
    "\<forall>i < length cs. min 72 (char_count (cs ! i)) \<le> ws' ! i" by auto
  let ?v = "min 72 (max w (char_count c)) # ws'"
  have "\<forall>i < length (w # ws). (w # ws) ! i \<le> 72 \<longrightarrow> (w # ws) ! i \<le> ?v ! i \<and> ?v ! i \<le> 72"
    using ws'(3) by (auto simp: nth_Cons split: nat.splits)
  moreover have "\<forall>i < length (c # cs). min 72 (char_count ((c # cs) ! i)) \<le> ?v ! i"
    using ws'(4) by (auto simp: nth_Cons split: nat.splits)
  ultimately show ?case using ws'(1,2) by auto
qed auto

lemma column_widths_total:
  assumes "\<forall>r \<in> set rows. length r \<le> length ws" and "\<forall>w \<in> set ws. w \<le> 72"
  shows "\<exists>ws'. column_widths ws rows = Inr ws' \<and> length ws' = length ws \<and>
    (\<forall>i < length ws. ws ! i \<le> ws' ! i \<and> ws' ! i \<le> 72) \<and>
    (\<forall>r \<in> set rows. \<forall>i < length r. min 72 (char_count (r ! i)) \<le> ws' ! i)"
  using assms
proof (induction rows arbitrary: ws)
  case (Cons r rows)
  from widen_total [of r ws] Cons.prems(1) obtain v where v: "widen ws r = Inr v" "length v = length ws"
    "\<forall>i < length ws. ws ! i \<le> 72 \<longrightarrow> ws ! i \<le> v ! i \<and> v ! i \<le> 72"
    "\<forall>i < length r. min 72 (char_count (r ! i)) \<le> v ! i" by auto
  have small: "\<forall>w \<in> set v. w \<le> 72"
    using v(2,3) Cons.prems(2) by (metis in_set_conv_nth)
  from Cons.IH [of v] Cons.prems(1) v(2) small obtain u where u: "column_widths v rows = Inr u"
    "length u = length v" "\<forall>i < length v. v ! i \<le> u ! i \<and> u ! i \<le> 72"
    "\<forall>r \<in> set rows. \<forall>i < length r. min 72 (char_count (r ! i)) \<le> u ! i" by auto
  have "ws ! i \<le> u ! i \<and> u ! i \<le> 72" if "i < length ws" for i
    using that v(2,3) u(3) Cons.prems(2) by (metis le_trans nth_mem)
  moreover have "min 72 (char_count (r ! i)) \<le> u ! i" if i: "i < length r" for i
  proof -
    have "i < length v" using i Cons.prems(1) v(2) by simp
    then have "v ! i \<le> u ! i" using u(3) by blast
    then show ?thesis using v(4) i by (meson le_trans)
  qed
  ultimately show ?case using u(1,2,4) v(1,2) by auto
qed auto

lemma print_cells_map:
  "length row \<le> length ws \<Longrightarrow> print_cells ws row = Inr (map2 render_cell ws row)"
  by (induction ws row rule: print_cells.induct) auto

lemma join_text_count:
  "list_all whole cells \<Longrightarrow>
     char_count (join_text ''  '' cells) = sum_list (map char_count cells) + 2 * (length cells - 1) \<and>
     whole (join_text ''  '' cells)"
proof (induction cells rule: induct_list012)
  case (3 a b cells)
  have ab: "whole a" and "list_all whole (b # cells)" using "3.prems" by simp_all
  with 3 have rest: "char_count (join_text ''  '' (b # cells)) =
      sum_list (map char_count (b # cells)) + 2 * length cells"
    and whole: "whole (join_text ''  '' (b # cells))" by simp_all
  have sep: "whole (''  '' @ t)" for t by (simp add: whole_def continuation_def byte_def)
  have two: "char_count ''  '' = 2" by (simp add: char_count_def continuation_def byte_def)
  have "char_count (a @ ''  '' @ join_text ''  '' (b # cells)) =
      char_count a + (2 + char_count (join_text ''  '' (b # cells)))"
    by (simp only: char_count_append [OF sep] char_count_append [OF whole] two)
  moreover have "whole (a @ ''  '' @ join_text ''  '' (b # cells))"
    using ab sep [of "join_text ''  '' (b # cells)"] by (cases a) (simp_all add: whole_def)
  ultimately show ?case using rest by simp
qed (simp_all add: char_count_def whole_def)


lemma print_row_width:
  assumes "length row = length ws" and "list_all whole row"
  shows "\<exists>l. print_row ws row = Inr l \<and> l = join_text ''  '' (map2 render_cell ws row) \<and>
    char_count l = sum_list ws + 2 * (length ws - 1)"
proof -
  have cells: "list_all whole (map2 render_cell ws row) \<and> map char_count (map2 render_cell ws row) = ws"
    using assms by (induction ws row rule: list_induct2') (auto simp: render_cell_width)
  then have "char_count (join_text ''  '' (map2 render_cell ws row)) = sum_list ws + 2 * (length ws - 1)"
    using join_text_count [of "map2 render_cell ws row"] assms(1) by simp
  moreover have "print_row ws row = Inr (join_text ''  '' (map2 render_cell ws row))"
    using assms(1) by (simp add: print_row_def print_cells_map)
  ultimately show ?thesis by blast
qed

text \<open>
  A table with one cell per header in every row is printed, and all its lines have the same
  number of characters.  A cell of at most 72 characters is shown whole and padded; of a
  longer one the column's width less one, and an ellipsis.
\<close>

lemma table_aligned:
  assumes headers: "\<forall>h \<in> set headers. length h \<le> 72 \<and> whole h"
    and rows: "\<forall>r \<in> set rows. length r = length headers \<and> list_all whole r"
  shows "\<exists>ws top rule ls. print_table headers rows = Inr (top # rule # ls) \<and>
    length ws = length headers \<and> length ls = length rows \<and>
    (\<forall>l \<in> set (top # rule # ls). char_count l = sum_list ws + 2 * (length ws - 1)) \<and>
    (\<forall>i < length rows. ls ! i = join_text ''  '' (map2 render_cell ws (rows ! i))) \<and>
    (\<forall>r \<in> set rows. \<forall>j < length r. char_count (r ! j) \<le> 72 \<longrightarrow>
       render_cell (ws ! j) (r ! j) = r ! j @ replicate (ws ! j - char_count (r ! j)) (CHR '' ''))"
proof -
  have "\<forall>r \<in> set rows. length r \<le> length (map length headers)"
    and "\<forall>w \<in> set (map length headers). w \<le> 72" using assms by auto
  from column_widths_total [OF this] obtain ws where ws: "column_widths (map length headers) rows = Inr ws"
    "length ws = length headers"
    "\<forall>r \<in> set rows. \<forall>i < length r. min 72 (char_count (r ! i)) \<le> ws ! i"
    by auto
  from print_row_width [of headers ws] ws(2) headers obtain top where top: "print_row ws headers = Inr top"
    "char_count top = sum_list ws + 2 * (length ws - 1)" by (auto simp: list_all_iff)
  have "list_all whole (map (\<lambda>w. replicate w (CHR ''-'')) ws)"
    by (simp add: list_all_iff char_count_replicate byte_def)
  from print_row_width [of "map (\<lambda>w. replicate w (CHR ''-'')) ws" ws, OF _ this] obtain rule where
    rule: "print_row ws (map (\<lambda>w. replicate w (CHR ''-'')) ws) = Inr rule"
    "char_count rule = sum_list ws + 2 * (length ws - 1)" by auto
  have "\<exists>ls. print_rows ws rows = Inr ls \<and> ls = map (\<lambda>r. join_text ''  '' (map2 render_cell ws r)) rows \<and>
      (\<forall>l \<in> set ls. char_count l = sum_list ws + 2 * (length ws - 1))"
    using rows
  proof (induction rows)
    case (Cons r rs)
    from print_row_width [of r ws] Cons.prems ws(2) have
      "print_row ws r = Inr (join_text ''  '' (map2 render_cell ws r))"
      "char_count (join_text ''  '' (map2 render_cell ws r)) = sum_list ws + 2 * (length ws - 1)" by auto
    with Cons show ?case by auto
  qed simp
  then obtain ls where ls: "print_rows ws rows = Inr ls"
    "ls = map (\<lambda>r. join_text ''  '' (map2 render_cell ws r)) rows"
    "\<forall>l \<in> set ls. char_count l = sum_list ws + 2 * (length ws - 1)" by blast
  have fits: "\<forall>r \<in> set rows. \<forall>j < length r. char_count (r ! j) \<le> 72 \<longrightarrow>
       render_cell (ws ! j) (r ! j) = r ! j @ replicate (ws ! j - char_count (r ! j)) (CHR '' '')"
    using ws(3) by (fastforce intro!: render_cell_fits)
  have "print_table headers rows = Inr (top # rule # ls)"
    by (simp add: print_table_def ws(1) top(1) rule(1) ls(1))
  with ws(2) top(2) rule(2) ls(2,3) fits show ?thesis by fastforce
qed

end
