(* ===== verification/Cli.thy ===== *)
theory Cli
  imports Settings_Json Terminal Claude Steps Paths
begin

text \<open>
  The commands of the command line that talk to the service (\<open>main.rs\<close>): which requests a
  command makes, with which revision, and what it shows of the answers.  The client is an
  argument, a step on a state of its own; the JSON of the providers' data, the text of a
  JSON value and of a time are parameters.
\<close>


section \<open>Clients and output\<close>

type_synonym 's command_client = "string \<Rightarrow> json \<Rightarrow> u64 option \<Rightarrow> (json \<times> u64, 's) step"

datatype shown =
    Shown_Json json
  | Shown_Table "string list" "string list list"
  | Shown_Line string
  | Shown_Text string

definition supports_recovery :: "string \<Rightarrow> bool" where
  "supports_recovery provider \<longleftrightarrow> provider = ''codex''"

text \<open>What reaches the terminal; \<open>pretty\<close> is serde's text of a value.\<close>

fun shown_text :: "(json \<Rightarrow> string) \<Rightarrow> shown list \<Rightarrow> string result" where
  "shown_text pretty [] = Inr []"
| "shown_text pretty (Shown_Json v # s) =
     bindR (shown_text pretty s) (\<lambda>t. Inr (pretty v @ newline # t))"
| "shown_text pretty (Shown_Line l # s) =
     bindR (shown_text pretty s) (\<lambda>t. Inr (l @ newline # t))"
| "shown_text pretty (Shown_Text l # s) = bindR (shown_text pretty s) (\<lambda>t. Inr (l @ t))"
| "shown_text pretty (Shown_Table headers rows # s) =
     bindR (print_table headers rows) (\<lambda>ls.
     bindR (shown_text pretty s) (\<lambda>t. Inr (concat (map (\<lambda>l. l @ [newline]) ls) @ t)))"

record cli_env =
  cl_json_text :: "json \<Rightarrow> string"
  cl_message :: serde_error
  cl_logs_of :: "json \<Rightarrow> session_log list option"
  cl_targets_of :: "json \<Rightarrow> watch_target list option"
  cl_target_json :: "watch_target \<Rightarrow> json"
  cl_time :: "timestamp \<Rightarrow> string"

definition str_or_empty :: "json \<Rightarrow> string" where
  "str_or_empty v = unwrap_or (as_str v) []"

fun emit_value :: "json \<Rightarrow> bool \<Rightarrow> shown list" where
  "emit_value v True = [Shown_Json v]"
| "emit_value (JObject m) False =
     [Shown_Table [''NAME'', ''PATH''] (map (\<lambda>(k, v). [k, str_or_empty v]) m)]"
| "emit_value v False = []"

definition emit_serializable :: "json \<Rightarrow> bool \<Rightarrow> shown list" where
  "emit_serializable v json_output = (if json_output then [Shown_Json v] else [])"


section \<open>Sessions\<close>

datatype session_cli =
    List_Sessions "string option" nat bool
  | Search_Sessions string string "string option" nat bool
  | Show_Session string string bool
  | Session_Logs string string nat "string option" bool
  | Send_Message string string "string result" bool
  | Interrupt_Session string string bool
  | Add_Session string string "string option" bool
  | Remove_Session string string bool

definition search_row :: "json \<Rightarrow> string list" where
  "search_row item =
     [if unwrap_or (as_bool (json_index item ''watched'')) False then ''*'' else [],
      str_or_empty (json_index (json_index item ''session'') ''id''),
      str_or_empty (json_index (json_index item ''session'') ''state''),
      str_or_empty (json_index (json_index item ''session'') ''title'')]"

definition first_session :: "json \<Rightarrow> json option" where
  "first_session v =
     Option.bind (as_array (json_index v ''items'')) (\<lambda>items.
       case items of [] \<Rightarrow> None | item # _ \<Rightarrow> json_get ''session'' item)"

definition log_row :: "cli_env \<Rightarrow> session_log \<Rightarrow> string list" where
  "log_row env l =
     [case sl_timestamp l of None \<Rightarrow> ''-'' | Some t \<Rightarrow> cl_time env t, sl_source l, sl_kind l,
      unwrap_or (sl_condition l) ''-'', sl_message l]"

definition print_logs :: "cli_env \<Rightarrow> session_log list \<Rightarrow> shown list" where
  "print_logs env logs =
     [Shown_Table [''TIME'', ''SOURCE'', ''EVENT'', ''CONDITION'', ''MESSAGE''] (map (log_row env) logs)]"

definition target_row :: "cli_env \<Rightarrow> watch_target \<Rightarrow> string list" where
  "target_row env t =
     [wt_provider t, wt_session_id t,
      if supports_recovery (wt_provider t) then ''recovery'' else ''observe'',
      case wt_last_activity_at t of None \<Rightarrow> [] | Some a \<Rightarrow> cl_time env a,
      unwrap_or (if wt_label t \<noteq> None then wt_label t else wt_title t) []]"

definition target_value :: "cli_env \<Rightarrow> watch_target \<Rightarrow> json" where
  "target_value env t =
     with_entry ''recovery_supported'' (JBool (supports_recovery (wt_provider t))) (cl_target_json env t)"

text \<open>\<open>"{}:{}"\<close> with two JSON values shows them as JSON.\<close>

definition receipt_line :: "cli_env \<Rightarrow> string \<Rightarrow> json \<Rightarrow> string" where
  "receipt_line env said v =
     said @ cl_json_text env (json_index v ''provider'') @ '':'' @
     cl_json_text env (json_index v ''session_id'')"

definition add_session_command ::
    "'s command_client \<Rightarrow> string \<Rightarrow> string \<Rightarrow> string option \<Rightarrow> bool \<Rightarrow> (shown list, 's) step" where
  "add_session_command client session_id provider label no_validate =
     bindS (client ''snapshot.get'' (json_object []) None) (\<lambda>(_, revision).
     bindS (client ''sessions.add''
       (json_object [(''provider'', JString provider), (''session_id'', JString session_id),
         (''label'', json_opt JString label), (''validate'', JBool (\<not> no_validate))])
       (Some revision)) (\<lambda>(v, _).
       returnS [Shown_Line (if as_bool (json_index v ''added'') = Some True then ''Watching''
         else ''Already watching'')]))"

definition remove_session_command ::
    "'s command_client \<Rightarrow> string \<Rightarrow> string \<Rightarrow> bool \<Rightarrow> (shown list, 's) step" where
  "remove_session_command client session_id provider json_output =
     bindS (client ''snapshot.get'' (json_object []) None) (\<lambda>(_, revision).
     bindS (client ''sessions.remove''
       (json_object [(''provider'', JString provider), (''session_id'', JString session_id)])
       (Some revision)) (\<lambda>(v, _).
       returnS (if json_output then emit_value v True
         else [Shown_Line (if as_bool (json_index v ''removed'') = Some True then ''Removed''
           else ''Excluded from automatic discovery'')])))"

definition session_command ::
    "cli_env \<Rightarrow> 's command_client \<Rightarrow> session_cli \<Rightarrow> (shown list, 's) step" where
  "session_command env client command =
     (case command of
        Search_Sessions query provider cursor limit json_output \<Rightarrow>
          bindS (client ''sessions.search''
            (json_object [(''provider'', JString provider), (''limit'', json_nat limit),
              (''query'', JString query), (''cursor'', json_opt JString cursor)]) None) (\<lambda>(v, _).
            returnS (if json_output then emit_value v True
              else [Shown_Table [''WATCH'', ''SESSION'', ''STATE'', ''TITLE'']
                (map search_row (unwrap_or (as_array (json_index v ''items'')) []))]))
      | Show_Session session_id provider json_output \<Rightarrow>
          bindS (client ''sessions.search''
            (json_object [(''provider'', JString provider), (''limit'', json_nat 1),
              (''query'', JString session_id)]) None) (\<lambda>(v, _).
          bindS (liftS (ok_or (Root (Message ''session not found'')) (first_session v))) (\<lambda>s.
            returnS (emit_value s json_output)))
      | Session_Logs session_id provider limit category json_output \<Rightarrow>
          bindS (client ''sessions.logs''
            (json_object [(''provider'', JString provider), (''session_id'', JString session_id),
              (''limit'', json_nat limit), (''category'', json_opt JString category)]) None) (\<lambda>(v, _).
            if json_output then returnS (emit_value v True)
            else bindS (liftS (decode (cl_message env) ''Vec<SessionLog>'' (cl_logs_of env) v)) (\<lambda>logs.
              returnS (print_logs env logs)))
      | Send_Message session_id provider message json_output \<Rightarrow>
          bindS (liftS message) (\<lambda>message.
          bindS (client ''sessions.send''
            (json_object [(''provider'', JString provider), (''session_id'', JString session_id),
              (''message'', JString message)]) None) (\<lambda>(v, _).
            returnS (if json_output then emit_value v True
              else [Shown_Line (receipt_line env ''Sent message to '' v)])))
      | Interrupt_Session session_id provider json_output \<Rightarrow>
          bindS (client ''sessions.interrupt''
            (json_object [(''provider'', JString provider), (''session_id'', JString session_id)]) None)
            (\<lambda>(v, _).
              returnS (if json_output then emit_value v True
                else [Shown_Line (receipt_line env ''Interrupted '' v)]))
      | List_Sessions provider limit json_output \<Rightarrow>
          bindS (client ''sessions.list''
            (json_object [(''provider'', json_opt JString provider), (''limit'', json_nat limit)]) None)
            (\<lambda>(v, _).
          bindS (liftS (decode (cl_message env) ''Vec<WatchTarget>'' (cl_targets_of env) v)) (\<lambda>targets.
            returnS (if json_output then emit_value (JArray (map (target_value env) targets)) True
              else [Shown_Table [''PROVIDER'', ''SESSION'', ''MODE'', ''LAST ACTIVITY'', ''LABEL'']
                (map (target_row env) targets)])))
      | Add_Session session_id provider label no_validate \<Rightarrow>
          add_session_command client session_id provider label no_validate
      | Remove_Session session_id provider json_output \<Rightarrow>
          remove_session_command client session_id provider json_output)"


section \<open>Dialog rules\<close>

datatype dialog_cli =
    List_Rules bool
  | Set_Rule string string "string option" "string option" string
  | Enable_Rule string
  | Disable_Rule string
  | Remove_Rule string

definition switch_rule :: "bool \<Rightarrow> string \<Rightarrow> dialog_settings \<Rightarrow> dialog_settings result" where
  "switch_rule on name ds =
     (case hm_get (ds_rules ds) name of
        None \<Rightarrow> bail ''dialog rule not found''
      | Some r \<Rightarrow> Inr (ds\<lparr>ds_rules := bt_insert name (r\<lparr>dr_enabled := on\<rparr>) (ds_rules ds)\<rparr>))"

text \<open>The change a command makes to the rules it has read.\<close>

definition edit_rules :: "dialog_cli \<Rightarrow> dialog_settings \<Rightarrow> dialog_settings result" where
  "edit_rules command ds =
     (case command of
        List_Rules json_output \<Rightarrow> Inr ds
      | Set_Rule name app title match_text button \<Rightarrow>
          Inr (ds\<lparr>ds_rules := bt_insert name
            \<lparr>dr_enabled = True, dr_app = Some app, dr_title = title, dr_text = match_text,
             dr_button = Some button\<rparr> (ds_rules ds)\<rparr>)
      | Enable_Rule name \<Rightarrow>
          if name = directory_rule
          then Inr (ds\<lparr>ds_rules := bt_insert name
            ((unwrap_or (hm_get (ds_rules ds) name) default_dialog_rule)\<lparr>dr_enabled := True\<rparr>)
            (ds_rules ds)\<rparr>)
          else switch_rule True name ds
      | Disable_Rule name \<Rightarrow> switch_rule False name ds
      | Remove_Rule name \<Rightarrow>
          (case hm_get (ds_rules ds) name of
             None \<Rightarrow> bail ''dialog rule not found''
           | Some r \<Rightarrow> Inr (ds\<lparr>ds_rules := hm_remove name (ds_rules ds)\<rparr>)))"

definition rule_row :: "string \<times> dialog_rule \<Rightarrow> string list" where
  "rule_row = (\<lambda>(name, r).
     [name, if dr_enabled r then ''enabled'' else ''disabled'',
      unwrap_or (dr_app r) ''system directory consent'', unwrap_or (dr_title r) ''-'',
      unwrap_or (dr_text r) ''-'', unwrap_or (dr_button r) ''Allow / OK (localized)''])"

definition dialog_command ::
    "cli_env \<Rightarrow> 's command_client \<Rightarrow> dialog_cli \<Rightarrow> (shown list, 's) step" where
  "dialog_command env client command =
     bindS (client ''config.get'' (json_object []) None) (\<lambda>(v, revision).
     bindS (liftS (with_context
         ''daemon does not support dialog rules; upgrade watchcatd together with the CLI''
         (decode (cl_message env) ''DialogSettings'' dialog_settings_of (json_index v ''dialogs'')))) (\<lambda>ds.
     case command of
       List_Rules json_output \<Rightarrow>
         returnS (if json_output then emit_serializable (dialog_settings_json ds) True
           else [Shown_Table [''RULE'', ''STATE'', ''APP'', ''TITLE'', ''TEXT'', ''BUTTON'']
             (map rule_row (ds_rules ds))])
     | _ \<Rightarrow>
         bindS (liftS (edit_rules command ds)) (\<lambda>ds'.
         bindS (liftS (validate_dialogs ds')) (\<lambda>_.
         bindS (client ''config.dialogs.set'' (dialog_settings_json ds') (Some revision)) (\<lambda>_.
           returnS [Shown_Line ''Updated dialog rules; applied to the running service.''])))))"

end
