(* ===== verification/Client.thy ===== *)
theory Client
  imports Serving Reconcile Cli
begin

text \<open>
  The client (\<open>WatchcatClient::request\<close> of \<open>client.rs\<close>) against the service: one exchange
  goes through both ends' frames and JSON, after whatever other clients, the
  reconciliation task and hand edits of the configuration did meanwhile.  serde_json's
  texts are parameters that read back what they wrote.
\<close>


section \<open>What happens meanwhile\<close>

datatype 'b activity =
    Other_Request "'b request_script" rpc_request
  | Plan_Taken "'b prepare_io"
  | Pass_Committed "'b commit_io" reconcile_plan reconcile_outcome engine
  | Config_Edited "'b option" "nat option"

definition activity_run :: "'b server_env \<Rightarrow> 'b service \<Rightarrow> 'b activity \<Rightarrow> 'b service" where
  "activity_run env sv a =
     (case a of
        Other_Request scr request \<Rightarrow> fst (snd (serve_request env scr request sv))
      | Plan_Taken io \<Rightarrow>
          sv\<lparr>sv_daemon := snd (prepare_reconcile (sx_daemon env) io (sv_daemon sv))\<rparr>
      | Pass_Committed io plan outcome en \<Rightarrow>
          sv\<lparr>sv_daemon := fst (snd (commit_reconcile (sx_daemon env) io plan outcome (sv_daemon sv, en)))\<rparr>
      | Config_Edited f stamp \<Rightarrow>
          sv\<lparr>sv_daemon := (sv_daemon sv)\<lparr>dm_config := f, dm_config_stamp := stamp\<rparr>\<rparr>)"

definition meanwhile :: "'b server_env \<Rightarrow> 'b activity list \<Rightarrow> 'b service \<Rightarrow> 'b service" where
  "meanwhile env as sv = foldl (activity_run env) sv as"


section \<open>One exchange\<close>

record wire_serde =
  ws_request :: "rpc_request \<Rightarrow> string"
  ws_response :: "rpc_response \<Rightarrow> string"
  ws_parse :: "string \<Rightarrow> string + json"
  ws_message :: serde_error
  ws_eof :: string

definition wire_ok :: "wire_serde \<Rightarrow> bool" where
  "wire_ok ws \<longleftrightarrow>
     (\<forall>r. ws_parse ws (ws_request ws r) = Inr (request_json r)) \<and>
     (\<forall>r. ws_parse ws (ws_response ws r) = Inr (response_json r))"

datatype connecting = Connected | Connect_Late | Connect_Refused error

text \<open>
  \<open>ex_before\<close> happens before the connection is made; \<open>ex_id\<close> is the fresh UUID; a write can
  fail after some bytes; \<open>ex_dropped\<close> says that the service gave up waiting for the request
  and \<open>ex_late\<close> that the client gave up waiting for the answer.
\<close>

record 'b exchange =
  ex_before :: "'b activity list"
  ex_connect :: connecting
  ex_id :: string
  ex_write :: "(nat \<times> string) option"
  ex_dropped :: bool
  ex_script :: "'b request_script"
  ex_late :: bool

definition elapsed :: error where
  "elapsed = Root (Message ''deadline has elapsed'')"

definition answer_bytes :: "wire_serde \<Rightarrow> reply \<Rightarrow> string" where
  "answer_bytes ws reply =
     (case reply of
        NoReply e \<Rightarrow> []
      | Reply r \<Rightarrow> snd (write_frame None (encode_response (ws_response ws) r)))"

definition serve_stream ::
    "'b server_env \<Rightarrow> wire_serde \<Rightarrow> 'b request_script \<Rightarrow> bool \<Rightarrow> string \<Rightarrow> 'b service \<Rightarrow>
     string \<times> 'b service" where
  "serve_stream env ws scr late stream sv =
     (case read_request (ws_parse ws) (ws_message ws) late (ws_eof ws) stream of
        Inl e \<Rightarrow> ([], sv)
      | Inr request \<Rightarrow>
          (case serve_request env scr request sv of
             (reply, sv', n) \<Rightarrow> (answer_bytes ws reply, sv')))"

definition read_answer :: "wire_serde \<Rightarrow> rpc_request \<Rightarrow> string \<Rightarrow> (json \<times> u64) result" where
  "read_answer ws request stream =
     bindR (fst (read_frame (ws_eof ws) stream)) (\<lambda>bytes.
       case ws_parse ws bytes of
         Inl m \<Rightarrow> bail m
       | Inr v \<Rightarrow>
           bindR (decode (ws_message ws) ''RpcResponse'' response_of v) (accept_response request))"

definition rpc_exchange ::
    "'b server_env \<Rightarrow> wire_serde \<Rightarrow> string \<Rightarrow> 'b exchange \<Rightarrow> string \<Rightarrow> json \<Rightarrow> u64 option \<Rightarrow>
     'b service \<Rightarrow> (json \<times> u64) result \<times> 'b service" where
  "rpc_exchange env ws socket x m params expected sv =
     (let sv0 = meanwhile env (ex_before x) sv
      in case ex_connect x of
           Connect_Late \<Rightarrow> (Inl (Context ''timed out connecting to Watchcat service'' elapsed), sv0)
         | Connect_Refused e \<Rightarrow>
             (Inl (Context (''cannot connect to Watchcat service at '' @ socket @
                ''; start it with `watchcat service start` or `watchcatd`'') e), sv0)
         | Connected \<Rightarrow>
             (let request = \<lparr>rq_version = protocol_version, rq_id = ex_id x, rq_method = m,
                    rq_params = params, rq_expected_revision = expected\<rparr>;
                  (w, stream) = write_frame (ex_write x) (ws_request ws request);
                  (answer, sv1) = serve_stream env ws (ex_script x) (ex_dropped x) stream sv0
              in (if ex_late x
                  then Inl (Context ''Watchcat service did not respond within 35 seconds'' elapsed)
                  else bindR w (\<lambda>_. read_answer ws request answer), sv1)))"

text \<open>A client for a command: its \<open>n\<close>-th request is the \<open>n\<close>-th exchange.\<close>

definition service_client ::
    "'b server_env \<Rightarrow> wire_serde \<Rightarrow> string \<Rightarrow> (nat \<Rightarrow> 'b exchange) \<Rightarrow> ('b service \<times> nat) command_client" where
  "service_client env ws socket xs m params expected = (\<lambda>(sv, n).
     case rpc_exchange env ws socket (xs n) m params expected sv of (r, sv') \<Rightarrow> (r, (sv', Suc n)))"


section \<open>What an exchange does\<close>

text \<open>The request the service got, if any, is the one the client made.\<close>

lemma write_frame_transmit:
  "write_frame io p = (w, s) \<Longrightarrow> s = [] \<and> w \<noteq> Inr () \<or>
     length p \<le> max_frame_bytes \<and> (\<exists>k. s = take k (be_u32 (length p) @ p)) \<and>
     (w = Inr () \<longrightarrow> s = be_u32 (length p) @ p)"
proof (cases "length p \<le> max_frame_bytes")
  case True
  assume "write_frame io p = (w, s)"
  with True have t: "transmit io (be_u32 (length p) @ p) = (w, s)" by (simp add: write_frame_fits)
  have "\<exists>k. s = take k (be_u32 (length p) @ p)"
    using t
    by (cases "(io, be_u32 (length p) @ p)" rule: transmit.cases)
      (auto intro: exI [of _ "length (be_u32 (length p) @ p)"])
  moreover have "w = Inr () \<longrightarrow> s = be_u32 (length p) @ p"
    using t by (cases "(io, be_u32 (length p) @ p)" rule: transmit.cases) auto
  ultimately show ?thesis using True by blast
qed (auto simp: write_frame_def)

lemma read_written_prefix:
  assumes "read_frame_with_limit eof max_bytes (take k (be_u32 (length p) @ p)) = (Inr q, rest)"
    and "length p < 2 ^ 32"
  shows "q = p \<and> length p \<le> max_bytes"
proof (cases "length p \<le> max_bytes")
  case True
  show ?thesis
  proof (cases "k < 4 + length p")
    case True': True
    with read_torn_frame [OF True assms(2) True', of eof] assms(1) show ?thesis by simp
  next
    case False
    then have "take k (be_u32 (length p) @ p) = be_u32 (length p) @ p"
      using rpc_header.header_length [of "length p"] by simp
    with assms read_written_frame [OF True assms(2), of eof "[]"] True show ?thesis by simp
  qed
next
  case False
  show ?thesis
  proof (cases "k < 4")
    case True
    with assms(1) show ?thesis
      by (simp add: read_frame_with_limit_def rpc_header.read_header_torn del: take_append)
  next
    case k: False
    then have "take k (be_u32 (length p) @ p) = be_u32 (length p) @ take (k - 4) p"
      by (simp add: rpc_header.torn_after_header del: take_append)
    with assms False show ?thesis
      using read_oversized_frame [of max_bytes p eof "take (k - 4) p"] by simp
  qed
qed

lemma read_request_Inr:
  assumes "read_request parse msg late eof stream = Inr rq"
  shows "\<exists>bytes v rest. read_frame_with_limit eof max_rpc_request_bytes stream = (Inr bytes, rest) \<and>
    parse bytes = Inr v \<and> request_of v = Some rq"
proof -
  from assms obtain bytes where bytes: "fst (read_frame_with_limit eof max_rpc_request_bytes stream) = Inr bytes"
    and "(case parse bytes of Inl m \<Rightarrow> bail m | Inr v \<Rightarrow> decode msg ''RpcRequest'' request_of v) = Inr rq"
    by (auto simp: read_request_def bindR_Inr_iff split: if_splits)
  then obtain v where "parse bytes = Inr v" and "request_of v = Some rq" by (auto split: sum.splits)
  with bytes show ?thesis by (metis prod.collapse)
qed

lemma serve_stream_cases:
  assumes "wire_ok ws" and "write_frame io (ws_request ws request) = (w, stream)"
    and "serve_stream env ws scr late stream sv = (answer, sv')"
  obtains (unread) "answer = []" and "sv' = sv"
    | (served) reply n where "serve_request env scr request sv = (reply, sv', n)"
      and "answer = answer_bytes ws reply"
proof (cases "read_request (ws_parse ws) (ws_message ws) late (ws_eof ws) stream")
  case (Inl e)
  with assms(3) unread show thesis by (simp add: serve_stream_def)
next
  case (Inr rq)
  from read_request_Inr [OF Inr] obtain bytes v rest where
    read: "read_frame_with_limit (ws_eof ws) max_rpc_request_bytes stream = (Inr bytes, rest)"
    and v: "ws_parse ws bytes = Inr v" "request_of v = Some rq" by blast
  have "stream \<noteq> []"
    using read by (auto simp: read_frame_with_limit_def read_exact_def)
  with write_frame_transmit [OF assms(2)] obtain k where
    fits: "length (ws_request ws request) \<le> max_frame_bytes"
    and s: "stream = take k (be_u32 (length (ws_request ws request)) @ ws_request ws request)" by blast
  have "length (ws_request ws request) < 2 ^ 32" using fits by (simp add: max_frame_bytes_def)
  with read_written_prefix read s have "bytes = ws_request ws request" by blast
  with v assms(1) have "rq = request" by (auto simp: wire_ok_def request_of_json)
  with Inr assms(3) served show thesis
    by (auto simp: serve_stream_def split: prod.splits)
qed

lemma read_answer_Inr:
  assumes "wire_ok ws" and "read_answer ws request (answer_bytes ws reply) = Inr (v, at)"
  shows "\<exists>r. reply = Reply r \<and> rsp_error r = None \<and>
    v = unwrap_or (rsp_result r) JNull \<and> at = rsp_revision r"
proof (cases reply)
  case (NoReply e)
  with assms(2) show ?thesis
    by (auto simp: read_answer_def answer_bytes_def read_frame_def read_frame_with_limit_def
        read_exact_def bindR_Inr_iff)
next
  case (Reply r)
  define sent where "sent = (if length (ws_response ws r) \<le> max_frame_bytes then r else too_large r)"
  let ?bytes = "ws_response ws sent"
  have bytes: "encode_response (ws_response ws) r = ?bytes" by (simp add: encode_response_def sent_def)
  obtain b where b: "fst (read_frame (ws_eof ws) (answer_bytes ws reply)) = Inr b"
    using assms(2) by (auto simp: read_answer_def bindR_Inr_iff)
  obtain w stream where ws: "write_frame None ?bytes = (w, stream)" by (metis surj_pair)
  then have stream: "answer_bytes ws reply = stream" by (simp add: answer_bytes_def Reply bytes)
  have "stream \<noteq> []" using b stream
    by (auto simp: read_frame_def read_frame_with_limit_def read_exact_def)
  with write_frame_transmit [OF ws] obtain k where fits: "length ?bytes \<le> max_frame_bytes"
    and k: "stream = take k (be_u32 (length ?bytes) @ ?bytes)" by blast
  from b stream k have "\<exists>rest. read_frame_with_limit (ws_eof ws) max_frame_bytes
      (take k (be_u32 (length ?bytes) @ ?bytes)) = (Inr b, rest)"
    by (metis prod.collapse read_frame_def)
  moreover have "length ?bytes < 2 ^ 32" using fits by (simp add: max_frame_bytes_def)
  ultimately have "b = ?bytes" using read_written_prefix by blast
  then have parsed: "ws_parse ws b = Inr (response_json sent)"
    using assms(1) by (simp only: wire_ok_def)
  obtain r' where r': "response_of (response_json sent) = Some r'"
    and acc: "accept_response request r' = Inr (v, at)"
    using assms(2) b parsed by (auto simp: read_answer_def bindR_Inr_iff)
  from r' have r'': "r' = (if rsp_result sent = Some JNull then sent\<lparr>rsp_result := None\<rparr> else sent)"
    by (simp only: response_of_json option.inject)
  with acc have noerr: "rsp_error sent = None"
    by (cases "rsp_result sent = Some JNull") (simp_all add: accept_response_Inr)
  then have "sent = r"
    by (auto simp: sent_def too_large_def failure_response_def split: if_splits)
  with acc r'' noerr show ?thesis
    by (auto simp: accept_response_Inr Reply split: option.splits if_splits)
qed

lemma rpc_exchange_cases:
  assumes "wire_ok ws" and "rpc_exchange env ws socket x m params expected sv = (r, sv')"
  defines "request \<equiv> \<lparr>rq_version = protocol_version, rq_id = ex_id x, rq_method = m,
    rq_params = params, rq_expected_revision = expected\<rparr>"
  obtains (unserved) e where "r = Inl e" and "sv' = meanwhile env (ex_before x) sv"
    | (failed) e reply n where "r = Inl e"
      and "serve_request env (ex_script x) request (meanwhile env (ex_before x) sv) = (reply, sv', n)"
    | (answered) resp n where "r = Inr (unwrap_or (rsp_result resp) JNull, rsp_revision resp)"
      and "rsp_error resp = None"
      and "serve_request env (ex_script x) request (meanwhile env (ex_before x) sv) = (Reply resp, sv', n)"
proof (cases "ex_connect x = Connected")
  case False
  with assms(2) unserved show thesis
    by (cases "ex_connect x") (auto simp: rpc_exchange_def Let_def)
next
  case True
  obtain w stream where w: "write_frame (ex_write x) (ws_request ws request) = (w, stream)"
    by (metis surj_pair)
  obtain answer sv1 where s: "serve_stream env ws (ex_script x) (ex_dropped x) stream
      (meanwhile env (ex_before x) sv) = (answer, sv1)" by (metis surj_pair)
  have run: "sv' = sv1" "r = (if ex_late x
      then Inl (Context ''Watchcat service did not respond within 35 seconds'' elapsed)
      else bindR w (\<lambda>_. read_answer ws request answer))"
    using assms(2) True w [unfolded request_def] s
    by (auto simp: rpc_exchange_def Let_def request_def)
  from assms(1) w s show thesis
  proof (cases rule: serve_stream_cases)
    case unread
    have "\<exists>e. r = Inl e"
      using run(2) unread
      by (cases w) (auto simp: read_answer_def read_frame_def read_frame_with_limit_def read_exact_def)
    with unserved unread run(1) show thesis by blast
  next
    case (served reply n)
    show thesis
    proof (cases r)
      case (Inl e)
      with failed served(1) run(1) show thesis by blast
    next
      case (Inr a)
      obtain v at where a: "a = (v, at)" by (cases a)
      with Inr run(2) served(2) have "read_answer ws request (answer_bytes ws reply) = Inr (v, at)"
        by (auto simp: bindR_Inr_iff split: if_splits)
      from read_answer_Inr [OF assms(1) this] obtain resp where "reply = Reply resp"
        "rsp_error resp = None" "v = unwrap_or (rsp_result resp) JNull" "at = rsp_revision resp" by blast
      with answered served(1) run(1) Inr a show thesis by blast
    qed
  qed
qed

text \<open>
  An exchange that nothing disturbs returns the answer of the service: the request fits
  into the service's limit and the response into the client's.
\<close>

lemma read_request_written:
  assumes "wire_ok ws" and "length (ws_request ws request) \<le> max_rpc_request_bytes"
  shows "read_request (ws_parse ws) msg False eof
    (be_u32 (length (ws_request ws request)) @ ws_request ws request) = Inr request"
proof -
  let ?p = "ws_request ws request"
  have "length ?p < 2 ^ 32" using assms(2) by (simp add: max_rpc_request_bytes_def)
  from read_written_frame [OF assms(2) this, of eof "[]"] assms(1) show ?thesis
    by (simp add: read_request_def wire_ok_def decode_def request_of_json)
qed

lemma read_answer_written:
  assumes "wire_ok ws" and "length (ws_response ws r) \<le> max_frame_bytes"
    and "rsp_version r = protocol_version" and "rsp_id r = rq_id request" and "rsp_error r = None"
  shows "read_answer ws request (answer_bytes ws (Reply r)) =
    Inr (unwrap_or (rsp_result r) JNull, rsp_revision r)"
proof -
  let ?p = "ws_response ws r"
  have "length ?p < 2 ^ 32" using assms(2) by (simp add: max_frame_bytes_def)
  from read_written_frame [OF assms(2) this, of "ws_eof ws" "[]"]
  have "fst (read_frame (ws_eof ws) (be_u32 (length ?p) @ ?p)) = Inr ?p" by (simp add: read_frame_def)
  moreover have "answer_bytes ws (Reply r) = be_u32 (length ?p) @ ?p"
    using assms(2) by (simp add: answer_bytes_def encode_response_def write_frame_fits)
  moreover have "ws_parse ws ?p = Inr (response_json r)" using assms(1) by (simp add: wire_ok_def)
  ultimately show ?thesis
    using assms(3-5)
    by (cases "rsp_result r = Some JNull")
      (auto simp: read_answer_def decode_def response_of_json accept_response_def
        validate_response_version_def split: option.splits)
qed

lemma undisturbed_exchange:
  assumes "wire_ok ws" and "ex_connect x = Connected" and "ex_write x = None"
    and "\<not> ex_dropped x" and "\<not> ex_late x"
    and "request = \<lparr>rq_version = protocol_version, rq_id = ex_id x, rq_method = m,
      rq_params = params, rq_expected_revision = expected\<rparr>"
    and "length (ws_request ws request) \<le> max_rpc_request_bytes"
    and "serve_request env (ex_script x) request (meanwhile env (ex_before x) sv) = (Reply r, sv', n)"
    and "length (ws_response ws r) \<le> max_frame_bytes"
    and "rsp_version r = protocol_version" and "rsp_id r = ex_id x" and "rsp_error r = None"
  shows "rpc_exchange env ws socket x m params expected sv =
    (Inr (unwrap_or (rsp_result r) JNull, rsp_revision r), sv')"
proof -
  let ?p = "ws_request ws request"
  have "length ?p \<le> max_frame_bytes"
    using assms(7) by (simp add: max_rpc_request_bytes_def max_frame_bytes_def)
  then have "write_frame None ?p = (Inr (), be_u32 (length ?p) @ ?p)" by (simp add: write_frame_fits)
  moreover have "serve_stream env ws (ex_script x) False (be_u32 (length ?p) @ ?p)
      (meanwhile env (ex_before x) sv) = (answer_bytes ws (Reply r), sv')"
    using assms(8) read_request_written [OF assms(1,7)] by (simp add: serve_stream_def)
  moreover have "read_answer ws request (answer_bytes ws (Reply r)) =
      Inr (unwrap_or (rsp_result r) JNull, rsp_revision r)"
    using assms(1,6,9-12) by (intro read_answer_written) simp_all
  ultimately show ?thesis
    using assms(2-6) by (simp add: rpc_exchange_def Let_def)
qed

end
