(* ===== verification/Cli_Config.thy ===== *)
theory Cli_Config
  imports Cli
begin

text \<open>
  The commands of the command line for policies and the configuration, and the texts of
  \<open>service status\<close> and \<open>service logs\<close> (\<open>main.rs\<close>).  TOML's text of the settings, serde's text
  of a JSON value and the local time of an event are parameters; paths are Unicode texts.
\<close>


section \<open>Policies\<close>

datatype policy_cli =
    List_Policies "string option" bool
  | Show_Policy string bool
  | Set_Policy string policy_override
  | Reset_Policies "string option" bool

fun vec_of :: "(json \<Rightarrow> 'a option) \<Rightarrow> json \<Rightarrow> 'a list option" where
  "vec_of f (JArray xs) = those (map f xs)"
| "vec_of f _ = None"

definition require_condition :: "string \<Rightarrow> unit result" where
  "require_condition condition =
     (if is_known condition then Inr ()
      else bail (''unknown policy condition: '' @ condition @ ''; run `watchcat config policy list`''))"

text \<open>The names that \<open>Debug\<close> gives the variants, in lower case.\<close>

definition action_text :: "policy_action \<Rightarrow> string" where
  "action_text a = to_ascii_lowercase (case a of Retry \<Rightarrow> ''Retry'' | Skip \<Rightarrow> ''Skip'')"

definition backoff_text :: "backoff_kind option \<Rightarrow> string" where
  "backoff_text b =
     (case b of
        None \<Rightarrow> ''-''
      | Some k \<Rightarrow> to_ascii_lowercase (case k of Fixed \<Rightarrow> ''Fixed'' | Exponential \<Rightarrow> ''Exponential''))"

definition policy_row :: "resolved_policy \<Rightarrow> string list" where
  "policy_row p =
     [rp_condition p, action_text (rp_action p), backoff_text (rp_backoff p),
      if rp_action p = Retry then show_nat (rp_max_attempts p) else ''-'',
      if rp_customized p then ''yes'' else ''no'']"

definition print_policies :: "resolved_policy list \<Rightarrow> shown list" where
  "print_policies ps =
     [Shown_Table [''CONDITION'', ''ACTION'', ''BACKOFF'', ''MAX'', ''CUSTOM''] (map policy_row ps)]"

definition print_policy_details :: "resolved_policy \<Rightarrow> shown list" where
  "print_policy_details p =
     [Shown_Table [''FIELD'', ''VALUE'']
        [[''condition'', rp_condition p],
         [''description'', rp_description p],
         [''action'', action_text (rp_action p)],
         [''backoff'', backoff_text (rp_backoff p)],
         [''initial delay'', show_nat (unat (rp_initial_delay_seconds p)) @ ''s''],
         [''max delay'', show_nat (unat (rp_max_delay_seconds p)) @ ''s''],
         [''max attempts'', show_nat (rp_max_attempts p)],
         [''prompt'', if rp_action p = Retry then rp_prompt p else ''-''],
         [''customized'', if rp_customized p then ''true'' else ''false'']]]"

definition in_category :: "string option \<Rightarrow> resolved_policy \<Rightarrow> bool" where
  "in_category category p =
     (case category of None \<Rightarrow> True
      | Some c \<Rightarrow> takeWhile (\<lambda>x. x \<noteq> CHR ''.'') (rp_condition p) = c)"

definition fetch_policies ::
    "cli_env \<Rightarrow> 's command_client \<Rightarrow> (resolved_policy list, 's) step" where
  "fetch_policies env client =
     bindS (client ''config.policies.list'' (json_object []) None) (\<lambda>(v, _).
       liftS (decode (cl_message env) ''Vec<ResolvedPolicy>'' (vec_of resolved_policy_of) v))"

definition no_option :: "policy_override \<Rightarrow> bool" where
  "no_option p \<longleftrightarrow>
     po_action p = None \<and> po_backoff p = None \<and> po_initial_delay_seconds p = None \<and>
     po_max_delay_seconds p = None \<and> po_max_attempts p = None \<and> po_prompt p = None"

definition policy_command ::
    "cli_env \<Rightarrow> 's command_client \<Rightarrow> policy_cli \<Rightarrow> (shown list, 's) step" where
  "policy_command env client command =
     bindS (client ''snapshot.get'' (json_object []) None) (\<lambda>(_, revision).
     case command of
       List_Policies category json_output \<Rightarrow>
         bindS (fetch_policies env client) (\<lambda>ps.
           (let kept = filter (in_category category) ps
            in returnS (if json_output
              then emit_serializable (JArray (map resolved_policy_json kept)) True
              else print_policies kept)))
     | Show_Policy condition json_output \<Rightarrow>
         bindS (liftS (require_condition condition)) (\<lambda>_.
         bindS (fetch_policies env client) (\<lambda>ps.
         bindS (liftS (ok_or (Root (Message ''policy not found''))
             (find (\<lambda>p. rp_condition p = condition) ps))) (\<lambda>p.
           returnS (if json_output then emit_serializable (resolved_policy_json p) True
             else print_policy_details p))))
     | Set_Policy condition p \<Rightarrow>
         bindS (liftS (require_condition condition)) (\<lambda>_.
         if no_option p then liftS (bail ''policy set requires at least one option'')
         else bindS (client ''config.policies.set''
             (json_object [(''condition'', JString condition), (''policy'', policy_override_json p)])
             (Some revision)) (\<lambda>_.
           returnS [Shown_Line (''Updated '' @ condition)]))
     | Reset_Policies condition all \<Rightarrow>
         bindS (liftS (if all then Inr (json_object [])
           else bindR (ok_or (Root (Message ''provide CONDITION or use --all'')) condition) (\<lambda>c.
             Inr (json_object [(''condition'', JString c)])))) (\<lambda>params.
         bindS (client ''config.policies.reset'' params (Some revision)) (\<lambda>_.
           returnS [Shown_Line ''Reset policy configuration''])))"


section \<open>The configuration\<close>

definition display_settings :: "settings result \<Rightarrow> (settings \<Rightarrow> string result) \<Rightarrow> settings \<Rightarrow> string result" where
  "display_settings defaults toml s =
     bindR defaults (\<lambda>d.
     bindR (toml s) (\<lambda>t.
       Inr ((if st_engine s = st_engine d \<and> st_lifecycle s = st_lifecycle d \<and>
               codex_enabled (ps_codex (st_providers s)) = codex_enabled (ps_codex (st_providers d)) \<and>
               codex_command (ps_codex (st_providers s)) = codex_command (ps_codex (st_providers d))
             then ''# Effective Watchcat configuration'' @ [newline] else []) @ t)))"

definition path_value :: "paths \<Rightarrow> json" where
  "path_value p = json_object
     [(''config'', JString (pa_config_file p)), (''watchlist'', JString (pa_watchlist_file p)),
      (''state'', JString (pa_state_file p)), (''control'', JString (pa_control_state_file p)),
      (''events'', JString (pa_event_log_file p)),
      (''retry_operations'', JString (pa_retry_operations_file p)),
      (''lock'', JString (pa_lock_file p))]"

datatype config_cli =
    Init_Config bool
  | Show_Config bool
  | Config_Paths bool
  | Validate_Config bool

definition config_command ::
    "settings result \<Rightarrow> (settings \<Rightarrow> string result) \<Rightarrow> settings \<Rightarrow> paths \<Rightarrow> config_cli \<Rightarrow>
     shown list result" where
  "config_command defaults toml s p command =
     (case command of
        Show_Config json_output \<Rightarrow>
          if json_output then Inr (emit_serializable (settings_json s) True)
          else bindR (display_settings defaults toml s) (\<lambda>t. Inr [Shown_Text t])
      | Validate_Config json_output \<Rightarrow>
          bindR (validate s) (\<lambda>_.
            Inr [Shown_Line (if json_output then ''{'' @ [CHR 0x22] @ ''ok'' @ [CHR 0x22] @ '':true}'' else ''Configuration is valid.'')])
      | Config_Paths json_output \<Rightarrow> Inr (emit_value (path_value p) json_output)
      | Init_Config force \<Rightarrow> panic ''internal error: entered unreachable code'')"

text \<open>
  The branches of \<open>run\<close> for the configuration: \<open>Init\<close> needs the lock of the process, \<open>Path\<close>
  does not read the file, every other command loads it first.
\<close>

record 'b config_io =
  cio_lock :: "unit result"
  cio_read :: "string option"
  cio_write :: "'b fault"

definition run_config ::
    "('b, settings) codec \<Rightarrow> location \<Rightarrow> 'b \<Rightarrow> settings result \<Rightarrow> (settings \<Rightarrow> string result) \<Rightarrow>
     paths \<Rightarrow> 'b config_io \<Rightarrow> config_cli \<Rightarrow> (shown list, 'b option) step" where
  "run_config c loc default_text defaults toml p io command =
     (case command of
        Init_Config force \<Rightarrow>
          bindS (liftS (cio_lock io)) (\<lambda>_.
          bindS (initialize_config default_text loc (cio_write io) force) (\<lambda>_.
            returnS [Shown_Line (''Wrote '' @ pa_config_file p)]))
      | Config_Paths json_output \<Rightarrow> returnS (emit_value (path_value p) json_output)
      | _ \<Rightarrow> (\<lambda>file.
          (bindR (load_settings c loc (cio_read io) file) (\<lambda>s.
             config_command defaults toml s p command), file)))"


section \<open>The status of the service\<close>

definition middle_dot :: string where
  "middle_dot = [CHR '' '', CHR 0xC2, CHR 0xB7, CHR '' '']"

definition arrow :: string where
  "arrow = [CHR '' '', CHR 0xE2, CHR 0x86, CHR 0x92, CHR '' '']"

definition dialog_lines :: "cli_env \<Rightarrow> json \<Rightarrow> shown list" where
  "dialog_lines env dialogs =
     (case as_str (json_index dialogs ''state'') of
        None \<Rightarrow> []
      | Some state \<Rightarrow>
          (if state = ''unsupported'' \<or> state = ''not_started'' then []
           else if state = ''accessibility_required''
           then [Shown_Line (''OS dialogs: needs Accessibility permission for watchcatd (System Settings'' @
             arrow @ ''Privacy & Security'' @ arrow @ ''Accessibility)'')]
           else [Shown_Line (''OS dialogs: '' @ state @ middle_dot @
             cl_json_text env (json_index dialogs ''listening_processes'') @ '' observers'' @ middle_dot @
             show_nat (unat (unwrap_or (as_u64 (json_index dialogs ''unavailable_processes'')) 0)) @
             '' unavailable'' @ middle_dot @
             cl_json_text env (json_index dialogs ''clicks_sent'') @ '' clicks'' @ middle_dot @
             cl_json_text env (json_index dialogs ''dialogs_closed'') @ '' dialogs closed'')]) @
          (case as_str (json_index dialogs ''last_result'') of
             None \<Rightarrow> []
           | Some r \<Rightarrow> [Shown_Line (''  '' @ r)]))"

definition online_status :: "cli_env \<Rightarrow> bool \<Rightarrow> json \<Rightarrow> shown list" where
  "online_status env json_output v =
     (if json_output then emit_value v True
      else Shown_Line (''Watchcat service online'' @ middle_dot @
          cl_json_text env (json_index v ''watched'') @ '' sessions'' @ middle_dot @
          cl_json_text env (json_index v ''attention'') @ '' need attention'') #
        dialog_lines env (json_index v ''os_permissions''))"

definition offline_status :: "bool \<Rightarrow> error \<Rightarrow> shown list" where
  "offline_status json_output e =
     (if json_output
      then emit_value (json_object [(''service_online'', JBool False), (''error'', JString (error_text e))]) True
      else [Shown_Line (''Watchcat service offline: '' @ error_text e)])"

definition service_status :: "cli_env \<Rightarrow> 's command_client \<Rightarrow> bool \<Rightarrow> (shown list, 's) step" where
  "service_status env client json_output s =
     (case client ''snapshot.get'' (json_object []) None s of
        (Inr (v, _), s') \<Rightarrow> (Inr (online_status env json_output v), s')
      | (Inl e, s') \<Rightarrow> (Inr (offline_status json_output e), s'))"


section \<open>The log of the dialogs\<close>

text \<open>The characters of a text that are not control characters.\<close>

definition clean :: "string \<Rightarrow> string" where
  "clean s = concat (filter (\<lambda>c. \<not> has_control c) (chars_of s))"

definition pad_to :: "nat \<Rightarrow> string \<Rightarrow> string" where
  "pad_to w s = s @ replicate (w - char_count s) (CHR '' '')"

definition event_lines :: "(timestamp \<Rightarrow> string) \<Rightarrow> dialog_event \<Rightarrow> string list" where
  "event_lines local_time e =
     [local_time (dv_timestamp e) @ ''  '' @ pad_to 22 (clean (dv_kind e)) @ '' '' @ clean (dv_app e) @
        '' ('' @ (case dv_pid e of Some p \<Rightarrow> show_int p | None \<Rightarrow> ''-'') @ '')'',
      case dv_rule e of
        Some rule \<Rightarrow> ''  rule='' @ clean rule @ ''  button='' @ clean (unwrap_or (dv_button e) ''-'') @
          ''  '' @ clean (dv_detail e)
      | None \<Rightarrow> ''  '' @ clean (dv_detail e)]"

definition log_heading :: string where
  "log_heading = ''TIME (local)                      EVENT                  APP (PID)''"

definition service_logs ::
    "dialog_codec \<Rightarrow> location \<Rightarrow> (dialog_event \<Rightarrow> json) \<Rightarrow> (timestamp \<Rightarrow> string) \<Rightarrow> read_fault \<Rightarrow>
     nat \<Rightarrow> bool \<Rightarrow> bool \<Rightarrow> string option \<Rightarrow> shown list result" where
  "service_logs dc loc event_json local_time fault limit clicks json_output file =
     bindR (dialog_read dc loc fault clicks limit file) (\<lambda>entries.
       Inr (if json_output then emit_serializable (JArray (map event_json entries)) True
         else if entries = []
         then [Shown_Line (''No '' @ (if clicks then ''automatic clicks'' else ''dialog events'') @ '' recorded.'')]
         else map Shown_Line (log_heading # concat (map (event_lines local_time) entries))))"

section \<open>What is shown can be shown\<close>

text \<open>Every table has a heading for each of its columns.\<close>

fun shown_ok :: "shown \<Rightarrow> bool" where
  "shown_ok (Shown_Table headers rows) \<longleftrightarrow>
     list_all (\<lambda>h. length h \<le> 72) headers \<and> list_all (\<lambda>r. length r = length headers) rows"
| "shown_ok _ \<longleftrightarrow> True"

lemma print_row_total: "length row = length ws \<Longrightarrow> \<exists>l. print_row ws row = Inr l"
  by (simp add: print_row_def print_cells_map)

lemma print_rows_total:
  "\<forall>r \<in> set rows. length r = length ws \<Longrightarrow> \<exists>ls. print_rows ws rows = Inr ls"
proof (induction rows)
  case (Cons r rows)
  then obtain ls l where "print_rows ws rows = Inr ls" and "print_row ws r = Inr l"
    using print_row_total [of r ws] by auto
  then show ?case by simp
qed simp

lemma print_table_total: "shown_ok (Shown_Table headers rows) \<Longrightarrow> \<exists>ls. print_table headers rows = Inr ls"
proof -
  assume ok: "shown_ok (Shown_Table headers rows)"
  then obtain ws where ws: "column_widths (map length headers) rows = Inr ws" "length ws = length headers"
    using column_widths_total [of rows "map length headers"] by (auto simp: list_all_iff)
  then obtain top rule ls where "print_row ws headers = Inr top"
    "print_row ws (map (\<lambda>w. replicate w (CHR ''-'')) ws) = Inr rule" "print_rows ws rows = Inr ls"
    using ok print_row_total [of headers ws] print_row_total [of "map (\<lambda>w. replicate w (CHR ''-'')) ws" ws]
      print_rows_total [of rows ws] by (auto simp: list_all_iff)
  with ws show ?thesis by (simp add: print_table_def)
qed

lemma shown_text_total: "list_all shown_ok out \<Longrightarrow> \<exists>t. shown_text pretty out = Inr t"
proof (induction out)
  case (Cons x out)
  then obtain t where "shown_text pretty out = Inr t" by auto
  then show ?case
    using Cons.prems print_table_total by (cases x) fastforce+
qed simp

lemma emit_value_ok: "list_all shown_ok (emit_value v b)"
  by (cases "(v, b)" rule: emit_value.cases) (auto simp: list_all_iff)

definition output_ok :: "(shown list, 's) step \<Rightarrow> bool" where
  "output_ok f \<longleftrightarrow> (\<forall>s out s'. f s = (Inr out, s') \<longrightarrow> list_all shown_ok out)"

lemma output_ok_bind: "(\<And>a. output_ok (g a)) \<Longrightarrow> output_ok (bindS f g)"
  by (auto simp: output_ok_def elim!: bindS_cases)

lemma output_ok_return: "list_all shown_ok out \<Longrightarrow> output_ok (returnS out)"
  by (simp add: output_ok_def returnS_def)

lemma output_ok_lift: "(\<And>out. r = Inr out \<Longrightarrow> list_all shown_ok out) \<Longrightarrow> output_ok (liftS r)"
  by (auto simp: output_ok_def liftS_def)

lemmas output_ok_rules = output_ok_bind output_ok_return output_ok_lift emit_value_ok

lemma session_command_output: "output_ok (session_command env client command)"
  by (cases command)
    (auto simp: session_command_def add_session_command_def remove_session_command_def split_beta emit_serializable_def print_logs_def list_all_iff
       search_row_def log_row_def target_row_def
       intro!: output_ok_rules [unfolded list_all_iff] split: if_splits)

lemma dialog_command_output: "output_ok (dialog_command env client command)"
  by (cases command)
    (auto simp: dialog_command_def split_beta emit_serializable_def list_all_iff rule_row_def
       intro!: output_ok_rules [unfolded list_all_iff] split: if_splits)

lemma policy_command_output: "output_ok (policy_command env client command)"
  by (cases command)
    (auto simp: policy_command_def split_beta emit_serializable_def list_all_iff Let_def
       print_policies_def policy_row_def print_policy_details_def
       intro!: output_ok_rules [unfolded list_all_iff] split: if_splits)

text \<open>The text of \<open>service logs\<close> cannot control the terminal, whatever the events hold.\<close>

lemma has_control_append:
  "has_control (a @ b) \<longleftrightarrow> has_control a \<or> has_control b \<or>
     (a \<noteq> [] \<and> b \<noteq> [] \<and> byte (last a) = 194 \<and> 128 \<le> byte (hd b) \<and> byte (hd b) < 160)"
proof (induction a rule: has_control.induct)
  case (2 c)
  show ?case by (cases b) auto
qed auto

lemma has_control_concat:
  "list_all (\<lambda>g. \<not> has_control g) gs \<Longrightarrow> list_all (\<lambda>g. g \<noteq> [] \<and> \<not> continuation (hd g)) (tl gs) \<Longrightarrow>
     \<not> has_control (concat gs)"
proof (induction gs)
  case (Cons g gs)
  have "list_all (\<lambda>g. g \<noteq> [] \<and> \<not> continuation (hd g)) gs" using Cons.prems(2) by simp
  then have "list_all (\<lambda>g. g \<noteq> [] \<and> \<not> continuation (hd g)) (tl gs)"
    and "concat gs = [] \<or> \<not> continuation (hd (concat gs))" by (cases gs; simp)+
  with Cons show ?case by (auto simp: has_control_append continuation_def)
qed simp

lemma has_control_ascii: "list_all (\<lambda>c. 32 \<le> byte c \<and> byte c < 127) s \<Longrightarrow> \<not> has_control s"
  by (induction s rule: has_control.induct) auto

lemma in_tail: "x \<in> set (tl xs) \<Longrightarrow> x \<in> set xs"
  by (cases xs) simp_all

lemma clean_no_control: "\<not> has_control (clean s)"
proof -
  let ?gs = "filter (\<lambda>c. \<not> has_control c) (chars_of s)"
  have "list_all (\<lambda>g. g \<noteq> [] \<and> \<not> continuation (hd g)) (tl ?gs)"
  proof (cases "chars_of s")
    case (Cons g gs)
    with chars_of_groups [of s] have "list_all (\<lambda>g. g \<noteq> [] \<and> \<not> continuation (hd g)) gs"
      by (simp add: list_all_iff)
    then show ?thesis
      by (cases "has_control g") (auto simp: Cons list_all_iff dest!: in_tail)
  qed simp
  then show ?thesis unfolding clean_def by (rule has_control_concat [rotated]) (simp add: list_all_iff)
qed

lemma show_int_no_control: "\<not> has_control (show_int p)"
proof (rule has_control_ascii)
  have "list_all (\<lambda>c. 32 \<le> byte c \<and> byte c < 127) (show_nat n)" for n
    using show_nat_digits [of n] by (auto simp: list_all_iff ascii_digit_def)
  then show "list_all (\<lambda>c. 32 \<le> byte c \<and> byte c < 127) (show_int p)"
    by (simp add: show_int_def byte_def)
qed

lemma padding_no_control: "\<not> has_control (replicate n (CHR '' ''))"
  by (rule has_control_ascii) (simp add: list_all_iff byte_def)

lemma ascii_joins [simp]:
  "byte c < 127 \<Longrightarrow> 32 \<le> byte c \<Longrightarrow> has_control (c # s) \<longleftrightarrow> has_control s"
  using has_control_append [of "[c]" s] by simp

lemma no_control_then:
  "\<not> has_control a \<Longrightarrow> \<not> has_control (c # b) \<Longrightarrow> byte c < 127 \<Longrightarrow> \<not> has_control (a @ c # b)"
  by (simp add: has_control_append)

lemma pad_to_no_control: "\<not> has_control s \<Longrightarrow> \<not> has_control (pad_to w s)"
  using padding_no_control [of "w - char_count s"]
  by (cases "w - char_count s") (simp_all add: pad_to_def no_control_then byte_def)

lemma event_lines_no_control:
  assumes "\<And>t. \<not> has_control (local_time t)"
  shows "list_all (\<lambda>l. \<not> has_control l) (event_lines local_time e)"
proof -
  note parts = assms clean_no_control show_int_no_control pad_to_no_control [OF clean_no_control]
  have b: "byte (CHR '' '') = 32" "byte (CHR ''('') = 40" "byte (CHR '')'') = 41" "byte (CHR ''-'') = 45"
    by (simp_all add: byte_def)
  show ?thesis
    by (cases "dv_pid e"; cases "dv_rule e")
      (simp_all add: event_lines_def b parts no_control_then byte_def)
qed

text \<open>
  Nothing that an event of the dialog log holds (a window's or a program's text) can
  control the terminal: the text of \<open>service logs\<close> consists of lines without control
  characters, whatever the file contains.
\<close>
lemma service_logs_plain:
  assumes "\<And>t. \<not> has_control (local_time t)"
    and "service_logs dc loc event_json local_time fault limit clicks False file = Inr out"
  shows "\<forall>x \<in> set out. \<exists>l. x = Shown_Line l \<and> \<not> has_control l"
proof -
  have head: "\<not> has_control log_heading" by (rule has_control_ascii) (simp add: log_heading_def byte_def)
  have none: "\<not> has_control (''No '' @ (if clicks then ''automatic clicks'' else ''dialog events'') @ '' recorded.'')"
    by (rule has_control_ascii) (simp add: byte_def)
  obtain entries where entries: "dialog_read dc loc fault clicks limit file = Inr entries"
    using assms(2) by (auto simp: service_logs_def bindR_Inr_iff)
  show ?thesis
  proof (cases "entries = []")
    case True
    then have "out = [Shown_Line (''No '' @ (if clicks then ''automatic clicks'' else ''dialog events'') @ '' recorded.'')]"
      using assms(2) entries by (simp add: service_logs_def)
    with none show ?thesis by (simp only: list.set) blast
  next
    case False
    then have "out = map Shown_Line (log_heading # concat (map (event_lines local_time) entries))"
      using assms(2) entries by (simp add: service_logs_def)
    with head event_lines_no_control [OF assms(1)] show ?thesis by (auto simp: list_all_iff)
  qed
qed

end
