(* ===== verification/Cli_World.thy ===== *)
theory Cli_World
  imports Client Cli_Config "HOL-Library.Countable"
begin

text \<open>
  The command line together with the service: a command that edits the settings reads them
  with their revision and sends the change with that revision, and between its two
  requests anything else may happen in the service.
\<close>


section \<open>Versions\<close>

text \<open>
  What optimistic concurrency rests on: a version that never falls, and without which the
  view of a reader does not change while it is below its limit.
\<close>

locale versioned =
  fixes step :: "'s \<Rightarrow> 's \<Rightarrow> bool" and version :: "'s \<Rightarrow> nat" and view :: "'s \<Rightarrow> 'v" and limit :: nat
  assumes monotone: "step s s' \<Longrightarrow> version s \<le> version s'"
    and versioned_view: "step s s' \<Longrightarrow> version s' = version s \<Longrightarrow> version s < limit \<Longrightarrow> view s' = view s"
begin

lemma monotone_steps: "step\<^sup>*\<^sup>* s s' \<Longrightarrow> version s \<le> version s'"
  by (induction rule: rtranclp_induct) (auto dest: monotone)

lemma same_version_same_view:
  "step\<^sup>*\<^sup>* s s' \<Longrightarrow> version s' = version s \<Longrightarrow> version s < limit \<Longrightarrow> view s' = view s"
proof (induction rule: rtranclp_induct)
  case (step t u)
  have "version s \<le> version t" by (rule monotone_steps [OF step.hyps(1)])
  moreover have "version t \<le> version u" by (rule monotone [OF step.hyps(2)])
  ultimately have "version t = version s" using step.prems(1) by simp
  with step.IH step.prems versioned_view [OF step.hyps(2)] show ?case by simp
qed simp

end


section \<open>The settings of the service are versioned by its revision\<close>

text \<open>A step keeps the revision and the settings, or takes the next revision.\<close>

definition settings_move :: "'b daemon \<Rightarrow> 'b daemon \<Rightarrow> bool" where
  "settings_move d d' \<longleftrightarrow>
     revision d' = revision d \<and> dm_settings d' = dm_settings d \<or>
     revision d' = revision_after (revision d)"

lemma settings_move_refl: "settings_move d d"
  by (simp add: settings_move_def)

lemma change_watchlist_move:
  assumes "env_ok env" and "change_watchlist env io change d = (r, d')"
  shows "settings_move d d'"
  using assms(2)
proof (cases rule: change_watchlist_cases)
  case (failed e d1 f)
  then show ?thesis
    using bump_revision_effect(1) [OF assms(1) failed(2)] by (simp add: settings_move_def)
next
  case (changed x d1 f targets)
  then show ?thesis
    using bump_revision_effect(1) [OF assms(1) changed(2)] by (simp add: settings_move_def)
qed (simp add: settings_move_def)

lemma commit_settings_move:
  assumes "env_ok env" and "commit_settings env io configure k s d = (r, d')"
  shows "settings_move d d'"
  using assms(2)
proof (cases rule: commit_settings_cases)
  case (not_saved e d1)
  then show ?thesis
    using bump_revision_effect(1) [OF assms(1) not_saved(2)] by (simp add: settings_move_def)
next
  case (saved d1 f)
  then show ?thesis
    using bump_revision_effect(1) [OF assms(1) saved(2)] by (simp add: settings_move_def)
qed (simp add: settings_move_def)

lemma handle_control_move:
  assumes "env_ok env" and "handle_control env io request d = (resp, d')"
  shows "settings_move d d'"
  using assms(2)
proof (cases rule: handle_control_dispatch)
  case (run r)
  from run(1) show ?thesis
    by (cases rule: dispatch_control_cases)
      (auto intro: settings_move_refl change_watchlist_move [OF assms(1)] commit_settings_move [OF assms(1)])
qed (simp add: settings_move_refl)

lemma reload_move:
  assumes "env_ok env" and "reload_external_config env io d = (r, d')"
  shows "settings_move d d'"
proof (cases "\<exists>s d1. load_settings (de_settings_codec env) (de_config_loc env) (pi_read_config io) (dm_config d) = Inr s \<and>
    bump_revision env (pi_read_reload io) (pi_revision io) d = (Inr (), d1)")
  case True
  then obtain s d1 where "load_settings (de_settings_codec env) (de_config_loc env) (pi_read_config io) (dm_config d) = Inr s"
    and bump: "bump_revision env (pi_read_reload io) (pi_revision io) d = (Inr (), d1)" by blast
  then show ?thesis
    using assms(2) bump_revision_effect(1) [OF assms(1) bump]
    by (auto simp: reload_external_config_def settings_move_def split: if_splits)
next
  case False
  then show ?thesis
    using assms(2)
    by (auto simp: reload_external_config_def settings_move_def
        split: if_splits sum.splits prod.splits dest: bump_revision_Inl)
qed

lemma prepare_reconcile_move:
  assumes "env_ok env" and "prepare_reconcile env io d = (r, d')"
  shows "settings_move d d'"
proof -
  obtain r1 d1 where reload: "reload_external_config env io d = (r1, d1)" by (metis surj_pair)
  then have "settings_move d d1" by (rule reload_move [OF assms(1)])
  moreover have "d' = d1 \<or> (\<exists>ts. d' = update_recovery_permit ts d1)"
    using assms(2) reload by (auto simp: prepare_reconcile_def split: sum.splits)
  ultimately show ?thesis by (auto simp: settings_move_def)
qed

lemma commit_reconcile_move:
  assumes "env_ok env" and "commit_reconcile env io plan outcome (d, en) = (r, (d', en'))"
  shows "settings_move d d'"
  using assms(2)
proof (cases rule: commit_reconcile_cases)
  case (committed targets f d2)
  show ?thesis
  proof (cases "targets = pl_targets plan")
    case True
    with committed show ?thesis by (auto simp: settings_move_def)
  next
    case False
    with committed(3) have "bump_revision env (ci_read_bump io) (ci_revision io)
        (update_recovery_permit targets (d\<lparr>dm_watchlist := f\<rparr>)) = (Inr (), d2)" by simp
    from bump_revision_effect(1) [OF assms(1) this] committed(5) show ?thesis
      by (simp add: settings_move_def)
  qed
qed (simp_all add: settings_move_def)

lemma daemon_step_move:
  assumes "env_ok env" and "daemon_step env d d'"
  shows "settings_move d d'"
  using assms(2)
proof cases
  case (request io rq resp)
  then show ?thesis by (rule handle_control_move [OF assms(1)])
next
  case (plan io r)
  then show ?thesis by (rule prepare_reconcile_move [OF assms(1)])
next
  case (commit io p outcome en r en')
  then show ?thesis by (rule commit_reconcile_move [OF assms(1)])
next
  case (edited stamp f)
  have "settings_move d (d\<lparr>dm_config := f, dm_config_stamp := stamp\<rparr>)" by (simp add: settings_move_def)
  with edited show ?thesis by (simp only:)
qed

interpretation settings: versioned "\<lambda>d d'. env_ok env \<and> daemon_step env d d'"
    "\<lambda>d. unat (revision d)" dm_settings u64_max for env
proof unfold_locales
  fix d d' :: "'a daemon"
  assume step: "env_ok env \<and> daemon_step env d d'"
  then have move: "settings_move d d'" using daemon_step_move by blast
  show "unat (revision d) \<le> unat (revision d')"
    using move unat_u64_bound [of "revision d"] by (auto simp: settings_move_def unat_revision_after)
  show "dm_settings d' = dm_settings d"
    if "unat (revision d') = unat (revision d)" and "unat (revision d) < u64_max"
    using move that by (auto simp: settings_move_def unat_revision_after)
qed

lemma serve_request_steps:
  assumes "serve_request env scr request sv = (reply, sv', n)"
  shows "sv_daemon sv' = sv_daemon sv \<or>
    daemon_step (sx_daemon env) (sv_daemon sv) (sv_daemon sv')"
proof -
  have retry: "sv_daemon sv'' = sv_daemon sv" if "retry_now_request renv io request sv = (reply', sv'')"
    for renv io reply' sv''
    using that by (auto simp: retry_now_request_def retry_accepted_def split: if_splits sum.splits
        option.splits prod.splits)
  have conn: "d' = d \<or> daemon_step e d d'"
    if "connection_request e we ps request rstate events io w d = (r, d', n')"
    for e we ps rstate events io w d r d' n'
    using that
    by (auto simp: connection_request_def provider_response_def Let_def
        intro: daemon_step.request split: prod.splits sum.splits if_splits)
  from assms show ?thesis
    by (auto simp: serve_request_def Let_def dest!: retry conn split: if_splits sum.splits prod.splits)
qed

lemma activity_steps:
  "sv_daemon (activity_run env sv a) = sv_daemon sv \<or>
     daemon_step (sx_daemon env) (sv_daemon sv) (sv_daemon (activity_run env sv a))"
proof (cases a)
  case (Other_Request scr request)
  then show ?thesis
    using serve_request_steps [of env scr request sv]
    by (cases "serve_request env scr request sv") (auto simp: activity_run_def)
next
  case (Plan_Taken io)
  then show ?thesis
    by (auto simp: activity_run_def intro!: daemon_step.plan prod.collapse [symmetric])
next
  case (Pass_Committed io plan outcome en)
  then show ?thesis
    by (auto simp: activity_run_def intro!: daemon_step.commit prod_eqI)
next
  case (Config_Edited f stamp)
  then show ?thesis by (simp add: activity_run_def daemon_step.edited)
qed

lemma meanwhile_steps: "(daemon_step (sx_daemon env))\<^sup>*\<^sup>* (sv_daemon sv) (sv_daemon (meanwhile env as sv))"
proof (induction as arbitrary: sv)
  case (Cons a as)
  from activity_steps [of env sv a] have
    "(daemon_step (sx_daemon env))\<^sup>*\<^sup>* (sv_daemon sv) (sv_daemon (activity_run env sv a))" by auto
  with Cons [of "activity_run env sv a"] show ?case by (simp add: meanwhile_def)
qed (simp add: meanwhile_def)

lemma meanwhile_same_settings:
  assumes "env_ok (sx_daemon env)" and "unat (revision (sv_daemon sv)) < u64_max"
    and "revision (sv_daemon (meanwhile env as sv)) = revision (sv_daemon sv)"
  shows "dm_settings (sv_daemon (meanwhile env as sv)) = dm_settings (sv_daemon sv)"
proof (rule settings.same_version_same_view)
  show "(\<lambda>d d'. env_ok (sx_daemon env) \<and> daemon_step (sx_daemon env) d d')\<^sup>*\<^sup>* (sv_daemon sv)
      (sv_daemon (meanwhile env as sv))"
    using meanwhile_steps [of env sv as] assms(1) by simp
qed (use assms(2,3) in simp_all)


section \<open>What the two requests of an edit do\<close>

lemma config_get_served:
  assumes "serve_request env scr request sv = (reply, sv', n)" and "rq_method request = ''config.get''"
    and "rq_version request = protocol_version"
  shows "sv' = sv \<and> (\<forall>r. reply = Reply r \<longrightarrow>
    rsp_result r = Some (de_settings_json (sx_daemon env) (dm_settings (sv_daemon sv))) \<and>
    rsp_revision r = revision (sv_daemon sv))"
  using assms
  by (auto simp: serve_request_def connection_request_def requires_provider_def Let_def
      handle_control_def dispatch_control_def written_def split: sum.splits)

text \<open>What is left of a change of the dialog rules, however its request ends.\<close>

definition rules_changed :: "dialog_settings \<Rightarrow> 'b daemon \<Rightarrow> 'b daemon \<Rightarrow> bool" where
  "rules_changed ds d d' \<longleftrightarrow>
     dm_settings d' = (dm_settings d)\<lparr>st_dialogs := ds\<rparr> \<and> dm_dialogs d' = ds"

lemma set_dialogs_outcome:
  assumes "env_ok env" and "set_dialogs env io request d = (r, d')"
    and "de_dialogs_of env (rq_params request) = Some ds" and "rq_expected_revision request = Some at"
  shows "dm_settings d' = dm_settings d \<and> (\<exists>e. r = Inl e) \<or> at = revision d \<and> rules_changed ds d d'"
proof (cases "at = revision d \<and> validate ((dm_settings d)\<lparr>st_dialogs := ds\<rparr>) = Inr ()")
  case True
  then have commit: "commit_settings env io True ''updated'' ((dm_settings d)\<lparr>st_dialogs := ds\<rparr>) d = (r, d')"
    using assms(2-4) by (simp add: set_dialogs_def check_revision_def decode_def Let_def)
  then show ?thesis
  proof (cases rule: commit_settings_cases)
    case (not_saved e d1)
    then show ?thesis using bump_revision_effect(6) [OF assms(1) not_saved(2)] by simp
  next
    case (saved d1 f)
    then show ?thesis using True by (simp add: rules_changed_def)
  qed simp
next
  case False
  then show ?thesis
    using assms(2-4) by (auto simp: set_dialogs_def check_revision_def decode_def Let_def split: sum.splits)
qed

lemma dialogs_set_served:
  assumes "env_ok (sx_daemon env)" and "serve_request env scr request sv = (reply, sv', n)"
    and "rq_method request = ''config.dialogs.set''" and "rq_version request = protocol_version"
    and "de_dialogs_of (sx_daemon env) (rq_params request) = Some ds"
    and "rq_expected_revision request = Some at"
  shows "dm_settings (sv_daemon sv') = dm_settings (sv_daemon sv) \<and>
      (\<forall>r. reply = Reply r \<longrightarrow> rsp_error r \<noteq> None) \<or>
    at = revision (sv_daemon sv) \<and> rules_changed ds (sv_daemon sv) (sv_daemon sv')"
proof -
  obtain r d' where run: "set_dialogs (sx_daemon env) (rs_io scr) request (sv_daemon sv) = (r, d')"
    by (metis surj_pair)
  have "sv_daemon sv' = d'" and "\<forall>e. r = Inl e \<longrightarrow> (\<forall>resp. reply = Reply resp \<longrightarrow> rsp_error resp \<noteq> None)"
    using assms(2-4) run
    by (auto simp: serve_request_def connection_request_def requires_provider_def Let_def
        handle_control_def dispatch_control_def written_def error_response_def split: sum.splits)
  with set_dialogs_outcome [OF assms(1) run assms(5,6)] show ?thesis by auto
qed

lemma edit_rules_wf: "bt_wf (ds_rules ds) \<Longrightarrow> edit_rules command ds = Inr ds' \<Longrightarrow> bt_wf (ds_rules ds')"
  by (cases command)
    (auto simp: edit_rules_def switch_rule_def bt_wf_insert btree.wf_remove split: if_splits option.splits)

text \<open>C37: No change of the settings is lost to an edit of the dialog rules.  Whatever other
  clients, the reconciliation task and hand edits do between its two requests, and however
  its exchanges fail, an edit leaves the settings as they were right before its change, or
  applies exactly its own change to them; and it reports success only in the second case,
  with the rules in force.
\<close>
theorem cli_edit_loses_nothing:
  assumes wire: "wire_ok ws" and env: "env_ok (sx_daemon env)"
    and serde: "de_settings_json (sx_daemon env) = settings_json"
      "de_dialogs_of (sx_daemon env) = dialog_settings_of"
    and edit: "\<forall>j. command \<noteq> List_Rules j"
    and run: "dialog_command cl (service_client env ws socket xs) command (sv, n) = (r, (sv', n'))"
    and first: "a = meanwhile env (ex_before (xs n)) sv"
    and second: "b = meanwhile env (ex_before (xs (Suc n))) a"
    and rules: "bt_wf (ds_rules (st_dialogs (dm_settings (sv_daemon a))))"
    and room: "unat (revision (sv_daemon a)) < u64_max"
  shows "sv' = a \<and> n' = Suc n \<and> (\<exists>e. r = Inl e) \<or>
    n' = Suc (Suc n) \<and>
    (dm_settings (sv_daemon sv') = dm_settings (sv_daemon b) \<and> (\<exists>e. r = Inl e) \<or>
     (\<exists>ds. edit_rules command (st_dialogs (dm_settings (sv_daemon b))) = Inr ds \<and>
        validate_dialogs ds = Inr () \<and> rules_changed ds (sv_daemon b) (sv_daemon sv')))"
proof -
  obtain r1 sv1 where get: "rpc_exchange env ws socket (xs n) ''config.get'' (json_object []) None sv = (r1, sv1)"
    by (metis surj_pair)
  have sv1: "sv1 = a" and got: "\<And>v at. r1 = Inr (v, at) \<Longrightarrow>
      v = settings_json (dm_settings (sv_daemon a)) \<and> at = revision (sv_daemon a)"
    using wire get
    by (cases rule: rpc_exchange_cases; use first serde(1) config_get_served in force)+
  let ?old = "st_dialogs (dm_settings (sv_daemon a))"
  have reads: "dialog_settings_of (json_index (settings_json (dm_settings (sv_daemon a))) ''dialogs'') = Some ?old"
    by (simp add: settings_json_dialogs dialog_settings_back rules)
  show ?thesis
  proof (cases r1)
    case (Inl e)
    with run get sv1 show ?thesis
      by (auto simp: dialog_command_def bindS_def service_client_def)
  next
    case (Inr va)
    then obtain v at where va: "r1 = Inr (v, at)" by (cases va) simp
    with got have v: "v = settings_json (dm_settings (sv_daemon a))" and at: "at = revision (sv_daemon a)" by auto
    show ?thesis
    proof (cases "bindR (edit_rules command ?old) (\<lambda>ds. bindR (validate_dialogs ds) (\<lambda>_. Inr ds))")
      case (Inl e)
      with run get sv1 va v reads edit show ?thesis
        by (cases command)
          (auto simp: dialog_command_def bindS_def liftS_def service_client_def decode_def
            split: sum.splits prod.splits)
    next
      case (Inr ds)
      then have ds: "edit_rules command ?old = Inr ds" "validate_dialogs ds = Inr ()"
        by (auto simp: bindR_Inr_iff)
      obtain r2 sv2 where set: "rpc_exchange env ws socket (xs (Suc n)) ''config.dialogs.set''
          (dialog_settings_json ds) (Some at) a = (r2, sv2)" by (metis surj_pair)
      have result: "sv' = sv2" "n' = Suc (Suc n)" "(\<exists>e. r2 = Inl e) \<longleftrightarrow> (\<exists>e. r = Inl e)"
        using run get sv1 va v reads edit ds set
        by (cases command; cases r2;
            auto simp: dialog_command_def bindS_def liftS_def returnS_def service_client_def decode_def
              )+
      have "dialog_settings_of (dialog_settings_json ds) = Some ds"
        using edit_rules_wf [OF rules ds(1)] by (rule dialog_settings_back)
      then have served: "dm_settings (sv_daemon sv2) = dm_settings (sv_daemon b) \<and>
            (\<forall>resp. reply = Reply resp \<longrightarrow> rsp_error resp \<noteq> None) \<or>
          at = revision (sv_daemon b) \<and> rules_changed ds (sv_daemon b) (sv_daemon sv2)"
        if "serve_request env scr \<lparr>rq_version = protocol_version, rq_id = i, rq_method = ''config.dialogs.set'',
          rq_params = dialog_settings_json ds, rq_expected_revision = Some at\<rparr> b = (reply, sv2, n)" for scr i reply n
        using dialogs_set_served [OF env that, of ds at] serde(2) by simp
      have "dm_settings (sv_daemon sv2) = dm_settings (sv_daemon b) \<and> (\<exists>e. r2 = Inl e) \<or>
          at = revision (sv_daemon b) \<and> rules_changed ds (sv_daemon b) (sv_daemon sv2)"
        using wire set
        by (cases rule: rpc_exchange_cases; use second served in blast)
      moreover have "dm_settings (sv_daemon b) = dm_settings (sv_daemon a)" if "at = revision (sv_daemon b)"
        using meanwhile_same_settings [OF env room] that at second by simp
      ultimately show ?thesis using result ds by auto
    qed
  qed
qed

section \<open>An example\<close>

text \<open>Texts for four messages, and some text for every other one.\<close>

instance jnumber :: countable by countable_datatype
instance json :: countable by countable_datatype

definition edited_rules :: dialog_settings where
  "edited_rules = \<lparr>ds_rules = [(directory_rule, default_dialog_rule\<lparr>dr_enabled := False\<rparr>)]\<rparr>"

definition ask_settings :: rpc_request where
  "ask_settings = \<lparr>rq_version = protocol_version, rq_id = ''1'', rq_method = ''config.get'',
     rq_params = json_object [], rq_expected_revision = None\<rparr>"

definition ask_edit :: rpc_request where
  "ask_edit = \<lparr>rq_version = protocol_version, rq_id = ''1'', rq_method = ''config.dialogs.set'',
     rq_params = dialog_settings_json edited_rules, rq_expected_revision = Some 3\<rparr>"

definition tell_settings :: rpc_response where
  "tell_settings = value_response ''1'' 3 (settings_json default_settings)"

definition tell_edit :: rpc_response where
  "tell_edit = value_response ''1'' 4 (json_object [(''updated'', JBool True)])"

definition example_wire :: wire_serde where
  "example_wire =
     \<lparr>ws_request = (\<lambda>r. if r = ask_settings then ''a'' else if r = ask_edit then ''b''
        else show_nat (to_nat (request_json r))),
      ws_response = (\<lambda>r. if r = tell_settings then ''c'' else if r = tell_edit then ''d''
        else show_nat (to_nat (response_json r))),
      ws_parse = (\<lambda>s. Inr (if s = ''a'' then request_json ask_settings
        else if s = ''b'' then request_json ask_edit
        else if s = ''c'' then response_json tell_settings
        else if s = ''d'' then response_json tell_edit
        else from_nat (digits_value s))),
      ws_message = (\<lambda>name v. name), ws_eof = ''early eof''\<rparr>"

lemma example_wire_ok: "wire_ok example_wire"
proof -
  have "show_nat n \<noteq> [c]" if "\<not> ascii_digit c" for n c
    using show_nat_digits [of n] that by auto
  then have "show_nat n \<noteq> ''a''" "show_nat n \<noteq> ''b''" "show_nat n \<noteq> ''c''" "show_nat n \<noteq> ''d''" for n
    by (simp_all add: ascii_digit_def byte_def)
  then show ?thesis by (simp add: wire_ok_def example_wire_def)
qed

definition editing_server :: "example_file server_env" where
  "editing_server = removal_server\<lparr>sx_daemon := example_env
     \<lparr>de_settings_json := settings_json, de_dialogs_of := dialog_settings_of\<rparr>\<rparr>"

definition plain_exchange :: "nat \<Rightarrow> example_file exchange" where
  "plain_exchange n = \<lparr>ex_before = [], ex_connect = Connected, ex_id = ''1'', ex_write = None,
     ex_dropped = False, ex_script = removal_script (Inr ()), ex_late = False\<rparr>"

lemma policy_dialogs: "policy (s\<lparr>st_dialogs := ds\<rparr>) c = policy s c"
  by (simp add: policy_def)

lemma edited_rules_valid: "validate (default_settings\<lparr>st_dialogs := edited_rules\<rparr>) = Inr ()"
proof -
  have "validate_dialogs (st_dialogs default_settings) = Inr ()"
    using default_settings_valid by (simp add: validate_Inr)
  then have "validate_dialogs edited_rules = Inr ()"
    by (simp add: default_settings_def default_dialog_settings_def edited_rules_def default_dialog_rule_def
        validate_dialogs_Inr validate_rule_Inr rule_texts_def)
  with default_settings_valid show ?thesis
    by (simp add: validate_Inr validate_resolved_def policy_dialogs)
qed

lemma example_edit_served:
  "\<exists>sv'. serve_request editing_server (removal_script (Inr ())) ask_edit running_service =
     (Reply tell_edit, sv', change_notification ''config.dialogs.set'' tell_edit)"
proof -
  let ?env = "sx_daemon editing_server"
  obtain d1 where "bump_revision example_env None NoFault example_daemon = (Inr (), d1)"
    using example_bump by blast
  then have bump: "bump_revision ?env None NoFault example_daemon = (Inr (), d1)"
    by (simp add: bump_revision_def list_targets_def editing_server_def cong: sum.case_cong)
  have "revision d1 = revision_after 3"
    using bump_revision_effect(1) [OF example_env_ok] \<open>bump_revision example_env _ _ _ = _\<close>
    by (fastforce simp: revision_def example_daemon_def example_control_def)
  moreover have "unat (revision_after 3) = unat (4 :: u64)" by (simp add: unat_revision_after u64_max_def)
  ultimately have rev: "revision d1 = 4" by (simp only: word_unat_eq_iff)
  let ?s = "default_settings\<lparr>st_dialogs := edited_rules\<rparr>"
  have save: "\<exists>f. save_settings (de_settings_codec ?env) (de_config_loc ?env) NoFault ?s old = (Inr (), f)" for old
    by (simp add: save_settings_def edited_rules_valid save_document_def atomic_write_NoFault editing_server_def)
  have dialogs: "dialog_settings_of (dialog_settings_json edited_rules) = Some edited_rules"
    by (rule dialog_settings_back) (simp add: edited_rules_def bt_wf_def)
  from save obtain f where f: "save_settings (de_settings_codec ?env) (de_config_loc ?env) NoFault ?s (dm_config d1) =
      (Inr (), f)" by blast
  have daemon: "dm_settings example_daemon = default_settings" "revision example_daemon = 3"
    by (simp_all add: example_daemon_def revision_def example_control_def)
  have "\<exists>d'. dispatch_control ?env example_io ask_edit example_daemon =
      (Inr (json_object [(''updated'', JBool True)]), d') \<and> revision d' = 4"
    using bump f rev
    by (simp add: dispatch_control_def ask_edit_def set_dialogs_def check_revision_def daemon decode_def
        editing_server_def dialogs Let_def edited_rules_valid commit_settings_def example_io_def)
  then show ?thesis
    by (auto simp: serve_request_def connection_request_def requires_provider_def handle_control_def
        ask_edit_def removal_script_def running_service_def written_def tell_edit_def value_response_def
        editing_server_def Let_def)
qed

lemma example_get_served:
  "serve_request editing_server (removal_script (Inr ())) ask_settings running_service =
     (Reply tell_settings, running_service, None)"
  by (simp add: serve_request_def connection_request_def requires_provider_def handle_control_def
      dispatch_control_def ask_settings_def removal_script_def written_def tell_settings_def
      value_response_def editing_server_def change_notification_def is_mutation_def)
    (simp add: running_service_def example_daemon_def revision_def example_control_def)

lemma example_exchanges:
  "rpc_exchange editing_server example_wire ''sock'' (plain_exchange k) ''config.get'' (json_object []) None
     running_service = (Inr (settings_json default_settings, 3), running_service)"
  "\<exists>sv'. rpc_exchange editing_server example_wire ''sock'' (plain_exchange k) ''config.dialogs.set''
     (dialog_settings_json edited_rules) (Some 3) running_service =
     (Inr (json_object [(''updated'', JBool True)], 4), sv')"
proof -
  note small = max_rpc_request_bytes_def max_frame_bytes_def
  have other: "ask_edit \<noteq> ask_settings" "tell_edit \<noteq> tell_settings"
    by (simp_all add: ask_edit_def ask_settings_def tell_edit_def tell_settings_def value_response_def)
  note runs = undisturbed_exchange [where x = "plain_exchange k" and env = editing_server
      and sv = running_service and socket = "''sock''", OF example_wire_ok]
  show "rpc_exchange editing_server example_wire ''sock'' (plain_exchange k) ''config.get'' (json_object []) None
     running_service = (Inr (settings_json default_settings, 3), running_service)"
    using runs [of ask_settings "''config.get''" "json_object []" None tell_settings running_service None]
      example_get_served
    by (simp add: plain_exchange_def meanwhile_def example_wire_def small)
      (simp add: ask_settings_def tell_settings_def value_response_def)
  obtain sv' where "serve_request editing_server (removal_script (Inr ())) ask_edit running_service =
     (Reply tell_edit, sv', change_notification ''config.dialogs.set'' tell_edit)"
    using example_edit_served by blast
  then have "rpc_exchange editing_server example_wire ''sock'' (plain_exchange k) ''config.dialogs.set''
     (dialog_settings_json edited_rules) (Some 3) running_service =
     (Inr (json_object [(''updated'', JBool True)], 4), sv')"
    using runs [of ask_edit "''config.dialogs.set''" "dialog_settings_json edited_rules" "Some 3" tell_edit sv'
      "change_notification ''config.dialogs.set'' tell_edit"]
    by (simp add: plain_exchange_def meanwhile_def example_wire_def small other)
      (simp add: ask_edit_def tell_edit_def value_response_def)
  then show "\<exists>sv'. rpc_exchange editing_server example_wire ''sock'' (plain_exchange k) ''config.dialogs.set''
     (dialog_settings_json edited_rules) (Some 3) running_service =
     (Inr (json_object [(''updated'', JBool True)], 4), sv')" by blast
qed

definition example_cli :: cli_env where
  "example_cli = \<lparr>cl_json_text = (\<lambda>v. []), cl_message = (\<lambda>name v. name), cl_logs_of = (\<lambda>v. None),
     cl_targets_of = (\<lambda>v. None), cl_target_json = (\<lambda>t. JNull), cl_time = (\<lambda>t. [])\<rparr>"

theorem cli_edit_loses_nothing_witness:
  "\<exists>sv'. dialog_command example_cli (service_client editing_server example_wire ''sock'' plain_exchange)
      (Disable_Rule directory_rule) (running_service, 0) =
      (Inr [Shown_Line ''Updated dialog rules; applied to the running service.''], (sv', 2)) \<and>
     rules_changed edited_rules example_daemon (sv_daemon sv')"
proof -
  let ?client = "service_client editing_server example_wire ''sock'' plain_exchange"
  have env: "env_ok (sx_daemon editing_server)"
    using example_env_ok by (simp add: env_ok_def editing_server_def)
  have serde: "de_settings_json (sx_daemon editing_server) = settings_json"
    "de_dialogs_of (sx_daemon editing_server) = dialog_settings_of"
    by (simp_all add: editing_server_def)
  have daemon: "sv_daemon running_service = example_daemon" "dm_settings example_daemon = default_settings"
    "unat (revision example_daemon) < u64_max"
    by (simp_all add: running_service_def example_daemon_def revision_def example_control_def u64_max_def)
  have rules: "st_dialogs default_settings = default_dialog_settings" "bt_wf (ds_rules default_dialog_settings)"
    by (simp_all add: default_settings_def default_dialog_settings_def bt_wf_def)
  have edit: "edit_rules (Disable_Rule directory_rule) default_dialog_settings = Inr edited_rules"
    by (simp add: edit_rules_def switch_rule_def default_dialog_settings_def edited_rules_def hm_get_def)
  have valid: "validate_dialogs edited_rules = Inr ()"
    using edited_rules_valid by (simp add: validate_Inr)
  obtain sv' where set: "rpc_exchange editing_server example_wire ''sock'' (plain_exchange 1) ''config.dialogs.set''
     (dialog_settings_json edited_rules) (Some 3) running_service =
     (Inr (json_object [(''updated'', JBool True)], 4), sv')"
    using example_exchanges(2) by blast
  have run: "dialog_command example_cli ?client (Disable_Rule directory_rule) (running_service, 0) =
      (Inr [Shown_Line ''Updated dialog rules; applied to the running service.''], (sv', 2))"
    using set edit valid example_exchanges(1) [of 0] dialog_settings_back [OF rules(2)]
    by (simp add: dialog_command_def bindS_def liftS_def returnS_def service_client_def decode_def
        settings_json_dialogs rules(1))
  have quiet: "meanwhile editing_server (ex_before (plain_exchange k)) sv = sv" for k sv
    by (simp add: plain_exchange_def meanwhile_def)
  have "\<exists>ds. edit_rules (Disable_Rule directory_rule) (st_dialogs (dm_settings (sv_daemon running_service))) = Inr ds \<and>
      validate_dialogs ds = Inr () \<and> rules_changed ds (sv_daemon running_service) (sv_daemon sv')"
    using cli_edit_loses_nothing [OF example_wire_ok env serde _ run refl refl] daemon rules
    by (simp add: quiet)
  then show ?thesis using run edit daemon rules(1) by auto
qed

section \<open>Hand edits\<close>

text \<open>
  A change of the settings writes the service's own copy: a configuration edited by hand
  that has not been reloaded yet is overwritten, and never read.
\<close>

lemma hand_edit_overwritten:
  assumes "codec_ok (de_settings_codec env)"
    and "commit_settings env io configure k s (d\<lparr>dm_config := f, dm_config_stamp := stamp\<rparr>) = (Inr v, d')"
  shows "(\<exists>b. dm_config d' = Some b \<and> dec (de_settings_codec env) b = Inr s) \<and>
    reload_external_config env pio d' = (Inr (), d')"
  using assms(2)
proof (cases rule: commit_settings_cases)
  case (saved d1 f')
  then have "\<exists>b. f' = Some b \<and> dec (de_settings_codec env) b = Inr s"
    using assms(1) by (auto simp: save_settings_def dest: save_document_Inr split: sum.splits)
  with saved show ?thesis by (auto simp: reload_external_config_def)
qed simp_all

end
