(* ===== verification/Startup.thy ===== *)
theory Startup
  imports Storage
begin

text \<open>
  Starting and stopping the service (\<open>ProcessLock\<close> in \<open>state.rs\<close>, the beginning of \<open>serve\<close> in
  \<open>daemon.rs\<close>, the lock of \<open>watchcatd\<close> and of \<open>watchcat config init\<close>): any number of processes
  go through these calls in any interleaving, fail at any of them, are stopped or killed.
  The exclusive lock of the fs2 crate is a parameter with its documented promise.
\<close>


section \<open>The world of the processes\<close>

text \<open>
  The lock as the system keeps it: a process can try to take it without waiting, and what
  it holds is given back when it closes the file or ends, in whatever way.
\<close>

record 'k file_lock =
  lk_try :: "nat \<Rightarrow> 'k \<Rightarrow> 'k option"
  lk_free :: "nat \<Rightarrow> 'k \<Rightarrow> 'k"

definition exclusive :: "('k, 'z) file_lock_scheme \<Rightarrow> ('k \<Rightarrow> nat option) \<Rightarrow> bool" where
  "exclusive lk holder \<longleftrightarrow>
     (\<forall>p k. holder k \<noteq> None \<longrightarrow> lk_try lk p k = None) \<and>
     (\<forall>p k. holder k = None \<longrightarrow> (\<exists>k'. lk_try lk p k = Some k' \<and> holder k' = Some p)) \<and>
     (\<forall>p k. holder (lk_free lk p k) = (if holder k = Some p then None else holder k))"

text \<open>How far a process has come in \<open>serve\<close>.\<close>

datatype stage =
    Outside
  | Locked
  | Directory_Ready
  | Stale_Removed
  | Bound
  | Guarded
  | Serves

text \<open>The socket file: the process that bound it, and its mode.\<close>

record 'k host_state =
  hs_lock :: 'k
  hs_lock_text :: "string option"
  hs_directory :: "nat option"
  hs_socket :: "(nat \<times> nat) option"
  hs_stage :: "nat \<Rightarrow> stage"

record start_script =
  ss_lock_directory :: "string option"
  ss_open :: "string option"
  ss_truncate :: "string option"
  ss_pid :: "string option"
  ss_directory :: "string option"
  ss_directory_mode :: "string option"
  ss_connects :: bool
  ss_remove :: "string option"
  ss_bind :: "string option"
  ss_umask_mode :: nat
  ss_socket_mode :: "string option"
  ss_load :: "unit result"

record start_env =
  sn_lock_path :: location
  sn_socket_path :: location

definition attempt :: "string option \<Rightarrow> unit result" where
  "attempt fault = (case fault of None \<Rightarrow> Inr () | Some os \<Rightarrow> bail os)"


section \<open>The lock\<close>

text \<open>A lock that was taken is given back when the rest of the call fails.\<close>

definition acquire_lock ::
    "('k, 'z) file_lock_scheme \<Rightarrow> location \<Rightarrow> start_script \<Rightarrow> nat \<Rightarrow> ('k, 'y) host_state_scheme \<Rightarrow>
     unit result \<times> ('k, 'y) host_state_scheme" where
  "acquire_lock lk path scr p w =
     (case loc_parent path of
        None \<Rightarrow> (bail ''service lock has no parent directory'', w)
      | Some parent \<Rightarrow>
     (case attempt (ss_lock_directory scr) of
        Inl e \<Rightarrow> (Inl e, w)
      | Inr _ \<Rightarrow>
     (case with_context (''cannot open service lock '' @ loc_path path) (attempt (ss_open scr)) of
        Inl e \<Rightarrow> (Inl e, w)
      | Inr _ \<Rightarrow>
     (let w0 = w\<lparr>hs_lock_text := Some (unwrap_or (hs_lock_text w) [])\<rparr>
      in case lk_try lk p (hs_lock w) of
        None \<Rightarrow>
          (Inl (io_error ''another Watchcat process owns this state directory'' ''would block''), w0)
      | Some k \<Rightarrow>
     (case attempt (ss_truncate scr) of
        Inl e \<Rightarrow> (Inl e, w0\<lparr>hs_lock := lk_free lk p k\<rparr>)
      | Inr _ \<Rightarrow>
     (case attempt (ss_pid scr) of
        Inl e \<Rightarrow> (Inl e, w0\<lparr>hs_lock := lk_free lk p k, hs_lock_text := Some []\<rparr>)
      | Inr _ \<Rightarrow> (Inr (), w0\<lparr>hs_lock := k, hs_lock_text := Some (show_nat p)\<rparr>)))))))"


section \<open>Starting\<close>

definition make_directory ::
    "start_env \<Rightarrow> start_script \<Rightarrow> ('k, 'y) host_state_scheme \<Rightarrow>
     unit result \<times> ('k, 'y) host_state_scheme" where
  "make_directory env scr w =
     (case loc_parent (sn_socket_path env) of
        None \<Rightarrow> (Inr (), w)
      | Some parent \<Rightarrow>
          (case attempt (ss_directory scr) of
             Inl e \<Rightarrow> (Inl e, w)
           | Inr _ \<Rightarrow>
               (case attempt (ss_directory_mode scr) of
                  Inl e \<Rightarrow> (Inl e, w)
                | Inr _ \<Rightarrow> (Inr (), w\<lparr>hs_directory := Some 448\<rparr>))))"

definition remove_stale ::
    "start_env \<Rightarrow> start_script \<Rightarrow> ('k, 'y) host_state_scheme \<Rightarrow>
     unit result \<times> ('k, 'y) host_state_scheme" where
  "remove_stale env scr w =
     (if hs_socket w = None then (Inr (), w)
      else if ss_connects scr
      then (bail (''watchcatd is already listening at '' @ loc_path (sn_socket_path env)), w)
      else (case attempt (ss_remove scr) of
          Inl e \<Rightarrow> (Inl e, w)
        | Inr _ \<Rightarrow> (Inr (), w\<lparr>hs_socket := None\<rparr>)))"

definition bind_socket ::
    "start_script \<Rightarrow> nat \<Rightarrow> ('k, 'y) host_state_scheme \<Rightarrow> unit result \<times> ('k, 'y) host_state_scheme" where
  "bind_socket scr p w =
     (if hs_socket w \<noteq> None then (bail ''Address already in use'', w)
      else (case attempt (ss_bind scr) of
          Inl e \<Rightarrow> (Inl e, w)
        | Inr _ \<Rightarrow> (Inr (), w\<lparr>hs_socket := Some (p, ss_umask_mode scr)\<rparr>)))"

definition restrict_socket ::
    "start_script \<Rightarrow> ('k, 'y) host_state_scheme \<Rightarrow> unit result \<times> ('k, 'y) host_state_scheme" where
  "restrict_socket scr w =
     (case attempt (ss_socket_mode scr) of
        Inl e \<Rightarrow> (Inl e, w)
      | Inr _ \<Rightarrow> (Inr (), w\<lparr>hs_socket := map_option (\<lambda>(q, mode). (q, 384)) (hs_socket w)\<rparr>))"

text \<open>
  Leaving \<open>serve\<close>, by an error or at its end: from the stage at which the guard exists, the
  socket is removed if that succeeds; then the lock is given back.
\<close>

definition leave ::
    "('k, 'z) file_lock_scheme \<Rightarrow> bool \<Rightarrow> nat \<Rightarrow> ('k, 'y) host_state_scheme \<Rightarrow> ('k, 'y) host_state_scheme" where
  "leave lk removed p w =
     w\<lparr>hs_socket := (if removed \<and> hs_stage w p \<in> {Guarded, Serves} then None else hs_socket w),
       hs_lock := lk_free lk p (hs_lock w), hs_stage := (hs_stage w)(p := Outside)\<rparr>"

text \<open>The next call of \<open>serve\<close> in process \<open>p\<close>.\<close>

definition start_step ::
    "('k, 'z) file_lock_scheme \<Rightarrow> start_env \<Rightarrow> start_script \<Rightarrow> bool \<Rightarrow> nat \<Rightarrow>
     ('k, 'y) host_state_scheme \<Rightarrow> unit result \<times> ('k, 'y) host_state_scheme" where
  "start_step lk env scr removed p w =
     (let step_to = (\<lambda>st (r, w'). case r of
            Inl e \<Rightarrow> (Inl e, if hs_stage w p = Outside then w' else leave lk removed p w')
          | Inr _ \<Rightarrow> (Inr (), w'\<lparr>hs_stage := (hs_stage w')(p := st)\<rparr>))
      in case hs_stage w p of
           Outside \<Rightarrow> step_to Locked (acquire_lock lk (sn_lock_path env) scr p w)
         | Locked \<Rightarrow> step_to Directory_Ready (make_directory env scr w)
         | Directory_Ready \<Rightarrow> step_to Stale_Removed (remove_stale env scr w)
         | Stale_Removed \<Rightarrow> step_to Bound (bind_socket scr p w)
         | Bound \<Rightarrow> step_to Guarded (restrict_socket scr w)
         | Guarded \<Rightarrow> step_to Serves (ss_load scr, w)
         | Serves \<Rightarrow> (Inr (), w))"



section \<open>All interleavings\<close>

text \<open>
  At first no process runs; a socket file may have been left behind.  A process can leave at
  any stage (an error, a signal, or a command that only wanted the lock), or be killed.
\<close>

definition killed :: "('k, 'z) file_lock_scheme \<Rightarrow> nat \<Rightarrow> 'k host_state \<Rightarrow> 'k host_state" where
  "killed lk p w = w\<lparr>hs_lock := lk_free lk p (hs_lock w), hs_stage := (hs_stage w)(p := Outside)\<rparr>"

inductive hosting :: "('k, 'z) file_lock_scheme \<Rightarrow> ('k \<Rightarrow> nat option) \<Rightarrow> start_env \<Rightarrow> 'k host_state \<Rightarrow> bool"
  for lk holder env where
  booted: "holder (hs_lock w) = None \<Longrightarrow> (\<forall>p. hs_stage w p = Outside) \<Longrightarrow> hosting lk holder env w"
| started: "hosting lk holder env w \<Longrightarrow> start_step lk env scr removed p w = (r, w') \<Longrightarrow>
    hosting lk holder env w'"
| left: "hosting lk holder env w \<Longrightarrow> hosting lk holder env (leave lk removed p w)"
| died: "hosting lk holder env w \<Longrightarrow> hosting lk holder env (killed lk p w)"

text \<open>What a process can rely on at each stage.\<close>

fun stage_ok :: "'k host_state \<Rightarrow> nat \<Rightarrow> stage \<Rightarrow> bool" where
  "stage_ok w p Outside \<longleftrightarrow> True"
| "stage_ok w p Locked \<longleftrightarrow> True"
| "stage_ok w p Directory_Ready \<longleftrightarrow> hs_directory w = Some 448"
| "stage_ok w p Stale_Removed \<longleftrightarrow> hs_directory w = Some 448 \<and> hs_socket w = None"
| "stage_ok w p Bound \<longleftrightarrow> hs_directory w = Some 448 \<and> (\<exists>mode. hs_socket w = Some (p, mode))"
| "stage_ok w p Guarded \<longleftrightarrow> hs_directory w = Some 448 \<and> hs_socket w = Some (p, 384)"
| "stage_ok w p Serves \<longleftrightarrow> hs_directory w = Some 448 \<and> hs_socket w = Some (p, 384)"

definition hosting_inv :: "('k \<Rightarrow> nat option) \<Rightarrow> 'k host_state \<Rightarrow> bool" where
  "hosting_inv holder w \<longleftrightarrow>
     (\<forall>p. hs_stage w p \<noteq> Outside \<longleftrightarrow> holder (hs_lock w) = Some p) \<and>
     (\<forall>p. stage_ok w p (hs_stage w p)) \<and>
     (\<forall>p. hs_stage w p \<noteq> Outside \<longrightarrow> hs_lock_text w = Some (show_nat p))"

lemma exclusiveD:
  assumes "exclusive lk holder"
  shows "lk_try lk p k = Some k' \<Longrightarrow> holder k = None \<and> holder k' = Some p"
    and "holder (lk_free lk p k) = (if holder k = Some p then None else holder k)"
    and "holder k = None \<Longrightarrow> \<exists>k'. lk_try lk p k = Some k' \<and> holder k' = Some p"
proof -
  show "holder k = None \<Longrightarrow> \<exists>k'. lk_try lk p k = Some k' \<and> holder k' = Some p"
    using assms by (simp add: exclusive_def)
  then show "lk_try lk p k = Some k' \<Longrightarrow> holder k = None \<and> holder k' = Some p"
    using assms unfolding exclusive_def by (metis option.distinct(1) option.inject)
  show "holder (lk_free lk p k) = (if holder k = Some p then None else holder k)"
    using assms by (simp add: exclusive_def)
qed

lemma hosting_inv_only:
  "hosting_inv holder w \<Longrightarrow> hs_stage w p \<noteq> Outside \<Longrightarrow> q \<noteq> p \<Longrightarrow> hs_stage w q = Outside"
  unfolding hosting_inv_def by (metis option.inject)

text \<open>The process that holds the lock goes on, while all others are outside.\<close>

lemma hosting_inv_advance:
  assumes "hosting_inv holder w" and "hs_stage w p \<noteq> Outside" and "hs_stage w' = hs_stage w"
    and "hs_lock w' = hs_lock w" and "hs_lock_text w' = hs_lock_text w"
    and "stage_ok (w'\<lparr>hs_stage := (hs_stage w')(p := st)\<rparr>) p st" and "st \<noteq> Outside"
  shows "hosting_inv holder (w'\<lparr>hs_stage := (hs_stage w')(p := st)\<rparr>)"
proof -
  have out: "hs_stage w q = Outside" if "q \<noteq> p" for q
    using hosting_inv_only [OF assms(1,2) that] .
  have held: "holder (hs_lock w) = Some p" and pid: "hs_lock_text w = Some (show_nat p)"
    using assms(1,2) by (auto simp: hosting_inv_def)
  have "stage_ok x q (((hs_stage w)(p := st)) q)" if "stage_ok x p st" for x q
    using that out [of q] by simp
  with assms(3-7) held pid out show ?thesis by (auto simp: hosting_inv_def)
qed

lemma hosting_inv_gone:
  assumes "exclusive lk holder" and "hosting_inv holder w"
    and "hs_lock w' = lk_free lk p (hs_lock w)" and "hs_stage w' = (hs_stage w)(p := Outside)"
    and "hs_lock_text w' = hs_lock_text w" and "hs_directory w' = hs_directory w \<or> hs_stage w p \<noteq> Outside"
    and "hs_socket w' = hs_socket w \<or> hs_stage w p \<noteq> Outside"
  shows "hosting_inv holder w'"
proof (cases "hs_stage w p = Outside")
  case True
  then have "holder (hs_lock w) \<noteq> Some p" using assms(2) by (auto simp: hosting_inv_def)
  moreover have "stage_ok w q st \<longleftrightarrow> stage_ok w' q st" for q st
    using True assms(6,7) by (cases st) simp_all
  ultimately show ?thesis
    using assms True exclusiveD(2) [OF assms(1)] by (auto simp: hosting_inv_def)
next
  case False
  then have "hs_stage w' q = Outside" for q
    using hosting_inv_only [OF assms(2) False, of q] assms(4) by auto
  moreover have "holder (hs_lock w') = None"
    using False assms(1-3) exclusiveD(2) [OF assms(1)] by (auto simp: hosting_inv_def)
  ultimately show ?thesis by (simp add: hosting_inv_def)
qed

lemma acquire_lock_inv:
  assumes "exclusive lk holder" and "hosting_inv holder w" and "hs_stage w p = Outside"
    and "acquire_lock lk path scr p w = (r, w')"
  shows "case r of Inl e \<Rightarrow> hosting_inv holder w'
    | Inr _ \<Rightarrow> hosting_inv holder (w'\<lparr>hs_stage := (hs_stage w')(p := Locked)\<rparr>)"
proof -
  have idle: "hosting_inv holder (w\<lparr>hs_lock := k, hs_lock_text := t\<rparr>)"
    if "holder (hs_lock w) = None" and "holder k = None" for k t
    using assms(2) that by (auto simp: hosting_inv_def)
  have idle': "hosting_inv holder (w\<lparr>hs_lock_text := t, hs_lock := k\<rparr>)"
    if "holder (hs_lock w) = None" and "holder k = None" for k t
    using assms(2) that by (auto simp: hosting_inv_def)
  have busy: "hosting_inv holder (w\<lparr>hs_lock_text := Some (unwrap_or (hs_lock_text w) [])\<rparr>)"
  proof -
    have "stage_ok (w\<lparr>hs_lock_text := t\<rparr>) q st \<longleftrightarrow> stage_ok w q st" for q st t by (cases st) simp_all
    with assms(2) show ?thesis by (auto simp: hosting_inv_def)
  qed
  show ?thesis
  proof (cases "\<exists>k. lk_try lk p (hs_lock w) = Some k")
    case True
    then obtain k where k: "lk_try lk p (hs_lock w) = Some k" by blast
    from exclusiveD(1) [OF assms(1) k] have free: "holder (hs_lock w) = None" and mine: "holder k = Some p" by auto
    have given: "holder (lk_free lk p k) = None" using mine exclusiveD(2) [OF assms(1)] by simp
    have out: "hs_stage w q = Outside" for q
      using assms(2) free by (auto simp: hosting_inv_def)
    have taken: "hosting_inv holder (w\<lparr>hs_lock := k, hs_lock_text := Some (show_nat p),
        hs_stage := (hs_stage w)(p := Locked)\<rparr>)"
      using out mine by (auto simp: hosting_inv_def)
    from assms(2,4) k given show ?thesis
      by (auto simp: acquire_lock_def Let_def attempt_def intro!: idle [OF free] idle' [OF free] taken
          split: option.splits sum.splits)
  next
    case False
    with assms(4) busy assms(2) show ?thesis
      by (auto simp: acquire_lock_def Let_def attempt_def split: option.splits sum.splits)
  qed
qed

lemma hosting_inv_leave:
  "exclusive lk holder \<Longrightarrow> hosting_inv holder w \<Longrightarrow> hosting_inv holder (leave lk removed p w)"
  by (erule hosting_inv_gone [where p = p]) (auto simp: leave_def)

lemma hosting_inv_killed:
  "exclusive lk holder \<Longrightarrow> hosting_inv holder w \<Longrightarrow> hosting_inv holder (killed lk p w)"
  by (erule hosting_inv_gone [where p = p]) (auto simp: killed_def)

text \<open>A failed call leaves the directory and the socket as they are.\<close>

lemma calls_on_failure:
  "make_directory env scr w = (Inl e, w') \<Longrightarrow> w' = w"
  "remove_stale env scr w = (Inl e, w') \<Longrightarrow> w' = w"
  "bind_socket scr p w = (Inl e, w') \<Longrightarrow> w' = w"
  "restrict_socket scr w = (Inl e, w') \<Longrightarrow> w' = w"
  by (auto simp: make_directory_def remove_stale_def bind_socket_def restrict_socket_def
      split: option.splits sum.splits if_splits)

lemma calls_on_success:
  "make_directory env scr w = (Inr u, w') \<Longrightarrow> loc_parent (sn_socket_path env) \<noteq> None \<Longrightarrow>
     w' = w\<lparr>hs_directory := Some 448\<rparr>"
  "remove_stale env scr w = (Inr u, w') \<Longrightarrow> w' = w\<lparr>hs_socket := None\<rparr>"
  "bind_socket scr p w = (Inr u, w') \<Longrightarrow> w' = w\<lparr>hs_socket := Some (p, ss_umask_mode scr)\<rparr>"
  "restrict_socket scr w = (Inr u, w') \<Longrightarrow>
     w' = w\<lparr>hs_socket := map_option (\<lambda>(q, mode). (q, 384)) (hs_socket w)\<rparr>"
  by (auto simp: make_directory_def remove_stale_def bind_socket_def restrict_socket_def
      split: option.splits sum.splits if_splits)

lemma start_step_inv:
  assumes "exclusive lk holder" and "loc_parent (sn_socket_path env) \<noteq> None" and "hosting_inv holder w"
    and "start_step lk env scr removed p w = (r, w')"
  shows "hosting_inv holder w'"
proof -
  have ok: "stage_ok w p (hs_stage w p)" using assms(3) by (simp add: hosting_inv_def)
  have fail: "hosting_inv holder (leave lk removed p w)"
    by (rule hosting_inv_leave [OF assms(1,3)])
  note go = hosting_inv_advance [OF assms(3)]
  show ?thesis
  proof (cases "hs_stage w p")
    case Outside
    obtain r1 w1 where run: "acquire_lock lk (sn_lock_path env) scr p w = (r1, w1)" by (metis surj_pair)
    from acquire_lock_inv [OF assms(1,3) Outside run] assms(4) run Outside show ?thesis
      by (auto simp: start_step_def split: sum.splits)
  next
    case Locked
    obtain r1 w1 where run: "make_directory env scr w = (r1, w1)" by (metis surj_pair)
    show ?thesis
    proof (cases r1)
      case (Inl e)
      with run calls_on_failure(1) [of env scr w e w1] assms(4) Locked fail show ?thesis
        by (auto simp: start_step_def)
    next
      case (Inr u)
      with run calls_on_success(1) [of env scr w u w1] assms(2,4) Locked
        go [of p "w\<lparr>hs_directory := Some 448\<rparr>" Directory_Ready] show ?thesis
        by (auto simp: start_step_def)
    qed
  next
    case Directory_Ready
    obtain r1 w1 where run: "remove_stale env scr w = (r1, w1)" by (metis surj_pair)
    show ?thesis
    proof (cases r1)
      case (Inl e)
      with run calls_on_failure(2) [of env scr w e w1] assms(4) Directory_Ready fail show ?thesis
        by (auto simp: start_step_def)
    next
      case (Inr u)
      with run calls_on_success(2) [of env scr w u w1] assms(4) Directory_Ready ok
        go [of p "w\<lparr>hs_socket := None\<rparr>" Stale_Removed] show ?thesis
        by (auto simp: start_step_def)
    qed
  next
    case Stale_Removed
    obtain r1 w1 where run: "bind_socket scr p w = (r1, w1)" by (metis surj_pair)
    show ?thesis
    proof (cases r1)
      case (Inl e)
      with run calls_on_failure(3) [of scr p w e w1] assms(4) Stale_Removed fail show ?thesis
        by (auto simp: start_step_def)
    next
      case (Inr u)
      with run calls_on_success(3) [of scr p w u w1] assms(4) Stale_Removed ok
        go [of p "w\<lparr>hs_socket := Some (p, ss_umask_mode scr)\<rparr>" Bound] show ?thesis
        by (auto simp: start_step_def)
    qed
  next
    case Bound
    obtain r1 w1 where run: "restrict_socket scr w = (r1, w1)" by (metis surj_pair)
    show ?thesis
    proof (cases r1)
      case (Inl e)
      with run calls_on_failure(4) [of scr w e w1] assms(4) Bound fail show ?thesis
        by (auto simp: start_step_def)
    next
      case (Inr u)
      with run calls_on_success(4) [of scr w u w1] assms(4) Bound ok
        go [of p "w\<lparr>hs_socket := Some (p, 384)\<rparr>" Guarded] show ?thesis
        by (auto simp: start_step_def)
    qed
  next
    case Guarded
    show ?thesis
    proof (cases "ss_load scr")
      case (Inl e)
      with assms(4) Guarded fail show ?thesis by (auto simp: start_step_def)
    next
      case (Inr u)
      with assms(4) Guarded ok go [of p w Serves] show ?thesis by (auto simp: start_step_def)
    qed
  next
    case Serves
    with assms(3,4) show ?thesis by (auto simp: start_step_def)
  qed
qed

text \<open>A start that no call of the system disturbs, six calls long.\<close>

definition undisturbed :: "start_script \<Rightarrow> bool" where
  "undisturbed scr \<longleftrightarrow>
     ss_lock_directory scr = None \<and> ss_open scr = None \<and> ss_truncate scr = None \<and>
     ss_pid scr = None \<and> ss_directory scr = None \<and> ss_directory_mode scr = None \<and>
     \<not> ss_connects scr \<and> ss_remove scr = None \<and> ss_bind scr = None \<and>
     ss_socket_mode scr = None \<and> ss_load scr = Inr ()"

fun start_run ::
    "('k, 'z) file_lock_scheme \<Rightarrow> start_env \<Rightarrow> start_script \<Rightarrow> nat \<Rightarrow> nat \<Rightarrow> 'k host_state \<Rightarrow> 'k host_state" where
  "start_run lk env scr p 0 w = w"
| "start_run lk env scr p (Suc n) w = start_run lk env scr p n (snd (start_step lk env scr True p w))"

lemma hosting_run: "hosting lk holder env w \<Longrightarrow> hosting lk holder env (start_run lk env scr p n w)"
proof (induction n arbitrary: w)
  case (Suc n)
  have "hosting lk holder env (snd (start_step lk env scr True p w))"
    by (rule hosting.started [OF Suc.prems prod.collapse [symmetric]])
  from Suc.IH [OF this] show ?case by simp
qed simp

lemma undisturbed_start:
  assumes "exclusive lk holder" and "loc_parent (sn_lock_path env) \<noteq> None" and "undisturbed scr"
    and "holder (hs_lock w) = None" and "hs_stage w p = Outside"
  shows "hs_stage (start_run lk env scr p 6 w) p = Serves"
proof -
  note scr = assms(3) [unfolded undisturbed_def] attempt_def
  obtain k where "lk_try lk p (hs_lock w) = Some k"
    using exclusiveD(3) [OF assms(1,4)] by blast
  then obtain w1 where w1: "start_step lk env scr True p w = (Inr (), w1)" "hs_stage w1 p = Locked"
    using assms(2,5) by (auto simp: start_step_def acquire_lock_def Let_def scr)
  obtain w2 where w2: "start_step lk env scr True p w1 = (Inr (), w2)" "hs_stage w2 p = Directory_Ready"
    using w1(2) by (cases "loc_parent (sn_socket_path env)") (auto simp: start_step_def make_directory_def scr)
  obtain w3 where w3: "start_step lk env scr True p w2 = (Inr (), w3)" "hs_stage w3 p = Stale_Removed"
    and free: "hs_socket w3 = None"
    using w2(2) by (cases "hs_socket w2") (auto simp: start_step_def remove_stale_def scr)
  obtain w4 where w4: "start_step lk env scr True p w3 = (Inr (), w4)" "hs_stage w4 p = Bound"
    using w3(2) free by (auto simp: start_step_def bind_socket_def scr)
  obtain w5 where w5: "start_step lk env scr True p w4 = (Inr (), w5)" "hs_stage w5 p = Guarded"
    using w4(2) by (auto simp: start_step_def restrict_socket_def scr)
  obtain w6 where w6: "start_step lk env scr True p w5 = (Inr (), w6)" "hs_stage w6 p = Serves"
    using w5(2) by (auto simp: start_step_def scr)
  show ?thesis by (simp add: numeral_eq_Suc w1(1) w2(1) w3(1) w4(1) w5(1) w6)
qed

text \<open>C40: At most one service works on a state directory, and its socket stays its own.  In
  every interleaving of any number of processes that start, fail, stop, only take the lock
  or are killed, at most one has passed the lock; the one that serves holds the lock with
  its process id in it, and its socket exists, was bound by it, and only its user can use
  it or enter its directory.  After a kill, whatever it left behind, an undisturbed start
  gets to serve.
\<close>
theorem one_service_at_a_time:
  assumes "exclusive lk holder" and "loc_parent (sn_socket_path env) \<noteq> None"
    and "loc_parent (sn_lock_path env) \<noteq> None" and "hosting lk holder env w"
  shows "(\<forall>p q. hs_stage w p \<noteq> Outside \<and> hs_stage w q \<noteq> Outside \<longrightarrow> p = q) \<and>
    (\<forall>p. hs_stage w p = Serves \<longrightarrow> holder (hs_lock w) = Some p \<and> hs_lock_text w = Some (show_nat p) \<and>
       hs_socket w = Some (p, 384) \<and> hs_directory w = Some 448) \<and>
    (\<forall>p scr. (\<forall>q. hs_stage w q = Outside) \<and> undisturbed scr \<longrightarrow>
       hs_stage (start_run lk env scr p 6 w) p = Serves)"
proof -
  from assms(4) have inv: "hosting_inv holder w"
  proof induction
    case (booted w)
    then show ?case by (simp add: hosting_inv_def)
  next
    case (started w scr removed p r w')
    from start_step_inv [OF assms(1,2) started.IH started.hyps(2)] show ?case .
  next
    case (left w removed p)
    from hosting_inv_leave [OF assms(1) left.IH] show ?case .
  next
    case (died w p)
    from hosting_inv_killed [OF assms(1) died.IH] show ?case .
  qed
  then have "hs_directory w = Some 448 \<and> hs_socket w = Some (p, 384)" if "hs_stage w p = Serves" for p
    using that unfolding hosting_inv_def by (metis stage_ok.simps(7))
  moreover have "holder (hs_lock w) = None" if "\<forall>q. hs_stage w q = Outside"
    using inv that by (auto simp: hosting_inv_def)
  then have "\<forall>p scr. (\<forall>q. hs_stage w q = Outside) \<and> undisturbed scr \<longrightarrow>
      hs_stage (start_run lk env scr p 6 w) p = Serves"
    using undisturbed_start [OF assms(1,3)] by blast
  moreover have "p = q" if "hs_stage w p \<noteq> Outside" "hs_stage w q \<noteq> Outside" for p q
    using hosting_inv_only [OF inv that(1), of q] that(2) by blast
  moreover have "holder (hs_lock w) = Some p \<and> hs_lock_text w = Some (show_nat p)" if "hs_stage w p = Serves" for p
    using inv that unfolding hosting_inv_def by (metis stage.distinct(11))
  ultimately show ?thesis by blast
qed

definition example_lock :: "nat option file_lock" where
  "example_lock = \<lparr>lk_try = (\<lambda>p k. if k = None then Some (Some p) else None),
     lk_free = (\<lambda>p k. if k = Some p then None else k)\<rparr>"

definition example_start_env :: start_env where
  "example_start_env = \<lparr>sn_lock_path = \<lparr>loc_path = ''s/lock'', loc_parent = Some ''s''\<rparr>,
     sn_socket_path = \<lparr>loc_path = ''s/sock'', loc_parent = Some ''s''\<rparr>\<rparr>"

definition smooth_start :: start_script where
  "smooth_start = \<lparr>ss_lock_directory = None, ss_open = None, ss_truncate = None, ss_pid = None,
     ss_directory = None, ss_directory_mode = None, ss_connects = False, ss_remove = None,
     ss_bind = None, ss_umask_mode = 493, ss_socket_mode = None, ss_load = Inr ()\<rparr>"

text \<open>A socket left behind by process 7; process 8 starts, then process 9 tries to.\<close>

definition after_crash :: "nat option host_state" where
  "after_crash = \<lparr>hs_lock = None, hs_lock_text = Some (show_nat 7), hs_directory = Some 448,
     hs_socket = Some (7, 384), hs_stage = (\<lambda>p. Outside)\<rparr>"

theorem one_service_at_a_time_witness:
  "hs_socket (start_run example_lock example_start_env smooth_start 9 1
      (start_run example_lock example_start_env smooth_start 8 6 after_crash)) = Some (8, 384)"
proof -
  let ?run = "start_run example_lock example_start_env smooth_start"
  have lock: "exclusive example_lock id" by (simp add: exclusive_def example_lock_def)
  have paths: "loc_parent (sn_socket_path example_start_env) \<noteq> None"
    "loc_parent (sn_lock_path example_start_env) \<noteq> None" by (simp_all add: example_start_env_def)
  have booted: "hosting example_lock id example_start_env after_crash"
    by (rule hosting.booted) (simp_all add: after_crash_def)
  have "undisturbed smooth_start" by (simp add: undisturbed_def smooth_start_def)
  with one_service_at_a_time [OF lock paths booted] have serves: "hs_stage (?run 8 6 after_crash) 8 = Serves"
    by (simp add: after_crash_def)
  have hosted: "hosting example_lock id example_start_env (?run 8 6 after_crash)"
    by (rule hosting_run [OF booted])
  note now = one_service_at_a_time [OF lock paths hosted]
  from now serves have held: "hs_lock (?run 8 6 after_crash) = Some 8" by simp
  from now have "hs_stage (?run 8 6 after_crash) 9 \<noteq> Outside \<and> hs_stage (?run 8 6 after_crash) 8 \<noteq> Outside \<longrightarrow>
      (9 :: nat) = 8" by blast
  with serves have other: "hs_stage (?run 8 6 after_crash) 9 = Outside" by simp
  have "hs_stage (?run 9 1 (?run 8 6 after_crash)) 8 = Serves"
    using serves held other
    by (simp add: start_step_def acquire_lock_def example_lock_def smooth_start_def attempt_def
        example_start_env_def)
  with one_service_at_a_time [OF lock paths hosting_run [OF hosted, of smooth_start 9 1]]
  show ?thesis by blast
qed

end
