(* ===== verification/Service_Unit.thy ===== *)
theory Service_Unit
  imports Paths
begin

text \<open>
  The definition with which the operating system is asked to run the daemon (\<open>definition\<close> in
  \<open>service.rs\<close>): a property list for launchd or a unit for systemd, with the values escaped,
  and readers of both formats, so far as they are used, against which the text is proved.
\<close>


section \<open>Escaping\<close>

text \<open>
  What a formatter and a reader of one format promise each other: every character is
  written as a text of its own, from which the reader gets it back and goes on.
\<close>

locale escaping =
  fixes escape :: "char \<Rightarrow> string" and unescape :: "string \<Rightarrow> string option"
  assumes unescape_empty: "unescape [] = Some []"
    and unescape_char: "unescape (escape c @ s) = map_option (Cons c) (unescape s)"
begin

lemma unescape_text: "unescape (concat (map escape s)) = Some s"
  by (induction s) (simp_all add: unescape_empty unescape_char)

lemma escape_injective:
  "concat (map escape s) = concat (map escape t) \<Longrightarrow> s = t"
  by (metis option.inject unescape_text)

end

text \<open>Replacing one character everywhere.\<close>

definition subst_char :: "char \<Rightarrow> string \<Rightarrow> char \<Rightarrow> string" where
  "subst_char c r x = (if x = c then r else [x])"

lemma replace_text_char: "replace_text [c] r s = concat (map (subst_char c r) s)"
proof (induction s)
  case (Cons x s)
  show ?case
  proof (cases "x = c")
    case True
    then show ?thesis
      using replace_text_match [of "[c]" r s] Cons by (simp add: subst_char_def)
  next
    case False
    then show ?thesis
      using replace_text_skip [of "[c]" "[x]" r s] Cons by (simp add: subst_char_def)
  qed
qed simp

lemma concat_map_concat:
  "concat (map f (concat (map g s))) = concat (map (\<lambda>x. concat (map f (g x))) s)"
  by (induction s) simp_all


section \<open>launchd\<close>

definition control_refused :: "'a result" where
  "control_refused = bail ''service paths and environment cannot contain control characters''"

definition xml :: "string \<Rightarrow> string result" where
  "xml s =
     (if has_control s then control_refused
      else Inr (replace_text [CHR 0x27] ''&apos;''
                 (replace_text [CHR 0x22] ''&quot;''
                   (replace_text ''>'' ''&gt;''
                     (replace_text ''<'' ''&lt;''
                       (replace_text ''&'' ''&amp;'' s))))))"

text \<open>What becomes of a character, and the five predefined entities of XML.\<close>

definition xml_entities :: "(string \<times> char) list" where
  "xml_entities =
     [(''amp'', CHR ''&''), (''lt'', CHR ''<''), (''gt'', CHR ''>''), (''quot'', CHR 0x22),
      (''apos'', CHR 0x27)]"

definition xml_char :: "char \<Rightarrow> string" where
  "xml_char c =
     (if c = CHR ''&'' then ''&amp;''
      else if c = CHR ''<'' then ''&lt;''
      else if c = CHR ''>'' then ''&gt;''
      else if c = CHR 0x22 then ''&quot;''
      else if c = CHR 0x27 then ''&apos;''
      else [c])"

fun xml_read :: "string option \<Rightarrow> string \<Rightarrow> string option" where
  "xml_read None [] = Some []"
| "xml_read (Some e) [] = None"
| "xml_read None (c # s) =
     (if c = CHR ''&'' then xml_read (Some []) s else map_option (Cons c) (xml_read None s))"
| "xml_read (Some e) (c # s) =
     (if c = CHR '';'' then
        (case map_of xml_entities (rev e) of
           None \<Rightarrow> None
         | Some d \<Rightarrow> map_option (Cons d) (xml_read None s))
      else xml_read (Some (c # e)) s)"

lemma xml_Inr: "xml s = Inr t \<longleftrightarrow> \<not> has_control s \<and> t = concat (map xml_char s)"
proof -
  have "concat (map (subst_char (CHR 0x27) ''&apos;'') (concat (map (subst_char (CHR 0x22) ''&quot;'')
      (concat (map (subst_char (CHR ''>'') ''&gt;'') (concat (map (subst_char (CHR ''<'') ''&lt;'')
        (subst_char (CHR ''&'') ''&amp;'' c)))))))) = xml_char c" for c
    by (simp add: xml_char_def subst_char_def)
  then show ?thesis
    by (auto simp: xml_def control_refused_def replace_text_char concat_map_concat)
qed

interpretation xml: escaping xml_char "xml_read None"
  by unfold_locales (simp_all add: xml_char_def xml_entities_def)

lemma xml_char_no_markup: "CHR ''<'' \<notin> set (concat (map xml_char s))"
  by (induction s) (auto simp: xml_char_def)

lemma xml_char_no_end: "CHR ''>'' \<notin> set (concat (map xml_char s))"
  by (induction s) (auto simp: xml_char_def)


section \<open>systemd\<close>

definition quote :: "bool \<Rightarrow> string \<Rightarrow> string result" where
  "quote command s =
     (if has_control s then control_refused
      else let t = replace_text ''%'' ''%%''
                     (replace_text [CHR 0x22] [CHR 0x5C, CHR 0x22]
                       (replace_text [CHR 0x5C] [CHR 0x5C, CHR 0x5C] s));
               u = (if command then replace_text ''$'' ''$$'' t else t)
        in Inr (CHR 0x22 # u @ [CHR 0x22]))"

definition quote_char :: "bool \<Rightarrow> char \<Rightarrow> string" where
  "quote_char command c =
     (if c = CHR 0x5C then [CHR 0x5C, CHR 0x5C]
      else if c = CHR 0x22 then [CHR 0x5C, CHR 0x22]
      else if c = CHR ''%'' then ''%%''
      else if command \<and> c = CHR ''$'' then ''$$''
      else [c])"

lemma quote_Inr:
  "quote command s = Inr t \<longleftrightarrow>
     \<not> has_control s \<and> t = CHR 0x22 # concat (map (quote_char command) s) @ [CHR 0x22]"
proof -
  have "concat (map (subst_char (CHR ''%'') ''%%'') (concat (map (subst_char (CHR 0x22)
      [CHR 0x5C, CHR 0x22]) (subst_char (CHR 0x5C) [CHR 0x5C, CHR 0x5C] c)))) = quote_char False c"
    and "concat (map (subst_char (CHR ''$'') ''$$'') (quote_char False c)) = quote_char True c" for c
    by (simp_all add: quote_char_def subst_char_def)
  then show ?thesis
    by (cases command) (auto simp: quote_def Let_def control_refused_def replace_text_char concat_map_concat)
qed

text \<open>
  The words of a setting: what is quoted, with a backslash escaping itself and the quote;
  then \<open>%%\<close> is one percent sign, and in a command \<open>$$\<close> one dollar sign.  Other escapes,
  specifiers and variables have no value here.
\<close>

fun unit_read :: "bool \<Rightarrow> string \<Rightarrow> string option" where
  "unit_read command [] = Some []"
| "unit_read command [c] =
     (if c = CHR 0x5C \<or> c = CHR ''%'' \<or> command \<and> c = CHR ''$'' then None else Some [c])"
| "unit_read command (c # d # s) =
     (if c = CHR 0x5C then
        (if d = CHR 0x5C \<or> d = CHR 0x22 then map_option (Cons d) (unit_read command s) else None)
      else if c = CHR ''%'' \<or> command \<and> c = CHR ''$'' then
        (if d = c then map_option (Cons d) (unit_read command s) else None)
      else map_option (Cons c) (unit_read command (d # s)))"

lemma unit_read_plain:
  "\<lbrakk>c \<noteq> CHR 0x5C; c \<noteq> CHR ''%''; \<not> (command \<and> c = CHR ''$'')\<rbrakk> \<Longrightarrow>
     unit_read command (c # s) = map_option (Cons c) (unit_read command s)"
  by (cases s) auto

interpretation unit_text: escaping "quote_char command" "unit_read command" for command
  by unfold_locales (auto simp: quote_char_def unit_read_plain)

text \<open>Splitting a setting into its quoted words; \<open>scan\<close> holds the word that is open.\<close>

fun quoted_words :: "string option \<Rightarrow> string \<Rightarrow> string list option" where
  "quoted_words None [] = Some []"
| "quoted_words None (c # s) =
     (if c = CHR '' '' then quoted_words None s
      else if c = CHR 0x22 then quoted_words (Some []) s
      else None)"
| "quoted_words (Some w) [] = None"
| "quoted_words (Some w) [c] = (if c = CHR 0x22 then Some [rev w] else None)"
| "quoted_words (Some w) (c # d # s) =
     (if c = CHR 0x22 then map_option (Cons (rev w)) (quoted_words None (d # s))
      else if c = CHR 0x5C then quoted_words (Some (d # c # w)) s
      else quoted_words (Some (c # w)) (d # s))"

lemma quoted_words_plain:
  "c \<noteq> CHR 0x22 \<Longrightarrow> c \<noteq> CHR 0x5C \<Longrightarrow> quoted_words (Some w) (c # s) = quoted_words (Some (c # w)) s"
  by (cases s) auto

lemma quoted_words_end:
  "quoted_words (Some w) (CHR 0x22 # s) = map_option (Cons (rev w)) (quoted_words None s)"
  by (cases s) auto

lemma quoted_words_quote_char:
  "quoted_words (Some w) (quote_char command c @ s) = quoted_words (Some (rev (quote_char command c) @ w)) s"
  by (auto simp: quote_char_def quoted_words_plain)

lemma quoted_words_text:
  "quoted_words (Some w) (concat (map (quote_char command) t) @ CHR 0x22 # s) =
     map_option (Cons (rev w @ concat (map (quote_char command) t))) (quoted_words None s)"
  by (induction t arbitrary: w) (simp_all add: quoted_words_end quoted_words_quote_char)


section \<open>The definition\<close>

datatype service_os = MacOS | Linux

text \<open>\<open>iter().map(f).collect::<Result<Vec<_>>>()\<close>, and a loop whose body is a text.\<close>

fun map_results :: "('a \<Rightarrow> 'b result) \<Rightarrow> 'a list \<Rightarrow> 'b list result" where
  "map_results f [] = Inr []"
| "map_results f (x # xs) = bindR (f x) (\<lambda>y. bindR (map_results f xs) (\<lambda>ys. Inr (y # ys)))"

definition utf8_path :: "string \<Rightarrow> string result" where
  "utf8_path p = (if valid_utf8 p then Inr p else bail ''service paths must be valid UTF-8'')"

text \<open>\<open>std::env::var\<close>; the debug form of a value that is not Unicode is left out of its error.\<close>

definition env_var :: "surroundings \<Rightarrow> string \<Rightarrow> string result" where
  "env_var su name =
     (case su_var su name of
        None \<Rightarrow> bail ''environment variable not found''
      | Some v \<Rightarrow> if valid_utf8 v then Inr v else bail ''environment variable was not valid unicode'')"

definition optional_var :: "surroundings \<Rightarrow> string \<Rightarrow> (string \<times> string) list" where
  "optional_var su name = (case env_var su name of Inl e \<Rightarrow> [] | Inr v \<Rightarrow> [(name, v)])"

definition launchd_label :: string where
  "launchd_label = ''ai.watchcat.watchcatd''"

definition systemd_label :: string where
  "systemd_label = ''watchcatd.service''"

text \<open>A line of the property list with a value, and one with a key and its value.\<close>

definition string_line :: "string \<Rightarrow> string" where
  "string_line v = ''<string>'' @ v @ ''</string>'' @ [newline]"

definition key_line :: "string \<Rightarrow> string \<Rightarrow> string" where
  "key_line k v = ''<key>'' @ k @ ''</key><string>'' @ v @ ''</string>'' @ [newline]"

definition launchd_definition ::
    "string list \<Rightarrow> (string \<times> string) list \<Rightarrow> string \<Rightarrow> string result" where
  "launchd_definition arguments environment state =
     bindR (map_results (\<lambda>a. bindR (xml a) (\<lambda>v. Inr (string_line v))) arguments) (\<lambda>arg_lines.
     bindR (map_results (\<lambda>(k, v). bindR (xml v) (\<lambda>v. Inr (key_line k v))) environment) (\<lambda>env_lines.
     bindR (bindR (utf8_path (path_join state ''watchcatd.log'')) xml) (\<lambda>out.
     bindR (bindR (utf8_path (path_join state ''watchcatd.err.log'')) xml) (\<lambda>err. Inr
       (''<?xml version=\"1.0\" encoding=\"UTF-8\"?>'' @ [newline] @
        ''<plist version=\"1.0\"><dict>'' @ [newline] @
        key_line ''Label'' launchd_label @
        ''<key>ProgramArguments</key><array>'' @ [newline] @
        concat arg_lines @
        ''</array>'' @ [newline] @
        ''<key>EnvironmentVariables</key><dict>'' @ [newline] @
        concat env_lines @
        ''</dict>'' @ [newline] @
        ''<key>RunAtLoad</key><true/>'' @ [newline] @
        ''<key>KeepAlive</key><true/>'' @ [newline] @
        ''<key>ThrottleInterval</key><integer>10</integer>'' @ [newline] @
        key_line ''StandardOutPath'' out @
        key_line ''StandardErrorPath'' err @
        ''</dict></plist>'' @ [newline])))))"

definition systemd_definition ::
    "string list \<Rightarrow> (string \<times> string) list \<Rightarrow> string result" where
  "systemd_definition arguments environment =
     bindR (map_results (quote True) arguments) (\<lambda>words.
     bindR (map_results (\<lambda>(k, v). bindR (quote False (k @ ''='' @ v))
         (\<lambda>q. Inr (''Environment='' @ q @ [newline]))) environment) (\<lambda>env_lines. Inr
       (''[Unit]'' @ [newline] @
        ''Description=Watchcat local reliability service'' @ [newline] @
        ''After=network-online.target'' @ [newline] @ [newline] @
        ''[Service]'' @ [newline] @
        ''ExecStart='' @ join_text '' '' words @ [newline] @
        ''Restart=on-failure'' @ [newline] @
        ''RestartSec=10'' @ [newline] @
        ''UMask=0077'' @ [newline] @
        concat env_lines @
        [newline] @ ''[Install]'' @ [newline] @
        ''WantedBy=default.target'' @ [newline])))"

definition service_environment :: "surroundings \<Rightarrow> string \<Rightarrow> string \<Rightarrow> string \<Rightarrow> (string \<times> string) list" where
  "service_environment su search_path state watchlist =
     [(''PATH'', search_path), (''WATCHCAT_STATE_DIR'', state), (''WATCHCAT_WATCHLIST'', watchlist)] @
     optional_var su ''CLAUDE_CONFIG_DIR'' @ optional_var su ''CODEX_HOME''"

definition service_definition ::
    "service_os \<Rightarrow> surroundings \<Rightarrow> string \<Rightarrow> paths \<Rightarrow> string result" where
  "service_definition os su daemon p =
     bindR (std_absolute (su_cwd su) (pa_config_file p)) (\<lambda>config.
     bindR (ok_or (Root (Message ''state file has no parent'')) (path_parent (pa_state_file p))) (\<lambda>state.
     bindR (with_context ''PATH must be set for provider discovery'' (env_var su ''PATH'')) (\<lambda>search_path.
     bindR (utf8_path state) (\<lambda>state_text.
     bindR (utf8_path (pa_watchlist_file p)) (\<lambda>watchlist.
       let environment = service_environment su search_path state_text watchlist
       in bindR (utf8_path daemon) (\<lambda>daemon_text.
          bindR (utf8_path config) (\<lambda>config_text.
            let arguments = [daemon_text, ''--config'', config_text]
            in case os of
                 MacOS \<Rightarrow> launchd_definition arguments environment state
               | Linux \<Rightarrow> systemd_definition arguments environment)))))))"


section \<open>Reading a property list\<close>

text \<open>
  The events of an XML reader.  The entities of the text between tags are resolved; a text
  that does not resolve, or a tag that is not closed, is no document.
\<close>

datatype xml_event =
    Declaration string
  | Open string
  | Close string
  | Empty string
  | Chars string

definition tag_event :: "string \<Rightarrow> xml_event" where
  "tag_event t =
     (if t \<noteq> [] \<and> hd t = CHR ''?'' then Declaration t
      else if t \<noteq> [] \<and> hd t = slash then Close (tl t)
      else if t \<noteq> [] \<and> last t = slash then Empty (butlast t)
      else Open t)"

definition text_event :: "string \<Rightarrow> xml_event list option \<Rightarrow> xml_event list option" where
  "text_event t r =
     (if t = [] then r
      else Option.bind (xml_read None t) (\<lambda>d. map_option (Cons (Chars d)) r))"

fun xml_events :: "bool \<Rightarrow> string \<Rightarrow> string \<Rightarrow> xml_event list option" where
  "xml_events tag acc [] = (if tag then None else text_event (rev acc) (Some []))"
| "xml_events tag acc (c # s) =
     (if tag then
        if c = CHR ''>'' then map_option (Cons (tag_event (rev acc))) (xml_events False [] s)
        else xml_events True (c # acc) s
      else
        if c = CHR ''<'' then text_event (rev acc) (xml_events True [] s)
        else xml_events False (c # acc) s)"

text \<open>The elements that hold a value, and the part of a document from a key on.\<close>

fun string_values :: "xml_event list \<Rightarrow> string list" where
  "string_values [] = []"
| "string_values (e # es) =
     (if e = Open ''string'' then
        (case es of
           Chars v # rest \<Rightarrow> v # string_values es
         | _ \<Rightarrow> [] # string_values es)
      else string_values es)"

fun key_names :: "xml_event list \<Rightarrow> string list" where
  "key_names [] = []"
| "key_names (e # es) =
     (if e = Open ''key'' then
        (case es of
           Chars v # rest \<Rightarrow> v # key_names es
         | _ \<Rightarrow> [] # key_names es)
      else key_names es)"

fun after_key :: "string \<Rightarrow> xml_event list \<Rightarrow> xml_event list" where
  "after_key k [] = []"
| "after_key k (e # es) =
     (if take 3 (e # es) = [Open ''key'', Chars k, Close ''key''] then drop 3 (e # es) else after_key k es)"

definition inside :: "string \<Rightarrow> xml_event list \<Rightarrow> xml_event list" where
  "inside t es =
     (case es of [] \<Rightarrow> [] | e # rest \<Rightarrow> if e = Open t then takeWhile (\<lambda>e. e \<noteq> Close t) rest else [])"

definition read_launchd :: "string \<Rightarrow> (string list \<times> (string \<times> string) list) option" where
  "read_launchd doc =
     map_option
       (\<lambda>es. (string_values (inside ''array'' (after_key ''ProgramArguments'' es)),
              let environment = inside ''dict'' (after_key ''EnvironmentVariables'' es)
              in zip (key_names environment) (string_values environment)))
       (xml_events False [] doc)"


text \<open>The document that the definition is: tags, each with the text before it.\<close>

type_synonym xml_pieces = "(string \<times> string) list"

definition value_pieces :: "string \<Rightarrow> xml_pieces" where
  "value_pieces v = [([], ''string''), (v, ''/string'')]"

definition key_pieces :: "string \<Rightarrow> xml_pieces" where
  "key_pieces k = [([newline], ''key''), (k, ''/key'')]"

definition launchd_pieces ::
    "string list \<Rightarrow> (string \<times> string) list \<Rightarrow> string \<Rightarrow> string \<Rightarrow> xml_pieces" where
  "launchd_pieces arguments environment out err =
     [([], ''?xml version=\"1.0\" encoding=\"UTF-8\"?''), ([newline], ''plist version=\"1.0\"''), ([], ''dict'')] @
     key_pieces ''Label'' @ value_pieces launchd_label @
     key_pieces ''ProgramArguments'' @ [([], ''array'')] @
     concat (map (\<lambda>a. [([newline], ''string''), (a, ''/string'')]) arguments) @
     [([newline], ''/array'')] @
     key_pieces ''EnvironmentVariables'' @ [([], ''dict'')] @
     concat (map (\<lambda>(k, v). key_pieces k @ value_pieces v) environment) @
     [([newline], ''/dict'')] @
     key_pieces ''RunAtLoad'' @ [([], ''true/'')] @
     key_pieces ''KeepAlive'' @ [([], ''true/'')] @
     key_pieces ''ThrottleInterval'' @ [([], ''integer''), (''10'', ''/integer'')] @
     key_pieces ''StandardOutPath'' @ value_pieces out @
     key_pieces ''StandardErrorPath'' @ value_pieces err @
     [([newline], ''/dict''), ([], ''/plist'')]"

abbreviation xml_text :: "string \<Rightarrow> string" where
  "xml_text v \<equiv> concat (map xml_char v)"

definition piece_text :: "string \<times> string \<Rightarrow> string" where
  "piece_text = (\<lambda>(v, t). xml_text v @ CHR ''<'' # t @ ''>'')"

definition piece_events :: "string \<times> string \<Rightarrow> xml_event list" where
  "piece_events = (\<lambda>(v, t). (if v = [] then [] else [Chars v]) @ [tag_event t])"

lemma xml_events_text:
  "CHR ''<'' \<notin> set t \<Longrightarrow>
     xml_events False acc (t @ CHR ''<'' # s) = text_event (rev acc @ t) (xml_events True [] s)"
  by (induction t arbitrary: acc) auto

lemma xml_events_tag:
  "CHR ''>'' \<notin> set t \<Longrightarrow>
     xml_events True acc (t @ CHR ''>'' # s) =
       map_option (Cons (tag_event (rev acc @ t))) (xml_events False [] s)"
  by (induction t arbitrary: acc) auto

lemma text_event_value:
  "text_event (xml_text v) r = map_option (\<lambda>es. (if v = [] then [] else [Chars v]) @ es) r"
proof (cases v)
  case Nil
  then show ?thesis by (cases r) (simp_all add: text_event_def)
next
  case (Cons c w)
  then have "v \<noteq> []" and "xml_text v \<noteq> []" by (simp_all add: xml_char_def)
  then show ?thesis
    by (simp only: text_event_def xml.unescape_text if_False Option.bind.simps append.simps)
qed

lemma xml_events_piece:
  "CHR ''>'' \<notin> set (snd p) \<Longrightarrow>
     xml_events False [] (piece_text p @ s) =
       map_option (\<lambda>es. piece_events p @ es) (xml_events False [] s)"
proof -
  assume closed: "CHR ''>'' \<notin> set (snd p)"
  obtain v t where p: "p = (v, t)" by (cases p)
  have "xml_events False [] (piece_text p @ s) =
      text_event (xml_text v) (xml_events True [] (t @ CHR ''>'' # s))"
    using xml_events_text [OF xml_char_no_markup, of "[]" v "t @ CHR ''>'' # s"]
    by (simp only: p piece_text_def prod.case append.assoc append_Cons append_Nil rev.simps)
  also have "\<dots> = text_event (xml_text v) (map_option (Cons (tag_event t)) (xml_events False [] s))"
    using xml_events_tag [of t "[]" s] closed by (simp add: p)
  finally show ?thesis
    by (simp only: text_event_value option.map_comp comp_def p piece_events_def prod.case
        append.assoc append_Cons append_Nil)
qed

lemma xml_events_pieces:
  "\<forall>p \<in> set ps. CHR ''>'' \<notin> set (snd p) \<Longrightarrow>
     xml_events False [] (concat (map piece_text ps) @ s) =
       map_option (\<lambda>es. concat (map piece_events ps) @ es) (xml_events False [] s)"
proof (induction ps)
  case Nil
  then show ?case by (cases "xml_events False [] s") simp_all
next
  case (Cons p ps)
  then show ?case by (simp add: xml_events_piece option.map_comp comp_def)
qed

lemma xml_events_end: "xml_events False [] [newline] = Some [Chars [newline]]"
  by (simp add: text_event_def newline_def)

text \<open>The text of the definition is these pieces.\<close>

lemma map_results_Inr:
  "map_results f xs = Inr ys \<longleftrightarrow> list_all2 (\<lambda>x y. f x = Inr y) xs ys"
  by (induction xs arbitrary: ys) (auto simp: bindR_Inr_iff list_all2_Cons1)

lemma map_results_values:
  assumes "map_results f xs = Inr ys" and "\<And>x y. f x = Inr y \<Longrightarrow> y = g x"
  shows "ys = map g xs"
  using assms unfolding map_results_Inr by (induction rule: list_all2_induct) auto

lemma xml_char_newline [simp]: "xml_char newline = [newline]"
  by (simp add: xml_char_def newline_def)

lemma piece_text_pair [simp]: "piece_text (v, t) = xml_text v @ CHR ''<'' # t @ ''>''"
  by (simp add: piece_text_def)

lemma key_pieces_text [simp]:
  "concat (map piece_text (key_pieces k)) = newline # ''<key>'' @ xml_text k @ ''</key>''"
  by (simp add: key_pieces_def)

lemma value_pieces_text [simp]:
  "concat (map piece_text (value_pieces v)) = ''<string>'' @ xml_text v @ ''</string>''"
  by (simp add: value_pieces_def)

lemma argument_lines:
  "concat (map piece_text (concat (map (\<lambda>a. [([newline], ''string''), (a, ''/string'')]) as))) @
     newline # s = newline # concat (map (\<lambda>a. string_line (xml_text a)) as) @ s"
  by (induction as) (simp_all add: string_line_def)

lemma environment_lines:
  "\<forall>(k, v) \<in> set es. xml_text k = k \<Longrightarrow>
     concat (map piece_text (concat (map (\<lambda>(k, v). key_pieces k @ value_pieces v) es))) @ newline # s =
     newline # concat (map (\<lambda>(k, v). key_line k (xml_text v)) es) @ s"
  by (induction es) (auto simp: key_line_def)

lemma launchd_definition_Inr:
  assumes "launchd_definition arguments environment state = Inr doc"
    and "\<forall>(k, v) \<in> set environment. xml_text k = k"
  shows "doc = concat (map piece_text (launchd_pieces arguments environment
    (path_join state ''watchcatd.log'') (path_join state ''watchcatd.err.log''))) @ [newline]"
proof -
  from assms(1) obtain arg_lines env_lines where
    args: "map_results (\<lambda>a. bindR (xml a) (\<lambda>v. Inr (string_line v))) arguments = Inr arg_lines"
    and env: "map_results (\<lambda>(k, v). bindR (xml v) (\<lambda>v. Inr (key_line k v))) environment = Inr env_lines"
    and doc: "doc =
      ''<?xml version=\"1.0\" encoding=\"UTF-8\"?>'' @ [newline] @
        ''<plist version=\"1.0\"><dict>'' @ [newline] @
        key_line ''Label'' launchd_label @
        ''<key>ProgramArguments</key><array>'' @ [newline] @
        concat arg_lines @
        ''</array>'' @ [newline] @
        ''<key>EnvironmentVariables</key><dict>'' @ [newline] @
        concat env_lines @
        ''</dict>'' @ [newline] @
        ''<key>RunAtLoad</key><true/>'' @ [newline] @
        ''<key>KeepAlive</key><true/>'' @ [newline] @
        ''<key>ThrottleInterval</key><integer>10</integer>'' @ [newline] @
        key_line ''StandardOutPath'' (xml_text (path_join state ''watchcatd.log'')) @
        key_line ''StandardErrorPath'' (xml_text (path_join state ''watchcatd.err.log'')) @
        ''</dict></plist>'' @ [newline]"
    by (auto simp: launchd_definition_def bindR_Inr_iff utf8_path_def xml_Inr split: if_splits)
  have args: "arg_lines = map (\<lambda>a. string_line (xml_text a)) arguments"
    by (rule map_results_values [OF args]) (auto simp: bindR_Inr_iff xml_Inr)
  have env: "env_lines = map (\<lambda>(k, v). key_line k (xml_text v)) environment"
    by (rule map_results_values [OF env]) (auto simp: bindR_Inr_iff xml_Inr)
  show ?thesis
    unfolding doc args env launchd_pieces_def
    by (simp add: argument_lines environment_lines [OF assms(2)] key_line_def launchd_label_def
        xml_char_def) (simp add: newline_def)
qed

text \<open>What the reader gets back.\<close>

lemma piece_closed:
  "\<forall>p \<in> set (launchd_pieces arguments environment out err). CHR ''>'' \<notin> set (snd p)"
  by (auto simp: launchd_pieces_def key_pieces_def value_pieces_def)

abbreviation launchd_events ::
    "string list \<Rightarrow> (string \<times> string) list \<Rightarrow> string \<Rightarrow> string \<Rightarrow> xml_event list" where
  "launchd_events arguments environment out err \<equiv>
     concat (map piece_events (launchd_pieces arguments environment out err)) @ [Chars [newline]]"

lemma launchd_events_read:
  assumes "launchd_definition arguments environment state = Inr doc"
    and "\<forall>(k, v) \<in> set environment. xml_text k = k"
  shows "xml_events False [] doc = Some (launchd_events arguments environment
    (path_join state ''watchcatd.log'') (path_join state ''watchcatd.err.log''))"
  unfolding launchd_definition_Inr [OF assms] xml_events_pieces [OF piece_closed] xml_events_end
  by simp

lemma key_pieces_events [simp]:
  "concat (map piece_events (key_pieces k)) =
     [Chars [newline], Open ''key''] @ (if k = [] then [] else [Chars k]) @ [Close ''key'']"
  by (simp add: key_pieces_def piece_events_def tag_event_def slash_def)

lemma value_pieces_events [simp]:
  "concat (map piece_events (value_pieces v)) =
     Open ''string'' # (if v = [] then [] else [Chars v]) @ [Close ''string'']"
  by (simp add: value_pieces_def piece_events_def tag_event_def slash_def)

lemma string_values_value:
  "string_values (Open ''string'' # (if v = [] then [] else [Chars v]) @ Close ''string'' # es) =
     v # string_values es"
  by simp

lemma argument_events:
  "string_values (concat (map piece_events
     (concat (map (\<lambda>a. [([newline], ''string''), (a, ''/string'')]) as))) @ [Chars [newline]]) = as"
  by (induction as) (auto simp: piece_events_def tag_event_def slash_def)

lemma environment_events:
  assumes "\<forall>(k, v) \<in> set es. k \<noteq> []"
  defines "events \<equiv> concat (map piece_events
     (concat (map (\<lambda>(k, v). key_pieces k @ value_pieces v) es))) @ [Chars [newline]]"
  shows "string_values events = map snd es" and "key_names events = map fst es"
  using assms(1) unfolding events_def by (induction es) auto

lemma takeWhile_inside:
  "\<forall>e \<in> set es. e \<noteq> x \<Longrightarrow> takeWhile (\<lambda>e. e \<noteq> x) (es @ x # r) = es"
  by (induction es) auto

lemma argument_events_inside:
  "\<forall>e \<in> set (concat (map piece_events
     (concat (map (\<lambda>a. [([newline], ''string''), (a, ''/string'')]) as))) @ [Chars [newline]]).
     e \<noteq> Close ''array''"
  by (auto simp: piece_events_def tag_event_def slash_def)

lemma environment_events_inside:
  "\<forall>e \<in> set (concat (map piece_events
     (concat (map (\<lambda>(k, v). key_pieces k @ value_pieces v) es))) @ [Chars [newline]]).
     e \<noteq> Close ''dict''"
  by (auto simp: key_pieces_def value_pieces_def piece_events_def tag_event_def slash_def)

lemma after_key_skip:
  "\<forall>e \<in> set es. e \<noteq> Open ''key'' \<Longrightarrow> after_key k (es @ s) = after_key k s"
  by (induction es) auto

lemma argument_events_no_key:
  "\<forall>e \<in> set (concat (map piece_events
     (concat (map (\<lambda>a. [([newline], ''string''), (a, ''/string'')]) as)))). e \<noteq> Open ''key''"
  by (auto simp: piece_events_def tag_event_def slash_def)

lemma piece_events_pair:
  "piece_events (v, t) = (if v = [] then [] else [Chars v]) @ [tag_event t]"
  by (simp add: piece_events_def)

lemma inside_elements:
  "\<forall>e \<in> set (es @ [c]). e \<noteq> Close t \<Longrightarrow> inside t (Open t # es @ c # Close t # r) = es @ [c]"
  using takeWhile_inside [of "es @ [c]" "Close t" r] by (simp add: inside_def)

lemma launchd_read_back:
  assumes "launchd_definition arguments environment state = Inr doc"
    and "\<forall>(k, v) \<in> set environment. xml_text k = k \<and> k \<noteq> []"
  shows "read_launchd doc = Some (arguments, environment)"
proof -
  have keys: "\<forall>(k, v) \<in> set environment. xml_text k = k" "\<forall>(k, v) \<in> set environment. k \<noteq> []"
    using assms(2) by auto
  define args where "args = concat (map piece_events
     (concat (map (\<lambda>a. [([newline], ''string''), (a, ''/string'')]) arguments)))"
  define env where "env = concat (map piece_events
     (concat (map (\<lambda>(k, v). key_pieces k @ value_pieces v) environment)))"
  define es where "es = launchd_events arguments environment
    (path_join state ''watchcatd.log'') (path_join state ''watchcatd.err.log'')"
  have a: "\<exists>r. after_key ''ProgramArguments'' es = Open ''array'' # args @ Chars [newline] # Close ''array'' # r"
    and e: "\<exists>r. after_key ''EnvironmentVariables'' es = Open ''dict'' # env @ Chars [newline] # Close ''dict'' # r"
    unfolding es_def launchd_pieces_def
    by (simp_all add: piece_events_pair tag_event_def slash_def launchd_label_def
        flip: args_def env_def)
      (simp add: after_key_skip [OF argument_events_no_key] args_def)
  have read: "xml_events False [] doc = Some es"
    unfolding es_def by (rule launchd_events_read [OF assms(1) keys(1)])
  from a have "inside ''array'' (after_key ''ProgramArguments'' es) = args @ [Chars [newline]]"
    using inside_elements [of args "Chars [newline]"] argument_events_inside [of arguments]
    by (auto simp: args_def)
  moreover from e have "inside ''dict'' (after_key ''EnvironmentVariables'' es) = env @ [Chars [newline]]"
    using inside_elements [of env "Chars [newline]"] environment_events_inside [of environment]
    by (auto simp: env_def)
  ultimately show ?thesis
    using argument_events [of arguments] environment_events [OF keys(2)]
    by (simp add: read_launchd_def read args_def env_def Let_def zip_map_fst_snd)
qed


section \<open>Reading a unit\<close>

text \<open>The settings of a section, and what the two that are used mean.\<close>

definition unit_section :: "string \<Rightarrow> string \<Rightarrow> string list" where
  "unit_section name doc =
     takeWhile (\<lambda>l. \<not> starts_with ''['' l)
       (drop 1 (dropWhile (\<lambda>l. l \<noteq> ''['' @ name @ '']'') (lines_of doc)))"

definition unit_setting :: "string \<Rightarrow> string list \<Rightarrow> string list" where
  "unit_setting k ls = map (drop (length k + 1)) (filter (starts_with (k @ ''='')) ls)"

definition unit_words :: "bool \<Rightarrow> string \<Rightarrow> string list option" where
  "unit_words command v =
     Option.bind (quoted_words None v) (\<lambda>ws. those (map (unit_read command) ws))"

definition unit_assignment :: "string \<Rightarrow> (string \<times> string) option" where
  "unit_assignment v =
     (case unit_words False v of Some [w] \<Rightarrow> split_once (CHR ''='') w | _ \<Rightarrow> None)"

definition read_systemd :: "string \<Rightarrow> (string list \<times> (string \<times> string) list) option" where
  "read_systemd doc =
     (let ls = unit_section ''Service'' doc
      in case unit_setting ''ExecStart'' ls of
           [v] \<Rightarrow>
             Option.bind (unit_words True v) (\<lambda>arguments.
             Option.bind (those (map unit_assignment (unit_setting ''Environment'' ls)))
               (\<lambda>environment. Some (arguments, environment)))
         | _ \<Rightarrow> None)"

abbreviation quoted :: "bool \<Rightarrow> string \<Rightarrow> string" where
  "quoted command s \<equiv> CHR 0x22 # concat (map (quote_char command) s) @ [CHR 0x22]"

lemma no_control_no_newline: "\<not> has_control s \<Longrightarrow> newline \<notin> set s"
  by (induction s rule: has_control.induct) (auto simp: newline_def byte_def)

lemma quoted_plain:
  assumes "\<not> has_control s"
  shows "newline \<notin> set (quoted command s)"
proof -
  have "newline \<notin> set (quote_char command c)" if "c \<in> set s" for c
    using no_control_no_newline [OF assms] that by (auto simp: quote_char_def newline_def)
  then show ?thesis by (auto simp: newline_def)
qed

lemma quoted_words_join:
  "quoted_words None (join_text '' '' (map (quoted command) ws)) =
     Some (map (\<lambda>w. concat (map (quote_char command) w)) ws)"
proof (induction ws rule: induct_list012)
  case (2 w)
  then show ?case by (simp add: quoted_words_text)
next
  case (3 w v ws)
  then show ?case by (simp add: quoted_words_text)
qed simp

lemma those_map_Some [simp]: "those (map (\<lambda>x. Some (f x)) xs) = Some (map f xs)"
  by (induction xs) simp_all

lemma unit_words_join:
  "unit_words command (join_text '' '' (map (quoted command) ws)) = Some ws"
  by (simp add: unit_words_def quoted_words_join comp_def unit_text.unescape_text)

lemma unit_assignment_quoted:
  "CHR ''='' \<notin> set k \<Longrightarrow> unit_assignment (quoted False (k @ ''='' @ v)) = Some (k, v)"
  using unit_words_join [of False "[k @ ''='' @ v]"]
  by (simp add: unit_assignment_def del: map_append concat_append)

definition systemd_lines :: "string list \<Rightarrow> (string \<times> string) list \<Rightarrow> string list" where
  "systemd_lines arguments environment =
     [''[Unit]'', ''Description=Watchcat local reliability service'',
      ''After=network-online.target'', [], ''[Service]'',
      ''ExecStart='' @ join_text '' '' (map (quoted True) arguments),
      ''Restart=on-failure'', ''RestartSec=10'', ''UMask=0077''] @
     map (\<lambda>(k, v). ''Environment='' @ quoted False (k @ ''='' @ v)) environment @
     [[], ''[Install]'', ''WantedBy=default.target'']"

lemma systemd_definition_Inr:
  assumes "systemd_definition arguments environment = Inr doc"
  shows "doc = unlines (systemd_lines arguments environment) \<and>
    (\<forall>a \<in> set arguments. \<not> has_control a) \<and>
    (\<forall>(k, v) \<in> set environment. \<not> has_control (k @ ''='' @ v))"
proof -
  from assms obtain words env_lines where
    words: "map_results (quote True) arguments = Inr words"
    and env: "map_results (\<lambda>(k, v). bindR (quote False (k @ ''='' @ v))
         (\<lambda>q. Inr (''Environment='' @ q @ [newline]))) environment = Inr env_lines"
    and doc: "doc = ''[Unit]'' @ [newline] @
        ''Description=Watchcat local reliability service'' @ [newline] @
        ''After=network-online.target'' @ [newline] @ [newline] @
        ''[Service]'' @ [newline] @
        ''ExecStart='' @ join_text '' '' words @ [newline] @
        ''Restart=on-failure'' @ [newline] @
        ''RestartSec=10'' @ [newline] @
        ''UMask=0077'' @ [newline] @
        concat env_lines @
        [newline] @ ''[Install]'' @ [newline] @
        ''WantedBy=default.target'' @ [newline]"
    by (auto simp: systemd_definition_def bindR_Inr_iff)
  have w: "words = map (quoted True) arguments"
    by (rule map_results_values [OF words]) (simp add: quote_Inr)
  have e: "env_lines = map (\<lambda>(k, v). ''Environment='' @ quoted False (k @ ''='' @ v) @ [newline]) environment"
    by (rule map_results_values [OF env]) (auto simp: bindR_Inr_iff quote_Inr)
  have "\<forall>a \<in> set arguments. \<not> has_control a"
    using words unfolding map_results_Inr
    by (auto simp: list_all2_conv_all_nth in_set_conv_nth quote_Inr)
  moreover have "\<forall>(k, v) \<in> set environment. \<not> has_control (k @ ''='' @ v)"
    using env unfolding map_results_Inr
    by (fastforce simp: list_all2_conv_all_nth in_set_conv_nth quote_Inr bindR_Inr_iff)
  moreover have "concat (map (\<lambda>(k, v). ''Environment='' @ quoted False (k @ ''='' @ v) @ [newline]) environment) =
      unlines (map (\<lambda>(k, v). ''Environment='' @ quoted False (k @ ''='' @ v)) environment)"
    by (induction environment) auto
  ultimately show ?thesis
    unfolding doc w e systemd_lines_def by (simp add: unlines_def)
qed

lemma join_quoted_plain:
  assumes "\<forall>a \<in> set ws. \<not> has_control a"
  shows "newline \<notin> set (join_text '' '' (map (quoted command) ws)) \<and>
    (ws \<noteq> [] \<longrightarrow> last (join_text '' '' (map (quoted command) ws)) = CHR 0x22 \<and>
      join_text '' '' (map (quoted command) ws) \<noteq> [])"
  using assms
proof (induction ws rule: induct_list012)
  case (2 w)
  then show ?case using quoted_plain [of w command] by simp
next
  case (3 w v ws)
  then show ?case using quoted_plain [of w command] by (auto simp: newline_def)
qed simp

lemma systemd_lines_plain:
  assumes "\<forall>a \<in> set arguments. \<not> has_control a"
    and "\<forall>(k, v) \<in> set environment. \<not> has_control (k @ ''='' @ v)"
  shows "list_all plain_line (systemd_lines arguments environment)"
proof -
  have "plain_line (''Environment='' @ quoted False (k @ ''='' @ v))" if "(k, v) \<in> set environment" for k v
    using assms(2) that quoted_plain [of "k @ ''='' @ v" False]
    by (auto simp: plain_line_def newline_def)
  moreover have "plain_line (''ExecStart='' @ join_text '' '' (map (quoted True) arguments))"
    using join_quoted_plain [OF assms(1), of True]
    by (cases "arguments = []") (auto simp: plain_line_def newline_def)
  ultimately show ?thesis
    by (auto simp: systemd_lines_def list_all_iff plain_line_def newline_def)
qed

lemma service_section:
  assumes "list_all plain_line (systemd_lines arguments environment)"
  shows "unit_section ''Service'' (unlines (systemd_lines arguments environment)) =
    (''ExecStart='' @ join_text '' '' (map (quoted True) arguments)) #
    ''Restart=on-failure'' # ''RestartSec=10'' # ''UMask=0077'' #
    map (\<lambda>(k, v). ''Environment='' @ quoted False (k @ ''='' @ v)) environment @ [[]]"
proof -
  have "takeWhile (\<lambda>l. \<not> starts_with ''['' l)
      (map (\<lambda>(k, v). ''Environment='' @ quoted False (k @ ''='' @ v)) environment @
       [[], ''[Install]'', ''WantedBy=default.target'']) =
    map (\<lambda>(k, v). ''Environment='' @ quoted False (k @ ''='' @ v)) environment @ [[]]"
    by (induction environment) (auto simp: starts_with_def)
  then show ?thesis
    unfolding unit_section_def lines_of_unlines [OF assms]
    by (simp add: systemd_lines_def starts_with_def)
qed

lemma environment_setting:
  "unit_setting ''ExecStart'' (map (\<lambda>(k, v). ''Environment='' @ quoted False (k @ ''='' @ v)) es @ [[]]) = []"
  "unit_setting ''Environment'' (map (\<lambda>(k, v). ''Environment='' @ quoted False (k @ ''='' @ v)) es @ [[]]) =
     map (\<lambda>(k, v). quoted False (k @ ''='' @ v)) es"
  by (induction es) (auto simp: unit_setting_def starts_with_def)

lemma unit_setting_Cons:
  "unit_setting k (l # ls) =
     (if starts_with (k @ ''='') l then drop (length k + 1) l # unit_setting k ls else unit_setting k ls)"
  by (simp add: unit_setting_def)

lemma those_map_cong: "\<forall>x \<in> set xs. f x = Some (g x) \<Longrightarrow> those (map f xs) = Some (map g xs)"
  by (induction xs) auto

lemma systemd_read_back:
  assumes "systemd_definition arguments environment = Inr doc"
    and "\<forall>(k, v) \<in> set environment. CHR ''='' \<notin> set k"
  shows "read_systemd doc = Some (arguments, environment)"
proof -
  from systemd_definition_Inr [OF assms(1)] have doc: "doc = unlines (systemd_lines arguments environment)"
    and plain: "list_all plain_line (systemd_lines arguments environment)"
    using systemd_lines_plain by auto
  have "those (map unit_assignment (map (\<lambda>(k, v). quoted False (k @ ''='' @ v)) environment)) =
      Some environment"
  proof -
    have "those (map (\<lambda>e. unit_assignment ((\<lambda>(k, v). quoted False (k @ ''='' @ v)) e)) environment) =
        Some (map (\<lambda>e. e) environment)"
      by (rule those_map_cong)
        (use assms(2) unit_assignment_quoted in
          \<open>auto simp del: map_append concat_append append.simps\<close>)
    then show ?thesis by (simp add: comp_def)
  qed
  moreover have "unit_setting ''ExecStart'' (unit_section ''Service'' doc) =
      [join_text '' '' (map (quoted True) arguments)]"
    unfolding doc service_section [OF plain] unit_setting_Cons environment_setting(1)
    by (simp add: starts_with_def)
  moreover have "unit_setting ''Environment'' (unit_section ''Service'' doc) =
      map (\<lambda>(k, v). quoted False (k @ ''='' @ v)) environment"
    unfolding doc service_section [OF plain] unit_setting_Cons environment_setting(2)
    by (simp add: starts_with_def)
  ultimately show ?thesis
    by (simp only: read_systemd_def Let_def list.case unit_words_join Option.bind.simps)
qed


section \<open>What the service is run with\<close>

definition read_definition ::
    "service_os \<Rightarrow> string \<Rightarrow> (string list \<times> (string \<times> string) list) option" where
  "read_definition os doc = (case os of MacOS \<Rightarrow> read_launchd doc | Linux \<Rightarrow> read_systemd doc)"

lemma env_var_Inr [simp]: "env_var su k = Inr v \<longleftrightarrow> su_var su k = Some v \<and> valid_utf8 v"
  by (auto simp: env_var_def split: option.splits)

lemma with_context_Inr [simp]: "with_context m r = Inr a \<longleftrightarrow> r = Inr a"
proof (cases r)
  case (Inl e)
  then show ?thesis by (cases e) simp_all
qed simp

lemma optional_var_set [simp]:
  "(k, v) \<in> set (optional_var su name) \<longleftrightarrow> k = name \<and> su_var su name = Some v \<and> valid_utf8 v"
  by (auto simp: optional_var_def env_var_def split: option.splits)

lemma service_environment_keys:
  "\<forall>(k, v) \<in> set (service_environment su a b c). xml_text k = k \<and> k \<noteq> [] \<and> CHR ''='' \<notin> set k"
  by (auto simp: service_environment_def xml_char_def)

lemma service_definition_Inr:
  assumes "service_definition os su daemon p = Inr doc"
  shows "\<exists>config state search_path.
    std_absolute (su_cwd su) (pa_config_file p) = Inr config \<and>
    path_parent (pa_state_file p) = Some state \<and> su_var su ''PATH'' = Some search_path \<and>
    read_definition os doc = Some ([daemon, ''--config'', config],
      service_environment su search_path state (pa_watchlist_file p))"
proof -
  from assms obtain config state search_path where
    c: "std_absolute (su_cwd su) (pa_config_file p) = Inr config"
      "path_parent (pa_state_file p) = Some state" "su_var su ''PATH'' = Some search_path"
    and d: "(case os of
        MacOS \<Rightarrow> launchd_definition [daemon, ''--config'', config]
          (service_environment su search_path state (pa_watchlist_file p)) state
      | Linux \<Rightarrow> systemd_definition [daemon, ''--config'', config]
          (service_environment su search_path state (pa_watchlist_file p))) = Inr doc"
    by (auto simp: service_definition_def bindR_Inr_iff utf8_path_def Let_def split: if_splits)
  note keys = service_environment_keys [of su search_path state "pa_watchlist_file p"]
  have "read_definition os doc = Some ([daemon, ''--config'', config],
      service_environment su search_path state (pa_watchlist_file p))"
  proof (cases os)
    case MacOS
    with d keys show ?thesis
      by (simp add: read_definition_def, intro launchd_read_back) auto
  next
    case Linux
    with d keys show ?thesis
      by (simp add: read_definition_def, intro systemd_read_back) auto
  qed
  with c show ?thesis by blast
qed

text \<open>C35: The installed service works on the files of whoever installed it.  The text that
  is handed to launchd or systemd, read by the rules of its format, runs the given daemon
  with one configuration file and an environment, whatever characters the paths contain;
  and a process started so - in any directory, with any other variables - finds the same
  eight files as the installing command, and the search path and the providers'
  directories of its environment.\<close>
theorem service_runs_on_same_files:
  assumes "discover_paths su config_override = Inr p" and "su_cwd su = Inr cwd" and "absolute cwd"
    and "service_definition os su daemon p = Inr doc"
  shows "\<exists>config environment.
    read_definition os doc = Some ([daemon, ''--config'', config], environment) \<and>
    (\<forall>su'. su_dirs su' \<noteq> None \<longrightarrow> (\<forall>(k, v) \<in> set environment. su_var su' k = Some v) \<longrightarrow>
      (\<forall>cwd'. \<exists>p'. discover_paths su' (Some config) = Inr p' \<and> same_files cwd p cwd' p') \<and>
      su_var su' ''PATH'' = su_var su ''PATH'' \<and>
      (\<forall>k \<in> {''CLAUDE_CONFIG_DIR'', ''CODEX_HOME''}. \<forall>v.
         su_var su k = Some v \<and> valid_utf8 v \<longrightarrow> su_var su' k = Some v))"
proof -
  from service_definition_Inr [OF assms(4)] obtain config state search_path where
    config: "std_absolute (Inr cwd) (pa_config_file p) = Inr config"
    and state: "path_parent (pa_state_file p) = Some state"
    and path: "su_var su ''PATH'' = Some search_path"
    and read: "read_definition os doc = Some ([daemon, ''--config'', config],
      service_environment su search_path state (pa_watchlist_file p))"
    using assms(2) by auto
  define env where "env = service_environment su search_path state (pa_watchlist_file p)"
  have "(\<forall>cwd'. \<exists>p'. discover_paths su' (Some config) = Inr p' \<and> same_files cwd p cwd' p') \<and>
      su_var su' ''PATH'' = su_var su ''PATH'' \<and>
      (\<forall>k \<in> {''CLAUDE_CONFIG_DIR'', ''CODEX_HOME''}. \<forall>v.
         su_var su k = Some v \<and> valid_utf8 v \<longrightarrow> su_var su' k = Some v)"
    if dirs: "su_dirs su' \<noteq> None" and vars: "\<forall>(k, v) \<in> set env. su_var su' k = Some v" for su'
  proof -
    have v: "su_var su' k = Some v" if "(k, v) \<in> set env" for k v
      using vars that by blast
    have "su_var su' ''WATCHCAT_STATE_DIR'' = Some state"
      "su_var su' ''WATCHCAT_WATCHLIST'' = Some (pa_watchlist_file p)"
      "su_var su' ''PATH'' = Some search_path"
      by (rule v, simp add: env_def service_environment_def)+
    moreover have "su_var su' k = Some x"
      if "k \<in> {''CLAUDE_CONFIG_DIR'', ''CODEX_HOME''}" "su_var su k = Some x" "valid_utf8 x" for k x
      by (rule v) (use that in \<open>auto simp: env_def service_environment_def\<close>)
    ultimately show ?thesis
      using discover_same_files [OF assms(1-3) config state dirs] path by auto
  qed
  with read show ?thesis unfolding env_def [symmetric] by blast
qed


text \<open>\<open>/w/a&b c\<close> is the state directory, and both the program's path and the search path need escaping.\<close>

definition example_surroundings :: surroundings where
  "example_surroundings =
     \<lparr>su_dirs = Some \<lparr>pd_config = ''/w/c'', pd_state = None, pd_data_local = ''/w/a&b c''\<rparr>,
      su_var = [''PATH'' \<mapsto> ''/bin:$x%''], su_cwd = Inr ''/w''\<rparr>"

definition example_paths :: paths where
  "example_paths =
     \<lparr>pa_config_file = ''/w/c/config.toml'', pa_watchlist_file = ''/w/c/watchlist.json'',
      pa_state_file = ''/w/a&b c/state.json'', pa_control_state_file = ''/w/a&b c/control.json'',
      pa_event_log_file = ''/w/a&b c/events.jsonl'',
      pa_retry_operations_file = ''/w/a&b c/retry-operations.json'',
      pa_lock_file = ''/w/a&b c/watchcat.lock'', pa_socket_file = ''/w/a&b c/watchcat.sock''\<rparr>"

lemma example_discover: "discover_paths example_surroundings None = Inr example_paths"
  by (simp add: discover_paths_def example_surroundings_def example_paths_def config_file_of_def
      absolute_path_def path_parent_def path_join_def absolute_def slash_def Let_def)

lemma example_definition:
  "\<exists>doc. service_definition os example_surroundings ''/w/<x>'' example_paths = Inr doc"
proof -
  have config: "std_absolute (Inr ''/w'') ''/w/c/config.toml'' = Inr ''/w/c/config.toml''"
    by (simp add: std_absolute_def path_names_def path_join_def absolute_def slash_def starts_with_def)
  have state: "path_parent ''/w/a&b c/state.json'' = Some ''/w/a&b c''"
    by (simp add: path_parent_def absolute_def slash_def Let_def)
  have join: "path_join ''/w/a&b c'' f = ''/w/a&b c/'' @ f" if "single_name f" for f
    using single_not_absolute [OF that] by (simp add: path_join_def slash_def)
  have xml: "xml s = Inr (xml_text s)" if "\<not> has_control s" for s
    using that xml_Inr by blast
  have quote: "quote c s = Inr (quoted c s)" if "\<not> has_control s" for c s
    using that quote_Inr by blast
  show ?thesis
    by (cases os)
      (simp_all add: service_definition_def example_surroundings_def example_paths_def config state
        env_var_def utf8_path_def utf8_tail_def byte_def byte_in_def service_environment_def
        optional_var_def launchd_definition_def systemd_definition_def join xml quote)
qed

theorem service_runs_on_same_files_witness:
  "\<exists>doc config environment.
     service_definition MacOS example_surroundings ''/w/<x>'' example_paths = Inr doc \<and>
     read_definition MacOS doc = Some ([''/w/<x>'', ''--config'', config], environment)"
proof -
  obtain doc where doc: "service_definition MacOS example_surroundings ''/w/<x>'' example_paths = Inr doc"
    using example_definition by blast
  have "su_cwd example_surroundings = Inr ''/w''" and "absolute ''/w''"
    by (simp_all add: example_surroundings_def absolute_def slash_def)
  from service_runs_on_same_files [OF example_discover this doc] doc show ?thesis by blast
qed

end
