(* ===== verification/Service_Commands.thy ===== *)
theory Service_Commands
  imports Service_Unit Steps
begin

text \<open>
  Registering, starting and stopping the service (\<open>supported::run\<close> of \<open>service.rs\<close>): the
  commands work on the definition file, the state directory and the service manager, which
  they reach through its tool.  The tool (\<open>launchctl\<close>, \<open>systemctl\<close>) is a function on a state of
  its own; what it does to that state is its affair.
\<close>


section \<open>The host\<close>

text \<open>What is at the path of the definition: a regular file with its bytes, or something else.\<close>

datatype placed = RegularFile string | OtherFile

text \<open>A process that was not started, or its exit code (\<open>None\<close>: killed by a signal) and output.\<close>

datatype tool_output =
    NotSpawned string
  | Finished "int option" string string

record 'm host =
  ho_definition :: "placed option"
  ho_state_dir :: "nat option"
  ho_manager :: 'm
  ho_printed :: string

text \<open>
  The tool, the user's id, the home and configuration directories (\<open>None\<close>: there is none),
  and the forms that the standard library gives a command and an exit status.
\<close>

record 'm service_host =
  sh_os :: service_os
  sh_tool :: "string list \<Rightarrow> 'm \<Rightarrow> tool_output \<times> 'm"
  sh_uid :: string
  sh_home :: "(string \<times> string) option"
  sh_show_command :: "string list \<Rightarrow> string"
  sh_show_status :: "int option \<Rightarrow> string"

definition service_label :: "service_os \<Rightarrow> string" where
  "service_label os = (case os of MacOS \<Rightarrow> launchd_label | Linux \<Rightarrow> systemd_label)"

definition definition_path :: "'m service_host \<Rightarrow> string result" where
  "definition_path sh =
     bindR (ok_or (Root (Message ''cannot determine user service directory'')) (sh_home sh))
       (\<lambda>(home, config). Inr (case sh_os sh of
          MacOS \<Rightarrow> path_join home (''Library/LaunchAgents/'' @ launchd_label @ ''.plist'')
        | Linux \<Rightarrow> path_join (path_join config ''systemd/user'') systemd_label))"

definition say :: "string \<Rightarrow> (unit, 'm host) step" where
  "say t h = (Inr (), h\<lparr>ho_printed := ho_printed h @ t\<rparr>)"

definition tool_call :: "'m service_host \<Rightarrow> string list \<Rightarrow> (tool_output, 'm host) step" where
  "tool_call sh args h =
     (case sh_tool sh args (ho_manager h) of (out, m) \<Rightarrow> (Inr out, h\<lparr>ho_manager := m\<rparr>))"

definition checked :: "'m service_host \<Rightarrow> string list \<Rightarrow> (unit, 'm host) step" where
  "checked sh args =
     bindS (tool_call sh args) (\<lambda>out.
       case out of
         NotSpawned e \<Rightarrow>
           failS (Context (''cannot run '' @ sh_show_command sh args) (Root (Message e)))
       | Finished status out err \<Rightarrow>
           if status = Some 0 then say out
           else failS (Root (Message (sh_show_command sh args @ '' failed ('' @ sh_show_status sh status @
             ''): '' @ out @ err))))"

definition launchd_domain :: "'m service_host \<Rightarrow> string" where
  "launchd_domain sh = ''gui/'' @ sh_uid sh"

definition launchd_target :: "'m service_host \<Rightarrow> string" where
  "launchd_target sh = launchd_domain sh @ ''/'' @ launchd_label"

definition is_file :: "'m host \<Rightarrow> bool" where
  "is_file h \<longleftrightarrow> (\<exists>t. ho_definition h = Some (RegularFile t))"

lemma is_file_code [code]:
  "is_file h = (case ho_definition h of Some (RegularFile t) \<Rightarrow> True | _ \<Rightarrow> False)"
  by (auto simp: is_file_def split: option.splits placed.splits)


section \<open>The commands\<close>

definition start_service :: "'m service_host \<Rightarrow> string \<Rightarrow> (unit, 'm host) step" where
  "start_service sh path h =
     (if \<not> is_file h
      then failS (Root (Message ''service is not installed; run watchcat service install first'')) h
      else (case sh_os sh of
          MacOS \<Rightarrow>
            bindS (checked sh [''launchctl'', ''enable'', launchd_target sh]) (\<lambda>_.
              checked sh [''launchctl'', ''bootstrap'', launchd_domain sh, path])
        | Linux \<Rightarrow> checked sh [''systemctl'', ''--user'', ''start'', systemd_label]) h)"

definition stop_service :: "'m service_host \<Rightarrow> (unit, 'm host) step" where
  "stop_service sh =
     (case sh_os sh of
        MacOS \<Rightarrow>
          bindS (tool_call sh [''launchctl'', ''print'', launchd_target sh]) (\<lambda>out.
            case out of
              NotSpawned e \<Rightarrow> failS (Root (Message e))
            | Finished status _ err \<Rightarrow>
                if status = Some 0 then checked sh [''launchctl'', ''bootout'', launchd_target sh]
                else if status \<noteq> Some 113
                then failS (Root (Message (''cannot inspect service before stopping: '' @ err)))
                else returnS ())
      | Linux \<Rightarrow> checked sh [''systemctl'', ''--user'', ''stop'', systemd_label])"

text \<open>
  What an installation meets: the path of the running program, whether the daemon is beside
  it, whether the configuration loads, the fault of each step on the disk, what somebody
  else put at the path in the meantime, and the mode a new directory gets.
\<close>

record install_script =
  is_executable :: "string result"
  is_daemon_there :: bool
  is_settings :: "unit result"
  is_parent_fault :: "string option"
  is_state_fault :: "string option"
  is_mode_fault :: "string option"
  is_temp_fault :: "string option"
  is_write_fault :: "string option"
  is_persist_fault :: "string option"
  is_meanwhile :: "placed option"
  is_umask_mode :: nat

definition os_step :: "string option \<Rightarrow> (unit, 's) step" where
  "os_step fault = (case fault of None \<Rightarrow> returnS () | Some e \<Rightarrow> failS (Root (Message e)))"

text \<open>The directory of the state is made private before anything is registered.\<close>

definition secure_state_dir :: "install_script \<Rightarrow> (unit, 'm host) step" where
  "secure_state_dir io =
     bindS (os_step (is_state_fault io)) (\<lambda>_.
     bindS (\<lambda>h. (Inr (), h\<lparr>ho_state_dir := Some (unwrap_or (ho_state_dir h) (is_umask_mode io))\<rparr>)) (\<lambda>_.
     bindS (os_step (is_mode_fault io)) (\<lambda>_.
       (\<lambda>h. (Inr (), h\<lparr>ho_state_dir := Some 448\<rparr>)))))"

text \<open>\<open>persist_noclobber\<close>: a file that is there, or has come there meanwhile, stays.\<close>

definition persist_noclobber :: "install_script \<Rightarrow> string \<Rightarrow> (unit, 'm host) step" where
  "persist_noclobber io text h =
     (let h1 = (if ho_definition h = None then h\<lparr>ho_definition := is_meanwhile io\<rparr> else h)
      in case is_persist_fault io of
           Some e \<Rightarrow> failS (Root (Message e)) h1
         | None \<Rightarrow>
             if ho_definition h1 \<noteq> None then failS (Root (Message ''File exists (os error 17)'')) h1
             else returnS () (h1\<lparr>ho_definition := Some (RegularFile text)\<rparr>))"

definition install_checks ::
    "'m service_host \<Rightarrow> surroundings \<Rightarrow> install_script \<Rightarrow> paths \<Rightarrow> string result" where
  "install_checks sh su io p =
     bindR (is_executable io) (\<lambda>executable.
     bindR (ok_or (Root (Message ''CLI has no parent directory'')) (path_parent executable)) (\<lambda>dir.
     let daemon = path_join dir ''watchcatd''
     in if \<not> is_daemon_there io
        then bail (''watchcatd must be installed alongside watchcat at '' @ daemon)
        else service_definition (sh_os sh) su daemon p))"

definition install_service ::
    "'m service_host \<Rightarrow> surroundings \<Rightarrow> install_script \<Rightarrow> paths \<Rightarrow> bool \<Rightarrow> string \<Rightarrow> (unit, 'm host) step" where
  "install_service sh su io p dry_run path =
     bindS (liftS (install_checks sh su io p)) (\<lambda>text.
     if dry_run then say text
     else bindS (\<lambda>h. if ho_definition h \<noteq> None
            then failS (Root (Message (path @
              '' already exists; uninstall the service before replacing its registration''))) h
            else returnS () h) (\<lambda>_.
     bindS (liftS (is_settings io)) (\<lambda>_.
     bindS (liftS (ok_or (Root (Message ''service definition has no parent'')) (path_parent path))) (\<lambda>_.
     bindS (os_step (is_parent_fault io)) (\<lambda>_.
     bindS (liftS (ok_or (Root (Message ''state file has no parent'')) (path_parent (pa_state_file p))))
       (\<lambda>_.
     bindS (secure_state_dir io) (\<lambda>_.
     bindS (os_step (is_temp_fault io)) (\<lambda>_.
     bindS (os_step (is_write_fault io)) (\<lambda>_.
     bindS (persist_noclobber io text) (\<lambda>_.
     bindS (case sh_os sh of
          MacOS \<Rightarrow> returnS ()
        | Linux \<Rightarrow>
            bindS (checked sh [''systemctl'', ''--user'', ''daemon-reload'']) (\<lambda>_.
              checked sh [''systemctl'', ''--user'', ''enable'', systemd_label])) (\<lambda>_.
       say (''Installed '' @ path @ newline # ''Run watchcat service start'' @ [newline]))))))))))))"

definition uninstall_service ::
    "'m service_host \<Rightarrow> string option \<Rightarrow> string \<Rightarrow> (unit, 'm host) step" where
  "uninstall_service sh fault path h =
     (if \<not> is_file h
      then failS (Root (Message (''service is not installed at '' @ path))) h
      else bindS (case sh_os sh of
             MacOS \<Rightarrow> stop_service sh
           | Linux \<Rightarrow> checked sh [''systemctl'', ''--user'', ''disable'', ''--now'', systemd_label]) (\<lambda>_.
         bindS (os_step fault) (\<lambda>_.
         bindS (\<lambda>h. (Inr (), h\<lparr>ho_definition := None\<rparr>)) (\<lambda>_.
         bindS (case sh_os sh of
             MacOS \<Rightarrow> returnS ()
           | Linux \<Rightarrow> checked sh [''systemctl'', ''--user'', ''daemon-reload'']) (\<lambda>_.
           say (''Removed '' @ path @ '' (configuration and state preserved)'' @ [newline]))))) h)"

datatype service_command =
    Install surroundings install_script paths bool
  | Start
  | Stop
  | Restart
  | Uninstall "string option"

definition service_run :: "'m service_host \<Rightarrow> service_command \<Rightarrow> (unit, 'm host) step" where
  "service_run sh command =
     bindS (liftS (definition_path sh)) (\<lambda>path.
       case command of
         Install su io p dry_run \<Rightarrow> install_service sh su io p dry_run path
       | Start \<Rightarrow> start_service sh path
       | Stop \<Rightarrow> stop_service sh
       | Restart \<Rightarrow> bindS (stop_service sh) (\<lambda>_. start_service sh path)
       | Uninstall fault \<Rightarrow> uninstall_service sh fault path)"


section \<open>What a step keeps and ensures\<close>

text \<open>
  \<open>triple P f Q R\<close>: from a host in \<open>P\<close> the step ends in \<open>Q\<close> when it succeeds and in \<open>R\<close> when it
  fails.
\<close>

definition triple :: "('s \<Rightarrow> bool) \<Rightarrow> ('a, 's) step \<Rightarrow> ('s \<Rightarrow> bool) \<Rightarrow> ('s \<Rightarrow> bool) \<Rightarrow> bool" where
  "triple P f Q R \<longleftrightarrow>
     (\<forall>s. P s \<longrightarrow> (case f s of (Inr a, s') \<Rightarrow> Q s' | (Inl e, s') \<Rightarrow> R s'))"

lemma triple_bind:
  assumes "triple P f Q R" and "\<And>a. triple Q (g a) S R"
  shows "triple P (bindS f g) S R"
  using assms unfolding triple_def bindS_def
  by (fastforce split: prod.splits sum.splits)

lemmas keeps_bind = triple_bind [where P = P and Q = P and S = P and R = P for P]

lemma triple_snd: "triple P f Q Q \<Longrightarrow> P s \<Longrightarrow> Q (snd (f s))"
  by (cases "f s") (auto simp: triple_def split: sum.splits dest!: spec [of _ s])

lemma triple_weaken:
  "triple P f Q R \<Longrightarrow> (\<And>s. P' s \<Longrightarrow> P s) \<Longrightarrow> (\<And>s. Q s \<Longrightarrow> Q' s) \<Longrightarrow> (\<And>s. R s \<Longrightarrow> R' s) \<Longrightarrow> triple P' f Q' R'"
  unfolding triple_def by (fastforce split: prod.splits sum.splits)

lemma triple_simple:
  "(\<And>s. P s \<Longrightarrow> Q s) \<Longrightarrow> triple P (returnS a) Q R"
  "(\<And>s. P s \<Longrightarrow> R s) \<Longrightarrow> triple P (failS e) Q R"
  "(\<And>s. P s \<Longrightarrow> Q s) \<Longrightarrow> (\<And>s. P s \<Longrightarrow> R s) \<Longrightarrow> triple P (liftS r) Q R"
  "(\<And>s. P s \<Longrightarrow> Q s) \<Longrightarrow> (\<And>s. P s \<Longrightarrow> R s) \<Longrightarrow> triple P (os_step fault) Q R"
  by (auto simp: triple_def returnS_def failS_def liftS_def os_step_def split: sum.splits option.splits)

lemma triple_update: "(\<And>s. P s \<Longrightarrow> Q (f s)) \<Longrightarrow> triple P (\<lambda>s. (Inr a, f s)) Q R"
  by (simp add: triple_def)

lemma triple_when: "(\<And>s. P s \<Longrightarrow> Q s) \<Longrightarrow> (\<And>s. P s \<Longrightarrow> R s) \<Longrightarrow>
    triple P (\<lambda>s. if b s then failS e s else returnS () s) (\<lambda>s. Q s \<and> \<not> b s) R"
  by (simp add: triple_def returnS_def failS_def)


text \<open>
  What is documented of the tools: only \<open>bootstrap\<close> and \<open>start\<close> make the service run, and do
  when they succeed; after a \<open>bootout\<close>, \<open>stop\<close> or \<open>disable --now\<close> that succeeded it does not;
  and \<open>print\<close> exits with 113 for a service that is not loaded.
\<close>

definition starts :: "service_os \<Rightarrow> string list \<Rightarrow> bool" where
  "starts os args \<longleftrightarrow>
     (case os of
        MacOS \<Rightarrow> take 2 args = [''launchctl'', ''bootstrap'']
      | Linux \<Rightarrow> take 3 args = [''systemctl'', ''--user'', ''start''])"

definition stops :: "service_os \<Rightarrow> string list \<Rightarrow> bool" where
  "stops os args \<longleftrightarrow>
     (case os of
        MacOS \<Rightarrow> take 2 args = [''launchctl'', ''bootout'']
      | Linux \<Rightarrow> take 3 args = [''systemctl'', ''--user'', ''stop''] \<or>
          take 4 args = [''systemctl'', ''--user'', ''disable'', ''--now''])"

definition documented_tool :: "'m service_host \<Rightarrow> ('m \<Rightarrow> bool) \<Rightarrow> bool" where
  "documented_tool sh loaded \<longleftrightarrow>
     (\<forall>args m out m'. sh_tool sh args m = (out, m') \<longrightarrow>
        (loaded m' \<longrightarrow> loaded m \<or> starts (sh_os sh) args) \<and>
        (\<forall>o' e. out = Finished (Some 0) o' e \<longrightarrow>
           (starts (sh_os sh) args \<longrightarrow> loaded m') \<and> (stops (sh_os sh) args \<longrightarrow> \<not> loaded m')) \<and>
        (\<forall>o' e. out = Finished (Some 113) o' e \<longrightarrow>
           take 2 args = [''launchctl'', ''print''] \<longrightarrow> \<not> loaded m'))"

lemma documented_quiet:
  "documented_tool sh loaded \<Longrightarrow> \<not> starts (sh_os sh) args \<Longrightarrow>
     sh_tool sh args m = (out, m') \<Longrightarrow> loaded m' \<Longrightarrow> loaded m"
  unfolding documented_tool_def by blast

text \<open>A service that runs is registered.\<close>

definition registered :: "('m \<Rightarrow> bool) \<Rightarrow> 'm host \<Rightarrow> bool" where
  "registered loaded h \<longleftrightarrow> (loaded (ho_manager h) \<longrightarrow> is_file h)"

definition running :: "('m \<Rightarrow> bool) \<Rightarrow> 'm host \<Rightarrow> bool" where
  "running loaded h \<longleftrightarrow> loaded (ho_manager h)"

text \<open>The files are not the tools' business.\<close>

definition same_files_on :: "'m host \<Rightarrow> 'm host \<Rightarrow> bool" where
  "same_files_on h h' \<longleftrightarrow>
     ho_definition h' = ho_definition h \<and> ho_state_dir h' = ho_state_dir h"

lemma same_files_refl [simp]: "same_files_on h h"
  by (simp add: same_files_on_def)

lemma same_files_trans: "same_files_on a b \<Longrightarrow> same_files_on b c \<Longrightarrow> same_files_on a c"
  by (simp add: same_files_on_def)

lemma checked_frame: "triple (same_files_on h) (checked sh args) (same_files_on h) (same_files_on h)"
  by (auto simp: triple_def checked_def bindS_def tool_call_def failS_def say_def same_files_on_def
      split: prod.splits tool_output.splits)

lemma checked_quiet:
  assumes "documented_tool sh loaded" and "\<not> starts (sh_os sh) args"
  shows "triple (\<lambda>h. \<not> running loaded h) (checked sh args)
    (\<lambda>h. \<not> running loaded h) (\<lambda>h. \<not> running loaded h)"
  using assms unfolding documented_tool_def
  by (auto simp: triple_def checked_def bindS_def tool_call_def failS_def say_def running_def
      split: prod.splits tool_output.splits)

lemma checked_stops:
  assumes "documented_tool sh loaded" and "stops (sh_os sh) args"
  shows "triple (\<lambda>h. True) (checked sh args) (\<lambda>h. \<not> running loaded h) (\<lambda>h. True)"
  using assms unfolding documented_tool_def
  by (auto simp: triple_def checked_def bindS_def tool_call_def failS_def say_def running_def
      split: prod.splits tool_output.splits)

lemma checked_starts:
  assumes "documented_tool sh loaded" and "starts (sh_os sh) args"
  shows "triple (\<lambda>h. True) (checked sh args) (running loaded) (\<lambda>h. True)"
  using assms unfolding documented_tool_def
  by (auto simp: triple_def checked_def bindS_def tool_call_def failS_def say_def running_def
      split: prod.splits tool_output.splits)

lemma not_both: "stops os args \<Longrightarrow> \<not> starts os args"
  by (cases os; cases args; cases "tl args"; cases "tl (tl args)") (auto simp: stops_def starts_def)

lemma triple_conj:
  "triple P f Q R \<Longrightarrow> triple P' f Q' R' \<Longrightarrow>
     triple (\<lambda>s. P s \<and> P' s) f (\<lambda>s. Q s \<and> Q' s) (\<lambda>s. R s \<and> R' s)"
  unfolding triple_def by (fastforce split: prod.splits sum.splits)

lemma frame_keeps:
  assumes "\<And>h. triple (same_files_on h) f (same_files_on h) (same_files_on h)"
    and "\<And>h h'. same_files_on h h' \<Longrightarrow> P h \<Longrightarrow> P h'"
  shows "triple P f P P"
  unfolding triple_def
proof (intro allI impI)
  fix s assume P: "P s"
  obtain r s' where s: "f s = (r, s')" by (cases "f s")
  have "same_files_on s s'"
    using assms(1) [of s] s by (auto simp: triple_def split: sum.splits dest: spec [of _ s])
  with P assms(2) have "P s'" by blast
  with s show "case f s of (Inl e, s') \<Rightarrow> P s' | (Inr a, s') \<Rightarrow> P s'"
    by (simp split: sum.splits)
qed

lemma is_file_frame: "same_files_on h h' \<Longrightarrow> is_file h \<Longrightarrow> is_file h'"
  by (simp add: same_files_on_def is_file_def)

text \<open>Stopping, as the commands use it.\<close>

lemma stop_service_frame:
  "triple (same_files_on h) (stop_service sh) (same_files_on h) (same_files_on h)"
proof -
  have call: "triple (same_files_on h) (tool_call sh args) (same_files_on h) (same_files_on h)" for args
    by (auto simp: triple_def tool_call_def same_files_on_def split: prod.splits)
  show ?thesis
    unfolding stop_service_def
    by (auto intro!: triple_bind [OF call] triple_simple checked_frame
        split: service_os.splits tool_output.splits)
qed

lemma stop_service_stops:
  assumes doc: "documented_tool sh loaded"
  shows "triple (\<lambda>h. True) (stop_service sh) (\<lambda>h. \<not> running loaded h) (\<lambda>h. True)"
proof (cases "sh_os sh")
  case Linux
  then show ?thesis
    using checked_stops [OF doc] by (simp add: stop_service_def stops_def)
next
  case MacOS
  have stop: "triple (\<lambda>h. True) (checked sh [''launchctl'', ''bootout'', launchd_target sh])
      (\<lambda>h. \<not> running loaded h) (\<lambda>h. True)"
    using checked_stops [OF doc] MacOS by (simp add: stops_def)
  have "stop_service sh h = (Inr (), h') \<Longrightarrow> \<not> running loaded h'" for h h'
    using doc stop MacOS unfolding documented_tool_def
    by (auto simp: stop_service_def bindS_def tool_call_def failS_def returnS_def triple_def
        running_def split: prod.splits tool_output.splits if_splits sum.splits)
  then show ?thesis
    by (auto simp: triple_def split: prod.splits sum.splits)
qed

lemma stop_service_quiet:
  assumes doc: "documented_tool sh loaded"
  shows "triple (\<lambda>h. \<not> running loaded h) (stop_service sh)
    (\<lambda>h. \<not> running loaded h) (\<lambda>h. \<not> running loaded h)"
proof (cases "sh_os sh")
  case Linux
  then show ?thesis
    using checked_quiet [OF doc] by (simp add: stop_service_def starts_def)
next
  case MacOS
  have call: "triple (\<lambda>h. \<not> running loaded h) (tool_call sh [''launchctl'', ''print'', launchd_target sh])
      (\<lambda>h. \<not> running loaded h) (\<lambda>h. \<not> running loaded h)"
    using documented_quiet [OF doc, of "[''launchctl'', ''print'', launchd_target sh]"] MacOS
    by (auto simp: triple_def tool_call_def running_def starts_def split: prod.splits)
  show ?thesis
    unfolding stop_service_def MacOS service_os.case
    by (rule triple_bind [OF call])
      (auto intro!: triple_simple checked_quiet [OF doc] simp: MacOS starts_def split: tool_output.splits)
qed


text \<open>Installing and uninstalling.\<close>

lemma persist_noclobber_quiet:
  "triple (\<lambda>h. \<not> running loaded h) (persist_noclobber io text)
    (\<lambda>h. \<not> running loaded h) (\<lambda>h. \<not> running loaded h)"
  by (auto simp: triple_def persist_noclobber_def failS_def returnS_def running_def Let_def
      split: option.splits)

lemma secure_state_dir_quiet:
  "triple (\<lambda>h. \<not> running loaded h) (secure_state_dir io)
    (\<lambda>h. \<not> running loaded h) (\<lambda>h. \<not> running loaded h)"
  unfolding secure_state_dir_def
  by (intro triple_bind triple_simple triple_update) (auto simp: running_def)

lemma install_service_quiet:
  assumes "documented_tool sh loaded"
  shows "triple (\<lambda>h. \<not> running loaded h) (install_service sh su io p dry_run path)
    (\<lambda>h. \<not> running loaded h) (\<lambda>h. \<not> running loaded h)"
proof -
  have say: "triple (\<lambda>h. \<not> running loaded h) (say t) (\<lambda>h. \<not> running loaded h) (\<lambda>h. \<not> running loaded h)"
    for t by (simp add: triple_def say_def running_def)
  have exist: "triple (\<lambda>h. \<not> running loaded h)
      (\<lambda>h. if ho_definition h \<noteq> None then failS e h else returnS () h)
      (\<lambda>h. \<not> running loaded h) (\<lambda>h. \<not> running loaded h)" for e
    by (simp add: triple_def failS_def returnS_def)
  have tools: "triple (\<lambda>h. \<not> running loaded h)
      (case sh_os sh of MacOS \<Rightarrow> returnS ()
       | Linux \<Rightarrow> bindS (checked sh [''systemctl'', ''--user'', ''daemon-reload'']) (\<lambda>_.
           checked sh [''systemctl'', ''--user'', ''enable'', systemd_label]))
      (\<lambda>h. \<not> running loaded h) (\<lambda>h. \<not> running loaded h)"
    by (auto simp: starts_def intro!: triple_simple keeps_bind checked_quiet [OF assms]
        split: service_os.splits)
  show ?thesis
    unfolding install_service_def
    by (auto intro!: keeps_bind triple_simple say exist tools secure_state_dir_quiet
        persist_noclobber_quiet simp del: not_None_eq)
qed

lemma install_existing:
  assumes "ho_definition h \<noteq> None"
  shows "same_files_on h (snd (install_service sh su io p dry_run path h))"
  using assms
  by (auto simp: install_service_def bindS_def liftS_def failS_def say_def same_files_on_def
      split: sum.splits)

lemma install_dry_run:
  "same_files_on h (snd (install_service sh su io p True path h)) \<and>
     ho_manager (snd (install_service sh su io p True path h)) = ho_manager h"
  by (auto simp: install_service_def bindS_def liftS_def failS_def say_def same_files_on_def
      split: sum.splits)

lemma install_done:
  fixes h :: "'m host"
  assumes "install_service sh su io p False path h = (Inr (), h')"
  shows "\<exists>text. install_checks sh su io p = Inr text \<and> ho_definition h = None \<and>
    ho_definition h' = Some (RegularFile text) \<and> ho_state_dir h' = Some 448"
proof (cases "install_checks sh su io p")
  case (Inl e)
  with assms show ?thesis by (simp add: install_service_def bindS_def liftS_def)
next
  case (Inr doc)
  define installed where "installed = (\<lambda>h :: 'm host. ho_definition h = Some (RegularFile doc) \<and> ho_state_dir h = Some 448)"
  have say: "triple installed (say t) installed (\<lambda>_. True)" for t
    by (simp add: triple_def say_def installed_def)
  have keeps: "triple installed (checked sh args) installed (\<lambda>_. True)" for args
    by (auto simp: triple_def checked_def bindS_def tool_call_def failS_def say_def installed_def
        split: prod.splits tool_output.splits)
  have tools: "triple installed
      (case sh_os sh of MacOS \<Rightarrow> returnS ()
       | Linux \<Rightarrow> bindS (checked sh [''systemctl'', ''--user'', ''daemon-reload'']) (\<lambda>_.
           checked sh [''systemctl'', ''--user'', ''enable'', systemd_label])) installed (\<lambda>_. True)"
    by (auto intro!: triple_simple triple_bind [OF keeps] keeps split: service_os.splits)
  have persist: "triple (\<lambda>h. ho_state_dir h = Some 448) (persist_noclobber io doc) installed (\<lambda>_. True)"
    by (auto simp: triple_def persist_noclobber_def failS_def returnS_def installed_def Let_def
        split: option.splits)
  have secure: "triple (\<lambda>_. True) (secure_state_dir io) (\<lambda>h. ho_state_dir h = Some 448) (\<lambda>_. True)"
    by (auto simp: triple_def secure_state_dir_def bindS_def os_step_def failS_def returnS_def
        split: option.splits)
  have "ho_definition h = None"
    using assms Inr by (auto simp: install_service_def bindS_def failS_def split: if_splits)
  moreover have "triple (\<lambda>_. True) (install_service sh su io p False path) installed (\<lambda>_. True)"
    unfolding install_service_def Inr bindS_simps if_False
    by (intro triple_bind [where Q = "\<lambda>_. True"] triple_bind [OF secure] triple_bind [OF persist]
        triple_bind [OF tools] say triple_bind [where Q = "\<lambda>h. ho_state_dir h = Some 448"])
      (auto simp: triple_def failS_def returnS_def liftS_def os_step_def split: sum.splits option.splits)
  ultimately show ?thesis
    using assms Inr by (auto simp: triple_def installed_def dest: spec [of _ h])
qed


lemma uninstall_service_safe:
  assumes doc: "documented_tool sh loaded" and reg: "registered loaded h"
    and run: "uninstall_service sh fault path h = (r, h')"
  shows "registered loaded h' \<and> (r = Inr () \<longrightarrow> ho_definition h' = None \<and> \<not> running loaded h')"
proof (cases "is_file h")
  case False
  with run reg show ?thesis by (auto simp: uninstall_service_def failS_def)
next
  case True
  let ?stop = "case sh_os sh of MacOS \<Rightarrow> stop_service sh
    | Linux \<Rightarrow> checked sh [''systemctl'', ''--user'', ''disable'', ''--now'', systemd_label]"
  let ?tail = "bindS (case sh_os sh of MacOS \<Rightarrow> returnS ()
      | Linux \<Rightarrow> checked sh [''systemctl'', ''--user'', ''daemon-reload'']) (\<lambda>_.
    say (''Removed '' @ path @ '' (configuration and state preserved)'' @ [newline]))"
  have frame: "triple is_file ?stop is_file is_file"
    using frame_keeps [OF stop_service_frame is_file_frame] frame_keeps [OF checked_frame is_file_frame]
    by (cases "sh_os sh") simp_all
  have quiet: "triple (\<lambda>h. True) ?stop (\<lambda>h. \<not> running loaded h) (\<lambda>h. True)"
    using stop_service_stops [OF doc] checked_stops [OF doc]
    by (cases "sh_os sh") (simp_all add: stops_def)
  define gone where "gone = (\<lambda>h :: 'a host. ho_definition h = None \<and> \<not> running loaded h)"
  have "triple gone (checked sh [''systemctl'', ''--user'', ''daemon-reload'']) gone gone"
    if "sh_os sh = Linux"
    unfolding gone_def
    by (rule triple_conj [OF frame_keeps [OF checked_frame] checked_quiet [OF doc]])
      (simp_all add: same_files_on_def starts_def that)
  moreover have "triple gone (say t) gone gone" for t
    by (simp add: triple_def say_def gone_def running_def)
  ultimately have finish: "triple gone ?tail gone gone"
    by (auto intro!: keeps_bind triple_simple split: service_os.splits)
  obtain r1 h1 where s: "?stop h = (r1, h1)" by (cases "?stop h")
  show ?thesis
  proof (cases r1)
    case (Inl e)
    with run s True have "h' = h1 \<and> r = Inl e"
      by (auto simp: uninstall_service_def bindS_def)
    with frame s True Inl show ?thesis
      by (auto simp: triple_def registered_def dest!: spec [of _ h])
  next
    case (Inr u)
    with quiet s have q: "\<not> running loaded h1" by (auto simp: triple_def dest!: spec [of _ h])
    show ?thesis
    proof (cases fault)
      case (Some e)
      with run s True Inr q show ?thesis
        by (auto simp: uninstall_service_def bindS_def os_step_def failS_def registered_def running_def)
    next
      case None
      with run s True Inr have e: "?tail (h1\<lparr>ho_definition := None\<rparr>) = (r, h')"
        by (auto simp: uninstall_service_def bindS_def [of ?stop] bindS_def [of "os_step _"]
            bindS_def [of "\<lambda>h. (Inr (), _ h)"] os_step_def returnS_def)
      have "gone (h1\<lparr>ho_definition := None\<rparr>)" using q by (simp add: gone_def running_def)
      with finish e have "gone h'"
        by (auto simp: triple_def split: sum.splits dest!: spec [of _ "h1\<lparr>ho_definition := None\<rparr>"])
      then show ?thesis by (simp add: gone_def registered_def running_def)
    qed
  qed
qed


lemma registered_step:
  assumes "triple is_file f is_file is_file"
    and "triple (\<lambda>h. \<not> running loaded h) f (\<lambda>h. \<not> running loaded h) (\<lambda>h. \<not> running loaded h)"
  shows "triple (registered loaded) f (registered loaded) (registered loaded)"
  unfolding triple_def
proof (intro allI impI)
  fix s assume reg: "registered loaded s"
  obtain r s' where s: "f s = (r, s')" by (cases "f s")
  have "registered loaded s'"
  proof (cases "is_file s")
    case True
    with assms(1) s have "is_file s'" by (auto simp: triple_def split: sum.splits dest: spec [of _ s])
    then show ?thesis by (simp add: registered_def)
  next
    case False
    with reg have "\<not> running loaded s" by (simp add: registered_def running_def)
    with assms(2) s have "\<not> running loaded s'"
      by (auto simp: triple_def split: sum.splits dest!: spec [of _ s])
    then show ?thesis by (simp add: registered_def running_def)
  qed
  with s show "case f s of (Inl e, s') \<Rightarrow> registered loaded s' | (Inr a, s') \<Rightarrow> registered loaded s'"
    by (simp split: sum.splits)
qed

lemma stop_service_registered:
  assumes "documented_tool sh loaded"
  shows "triple (registered loaded) (stop_service sh) (registered loaded) (registered loaded)"
  by (rule registered_step [OF frame_keeps [OF stop_service_frame is_file_frame]
        stop_service_quiet [OF assms]])

lemma start_service_frame:
  "triple (same_files_on h) (start_service sh path) (same_files_on h) (same_files_on h)"
proof -
  have "triple (same_files_on h)
      (case sh_os sh of
         MacOS \<Rightarrow> bindS (checked sh [''launchctl'', ''enable'', launchd_target sh]) (\<lambda>_.
           checked sh [''launchctl'', ''bootstrap'', launchd_domain sh, path])
       | Linux \<Rightarrow> checked sh [''systemctl'', ''--user'', ''start'', systemd_label])
      (same_files_on h) (same_files_on h)"
    by (auto intro!: keeps_bind checked_frame split: service_os.splits)
  then show ?thesis by (simp add: triple_def start_service_def failS_def)
qed

lemma start_service_starts:
  assumes "documented_tool sh loaded" and "start_service sh path h = (Inr (), h')"
  shows "running loaded h' \<and> is_file h"
proof -
  have start: "triple (\<lambda>h. True) (checked sh [''launchctl'', ''bootstrap'', launchd_domain sh, path])
      (running loaded) (\<lambda>h. True)" if "sh_os sh = MacOS"
    using checked_starts [OF assms(1)] that by (simp add: starts_def)
  have "triple (\<lambda>h. True)
      (case sh_os sh of
         MacOS \<Rightarrow> bindS (checked sh [''launchctl'', ''enable'', launchd_target sh]) (\<lambda>_.
           checked sh [''launchctl'', ''bootstrap'', launchd_domain sh, path])
       | Linux \<Rightarrow> checked sh [''systemctl'', ''--user'', ''start'', systemd_label])
      (running loaded) (\<lambda>h. True)"
  proof (cases "sh_os sh")
    case Linux
    then show ?thesis using checked_starts [OF assms(1)] by (simp add: starts_def)
  next
    case MacOS
    have "triple (\<lambda>h. True) (checked sh [''launchctl'', ''enable'', launchd_target sh])
        (\<lambda>h. True) (\<lambda>h. True)"
      by (simp add: triple_def split: prod.splits sum.splits)
    from triple_bind [OF this start] MacOS show ?thesis by simp
  qed
  with assms(2) show ?thesis
    by (auto simp: start_service_def failS_def triple_def split: if_splits dest!: spec [of _ h])
qed

lemma service_run_registered:
  assumes doc: "documented_tool sh loaded" and reg: "registered loaded h"
  shows "registered loaded (snd (service_run sh command h))"
proof (cases "definition_path sh")
  case (Inl e)
  with reg show ?thesis by (simp add: service_run_def bindS_def liftS_def)
next
  case (Inr path)
  have start: "triple (registered loaded) (start_service sh path) (registered loaded) (registered loaded)"
  proof -
    have "triple is_file (start_service sh path) is_file is_file"
      by (rule frame_keeps [OF start_service_frame is_file_frame])
    then show ?thesis
      by (auto simp: triple_def registered_def start_service_def failS_def split: prod.splits sum.splits)
  qed
  have snd: "registered loaded (snd (f h))"
    if "triple (registered loaded) f (registered loaded) (registered loaded)" for f :: "(unit, 'a host) step"
    using that reg by (rule triple_snd)
  show ?thesis
  proof (cases command)
    case (Install su io p dry_run)
    show ?thesis
    proof (cases "ho_definition h = None")
      case True
      with reg have "\<not> running loaded h" by (simp add: registered_def running_def is_file_def)
      with install_service_quiet [OF doc, of su io p dry_run path]
      have "\<not> running loaded (snd (install_service sh su io p dry_run path h))"
        by (rule triple_snd)
      then show ?thesis by (simp add: service_run_def Inr Install registered_def running_def)
    next
      case False
      have same: "same_files_on h (snd (install_service sh su io p dry_run path h))"
        by (rule install_existing [OF False])
      have "loaded (ho_manager (snd (install_service sh su io p dry_run path h))) \<Longrightarrow> loaded (ho_manager h)"
        using False by (auto simp: install_service_def bindS_def liftS_def failS_def say_def
            split: sum.splits if_splits)
      with reg is_file_frame [OF same] show ?thesis
        by (auto simp: service_run_def Inr Install registered_def)
    qed
  next
    case (Uninstall fault)
    with uninstall_service_safe [OF doc reg] show ?thesis
      by (cases "uninstall_service sh fault path h") (auto simp: service_run_def Inr)
  qed (auto simp: service_run_def Inr intro!: snd start keeps_bind stop_service_registered [OF doc])
qed

fun service_history :: "'m service_host \<Rightarrow> service_command list \<Rightarrow> 'm host \<Rightarrow> 'm host" where
  "service_history sh [] h = h"
| "service_history sh (c # cs) h = service_history sh cs (snd (service_run sh c h))"

lemma service_history_registered:
  "documented_tool sh loaded \<Longrightarrow> registered loaded h \<Longrightarrow>
     registered loaded (service_history sh cs h)"
  by (induction cs arbitrary: h) (simp_all add: service_run_registered)

text \<open>What a command has achieved when it succeeds.\<close>

definition achieved ::
    "'m service_host \<Rightarrow> ('m \<Rightarrow> bool) \<Rightarrow> service_command \<Rightarrow> 'm host \<Rightarrow> 'm host \<Rightarrow> bool" where
  "achieved sh loaded command h h' \<longleftrightarrow>
     (case command of
        Install su io p dry_run \<Rightarrow>
          if dry_run then same_files_on h h'
          else ho_definition h = None \<and> ho_state_dir h' = Some 448 \<and>
            (\<exists>doc. install_checks sh su io p = Inr doc \<and> ho_definition h' = Some (RegularFile doc))
      | Start \<Rightarrow> same_files_on h h' \<and> is_file h \<and> running loaded h'
      | Stop \<Rightarrow> same_files_on h h' \<and> \<not> running loaded h'
      | Restart \<Rightarrow> same_files_on h h' \<and> is_file h \<and> running loaded h'
      | Uninstall fault \<Rightarrow> ho_definition h' = None \<and> \<not> running loaded h')"

lemma service_run_achieved:
  assumes doc: "documented_tool sh loaded" and reg: "registered loaded h"
    and run: "service_run sh command h = (Inr (), h')"
  shows "achieved sh loaded command h h'"
proof -
  from run obtain path where path: "definition_path sh = Inr path"
    by (cases "definition_path sh") (auto simp: service_run_def bindS_def liftS_def)
  have same: "same_files_on h h1" if "\<And>h. triple (same_files_on h) f (same_files_on h) (same_files_on h)"
    "f h = (r, h1)" for f :: "(unit, 'a host) step" and r h h1
    using that(1) [of h] that(2) by (auto simp: triple_def split: sum.splits dest!: spec [of _ h])
  show ?thesis
  proof (cases command)
    case (Install su io p dry_run)
    with run path have i: "install_service sh su io p dry_run path h = (Inr (), h')"
      by (simp add: service_run_def)
    show ?thesis
    proof (cases dry_run)
      case True
      with i install_dry_run [of h sh su io p path] Install show ?thesis by (simp add: achieved_def)
    next
      case False
      with install_done [of sh su io p path h h'] i Install show ?thesis by (auto simp: achieved_def)
    qed
  next
    case Start
    with run path have "start_service sh path h = (Inr (), h')" by (simp add: service_run_def)
    with start_service_starts [OF doc this] same [OF start_service_frame this] Start show ?thesis
      by (simp add: achieved_def)
  next
    case Stop
    with run path have s: "stop_service sh h = (Inr (), h')" by (simp add: service_run_def)
    with stop_service_stops [OF doc] have "\<not> running loaded h'"
      by (auto simp: triple_def dest!: spec [of _ h])
    with same [OF stop_service_frame s] Stop show ?thesis by (simp add: achieved_def)
  next
    case Restart
    with run path obtain h1 where s: "stop_service sh h = (Inr (), h1)" "start_service sh path h1 = (Inr (), h')"
      by (auto simp: service_run_def bindS_def split: prod.splits sum.splits)
    from start_service_starts [OF doc s(2)] same [OF start_service_frame s(2)]
      same [OF stop_service_frame s(1)] Restart show ?thesis
      by (auto simp: achieved_def same_files_on_def is_file_def)
  next
    case (Uninstall fault)
    with run path have "uninstall_service sh fault path h = (Inr (), h')" by (simp add: service_run_def)
    with uninstall_service_safe [OF doc reg this] Uninstall show ?thesis by (simp add: achieved_def)
  qed
qed

text \<open>C36: The service commands keep a running service registered and never replace a
  registration.  Whatever sequence of commands is given, with whatever failures of the
  disk and of the service manager's tool, a service that is loaded has its definition file;
  a definition that exists is changed by no command but an uninstallation, also when
  somebody else puts it there during an installation; and a command that succeeds has done
  what it is for - an installation has written the definition of the service, with the
  state directory private, a start or restart leaves it running, a stop or uninstallation
  not.\<close>
theorem service_commands_keep_registration:
  assumes "documented_tool sh loaded" and "registered loaded h0"
    and "h = service_history sh cs h0" and "service_run sh command h = (r, h')"
  shows "registered loaded h \<and> registered loaded h' \<and>
    (ho_definition h \<noteq> None \<longrightarrow> (\<forall>fault. command \<noteq> Uninstall fault) \<longrightarrow>
       ho_definition h' = ho_definition h) \<and>
    (r = Inr () \<longrightarrow> achieved sh loaded command h h')"
proof -
  have reg: "registered loaded h"
    using service_history_registered assms(1-3) by blast
  have "ho_definition h' = ho_definition h"
    if there: "ho_definition h \<noteq> None" and other: "\<forall>fault. command \<noteq> Uninstall fault"
  proof (cases "definition_path sh")
    case (Inl e)
    with assms(4) show ?thesis by (auto simp: service_run_def bindS_def liftS_def)
  next
    case (Inr path)
    have same: "same_files_on h (snd (f h))"
      if "triple (same_files_on h) f (same_files_on h) (same_files_on h)" for f :: "(unit, 'a host) step"
      using that by (rule triple_snd) simp
    have "same_files_on h (snd (service_run sh command h))"
    proof (cases command)
      case (Install su io p dry_run)
      with install_existing [OF there] show ?thesis by (simp add: service_run_def Inr)
    next
      case Restart
      with same [OF keeps_bind [OF stop_service_frame start_service_frame]] show ?thesis
        by (simp add: service_run_def Inr)
    next
      case (Uninstall fault)
      with other show ?thesis by blast
    qed (use same [OF start_service_frame] same [OF stop_service_frame] in
        \<open>simp_all add: service_run_def Inr\<close>)
    then have "ho_definition (snd (service_run sh command h)) = ho_definition h"
      by (simp add: same_files_on_def)
    with assms(4) show ?thesis by simp
  qed
  with reg service_run_registered [OF assms(1) reg, of command] service_run_achieved [OF assms(1) reg]
    assms(4) show ?thesis by auto
qed


section \<open>An example\<close>

definition example_launchd :: "string list \<Rightarrow> bool \<Rightarrow> tool_output \<times> bool" where
  "example_launchd args m =
     (if take 2 args = [''launchctl'', ''bootstrap''] then (Finished (Some 0) [] [], True)
      else if take 2 args = [''launchctl'', ''bootout''] then (Finished (Some 0) [] [], False)
      else if take 2 args = [''launchctl'', ''print''] \<and> \<not> m then (Finished (Some 113) [] [], m)
      else (Finished (Some 0) [] [], m))"

definition example_host :: "bool service_host" where
  "example_host =
     \<lparr>sh_os = MacOS, sh_tool = example_launchd, sh_uid = ''501'', sh_home = Some (''/h'', ''/h/c''),
      sh_show_command = concat, sh_show_status = (\<lambda>s. [])\<rparr>"

definition example_installed :: "bool host" where
  "example_installed =
     \<lparr>ho_definition = Some (RegularFile ''d''), ho_state_dir = Some 448, ho_manager = False,
      ho_printed = []\<rparr>"

theorem service_commands_keep_registration_witness:
  "running (\<lambda>m. m) (service_history example_host [Start] example_installed) \<and>
   (\<exists>h'. service_run example_host Stop (service_history example_host [Start] example_installed) = (Inr (), h') \<and>
     \<not> running (\<lambda>m. m) h' \<and> is_file h')"
proof -
  have doc: "documented_tool example_host (\<lambda>m. m)"
    by (simp add: documented_tool_def example_host_def example_launchd_def starts_def stops_def)
  have reg: "registered (\<lambda>m. m) example_installed"
    by (simp add: registered_def example_installed_def)
  note run = service_run_def bindS_def liftS_def definition_path_def example_host_def
    example_installed_def start_service_def stop_service_def is_file_def checked_def tool_call_def
    example_launchd_def say_def returnS_def
  have started: "service_history example_host [Start] example_installed = example_installed\<lparr>ho_manager := True\<rparr>"
    by (simp add: run)
  have stopped: "service_run example_host Stop (example_installed\<lparr>ho_manager := True\<rparr>) =
      (Inr (), example_installed)"
    by (simp add: run)
  from service_commands_keep_registration [OF doc reg started [symmetric] stopped]
  show ?thesis
    unfolding started using stopped
    by (simp add: achieved_def running_def is_file_def example_installed_def)
qed

end
