(* ===== verification/Entry_Points.thy ===== *)
theory Entry_Points
  imports Startup Cli_Config Service_Commands
begin

text \<open>
  The programs themselves: \<open>main\<close>, \<open>run\<close> and \<open>dispatch\<close> of \<open>main.rs\<close>, and \<open>bin/watchcatd.rs\<close>.
  The command line is already parsed; each command works on the part of the world it is for:
  the service behind the socket, the configuration file, the log of the dialogs, or the
  registration of the service.
\<close>


section \<open>watchcat\<close>

datatype cli_command =
    Service_Status bool
  | Service_Logs nat bool bool
  | Service_Control service_command
  | Session_Cli session_cli
  | Dialog_Cli dialog_cli
  | Policy_Cli policy_cli
  | Config_Cli config_cli

record ('s, 'b, 'm) cli_world =
  cw_service :: 's
  cw_config :: "'b option"
  cw_dialogs :: "string option"
  cw_host :: "'m host"

text \<open>
  The environment and what is called outside the program; \<open>ci_client\<close> is the client for a
  socket, \<open>ci_logging\<close> the failure of the logging set-up.
\<close>

record ('s, 'b, 'm) cli_calls =
  ci_surroundings :: surroundings
  ci_logging :: "string option"
  ci_env :: cli_env
  ci_client :: "string \<Rightarrow> 's command_client"
  ci_location :: "string \<Rightarrow> location"
  ci_config_codec :: "('b, settings) codec"
  ci_default_text :: 'b
  ci_defaults :: "settings result"
  ci_toml :: "settings \<Rightarrow> string result"
  ci_config_io :: "'b config_io"
  ci_dialog_codec :: dialog_codec
  ci_event_json :: "dialog_event \<Rightarrow> json"
  ci_local_time :: "timestamp \<Rightarrow> string"
  ci_log_fault :: read_fault
  ci_host :: "'m service_host"

text \<open>The filter when the environment gives none that parses.\<close>

definition cli_log_filter :: "string option \<Rightarrow> nat \<Rightarrow> string" where
  "cli_log_filter from_env verbose =
     unwrap_or from_env
       (if verbose = 0 then ''watchcat=warn'' else if verbose = 1 then ''watchcat=info''
        else ''watchcat=debug'')"

text \<open>\<open>events::path\<close>: the log lies beside the socket.\<close>

definition dialog_log_path :: "string \<Rightarrow> string" where
  "dialog_log_path socket =
     (case path_parent socket of
        None \<Rightarrow> path_join socket ''dialog-events.jsonl''
      | Some directory \<Rightarrow> path_join directory ''dialog-events.jsonl'')"

definition on_part :: "('w \<Rightarrow> 'p) \<Rightarrow> ('p \<Rightarrow> 'w \<Rightarrow> 'w) \<Rightarrow> ('a, 'p) step \<Rightarrow> ('a, 'w) step" where
  "on_part part put f w = (case f (part w) of (r, q) \<Rightarrow> (r, put q w))"

abbreviation on_service :: "('a, 's) step \<Rightarrow> ('a, ('s, 'b, 'm) cli_world) step" where
  "on_service \<equiv> on_part cw_service (\<lambda>q. cw_service_update (\<lambda>_. q))"

definition dispatch_command ::
    "('s, 'b, 'm) cli_calls \<Rightarrow> paths \<Rightarrow> cli_command \<Rightarrow> (shown list, ('s, 'b, 'm) cli_world) step" where
  "dispatch_command io p command =
     (let env = ci_env io; client = ci_client io (pa_socket_file p)
      in case command of
        Service_Status json_output \<Rightarrow> on_service (service_status env client json_output)
      | Service_Logs limit clicks json_output \<Rightarrow> (\<lambda>w.
          (service_logs (ci_dialog_codec io) (ci_location io (dialog_log_path (pa_socket_file p)))
             (ci_event_json io) (ci_local_time io) (ci_log_fault io) limit clicks json_output
             (cw_dialogs w), w))
      | Dialog_Cli c \<Rightarrow> on_service (dialog_command env client c)
      | Service_Control c \<Rightarrow>
          bindS (on_part cw_host (\<lambda>q. cw_host_update (\<lambda>_. q)) (service_run (ci_host io) c))
            (\<lambda>_. returnS [])
      | Policy_Cli c \<Rightarrow> on_service (policy_command env client c)
      | Config_Cli c \<Rightarrow>
          on_part cw_config (\<lambda>q. cw_config_update (\<lambda>_. q))
            (run_config (ci_config_codec io) (ci_location io (pa_config_file p)) (ci_default_text io)
               (ci_defaults io) (ci_toml io) p (ci_config_io io) c)
      | Session_Cli c \<Rightarrow> on_service (session_command env client c))"

definition run_cli ::
    "('s, 'b, 'm) cli_calls \<Rightarrow> string option \<Rightarrow> cli_command \<Rightarrow>
     (shown list, ('s, 'b, 'm) cli_world) step" where
  "run_cli io config_override command =
     bindS (liftS (case ci_logging io of None \<Rightarrow> Inr () | Some os \<Rightarrow> bail os)) (\<lambda>_.
     bindS (liftS (discover_paths (ci_surroundings io) config_override)) (\<lambda>p.
       dispatch_command io p command))"

text \<open>
  \<open>main\<close>: the exit status and the line on the standard error.  A panic ends the process with
  101 before it gets there.
\<close>

definition exit_of :: "string \<Rightarrow> 'a result \<Rightarrow> nat \<times> string" where
  "exit_of name r =
     (case r of
        Inr _ \<Rightarrow> (0, [])
      | Inl e \<Rightarrow> if is_panic e then (101, []) else (2, name @ '': '' @ error_chain_text e))"

definition cli_main ::
    "('s, 'b, 'm) cli_calls \<Rightarrow> string option \<Rightarrow> cli_command \<Rightarrow> ('s, 'b, 'm) cli_world \<Rightarrow>
     nat \<times> string \<times> ('s, 'b, 'm) cli_world" where
  "cli_main io config_override command w =
     (case run_cli io config_override command w of (r, w') \<Rightarrow>
        (fst (exit_of ''watchcat'' r), snd (exit_of ''watchcat'' r), w'))"


section \<open>watchcatd\<close>

definition daemon_log_filter :: "string option \<Rightarrow> nat \<Rightarrow> string" where
  "daemon_log_filter from_env verbose =
     unwrap_or from_env
       (if verbose = 0 then ''watchcat=info'' else if verbose = 1 then ''watchcat=debug''
        else ''watchcat=trace'')"

text \<open>The arguments that matter here, and the outcome of writing the ready file and of the wait.\<close>

record daemon_cli =
  dn_config :: "string option"
  dn_dry_run :: bool
  dn_hold :: "string option"
  dn_ready :: "string option"

record daemon_io =
  di_start :: start_script
  di_ready :: "string option"
  di_signal :: "string option"

text \<open>
  With \<open>--hold-update-lock\<close> the process only takes that lock, says so, and keeps it until it is
  interrupted; the lock is given back when the function returns, in whatever way.
\<close>

definition hold_update_lock ::
    "('k, 'z) file_lock_scheme \<Rightarrow> location \<Rightarrow> daemon_cli \<Rightarrow> daemon_io \<Rightarrow> nat \<Rightarrow>
     (unit, 'k host_state) step" where
  "hold_update_lock lk path cli io p =
     bindS (acquire_lock lk path (di_start io) p) (\<lambda>_ w.
       (bindR (case dn_ready cli of None \<Rightarrow> Inr () | Some f \<Rightarrow> attempt (di_ready io)) (\<lambda>_.
          attempt (di_signal io)),
        w\<lparr>hs_lock := lk_free lk p (hs_lock w)\<rparr>))"

definition run_daemon ::
    "('k, 'z) file_lock_scheme \<Rightarrow> (string \<Rightarrow> location) \<Rightarrow> surroundings \<Rightarrow>
     (paths \<Rightarrow> bool \<Rightarrow> (unit, 'k host_state) step) \<Rightarrow> daemon_cli \<Rightarrow> daemon_io \<Rightarrow> nat \<Rightarrow>
     (unit, 'k host_state) step" where
  "run_daemon lk location_of su serve cli io p =
     bindS (liftS (discover_paths su (dn_config cli))) (\<lambda>paths.
       case dn_hold cli of
         Some path \<Rightarrow> hold_update_lock lk (location_of path) cli io p
       | None \<Rightarrow> serve paths (dn_dry_run cli))"


section \<open>What a command can change\<close>

definition same_files_as :: "('s, 'b, 'm) cli_world \<Rightarrow> ('s, 'b, 'm) cli_world \<Rightarrow> bool" where
  "same_files_as w w' \<longleftrightarrow>
     cw_config w' = cw_config w \<and> cw_dialogs w' = cw_dialogs w \<and> cw_host w' = cw_host w"

lemma run_cli_cases:
  assumes "run_cli io over command w = (r, w')"
  obtains (early) e where "r = Inl e" and "w' = w"
    | (ran) p where "discover_paths (ci_surroundings io) over = Inr p"
      and "dispatch_command io p command w = (r, w')"
  using assms by (auto simp: run_cli_def liftS_def elim!: bindS_cases split: option.splits)

text \<open>
  A command that talks to the service changes no file itself; the others leave the service
  alone.  Only \<open>config init\<close> writes the configuration.
\<close>

fun talks_to_service :: "cli_command \<Rightarrow> bool" where
  "talks_to_service (Service_Logs limit clicks j) \<longleftrightarrow> False"
| "talks_to_service (Service_Control c) \<longleftrightarrow> False"
| "talks_to_service (Config_Cli c) \<longleftrightarrow> False"
| "talks_to_service c \<longleftrightarrow> True"

lemma service_command_keeps_files:
  assumes "run_cli io over command w = (r, w')" and "talks_to_service command"
  shows "same_files_as w w'"
  using assms(1)
proof (cases rule: run_cli_cases)
  case early
  then show ?thesis by (simp add: same_files_as_def)
next
  case (ran p)
  with assms(2) show ?thesis
    by (cases command) (auto simp: dispatch_command_def on_part_def same_files_as_def split: prod.splits)
qed

lemma local_command_keeps_service:
  assumes "run_cli io over command w = (r, w')" and "\<not> talks_to_service command"
  shows "cw_service w' = cw_service w \<and> cw_dialogs w' = cw_dialogs w"
  using assms(1)
proof (cases rule: run_cli_cases)
  case early
  then show ?thesis by simp
next
  case (ran p)
  with assms(2) show ?thesis
    by (cases command)
      (auto simp: dispatch_command_def on_part_def returnS_def elim!: bindS_cases split: prod.splits)
qed

lemma only_init_writes_config:
  assumes "run_cli io over command w = (r, w')" and "\<forall>force. command \<noteq> Config_Cli (Init_Config force)"
  shows "cw_config w' = cw_config w"
  using assms(1)
proof (cases rule: run_cli_cases)
  case early
  then show ?thesis by simp
next
  case (ran p)
  show ?thesis
  proof (cases command)
    case (Config_Cli c)
    with ran assms(2) show ?thesis
      by (cases c) (auto simp: dispatch_command_def on_part_def run_config_def returnS_def)
  qed (use ran in \<open>auto simp: dispatch_command_def on_part_def returnS_def elim!: bindS_cases
      split: prod.splits\<close>)
qed

text \<open>Asking for the status succeeds whether or not a service answers.\<close>

lemma status_always_answers:
  assumes "ci_logging io = None" and "discover_paths (ci_surroundings io) over = Inr p"
  shows "fst (cli_main io over (Service_Status j) w) = 0"
  using assms
  by (auto simp: cli_main_def run_cli_def dispatch_command_def on_part_def service_status_def
      liftS_def bindS_def exit_of_def Let_def split: prod.splits sum.splits)

lemma exit_zero: "fst (exit_of name r) = 0 \<longleftrightarrow> (\<exists>x. r = Inr x)"
  by (auto simp: exit_of_def split: sum.splits)

text \<open>Whoever holds the update lock gives it back; without it nothing but the lock file is touched.\<close>

lemma update_lock_given_back:
  assumes "exclusive lk holder" and "holder (hs_lock w) \<noteq> Some p"
    and "hold_update_lock lk path cli io p w = (r, w')"
  shows "holder (hs_lock w') = holder (hs_lock w) \<and> hs_socket w' = hs_socket w \<and>
    hs_stage w' = hs_stage w"
proof -
  have taken: "holder k' = Some p \<and> holder (hs_lock w) = None \<and> holder (lk_free lk p k') = None"
    if "lk_try lk p (hs_lock w) = Some k'" for k'
    using exclusiveD(1,2) [OF assms(1)] that by fastforce
  show ?thesis
    using assms(3) taken
    by (auto simp: hold_update_lock_def acquire_lock_def bindS_def Let_def
        split: option.splits sum.splits prod.splits)
qed

end
