(* ===== verification/Spec2Isabelle.thy ===== *)
theory Spec2Isabelle
  imports Codex_World Executables Windows_Pipe Monitor_Service Cli_World Entry_Points
begin

text \<open>
  Watchcat: a service that resumes interrupted AI coding sessions.

  \<^bold>\<open>The program.\<close>  The daemon \<open>watchcatd\<close> keeps a list of watched sessions, looks at them
  through one adapter per provider (Codex, Claude), classifies the failure of a session's
  latest turn, and resumes the session when its policy allows it.  Users change settings,
  the watch list and retry by hand with the command \<open>watchcat\<close>, through a local RPC; on macOS
  the service also presses the button of consent dialogs that a rule names.  What must not
  happen is that a message is sent twice, to a session the user has removed, or under
  settings that are no longer in force; that a lost acknowledgement is taken for a failure;
  that a change is lost or answered without being on disk; and that a dialog is answered
  which no rule covers or that is not on record.

  \<^bold>\<open>Parts, in the order of the theories.\<close>

  \<^item> \<open>Prelude\<close>, \<open>Text\<close>, \<open>Reading\<close>, \<open>Json\<close>, \<open>Steps\<close>: results with the errors of \<open>anyhow\<close> and
    panics as values, machine integers, time, the dictionaries (locale \<open>dictionary\<close>, for
    hash maps and ordered maps), bounded buffers; the string operations of the standard
    library on UTF-8 bytes; lines of a file that is being written; \<open>serde_json::Value\<close>; calls
    with an effect chained by \<open>?\<close>.
  \<^item> \<open>Models\<close> (\<open>models.rs\<close>), \<open>Conditions\<close> (\<open>conditions.rs\<close>): the data and the table of failure
    conditions.
  \<^item> \<open>Config\<close>, \<open>Settings_Json\<close>, \<open>Paths\<close> (\<open>config.rs\<close>), \<open>Storage\<close> (\<open>atomic_write\<close> of \<open>config.rs\<close>,
    the JSON documents of \<open>state.rs\<close>), \<open>Watchlist\<close>, \<open>Runtime_State\<close>, \<open>Control_State\<close>, \<open>Event_Log\<close>
    (\<open>state.rs\<close>): what is on disk and where, with every step of a write that can fail.
  \<^item> \<open>Engine\<close>, \<open>Engine_Ops\<close> (\<open>engine.rs\<close>): the pass over the sessions, the permit and the
    generation it carries, the manual retry.
  \<^item> \<open>Providers\<close> (\<open>providers/mod.rs\<close>), \<open>Classification\<close>, \<open>Claude\<close> (\<open>providers/claude.rs\<close>), \<open>Codex\<close>
    (\<open>providers/codex.rs\<close>); \<open>Framing\<close>, \<open>Desktop_Ipc\<close>, \<open>Windows_Pipe\<close> (\<open>transport/codex_desktop.rs\<close>)
    and \<open>Jsonrpc\<close>, \<open>Executables\<close> (\<open>transport/jsonrpc.rs\<close>): the adapters and the two transports of
    Codex; \<open>Codex_World\<close> puts the adapter on both transports.
  \<^item> \<open>Protocol\<close> (\<open>protocol.rs\<close>), \<open>Daemon_Control\<close>, \<open>Retry_Registry\<close>, \<open>Reconcile\<close>,
    \<open>Daemon_Requests\<close>, \<open>Subscriptions\<close>, \<open>Serving\<close>, \<open>Startup\<close> (\<open>daemon.rs\<close>, and \<open>ProcessLock\<close> of
    \<open>state.rs\<close>): the requests, the control plane under its revision, the registry of manual
    retries, the reconciliation loop, the connections with their notifications, and how
    processes compete for the state directory.
  \<^item> \<open>Dialog_Rules\<close>, \<open>Dialog_Match\<close>, \<open>Dialog_Monitor\<close>, \<open>Monitor_Service\<close>, \<open>Dialog_Log\<close>
    (\<open>os_permissions.rs\<close> and \<open>os_permissions/\<close>): the rules, the inspection of a window, the
    monitor that presses, its life inside the service, and the audit log.
  \<^item> \<open>Terminal\<close>, \<open>Cli\<close>, \<open>Cli_Config\<close> (\<open>main.rs\<close>), \<open>Client\<close> (\<open>client.rs\<close>), \<open>Cli_World\<close>,
    \<open>Service_Unit\<close>, \<open>Service_Commands\<close> (\<open>service.rs\<close>), \<open>Entry_Points\<close> (\<open>main.rs\<close>,
    \<open>bin/watchcatd.rs\<close>): what the command line reads, asks for and shows, one exchange with the
    service over both ends' frames, a command with everything that may happen between its
    two requests, the registration of the service, and the two programs as a whole.

  \<^bold>\<open>State and operations.\<close>  A struct is a record, an enum a datatype with the constructors of
  the source, a fallible function returns \<open>error + 'a\<close> with every early return and panic as a
  branch.  A file is the option of its content: \<open>None\<close> is no file, and a function that
  writes returns the content it leaves, also when it fails.  What is outside the program
  comes in as an argument: the answers of the providers' processes, of the disk, of the
  clock and of the operating system as scripts (records named \<open>*_script\<close>, \<open>*_io\<close>, \<open>fault\<close>),
  functions of other crates (the texts of serde and TOML, \<open>chrono\<close>, Unicode lower
  case) as fields of an environment.  What a theorem relies on there are hypotheses on
  these fields, such as that a codec reads what it wrote (\<open>env_ok\<close>, \<open>dialog_line_ok\<close>), that
  \<open>chrono\<close> is exact where it answers (\<open>chrono_exact\<close>), or that the lock of fs2 is exclusive
  (\<open>exclusive\<close>); each is shown to be satisfiable by the witness of the theorem.

  \<^bold>\<open>What the lemmas show.\<close>  Of the engine: what it sends, to whom and how often, and what a
  manual retry reports.  Of the stores: what they keep, with every failing write.  Of the
  service: it is a state machine whose revisions, permits, settings and manual retries stay
  consistent under requests and reconciliations in any order, and whose removals and
  changes take effect before they are answered.  Of the adapters: the classification is well
  typed, reading on is reading again, discovery ends and is complete, a failure of a
  transport says whether the message went out, and one call starts one turn over both
  transports of Codex.  Of the dialogs: they are answered by an enabled rule, once while
  their process stays observed, on record, and not after the service has said so; the
  record survives.  Of the rest: the
  installed service works on the files of the command that installed it, a command loses no
  edit, subscribers are told of every change, and one service runs at a time.

  \<^bold>\<open>How the proofs are built.\<close>  Interfaces are locales, each interpreted on the model in the
  theory that provides it: \<open>dictionary\<close> (both kinds of maps), \<open>replacing_write\<close> and
  \<open>transactional\<close> (a write, or an operation, that leaves everything alone when it fails: the
  revision, the providers of the engine, the registry of retries), \<open>frame_header\<close> (both byte
  orders), \<open>cursor_catalogue\<close> (pages that end), \<open>escaping\<close> (both service files) and \<open>versioned\<close>
  (an edit under a revision).  State machines are inductive relations or functions over a
  history of events, with an invariant that every step keeps (\<open>daemon_reachable\<close>,
  \<open>retry_reachable\<close>, \<open>listening\<close>, \<open>hosting\<close>, \<open>desk_history\<close>).

  \<^bold>\<open>Loops and bounds.\<close>  Every loop is a total function with a measure: the bytes left to read,
  the frames left in an inbox, the elements not yet visited of the 256 a window may have, the
  sessions still wanted.  The one loop whose end depends on a provider, the paging of
  sessions, is a partial function whose value is \<open>None\<close> when it does not return, and a
  property of \<open>Codex\<close> shows that it returns.  There is no fuel.  64- and 32-bit integers are
  words, with the saturation of the source written out; \<open>usize\<close> is a natural number with its bound of \<open>2 ^ 64\<close> written
  where the code checks it.  The Windows parts take a word of eight bytes.

  \<^bold>\<open>Where the code falls short.\<close>  Some lemmas prove what the code does and should not do:
  \<open>torn_character_breaks_reading\<close> (\<open>Dialog_Log\<close>), \<open>reused_address_hides_field\<close> (\<open>Dialog_Match\<close>),
  \<open>hand_edit_overwritten\<close> (\<open>Cli_World\<close>), \<open>undelivered_change_not_announced\<close>,
  \<open>failed_round_not_announced\<close> and \<open>large_request_dropped\<close> (\<open>Serving\<close>).  Two lemmas mark where
  the code does less than the documents say, and the properties beside them are stated
  without these cases: \<open>send_ignores_revision\<close> (\<open>Serving\<close>), a message or an interrupt goes to
  the provider whatever revision it names, and \<open>reattached_process_pressed_again\<close>
  (\<open>Dialog_Monitor\<close>), a process that is dropped and attached anew has its requests pressed
  again.

  \<^bold>\<open>Not modelled.\<close>

  \<^item> The interleaving of threads inside one request or one pass: a section under a lock is
    one step.  What the code does between two locks, such as the permit that is read again
    before a message is sent, or a stop that falls into the scan of a window, is a value of
    the script or a step of its own.
  \<^item> The scheduler, channels and semaphores of tokio beyond their documented promises; the
    broadcast channel and the permits of \<open>Subscriptions\<close> are parameters with these promises.
  \<^item> Foreign calls into Cocoa, Accessibility and Win32: their answers are arguments, the
    registration of callbacks and the memory they work on are left out, except for the
    handles of \<open>Windows_Pipe\<close> and the addresses in \<open>Dialog_Match\<close>.
  \<^item> Parsing of the command line by clap and the subscriber of the log: \<open>Entry_Points\<close> starts
    with the parsed command.  Log messages are not effects.
  \<^item> The texts of serde, TOML and \<open>chrono\<close>, which are parameters; what serde derives for the
    settings is in \<open>Settings_Json\<close>.
  \<^item> \<open>lib.rs\<close>, which only declares modules, and the tests.
\<close>

end
